(* ===== verification/Prelude.thy ===== *)
theory Prelude
  imports Main "HOL-Library.Word" "HOL-Library.List_Lexorder" "HOL-Library.Char_ord"
    "HOL-Library.Sublist"
begin

text \<open>
  What every theory of the development shares: Go's integer types, byte strings and their
  big-endian integers, the result type of a fallible Go function, the string functions of
  package strings the code calls, association lists for Go maps, and the collections of facts
  the component proofs use.

  Integers. uint8/16/32/64 are words of their width. int64 (nanosecond clocks, durations) is
  \<open>int\<close> with the wrap-around \<open>i64\<close> written out at every addition and subtraction
  the code makes. A Go string and a []byte are both lists of bytes, and a byte is HOL's
  8-bit \<open>char\<close>, so string literals can be written as such and the order of Go strings
  is the lexicographic order of byte lists.
\<close>

named_theorems wf_intros \<open>introduction rules of the well-formedness invariants\<close>
named_theorems step_defs \<open>definitions of operations, unfolded together in preservation proofs\<close>
named_theorems float_simps \<open>class and order facts on IEEE values\<close>

section \<open>Results\<close>

text \<open>A Go function that returns (T, error): \<open>Inl\<close> is the error, \<open>Inr\<close> the value.\<close>

type_synonym ('e, 'a) result = "'e + 'a"

definition bind_result :: "('e, 'a) result \<Rightarrow> ('a \<Rightarrow> ('e, 'b) result) \<Rightarrow> ('e, 'b) result" where
  "bind_result r f = (case r of Inl e \<Rightarrow> Inl e | Inr x \<Rightarrow> f x)"

definition guard_result :: "bool \<Rightarrow> 'e \<Rightarrow> ('e, 'a) result \<Rightarrow> ('e, 'a) result" where
  \<comment> \<open>if bad { return err }; rest\<close>
  "guard_result bad e rest = (if bad then Inl e else rest)"

definition is_ok :: "('e, 'a) result \<Rightarrow> bool" where
  "is_ok r = (case r of Inl _ \<Rightarrow> False | Inr _ \<Rightarrow> True)"

lemma bind_result_simps [simp]:
  "bind_result (Inl e) f = Inl e"
  "bind_result (Inr x) f = f x"
  by (simp_all add: bind_result_def)

lemma bind_result_Inr:
  "bind_result r f = Inr y \<longleftrightarrow> (\<exists>x. r = Inr x \<and> f x = Inr y)"
  by (cases r) auto

lemma bind_result_Inl:
  "bind_result r f = Inl e \<longleftrightarrow> r = Inl e \<or> (\<exists>x. r = Inr x \<and> f x = Inl e)"
  by (cases r) auto

lemma guard_result_simps [simp]:
  "guard_result True e r = Inl e"
  "guard_result False e r = r"
  by (simp_all add: guard_result_def)

lemma guard_result_Inr:
  "guard_result b e r = Inr y \<longleftrightarrow> \<not> b \<and> r = Inr y"
  by (cases b) auto

lemma guard_result_Inl:
  "guard_result b e r = Inl e' \<longleftrightarrow> (b \<and> e = e') \<or> (\<not> b \<and> r = Inl e')"
  by (cases b) auto

lemma is_ok_simps [simp]: "is_ok (Inl e) = False" "is_ok (Inr x) = True"
  by (simp_all add: is_ok_def)

lemma is_ok_iff: "is_ok r \<longleftrightarrow> (\<exists>x. r = Inr x)"
  by (cases r) auto

lemmas result_iffs = bind_result_Inr bind_result_Inl guard_result_Inr guard_result_Inl

text \<open>A range loop that may return early: the body folds over the list until the first error.\<close>

fun fold_result :: "('a \<Rightarrow> 's \<Rightarrow> ('e, 's) result) \<Rightarrow> 'a list \<Rightarrow> 's \<Rightarrow> ('e, 's) result" where
  "fold_result f [] s = Inr s"
| "fold_result f (x # xs) s = bind_result (f x s) (fold_result f xs)"

lemma fold_result_append:
  "fold_result f (xs @ ys) s = bind_result (fold_result f xs s) (fold_result f ys)"
  by (induction xs arbitrary: s) (auto simp: bind_result_def split: sum.splits)

lemma fold_result_invariant:
  assumes "fold_result f xs s = Inr t" and "P s"
    and "\<And>x s t. x \<in> set xs \<Longrightarrow> P s \<Longrightarrow> f x s = Inr t \<Longrightarrow> P t"
  shows "P t"
  using assms
proof (induction xs arbitrary: s)
  case Nil
  then show ?case by simp
next
  case (Cons x xs)
  from Cons.prems(1) obtain u where u: "f x s = Inr u" "fold_result f xs u = Inr t"
    by (auto simp: bind_result_Inr)
  have "P u" using Cons.prems(3) [OF _ Cons.prems(2) u(1)] by simp
  with Cons.IH [OF u(2)] Cons.prems(3) show ?case by (meson list.set_intros(2))
qed

section \<open>Integers\<close>

type_synonym u8 = "8 word"
type_synonym u16 = "16 word"
type_synonym u32 = "32 word"
type_synonym u64 = "64 word"

definition i64 :: "int \<Rightarrow> int" where
  \<comment> \<open>the two's complement int64 that an exact result wraps to\<close>
  "i64 x = (x + 2 ^ 63) mod 2 ^ 64 - 2 ^ 63"

definition max_int64 :: int where "max_int64 = 2 ^ 63 - 1"

definition is_i64 :: "int \<Rightarrow> bool" where
  "is_i64 x \<longleftrightarrow> - (2 ^ 63) \<le> x \<and> x \<le> max_int64"

lemma i64_id [simp]: "is_i64 x \<Longrightarrow> i64 x = x"
  by (simp add: i64_def is_i64_def max_int64_def)

lemma is_i64_i64 [simp]: "is_i64 (i64 x)"
proof -
  have "0 \<le> (x + 2 ^ 63) mod 2 ^ 64" "(x + 2 ^ 63) mod 2 ^ 64 < 2 ^ 64"
    by (rule pos_mod_sign pos_mod_bound, simp)+
  then show ?thesis by (simp add: i64_def is_i64_def max_int64_def)
qed

lemma is_i64_range: "- 9223372036854775808 \<le> x \<Longrightarrow> x \<le> 9223372036854775807 \<Longrightarrow> is_i64 x"
  by (simp add: is_i64_def max_int64_def)

text \<open>math.MaxUint64 and the saturating increment the code writes with it.\<close>

definition max_u64 :: u64 where "max_u64 = - 1"

lemma unat_max_u64: "unat max_u64 = 2 ^ 64 - 1"
  by (simp add: max_u64_def unsigned_minus_1_eq_mask mask_eq_exp_minus_1)

lemma le_max_u64 [simp]: "x \<le> max_u64"
  by (simp add: max_u64_def)

lemma max_u64_ne_0 [simp]: "max_u64 \<noteq> 0" "0 \<noteq> max_u64"
  by (simp_all add: max_u64_def)

lemma less_max_u64_iff: "x < max_u64 \<longleftrightarrow> x \<noteq> max_u64"
  using le_max_u64 [of x] by (auto simp: order_less_le)

lemma succ_u64: "x < max_u64 \<Longrightarrow> unat (x + 1) = unat x + 1"
proof -
  assume "x < max_u64"
  then have "x + 1 \<noteq> 0"
    by (auto simp: max_u64_def add_eq_0_iff2)
  then show ?thesis by (metis Suc_eq_plus1 add.commute unatSuc)
qed

lemma succ_u64_greater: "x < max_u64 \<Longrightarrow> x < x + 1"
  using succ_u64 [of x] by (simp add: word_less_nat_alt)

section \<open>Byte strings\<close>

type_synonym bytes = string

definition NUL :: char where "NUL = CHR 0x00"

text \<open>encoding/binary's big-endian PutUint32/Uint32 and PutUint64.\<close>

definition put_uint32 :: "u32 \<Rightarrow> bytes" where
  "put_uint32 w = (let n = uint w in
     [char_of (n div 2 ^ 24), char_of (n div 2 ^ 16), char_of (n div 2 ^ 8), char_of n])"

definition put_uint64 :: "u64 \<Rightarrow> bytes" where
  "put_uint64 w = (let n = uint w in
     [char_of (n div 2 ^ 56), char_of (n div 2 ^ 48), char_of (n div 2 ^ 40), char_of (n div 2 ^ 32),
      char_of (n div 2 ^ 24), char_of (n div 2 ^ 16), char_of (n div 2 ^ 8), char_of n])"

fun be_int :: "int \<Rightarrow> bytes \<Rightarrow> int" where
  "be_int acc [] = acc"
| "be_int acc (b # bs) = be_int (acc * 256 + of_char b) bs"

definition get_uint32 :: "bytes \<Rightarrow> u32" where
  "get_uint32 bs = word_of_int (be_int 0 bs)"

lemma length_put_uint32 [simp]: "length (put_uint32 w) = 4"
  by (simp add: put_uint32_def Let_def)

lemma length_put_uint64 [simp]: "length (put_uint64 w) = 8"
  by (simp add: put_uint64_def Let_def)

lemma mod_256_step: "0 < m \<Longrightarrow> n mod (m * 256) = (n div 256 mod m) * 256 + n mod (256 :: int)"
  using zmod_zmult2_eq [of m n 256] by (simp add: mult.commute)

lemma split_bytes32:
  fixes n :: int
  shows "(((n div 2 ^ 24 mod 256) * 256 + n div 2 ^ 16 mod 256) * 256 + n div 2 ^ 8 mod 256) * 256
      + n mod 256 = n mod 2 ^ 32"
proof -
  have d: "n div 256 div 256 = n div 2 ^ 16" "n div 2 ^ 16 div 256 = n div 2 ^ 24"
    by (simp_all flip: zdiv_zmult2_eq)
  have 1: "n mod 2 ^ 32 = (n div 256 mod 2 ^ 24) * 256 + n mod 256"
    using mod_256_step [of "2 ^ 24" n] by simp
  have 2: "n div 256 mod 2 ^ 24 = (n div 2 ^ 16 mod 2 ^ 16) * 256 + n div 256 mod 256"
    using mod_256_step [of "2 ^ 16" "n div 256"] unfolding d by simp
  have 3: "n div 2 ^ 16 mod 2 ^ 16 = (n div 2 ^ 24 mod 256) * 256 + n div 2 ^ 16 mod 256"
    using mod_256_step [of 256 "n div 2 ^ 16"] unfolding d by simp
  have 4: "n div 2 ^ 8 = n div 256" by simp
  show ?thesis unfolding 1 2 3 4 ..
qed

lemma of_char_bounds [simp]: "0 \<le> (of_char c :: int)" "of_char c < (256 :: int)"
proof -
  have "(of_char c :: int) = of_char c mod 256" by simp
  then show "0 \<le> (of_char c :: int)" "of_char c < (256 :: int)"
    by (metis pos_mod_sign zero_less_numeral, metis pos_mod_bound zero_less_numeral)
qed

lemma of_char_le_255 [simp]: "of_char c \<le> (255 :: int)"
  using of_char_bounds(2) [of c] by linarith

lemma get_put_uint32 [simp]: "get_uint32 (put_uint32 w) = w"
proof -
  have "be_int 0 (put_uint32 w) = uint w mod 2 ^ 32"
    unfolding split_bytes32 [of "uint w", symmetric] put_uint32_def Let_def by simp
  also have "\<dots> = uint w"
    using unsigned_less [where ?'a = int, of w] by (intro mod_pos_pos_trivial) simp_all
  finally show ?thesis by (simp add: get_uint32_def)
qed

lemma be_int_bounds: "0 \<le> acc \<Longrightarrow> 0 \<le> be_int acc bs \<and> be_int acc bs < (acc + 1) * 256 ^ length bs"
proof (induction bs arbitrary: acc)
  case Nil
  then show ?case by simp
next
  case (Cons b bs)
  have b: "0 \<le> (of_char b :: int)" "of_char b < (256 :: int)" by simp_all
  then have "0 \<le> acc * 256 + of_char b" using Cons.prems by simp
  from Cons.IH [OF this]
  have IH: "0 \<le> be_int (acc * 256 + of_char b) bs"
    "be_int (acc * 256 + of_char b) bs < (acc * 256 + of_char b + 1) * 256 ^ length bs" by simp_all
  note IH(2)
  also have "(acc * 256 + of_char b + 1) * 256 ^ length bs \<le> ((acc + 1) * 256) * 256 ^ length bs"
    using b by (intro mult_right_mono) auto
  finally show ?case using IH(1) by (simp add: algebra_simps)
qed

lemma div_mod_256_step:
  fixes a b :: int
  assumes "0 \<le> b" "b < 256"
  shows "(a * 256 + b) div 256 = a" "(a * 256 + b) mod 256 = b"
  using assms by simp_all

lemma split_int4:
  fixes a b c d n :: int
  assumes n: "n = ((a * 256 + b) * 256 + c) * 256 + d"
    and "0 \<le> a" "a < 256" "0 \<le> b" "b < 256" "0 \<le> c" "c < 256" "0 \<le> d" "d < 256"
  shows "n div 2 ^ 24 mod 256 = a" "n div 2 ^ 16 mod 256 = b" "n div 2 ^ 8 mod 256 = c" "n mod 256 = d"
proof -
  have 1: "n div 256 = (a * 256 + b) * 256 + c" "n mod 256 = d"
    using assms by (simp_all only: div_mod_256_step)
  have 2: "n div 256 div 256 = a * 256 + b" "n div 256 div 256 div 256 = a"
    using assms by (simp_all only: 1 div_mod_256_step)
  have 3: "n div 2 ^ 24 = n div 256 div 256 div 256" "n div 2 ^ 16 = n div 256 div 256"
    "n div 2 ^ 8 = n div 256"
    by (simp_all flip: zdiv_zmult2_eq)
  show "n div 2 ^ 24 mod 256 = a" "n div 2 ^ 16 mod 256 = b" "n div 2 ^ 8 mod 256 = c" "n mod 256 = d"
    unfolding 3 by (simp_all only: 1 2 assms div_mod_256_step mod_pos_pos_trivial)
qed

lemma char_of_int_eqI: "n mod 256 = of_char c \<Longrightarrow> char_of (n :: int) = c"
  by (metis char_of_mod_256 char_of_char)

lemma put_get_uint32:
  assumes "length bs = 4"
  shows "put_uint32 (get_uint32 bs) = bs"
proof -
  obtain a b c d where bs: "bs = [a, b, c, d]"
    using assms by (auto simp: numeral_eq_Suc length_Suc_conv)
  define n :: int where "n = ((of_char a * 256 + of_char b) * 256 + of_char c) * 256 + of_char d"
  have n: "be_int 0 bs = n" by (simp add: bs n_def)
  have "0 \<le> n" "n < 2 ^ 32" using be_int_bounds [of 0 bs] by (simp_all add: n assms)
  then have u: "uint (get_uint32 bs) = n"
    by (simp add: get_uint32_def n uint_word_of_int)
  have "char_of (n div 2 ^ 24) = a" "char_of (n div 2 ^ 16) = b" "char_of (n div 2 ^ 8) = c" "char_of n = d"
    using split_int4 [OF n_def] by (auto intro!: char_of_int_eqI)
  then show ?thesis unfolding put_uint32_def Let_def u by (simp add: bs)
qed

end
