(* ===== verification/IEEE754.thy ===== *)
theory IEEE754
  imports Prelude Complex_Main
begin

text \<open>
  Go's float32 and float64: IEEE-754 binary32 and binary64 values, kept as the bit patterns
  math.Float32bits and math.Float64bits give, with the arithmetic the source uses on them.
  A bit pattern decodes to an exact number \<open>(-1)^s * n / d * 2^e\<close>, an infinity or NaN;
  the four operations and the conversions compute on exact numbers and round the result to
  nearest, ties to even. Comparison is on a signed key of the bits, which the lemmas relate to
  the exact values. Products and sums are not fused (the Go compiler does not fuse them on
  amd64, the platform the application is built for); a NaN result is the default NaN.
\<close>

unbundle bit_operations_syntax

section \<open>Formats\<close>

text \<open>
  A format has \<open>p\<close> fraction bits and \<open>w\<close> exponent bits. The magnitude of a
  pattern is its bits without the sign.
\<close>

definition inf_mag :: "nat \<Rightarrow> nat \<Rightarrow> int" where
  "inf_mag p w = (2 ^ w - 1) * 2 ^ p"

definition qmin :: "nat \<Rightarrow> nat \<Rightarrow> int" where
  \<comment> \<open>exponent of the last bit of a subnormal\<close>
  "qmin p w = 2 - 2 ^ (w - 1) - int p"

definition mag_mant :: "nat \<Rightarrow> int \<Rightarrow> int" where
  "mag_mant p m = (if m < 2 ^ p then m else 2 ^ p + m mod 2 ^ p)"

definition mag_exp :: "nat \<Rightarrow> int \<Rightarrow> int" where
  "mag_exp p m = (if m < 2 ^ p then 0 else m div 2 ^ p - 1)"

datatype exact = XNaN | XInf bool | XNum bool int int int
  \<comment> \<open>\<open>XNum s n d e\<close> is \<open>(-1)^s * n / d * 2^e\<close>\<close>

definition decode_mag :: "nat \<Rightarrow> nat \<Rightarrow> bool \<Rightarrow> int \<Rightarrow> exact" where
  "decode_mag p w s m =
     (if m < inf_mag p w then XNum s (mag_mant p m) 1 (mag_exp p m + qmin p w)
      else if m = inf_mag p w then XInf s
      else XNaN)"

section \<open>Rounding to nearest even\<close>

function bit_length :: "int \<Rightarrow> int" where
  "bit_length n = (if n \<le> 0 then 0 else 1 + bit_length (n div 2))"
  by pat_completeness auto
termination
  by (relation "measure nat") auto

declare bit_length.simps [simp del]

definition flog2 :: "int \<Rightarrow> int \<Rightarrow> int" where
  \<comment> \<open>the k with 2^k <= n/d < 2^(k+1)\<close>
  "flog2 n d = (let k = bit_length n - bit_length d in
     if d * 2 ^ nat k \<le> n * 2 ^ nat (- k) then k else k - 1)"

definition rne :: "int \<Rightarrow> int \<Rightarrow> int" where
  \<comment> \<open>n/d to the nearest integer, ties to even\<close>
  "rne n d = (let f = n div d; r = n mod d in
     if 2 * r < d \<or> (2 * r = d \<and> even f) then f else f + 1)"

definition round_mag :: "nat \<Rightarrow> nat \<Rightarrow> int \<Rightarrow> int \<Rightarrow> int \<Rightarrow> int" where
  \<comment> \<open>the magnitude bits of n/d * 2^e\<close>
  "round_mag p w n d e =
     (if n = 0 then 0
      else let q = max (qmin p w) (flog2 n d + e - int p) in
        min (inf_mag p w)
          ((q - qmin p w) * 2 ^ p + rne (n * 2 ^ nat (e - q)) (d * 2 ^ nat (q - e))))"

section \<open>Exact arithmetic\<close>

fun x_neg :: "exact \<Rightarrow> exact" where
  "x_neg XNaN = XNaN"
| "x_neg (XInf s) = XInf (\<not> s)"
| "x_neg (XNum s n d e) = XNum (\<not> s) n d e"

fun x_abs :: "exact \<Rightarrow> exact" where
  "x_abs XNaN = XNaN"
| "x_abs (XInf s) = XInf False"
| "x_abs (XNum s n d e) = XNum False n d e"

definition signed :: "bool \<Rightarrow> int \<Rightarrow> int" where
  "signed s n = (if s then - n else n)"

fun x_add :: "exact \<Rightarrow> exact \<Rightarrow> exact" where
  "x_add (XNum s1 n1 d1 e1) (XNum s2 n2 d2 e2) =
     (let e = min e1 e2;
          t = signed s1 (n1 * d2 * 2 ^ nat (e1 - e)) + signed s2 (n2 * d1 * 2 ^ nat (e2 - e))
      in if t = 0 then XNum (s1 \<and> s2) 0 1 0 else XNum (t < 0) \<bar>t\<bar> (d1 * d2) e)"
| "x_add XNaN _ = XNaN"
| "x_add _ XNaN = XNaN"
| "x_add (XInf s1) (XInf s2) = (if s1 = s2 then XInf s1 else XNaN)"
| "x_add (XInf s) _ = XInf s"
| "x_add _ (XInf s) = XInf s"

fun x_mul :: "exact \<Rightarrow> exact \<Rightarrow> exact" where
  "x_mul (XNum s1 n1 d1 e1) (XNum s2 n2 d2 e2) = XNum (s1 \<noteq> s2) (n1 * n2) (d1 * d2) (e1 + e2)"
| "x_mul XNaN _ = XNaN"
| "x_mul _ XNaN = XNaN"
| "x_mul (XInf s1) (XInf s2) = XInf (s1 \<noteq> s2)"
| "x_mul (XInf s1) (XNum s2 n d e) = (if n = 0 then XNaN else XInf (s1 \<noteq> s2))"
| "x_mul (XNum s1 n d e) (XInf s2) = (if n = 0 then XNaN else XInf (s1 \<noteq> s2))"

fun x_div :: "exact \<Rightarrow> exact \<Rightarrow> exact" where
  "x_div (XNum s1 n1 d1 e1) (XNum s2 n2 d2 e2) =
     (if n2 = 0 then (if n1 = 0 then XNaN else XInf (s1 \<noteq> s2))
      else XNum (s1 \<noteq> s2) (n1 * d2) (d1 * n2) (e1 - e2))"
| "x_div XNaN _ = XNaN"
| "x_div _ XNaN = XNaN"
| "x_div (XInf s1) (XInf s2) = XNaN"
| "x_div (XInf s1) (XNum s2 n d e) = XInf (s1 \<noteq> s2)"
| "x_div (XNum s1 n d e) (XInf s2) = XNum (s1 \<noteq> s2) 0 1 0"

definition int_num :: "int \<Rightarrow> int \<Rightarrow> int \<Rightarrow> int \<times> int" where
  \<comment> \<open>n/d * 2^e as one fraction\<close>
  "int_num n d e = (n * 2 ^ nat e, d * 2 ^ nat (- e))"

fun x_floor :: "exact \<Rightarrow> exact" where
  "x_floor XNaN = XNaN"
| "x_floor (XInf s) = XInf s"
| "x_floor (XNum s n d e) = (case int_num n d e of (a, b) \<Rightarrow>
     if s then XNum s ((a + b - 1) div b) 1 0 else XNum s (a div b) 1 0)"

fun x_round :: "exact \<Rightarrow> exact" where
  \<comment> \<open>math.Round: half away from zero\<close>
  "x_round XNaN = XNaN"
| "x_round (XInf s) = XInf s"
| "x_round (XNum s n d e) = (case int_num n d e of (a, b) \<Rightarrow> XNum s ((2 * a + b) div (2 * b)) 1 0)"

fun x_trunc :: "exact \<Rightarrow> int option" where
  "x_trunc XNaN = None"
| "x_trunc (XInf s) = None"
| "x_trunc (XNum s n d e) = (case int_num n d e of (a, b) \<Rightarrow> Some (signed s (a div b)))"

section \<open>float32 and float64\<close>

datatype float32 = Float32frombits (Float32bits: "32 word")
datatype float64 = Float64frombits (Float64bits: "64 word")

definition mag32 :: "float32 \<Rightarrow> int" where "mag32 x = uint (Float32bits x) mod 2 ^ 31"
definition sign32 :: "float32 \<Rightarrow> bool" where "sign32 x = (2 ^ 31 \<le> uint (Float32bits x))"
definition mag64 :: "float64 \<Rightarrow> int" where "mag64 x = uint (Float64bits x) mod 2 ^ 63"
definition sign64 :: "float64 \<Rightarrow> bool" where "sign64 x = (2 ^ 63 \<le> uint (Float64bits x))"

definition make32 :: "bool \<Rightarrow> int \<Rightarrow> float32" where
  "make32 s m = Float32frombits (word_of_int ((if s then 2 ^ 31 else 0) + m))"

definition make64 :: "bool \<Rightarrow> int \<Rightarrow> float64" where
  "make64 s m = Float64frombits (word_of_int ((if s then 2 ^ 63 else 0) + m))"

definition dec32 :: "float32 \<Rightarrow> exact" where "dec32 x = decode_mag 23 8 (sign32 x) (mag32 x)"
definition dec64 :: "float64 \<Rightarrow> exact" where "dec64 x = decode_mag 52 11 (sign64 x) (mag64 x)"

fun enc32 :: "exact \<Rightarrow> float32" where
  "enc32 XNaN = Float32frombits 0x7FC00000"
| "enc32 (XInf s) = make32 s (inf_mag 23 8)"
| "enc32 (XNum s n d e) = make32 s (round_mag 23 8 n d e)"

fun enc64 :: "exact \<Rightarrow> float64" where
  "enc64 XNaN = Float64frombits 0x7FF8000000000000"
| "enc64 (XInf s) = make64 s (inf_mag 52 11)"
| "enc64 (XNum s n d e) = make64 s (round_mag 52 11 n d e)"

definition is_nan32 :: "float32 \<Rightarrow> bool" where "is_nan32 x \<longleftrightarrow> inf_mag 23 8 < mag32 x"
definition is_inf32 :: "float32 \<Rightarrow> bool" where "is_inf32 x \<longleftrightarrow> mag32 x = inf_mag 23 8"
definition is_nan64 :: "float64 \<Rightarrow> bool" where "is_nan64 x \<longleftrightarrow> inf_mag 52 11 < mag64 x"
definition is_inf64 :: "float64 \<Rightarrow> bool" where "is_inf64 x \<longleftrightarrow> mag64 x = inf_mag 52 11"

text \<open>The order key: negative for a set sign bit, and 0 for both zeros.\<close>

definition key32 :: "float32 \<Rightarrow> int" where "key32 x = signed (sign32 x) (mag32 x)"
definition key64 :: "float64 \<Rightarrow> int" where "key64 x = signed (sign64 x) (mag64 x)"

definition lt32 :: "float32 \<Rightarrow> float32 \<Rightarrow> bool" where
  "lt32 x y \<longleftrightarrow> \<not> is_nan32 x \<and> \<not> is_nan32 y \<and> key32 x < key32 y"
definition le32 :: "float32 \<Rightarrow> float32 \<Rightarrow> bool" where
  "le32 x y \<longleftrightarrow> \<not> is_nan32 x \<and> \<not> is_nan32 y \<and> key32 x \<le> key32 y"
definition eq32 :: "float32 \<Rightarrow> float32 \<Rightarrow> bool" where
  "eq32 x y \<longleftrightarrow> \<not> is_nan32 x \<and> \<not> is_nan32 y \<and> key32 x = key32 y"
definition lt64 :: "float64 \<Rightarrow> float64 \<Rightarrow> bool" where
  "lt64 x y \<longleftrightarrow> \<not> is_nan64 x \<and> \<not> is_nan64 y \<and> key64 x < key64 y"
definition le64 :: "float64 \<Rightarrow> float64 \<Rightarrow> bool" where
  "le64 x y \<longleftrightarrow> \<not> is_nan64 x \<and> \<not> is_nan64 y \<and> key64 x \<le> key64 y"
definition eq64 :: "float64 \<Rightarrow> float64 \<Rightarrow> bool" where
  "eq64 x y \<longleftrightarrow> \<not> is_nan64 x \<and> \<not> is_nan64 y \<and> key64 x = key64 y"

definition add32 :: "float32 \<Rightarrow> float32 \<Rightarrow> float32" where "add32 x y = enc32 (x_add (dec32 x) (dec32 y))"
definition sub32 :: "float32 \<Rightarrow> float32 \<Rightarrow> float32" where "sub32 x y = enc32 (x_add (dec32 x) (x_neg (dec32 y)))"
definition mul32 :: "float32 \<Rightarrow> float32 \<Rightarrow> float32" where "mul32 x y = enc32 (x_mul (dec32 x) (dec32 y))"
definition div32 :: "float32 \<Rightarrow> float32 \<Rightarrow> float32" where "div32 x y = enc32 (x_div (dec32 x) (dec32 y))"
definition neg32 :: "float32 \<Rightarrow> float32" where "neg32 x = Float32frombits (Float32bits x XOR 0x80000000)"
definition add64 :: "float64 \<Rightarrow> float64 \<Rightarrow> float64" where "add64 x y = enc64 (x_add (dec64 x) (dec64 y))"
definition sub64 :: "float64 \<Rightarrow> float64 \<Rightarrow> float64" where "sub64 x y = enc64 (x_add (dec64 x) (x_neg (dec64 y)))"
definition mul64 :: "float64 \<Rightarrow> float64 \<Rightarrow> float64" where "mul64 x y = enc64 (x_mul (dec64 x) (dec64 y))"
definition div64 :: "float64 \<Rightarrow> float64 \<Rightarrow> float64" where "div64 x y = enc64 (x_div (dec64 x) (dec64 y))"

definition widen :: "float32 \<Rightarrow> float64" where "widen x = enc64 (dec32 x)"
definition narrow :: "float64 \<Rightarrow> float32" where "narrow x = enc32 (dec64 x)"

text \<open>Functions of package math. Abs and Copysign act on the sign bit.\<close>

definition abs64 :: "float64 \<Rightarrow> float64" where "abs64 x = make64 False (mag64 x)"
definition copysign64 :: "float64 \<Rightarrow> float64 \<Rightarrow> float64" where "copysign64 x y = make64 (sign64 y) (mag64 x)"
definition floor64 :: "float64 \<Rightarrow> float64" where "floor64 x = enc64 (x_floor (dec64 x))"
definition round64 :: "float64 \<Rightarrow> float64" where "round64 x = enc64 (x_round (dec64 x))"
definition max64 :: "float64 \<Rightarrow> float64 \<Rightarrow> float64" where
  "max64 x y = (if is_inf64 x \<and> \<not> sign64 x \<or> is_inf64 y \<and> \<not> sign64 y then enc64 (XInf False)
     else if is_nan64 x \<or> is_nan64 y then enc64 XNaN
     else if mag64 x = 0 \<and> mag64 y = 0 then (if sign64 x then y else x)
     else if lt64 y x then x else y)"

text \<open>Conversions from integers, and to integers as amd64 computes them out of range.\<close>

definition float32_of_int :: "int \<Rightarrow> float32" where "float32_of_int i = enc32 (XNum (i < 0) \<bar>i\<bar> 1 0)"
definition float64_of_int :: "int \<Rightarrow> float64" where "float64_of_int i = enc64 (XNum (i < 0) \<bar>i\<bar> 1 0)"

definition int32_of_float64 :: "float64 \<Rightarrow> u32" where
  "int32_of_float64 x = (case x_trunc (dec64 x) of
     Some i \<Rightarrow> if - (2 ^ 31) \<le> i \<and> i < 2 ^ 31 then word_of_int i else 0x80000000
   | None \<Rightarrow> 0x80000000)"

definition uint32_of_float64 :: "float64 \<Rightarrow> u32" where
  "uint32_of_float64 x = (case x_trunc (dec64 x) of
     Some i \<Rightarrow> if - (2 ^ 63) \<le> i \<and> i < 2 ^ 63 then word_of_int i else 0
   | None \<Rightarrow> 0)"

definition zero32 :: float32 where "zero32 = Float32frombits 0"
definition one32 :: float32 where "one32 = Float32frombits 0x3F800000"
definition half32 :: float32 where "half32 = Float32frombits 0x3F000000"
definition one64 :: float64 where "one64 = Float64frombits 0x3FF0000000000000"
definition zero64 :: float64 where "zero64 = Float64frombits 0"

section \<open>Rounding as a function of the real value\<close>

definition fval :: "int \<Rightarrow> int \<Rightarrow> int \<Rightarrow> real" where
  "fval n d e = of_int n / of_int d * 2 powi e"

definition rnd :: "real \<Rightarrow> int" where
  "rnd y = (let f = \<lfloor>y\<rfloor> in if y - of_int f < 1 / 2 \<or> (y - of_int f = 1 / 2 \<and> even f) then f else f + 1)"

definition round_real :: "nat \<Rightarrow> nat \<Rightarrow> real \<Rightarrow> int" where
  "round_real p w x = (let q = max (qmin p w) (\<lfloor>log 2 x\<rfloor> - int p) in
     min (inf_mag p w) ((q - qmin p w) * 2 ^ p + rnd (x / 2 powi q)))"

lemma bit_length_nonneg: "0 \<le> bit_length n"
  by (induction n rule: bit_length.induct) (subst bit_length.simps, simp)

lemma bit_length_bounds:
  assumes "0 < n"
  shows "2 ^ nat (bit_length n - 1) \<le> n \<and> n < 2 ^ nat (bit_length n) \<and> 0 < bit_length n"
  using assms
proof (induction n rule: bit_length.induct)
  case (1 n)
  have u: "bit_length n = 1 + bit_length (n div 2)"
    using "1.prems" by (subst bit_length.simps) simp
  show ?case
  proof (cases "n = 1")
    case True
    then show ?thesis by (simp add: u bit_length.simps)
  next
    case False
    with "1.prems" have "0 < n div 2" "\<not> n \<le> 0" by simp_all
    with "1.IH" have IH: "2 ^ nat (bit_length (n div 2) - 1) \<le> n div 2"
      "n div 2 < 2 ^ nat (bit_length (n div 2))" "0 < bit_length (n div 2)" by blast+
    define k where "k = nat (bit_length (n div 2) - 1)"
    have k: "nat (bit_length (n div 2)) = Suc k" "nat (bit_length n - 1) = Suc k" "nat (bit_length n) = Suc (Suc k)"
      using IH(3) by (auto simp: k_def u nat_eq_iff)
    show ?thesis using IH unfolding k k_def [symmetric] by (auto simp: u)
  qed
qed

lemma powi_nat: "0 \<le> k \<Longrightarrow> (2::real) powi k = 2 ^ nat k"
  by (simp add: power_int_def)

lemma bit_length_real:
  assumes "0 < n"
  shows "2 powi (bit_length n - 1) \<le> real_of_int n" "real_of_int n < 2 powi (bit_length n)"
proof -
  from bit_length_bounds [OF assms] have b: "2 ^ nat (bit_length n - 1) \<le> n" "n < 2 ^ nat (bit_length n)" "0 < bit_length n"
    by blast+
  have "real_of_int (2 ^ nat (bit_length n - 1)) \<le> of_int n" using b(1) by linarith
  then show "2 powi (bit_length n - 1) \<le> real_of_int n" using b(3) by (simp add: powi_nat)
  have "real_of_int n < of_int (2 ^ nat (bit_length n))" using b(2) by linarith
  then show "real_of_int n < 2 powi (bit_length n)" using b(3) by (simp add: powi_nat)
qed

lemma powi_split: "(2::real) powi k = 2 ^ nat k / 2 ^ nat (- k)"
  by (cases "0 \<le> k") (simp_all add: power_int_def power_one_over inverse_eq_divide)

lemma flog2_bounds:
  assumes n: "0 < n" and d: "0 < d"
  shows "(2 :: real) powi (flog2 n d) \<le> of_int n / of_int d" "of_int n / of_int d < (2 :: real) powi (flog2 n d + 1)"
proof -
  define k where "k = bit_length n - bit_length d"
  have rd: "0 < real_of_int d" and rn: "0 < real_of_int n" using n d by simp_all
  have lo: "2 powi (k - 1) < real_of_int n / of_int d"
  proof -
    have "2 powi (k - 1) * real_of_int d < 2 powi (k - 1) * 2 powi (bit_length d)"
      using bit_length_real(2) [OF d] by simp
    also have "\<dots> = 2 powi (bit_length n - 1)"
      by (simp add: k_def power_int_add [symmetric] del: power_int_add_1)
    also have "\<dots> \<le> of_int n" by (rule bit_length_real(1) [OF n])
    finally show ?thesis using rd by (simp add: pos_less_divide_eq)
  qed
  have hi: "real_of_int n / of_int d < 2 powi (k + 1)"
  proof -
    have "real_of_int n < 2 powi (bit_length n)" by (rule bit_length_real(2) [OF n])
    also have "\<dots> = 2 powi (k + 1) * 2 powi (bit_length d - 1)"
      by (simp add: k_def power_int_add [symmetric] del: power_int_add_1)
    also have "\<dots> \<le> 2 powi (k + 1) * of_int d"
      using bit_length_real(1) [OF d] by simp
    finally show ?thesis using rd by (simp add: pos_divide_less_eq)
  qed
  have cmp: "d * 2 ^ nat k \<le> n * 2 ^ nat (- k) \<longleftrightarrow> 2 powi k \<le> real_of_int n / of_int d"
  proof -
    have "2 powi k \<le> real_of_int n / of_int d \<longleftrightarrow> real_of_int d * 2 ^ nat k \<le> of_int n * 2 ^ nat (- k)"
      unfolding powi_split [of k] using rd by (simp add: field_simps)
    also have "\<dots> \<longleftrightarrow> real_of_int (d * 2 ^ nat k) \<le> of_int (n * 2 ^ nat (- k))" by simp
    also have "\<dots> \<longleftrightarrow> d * 2 ^ nat k \<le> n * 2 ^ nat (- k)" by linarith
    finally show ?thesis by simp
  qed
  have f: "flog2 n d = (if 2 powi k \<le> real_of_int n / of_int d then k else k - 1)"
    by (simp add: flog2_def Let_def k_def [symmetric] cmp)
  show "(2 :: real) powi (flog2 n d) \<le> of_int n / of_int d" "of_int n / of_int d < (2 :: real) powi (flog2 n d + 1)"
    using lo hi by (simp_all add: f)
qed

lemma floor_log2_unique:
  assumes "2 powi k \<le> x" "x < 2 powi (k + 1)"
  shows "\<lfloor>log 2 x\<rfloor> = k"
proof -
  have p: "(2::real) powi k > 0" by simp
  with assms have x: "x > 0" by linarith
  have e: "\<And>j. (2::real) powi j = 2 powr of_int j" by (simp add: powr_real_of_int')
  have "of_int k \<le> log 2 x" using assms(1) x by (simp add: e le_log_iff)
  moreover have "log 2 x < of_int k + 1" using assms(2) x by (simp add: e log_less_iff)
  ultimately show ?thesis by (simp add: floor_eq_iff)
qed

lemma fval_pos: "0 < n \<Longrightarrow> 0 < d \<Longrightarrow> 0 < fval n d e"
  by (simp add: fval_def)

lemma floor_log2_fval:
  assumes "0 < n" "0 < d"
  shows "\<lfloor>log 2 (fval n d e)\<rfloor> = flog2 n d + e"
proof (rule floor_log2_unique)
  have e: "(2::real) powi (flog2 n d + e) = 2 powi flog2 n d * 2 powi e"
    "(2::real) powi (flog2 n d + e + 1) = 2 powi (flog2 n d + 1) * 2 powi e"
    by (simp_all add: power_int_add [symmetric] algebra_simps del: power_int_add_1)
  show "2 powi (flog2 n d + e) \<le> fval n d e" "fval n d e < 2 powi (flog2 n d + e + 1)"
    unfolding e fval_def using flog2_bounds [OF assms] by (simp_all add: mult_right_mono del: of_int_divide_in_Ints times_divide_eq_left)
qed

lemma rne_rnd:
  assumes d: "0 < d"
  shows "rne n d = rnd (of_int n / of_int d)"
proof -
  have f: "\<lfloor>real_of_int n / of_int d\<rfloor> = n div d" by (rule floor_divide_of_int_eq)
  have r: "real_of_int n / of_int d - of_int (n div d) = of_int (n mod d) / of_int d"
    using d by (simp add: field_simps flip: of_int_mult of_int_add)
  have h: "real_of_int (n mod d) / of_int d < 1 / 2 \<longleftrightarrow> 2 * (n mod d) < d"
    "real_of_int (n mod d) / of_int d = 1 / 2 \<longleftrightarrow> 2 * (n mod d) = d"
    using d by (simp_all add: field_simps) linarith+
  show ?thesis unfolding rne_def rnd_def Let_def f r h ..
qed

lemma round_mag_real:
  assumes "0 < n" "0 < d"
  shows "round_mag p w n d e = round_real p w (fval n d e)"
proof -
  define q where "q = max (qmin p w) (flog2 n d + e - int p)"
  have "fval n d e / 2 powi q = of_int n / of_int d * 2 powi (e - q)"
    by (simp add: fval_def power_int_diff)
  also have "\<dots> = of_int (n * 2 ^ nat (e - q)) / of_int (d * 2 ^ nat (q - e))"
    by (simp add: powi_split [of "e - q"])
  finally have eq: "fval n d e / 2 powi q = of_int (n * 2 ^ nat (e - q)) / of_int (d * 2 ^ nat (q - e))" .
  have "rnd (fval n d e / 2 powi q) = rne (n * 2 ^ nat (e - q)) (d * 2 ^ nat (q - e))"
    unfolding eq using assms(2) by (subst rne_rnd) simp_all
  moreover have "n \<noteq> 0" using assms(1) by simp
  ultimately show ?thesis
    by (simp add: round_mag_def round_real_def floor_log2_fval assms Let_def q_def)
qed

lemma rnd_of_int [simp]: "rnd (of_int i) = i"
  by (simp add: rnd_def)

lemma rnd_mono: "x \<le> y \<Longrightarrow> rnd x \<le> rnd y"
proof -
  assume xy: "x \<le> y"
  show ?thesis
  proof (cases "\<lfloor>x\<rfloor> = \<lfloor>y\<rfloor>")
    case True
    then show ?thesis using xy by (auto simp: rnd_def Let_def)
  next
    case False
    with floor_mono [OF xy] have "\<lfloor>x\<rfloor> + 1 \<le> \<lfloor>y\<rfloor>" by linarith
    then show ?thesis by (auto simp: rnd_def Let_def)
  qed
qed

lemma round_real_scale:
  fixes x :: real
  assumes "0 < x"
  defines "k \<equiv> \<lfloor>log 2 x\<rfloor>"
  shows "2 powi k \<le> x" "x < 2 powi (k + 1)"
proof -
  have e: "\<And>j. (2::real) powi j = 2 powr of_int j" by (simp add: powr_real_of_int')
  have "of_int k \<le> log 2 x" "log 2 x < of_int k + 1" unfolding k_def by linarith+
  then show "2 powi k \<le> x" "x < 2 powi (k + 1)"
    using assms(1) by (simp_all add: e le_log_iff log_less_iff)
qed

lemma round_real_mono:
  assumes x: "0 < x" and xy: "x \<le> y"
  shows "round_real p w x \<le> round_real p w y"
proof -
  define k1 where "k1 = \<lfloor>log 2 x\<rfloor>"
  define k2 where "k2 = \<lfloor>log 2 y\<rfloor>"
  define q1 where "q1 = max (qmin p w) (k1 - int p)"
  define q2 where "q2 = max (qmin p w) (k2 - int p)"
  have y: "0 < y" using x xy by linarith
  have "k1 \<le> k2" unfolding k1_def k2_def using x xy by (intro floor_mono) simp
  then have q12: "q1 \<le> q2" by (auto simp: q1_def q2_def)
  have "(q1 - qmin p w) * 2 ^ p + rnd (x / 2 powi q1) \<le> (q2 - qmin p w) * 2 ^ p + rnd (y / 2 powi q2)"
  proof (cases "q1 = q2")
    case True
    then show ?thesis using xy by (simp add: rnd_mono divide_right_mono)
  next
    case False
    with q12 have lt: "q1 + 1 \<le> q2" by linarith
    then have q2: "q2 = k2 - int p" by (auto simp: q1_def q2_def)
    have "x / 2 powi q1 \<le> of_int (2 ^ (p + 1))"
    proof -
      have "x \<le> 2 powi (k1 + 1)" using round_real_scale(2) [OF x] by (simp add: k1_def)
      also have "\<dots> \<le> 2 powi (q1 + int p + 1)" by (intro power_int_increasing) (auto simp: q1_def)
      also have "\<dots> = of_int (2 ^ (p + 1)) * 2 powi q1"
        using power_int_add [of "2::real" "int (p + 1)" q1] by (simp only: power_int_of_nat) (simp add: algebra_simps)
      finally show ?thesis by (simp add: pos_divide_le_eq)
    qed
    then have m1: "rnd (x / 2 powi q1) \<le> 2 ^ (p + 1)" using rnd_mono rnd_of_int by metis
    have "of_int (2 ^ p) \<le> y / 2 powi q2"
    proof -
      have "of_int (2 ^ p) * 2 powi q2 = (2::real) powi k2"
        using power_int_add [of "2::real" "int p" q2] by (simp add: q2)
      also have "\<dots> \<le> y" using round_real_scale(1) [OF y] by (simp add: k2_def)
      finally show ?thesis by (simp add: pos_le_divide_eq)
    qed
    then have m2: "2 ^ p \<le> rnd (y / 2 powi q2)" using rnd_mono rnd_of_int by metis
    have "(q1 - qmin p w) * 2 ^ p + 2 ^ (p + 1) \<le> (q2 - qmin p w) * 2 ^ p + 2 ^ p"
      using mult_right_mono [OF lt, of "2 ^ p"] by (simp add: algebra_simps)
    with m1 m2 show ?thesis by linarith
  qed
  then show ?thesis
    unfolding round_real_def Let_def k1_def [symmetric] k2_def [symmetric] q1_def [symmetric] q2_def [symmetric]
    by (rule min.mono [OF order_refl])
qed

section \<open>Decoding and rounding are inverse on representable values\<close>

lemma mag_value_bounds:
  assumes m: "0 < m"
  shows "0 < mag_mant p m" "mag_mant p m < 2 ^ (p + 1)" "0 \<le> mag_exp p m"
    "m = mag_exp p m * 2 ^ p + mag_mant p m"
    "mag_exp p m = 0 \<or> 2 ^ p \<le> mag_mant p m"
proof -
  have p: "(0::int) < 2 ^ p" by simp
  have d: "m div 2 ^ p * 2 ^ p + m mod 2 ^ p = m" by (rule div_mult_mod_eq)
  have r: "0 \<le> m mod 2 ^ p" "m mod 2 ^ p < 2 ^ p" using p by (simp_all add: pos_mod_bound)
  have ge: "1 \<le> m div 2 ^ p" if "\<not> m < 2 ^ p"
    using that p zdiv_mono1 [of "2 ^ p" m "2 ^ p"] by simp
  show "0 < mag_mant p m" "mag_mant p m < 2 ^ (p + 1)" "0 \<le> mag_exp p m"
    "mag_exp p m = 0 \<or> 2 ^ p \<le> mag_mant p m"
    using m r ge p by (auto simp: mag_mant_def mag_exp_def add_pos_nonneg simp del: pos_mod_sign)
  show "m = mag_exp p m * 2 ^ p + mag_mant p m"
    using d by (auto simp: mag_mant_def mag_exp_def algebra_simps)
qed

lemma mag_of_parts:
  assumes E: "0 \<le> E" and M: "0 \<le> M" "M < 2 ^ (p + 1)" "E = 0 \<or> 2 ^ p \<le> M"
  shows "mag_mant p (E * 2 ^ p + M) = M" "mag_exp p (E * 2 ^ p + M) = E"
proof -
  define P :: int where "P = 2 ^ p"
  have P: "0 < P" by (simp add: P_def)
  have M': "M < 2 * P" "E = 0 \<or> P \<le> M" using M by (simp_all add: P_def)
  have "mag_mant p (E * P + M) = M \<and> mag_exp p (E * P + M) = E"
  proof (cases "M < P")
    case True
    with M'(2) have "E = 0" by auto
    with True show ?thesis by (simp add: mag_mant_def mag_exp_def flip: P_def)
  next
    case False
    then have r: "0 \<le> M - P" "M - P < P" using M' by simp_all
    have eq: "E * P + M = (M - P) + (E + 1) * P" by (simp add: algebra_simps)
    have "(E * P + M) mod P = (M - P) mod P" "(E * P + M) div P = E + 1 + (M - P) div P"
      unfolding eq using P by (simp_all only: mod_mult_self1 div_mult_self1)
    then have "(E * P + M) mod P = M - P" "(E * P + M) div P = E + 1"
      using mod_pos_pos_trivial [OF r] div_pos_pos_trivial [OF r] by simp_all
    moreover have "0 \<le> E * P" using E P by simp
    ultimately show ?thesis using False by (simp add: mag_mant_def mag_exp_def not_less flip: P_def)
  qed
  then show "mag_mant p (E * 2 ^ p + M) = M" "mag_exp p (E * 2 ^ p + M) = E" by (simp_all add: P_def)
qed

definition mag_real :: "nat \<Rightarrow> nat \<Rightarrow> int \<Rightarrow> real" where
  "mag_real p w m = fval (mag_mant p m) 1 (mag_exp p m + qmin p w)"

text \<open>A value with few enough significant bits rounds to itself.\<close>

lemma round_real_exact:
  assumes x: "x = of_int M * 2 powi E" and M: "0 < M" "M < 2 ^ (p + 1)" and E: "qmin p w \<le> E"
  defines "q \<equiv> max (qmin p w) (\<lfloor>log 2 x\<rfloor> - int p)"
  obtains N where "x = of_int N * 2 powi q" "0 < N" "N < 2 ^ (p + 1)"
    "q = qmin p w \<or> 2 ^ p \<le> N" "q \<le> E" "qmin p w \<le> q"
    "round_real p w x = min (inf_mag p w) ((q - qmin p w) * 2 ^ p + N)"
proof -
  have x0: "0 < x" using x M by simp
  define k where "k = \<lfloor>log 2 x\<rfloor>"
  have k: "2 powi k \<le> x" "x < 2 powi (k + 1)" using round_real_scale [OF x0] by (simp_all add: k_def)
  have "x < 2 ^ (p + 1) * 2 powi E"
  proof -
    have "real_of_int M < of_int (2 ^ (p + 1))" using M by linarith
    then show ?thesis by (simp add: x)
  qed
  also have "\<dots> = 2 powi (int (p + 1) + E)"
    using power_int_add [of "2::real" "int (p + 1)" E] by (simp only: power_int_of_nat) simp
  finally have "(2::real) powi k < 2 powi (int (p + 1) + E)" using k by linarith
  then have kE: "k < int (p + 1) + E" by (metis not_less one_le_numeral power_int_increasing)
  then have qE: "q \<le> E" using E by (auto simp: q_def k_def [symmetric])
  define N where "N = M * 2 ^ nat (E - q)"
  have N: "x = of_int N * 2 powi q"
    using qE by (simp add: N_def x power_int_diff powi_nat [symmetric])
  have q0: "0 < (2::real) powi q" by simp
  have "of_int N * 2 powi q < of_int (2 ^ (p + 1)) * (2::real) powi q"
  proof -
    have "x < 2 powi (k + 1)" by (rule k)
    also have "\<dots> \<le> 2 powi (int (p + 1) + q)" by (intro power_int_increasing) (auto simp: q_def k_def [symmetric])
    also have "\<dots> = of_int (2 ^ (p + 1)) * 2 powi q"
      using power_int_add [of "2::real" "int (p + 1)" q] by (simp only: power_int_of_nat) simp
    finally show ?thesis by (simp add: N)
  qed
  then have N2: "N < 2 ^ (p + 1)" using q0 by (simp only: mult_less_cancel_right_pos of_int_less_iff)
  have N3: "q = qmin p w \<or> 2 ^ p \<le> N"
  proof (cases "q = qmin p w")
    case False
    then have qk: "q = k - int p" by (auto simp: q_def k_def [symmetric] max_def split: if_splits)
    have "of_int (2 ^ p) * (2::real) powi q = 2 powi k"
      using power_int_add [of "2::real" "int p" q] by (simp only: power_int_of_nat qk) simp
    also have "\<dots> \<le> of_int N * 2 powi q" using k(1) N by simp
    finally have "2 ^ p \<le> N" using q0 by (simp only: mult_le_cancel_right_pos of_int_le_iff)
    then show ?thesis ..
  qed simp
  have "x / 2 powi q = of_int N" using q0 by (simp add: N)
  then have "round_real p w x = min (inf_mag p w) ((q - qmin p w) * 2 ^ p + N)"
    by (simp add: round_real_def Let_def q_def [symmetric])
  moreover have "0 < N" using M by (simp add: N_def)
  moreover have "qmin p w \<le> q" by (simp add: q_def)
  ultimately show ?thesis using that N N2 N3 qE by blast
qed

lemma mag_real_unfold: "mag_real p w m = of_int (mag_mant p m) * 2 powi (mag_exp p m + qmin p w)"
  by (simp add: mag_real_def fval_def)

lemma parts_unique:
  assumes "of_int M * (2::real) powi E = of_int N * 2 powi F" and "0 < M"
    and M: "M < 2 ^ (p + 1)" "E = b \<or> 2 ^ p \<le> M" and N: "N < 2 ^ (p + 1)" "F = b \<or> 2 ^ p \<le> N"
    and b: "b \<le> E" "b \<le> F"
  shows "E = F \<and> M = N"
proof -
  have less: False if eq: "of_int M * (2::real) powi E = of_int N * 2 powi F" and lt: "E < F"
    and "M < 2 ^ (p + 1)" "2 ^ p \<le> N" for M N E F :: int
  proof -
    have "of_int M * (2::real) powi E < of_int (2 ^ (p + 1)) * 2 powi E"
      using that(3) by (simp only: mult_less_cancel_right_pos zero_less_power_int of_int_less_iff zero_less_numeral)
    also have "\<dots> = of_int (2 ^ p) * 2 powi (E + 1)" by (simp add: power_int_add)
    also have "\<dots> \<le> of_int N * 2 powi F"
    proof (intro mult_mono power_int_increasing)
      show "real_of_int (2 ^ p) \<le> of_int N" using that(4) by (simp only: of_int_le_iff)
      show "0 \<le> real_of_int N" using order_trans [OF _ that(4), of 0] by simp
    qed (use lt in simp_all)
    finally show False using eq by simp
  qed
  have "E = F"
    using less [OF assms(1)] less [OF assms(1) [symmetric]] assms by (cases E F rule: linorder_cases) auto
  then show ?thesis using assms(1) by simp
qed

lemma round_real_mag:
  assumes m: "0 < m" "m \<le> inf_mag p w"
  shows "round_real p w (mag_real p w m) = m"
proof -
  note b = mag_value_bounds [OF m(1), where p = p]
  define x where "x = mag_real p w m"
  have x: "x = of_int (mag_mant p m) * 2 powi (mag_exp p m + qmin p w)"
    by (simp add: x_def mag_real_unfold)
  have e: "qmin p w \<le> mag_exp p m + qmin p w" using b(3) by simp
  define q where "q = max (qmin p w) (\<lfloor>log 2 x\<rfloor> - int p)"
  obtain N where N: "x = of_int N * 2 powi q" "N < 2 ^ (p + 1)"
    "q = qmin p w \<or> 2 ^ p \<le> N" "qmin p w \<le> q"
    "round_real p w x = min (inf_mag p w) ((q - qmin p w) * 2 ^ p + N)"
    by (rule round_real_exact [OF x b(1,2) e, folded q_def])
  have "mag_exp p m + qmin p w = qmin p w \<or> 2 ^ p \<le> mag_mant p m" using b(5) by auto
  from parts_unique [OF trans [OF x [symmetric] N(1)] b(1,2) this N(2,3) e N(4)]
  have "mag_exp p m + qmin p w = q" "mag_mant p m = N" by simp_all
  then have "(q - qmin p w) * 2 ^ p + N = m" using b(4) by (metis add_diff_cancel_right')
  then show ?thesis using N(5) m(2) by (simp flip: x_def)
qed

lemma mag_real_pos: "0 < m \<Longrightarrow> 0 < mag_real p w m"
  using mag_value_bounds(1) [of m p] by (simp add: mag_real_unfold)

lemma round_mag_of_mag:
  assumes "0 \<le> m" "m \<le> inf_mag p w"
  shows "round_mag p w (mag_mant p m) 1 (mag_exp p m + qmin p w) = m"
proof (cases "m = 0")
  case True
  then show ?thesis by (simp add: round_mag_def mag_mant_def)
next
  case False
  with assms have "0 < m" by simp
  then show ?thesis
    using assms mag_value_bounds(1) [of m p]
    by (simp add: round_mag_real round_real_mag flip: mag_real_def)
qed


section \<open>float32 and float64 bit patterns\<close>

lemma uint32_bound: "0 \<le> uint (w :: 32 word)" "uint (w :: 32 word) < 4294967296"
  using unsigned_less [where ?'a = int, of w] by simp_all

lemma uint64_bound: "0 \<le> uint (w :: 64 word)" "uint (w :: 64 word) < 18446744073709551616"
  using unsigned_less [where ?'a = int, of w] by simp_all

lemma mag32_bounds [simp]: "0 \<le> mag32 x" "mag32 x < 2147483648"
  by (simp_all add: mag32_def pos_mod_bound)

lemma mag64_bounds [simp]: "0 \<le> mag64 x" "mag64 x < 9223372036854775808"
  by (simp_all add: mag64_def pos_mod_bound)

lemma half_split:
  fixes n P :: int
  assumes "0 \<le> n" "n < 2 * P"
  shows "n = (if P \<le> n then P else 0) + n mod P"
proof (cases "P \<le> n")
  case True
  have "n mod P = (n - P) mod P" by simp
  also have "\<dots> = n - P" using assms True by (intro mod_pos_pos_trivial) simp_all
  finally show ?thesis using True by simp
next
  case False
  then have "n mod P = n" using assms by (intro mod_pos_pos_trivial) simp_all
  then show ?thesis using False by simp
qed

lemma uint_parts32: "uint (Float32bits x) = (if sign32 x then 2147483648 else 0) + mag32 x"
  using half_split [of "uint (Float32bits x)" "2 ^ 31"] uint32_bound [of "Float32bits x"]
  unfolding sign32_def mag32_def by (simp split: if_splits)

lemma uint_parts64: "uint (Float64bits x) = (if sign64 x then 9223372036854775808 else 0) + mag64 x"
  using half_split [of "uint (Float64bits x)" "2 ^ 63"] uint64_bound [of "Float64bits x"]
  unfolding sign64_def mag64_def by (simp split: if_splits)

lemma make32_parts [simp]: "make32 (sign32 x) (mag32 x) = x"
proof -
  have "make32 (sign32 x) (mag32 x) = Float32frombits (word_of_int (uint (Float32bits x)))"
    by (simp add: make32_def uint_parts32)
  then show ?thesis by simp
qed

lemma make64_parts [simp]: "make64 (sign64 x) (mag64 x) = x"
proof -
  have "make64 (sign64 x) (mag64 x) = Float64frombits (word_of_int (uint (Float64bits x)))"
    by (simp add: make64_def uint_parts64)
  then show ?thesis by simp
qed

lemma half_join:
  fixes m P :: int
  assumes "0 \<le> m" "m < P"
  shows "(P \<le> (if s then P else 0) + m) = s" "((if s then P else 0) + m) mod P = m"
  using assms by auto

lemma make32_sel:
  assumes "0 \<le> m" "m < 2147483648"
  shows "sign32 (make32 s m) = s" "mag32 (make32 s m) = m"
proof -
  have "uint (word_of_int ((if s then 2 ^ 31 else 0) + m) :: 32 word) = (if s then 2 ^ 31 else 0) + m"
    unfolding uint_word_of_int using assms by (intro mod_pos_pos_trivial) auto
  with half_join [of m "2 ^ 31" s] assms show "sign32 (make32 s m) = s" "mag32 (make32 s m) = m"
    by (simp_all only: make32_def sign32_def mag32_def float32.sel) simp_all
qed

lemma make64_sel:
  assumes "0 \<le> m" "m < 9223372036854775808"
  shows "sign64 (make64 s m) = s" "mag64 (make64 s m) = m"
proof -
  have "uint (word_of_int ((if s then 2 ^ 63 else 0) + m) :: 64 word) = (if s then 2 ^ 63 else 0) + m"
    unfolding uint_word_of_int using assms by (intro mod_pos_pos_trivial) auto
  with half_join [of m "2 ^ 63" s] assms show "sign64 (make64 s m) = s" "mag64 (make64 s m) = m"
    by (simp_all only: make64_def sign64_def mag64_def float64.sel) simp_all
qed

lemma float32_eqI:
  assumes "sign32 x = sign32 y" "mag32 x = mag32 y"
  shows "x = y"
  using make32_parts [of x] unfolding assms by simp

lemma inf_mag32: "inf_mag 23 8 = 2139095040" by (simp add: inf_mag_def)
lemma inf_mag64: "inf_mag 52 11 = 9218868437227405312" by (simp add: inf_mag_def)
lemma qmin32: "qmin 23 8 = -149" by (simp add: qmin_def)
lemma qmin64: "qmin 52 11 = -1074" by (simp add: qmin_def)

lemmas mag_consts = inf_mag32 inf_mag64 qmin32 qmin64

lemma round_mag_le: "round_mag p w n d e \<le> inf_mag p w"
  by (auto simp: round_mag_def Let_def inf_mag_def)

lemma rnd_nonneg: "0 \<le> y \<Longrightarrow> 0 \<le> rnd y"
  using rnd_mono [of 0 y] rnd_of_int [of 0] by simp

lemma round_mag_nonneg:
  assumes "0 \<le> n" "0 < d"
  shows "0 \<le> round_mag p w n d e"
proof (cases "n = 0")
  case False
  then have "0 < fval n d e" using assms by (simp add: fval_pos)
  then show ?thesis using False assms
    by (simp add: round_mag_real round_real_def Let_def inf_mag_def rnd_nonneg)
qed (simp add: round_mag_def)

text \<open>The three classes, and finiteness as the source tests it.\<close>

definition finite32 :: "float32 \<Rightarrow> bool" where "finite32 x \<longleftrightarrow> \<not> is_nan32 x \<and> \<not> is_inf32 x"
definition finite64 :: "float64 \<Rightarrow> bool" where "finite64 x \<longleftrightarrow> \<not> is_nan64 x \<and> \<not> is_inf64 x"

lemma finite32_mag: "finite32 x \<longleftrightarrow> mag32 x < inf_mag 23 8"
  by (auto simp: finite32_def is_nan32_def is_inf32_def)

lemma finite64_mag: "finite64 x \<longleftrightarrow> mag64 x < inf_mag 52 11"
  by (auto simp: finite64_def is_nan64_def is_inf64_def)

lemma finite32_not_nan [simp]: "finite32 x \<Longrightarrow> \<not> is_nan32 x"
  by (simp add: finite32_def)

lemma finite64_not_nan [simp]: "finite64 x \<Longrightarrow> \<not> is_nan64 x"
  by (simp add: finite64_def)

lemma dec32_finite:
  "finite32 x \<Longrightarrow> dec32 x = XNum (sign32 x) (mag_mant 23 (mag32 x)) 1 (mag_exp 23 (mag32 x) + qmin 23 8)"
  by (simp add: dec32_def decode_mag_def finite32_mag)

lemma dec64_finite:
  "finite64 x \<Longrightarrow> dec64 x = XNum (sign64 x) (mag_mant 52 (mag64 x)) 1 (mag_exp 52 (mag64 x) + qmin 52 11)"
  by (simp add: dec64_def decode_mag_def finite64_mag)

lemma mag_mant_0 [simp]: "mag_mant p 0 = 0" and mag_exp_0 [simp]: "mag_exp p 0 = 0"
  by (simp_all add: mag_mant_def mag_exp_def)

text \<open>Widening a finite float32 keeps its sign and its value.\<close>

lemma widen_mag:
  assumes x: "finite32 x" "0 < mag32 x"
  shows "0 < mag64 (widen x)" "mag_real 52 11 (mag64 (widen x)) = mag_real 23 8 (mag32 x)"
    "finite64 (widen x)" "sign64 (widen x) = sign32 x"
    "mag64 (widen x) = round_real 52 11 (mag_real 23 8 (mag32 x))"
proof -
  note b = mag_value_bounds [OF x(2), where p = 23]
  define v where "v = mag_real 23 8 (mag32 x)"
  define E where "E = mag_exp 23 (mag32 x) + qmin 23 8"
  have v: "v = of_int (mag_mant 23 (mag32 x)) * 2 powi E" by (simp add: v_def E_def mag_real_unfold)
  have E: "qmin 52 11 \<le> E" using b(3) by (simp add: E_def mag_consts)
  have "mag_exp 23 (mag32 x) * 2 ^ 23 < inf_mag 23 8"
    using x(1) b(1,4) by (simp add: finite32_mag)
  then have E104: "E \<le> 105" by (simp add: E_def mag_consts)
  have M: "mag_mant 23 (mag32 x) < 2 ^ (52 + 1)" using b(2) by simp
  define q where "q = max (qmin 52 11) (\<lfloor>log 2 v\<rfloor> - int 52)"
  obtain N where N: "v = of_int N * 2 powi q" "0 < N" "N < 2 ^ (52 + 1)"
    "q = qmin 52 11 \<or> 2 ^ 52 \<le> N" "q \<le> E" "qmin 52 11 \<le> q"
    "round_real 52 11 v = min (inf_mag 52 11) ((q - qmin 52 11) * 2 ^ 52 + N)"
    by (rule round_real_exact [OF v b(1) M E, folded q_def])
  define r where "r = (q - qmin 52 11) * 2 ^ 52 + N"
  have r: "round_real 52 11 v = r" "0 < r" "r < inf_mag 52 11"
    using N E104 by (simp_all add: r_def mag_consts)
  have w: "widen x = make64 (sign32 x) r"
    using x b(1) r(1) by (simp add: widen_def dec32_finite round_mag_real v_def mag_real_def)
  have wm: "mag64 (widen x) = r" "sign64 (widen x) = sign32 x"
    using r by (simp_all add: w make64_sel mag_consts)
  have "mag_mant 52 r = N" "mag_exp 52 r = q - qmin 52 11"
    unfolding r_def using N(2,3,4,6) by (intro mag_of_parts; auto)+
  then have "mag_real 52 11 r = v" by (simp add: mag_real_unfold N(1))
  with r wm show "0 < mag64 (widen x)" "mag_real 52 11 (mag64 (widen x)) = mag_real 23 8 (mag32 x)"
    "finite64 (widen x)" "sign64 (widen x) = sign32 x"
    "mag64 (widen x) = round_real 52 11 (mag_real 23 8 (mag32 x))"
    by (simp_all add: finite64_mag flip: v_def)
qed

lemma widen_zero:
  assumes "mag32 x = 0"
  shows "mag64 (widen x) = 0" "sign64 (widen x) = sign32 x" "finite64 (widen x)"
proof -
  have "widen x = make64 (sign32 x) 0"
    using assms by (simp add: widen_def dec32_def decode_mag_def mag_consts round_mag_def)
  then show "mag64 (widen x) = 0" "sign64 (widen x) = sign32 x" "finite64 (widen x)"
    by (simp_all add: make64_sel finite64_mag mag_consts)
qed

lemma mag32_cases: obtains "mag32 x = 0" | "0 < mag32 x"
  using mag32_bounds(1) [of x] by linarith

lemma finite64_widen [simp]: "finite32 x \<Longrightarrow> finite64 (widen x)"
  by (rule mag32_cases [of x]) (simp_all add: widen_zero widen_mag)

lemma sign64_widen [simp]: "finite32 x \<Longrightarrow> sign64 (widen x) = sign32 x"
  by (rule mag32_cases [of x]) (simp_all add: widen_zero widen_mag)

text \<open>Taking the value back to float32, possibly with another sign.\<close>

lemma narrow_make64_widen:
  assumes "finite32 x"
  shows "narrow (make64 s (mag64 (widen x))) = make32 s (mag32 x)"
proof -
  let ?y = "make64 s (mag64 (widen x))"
  have y: "mag64 ?y = mag64 (widen x)" "sign64 ?y = s" by (simp_all add: make64_sel)
  then have fy: "finite64 ?y" using finite64_widen [OF assms] by (simp add: finite64_mag)
  show ?thesis
  proof (rule mag32_cases [of x])
    assume "mag32 x = 0"
    with fy y show ?thesis by (simp add: narrow_def dec64_finite widen_zero round_mag_def)
  next
    assume pos: "0 < mag32 x"
    note w = widen_mag [OF assms pos]
    have "round_real 23 8 (mag_real 52 11 (mag64 (widen x))) = mag32 x"
      using assms pos by (simp add: w(2) round_real_mag finite32_mag)
    with fy y w(1) show ?thesis
      using mag_value_bounds(1) [OF w(1), of 52]
      by (simp add: narrow_def dec64_finite round_mag_real mag_real_def)
  qed
qed

lemma narrow_widen [simp]:
  assumes "finite32 x"
  shows "narrow (widen x) = x"
  using narrow_make64_widen [OF assms, of "sign32 x"] make64_parts [of "widen x"] assms by simp

lemma mag_real_le:
  assumes "0 < m" "m \<le> inf_mag p w" "0 < n" "n \<le> inf_mag p w" "m \<le> n"
  shows "mag_real p w m \<le> mag_real p w n"
proof (rule ccontr)
  assume no: "\<not> ?thesis"
  then have "mag_real p w n \<le> mag_real p w m" by simp
  from round_real_mono [OF mag_real_pos [OF assms(3)] this, of p w] assms have "n \<le> m"
    by (simp add: round_real_mag)
  with assms(5) no show False by simp
qed

lemma mag64_widen_mono1:
  assumes "finite32 a" "finite32 b" "mag32 a \<le> mag32 b"
  shows "mag64 (widen a) \<le> mag64 (widen b)"
proof (cases "mag32 a = 0")
  case True
  then show ?thesis by (simp add: widen_zero)
next
  case False
  then have a: "0 < mag32 a" using mag32_bounds(1) [of a] by linarith
  then have b: "0 < mag32 b" using assms by linarith
  have "mag_real 23 8 (mag32 a) \<le> mag_real 23 8 (mag32 b)"
    using assms a b by (intro mag_real_le) (simp_all add: finite32_mag)
  then show ?thesis
    unfolding widen_mag(5) [OF assms(1) a] widen_mag(5) [OF assms(2) b]
    by (rule round_real_mono [OF mag_real_pos [OF a]])
qed

lemma mag64_widen_inj:
  assumes "finite32 a" "finite32 b" "mag64 (widen a) = mag64 (widen b)"
  shows "mag32 a = mag32 b"
proof -
  have "make32 False (mag32 a) = make32 False (mag32 b)"
    using narrow_make64_widen [OF assms(1), of False] narrow_make64_widen [OF assms(2), of False]
    unfolding assms(3) by simp
  then have "mag32 (make32 False (mag32 a)) = mag32 (make32 False (mag32 b))" by simp
  then show ?thesis by (simp add: make32_sel)
qed

lemma mag64_widen_mono:
  assumes x: "finite32 x" and y: "finite32 y"
  shows "mag64 (widen x) \<le> mag64 (widen y) \<longleftrightarrow> mag32 x \<le> mag32 y"
proof
  assume le: "mag64 (widen x) \<le> mag64 (widen y)"
  show "mag32 x \<le> mag32 y"
  proof (rule ccontr)
    assume no: "\<not> mag32 x \<le> mag32 y"
    then have "mag64 (widen y) \<le> mag64 (widen x)" by (intro mag64_widen_mono1 x y) simp
    with le have "mag64 (widen x) = mag64 (widen y)" by simp
    with mag64_widen_inj [OF x y] no show False by simp
  qed
qed (rule mag64_widen_mono1 [OF x y])

section \<open>Order and the operations the source relies on\<close>

lemma key32_nonneg: "0 \<le> key32 x \<Longrightarrow> key32 x = mag32 x"
  using mag32_bounds(1) [of x] unfolding key32_def signed_def by (cases "sign32 x") simp_all

lemma abs_key32 [simp]: "\<bar>key32 x\<bar> = mag32 x"
  by (simp add: key32_def signed_def)

lemma abs_key64 [simp]: "\<bar>key64 x\<bar> = mag64 x"
  by (simp add: key64_def signed_def)

lemma le32_refl [simp]: "le32 x x \<longleftrightarrow> \<not> is_nan32 x"
  by (simp add: le32_def)

lemma le32_trans: "le32 x y \<Longrightarrow> le32 y z \<Longrightarrow> le32 x z"
  by (auto simp: le32_def)

lemma not_lt32 [float_simps]: "\<not> is_nan32 x \<Longrightarrow> \<not> is_nan32 y \<Longrightarrow> \<not> lt32 x y \<longleftrightarrow> le32 y x"
  by (auto simp: le32_def lt32_def)

lemma lt32_le32: "lt32 x y \<Longrightarrow> le32 x y"
  by (auto simp: le32_def lt32_def)

text \<open>A value between two finite values is finite.\<close>

lemma finite32_key: "finite32 x \<longleftrightarrow> \<bar>key32 x\<bar> < inf_mag 23 8"
  by (simp add: finite32_mag)

lemma finite32_between: "finite32 a \<Longrightarrow> finite32 b \<Longrightarrow> le32 a x \<Longrightarrow> le32 x b \<Longrightarrow> finite32 x"
  unfolding finite32_key le32_def by linarith

text \<open>math.Abs of a widened value, and back.\<close>

lemma abs64_sel [simp]: "mag64 (abs64 x) = mag64 x" "sign64 (abs64 x) = False"
  by (simp_all add: abs64_def make64_sel)

lemma finite64_abs64 [simp]: "finite64 (abs64 x) = finite64 x"
  by (simp add: finite64_mag)

definition abs32 :: "float32 \<Rightarrow> float32" where "abs32 x = make32 False (mag32 x)"

lemma abs32_sel [simp]: "mag32 (abs32 x) = mag32 x" "sign32 (abs32 x) = False"
  by (simp_all add: abs32_def make32_sel)

lemma finite32_abs32 [simp]: "finite32 (abs32 x) = finite32 x"
  by (simp add: finite32_mag)

lemma narrow_abs_widen [simp]: "finite32 x \<Longrightarrow> narrow (abs64 (widen x)) = abs32 x"
  by (simp add: abs64_def abs32_def narrow_make64_widen)

lemma lt64_abs_widen:
  assumes "finite32 x" "finite32 y"
  shows "lt64 (abs64 (widen x)) (abs64 (widen y)) \<longleftrightarrow> mag32 x < mag32 y"
    and "eq64 (abs64 (widen x)) (abs64 (widen y)) \<longleftrightarrow> mag32 x = mag32 y"
proof -
  have n: "\<not> is_nan64 (abs64 (widen x))" "\<not> is_nan64 (abs64 (widen y))" using assms by simp_all
  have k: "key64 (abs64 (widen z)) = mag64 (widen z)" for z by (simp add: key64_def signed_def)
  show "lt64 (abs64 (widen x)) (abs64 (widen y)) \<longleftrightarrow> mag32 x < mag32 y"
    using mag64_widen_mono [OF assms(2) assms(1)] by (simp add: lt64_def n k) linarith
  show "eq64 (abs64 (widen x)) (abs64 (widen y)) \<longleftrightarrow> mag32 x = mag32 y"
    using mag64_widen_mono [OF assms] mag64_widen_mono [OF assms(2) assms(1)] by (simp add: eq64_def n k) linarith
qed

lemma zero32_sel [simp]: "mag32 zero32 = 0" "sign32 zero32 = False" "key32 zero32 = 0" "finite32 zero32" "\<not> is_nan32 zero32"
  by (simp_all add: zero32_def mag32_def sign32_def key32_def signed_def finite32_mag is_nan32_def mag_consts)

lemma one32_sel [simp]: "mag32 one32 = 1065353216" "key32 one32 = 1065353216" "finite32 one32" "\<not> is_nan32 one32"
  by (simp_all add: one32_def mag32_def sign32_def key32_def signed_def finite32_mag is_nan32_def mag_consts)

text \<open>\<open>x - x\<close> is a zero for every finite x.\<close>

lemma sub32_self: "finite32 x \<Longrightarrow> sub32 x x = zero32"
  by (simp add: sub32_def dec32_finite signed_def Let_def round_mag_def make32_def zero32_def)

end
