(* ===== verification/BitSets.thy ===== *)
theory BitSets
  imports Prelude
begin

text \<open>
  The contract of the fixed-size bit sets the program keeps in machine words (expression masks,
  eye-field sets, parameter sets, validity bits): an empty set, an operation that adds an index
  below a bound, and a membership test. Every such set of the model interprets the locale.
\<close>

unbundle bit_operations_syntax

locale bit_set =
  fixes empty :: 'm and add :: "nat \<Rightarrow> 'm \<Rightarrow> 'm" and has :: "'m \<Rightarrow> nat \<Rightarrow> bool"
    and valid :: "nat \<Rightarrow> bool"
  assumes has_empty: "\<not> has empty i"
    and has_add: "valid i \<Longrightarrow> has (add i m) j \<longleftrightarrow> j = i \<or> has m j"
begin

lemma has_fold_add:
  "\<forall>i \<in> set is. valid i \<Longrightarrow> has (fold add is m) j \<longleftrightarrow> j \<in> set is \<or> has m j"
  by (induction "is" arbitrary: m) (auto simp: has_add)

lemma has_fold_empty:
  "\<forall>i \<in> set is. valid i \<Longrightarrow> has (fold add is empty) j \<longleftrightarrow> j \<in> set is"
  by (simp add: has_fold_add has_empty)

lemma add_commutes_has:
  "valid i \<Longrightarrow> valid j \<Longrightarrow> has (add i (add j m)) k = has (add j (add i m)) k"
  by (auto simp: has_add)

end

text \<open>The bit test and the bit update of one word, as Go writes them.\<close>

lemma and_bit_iff [simp]: "(w :: 'a::len word) AND 2 ^ n \<noteq> 0 \<longleftrightarrow> bit w n"
  by (simp add: bit_iff_and_push_bit_not_eq_0)

lemma and_bit_iff_0 [simp]: "(w :: 'a::len word) AND 2 ^ n = 0 \<longleftrightarrow> \<not> bit w n"
  using and_bit_iff [of w n] by blast

lemma bit_or_push: "bit (w OR 2 ^ n :: 'a::len word) k \<longleftrightarrow> bit w k \<or> (k = n \<and> n < LENGTH('a))"
  by (auto simp: bit_simps)

lemma bit_andnot_push: "bit (w AND NOT (2 ^ n) :: 'a::len word) k \<longleftrightarrow> bit w k \<and> k \<noteq> n"
  by (auto simp: bit_simps dest: bit_imp_le_length)

end
