(* ===== verification/GoStrings.thy ===== *)
theory GoStrings
  imports Prelude
begin

text \<open>
  The functions of Go's packages strings, bytes and strconv that the modelled code calls, on byte
  strings, and the JSON syntax check json.Valid. TrimSpace trims the runes unicode.IsSpace
  accepts, in their UTF-8 encodings.
\<close>

section \<open>Prefixes, suffixes, trimming\<close>

definition has_prefix :: "string \<Rightarrow> string \<Rightarrow> bool" where
  "has_prefix s p \<longleftrightarrow> prefix p s"

definition has_suffix :: "string \<Rightarrow> string \<Rightarrow> bool" where
  "has_suffix s p \<longleftrightarrow> suffix p s"

definition trim_prefix :: "string \<Rightarrow> string \<Rightarrow> string" where
  "trim_prefix s p = (if prefix p s then drop (length p) s else s)"

definition trim_suffix :: "string \<Rightarrow> string \<Rightarrow> string" where
  "trim_suffix s p = (if suffix p s then take (length s - length p) s else s)"

definition trim_char :: "char \<Rightarrow> string \<Rightarrow> string" where
  \<comment> \<open>strings.Trim with a one-byte cutset\<close>
  "trim_char c s = rev (dropWhile (\<lambda>x. x = c) (rev (dropWhile (\<lambda>x. x = c) s)))"

definition space_runes :: "string list" where
  "space_runes = map (map char_of) [[9], [10], [11], [12], [13], [32 :: int],
     [0xC2, 0x85], [0xC2, 0xA0], [0xE1, 0x9A, 0x80],
     [0xE2, 0x80, 0x80], [0xE2, 0x80, 0x81], [0xE2, 0x80, 0x82], [0xE2, 0x80, 0x83],
     [0xE2, 0x80, 0x84], [0xE2, 0x80, 0x85], [0xE2, 0x80, 0x86], [0xE2, 0x80, 0x87],
     [0xE2, 0x80, 0x88], [0xE2, 0x80, 0x89], [0xE2, 0x80, 0x8A],
     [0xE2, 0x80, 0xA8], [0xE2, 0x80, 0xA9], [0xE2, 0x80, 0xAF], [0xE2, 0x81, 0x9F],
     [0xE3, 0x80, 0x80]]"

lemma space_runes_nonempty: "r \<in> set space_runes \<Longrightarrow> r \<noteq> []"
  by (auto simp: space_runes_def)

function trim_left_space :: "string \<Rightarrow> string" where
  "trim_left_space s = (case List.find (\<lambda>r. prefix r s) space_runes of
     None \<Rightarrow> s | Some r \<Rightarrow> trim_left_space (drop (length r) s))"
  by pat_completeness auto
termination
proof (relation "measure length")
  fix s r
  assume "List.find (\<lambda>r. prefix r s) space_runes = Some r"
  then have "r \<in> set space_runes" "prefix r s" by (auto simp: find_Some_iff)
  then have "0 < length r" "length r \<le> length s"
    using space_runes_nonempty by (auto dest: prefix_length_le)
  then have "length s - length r < length s" by linarith
  then show "(drop (length r) s, s) \<in> measure length" by simp
qed simp

declare trim_left_space.simps [simp del]

function trim_right_space :: "string \<Rightarrow> string" where
  "trim_right_space s = (case List.find (\<lambda>r. suffix r s) space_runes of
     None \<Rightarrow> s | Some r \<Rightarrow> trim_right_space (take (length s - length r) s))"
  by pat_completeness auto
termination
proof (relation "measure length")
  fix s r
  assume "List.find (\<lambda>r. suffix r s) space_runes = Some r"
  then have "r \<in> set space_runes" "suffix r s" by (auto simp: find_Some_iff)
  then have "0 < length r" "length r \<le> length s"
    using space_runes_nonempty by (auto dest: suffix_length_le)
  then have "length s - length r < length s" by linarith
  then show "(take (length s - length r) s, s) \<in> measure length" by simp
qed simp

declare trim_right_space.simps [simp del]

definition trim_space :: "string \<Rightarrow> string" where
  "trim_space s = trim_right_space (trim_left_space s)"

definition blank :: "string \<Rightarrow> bool" where
  \<comment> \<open>strings.TrimSpace(s) == ""\<close>
  "blank s \<longleftrightarrow> trim_space s = []"

section \<open>Splitting\<close>

fun split_char :: "char \<Rightarrow> string \<Rightarrow> string list" where
  \<comment> \<open>strings.Split with a one-byte separator: one more field than separators\<close>
  "split_char c [] = [[]]"
| "split_char c (x # xs) = (if x = c then [] # split_char c xs
     else case split_char c xs of [] \<Rightarrow> [[x]] | f # fs \<Rightarrow> (x # f) # fs)"

fun join_char :: "char \<Rightarrow> string list \<Rightarrow> string" where
  "join_char c [] = []"
| "join_char c [f] = f"
| "join_char c (f # g # fs) = f @ c # join_char c (g # fs)"

definition cut_char :: "char \<Rightarrow> string \<Rightarrow> string \<times> string \<times> bool" where
  \<comment> \<open>strings.Cut with a one-byte separator\<close>
  "cut_char c s = (let before = takeWhile (\<lambda>x. x \<noteq> c) s in
     if length before < length s then (before, drop (Suc (length before)) s, True) else (s, [], False))"

lemma split_char_nonempty [simp]: "split_char c s \<noteq> []"
  by (cases s) (auto split: list.splits)

lemma join_split_char [simp]: "join_char c (split_char c s) = s"
proof (induction s)
  case Nil
  then show ?case by simp
next
  case (Cons x xs)
  obtain f fs where f: "split_char c xs = f # fs" by (cases "split_char c xs") auto
  then show ?case using Cons by (cases fs) auto
qed

lemma split_char_no_sep: "f \<in> set (split_char c s) \<Longrightarrow> c \<notin> set f"
proof (induction s arbitrary: f)
  case Nil
  then show ?case by simp
next
  case (Cons x xs)
  obtain g gs where g: "split_char c xs = g # gs" by (cases "split_char c xs") auto
  then show ?case using Cons by (auto split: if_splits)
qed

lemma split_join_char:
  assumes "fs \<noteq> []" "\<forall>f \<in> set fs. c \<notin> set f"
  shows "split_char c (join_char c fs) = fs"
  using assms
proof (induction fs rule: join_char.induct)
  case (1 c)
  then show ?case by simp
next
  case (2 c f)
  then show ?case by (induction f) auto
next
  case (3 c f g fs)
  then have IH: "split_char c (join_char c (g # fs)) = g # fs" by simp
  have "c \<notin> set f" using 3 by simp
  then have "split_char c (f @ c # join_char c (g # fs)) = f # g # fs"
    by (induction f) (auto simp: IH)
  then show ?case by simp
qed

section \<open>Numbers\<close>

definition is_digit :: "char \<Rightarrow> bool" where
  "is_digit c \<longleftrightarrow> (48 :: int) \<le> of_char c \<and> of_char c \<le> (57 :: int)"

fun parse_digits :: "int \<Rightarrow> string \<Rightarrow> int option" where
  "parse_digits acc [] = Some acc"
| "parse_digits acc (c # cs) = (if is_digit c then parse_digits (acc * 10 + (of_char c - 48)) cs else None)"

definition parse_uint32 :: "string \<Rightarrow> u32 option" where
  \<comment> \<open>strconv.ParseUint(s, 10, 32): nonempty, digits only, in range\<close>
  "parse_uint32 s = (if s = [] then None else case parse_digits 0 s of
     None \<Rightarrow> None | Some n \<Rightarrow> if n < 2 ^ 32 then Some (word_of_int n) else None)"

section \<open>json.Valid\<close>

definition json_space :: "char \<Rightarrow> bool" where
  "json_space c \<longleftrightarrow> c \<in> set (map char_of [9, 10, 13, 32 :: int])"

definition skip_space :: "bytes \<Rightarrow> bytes" where "skip_space = dropWhile json_space"

definition is_hex :: "char \<Rightarrow> bool" where
  "is_hex c \<longleftrightarrow> is_digit c \<or> c \<in> set ''abcdefABCDEF''"

text \<open>A string after its opening quote: the bytes after the closing one.\<close>

fun json_string :: "bytes \<Rightarrow> bytes option" where
  "json_string [] = None"
| "json_string (c # cs) =
     (if c = CHR 0x22 then Some cs
      else if c = CHR 0x5C then
        (case cs of [] \<Rightarrow> None
         | e # ds \<Rightarrow>
             if e \<in> set [CHR 0x22, CHR 0x5C, CHR ''/'', CHR ''b'', CHR ''f'', CHR ''n'', CHR ''r'', CHR ''t'']
             then json_string ds
             else if e = CHR ''u'' then
               (case ds of h1 # h2 # h3 # h4 # es \<Rightarrow>
                  if is_hex h1 \<and> is_hex h2 \<and> is_hex h3 \<and> is_hex h4 then json_string es else None
                | _ \<Rightarrow> None)
             else None)
      else if of_char c < (32 :: int) then None
      else json_string cs)"

definition json_digits :: "bytes \<Rightarrow> bytes option" where
  \<comment> \<open>one digit at least\<close>
  "json_digits s = (if takeWhile is_digit s = [] then None else Some (dropWhile is_digit s))"

definition json_exponent :: "bytes \<Rightarrow> bytes option" where
  "json_exponent s = (case s of c # cs \<Rightarrow>
       if c \<in> {CHR ''e'', CHR ''E''} then
         (case cs of d # ds \<Rightarrow> if d \<in> {CHR ''+'', CHR ''-''} then json_digits ds else json_digits cs
          | [] \<Rightarrow> None)
       else Some s
     | [] \<Rightarrow> Some [])"

definition json_fraction :: "bytes \<Rightarrow> bytes option" where
  "json_fraction s = (case s of c # cs \<Rightarrow>
       if c = CHR ''.'' then Option.bind (json_digits cs) json_exponent else json_exponent s
     | [] \<Rightarrow> Some [])"

definition json_number :: "bytes \<Rightarrow> bytes option" where
  \<comment> \<open>an optional minus sign, then 0 or a number without leading zero\<close>
  "json_number s = (let t = (case s of c # cs \<Rightarrow> if c = CHR ''-'' then cs else s | [] \<Rightarrow> s) in
     case t of [] \<Rightarrow> None
     | d # ds \<Rightarrow> if d = CHR ''0'' then json_fraction ds
               else if is_digit d then json_fraction (dropWhile is_digit ds) else None)"

text \<open>
  A value from its first byte; the first argument is fuel (one unit per byte read at least), the
  second the nesting still allowed, 10000 levels as encoding/json sets it.
\<close>

fun json_value :: "nat \<Rightarrow> nat \<Rightarrow> bytes \<Rightarrow> bytes option"
  and json_members :: "nat \<Rightarrow> nat \<Rightarrow> bytes \<Rightarrow> bytes option"
  and json_elements :: "nat \<Rightarrow> nat \<Rightarrow> bytes \<Rightarrow> bytes option" where
  "json_value 0 d s = None"
| "json_value (Suc n) d s = (case skip_space s of [] \<Rightarrow> None
     | c # cs \<Rightarrow>
         if c = CHR ''{'' then
           (if d = 0 then None else case skip_space cs of
              [] \<Rightarrow> None
            | e # es \<Rightarrow> if e = CHR ''}'' then Some es else json_members n (d - 1) (e # es))
         else if c = CHR ''['' then
           (if d = 0 then None else case skip_space cs of
              [] \<Rightarrow> None
            | e # es \<Rightarrow> if e = CHR '']'' then Some es else json_elements n (d - 1) (e # es))
         else if c = CHR 0x22 then json_string cs
         else if has_prefix (c # cs) ''true'' then Some (drop 4 (c # cs))
         else if has_prefix (c # cs) ''false'' then Some (drop 5 (c # cs))
         else if has_prefix (c # cs) ''null'' then Some (drop 4 (c # cs))
         else json_number (c # cs))"
| "json_members 0 d s = None"
| "json_members (Suc n) d s = (case skip_space s of [] \<Rightarrow> None
     | c # cs \<Rightarrow> if c \<noteq> CHR 0x22 then None else
         (case json_string cs of None \<Rightarrow> None
          | Some t \<Rightarrow> (case skip_space t of [] \<Rightarrow> None
            | x # xs \<Rightarrow> if x \<noteq> CHR '':'' then None else
                (case json_value n d xs of None \<Rightarrow> None
                 | Some u \<Rightarrow> (case skip_space u of [] \<Rightarrow> None
                   | y # ys \<Rightarrow> if y = CHR '','' then json_members n d ys
                              else if y = CHR ''}'' then Some ys else None)))))"
| "json_elements 0 d s = None"
| "json_elements (Suc n) d s = (case json_value n d s of None \<Rightarrow> None
     | Some u \<Rightarrow> (case skip_space u of [] \<Rightarrow> None
       | y # ys \<Rightarrow> if y = CHR '','' then json_elements n d ys
                  else if y = CHR '']'' then Some ys else None))"

definition json_valid :: "bytes \<Rightarrow> bool" where
  "json_valid s = (case json_value (2 * length s + 2) 10000 s of None \<Rightarrow> False | Some r \<Rightarrow> skip_space r = [])"

end
