(* ===== verification/TrackingModel.thy ===== *)
theory TrackingModel
  imports IEEE754 BitSets
begin

text \<open>
  pkg/trackingmodel: capabilities, the expression mask and set, the eye sample and the tracking
  frame, with Validate and Canonicalize. A Go array of fixed size is a total function of the
  index ([76]float32) or a record of its words ([2]uint64); an index the code never reads has no
  meaning. Struct comparison with == is IEEE comparison of the floats, written out below.
\<close>

unbundle bit_operations_syntax

section \<open>Capabilities\<close>

type_synonym capability = u32

definition CapabilityEye :: capability where "CapabilityEye = 1"
definition CapabilityExpression :: capability where "CapabilityExpression = 2"
definition CapabilityLip :: capability where "CapabilityLip = 4"

definition cap_has :: "capability \<Rightarrow> capability \<Rightarrow> bool" where
  "cap_has c target \<longleftrightarrow> c AND target \<noteq> 0"

definition knownCapabilities :: capability where
  "knownCapabilities = CapabilityEye OR CapabilityExpression OR CapabilityLip"

section \<open>Expression masks and sets\<close>

definition ExpressionCount :: nat where "ExpressionCount = 76"

record expression_mask =
  Words0 :: u64
  Words1 :: u64

definition mask_word :: "expression_mask \<Rightarrow> nat \<Rightarrow> u64" where
  "mask_word m i = (if i = 0 then Words0 m else Words1 m)"

definition mask_set_word :: "expression_mask \<Rightarrow> nat \<Rightarrow> u64 \<Rightarrow> expression_mask" where
  "mask_set_word m i w = (if i = 0 then m\<lparr>Words0 := w\<rparr> else m\<lparr>Words1 := w\<rparr>)"

definition empty_mask :: expression_mask where
  "empty_mask = \<lparr>Words0 = 0, Words1 = 0\<rparr>"

definition mask_has :: "expression_mask \<Rightarrow> nat \<Rightarrow> bool" where
  "mask_has m eid = (if ExpressionCount \<le> eid then False
     else mask_word m (eid div 64) AND push_bit (eid mod 64) 1 \<noteq> 0)"

definition mask_set :: "nat \<Rightarrow> expression_mask \<Rightarrow> expression_mask \<times> bool" where
  "mask_set eid m = (if ExpressionCount \<le> eid then (m, False)
     else (mask_set_word m (eid div 64) (mask_word m (eid div 64) OR push_bit (eid mod 64) 1), True))"

fun ExpressionMaskOf :: "nat list \<Rightarrow> expression_mask \<Rightarrow> expression_mask" where
  \<comment> \<open>the loop of ExpressionMaskOf, from the mask built so far\<close>
  "ExpressionMaskOf [] m = m"
| "ExpressionMaskOf (eid # ids) m = ExpressionMaskOf ids (fst (mask_set eid m))"

definition mask_is_zero :: "expression_mask \<Rightarrow> bool" where
  "mask_is_zero m \<longleftrightarrow> Words0 m = 0 \<and> Words1 m = 0"

definition mask_intersect :: "expression_mask \<Rightarrow> expression_mask \<Rightarrow> expression_mask" where
  "mask_intersect m other = m\<lparr>Words0 := Words0 m AND Words0 other, Words1 := Words1 m AND Words1 other\<rparr>"

definition mask_normalize :: "expression_mask \<Rightarrow> expression_mask" where
  "mask_normalize m = (let usedLastWordBits = ExpressionCount mod 64 in
     if usedLastWordBits \<noteq> 0
     then m\<lparr>Words1 := Words1 m AND (push_bit usedLastWordBits 1 - 1)\<rparr> else m)"

record expression_set =
  Values :: "nat \<Rightarrow> float32"
  exp_Valid :: expression_mask

definition empty_expressions :: expression_set where
  "empty_expressions = \<lparr>Values = (\<lambda>_. zero32), exp_Valid = empty_mask\<rparr>"

definition exp_set :: "nat \<Rightarrow> float32 \<Rightarrow> expression_set \<Rightarrow> expression_set \<times> bool" where
  "exp_set eid v s = (if ExpressionCount \<le> eid then (s, False)
     else (s\<lparr>Values := (Values s)(eid := v), exp_Valid := fst (mask_set eid (exp_Valid s))\<rparr>, True))"

definition exp_get :: "expression_set \<Rightarrow> nat \<Rightarrow> float32 \<times> bool" where
  "exp_get s eid = (if ExpressionCount \<le> eid \<or> \<not> mask_has (exp_Valid s) eid then (zero32, False)
     else (Values s eid, True))"

definition exp_clear :: "nat \<Rightarrow> expression_set \<Rightarrow> expression_set \<times> bool" where
  "exp_clear eid s = (if ExpressionCount \<le> eid then (s, False)
     else (s\<lparr>Values := (Values s)(eid := zero32),
             exp_Valid := mask_set_word (exp_Valid s) (eid div 64)
               (mask_word (exp_Valid s) (eid div 64) AND NOT (push_bit (eid mod 64) 1))\<rparr>, True))"

section \<open>Eye samples and frames\<close>

record vec2 =
  X :: float32
  Y :: float32

definition zero_vec2 :: vec2 where "zero_vec2 = \<lparr>X = zero32, Y = zero32\<rparr>"

type_synonym eye_valid = u16

definition EyeValidLeftGaze :: eye_valid where "EyeValidLeftGaze = 1"
definition EyeValidRightGaze :: eye_valid where "EyeValidRightGaze = 2"
definition EyeValidLeftOpenness :: eye_valid where "EyeValidLeftOpenness = 4"
definition EyeValidRightOpenness :: eye_valid where "EyeValidRightOpenness = 8"
definition EyeValidLeftPupil :: eye_valid where "EyeValidLeftPupil = 16"
definition EyeValidRightPupil :: eye_valid where "EyeValidRightPupil = 32"

definition knownEyeValid :: eye_valid where
  "knownEyeValid = EyeValidLeftGaze OR EyeValidRightGaze OR EyeValidLeftOpenness OR
     EyeValidRightOpenness OR EyeValidLeftPupil OR EyeValidRightPupil"

record eye_sample =
  eye_Valid :: eye_valid
  LeftGaze :: vec2
  RightGaze :: vec2
  LeftOpenness :: float32
  RightOpenness :: float32
  LeftPupilDiameterMM :: float32
  RightPupilDiameterMM :: float32
  LeftPupilDilation :: float32
  RightPupilDilation :: float32

definition empty_eye :: eye_sample where
  "empty_eye = \<lparr>eye_Valid = 0, LeftGaze = zero_vec2, RightGaze = zero_vec2, LeftOpenness = zero32,
     RightOpenness = zero32, LeftPupilDiameterMM = zero32, RightPupilDiameterMM = zero32,
     LeftPupilDilation = zero32, RightPupilDilation = zero32\<rparr>"

record tracking_frame =
  Sequence :: u64
  TimestampNS :: int
  Capabilities :: capability
  SourceClockNS :: int
  Eye :: eye_sample
  Expressions :: expression_set

text \<open>Go's == on these structs: floats compare as IEEE values.\<close>

definition vec2_eq :: "vec2 \<Rightarrow> vec2 \<Rightarrow> bool" where
  "vec2_eq a b \<longleftrightarrow> eq32 (X a) (X b) \<and> eq32 (Y a) (Y b)"

definition eye_eq :: "eye_sample \<Rightarrow> eye_sample \<Rightarrow> bool" where
  "eye_eq a b \<longleftrightarrow> eye_Valid a = eye_Valid b \<and> vec2_eq (LeftGaze a) (LeftGaze b) \<and>
     vec2_eq (RightGaze a) (RightGaze b) \<and> eq32 (LeftOpenness a) (LeftOpenness b) \<and>
     eq32 (RightOpenness a) (RightOpenness b) \<and>
     eq32 (LeftPupilDiameterMM a) (LeftPupilDiameterMM b) \<and>
     eq32 (RightPupilDiameterMM a) (RightPupilDiameterMM b) \<and>
     eq32 (LeftPupilDilation a) (LeftPupilDilation b) \<and>
     eq32 (RightPupilDilation a) (RightPupilDilation b)"

definition exp_eq :: "expression_set \<Rightarrow> expression_set \<Rightarrow> bool" where
  "exp_eq a b \<longleftrightarrow> exp_Valid a = exp_Valid b \<and>
     list_all (\<lambda>eid. eq32 (Values a eid) (Values b eid)) [0..<ExpressionCount]"

section \<open>Validate and Canonicalize\<close>

datatype frame_error =
    UnknownCapabilityBits | UnknownEyeBits | ExpressionTailBits
  | EyeRequiresCapability | ExpressionRequiresCapability
  | EyeNotFinite string | ExpressionNotFinite nat

definition eye_checks :: "eye_sample \<Rightarrow> (eye_valid \<times> string \<times> float32) list" where
  "eye_checks eye =
    [(EyeValidLeftGaze, ''LeftGaze.X'', X (LeftGaze eye)),
     (EyeValidLeftGaze, ''LeftGaze.Y'', Y (LeftGaze eye)),
     (EyeValidRightGaze, ''RightGaze.X'', X (RightGaze eye)),
     (EyeValidRightGaze, ''RightGaze.Y'', Y (RightGaze eye)),
     (EyeValidLeftOpenness, ''LeftOpenness'', LeftOpenness eye),
     (EyeValidRightOpenness, ''RightOpenness'', RightOpenness eye),
     (EyeValidLeftPupil, ''LeftPupilDiameterMM'', LeftPupilDiameterMM eye),
     (EyeValidLeftPupil, ''LeftPupilDilation'', LeftPupilDilation eye),
     (EyeValidRightPupil, ''RightPupilDiameterMM'', RightPupilDiameterMM eye),
     (EyeValidRightPupil, ''RightPupilDilation'', RightPupilDilation eye)]"

fun check_eye :: "eye_valid \<Rightarrow> (eye_valid \<times> string \<times> float32) list \<Rightarrow> (frame_error, unit) result" where
  "check_eye v [] = Inr ()"
| "check_eye v ((bits, name, x) # cs) =
     guard_result (v AND bits \<noteq> 0 \<and> \<not> finite32 x) (EyeNotFinite name) (check_eye v cs)"

definition validateFiniteEye :: "eye_sample \<Rightarrow> (frame_error, unit) result" where
  "validateFiniteEye eye = check_eye (eye_Valid eye) (eye_checks eye)"

fun check_expressions :: "expression_set \<Rightarrow> nat list \<Rightarrow> (frame_error, unit) result" where
  "check_expressions s [] = Inr ()"
| "check_expressions s (eid # ids) =
     guard_result (mask_has (exp_Valid s) eid \<and> \<not> finite32 (Values s eid)) (ExpressionNotFinite eid)
       (check_expressions s ids)"

definition frame_validate :: "tracking_frame \<Rightarrow> (frame_error, unit) result" where
  "frame_validate f =
     guard_result (Capabilities f AND NOT knownCapabilities \<noteq> 0) UnknownCapabilityBits
    (guard_result (eye_Valid (Eye f) AND NOT knownEyeValid \<noteq> 0) UnknownEyeBits
    (guard_result (exp_Valid (Expressions f) \<noteq> mask_normalize (exp_Valid (Expressions f))) ExpressionTailBits
    (guard_result (\<not> cap_has (Capabilities f) CapabilityEye \<and> eye_Valid (Eye f) \<noteq> 0) EyeRequiresCapability
    (guard_result (\<not> cap_has (Capabilities f) CapabilityExpression \<and> \<not> mask_is_zero (exp_Valid (Expressions f)))
       ExpressionRequiresCapability
    (bind_result (validateFiniteEye (Eye f)) (\<lambda>_.
     check_expressions (Expressions f) [0..<ExpressionCount]))))))"

definition zeroInvalidEyeValues :: "eye_sample \<Rightarrow> eye_sample" where
  "zeroInvalidEyeValues eye = (let v = eye_Valid eye;
     e1 = (if v AND EyeValidLeftGaze = 0 then eye\<lparr>LeftGaze := zero_vec2\<rparr> else eye);
     e2 = (if v AND EyeValidRightGaze = 0 then e1\<lparr>RightGaze := zero_vec2\<rparr> else e1);
     e3 = (if v AND EyeValidLeftOpenness = 0 then e2\<lparr>LeftOpenness := zero32\<rparr> else e2);
     e4 = (if v AND EyeValidRightOpenness = 0 then e3\<lparr>RightOpenness := zero32\<rparr> else e3);
     e5 = (if v AND EyeValidLeftPupil = 0
           then e4\<lparr>LeftPupilDiameterMM := zero32, LeftPupilDilation := zero32\<rparr> else e4)
     in (if v AND EyeValidRightPupil = 0
         then e5\<lparr>RightPupilDiameterMM := zero32, RightPupilDilation := zero32\<rparr> else e5))"

definition zeroInvalidExpressions :: "expression_set \<Rightarrow> expression_set" where
  \<comment> \<open>for eid < ExpressionCount: if !Valid.Has(eid) then Values[eid] = 0\<close>
  "zeroInvalidExpressions s = s\<lparr>Values := (\<lambda>eid. if eid < ExpressionCount \<and> \<not> mask_has (exp_Valid s) eid
     then zero32 else Values s eid)\<rparr>"

definition canonicalize :: "tracking_frame \<Rightarrow> (frame_error, tracking_frame) result" where
  "canonicalize f = bind_result (frame_validate f) (\<lambda>_.
     let f1 = (if \<not> cap_has (Capabilities f) CapabilityEye then f\<lparr>Eye := empty_eye\<rparr>
               else f\<lparr>Eye := zeroInvalidEyeValues (Eye f)\<rparr>)
     in Inr (if \<not> cap_has (Capabilities f1) CapabilityExpression then f1\<lparr>Expressions := empty_expressions\<rparr>
             else f1\<lparr>Expressions := zeroInvalidExpressions (Expressions f1)\<rparr>))"


section \<open>Masks: membership, normal form\<close>

lemma ExpressionCount_simps [simp]: "ExpressionCount = 76"
  by (simp add: ExpressionCount_def)

lemma mask_has_bit: "mask_has m eid \<longleftrightarrow> eid < 76 \<and> bit (mask_word m (eid div 64)) (eid mod 64)"
  by (simp add: mask_has_def not_le)

lemma mask_has_words:
  "mask_has m eid \<longleftrightarrow> (if eid < 64 then bit (Words0 m) eid else eid < 76 \<and> bit (Words1 m) (eid - 64))"
proof (cases "eid < 64")
  case True
  then show ?thesis by (simp add: mask_has_bit mask_word_def)
next
  case False
  show ?thesis
  proof (cases "eid < 76")
    case True
    with False have "eid div 64 = 1" "eid mod 64 = eid - 64"
      using div_nat_eqI [of 1 64 eid] by (simp_all add: mod_if)
    then show ?thesis using False True by (simp add: mask_has_bit mask_word_def)
  next
    case no: False
    then show ?thesis using False by (simp add: mask_has_bit)
  qed
qed

lemma mask_has_bound: "mask_has m eid \<Longrightarrow> eid < 76"
  by (simp add: mask_has_bit)

lemma mask_has_empty [simp]: "\<not> mask_has empty_mask eid"
  by (simp add: mask_has_words empty_mask_def)

lemma div_mod_64_eq: "(i div 64 = j div 64 \<and> i mod 64 = j mod 64) \<longleftrightarrow> i = (j :: nat)"
  by (metis div_mult_mod_eq)

lemma word_index_01: "eid < 76 \<Longrightarrow> eid div 64 < (2 :: nat)"
  by (simp add: less_mult_imp_div_less)

lemma mask_word_set_word:
  "i < 2 \<Longrightarrow> j < 2 \<Longrightarrow> mask_word (mask_set_word m i w) j = (if i = j then w else mask_word m j)"
  by (auto simp: mask_word_def mask_set_word_def)

lemma mask_has_set:
  assumes "eid < 76"
  shows "mask_has (fst (mask_set eid m)) j \<longleftrightarrow> j = eid \<or> mask_has m j"
proof (cases "j < 76")
  case True
  have d: "eid div 64 < 2" "j div 64 < 2" using word_index_01 [OF assms] word_index_01 [OF True] by blast+
  have "mask_has (fst (mask_set eid m)) j \<longleftrightarrow>
      bit (mask_word m (j div 64)) (j mod 64) \<or> (eid div 64 = j div 64 \<and> eid mod 64 = j mod 64)"
    using assms True d by (auto simp: mask_has_bit mask_set_def mask_word_set_word bit_or_push)
  then show ?thesis using True unfolding div_mod_64_eq by (auto simp: mask_has_bit)
next
  case False
  then show ?thesis using assms by (auto simp: mask_has_bit)
qed

interpretation expression_bits: bit_set empty_mask "\<lambda>i m. fst (mask_set i m)" mask_has "\<lambda>i. i < ExpressionCount"
  by unfold_locales (simp_all add: mask_has_set)

lemma ExpressionMaskOf_fold: "ExpressionMaskOf ids m = fold (\<lambda>i m. fst (mask_set i m)) ids m"
  by (induction ids arbitrary: m) simp_all

lemma mask_normalize_words:
  "Words0 (mask_normalize m) = Words0 m" "Words1 (mask_normalize m) = Words1 m AND 4095"
  by (simp_all add: mask_normalize_def)

lemma bit_4095: "bit (4095 :: u64) n \<longleftrightarrow> n < 12"
proof -
  have "(4095 :: u64) = mask 12" by (simp add: mask_eq_exp_minus_1)
  then show ?thesis using bit_mask_iff [where ?'a = u64, of 12 n] by auto
qed

lemma mask_has_normalize [simp]: "mask_has (mask_normalize m) eid = mask_has m eid"
  unfolding mask_has_words mask_normalize_words bit_and_iff bit_4095 by auto

lemma mask_normalize_idem [simp]: "mask_normalize (mask_normalize m) = mask_normalize m"
  by (simp add: mask_normalize_def and.assoc)

lemma mask_normalized_tail: "m = mask_normalize m \<Longrightarrow> bit (Words1 m) n \<Longrightarrow> n < 12"
  by (metis mask_normalize_words(2) bit_and_iff bit_4095)

text \<open>A normalized mask is determined by its members.\<close>

lemma mask_eqI:
  assumes "m = mask_normalize m" "n = mask_normalize n" "\<And>i. mask_has m i = mask_has n i"
  shows "m = n"
proof -
  have "bit (Words0 m) i = bit (Words0 n) i" for i
    using assms(3) [of i] bit_imp_le_length [of "Words0 m" i] bit_imp_le_length [of "Words0 n" i]
    by (auto simp: mask_has_words split: if_splits)
  moreover have "bit (Words1 m) i = bit (Words1 n) i" for i
    using assms(3) [of "i + 64"] mask_normalized_tail [OF assms(1), of i] mask_normalized_tail [OF assms(2), of i]
    by (auto simp: mask_has_words)
  ultimately show ?thesis by (cases m; cases n) (simp add: bit_eq_iff)
qed

lemma mask_normalize_empty [simp]: "mask_normalize empty_mask = empty_mask"
  by (simp add: mask_normalize_def empty_mask_def)

lemma mask_is_zero_iff: "mask_is_zero m \<longleftrightarrow> m = empty_mask"
  by (cases m) (simp add: mask_is_zero_def empty_mask_def)

lemma mask_is_zero_has: "m = mask_normalize m \<Longrightarrow> mask_is_zero m \<longleftrightarrow> (\<forall>i. \<not> mask_has m i)"
  using mask_eqI [of m empty_mask] by (auto simp: mask_is_zero_iff)

lemma mask_has_intersect [simp]: "mask_has (mask_intersect m n) i \<longleftrightarrow> mask_has m i \<and> mask_has n i"
  by (auto simp: mask_has_words mask_intersect_def bit_and_iff)

lemma mask_intersect_words:
  "Words0 (mask_intersect m n) = Words0 m AND Words0 n" "Words1 (mask_intersect m n) = Words1 m AND Words1 n"
  by (simp_all add: mask_intersect_def)

lemma mask_normalize_intersect: "m = mask_normalize m \<Longrightarrow> mask_intersect m n = mask_normalize (mask_intersect m n)"
proof -
  assume m: "m = mask_normalize m"
  have "Words1 m AND 4095 = Words1 m" using m mask_normalize_words(2) [of m] by simp
  then have e: "(Words1 m AND Words1 n) AND 4095 = Words1 m AND Words1 n"
    by (metis and.assoc and.commute)
  show ?thesis
    by (rule expression_mask.equality) (simp_all only: mask_normalize_words mask_intersect_words e, simp)
qed

lemma exp_get_set: "eid < ExpressionCount \<Longrightarrow> exp_get (fst (exp_set eid v s)) j = (if j = eid then (v, True) else exp_get s j)"
  by (auto simp: exp_get_def exp_set_def mask_has_set)

section \<open>Validation\<close>

lemma check_eye_ok: "check_eye v cs = Inr u \<longleftrightarrow> (\<forall>(b, n, x) \<in> set cs. v AND b \<noteq> 0 \<longrightarrow> finite32 x)"
  by (induction cs) (auto simp: guard_result_Inr)

lemma check_expressions_ok:
  "check_expressions s ids = Inr u \<longleftrightarrow> (\<forall>eid \<in> set ids. mask_has (exp_Valid s) eid \<longrightarrow> finite32 (Values s eid))"
  by (induction ids) (auto simp: guard_result_Inr)

definition frame_ok :: "tracking_frame \<Rightarrow> bool" where
  "frame_ok f \<longleftrightarrow> Capabilities f AND NOT knownCapabilities = 0 \<and>
     eye_Valid (Eye f) AND NOT knownEyeValid = 0 \<and>
     exp_Valid (Expressions f) = mask_normalize (exp_Valid (Expressions f)) \<and>
     (cap_has (Capabilities f) CapabilityEye \<or> eye_Valid (Eye f) = 0) \<and>
     (cap_has (Capabilities f) CapabilityExpression \<or> mask_is_zero (exp_Valid (Expressions f))) \<and>
     (\<forall>(b, n, x) \<in> set (eye_checks (Eye f)). eye_Valid (Eye f) AND b \<noteq> 0 \<longrightarrow> finite32 x) \<and>
     (\<forall>eid < ExpressionCount. mask_has (exp_Valid (Expressions f)) eid \<longrightarrow> finite32 (Values (Expressions f) eid))"

lemma frame_validate_ok: "frame_validate f = Inr u \<longleftrightarrow> frame_ok f"
  by (auto simp: frame_validate_def frame_ok_def result_iffs validateFiniteEye_def check_eye_ok check_expressions_ok)

section \<open>Canonicalization\<close>

lemma zeroInvalidEye_simps [simp]:
  "eye_Valid (zeroInvalidEyeValues e) = eye_Valid e"
  "LeftGaze (zeroInvalidEyeValues e) = (if eye_Valid e AND EyeValidLeftGaze = 0 then zero_vec2 else LeftGaze e)"
  "RightGaze (zeroInvalidEyeValues e) = (if eye_Valid e AND EyeValidRightGaze = 0 then zero_vec2 else RightGaze e)"
  "LeftOpenness (zeroInvalidEyeValues e) = (if eye_Valid e AND EyeValidLeftOpenness = 0 then zero32 else LeftOpenness e)"
  "RightOpenness (zeroInvalidEyeValues e) = (if eye_Valid e AND EyeValidRightOpenness = 0 then zero32 else RightOpenness e)"
  "LeftPupilDiameterMM (zeroInvalidEyeValues e) = (if eye_Valid e AND EyeValidLeftPupil = 0 then zero32 else LeftPupilDiameterMM e)"
  "LeftPupilDilation (zeroInvalidEyeValues e) = (if eye_Valid e AND EyeValidLeftPupil = 0 then zero32 else LeftPupilDilation e)"
  "RightPupilDiameterMM (zeroInvalidEyeValues e) = (if eye_Valid e AND EyeValidRightPupil = 0 then zero32 else RightPupilDiameterMM e)"
  "RightPupilDilation (zeroInvalidEyeValues e) = (if eye_Valid e AND EyeValidRightPupil = 0 then zero32 else RightPupilDilation e)"
  by (simp_all add: zeroInvalidEyeValues_def Let_def)

lemma zeroInvalidEye_idem [simp]: "zeroInvalidEyeValues (zeroInvalidEyeValues e) = zeroInvalidEyeValues e"
  by (rule eye_sample.equality) simp_all

lemma zeroInvalidEye_empty [simp]: "zeroInvalidEyeValues empty_eye = empty_eye"
  by (rule eye_sample.equality) (simp_all add: empty_eye_def)

lemma zeroInvalidExpressions_simps [simp]:
  "exp_Valid (zeroInvalidExpressions s) = exp_Valid s"
  "Values (zeroInvalidExpressions s) eid = (if eid < 76 \<and> \<not> mask_has (exp_Valid s) eid then zero32 else Values s eid)"
  by (simp_all add: zeroInvalidExpressions_def)

lemma zeroInvalidExpressions_idem [simp]:
  "zeroInvalidExpressions (zeroInvalidExpressions s) = zeroInvalidExpressions s"
  by (rule expression_set.equality) (auto simp: fun_eq_iff)

lemma eye_checks_zeroed:
  assumes "\<forall>(b, n, x) \<in> set (eye_checks e). eye_Valid e AND b \<noteq> 0 \<longrightarrow> finite32 x"
  shows "\<forall>(b, n, x) \<in> set (eye_checks (zeroInvalidEyeValues e)). eye_Valid e AND b \<noteq> 0 \<longrightarrow> finite32 x"
  using assms by (simp add: eye_checks_def)

definition canonical :: "tracking_frame \<Rightarrow> tracking_frame" where
  "canonical f = f\<lparr>
     Eye := (if cap_has (Capabilities f) CapabilityEye then zeroInvalidEyeValues (Eye f) else empty_eye),
     Expressions := (if cap_has (Capabilities f) CapabilityExpression
       then zeroInvalidExpressions (Expressions f) else empty_expressions)\<rparr>"

lemma canonicalize_eq: "canonicalize f = Inr g \<longleftrightarrow> frame_ok f \<and> g = canonical f"
  by (auto simp: canonicalize_def bind_result_Inr frame_validate_ok canonical_def Let_def)

lemma canonical_meta [simp]:
  "Sequence (canonical f) = Sequence f" "TimestampNS (canonical f) = TimestampNS f"
  "Capabilities (canonical f) = Capabilities f" "SourceClockNS (canonical f) = SourceClockNS f"
  by (simp_all add: canonical_def)

lemma canonical_idem [simp]: "canonical (canonical f) = canonical f"
  by (simp add: canonical_def)

lemma eye_canonical_simps [simp]:
  "Eye (canonical f) = (if cap_has (Capabilities f) CapabilityEye then zeroInvalidEyeValues (Eye f) else empty_eye)"
  "Expressions (canonical f) = (if cap_has (Capabilities f) CapabilityExpression
     then zeroInvalidExpressions (Expressions f) else empty_expressions)"
  by (simp_all add: canonical_def)

lemma empty_parts [simp]:
  "eye_Valid empty_eye = 0" "exp_Valid empty_expressions = empty_mask" "Values empty_expressions eid = zero32"
  by (simp_all add: empty_eye_def empty_expressions_def)

lemma mask_is_zero_empty [simp]: "mask_is_zero empty_mask"
  by (simp add: mask_is_zero_iff)

lemma canonical_ok:
  assumes ok: "frame_ok f"
  shows "frame_ok (canonical f)"
proof -
  have eyes: "\<forall>(b, n, x) \<in> set (eye_checks (Eye (canonical f))). eye_Valid (Eye (canonical f)) AND b \<noteq> 0 \<longrightarrow> finite32 x"
  proof (cases "cap_has (Capabilities f) CapabilityEye")
    case True
    with ok eye_checks_zeroed [of "Eye f"] show ?thesis by (simp add: frame_ok_def)
  next
    case False
    then show ?thesis by auto
  qed
  have "\<forall>eid < ExpressionCount. mask_has (exp_Valid (Expressions (canonical f))) eid \<longrightarrow>
      finite32 (Values (Expressions (canonical f)) eid)"
    using ok by (simp add: frame_ok_def)
  with ok eyes show ?thesis unfolding frame_ok_def by simp
qed

text \<open>What a canonical frame promises its consumers: validated, and zero wherever it is not valid.\<close>

definition frame_canonical :: "tracking_frame \<Rightarrow> bool" where
  "frame_canonical f \<longleftrightarrow> frame_ok f \<and> canonical f = f"

lemma canonicalize_canonical: "canonicalize f = Inr g \<Longrightarrow> frame_canonical g"
  by (auto simp: canonicalize_eq frame_canonical_def canonical_ok)

definition eye_canonical :: "eye_sample \<Rightarrow> bool" where
  "eye_canonical e \<longleftrightarrow> eye_Valid e AND NOT knownEyeValid = 0 \<and> zeroInvalidEyeValues e = e \<and>
     (\<forall>(b, n, x) \<in> set (eye_checks e). eye_Valid e AND b \<noteq> 0 \<longrightarrow> finite32 x)"

definition exp_canonical :: "expression_set \<Rightarrow> bool" where
  "exp_canonical x \<longleftrightarrow> exp_Valid x = mask_normalize (exp_Valid x) \<and> zeroInvalidExpressions x = x \<and>
     (\<forall>eid < ExpressionCount. mask_has (exp_Valid x) eid \<longrightarrow> finite32 (Values x eid))"

lemma exp_zeroed_empty [simp]: "zeroInvalidExpressions empty_expressions = empty_expressions"
  by (rule expression_set.equality) (auto simp: fun_eq_iff)

lemma eye_canonical_empty [simp]: "eye_canonical empty_eye"
  by (simp add: eye_canonical_def)

lemma exp_canonical_empty [simp]: "exp_canonical empty_expressions"
  by (simp add: exp_canonical_def)

lemma frame_canonical_parts:
  "frame_canonical f \<longleftrightarrow> Capabilities f AND NOT knownCapabilities = 0 \<and>
    (if cap_has (Capabilities f) CapabilityEye then eye_canonical (Eye f) else Eye f = empty_eye) \<and>
    (if cap_has (Capabilities f) CapabilityExpression then exp_canonical (Expressions f)
     else Expressions f = empty_expressions)"
proof -
  have "canonical f = f \<longleftrightarrow> Eye (canonical f) = Eye f \<and> Expressions (canonical f) = Expressions f"
    by (auto intro!: tracking_frame.equality simp del: eye_canonical_simps)
  then show ?thesis
    unfolding frame_canonical_def
    by (auto simp: frame_ok_def eye_canonical_def exp_canonical_def)
qed

lemma eq32_refl_iff: "eq32 x x \<longleftrightarrow> \<not> is_nan32 x"
  by (simp add: eq32_def)

lemma eye_canonical_eq:
  assumes "eye_canonical e"
  shows "eye_eq e e"
proof -
  have "\<forall>(b, n, x) \<in> set (eye_checks e). eye_Valid e AND b \<noteq> 0 \<longrightarrow> \<not> is_nan32 x"
    using assms by (fastforce simp: eye_canonical_def)
  note nan = this [unfolded eye_checks_def, simplified]
  have z: "\<not> is_nan32 zero32" by code_simp
  have "X (LeftGaze e) = X (LeftGaze (zeroInvalidEyeValues e))" "Y (LeftGaze e) = Y (LeftGaze (zeroInvalidEyeValues e))"
    "X (RightGaze e) = X (RightGaze (zeroInvalidEyeValues e))" "Y (RightGaze e) = Y (RightGaze (zeroInvalidEyeValues e))"
    "LeftOpenness e = LeftOpenness (zeroInvalidEyeValues e)" "RightOpenness e = RightOpenness (zeroInvalidEyeValues e)"
    "LeftPupilDiameterMM e = LeftPupilDiameterMM (zeroInvalidEyeValues e)"
    "RightPupilDiameterMM e = RightPupilDiameterMM (zeroInvalidEyeValues e)"
    "LeftPupilDilation e = LeftPupilDilation (zeroInvalidEyeValues e)"
    "RightPupilDilation e = RightPupilDilation (zeroInvalidEyeValues e)"
    using assms by (simp_all only: eye_canonical_def)
  note fields = this
  show ?thesis
    unfolding eye_eq_def vec2_eq_def eq32_refl_iff
    by (intro conjI refl; subst fields)
      (use nan in \<open>auto simp: z zero_vec2_def\<close>)
qed

lemma exp_canonical_eq:
  assumes "exp_canonical x"
  shows "exp_eq x x"
proof -
  have z: "\<not> is_nan32 zero32" by code_simp
  have "\<not> is_nan32 (Values x eid)" if eid: "eid < ExpressionCount" for eid
  proof (cases "mask_has (exp_Valid x) eid")
    case True
    with eid assms show ?thesis by (auto simp: exp_canonical_def)
  next
    case False
    have "Values x eid = Values (zeroInvalidExpressions x) eid" using assms by (simp only: exp_canonical_def)
    then show ?thesis using False eid z by simp
  qed
  then show ?thesis by (auto simp: exp_eq_def eq32_refl_iff list_all_iff)
qed

end
