(* ===== verification/PluginApi.thy ===== *)
theory PluginApi
  imports TrackingModel GoStrings
begin

text \<open>
  pkg/pluginapi: the subscription a plugin receives (Normalize, Validate, the two membership
  tests and TrimFrame), the configuration with its revision, the descriptor with its identifier
  and version syntax, the device status and the log level.
\<close>

unbundle bit_operations_syntax

section \<open>Subscriptions\<close>

record subscription =
  sub_Generation :: u64
  sub_Capabilities :: capability
  sub_Eye :: eye_valid
  sub_Expressions :: expression_mask

definition empty_subscription :: subscription where
  "empty_subscription = \<lparr>sub_Generation = 0, sub_Capabilities = 0, sub_Eye = 0, sub_Expressions = empty_mask\<rparr>"

definition sub_normalize :: "subscription \<Rightarrow> subscription" where
  "sub_normalize s =
     (let s1 = (if \<not> cap_has (sub_Capabilities s) CapabilityEye then s\<lparr>sub_Eye := 0\<rparr> else s) in
      if \<not> cap_has (sub_Capabilities s1) CapabilityExpression then s1\<lparr>sub_Expressions := empty_mask\<rparr>
      else s1\<lparr>sub_Expressions := mask_normalize (sub_Expressions s1)\<rparr>)"

datatype subscription_error =
    SubUnknownCapability | SubUnknownEye | SubTailBits | SubZeroGeneration | SubNoCapability

definition sub_validate :: "subscription \<Rightarrow> bool \<Rightarrow> (subscription_error, unit) result" where
  "sub_validate s active =
     guard_result (sub_Capabilities s AND NOT knownCapabilities \<noteq> 0) SubUnknownCapability
    (guard_result (sub_Eye s AND NOT knownEyeValid \<noteq> 0) SubUnknownEye
    (guard_result (sub_Expressions s \<noteq> mask_normalize (sub_Expressions s)) SubTailBits
    (if sub_Generation s = 0 then
       guard_result (active \<or> sub_Capabilities s \<noteq> 0 \<or> sub_Eye s \<noteq> 0 \<or> \<not> mask_is_zero (sub_Expressions s))
         SubZeroGeneration (Inr ())
     else guard_result (sub_Capabilities s AND knownCapabilities = 0) SubNoCapability (Inr ()))))"

definition IncludesEye :: "subscription \<Rightarrow> eye_valid \<Rightarrow> bool" where
  "IncludesEye s b =
     (if b = 0 \<or> b AND NOT knownEyeValid \<noteq> 0 \<or> b AND (b - 1) \<noteq> 0 then False
      else if \<not> cap_has (sub_Capabilities s) CapabilityEye then False
      else sub_Eye s = 0 \<or> sub_Eye s AND b \<noteq> 0)"

definition IncludesExpression :: "subscription \<Rightarrow> nat \<Rightarrow> bool" where
  "IncludesExpression s eid =
     (if ExpressionCount \<le> eid \<or> \<not> cap_has (sub_Capabilities s) CapabilityExpression then False
      else mask_is_zero (sub_Expressions s) \<or> mask_has (sub_Expressions s) eid)"

definition zeroUnselectedEyeValues :: "eye_sample \<Rightarrow> eye_sample" where
  \<comment> \<open>the same statements as trackingmodel's zeroInvalidEyeValues\<close>
  "zeroUnselectedEyeValues eye = zeroInvalidEyeValues eye"

definition zeroInvalidExpressionValues :: "expression_set \<Rightarrow> expression_set" where
  "zeroInvalidExpressionValues s = zeroInvalidExpressions s"

definition TrimFrame :: "subscription \<Rightarrow> tracking_frame \<Rightarrow> tracking_frame" where
  "TrimFrame s frame =
     (let t = frame\<lparr>Capabilities := Capabilities frame AND (knownCapabilities AND sub_Capabilities s)\<rparr>;
          t1 = (if \<not> cap_has (Capabilities t) CapabilityEye then t\<lparr>Eye := empty_eye\<rparr>
                else let v = eye_Valid (Eye t) AND knownEyeValid;
                         v1 = (if sub_Eye s \<noteq> 0 then v AND sub_Eye s else v)
                     in t\<lparr>Eye := zeroUnselectedEyeValues ((Eye t)\<lparr>eye_Valid := v1\<rparr>)\<rparr>)
      in if \<not> cap_has (Capabilities t1) CapabilityExpression then t1\<lparr>Expressions := empty_expressions\<rparr>
         else let m = mask_normalize (exp_Valid (Expressions t1));
                  m1 = (if \<not> mask_is_zero (sub_Expressions s) then mask_intersect m (sub_Expressions s) else m)
              in t1\<lparr>Expressions := zeroInvalidExpressionValues ((Expressions t1)\<lparr>exp_Valid := m1\<rparr>)\<rparr>)"

section \<open>Configuration, status, log level\<close>

record plugin_config =
  Revision :: u64
  Data :: bytes

definition config_clone :: "plugin_config \<Rightarrow> plugin_config" where
  "config_clone c = \<lparr>Revision = Revision c, Data = (if length (Data c) \<noteq> 0 then Data c else [])\<rparr>"

datatype config_error = ConfigRevisionZero | ConfigBadJSON

definition config_validate :: "plugin_config \<Rightarrow> (config_error, unit) result" where
  "config_validate c = (if Data c = [] then Inr ()
     else guard_result (Revision c = 0) ConfigRevisionZero
         (guard_result (\<not> json_valid (Data c)) ConfigBadJSON (Inr ())))"

record plugin_startup =
  startup_Active :: bool
  startup_Config :: plugin_config
  startup_Subscription :: subscription

record device_status =
  ds_State :: string
  ds_Message :: string

datatype status_error = StatusBlankError | StatusUnknown

definition status_validate :: "device_status \<Rightarrow> (status_error, unit) result" where
  "status_validate s =
     (if ds_State s \<in> {''initializing'', ''ready'', ''disconnected''} then Inr ()
      else if ds_State s = ''error'' then guard_result (blank (ds_Message s)) StatusBlankError (Inr ())
      else Inl StatusUnknown)"

definition log_level_valid :: "string \<Rightarrow> bool" where
  "log_level_valid l \<longleftrightarrow> l \<in> {''debug'', ''info'', ''warn'', ''error''}"

section \<open>Descriptors\<close>

record descriptor =
  APIVersion :: u16
  desc_ID :: string
  desc_Name :: string
  desc_Version :: string
  desc_Description :: string
  desc_Capabilities :: capability

definition is_id_char :: "char \<Rightarrow> bool" where
  "is_id_char c \<longleftrightarrow> is_digit c \<or> (97 :: int) \<le> of_char c \<and> of_char c \<le> (122 :: int)"

definition is_id_sep :: "char \<Rightarrow> bool" where
  "is_id_sep c \<longleftrightarrow> c \<in> {CHR ''.'', CHR ''_'', CHR ''-''}"

text \<open>descriptorIDPattern: \<open>inside\<close> tells whether a segment has a character already.\<close>

fun id_match :: "bool \<Rightarrow> string \<Rightarrow> bool" where
  "id_match inside [] = inside"
| "id_match inside (c # cs) =
     (if is_id_char c then id_match True cs
      else if is_id_sep c \<and> inside then id_match False cs
      else False)"

definition descriptorIDPattern :: "string \<Rightarrow> bool" where
  "descriptorIDPattern s = id_match False s"

definition validCoreVersionNumber :: "string \<Rightarrow> bool" where
  "validCoreVersionNumber v =
     (if v = [] \<or> 1 < length v \<and> hd v = CHR ''0'' then False else list_all is_digit v)"

definition isVersionIdentifierCharacter :: "char \<Rightarrow> bool" where
  "isVersionIdentifierCharacter c \<longleftrightarrow> is_digit c \<or>
     (65 :: int) \<le> of_char c \<and> of_char c \<le> (90 :: int) \<or>
     (97 :: int) \<le> of_char c \<and> of_char c \<le> (122 :: int) \<or> c = CHR ''-''"

definition valid_identifier :: "bool \<Rightarrow> string \<Rightarrow> bool" where
  \<comment> \<open>the loop body of validVersionIdentifiers\<close>
  "valid_identifier rejectNumericLeadingZero ident =
     (ident \<noteq> [] \<and> list_all isVersionIdentifierCharacter ident \<and>
      \<not> (rejectNumericLeadingZero \<and> list_all is_digit ident \<and> 1 < length ident \<and> hd ident = CHR ''0''))"

definition validVersionIdentifiers :: "string \<Rightarrow> bool \<Rightarrow> bool" where
  "validVersionIdentifiers v rejectNumericLeadingZero =
     (if v = [] then False else list_all (valid_identifier rejectNumericLeadingZero) (split_char (CHR ''.'') v))"

definition validSemanticVersion :: "string \<Rightarrow> bool" where
  "validSemanticVersion version =
     (if 1 < count_list version (CHR ''+'') then False
      else case cut_char (CHR ''+'') version of (coreAndPrerelease, build, hasBuild) \<Rightarrow>
        if hasBuild \<and> \<not> validVersionIdentifiers build False then False
        else case cut_char (CHR ''-'') coreAndPrerelease of (core, prerelease, hasPrerelease) \<Rightarrow>
          if hasPrerelease \<and> \<not> validVersionIdentifiers prerelease True then False
          else let parts = split_char (CHR ''.'') core in
            if length parts \<noteq> 3 then False else list_all validCoreVersionNumber parts)"

datatype descriptor_error = DescAPIVersion | DescID | DescName | DescVersion | DescCapabilities

definition descriptor_validate :: "descriptor \<Rightarrow> (descriptor_error, unit) result" where
  "descriptor_validate d =
     guard_result (APIVersion d \<noteq> 1) DescAPIVersion
    (guard_result (\<not> descriptorIDPattern (desc_ID d)) DescID
    (guard_result (blank (desc_Name d)) DescName
    (guard_result (\<not> validSemanticVersion (desc_Version d)) DescVersion
    (guard_result (desc_Capabilities d = 0 \<or> desc_Capabilities d AND NOT knownCapabilities \<noteq> 0)
       DescCapabilities (Inr ())))))"

section \<open>Lemmas\<close>

lemma sub_normalize_simps [simp]:
  "sub_Generation (sub_normalize s) = sub_Generation s"
  "sub_Capabilities (sub_normalize s) = sub_Capabilities s"
  "sub_Eye (sub_normalize s) = (if cap_has (sub_Capabilities s) CapabilityEye then sub_Eye s else 0)"
  "sub_Expressions (sub_normalize s) = (if cap_has (sub_Capabilities s) CapabilityExpression
     then mask_normalize (sub_Expressions s) else empty_mask)"
  by (simp_all add: sub_normalize_def Let_def)

lemma sub_normalize_idem [simp]: "sub_normalize (sub_normalize s) = sub_normalize s"
  by (rule subscription.equality) simp_all

lemma IncludesEye_normalize: "IncludesEye (sub_normalize s) b = IncludesEye s b"
  by (simp add: IncludesEye_def)

lemma mask_zero_normalize: "m = mask_normalize m \<Longrightarrow> mask_is_zero (mask_normalize m) = mask_is_zero m"
  by simp

lemma IncludesExpression_normalize:
  "sub_Expressions s = mask_normalize (sub_Expressions s) \<Longrightarrow>
   IncludesExpression (sub_normalize s) eid = IncludesExpression s eid"
  by (simp add: IncludesExpression_def)

lemma sub_validate_ok:
  "sub_validate s active = Inr u \<longleftrightarrow>
     sub_Capabilities s AND NOT knownCapabilities = 0 \<and> sub_Eye s AND NOT knownEyeValid = 0 \<and>
     sub_Expressions s = mask_normalize (sub_Expressions s) \<and>
     (if sub_Generation s = 0 then \<not> active \<and> sub_Capabilities s = 0 \<and> sub_Eye s = 0 \<and> mask_is_zero (sub_Expressions s)
      else sub_Capabilities s AND knownCapabilities \<noteq> 0)"
  by (auto simp: sub_validate_def guard_result_Inr)

lemma config_clone_id [simp]: "config_clone c = c"
  by (cases c) (simp add: config_clone_def)

text \<open>TrimFrame, field by field.\<close>

definition trim_caps :: "subscription \<Rightarrow> tracking_frame \<Rightarrow> capability" where
  "trim_caps s f = Capabilities f AND (knownCapabilities AND sub_Capabilities s)"

definition trim_eye_bits :: "subscription \<Rightarrow> tracking_frame \<Rightarrow> eye_valid" where
  "trim_eye_bits s f = (if sub_Eye s \<noteq> 0 then (eye_Valid (Eye f) AND knownEyeValid) AND sub_Eye s
     else eye_Valid (Eye f) AND knownEyeValid)"

definition trim_mask :: "subscription \<Rightarrow> tracking_frame \<Rightarrow> expression_mask" where
  "trim_mask s f = (if \<not> mask_is_zero (sub_Expressions s)
     then mask_intersect (mask_normalize (exp_Valid (Expressions f))) (sub_Expressions s)
     else mask_normalize (exp_Valid (Expressions f)))"

lemma TrimFrame_simps [simp]:
  "Sequence (TrimFrame s f) = Sequence f" "TimestampNS (TrimFrame s f) = TimestampNS f"
  "SourceClockNS (TrimFrame s f) = SourceClockNS f"
  "Capabilities (TrimFrame s f) = trim_caps s f"
  "Eye (TrimFrame s f) = (if cap_has (trim_caps s f) CapabilityEye
     then zeroInvalidEyeValues ((Eye f)\<lparr>eye_Valid := trim_eye_bits s f\<rparr>) else empty_eye)"
  "Expressions (TrimFrame s f) = (if cap_has (trim_caps s f) CapabilityExpression
     then zeroInvalidExpressions ((Expressions f)\<lparr>exp_Valid := trim_mask s f\<rparr>) else empty_expressions)"
  by (simp_all add: TrimFrame_def Let_def trim_caps_def trim_eye_bits_def trim_mask_def
      zeroUnselectedEyeValues_def zeroInvalidExpressionValues_def)


definition eye_bits :: "eye_valid list" where
  "eye_bits = [EyeValidLeftGaze, EyeValidRightGaze, EyeValidLeftOpenness, EyeValidRightOpenness,
     EyeValidLeftPupil, EyeValidRightPupil]"

lemma and_nonzero_iff: "(x :: 'a::len word) AND b \<noteq> 0 \<longleftrightarrow> (\<exists>n. bit x n \<and> bit b n)"
  by (auto simp: bit_eq_iff bit_and_iff dest: bit_imp_le_length)

lemma single_eye_bit:
  assumes "b \<in> set eye_bits"
  shows "b \<noteq> 0" "b AND NOT knownEyeValid = 0" "b AND (b - 1) = 0"
  using assms
  by (auto simp: eye_bits_def knownEyeValid_def EyeValidLeftGaze_def EyeValidRightGaze_def
      EyeValidLeftOpenness_def EyeValidRightOpenness_def EyeValidLeftPupil_def EyeValidRightPupil_def)

lemma trim_caps_known: "trim_caps s f AND NOT knownCapabilities = 0"
  by (rule bit_word_eqI) (simp add: trim_caps_def bit_simps)

lemma trim_caps_has:
  "cap_has (trim_caps s f) c \<Longrightarrow> cap_has (Capabilities f) c \<and> cap_has (sub_Capabilities s) c"
  by (auto simp: trim_caps_def cap_has_def and_nonzero_iff bit_and_iff)

lemma trim_eye_bits_known: "trim_eye_bits s f AND NOT knownEyeValid = 0"
  by (rule bit_word_eqI) (simp add: trim_eye_bits_def bit_simps)

lemma trim_eye_bits_sub: "trim_eye_bits s f AND b \<noteq> 0 \<Longrightarrow> eye_Valid (Eye f) AND b \<noteq> 0"
  by (auto simp: trim_eye_bits_def and_nonzero_iff bit_and_iff split: if_splits)

lemma trim_mask_normal: "mask_normalize (trim_mask s f) = trim_mask s f"
  using mask_normalize_intersect [of "mask_normalize (exp_Valid (Expressions f))" "sub_Expressions s"]
  by (simp add: trim_mask_def)

lemma mask_has_trim:
  "mask_has (trim_mask s f) eid \<longleftrightarrow>
     mask_has (exp_Valid (Expressions f)) eid \<and> (mask_is_zero (sub_Expressions s) \<or> mask_has (sub_Expressions s) eid)"
  by (auto simp: trim_mask_def)

lemma trim_eye_idem:
  assumes "cap_has (trim_caps s f) CapabilityEye"
  shows "trim_eye_bits s (TrimFrame s f) = trim_eye_bits s f"
proof -
  have "eye_Valid (Eye (TrimFrame s f)) = trim_eye_bits s f" using assms by simp
  then show ?thesis unfolding trim_eye_bits_def [of s "TrimFrame s f"]
    by (auto simp: trim_eye_bits_def intro!: bit_word_eqI) (auto simp: bit_simps)
qed

lemma trim_mask_idem:
  assumes "cap_has (trim_caps s f) CapabilityExpression"
  shows "trim_mask s (TrimFrame s f) = trim_mask s f"
proof (rule mask_eqI)
  show "mask_has (trim_mask s (TrimFrame s f)) i = mask_has (trim_mask s f) i" for i
    using assms by (auto simp: mask_has_trim)
qed (simp_all add: trim_mask_normal)

lemma trim_caps_idem: "trim_caps s (TrimFrame s f) = trim_caps s f"
  by (rule bit_word_eqI) (auto simp: trim_caps_def bit_simps)

lemma frame_ok_trim:
  assumes "frame_ok f"
  shows "frame_ok (TrimFrame s f)"
proof -
  have eyes: "\<forall>(b, n, x) \<in> set (eye_checks (Eye (TrimFrame s f))). eye_Valid (Eye (TrimFrame s f)) AND b \<noteq> 0 \<longrightarrow> finite32 x"
  proof (cases "cap_has (trim_caps s f) CapabilityEye")
    case True
    have "\<forall>(b, n, x) \<in> set (eye_checks (Eye f)). trim_eye_bits s f AND b \<noteq> 0 \<longrightarrow> finite32 x"
      using assms trim_eye_bits_sub [of s f] by (fastforce simp: frame_ok_def)
    then show ?thesis
      using True eye_checks_zeroed [of "(Eye f)\<lparr>eye_Valid := trim_eye_bits s f\<rparr>"]
      by (simp add: eye_checks_def)
  next
    case False
    then show ?thesis by auto
  qed
  show ?thesis
    unfolding frame_ok_def
  proof (intro conjI)
    show "\<forall>eid<ExpressionCount. mask_has (exp_Valid (Expressions (TrimFrame s f))) eid \<longrightarrow>
        finite32 (Values (Expressions (TrimFrame s f)) eid)"
      using assms by (auto simp: frame_ok_def mask_has_trim)
  qed (use eyes in \<open>auto simp: trim_caps_known trim_eye_bits_known trim_mask_normal\<close>)
qed

section \<open>Properties\<close>

text \<open>Canonicalize accepts exactly the frames Validate accepts, and its result
  passes Validate, keeps the metadata, and is canonical: canonicalizing it again changes nothing.\<close>

theorem canonicalize_validates:
  "(is_ok (canonicalize f) \<longleftrightarrow> is_ok (frame_validate f)) \<and>
   (case canonicalize f of Inl _ \<Rightarrow> \<not> is_ok (frame_validate f)
    | Inr g \<Rightarrow> frame_validate g = Inr () \<and> canonicalize g = Inr g \<and>
        Sequence g = Sequence f \<and> TimestampNS g = TimestampNS f \<and> Capabilities g = Capabilities f)"
proof (cases "frame_ok f")
  case True
  then have "canonicalize f = Inr (canonical f)" "frame_validate f = Inr ()"
    by (simp_all add: canonicalize_eq frame_validate_ok)
  moreover have "frame_validate (canonical f) = Inr ()" "canonicalize (canonical f) = Inr (canonical f)"
    using canonical_ok [OF True] by (simp_all add: canonicalize_eq frame_validate_ok)
  ultimately show ?thesis by simp
next
  case False
  then obtain e where "frame_validate f = Inl e"
    using frame_validate_ok [of f "()"] by (cases "frame_validate f") auto
  moreover from this have "canonicalize f = Inl e" by (simp add: canonicalize_def)
  ultimately show ?thesis by simp
qed

lemma TrimFrame_eye_selected:
  assumes b: "b \<in> set eye_bits" and v: "eye_Valid (Eye (TrimFrame s f)) AND b \<noteq> 0"
  shows "IncludesEye s b"
proof -
  from v have c: "cap_has (trim_caps s f) CapabilityEye" by (simp split: if_splits)
  with v have "sub_Eye s = 0 \<or> sub_Eye s AND b \<noteq> 0"
    by (auto simp: trim_eye_bits_def and_nonzero_iff bit_and_iff split: if_splits)
  then show ?thesis
    using single_eye_bit [OF b] trim_caps_has [OF c] by (simp add: IncludesEye_def)
qed

lemma TrimFrame_expression_valid:
  "mask_has (exp_Valid (Expressions (TrimFrame s f))) eid \<longleftrightarrow>
     cap_has (trim_caps s f) CapabilityExpression \<and> IncludesExpression s eid \<and> mask_has (exp_Valid (Expressions f)) eid"
  using trim_caps_has [of s f CapabilityExpression] mask_has_bound [of "exp_Valid (Expressions f)" eid]
  by (auto simp: mask_has_trim IncludesExpression_def)

lemma TrimFrame_expression_value:
  assumes "mask_has (exp_Valid (Expressions (TrimFrame s f))) eid"
  shows "exp_get (Expressions (TrimFrame s f)) eid = exp_get (Expressions f) eid"
proof -
  have "mask_has (exp_Valid (Expressions f)) eid" using assms TrimFrame_expression_valid by blast
  with assms mask_has_bound show ?thesis by (auto simp: exp_get_def split: if_splits)
qed

text \<open>TrimFrame turns every frame that passes Validate into one that passes it;
  every eye bit and every expression valid in the result is selected by the subscription; an
  expression the frame had and the subscription selects stays valid with its value.\<close>

theorem TrimFrame_safe:
  assumes "frame_validate f = Inr ()"
  shows "frame_validate (TrimFrame s f) = Inr () \<and>
    (\<forall>b \<in> set eye_bits. eye_Valid (Eye (TrimFrame s f)) AND b \<noteq> 0 \<longrightarrow> IncludesEye s b) \<and>
    (\<forall>eid. mask_has (exp_Valid (Expressions (TrimFrame s f))) eid \<longleftrightarrow>
      cap_has (Capabilities (TrimFrame s f)) CapabilityExpression \<and> IncludesExpression s eid \<and>
      mask_has (exp_Valid (Expressions f)) eid) \<and>
    (\<forall>eid. mask_has (exp_Valid (Expressions (TrimFrame s f))) eid \<longrightarrow>
      exp_get (Expressions (TrimFrame s f)) eid = exp_get (Expressions f) eid)"
  using assms frame_ok_trim [of f s] TrimFrame_eye_selected TrimFrame_expression_value
  by (auto simp only: frame_validate_ok TrimFrame_expression_valid TrimFrame_simps(4))

text \<open>A frame with one eye field and one expression, trimmed to the eye field.\<close>

definition sample_frame :: tracking_frame where
  "sample_frame = \<lparr>Sequence = 1, TimestampNS = 5, Capabilities = 3, SourceClockNS = 0,
     Eye = empty_eye\<lparr>eye_Valid := 4, LeftOpenness := one32\<rparr>,
     Expressions = fst (exp_set 20 one32 empty_expressions)\<rparr>"

definition sample_subscription :: subscription where
  "sample_subscription = \<lparr>sub_Generation = 1, sub_Capabilities = 1, sub_Eye = 4, sub_Expressions = empty_mask\<rparr>"

lemma sample_frame_ok: "frame_validate sample_frame = Inr ()"
  by code_simp

theorem TrimFrame_safe_witness:
  "frame_validate (TrimFrame sample_subscription sample_frame) = Inr () \<and>
   eye_Valid (Eye (TrimFrame sample_subscription sample_frame)) = 4"
proof -
  have "eye_Valid (Eye (TrimFrame sample_subscription sample_frame)) = 4" by code_simp
  with TrimFrame_safe [OF sample_frame_ok, of sample_subscription] show ?thesis by blast
qed

lemma exp_Valid_update_same:
  "(zeroInvalidExpressions (e\<lparr>exp_Valid := m\<rparr>))\<lparr>exp_Valid := m\<rparr> = zeroInvalidExpressions (e\<lparr>exp_Valid := m\<rparr>)"
  by (rule expression_set.equality) simp_all

text \<open>Trimming a frame twice with the same subscription is trimming it once.\<close>

theorem TrimFrame_idempotent: "TrimFrame s (TrimFrame s f) = TrimFrame s f"
proof (rule tracking_frame.equality)
  show "Eye (TrimFrame s (TrimFrame s f)) = Eye (TrimFrame s f)"
  proof (cases "cap_has (trim_caps s f) CapabilityEye")
    case True
    then have "(Eye (TrimFrame s f))\<lparr>eye_Valid := trim_eye_bits s f\<rparr> = Eye (TrimFrame s f)"
      by (intro eye_sample.equality) simp_all
    with True show ?thesis
      unfolding TrimFrame_simps(5) [of s "TrimFrame s f"] trim_caps_idem trim_eye_idem [OF True] by simp
  qed (simp add: trim_caps_idem)
  show "Expressions (TrimFrame s (TrimFrame s f)) = Expressions (TrimFrame s f)"
  proof (cases "cap_has (trim_caps s f) CapabilityExpression")
    case True
    then show ?thesis
      unfolding TrimFrame_simps(6) [of s "TrimFrame s f"] trim_caps_idem trim_mask_idem [OF True]
      by (simp add: exp_Valid_update_same)
  qed (simp add: trim_caps_idem)
qed (simp_all add: trim_caps_idem)

text \<open>Normalize is idempotent and changes neither what a valid subscription
  selects nor whether it is valid.\<close>

theorem sub_normalize_selects:
  assumes "sub_validate s active = Inr ()"
  shows "sub_normalize (sub_normalize s) = sub_normalize s \<and>
    sub_validate (sub_normalize s) active = Inr () \<and>
    (\<forall>b. IncludesEye (sub_normalize s) b = IncludesEye s b) \<and>
    (\<forall>eid. IncludesExpression (sub_normalize s) eid = IncludesExpression s eid)"
  using assms
  by (auto simp: sub_validate_ok IncludesEye_normalize IncludesExpression_normalize mask_is_zero_iff)

theorem sub_normalize_selects_witness:
  "sub_validate sample_subscription True = Inr () \<and>
   IncludesEye (sub_normalize sample_subscription) 4 = IncludesEye sample_subscription 4"
proof -
  have ok: "sub_validate sample_subscription True = Inr ()" by code_simp
  from ok sub_normalize_selects [OF ok] show ?thesis by blast
qed

end
