(* ===== verification/OscPacket.thy ===== *)
theory OscPacket
  imports IEEE754 GoStrings
begin

text \<open>
  pkg/osc/packet.go: OSC messages and bundles and their wire format. The writer appends to a
  buffer and pads it to four bytes; the reader keeps an offset into the packet and rejects every
  byte string the writer could not have produced. The lemmas show that the two are inverse to
  each other, so an OSC message has one encoding, and that bundles decode to what was put in.
\<close>

unbundle bit_operations_syntax

section \<open>Values and messages\<close>

datatype osc_error = ErrMalformedPacket | ErrUnsupportedType | ErrInvalidAddress | ErrInvalidArgument

definition ValueInt32 :: u8 where "ValueInt32 = 1"
definition ValueFloat32 :: u8 where "ValueFloat32 = 2"
definition ValueString :: u8 where "ValueString = 3"
definition ValueBool :: u8 where "ValueBool = 4"

record osc_value =
  val_Kind :: u8
  I32 :: u32 \<comment> \<open>int32, as its bits\<close>
  F32 :: float32
  val_Str :: bytes
  val_Bool :: bool

definition zero_value :: osc_value where
  "zero_value = \<lparr>val_Kind = 0, I32 = 0, F32 = zero32, val_Str = [], val_Bool = False\<rparr>"

definition Int32 :: "u32 \<Rightarrow> osc_value" where "Int32 v = zero_value\<lparr>val_Kind := ValueInt32, I32 := v\<rparr>"
definition Float32 :: "float32 \<Rightarrow> osc_value" where "Float32 v = zero_value\<lparr>val_Kind := ValueFloat32, F32 := v\<rparr>"
definition String :: "bytes \<Rightarrow> osc_value" where "String v = zero_value\<lparr>val_Kind := ValueString, val_Str := v\<rparr>"
definition Bool :: "bool \<Rightarrow> osc_value" where "Bool v = zero_value\<lparr>val_Kind := ValueBool, val_Bool := v\<rparr>"

record osc_message =
  msg_Address :: bytes
  msg_Args :: "osc_value list"

record osc_bundle =
  Timetag :: u64
  Elements :: "bytes list"

definition ValidAddress :: "bytes \<Rightarrow> bool" where
  "ValidAddress address \<longleftrightarrow> has_prefix address ''/'' \<and> \<not> List.member address NUL"

section \<open>Writing\<close>

function pad_zero :: "bytes \<Rightarrow> bytes" where
  "pad_zero out = (if length out mod 4 \<noteq> 0 then pad_zero (out @ [NUL]) else out)"
  by pat_completeness auto
termination
proof (relation "measure (\<lambda>out. (4 - length out mod 4) mod 4)")
  fix out :: bytes
  assume "length out mod 4 \<noteq> 0"
  then have "(4 - Suc (length out) mod 4) mod 4 < (4 - length out mod 4) mod 4"
    using mod_less_divisor [of 4 "length out"] by (auto simp: mod_Suc)
  then show "(out @ [NUL], out) \<in> measure (\<lambda>out. (4 - length out mod 4) mod 4)" by simp
qed simp

declare pad_zero.simps [simp del]

definition writePaddedString :: "bytes \<Rightarrow> bytes \<Rightarrow> bytes" where
  "writePaddedString out value = pad_zero (out @ value @ [NUL])"

fun write_tags :: "osc_value list \<Rightarrow> bytes \<Rightarrow> (osc_error, bytes) result" where
  \<comment> \<open>the first loop of MarshalMessage, from the tags written so far\<close>
  "write_tags [] tags = Inr tags"
| "write_tags (arg # args) tags =
    (if val_Kind arg = ValueInt32 then write_tags args (tags @ ''i'')
     else if val_Kind arg = ValueFloat32 then write_tags args (tags @ ''f'')
     else if val_Kind arg = ValueString then
       guard_result (List.member (val_Str arg) NUL) ErrInvalidArgument (write_tags args (tags @ ''s''))
     else if val_Kind arg = ValueBool then write_tags args (tags @ (if val_Bool arg then ''T'' else ''F''))
     else Inl ErrUnsupportedType)"

fun write_args :: "osc_value list \<Rightarrow> bytes \<Rightarrow> bytes" where
  "write_args [] out = out"
| "write_args (arg # args) out = write_args args
    (if val_Kind arg = ValueInt32 then out @ put_uint32 (I32 arg)
     else if val_Kind arg = ValueFloat32 then out @ put_uint32 (Float32bits (F32 arg))
     else if val_Kind arg = ValueString then writePaddedString out (val_Str arg)
     else out)"

definition MarshalMessage :: "osc_message \<Rightarrow> (osc_error, bytes) result" where
  "MarshalMessage m =
     guard_result (\<not> ValidAddress (msg_Address m)) ErrInvalidAddress
    (bind_result (write_tags (msg_Args m) '','') (\<lambda>tags.
       Inr (write_args (msg_Args m)
         (writePaddedString (writePaddedString [] (msg_Address m)) tags))))"

section \<open>Reading\<close>

function next_aligned :: "nat \<Rightarrow> nat" where
  "next_aligned next = (if next mod 4 \<noteq> 0 then next_aligned (Suc next) else next)"
  by pat_completeness auto
termination
proof (relation "measure (\<lambda>next. (4 - next mod 4) mod 4)")
  fix n :: nat
  assume "n mod 4 \<noteq> 0"
  then have "(4 - Suc n mod 4) mod 4 < (4 - n mod 4) mod 4"
    using mod_less_divisor [of 4 n] by (auto simp: mod_Suc)
  then show "(Suc n, n) \<in> measure (\<lambda>n. (4 - n mod 4) mod 4)" by simp
qed simp

declare next_aligned.simps [simp del]

definition readPaddedString :: "bytes \<Rightarrow> nat \<Rightarrow> (osc_error, bytes \<times> nat) result" where
  "readPaddedString packet offset =
    (let rest = drop offset packet;
         value = takeWhile (\<lambda>c. c \<noteq> NUL) rest;
         terminator = offset + length value;
         next = next_aligned (Suc terminator)
     in guard_result (length packet \<le> offset) ErrMalformedPacket
       (guard_result (\<not> List.member rest NUL) ErrMalformedPacket
       (guard_result (length packet < next) ErrMalformedPacket
       (guard_result (list_ex (\<lambda>c. c \<noteq> NUL) (take (next - Suc terminator) (drop (Suc terminator) packet)))
          ErrMalformedPacket
       (Inr (value, next))))))"

fun read_args :: "bytes \<Rightarrow> bytes \<Rightarrow> nat \<Rightarrow> osc_value list \<Rightarrow> (osc_error, osc_value list \<times> nat) result" where
  \<comment> \<open>the tag loop of unmarshalMessage: remaining tags, offset, arguments read so far\<close>
  "read_args packet [] offset args = Inr (args, offset)"
| "read_args packet (tag # tags) offset args =
    (if tag = CHR ''i'' then
       guard_result (length packet < offset + 4) ErrMalformedPacket
         (read_args packet tags (offset + 4) (args @ [Int32 (get_uint32 (take 4 (drop offset packet)))]))
     else if tag = CHR ''f'' then
       guard_result (length packet < offset + 4) ErrMalformedPacket
         (read_args packet tags (offset + 4)
            (args @ [Float32 (Float32frombits (get_uint32 (take 4 (drop offset packet))))]))
     else if tag = CHR ''s'' then
       bind_result (readPaddedString packet offset) (\<lambda>(value, next).
         read_args packet tags next (args @ [String value]))
     else if tag = CHR ''T'' then read_args packet tags offset (args @ [Bool True])
     else if tag = CHR ''F'' then read_args packet tags offset (args @ [Bool False])
     else Inl ErrUnsupportedType)"

definition unmarshalMessage :: "bytes \<Rightarrow> (osc_error, osc_message \<times> nat) result" where
  "unmarshalMessage packet = (case readPaddedString packet 0 of
     Inl _ \<Rightarrow> Inl ErrMalformedPacket
   | Inr (address, offset) \<Rightarrow> guard_result (\<not> ValidAddress address) ErrMalformedPacket
      (case readPaddedString packet offset of
         Inl _ \<Rightarrow> Inl ErrMalformedPacket
       | Inr (tags, offset) \<Rightarrow> guard_result (tags = [] \<or> hd tags \<noteq> CHR '','') ErrMalformedPacket
          (bind_result (read_args packet (tl tags) offset []) (\<lambda>(args, offset).
             Inr (\<lparr>msg_Address = address, msg_Args = args\<rparr>, offset)))))"

definition maxBundleDepth :: nat where "maxBundleDepth = 32"

definition bundle_prefix :: bytes where "bundle_prefix = ''#bundle'' @ [NUL]"

function unmarshalPacket :: "bytes \<Rightarrow> nat \<Rightarrow> (osc_error, osc_message list) result"
  and unmarshalBundle_loop :: "bytes \<Rightarrow> nat \<Rightarrow> nat \<Rightarrow> osc_message list \<Rightarrow> (osc_error, osc_message list) result" where
  "unmarshalPacket packet depth =
    (if maxBundleDepth < depth \<or> length packet < 4 then Inl ErrMalformedPacket
     else if has_prefix packet bundle_prefix then
       (if length packet < 16 \<or> take 8 packet \<noteq> bundle_prefix then Inl ErrMalformedPacket
        else unmarshalBundle_loop packet 16 depth [])
     else bind_result (unmarshalMessage packet) (\<lambda>(message, consumed).
       guard_result (consumed \<noteq> length packet) ErrMalformedPacket (Inr [message])))"
| "unmarshalBundle_loop packet offset depth messages =
    (if offset < length packet then
       if length packet < offset + 4 then Inl ErrMalformedPacket
       else let size = sint (get_uint32 (take 4 (drop offset packet))); offset = offset + 4 in
         if size \<le> 0 \<or> size > int (length packet) - int offset then Inl ErrMalformedPacket
         else (case unmarshalPacket (take (nat size) (drop offset packet)) (Suc depth) of
             Inl e \<Rightarrow> Inl e
           | Inr decoded \<Rightarrow> unmarshalBundle_loop packet (offset + nat size) depth (messages @ decoded))
     else Inr messages)"
  by pat_completeness auto
termination
  by (relation "inv_image (less_than <*lex*> less_than <*lex*> less_than)
    (case_sum (\<lambda>(p, d). (length p, 1, 0)) (\<lambda>(p, off, d, ms). (length p, 0, length p - off)))") auto

declare unmarshalPacket.simps [simp del] unmarshalBundle_loop.simps [simp del]

definition UnmarshalPacket :: "bytes \<Rightarrow> (osc_error, osc_message list) result" where
  "UnmarshalPacket packet = unmarshalPacket packet 0"

section \<open>Bundles and time tags\<close>

fun write_elements :: "bytes list \<Rightarrow> bytes \<Rightarrow> (osc_error, bytes) result" where
  "write_elements [] out = Inr out"
| "write_elements (element # elements) out =
     guard_result (length element = 0 \<or> int (length element) > 2 ^ 31 - 1) ErrMalformedPacket
    (bind_result (unmarshalPacket element 1) (\<lambda>_.
       write_elements elements (out @ put_uint32 (word_of_int (int (length element))) @ element)))"

definition MarshalBundle :: "osc_bundle \<Rightarrow> (osc_error, bytes) result" where
  "MarshalBundle b = (let timetag = (if Timetag b = 0 then 1 else Timetag b) in
     write_elements (Elements b) (bundle_prefix @ put_uint64 timetag))"

definition NTPTime :: "int \<Rightarrow> u64 \<Rightarrow> u64" where
  \<comment> \<open>of t.Unix() and t.Nanosecond()\<close>
  "NTPTime unix nanosecond = (let seconds = (word_of_int (i64 (unix + 2208988800)) :: u64);
     fraction = push_bit 32 nanosecond div 1000000000 in push_bit 32 seconds OR fraction)"

section \<open>Padding\<close>

definition pad_len :: "nat \<Rightarrow> nat" where "pad_len n = (4 - n mod 4) mod 4"

lemma pad_len_Suc: "n mod 4 \<noteq> 0 \<Longrightarrow> pad_len n = Suc (pad_len (Suc n))"
  unfolding pad_len_def using mod_less_divisor [of 4 n] by (auto simp: mod_Suc)

lemma pad_zero_eq: "pad_zero out = out @ replicate (pad_len (length out)) NUL"
proof (induction out rule: pad_zero.induct)
  case (1 out)
  show ?case
  proof (cases "length out mod 4 = 0")
    case True
    then show ?thesis by (simp add: pad_zero.simps [of out] pad_len_def)
  next
    case False
    with 1 show ?thesis by (simp add: pad_zero.simps [of out] pad_len_Suc)
  qed
qed

lemma next_aligned_eq: "next_aligned n = n + pad_len n"
proof (induction n rule: next_aligned.induct)
  case (1 n)
  show ?case
  proof (cases "n mod 4 = 0")
    case True
    then show ?thesis by (simp add: next_aligned.simps [of n] pad_len_def)
  next
    case False
    with 1 show ?thesis by (simp add: next_aligned.simps [of n] pad_len_Suc)
  qed
qed

lemma writePaddedString_eq:
  "writePaddedString out s = out @ s @ NUL # replicate (pad_len (Suc (length out + length s))) NUL"
  by (simp add: writePaddedString_def pad_zero_eq)

lemma takeWhile_before: "c \<notin> set s \<Longrightarrow> takeWhile (\<lambda>x. x \<noteq> c) (s @ c # t) = s"
  by (induction s) auto

lemma split_at_first: "c \<in> set xs \<Longrightarrow> \<exists>t. xs = takeWhile (\<lambda>x. x \<noteq> c) xs @ c # t"
  by (induction xs) auto

lemma list_ex_not_NUL: "\<not> list_ex (\<lambda>c. c \<noteq> NUL) xs \<longleftrightarrow> xs = replicate (length xs) NUL"
  by (induction xs) auto

lemma read_writePadded:
  assumes "NUL \<notin> set s"
  shows "readPaddedString (writePaddedString out s @ rest) (length out) = Inr (s, length (writePaddedString out s))"
  using assms
  by (simp add: readPaddedString_def writePaddedString_eq next_aligned_eq Let_def takeWhile_before
      list_ex_iff)

lemma write_readPadded:
  assumes r: "readPaddedString p off = Inr (s, n)"
  shows "NUL \<notin> set s" "off < n" "n \<le> length p" "take n p = writePaddedString (take off p) s"
proof -
  define k where "k = pad_len (Suc (off + length s))"
  have off: "off < length p" and nul: "NUL \<in> set (drop off p)"
    and s: "s = takeWhile (\<lambda>c. c \<noteq> NUL) (drop off p)"
    and n: "n = Suc (off + length s) + k" "n \<le> length p"
    and zeros: "\<not> list_ex (\<lambda>c. c \<noteq> NUL) (take k (drop (Suc (off + length s)) p))"
    using r by (auto simp: readPaddedString_def Let_def guard_result_Inr next_aligned_eq k_def)
  obtain t where t: "drop off p = s @ NUL # t"
    using split_at_first [OF nul] s by metis
  have "length p - off = length s + Suc (length t)" using arg_cong [OF t, of length] by simp
  then have len: "k \<le> length t" using n off by linarith
  have "drop (Suc (off + length s)) p = t"
    using arg_cong [OF t, of "drop (Suc (length s))"] by (simp add: add.commute)
  with zeros len have z: "take k t = replicate k NUL" by (simp add: list_ex_not_NUL)
  have "n = off + (Suc (length s) + k)" using n by simp
  then have "take n p = take off p @ take (Suc (length s) + k) (drop off p)"
    by (simp only: take_add)
  also have "\<dots> = take off p @ s @ NUL # replicate k NUL" using z by (simp add: t)
  finally show "take n p = writePaddedString (take off p) s"
    using off by (simp add: writePaddedString_eq k_def)
  show "NUL \<notin> set s" unfolding s using set_takeWhileD by fastforce
  show "off < n" "n \<le> length p" using n by simp_all
qed

section \<open>Arguments\<close>

definition tag_of :: "osc_value \<Rightarrow> char" where
  "tag_of v = (if val_Kind v = ValueInt32 then CHR ''i'' else if val_Kind v = ValueFloat32 then CHR ''f''
     else if val_Kind v = ValueString then CHR ''s'' else if val_Bool v then CHR ''T'' else CHR ''F'')"

definition encodable :: "osc_value \<Rightarrow> bool" where
  "encodable v \<longleftrightarrow> val_Kind v = ValueInt32 \<or> val_Kind v = ValueFloat32 \<or>
     val_Kind v = ValueString \<and> NUL \<notin> set (val_Str v) \<or> val_Kind v = ValueBool"

text \<open>A value with the fields its kind does not use zeroed: what the reader gives back.\<close>

definition used_fields :: "osc_value \<Rightarrow> osc_value" where
  "used_fields v = (if val_Kind v = ValueInt32 then Int32 (I32 v) else if val_Kind v = ValueFloat32 then Float32 (F32 v)
     else if val_Kind v = ValueString then String (val_Str v) else Bool (val_Bool v))"

lemmas kind_defs = ValueInt32_def ValueFloat32_def ValueString_def ValueBool_def

lemma constructors_encodable [simp]:
  "encodable (Int32 i)" "encodable (Float32 x)" "encodable (Bool b)" "encodable (String s) \<longleftrightarrow> NUL \<notin> set s"
  "tag_of (Int32 i) = CHR ''i''" "tag_of (Float32 x) = CHR ''f''" "tag_of (String s) = CHR ''s''"
  "tag_of (Bool b) = (if b then CHR ''T'' else CHR ''F'')"
  "used_fields (Int32 i) = Int32 i" "used_fields (Float32 x) = Float32 x"
  "used_fields (String s) = String s" "used_fields (Bool b) = Bool b"
  by (simp_all add: encodable_def tag_of_def used_fields_def Int32_def Float32_def String_def Bool_def
      kind_defs zero_value_def)

lemma constructors_fields [simp]:
  "val_Kind (Int32 i) = ValueInt32" "val_Kind (Float32 x) = ValueFloat32" "val_Kind (String s) = ValueString"
  "val_Kind (Bool b) = ValueBool" "I32 (Int32 i) = i" "F32 (Float32 x) = x" "val_Str (String s) = s"
  "val_Bool (Bool b) = b"
  by (simp_all add: Int32_def Float32_def String_def Bool_def)

lemma write_tags_iff:
  "write_tags args tags = Inr t \<longleftrightarrow> list_all encodable args \<and> t = tags @ map tag_of args"
proof (induction args arbitrary: tags)
  case (Cons v args)
  then show ?case
    by (auto simp: encodable_def tag_of_def guard_result_Inr kind_defs)
qed auto

lemma write_args_prefix: "\<exists>t. write_args args out = out @ t"
proof (induction args arbitrary: out)
  case (Cons v args)
  then show ?case
    by (auto simp: writePaddedString_eq simp del: replicate.simps) (metis append.assoc)+
qed simp

lemma read_write_args:
  assumes "list_all encodable args"
  shows "read_args (write_args args out @ rest) (map tag_of args) (length out) acc =
    Inr (acc @ map used_fields args, length (write_args args out))"
  using assms
proof (induction args arbitrary: out acc)
  case (Cons v args)
  obtain w where w: "write_args args (out @ put_uint32 (I32 v)) = (out @ put_uint32 (I32 v)) @ w"
    using write_args_prefix by blast
  obtain x where x: "write_args args (out @ put_uint32 (Float32bits (F32 v))) = (out @ put_uint32 (Float32bits (F32 v))) @ x"
    using write_args_prefix by blast
  obtain y where y: "write_args args (writePaddedString out (val_Str v)) = writePaddedString out (val_Str v) @ y"
    using write_args_prefix by blast
  from Cons.prems consider (i) "val_Kind v = ValueInt32" | (f) "val_Kind v = ValueFloat32"
    | (s) "val_Kind v = ValueString" "NUL \<notin> set (val_Str v)" | (b) "val_Kind v = ValueBool"
    by (auto simp: encodable_def)
  then show ?case
  proof cases
    case i
    then show ?thesis
      using Cons.IH [of "out @ put_uint32 (I32 v)"] Cons.prems w
      by (simp add: tag_of_def used_fields_def)
  next
    case f
    then show ?thesis
      using Cons.IH [of "out @ put_uint32 (Float32bits (F32 v))"] Cons.prems x
      by (simp add: tag_of_def used_fields_def kind_defs)
  next
    case s
    then show ?thesis
      using Cons.IH [of "writePaddedString out (val_Str v)"] Cons.prems y
        read_writePadded [OF s(2), of out "y @ rest"]
      by (simp add: tag_of_def used_fields_def kind_defs)
  next
    case b
    then show ?thesis
      using Cons.IH [of out] Cons.prems by (simp add: tag_of_def used_fields_def kind_defs)
  qed
qed simp

lemma take_extend: "n = m + k \<Longrightarrow> take n p = take m p @ take k (drop m p)"
  by (simp add: take_add)

lemma write_read_args:
  assumes "read_args p tags off acc = Inr (args, n)" and "off \<le> length p"
  shows "\<exists>new. args = acc @ new \<and> list_all encodable new \<and> map used_fields new = new \<and>
    tags = map tag_of new \<and> n \<le> length p \<and> take n p = write_args new (take off p)"
  using assms
proof (induction p tags off acc arbitrary: args n rule: read_args.induct)
  case (1 p off acc)
  then show ?case by (intro exI [of _ "[]"]) auto
next
  case (2 p tag tags off acc)
  have step: "\<exists>new. args = acc @ new \<and> list_all encodable new \<and> map used_fields new = new \<and>
      tag # tags = map tag_of new \<and> n \<le> length p \<and> take n p = write_args new (take off p)"
    if tag: "tag = tag_of v" "encodable v" "used_fields v = v" "off' \<le> length p"
      and out: "take off' p = write_args [v] (take off p)"
      and rest: "read_args p tags off' (acc @ [v]) = Inr (args, n)"
      and IH: "\<And>args n. read_args p tags off' (acc @ [v]) = Inr (args, n) \<Longrightarrow> off' \<le> length p \<Longrightarrow>
        \<exists>new. args = (acc @ [v]) @ new \<and> list_all encodable new \<and> map used_fields new = new \<and>
          tags = map tag_of new \<and> n \<le> length p \<and> take n p = write_args new (take off' p)"
    for v off'
  proof -
    from IH [OF rest tag(4)] obtain new where new: "args = (acc @ [v]) @ new" "list_all encodable new"
      "map used_fields new = new" "tags = map tag_of new" "n \<le> length p" "take n p = write_args new (take off' p)"
      by blast
    then show ?thesis using tag out by (intro exI [of _ "v # new"]) simp
  qed
  let ?w = "get_uint32 (take 4 (drop off p))"
  have w: "put_uint32 ?w = take 4 (drop off p)" if "off + 4 \<le> length p"
    using that by (intro put_get_uint32) simp
  consider (i) "tag = CHR ''i''" | (f) "tag = CHR ''f''" | (s) "tag = CHR ''s''"
    | (T) "tag = CHR ''T''" | (F) "tag = CHR ''F''"
    using "2.prems" by (auto split: if_splits)
  then show ?case
  proof cases
    case i
    with "2.prems" have len: "off + 4 \<le> length p"
      and r: "read_args p tags (off + 4) (acc @ [Int32 ?w]) = Inr (args, n)"
      by (simp_all add: guard_result_Inr)
    show ?thesis
      by (rule step [OF _ _ _ len _ r]) (use i len w take_extend [of _ off 4 p] "2.IH"(1) in
        \<open>simp_all add: kind_defs\<close>)
  next
    case f
    with "2.prems" have len: "off + 4 \<le> length p"
      and r: "read_args p tags (off + 4) (acc @ [Float32 (Float32frombits ?w)]) = Inr (args, n)"
      by (simp_all add: guard_result_Inr)
    show ?thesis
      by (rule step [OF _ _ _ len _ r]) (use f len w take_extend [of _ off 4 p] "2.IH"(2) in
        \<open>simp_all add: kind_defs\<close>)
  next
    case s
    with "2.prems" obtain str nxt where rd: "readPaddedString p off = Inr (str, nxt)"
      and r: "read_args p tags nxt (acc @ [String str]) = Inr (args, n)"
      by (auto simp: bind_result_Inr)
    note wr = write_readPadded [OF rd]
    show ?thesis
      by (rule step [OF _ _ _ wr(3) _ r]) (use s wr "2.IH"(3) [of nxt str] rd in
        \<open>simp_all add: kind_defs\<close>)
  next
    case T
    with "2.prems" have r: "read_args p tags off (acc @ [Bool True]) = Inr (args, n)" by simp
    show ?thesis
      by (rule step [OF _ _ _ "2.prems"(2) _ r]) (use T "2.IH"(4) in
        \<open>simp_all add: kind_defs\<close>)
  next
    case F
    with "2.prems" have r: "read_args p tags off (acc @ [Bool False]) = Inr (args, n)" by simp
    show ?thesis
      by (rule step [OF _ _ _ "2.prems"(2) _ r]) (use F "2.IH"(5) in
        \<open>simp_all add: kind_defs\<close>)
  qed
qed

section \<open>Messages\<close>

definition decoded_message :: "osc_message \<Rightarrow> osc_message" where
  "decoded_message m = m\<lparr>msg_Args := map used_fields (msg_Args m)\<rparr>"

lemma MarshalMessage_iff:
  "MarshalMessage m = Inr p \<longleftrightarrow> ValidAddress (msg_Address m) \<and> list_all encodable (msg_Args m) \<and>
    p = write_args (msg_Args m) (writePaddedString (writePaddedString [] (msg_Address m))
      ('','' @ map tag_of (msg_Args m)))"
  by (auto simp: MarshalMessage_def result_iffs write_tags_iff)

lemma ValidAddress_NUL: "ValidAddress a \<Longrightarrow> NUL \<notin> set a"
  by (simp add: ValidAddress_def)

lemma tags_no_NUL: "NUL \<notin> set ('','' @ map tag_of args)"
  by (auto simp: tag_of_def NUL_def split: if_splits)

lemma unmarshal_marshal:
  assumes "MarshalMessage m = Inr p"
  shows "unmarshalMessage p = Inr (decoded_message m, length p)"
proof -
  define a where "a = writePaddedString [] (msg_Address m)"
  define t where "t = writePaddedString a ('','' @ map tag_of (msg_Args m))"
  have p: "p = write_args (msg_Args m) t" and va: "ValidAddress (msg_Address m)"
    and enc: "list_all encodable (msg_Args m)"
    using assms by (simp_all add: MarshalMessage_iff a_def t_def)
  obtain x where x: "p = t @ x" using write_args_prefix p by blast
  obtain y where y: "t = a @ y" unfolding t_def writePaddedString_eq by blast
  have r1: "readPaddedString p 0 = Inr (msg_Address m, length a)"
    using read_writePadded [OF ValidAddress_NUL [OF va], of "[]" "y @ x"] by (simp add: x y flip: a_def)
  have r2: "readPaddedString p (length a) = Inr ('','' @ map tag_of (msg_Args m), length t)"
    using read_writePadded [OF tags_no_NUL, of "a" "msg_Args m" x] unfolding x t_def .
  have r3: "read_args p (map tag_of (msg_Args m)) (length t) [] = Inr (map used_fields (msg_Args m), length p)"
    using read_write_args [OF enc, of t "[]" "[]"] by (simp add: p)
  show ?thesis
    using va r3 by (simp add: unmarshalMessage_def r1 r2 decoded_message_def)
qed

lemma marshal_unmarshal:
  assumes "unmarshalMessage p = Inr (m, n)"
  shows "MarshalMessage m = Inr (take n p) \<and> decoded_message m = m \<and> n \<le> length p"
proof -
  from assms obtain off off2 tags where r1: "readPaddedString p 0 = Inr (msg_Address m, off)"
    and va: "ValidAddress (msg_Address m)" and r2: "readPaddedString p off = Inr (CHR '','' # tags, off2)"
    and r3: "read_args p tags off2 [] = Inr (msg_Args m, n)"
    by (auto simp: unmarshalMessage_def result_iffs neq_Nil_conv split: sum.splits)
  note w1 = write_readPadded [OF r1] and w2 = write_readPadded [OF r2]
  from write_read_args [OF r3 w2(3)] have "list_all encodable (msg_Args m)"
    "map used_fields (msg_Args m) = msg_Args m" "tags = map tag_of (msg_Args m)" "n \<le> length p"
    "take n p = write_args (msg_Args m) (take off2 p)" by auto
  with w1 w2 va show ?thesis by (simp add: MarshalMessage_iff decoded_message_def)
qed

lemma has_prefix_bundle_slash: "has_prefix p ''/'' \<Longrightarrow> \<not> has_prefix p bundle_prefix"
  by (cases p) (auto simp: has_prefix_def bundle_prefix_def)

lemma marshal_slash:
  assumes "MarshalMessage m = Inr p"
  shows "has_prefix p ''/'' \<and> 4 \<le> length p"
proof -
  obtain x where p: "p = writePaddedString (writePaddedString [] (msg_Address m)) ('','' @ map tag_of (msg_Args m)) @ x"
    using assms write_args_prefix by (auto simp: MarshalMessage_iff)
  have "has_prefix (msg_Address m) ''/''" using assms by (simp add: MarshalMessage_iff ValidAddress_def)
  then have "msg_Address m \<noteq> [] \<and> hd (msg_Address m) = CHR ''/''"
    by (cases "msg_Address m") (auto simp: has_prefix_def)
  then show ?thesis by (cases "msg_Address m") (auto simp: p writePaddedString_eq has_prefix_def)
qed

text \<open>C35 (roundtrip). Every message MarshalMessage encodes, UnmarshalPacket decodes to that one
  message, with the fields an argument's kind does not use zeroed.\<close>

theorem unmarshal_of_marshal:
  assumes "MarshalMessage m = Inr p"
  shows "UnmarshalPacket p = Inr [decoded_message m]"
  using unmarshal_marshal [OF assms] marshal_slash [OF assms]
  by (simp add: UnmarshalPacket_def unmarshalPacket.simps maxBundleDepth_def has_prefix_bundle_slash not_less)

definition sample_message :: osc_message where
  "sample_message = \<lparr>msg_Address = ''/avatar/x'', msg_Args = [Int32 7, String ''ab'', Bool True, Float32 one32]\<rparr>"

lemma sample_message_encodes: "\<exists>p. MarshalMessage sample_message = Inr p"
  by (simp add: MarshalMessage_iff sample_message_def ValidAddress_def has_prefix_def NUL_def)

theorem unmarshal_of_marshal_witness:
  "\<exists>p. MarshalMessage sample_message = Inr p \<and> UnmarshalPacket p = Inr [sample_message]"
  using sample_message_encodes unmarshal_of_marshal [of sample_message]
  by (auto simp: decoded_message_def sample_message_def)

text \<open>A packet that is not a bundle and decodes has exactly one message, and
  encoding that message gives the packet back byte for byte: no message has two encodings.\<close>

theorem marshal_of_unmarshal:
  assumes "UnmarshalPacket p = Inr ms" and "\<not> has_prefix p bundle_prefix"
  shows "\<exists>m. ms = [m] \<and> MarshalMessage m = Inr p"
proof -
  from assms obtain m where "unmarshalMessage p = Inr (m, length p)" "ms = [m]"
    by (auto simp: UnmarshalPacket_def unmarshalPacket.simps result_iffs split: if_splits)
  with marshal_unmarshal [of p m "length p"] show ?thesis by simp
qed

definition sample_packet :: bytes where
  "sample_packet = ''/ab'' @ [NUL] @ '',T'' @ [NUL, NUL]"

theorem marshal_of_unmarshal_witness:
  "MarshalMessage \<lparr>msg_Address = ''/ab'', msg_Args = [Bool True]\<rparr> = Inr sample_packet"
proof -
  have ok: "UnmarshalPacket sample_packet = Inr [\<lparr>msg_Address = ''/ab'', msg_Args = [Bool True]\<rparr>]"
    by code_simp
  have "\<not> has_prefix sample_packet bundle_prefix" by code_simp
  with marshal_of_unmarshal [OF ok] show ?thesis by simp
qed

section \<open>Bundles\<close>

lemma bundle_prefix_length [simp]: "length bundle_prefix = 8"
  by (simp add: bundle_prefix_def)

lemma has_prefix_append_self [simp]: "has_prefix (xs @ ys) xs"
  by (simp add: has_prefix_def)

lemma unmarshalPacket_bundle:
  "depth \<le> maxBundleDepth \<Longrightarrow> unmarshalPacket (bundle_prefix @ put_uint64 t @ body) depth =
    unmarshalBundle_loop (bundle_prefix @ put_uint64 t @ body) 16 depth []"
  by (simp add: unmarshalPacket.simps [of "bundle_prefix @ put_uint64 t @ body"])

definition element_bytes :: "bytes \<Rightarrow> bytes" where
  "element_bytes e = put_uint32 (word_of_int (int (length e))) @ e"

lemma sint_small: "0 \<le> k \<Longrightarrow> k \<le> 2 ^ 31 - 1 \<Longrightarrow> sint (word_of_int k :: u32) = k"
  by (simp add: sint_uint uint_word_of_int signed_take_bit_int_eq_self)

lemmas sint_length = sint_small [of "int n" for n, OF of_nat_0_le_iff]

lemma write_elements_iff:
  "write_elements es out = Inr p \<longleftrightarrow>
    list_all (\<lambda>e. e \<noteq> [] \<and> int (length e) \<le> 2 ^ 31 - 1 \<and> is_ok (unmarshalPacket e 1)) es \<and>
    p = out @ concat (map element_bytes es)"
proof (induction es arbitrary: out)
  case (Cons e es)
  then show ?case
    by (auto simp: result_iffs is_ok_iff element_bytes_def not_less) linarith?
qed auto

lemma bundle_loop_step:
  assumes "e \<noteq> []" "int (length e) \<le> 2 ^ 31 - 1"
  shows "unmarshalBundle_loop (pre @ element_bytes e @ rest) (length pre) depth ms =
    bind_result (unmarshalPacket e (Suc depth)) (\<lambda>decoded.
      unmarshalBundle_loop (pre @ element_bytes e @ rest) (length (pre @ element_bytes e)) depth (ms @ decoded))"
  using assms sint_length [OF assms(2)]
  by (subst unmarshalBundle_loop.simps)
    (simp add: element_bytes_def Let_def bind_result_def add.assoc split: sum.splits)

lemma bundle_loop_end: "unmarshalBundle_loop p (length p) depth ms = Inr ms"
  by (simp add: unmarshalBundle_loop.simps)

lemma bundle_loop_elements:
  assumes "list_all2 (\<lambda>e ms. unmarshalPacket e (Suc depth) = Inr ms) es mss"
    and "list_all (\<lambda>e. e \<noteq> [] \<and> int (length e) \<le> 2 ^ 31 - 1) es"
  shows "unmarshalBundle_loop (pre @ concat (map element_bytes es)) (length pre) depth acc = Inr (acc @ concat mss)"
  using assms
proof (induction es mss arbitrary: pre acc rule: list_all2_induct)
  case Nil
  then show ?case using bundle_loop_end [of pre] by simp
next
  case (Cons e es ms mss)
  then show ?case
    using bundle_loop_step [of e pre "concat (map element_bytes es)" depth acc]
      Cons.IH [of "pre @ element_bytes e" "acc @ ms"] by simp
qed

text \<open>A bundle MarshalBundle encodes decodes to the messages of its elements, in
  their order.\<close>

theorem unmarshal_of_bundle:
  assumes "MarshalBundle b = Inr p"
  shows "\<exists>mss. list_all2 (\<lambda>e ms. unmarshalPacket e 1 = Inr ms) (Elements b) mss \<and>
    UnmarshalPacket p = Inr (concat mss)"
proof -
  define t where "t = (if Timetag b = 0 then 1 else Timetag b)"
  have ok: "list_all (\<lambda>e. e \<noteq> [] \<and> int (length e) \<le> 2 ^ 31 - 1 \<and> is_ok (unmarshalPacket e 1)) (Elements b)"
    and p: "p = bundle_prefix @ put_uint64 t @ concat (map element_bytes (Elements b))"
    using assms by (simp_all add: MarshalBundle_def write_elements_iff Let_def t_def)
  have all2: "list_all2 (\<lambda>e ms. unmarshalPacket e (Suc 0) = Inr ms) (Elements b)
      (map (\<lambda>e. projr (unmarshalPacket e 1)) (Elements b))"
    using ok by (auto simp: list.rel_map list_all2_same list_all_iff is_ok_iff)
  have "UnmarshalPacket p = Inr (concat (map (\<lambda>e. projr (unmarshalPacket e 1)) (Elements b)))"
    using unmarshalPacket_bundle [of 0 t] bundle_loop_elements [OF all2, of "bundle_prefix @ put_uint64 t" "[]"] ok
    by (simp add: UnmarshalPacket_def p list_all_iff maxBundleDepth_def)
  with all2 show ?thesis by auto
qed

theorem unmarshal_of_bundle_witness:
  "\<exists>p. MarshalBundle \<lparr>Timetag = 0, Elements = [sample_packet]\<rparr> = Inr p \<and>
     UnmarshalPacket p = Inr [\<lparr>msg_Address = ''/ab'', msg_Args = [Bool True]\<rparr>]"
proof -
  have el: "unmarshalPacket sample_packet 1 = Inr [\<lparr>msg_Address = ''/ab'', msg_Args = [Bool True]\<rparr>]"
    by code_simp
  then obtain p where p: "MarshalBundle \<lparr>Timetag = 0, Elements = [sample_packet]\<rparr> = Inr p"
    by (auto simp: MarshalBundle_def write_elements_iff Let_def is_ok_iff sample_packet_def)
  from unmarshal_of_bundle [OF p] el p show ?thesis by (auto simp: list_all2_Cons1)
qed

lemma decoded_encodable:
  "unmarshalPacket p d = Inr ms \<Longrightarrow> \<forall>m \<in> set ms. is_ok (MarshalMessage m) \<and> decoded_message m = m"
  "unmarshalBundle_loop p off d acc = Inr ms \<Longrightarrow> \<forall>m \<in> set acc. is_ok (MarshalMessage m) \<and> decoded_message m = m \<Longrightarrow>
    \<forall>m \<in> set ms. is_ok (MarshalMessage m) \<and> decoded_message m = m"
proof (induction p d and p off d acc arbitrary: ms and ms rule: unmarshalPacket_unmarshalBundle_loop.induct)
  case (1 packet depth)
  show ?case
  proof (cases "has_prefix packet bundle_prefix")
    case True
    with 1 show ?thesis by (auto simp: unmarshalPacket.simps [of packet] split: if_splits)
  next
    case False
    with "1.prems" obtain m where "unmarshalMessage packet = Inr (m, length packet)" "ms = [m]"
      by (auto simp: unmarshalPacket.simps [of packet] result_iffs split: if_splits)
    with marshal_unmarshal show ?thesis by (auto simp: is_ok_iff)
  qed
next
  case (2 packet offset depth messages)
  show ?case
  proof (cases "offset < length packet")
    case False
    with "2.prems" show ?thesis by (simp add: unmarshalBundle_loop.simps [of packet])
  next
    case True
    define size where "size = sint (get_uint32 (take 4 (drop offset packet)))"
    from True "2.prems"(1) obtain decoded where len: "\<not> length packet < offset + 4"
      and sz: "\<not> (size \<le> 0 \<or> int (length packet) - int (offset + 4) < size)"
      and dec: "unmarshalPacket (take (nat size) (drop (offset + 4) packet)) (Suc depth) = Inr decoded"
      and rest: "unmarshalBundle_loop packet (offset + 4 + nat size) depth (messages @ decoded) = Inr ms"
      unfolding unmarshalBundle_loop.simps [of packet offset] size_def
      by (auto simp: Let_def split: if_splits sum.splits)
    note all = "2.IH"(1) [OF True len size_def refl sz dec] "2.prems"(2)
    show ?thesis
      by (rule "2.IH"(2) [OF True len size_def refl sz dec rest])
        (use all in \<open>simp only: set_append ball_Un simp_thms\<close>)
  qed
qed

text \<open>Whatever bytes arrive, every message UnmarshalPacket returns, from a message or
  from any depth of a bundle, is one that MarshalMessage accepts: a valid address, supported
  argument kinds, no NUL in a string.\<close>

theorem decoded_messages_valid:
  assumes "UnmarshalPacket p = Inr ms" and "m \<in> set ms"
  shows "is_ok (MarshalMessage m) \<and> decoded_message m = m"
  using assms decoded_encodable(1) unfolding UnmarshalPacket_def by blast

theorem decoded_messages_valid_witness:
  "is_ok (MarshalMessage \<lparr>msg_Address = ''/ab'', msg_Args = [Bool True]\<rparr>)"
proof -
  have "UnmarshalPacket sample_packet = Inr [\<lparr>msg_Address = ''/ab'', msg_Args = [Bool True]\<rparr>]"
    by code_simp
  from decoded_messages_valid [OF this] show ?thesis by simp
qed

text \<open>Bundles nested one in another.\<close>

definition nest_bundle :: "bytes \<Rightarrow> bytes" where
  "nest_bundle e = bundle_prefix @ put_uint64 1 @ element_bytes e"

lemma length_nest_bundle: "length ((nest_bundle ^^ n) p) = 20 * n + length p"
  by (induction n) (simp_all add: nest_bundle_def element_bytes_def)

lemma unmarshal_nest:
  assumes "e \<noteq> []" "int (length e) \<le> 2 ^ 31 - 1"
  shows "unmarshalPacket (nest_bundle e) depth =
    (if depth \<le> maxBundleDepth then unmarshalPacket e (Suc depth) else Inl ErrMalformedPacket)"
proof (cases "depth \<le> maxBundleDepth")
  case True
  define pre where "pre = bundle_prefix @ put_uint64 1"
  have "length pre = 16" by (simp add: pre_def)
  then have "unmarshalPacket (nest_bundle e) depth = bind_result (unmarshalPacket e (Suc depth)) Inr"
    using unmarshalPacket_bundle [OF True, of 1 "element_bytes e"] bundle_loop_step [OF assms, of pre "[]" depth "[]"]
      bundle_loop_end [of "pre @ element_bytes e"]
    by (simp add: nest_bundle_def pre_def)
  with True show ?thesis by (simp add: bind_result_def split: sum.splits)
next
  case False
  then show ?thesis by (simp add: unmarshalPacket.simps)
qed

lemma unmarshal_nested:
  assumes "p \<noteq> []" and "20 * n + int (length p) \<le> 2 ^ 31 - 1" and "d \<le> Suc maxBundleDepth"
  shows "unmarshalPacket ((nest_bundle ^^ n) p) d =
    (if d + n \<le> Suc maxBundleDepth then unmarshalPacket p (d + n) else Inl ErrMalformedPacket)"
  using assms(2,3)
proof (induction n arbitrary: d)
  case 0
  then show ?case by simp
next
  case (Suc n)
  have "(nest_bundle ^^ n) p \<noteq> []" using assms(1) length_nest_bundle [of n p] by auto
  then have "unmarshalPacket ((nest_bundle ^^ Suc n) p) d =
      (if d \<le> maxBundleDepth then unmarshalPacket ((nest_bundle ^^ n) p) (Suc d) else Inl ErrMalformedPacket)"
    unfolding funpow.simps o_apply
    using Suc.prems by (intro unmarshal_nest) (simp_all add: length_nest_bundle)
  then show ?case using Suc.IH [of "Suc d"] Suc.prems by auto
qed

text \<open>A message inside n nested bundles is decoded when n is at most 32 and rejected
  when it is more, so recursion in the reader is bounded whatever the packet.\<close>

theorem nested_bundle_depth:
  assumes "MarshalMessage m = Inr p" and "20 * n + int (length p) \<le> 2 ^ 31 - 1"
  shows "UnmarshalPacket ((nest_bundle ^^ n) p) =
    (if n \<le> 32 then Inr [decoded_message m] else Inl ErrMalformedPacket)"
proof -
  have ne: "p \<noteq> []" "4 \<le> length p" "\<not> has_prefix p bundle_prefix"
    using marshal_slash [OF assms(1)] has_prefix_bundle_slash by auto
  have "unmarshalPacket p n = Inr [decoded_message m]" if "n \<le> 32"
    using that ne unmarshal_marshal [OF assms(1)] by (simp add: unmarshalPacket.simps maxBundleDepth_def)
  moreover have "unmarshalPacket p n = Inl ErrMalformedPacket" if "32 < n"
    using that by (simp add: unmarshalPacket.simps maxBundleDepth_def)
  ultimately show ?thesis
    using unmarshal_nested [OF ne(1) assms(2), of 0] by (simp add: UnmarshalPacket_def maxBundleDepth_def)
qed

theorem nested_bundle_depth_witness:
  "UnmarshalPacket ((nest_bundle ^^ 32) sample_packet) = Inr [\<lparr>msg_Address = ''/ab'', msg_Args = [Bool True]\<rparr>] \<and>
   UnmarshalPacket ((nest_bundle ^^ 33) sample_packet) = Inl ErrMalformedPacket"
proof -
  let ?m = "\<lparr>msg_Address = ''/ab'', msg_Args = [Bool True]\<rparr>"
  have m: "MarshalMessage ?m = Inr sample_packet" by code_simp
  have "decoded_message ?m = ?m" by (simp add: decoded_message_def)
  with nested_bundle_depth [OF m, of 32] nested_bundle_depth [OF m, of 33]
  show ?thesis by (simp add: sample_packet_def)
qed

section \<open>Time tags\<close>

lemma or_disjoint_word:
  fixes x y :: u64
  assumes "uint y < 2 ^ 32"
  shows "push_bit 32 x OR y = push_bit 32 x + y"
proof -
  have "take_bit 32 y = y"
    using assms by (intro word_uint_eqI) (simp add: unsigned_take_bit_eq take_bit_int_eq_self)
  then have "\<not> bit y n" if "32 \<le> n" for n
    using that by (metis bit_take_bit_iff not_le)
  then have "push_bit 32 x AND y = 0"
    by (intro bit_word_eqI) (auto simp: bit_and_iff bit_push_bit_iff not_le)
  then show ?thesis using word_plus_and_or [of "push_bit 32 x" y] by simp
qed

lemma uint_push_bit_32:
  assumes "uint (x :: u64) < 2 ^ 32"
  shows "uint (push_bit 32 x) = uint x * 2 ^ 32"
  using assms by (simp add: push_bit_eq_mult uint_word_ariths(3))

lemma uint_NTPTime:
  assumes "0 \<le> unix + 2208988800" "unix + 2208988800 < 2 ^ 32" "uint ns < 1000000000"
  shows "uint (NTPTime unix ns) = (unix + 2208988800) * 2 ^ 32 + uint ns * 2 ^ 32 div 1000000000"
proof -
  define s where "s = unix + 2208988800"
  define w where "w = (word_of_int (i64 s) :: u64)"
  define y where "y = push_bit 32 ns div (1000000000 :: u64)"
  have b: "0 \<le> s" "s < 2 ^ 32" using assms by (simp_all add: s_def)
  have w: "uint w = s"
    using b by (simp add: w_def is_i64_range uint_word_of_int)
  have sec: "uint (push_bit 32 w) = s * 2 ^ 32"
    using w b by (subst uint_push_bit_32) simp_all
  have y: "uint y = uint ns * 2 ^ 32 div 1000000000"
    using assms by (simp add: y_def uint_div uint_push_bit_32)
  also have "\<dots> < 2 ^ 32" using assms(3) by simp
  finally have frac: "uint y < 2 ^ 32" .
  have "uint (push_bit 32 w) + uint y < 2 ^ 64"
    using frac b unfolding sec by simp
  then have "uint (push_bit 32 w + y) = s * 2 ^ 32 + uint y"
    using uint_add_lem [of "push_bit 32 w" y] sec by (simp del: push_bit_numeral)
  moreover have "NTPTime unix ns = push_bit 32 w + y"
    unfolding or_disjoint_word [OF frac, symmetric] by (simp only: NTPTime_def Let_def w_def y_def s_def)
  ultimately show ?thesis unfolding y s_def by simp
qed

text \<open>Within the NTP era (1900 to 2036) time tags order exactly as the wall-clock times
  they encode: seconds in the high word, and nanoseconds never collide.\<close>

theorem NTPTime_order:
  assumes "0 \<le> s1 + 2208988800" "s1 + 2208988800 < 2 ^ 32" "uint n1 < 1000000000"
    and "0 \<le> s2 + 2208988800" "s2 + 2208988800 < 2 ^ 32" "uint n2 < 1000000000"
  shows "NTPTime s1 n1 < NTPTime s2 n2 \<longleftrightarrow> s1 < s2 \<or> s1 = s2 \<and> n1 < n2"
proof -
  define f where "f = (\<lambda>n :: u64. uint n * 2 ^ 32 div 1000000000)"
  have mono: "f a < f b \<longleftrightarrow> uint a < uint b" for a b :: u64
  proof -
    have "f a < f b" if "uint a < uint b" for a b :: u64
    proof -
      have "uint a * 2 ^ 32 + 1000000000 \<le> uint b * 2 ^ 32" using that by simp
      from zdiv_mono1 [OF this, of 1000000000] show ?thesis by (simp add: f_def)
    qed
    moreover have "f a = f b" if "uint a = uint b" using that by (simp add: f_def)
    ultimately show ?thesis by (metis not_less_iff_gr_or_eq)
  qed
  have range: "0 \<le> f n1" "f n1 < 2 ^ 32" "0 \<le> f n2" "f n2 < 2 ^ 32"
    using assms zdiv_mono1 [of 0 "uint n1 * 2 ^ 32" 1000000000] zdiv_mono1 [of 0 "uint n2 * 2 ^ 32" 1000000000]
    by (simp_all add: f_def)
  show ?thesis
    using uint_NTPTime [OF assms(1-3)] uint_NTPTime [OF assms(4-6)] range mono [of n1 n2]
    unfolding word_less_def f_def by auto
qed

theorem NTPTime_order_witness:
  "NTPTime 1700000000 5 < NTPTime 1700000000 6 \<and> \<not> NTPTime 1700000001 0 < NTPTime 1700000000 999999999"
  using NTPTime_order [of 1700000000 5 1700000000 6] NTPTime_order [of 1700000001 0 1700000000 999999999]
  by simp

end
