(* ===== verification/Channels.thy ===== *)
theory Channels
  imports Prelude "HOL-Library.AList"
begin

text \<open>
  The latest-value channel of the program: a Go channel of capacity one that a producer
  overwrites (offerLatest in internal/tracking, internal/application and the snapshot store).
  A buffered channel of capacity one is an option. The contract the consumers rely on, that
  what they take is the last value offered, is a locale which the components interpret.
\<close>

section \<open>The contract\<close>

locale latest_slot =
  fixes empty :: 's and offer :: "'a \<Rightarrow> 's \<Rightarrow> 's" and take :: "'s \<Rightarrow> 'a option \<times> 's"
    and content :: "'s \<Rightarrow> 'a option" and accepts :: "'a \<Rightarrow> bool"
  assumes content_empty: "content empty = None"
    and content_offer: "content (offer v s) = (if accepts v then Some v else content s)"
    and take_content: "fst (take s) = content s"
    and take_empties: "content (snd (take s)) = None"
begin

lemma content_offers:
  "content (fold offer vs s) =
    (if filter accepts vs = [] then content s else Some (last (filter accepts vs)))"
  by (induction vs rule: rev_induct) (auto simp: content_offer)

text \<open>However many values were offered since the last take, the consumer gets the newest.\<close>

lemma take_newest: "accepts v \<Longrightarrow> fst (take (offer v (fold offer vs s))) = Some v"
  by (simp add: take_content content_offer)

lemma take_twice: "fst (take (snd (take s))) = None"
  by (simp add: take_content take_empties)

end

section \<open>A Go channel of capacity one\<close>

definition try_send :: "'a \<Rightarrow> 'a option \<Rightarrow> 'a option \<times> bool" where
  \<comment> \<open>select with a send case and a default: the channel after it, and whether it sent\<close>
  "try_send v buf = (case buf of None \<Rightarrow> (Some v, True) | Some u \<Rightarrow> (Some u, False))"

definition try_recv :: "'a option \<Rightarrow> 'a option \<times> 'a option" where
  \<comment> \<open>select with a receive case and a default: the value received, and the channel\<close>
  "try_recv buf = (buf, None)"

definition offerLatest :: "'a option \<Rightarrow> 'a \<Rightarrow> 'a option" where
  "offerLatest channel v = (case try_send v channel of
     (channel1, True) \<Rightarrow> channel1
   | (channel1, False) \<Rightarrow> fst (try_send v (snd (try_recv channel1))))"

text \<open>
  Only receivers run beside offerLatest (its callers hold the mutex). The racing version lets a
  receiver take from the channel between any two of the three selects.
\<close>

definition racing_recv :: "bool \<Rightarrow> 'a option \<Rightarrow> 'a option" where
  "racing_recv r buf = (if r then snd (try_recv buf) else buf)"

definition offerLatest_racing :: "bool \<Rightarrow> bool \<Rightarrow> 'a option \<Rightarrow> 'a \<Rightarrow> 'a option" where
  "offerLatest_racing r1 r2 channel v = (case try_send v channel of
     (channel1, True) \<Rightarrow> channel1
   | (channel1, False) \<Rightarrow> fst (try_send v (racing_recv r2 (snd (try_recv (racing_recv r1 channel1))))))"

lemma offerLatest_Some [simp]: "offerLatest buf v = Some v"
  by (simp add: offerLatest_def try_send_def try_recv_def split: option.splits)

lemma offerLatest_racing_Some [simp]: "offerLatest_racing r1 r2 buf v = Some v"
  by (simp add: offerLatest_racing_def try_send_def try_recv_def racing_recv_def split: option.splits)

interpretation channel: latest_slot None "\<lambda>v buf. offerLatest buf v" try_recv "\<lambda>buf. buf" "\<lambda>_. True"
  by unfold_locales (simp_all add: try_recv_def)

section \<open>Subscribers\<close>

text \<open>A map of channels that every publication offers to: the channel's identity and its buffer.\<close>

type_synonym 'a subscribers = "(nat \<times> 'a option) list"

definition publish :: "'a \<Rightarrow> 'a subscribers \<Rightarrow> 'a subscribers" where
  "publish v = map (\<lambda>(sub, buf). (sub, offerLatest buf v))"

lemma map_of_publish: "map_of (publish v subs) sub = map_option (\<lambda>_. Some v) (map_of subs sub)"
  by (induction subs) (auto simp: publish_def)

lemma publish_keys [simp]: "map fst (publish v subs) = map fst subs"
  by (induction subs) (auto simp: publish_def)

lemma publish_publish [simp]: "publish v (publish w subs) = publish v subs"
  by (induction subs) (auto simp: publish_def)

end
