(* ===== verification/Tracking.thy ===== *)
theory Tracking
  imports TrackingModel Channels "HOL-Library.Multiset"
begin

text \<open>
  internal/tracking: the service that keeps one source per plugin, arbitrates which source feeds
  the eye, expression and lip groups, and publishes the merged frame. The host clock is a
  function from the number of readings taken to the reading. A Go map is an association list;
  nothing that is proved depends on its order.
\<close>

unbundle bit_operations_syntax

section \<open>State\<close>

datatype tracking_error =
    ErrInvalidRouting | ErrGenerationUnset | ErrGenerationZero | ErrGenerationRegression
  | ErrStaleGeneration | ErrFutureGeneration | ErrInvalidPluginID | ErrInvalidFrame
  | ErrSequenceNotIncreasing | ErrTimestampRegression | ErrSourceClockRegression

datatype rejection_reason =
    RejectionNone | RejectionGenerationUnset | RejectionGenerationZero | RejectionStaleGeneration
  | RejectionFutureGeneration | RejectionInvalidPluginID | RejectionInvalidFrame
  | RejectionSequenceNotIncreasing | RejectionTimestampRegression | RejectionSourceClockRegression

record source_selection =
  Auto :: bool
  sel_PluginID :: string

record routing_config =
  route_Eye :: source_selection
  route_Expression :: source_selection
  route_Lip :: source_selection

record source_state =
  frame :: tracking_frame
  receivedAtNS :: int
  lastSequence :: u64
  lastTimestampNS :: int
  lastSourceClockNS :: int

record merged_frame =
  Generation :: u64
  mf_Sequence :: u64
  UpdatedAtNS :: int
  mf_Capabilities :: capability
  mf_Eye :: eye_sample
  mf_Expressions :: expression_set
  EyeSourceID :: string
  ExpressionSourceID :: string
  LipSourceID :: string
  EyeUpdatedAtNS :: int
  ExpressionUpdatedAtNS :: int
  LipUpdatedAtNS :: int

definition empty_merged :: merged_frame where
  "empty_merged = \<lparr>Generation = 0, mf_Sequence = 0, UpdatedAtNS = 0, mf_Capabilities = 0, mf_Eye = empty_eye,
     mf_Expressions = empty_expressions, EyeSourceID = [], ExpressionSourceID = [], LipSourceID = [],
     EyeUpdatedAtNS = 0, ExpressionUpdatedAtNS = 0, LipUpdatedAtNS = 0\<rparr>"

record rejection_counts =
  GenerationUnset :: u64
  GenerationZero :: u64
  StaleGeneration :: u64
  FutureGeneration :: u64
  InvalidPluginID :: u64
  InvalidFrame :: u64
  SequenceNotIncreasing :: u64
  TimestampRegression :: u64
  SourceClockRegression :: u64

record rejection =
  rej_PluginID :: string
  rej_Generation :: u64
  rej_Reason :: rejection_reason

record summary =
  sum_Generation :: u64
  sum_Routing :: routing_config
  SourceCount :: nat
  sum_EyeSourceID :: string
  EyeAvailable :: bool
  sum_ExpressionSourceID :: string
  ExpressionAvailable :: bool
  sum_LipSourceID :: string
  LipAvailable :: bool
  sum_AcceptedFrames :: u64
  sum_RejectedFrames :: u64
  sum_Rejected :: rejection_counts
  sum_LastRejection :: rejection

record service =
  now :: "nat \<Rightarrow> int"
  now_reads :: nat
  generation :: u64
  routing :: routing_config
  sources :: "(string \<times> source_state) list"
  eyeSourceID :: string
  expressionSourceID :: string
  lipSourceID :: string
  mergedSequence :: u64
  lastHostTimeNS :: int
  latestMerged :: merged_frame
  hasLatest :: bool
  acceptedFrames :: u64
  rejectedFrames :: u64
  rejected :: rejection_counts
  lastRejection :: rejection
  mergedSubscribers :: "merged_frame subscribers"
  summarySubscribers :: "summary subscribers"

definition defaultRouting :: routing_config where
  "defaultRouting = (let auto = \<lparr>Auto = True, sel_PluginID = []\<rparr> in
     \<lparr>route_Eye = auto, route_Expression = auto, route_Lip = auto\<rparr>)"

definition newServiceWithClock :: "(nat \<Rightarrow> int) \<Rightarrow> service" where
  "newServiceWithClock clk = \<lparr>now = clk, now_reads = 0, generation = 0, routing = defaultRouting, sources = [],
     eyeSourceID = [], expressionSourceID = [], lipSourceID = [], mergedSequence = 0, lastHostTimeNS = 0,
     latestMerged = empty_merged, hasLatest = False, acceptedFrames = 0, rejectedFrames = 0,
     rejected = \<lparr>GenerationUnset = 0, GenerationZero = 0, StaleGeneration = 0, FutureGeneration = 0,
       InvalidPluginID = 0, InvalidFrame = 0, SequenceNotIncreasing = 0, TimestampRegression = 0,
       SourceClockRegression = 0\<rparr>,
     lastRejection = \<lparr>rej_PluginID = [], rej_Generation = 0, rej_Reason = RejectionNone\<rparr>,
     mergedSubscribers = [], summarySubscribers = []\<rparr>"

section \<open>Summary, counters and publication\<close>

definition saturatingAdd :: "u64 \<Rightarrow> u64 \<Rightarrow> u64" where
  "saturatingAdd left right = (if max_u64 - left < right then max_u64 else left + right)"

definition rejection_increment :: "rejection_reason \<Rightarrow> rejection_counts \<Rightarrow> rejection_counts" where
  "rejection_increment reason counts = (case reason of
     RejectionNone \<Rightarrow> counts
   | RejectionGenerationUnset \<Rightarrow> counts\<lparr>GenerationUnset := saturatingAdd (GenerationUnset counts) 1\<rparr>
   | RejectionGenerationZero \<Rightarrow> counts\<lparr>GenerationZero := saturatingAdd (GenerationZero counts) 1\<rparr>
   | RejectionStaleGeneration \<Rightarrow> counts\<lparr>StaleGeneration := saturatingAdd (StaleGeneration counts) 1\<rparr>
   | RejectionFutureGeneration \<Rightarrow> counts\<lparr>FutureGeneration := saturatingAdd (FutureGeneration counts) 1\<rparr>
   | RejectionInvalidPluginID \<Rightarrow> counts\<lparr>InvalidPluginID := saturatingAdd (InvalidPluginID counts) 1\<rparr>
   | RejectionInvalidFrame \<Rightarrow> counts\<lparr>InvalidFrame := saturatingAdd (InvalidFrame counts) 1\<rparr>
   | RejectionSequenceNotIncreasing \<Rightarrow> counts\<lparr>SequenceNotIncreasing := saturatingAdd (SequenceNotIncreasing counts) 1\<rparr>
   | RejectionTimestampRegression \<Rightarrow> counts\<lparr>TimestampRegression := saturatingAdd (TimestampRegression counts) 1\<rparr>
   | RejectionSourceClockRegression \<Rightarrow> counts\<lparr>SourceClockRegression := saturatingAdd (SourceClockRegression counts) 1\<rparr>)"

definition sourceHasCapability :: "service \<Rightarrow> string \<Rightarrow> capability \<Rightarrow> bool" where
  "sourceHasCapability s pluginID c = (if pluginID = [] then False else
     (case map_of (sources s) pluginID of None \<Rightarrow> False
      | Some source \<Rightarrow> cap_has (Capabilities (frame source)) c))"

definition currentSummary :: "service \<Rightarrow> summary" where
  "currentSummary s = \<lparr>sum_Generation = generation s, sum_Routing = routing s, SourceCount = length (sources s),
     sum_EyeSourceID = eyeSourceID s, EyeAvailable = sourceHasCapability s (eyeSourceID s) CapabilityEye,
     sum_ExpressionSourceID = expressionSourceID s,
     ExpressionAvailable = sourceHasCapability s (expressionSourceID s) CapabilityExpression,
     sum_LipSourceID = lipSourceID s, LipAvailable = sourceHasCapability s (lipSourceID s) CapabilityLip,
     sum_AcceptedFrames = acceptedFrames s, sum_RejectedFrames = rejectedFrames s, sum_Rejected = rejected s,
     sum_LastRejection = lastRejection s\<rparr>"

definition publishMerged :: "service \<Rightarrow> service" where
  "publishMerged s = s\<lparr>mergedSubscribers := publish (latestMerged s) (mergedSubscribers s)\<rparr>"

definition publishSummary :: "service \<Rightarrow> service" where
  "publishSummary s = s\<lparr>summarySubscribers := publish (currentSummary s) (summarySubscribers s)\<rparr>"

definition reject :: "service \<Rightarrow> string \<Rightarrow> u64 \<Rightarrow> rejection_reason \<Rightarrow> tracking_error \<Rightarrow>
    (tracking_error, unit) result \<times> service" where
  "reject s pluginID gen reason err = (Inl err, publishSummary
     (s\<lparr>rejectedFrames := saturatingAdd (rejectedFrames s) 1,
        rejected := rejection_increment reason (rejected s),
        lastRejection := \<lparr>rej_PluginID = pluginID, rej_Generation = gen, rej_Reason = reason\<rparr>\<rparr>))"

section \<open>Clock and routing\<close>


definition read_now :: "service \<Rightarrow> int \<times> service" where
  "read_now s = (now s (now_reads s), s\<lparr>now_reads := Suc (now_reads s)\<rparr>)"

definition nextTime :: "service \<Rightarrow> int \<times> service" where
  "nextTime s = (let (t, s) = read_now s in
     if t < lastHostTimeNS s then (lastHostTimeNS s, s) else (t, s\<lparr>lastHostTimeNS := t\<rparr>))"

definition nextReceiptTime :: "service \<Rightarrow> int \<times> service" where
  "nextReceiptTime s = (let (t, s) = read_now s in
     if t \<le> lastHostTimeNS s then
       (let s = (if lastHostTimeNS s < max_int64 then s\<lparr>lastHostTimeNS := i64 (lastHostTimeNS s + 1)\<rparr> else s)
        in (lastHostTimeNS s, s))
     else (t, s\<lparr>lastHostTimeNS := t\<rparr>))"

definition selection_validate :: "source_selection \<Rightarrow> (tracking_error, unit) result" where
  "selection_validate selection =
     guard_result (Auto selection = (sel_PluginID selection \<noteq> [])) ErrInvalidRouting (Inr ())"

definition routing_validate :: "routing_config \<Rightarrow> (tracking_error, unit) result" where
  "routing_validate r = bind_result (selection_validate (route_Eye r)) (\<lambda>_.
     bind_result (selection_validate (route_Expression r)) (\<lambda>_. selection_validate (route_Lip r)))"

fun auto_loop :: "(string \<times> source_state) list \<Rightarrow> capability \<Rightarrow> string \<Rightarrow> string" where
  \<comment> \<open>the range over the sources, in the order this iteration visits them\<close>
  "auto_loop [] c selected = selected"
| "auto_loop ((pluginID, source) # srcs) c selected =
    (if \<not> cap_has (Capabilities (frame source)) c then auto_loop srcs c selected
     else auto_loop srcs c (if selected = [] \<or> pluginID < selected then pluginID else selected))"

definition chooseAutoSource :: "string \<Rightarrow> (string \<times> source_state) list \<Rightarrow> capability \<Rightarrow> string" where
  "chooseAutoSource current srcs c = (case map_of srcs current of
     Some source \<Rightarrow> if cap_has (Capabilities (frame source)) c then current else auto_loop srcs c []
   | None \<Rightarrow> auto_loop srcs c [])"

definition resolveSource :: "source_selection \<Rightarrow> string \<Rightarrow> (string \<times> source_state) list \<Rightarrow> capability \<Rightarrow> string" where
  "resolveSource selection current srcs c = (if Auto selection then chooseAutoSource current srcs c else
     (case map_of srcs (sel_PluginID selection) of None \<Rightarrow> []
      | Some source \<Rightarrow> if cap_has (Capabilities (frame source)) c then sel_PluginID selection else []))"

section \<open>Merging\<close>

definition mergedContentEqual :: "merged_frame \<Rightarrow> merged_frame \<Rightarrow> bool" where
  "mergedContentEqual left right \<longleftrightarrow> Generation left = Generation right \<and>
     mf_Capabilities left = mf_Capabilities right \<and> eye_eq (mf_Eye left) (mf_Eye right) \<and>
     exp_eq (mf_Expressions left) (mf_Expressions right) \<and> EyeSourceID left = EyeSourceID right \<and>
     ExpressionSourceID left = ExpressionSourceID right \<and> LipSourceID left = LipSourceID right \<and>
     EyeUpdatedAtNS left = EyeUpdatedAtNS right \<and>
     ExpressionUpdatedAtNS left = ExpressionUpdatedAtNS right \<and> LipUpdatedAtNS left = LipUpdatedAtNS right"

definition advanceMergedSequence :: "service \<Rightarrow> service" where
  "advanceMergedSequence s = (if mergedSequence s < max_u64 then s\<lparr>mergedSequence := mergedSequence s + 1\<rparr> else s)"

definition zero_source :: source_state where
  "zero_source = \<lparr>frame = \<lparr>Sequence = 0, TimestampNS = 0, Capabilities = 0, SourceClockNS = 0, Eye = empty_eye,
     Expressions = empty_expressions\<rparr>, receivedAtNS = 0, lastSequence = 0, lastTimestampNS = 0, lastSourceClockNS = 0\<rparr>"

definition source_at :: "service \<Rightarrow> string \<Rightarrow> source_state" where
  \<comment> \<open>Go's map index: the zero value when the key is absent\<close>
  "source_at s pluginID = (case map_of (sources s) pluginID of None \<Rightarrow> zero_source | Some source \<Rightarrow> source)"

definition merged_of :: "service \<Rightarrow> merged_frame" where
  \<comment> \<open>the frame recomputeMergedLocked builds from the sources selected in s\<close>
  "merged_of s = (let
     m = empty_merged\<lparr>Generation := generation s, EyeSourceID := eyeSourceID s,
           ExpressionSourceID := expressionSourceID s, LipSourceID := lipSourceID s\<rparr>;
     m = (if eyeSourceID s \<noteq> [] then m\<lparr>mf_Capabilities := mf_Capabilities m OR CapabilityEye,
            mf_Eye := Eye (frame (source_at s (eyeSourceID s))),
            EyeUpdatedAtNS := receivedAtNS (source_at s (eyeSourceID s))\<rparr> else m);
     m = (if expressionSourceID s \<noteq> [] then m\<lparr>mf_Capabilities := mf_Capabilities m OR CapabilityExpression,
            mf_Expressions := Expressions (frame (source_at s (expressionSourceID s))),
            ExpressionUpdatedAtNS := receivedAtNS (source_at s (expressionSourceID s))\<rparr> else m)
     in (if lipSourceID s \<noteq> [] then m\<lparr>mf_Capabilities := mf_Capabilities m OR CapabilityLip,
            LipUpdatedAtNS := receivedAtNS (source_at s (lipSourceID s))\<rparr> else m))"

definition recomputeMerged :: "service \<Rightarrow> bool \<Rightarrow> bool \<times> service" where
  "recomputeMerged s force = (let
     nextEye = resolveSource (route_Eye (routing s)) (eyeSourceID s) (sources s) CapabilityEye;
     nextExpression = resolveSource (route_Expression (routing s)) (expressionSourceID s) (sources s) CapabilityExpression;
     nextLip = resolveSource (route_Lip (routing s)) (lipSourceID s) (sources s) CapabilityLip;
     selectionChanged = (nextEye \<noteq> eyeSourceID s \<or> nextExpression \<noteq> expressionSourceID s \<or> nextLip \<noteq> lipSourceID s);
     s = s\<lparr>eyeSourceID := nextEye, expressionSourceID := nextExpression, lipSourceID := nextLip\<rparr>;
     next = merged_of s
     in if \<not> force \<and> \<not> selectionChanged \<and> hasLatest s \<and> mergedContentEqual next (latestMerged s) then (False, s)
        else let s = advanceMergedSequence s; (t, s) = nextTime s in
          (True, s\<lparr>latestMerged := next\<lparr>mf_Sequence := mergedSequence s, UpdatedAtNS := t\<rparr>, hasLatest := True\<rparr>))"

definition recompute_and_publish :: "service \<Rightarrow> bool \<Rightarrow> service" where
  "recompute_and_publish s force = (let (changed, s) = recomputeMerged s force in
     if changed then publishMerged s else s)"

section \<open>Operations\<close>

definition SetGeneration :: "u64 \<Rightarrow> service \<Rightarrow> (tracking_error, unit) result \<times> service" where
  "SetGeneration gen s =
    (if gen = 0 then (Inl ErrGenerationZero, s)
     else if gen < generation s then (Inl ErrGenerationRegression, s)
     else if gen = generation s then (Inr (), s)
     else let s = advanceMergedSequence (s\<lparr>generation := gen, sources := [], eyeSourceID := [],
                    expressionSourceID := [], lipSourceID := []\<rparr>);
              (t, s) = nextTime s;
              s = s\<lparr>latestMerged := empty_merged\<lparr>Generation := gen, mf_Sequence := mergedSequence s, UpdatedAtNS := t\<rparr>,
                    hasLatest := True\<rparr>
          in (Inr (), publishSummary (publishMerged s)))"

definition Submit :: "string \<Rightarrow> u64 \<Rightarrow> tracking_frame \<Rightarrow> service \<Rightarrow> (tracking_error, unit) result \<times> service" where
  "Submit pluginID gen f s =
    (if pluginID = [] then reject s pluginID gen RejectionInvalidPluginID ErrInvalidPluginID
     else if generation s = 0 then reject s pluginID gen RejectionGenerationUnset ErrGenerationUnset
     else if gen = 0 then reject s pluginID gen RejectionGenerationZero ErrGenerationZero
     else if gen < generation s then reject s pluginID gen RejectionStaleGeneration ErrStaleGeneration
     else if gen > generation s then reject s pluginID gen RejectionFutureGeneration ErrFutureGeneration
     else (case canonicalize f of
       Inl _ \<Rightarrow> reject s pluginID gen RejectionInvalidFrame ErrInvalidFrame
     | Inr canon \<Rightarrow>
       let exists = (map_of (sources s) pluginID \<noteq> None); previous = source_at s pluginID in
       if exists \<and> Sequence canon \<le> lastSequence previous
         then reject s pluginID gen RejectionSequenceNotIncreasing ErrSequenceNotIncreasing
       else if TimestampNS canon < 0 \<or> SourceClockNS canon < 0
         then reject s pluginID gen RejectionInvalidFrame ErrInvalidFrame
       else if exists \<and> TimestampNS canon \<noteq> 0 \<and> lastTimestampNS previous \<noteq> 0 \<and> TimestampNS canon < lastTimestampNS previous
         then reject s pluginID gen RejectionTimestampRegression ErrTimestampRegression
       else if exists \<and> SourceClockNS canon \<noteq> 0 \<and> lastSourceClockNS previous \<noteq> 0 \<and> SourceClockNS canon < lastSourceClockNS previous
         then reject s pluginID gen RejectionSourceClockRegression ErrSourceClockRegression
       else let lastTS = (if TimestampNS canon \<noteq> 0 then TimestampNS canon else lastTimestampNS previous);
                lastClock = (if SourceClockNS canon \<noteq> 0 then SourceClockNS canon else lastSourceClockNS previous) in
       if lastHostTimeNS s = max_int64
         then reject s pluginID gen RejectionTimestampRegression ErrTimestampRegression
       else let selected = (pluginID = eyeSourceID s \<or> pluginID = expressionSourceID s \<or> pluginID = lipSourceID s);
                (received, s) = nextReceiptTime s;
                s = s\<lparr>sources := AList.update pluginID \<lparr>frame = canon, receivedAtNS = received,
                      lastSequence = Sequence canon, lastTimestampNS = lastTS, lastSourceClockNS = lastClock\<rparr> (sources s)\<rparr>;
                s = recompute_and_publish s selected;
                s = s\<lparr>acceptedFrames := saturatingAdd (acceptedFrames s) 1\<rparr>
            in (Inr (), publishSummary s)))"

definition SetRouting :: "routing_config \<Rightarrow> service \<Rightarrow> (tracking_error, unit) result \<times> service" where
  "SetRouting config s = (case routing_validate config of
     Inl e \<Rightarrow> (Inl e, s)
   | Inr _ \<Rightarrow> if config = routing s then (Inr (), s)
       else let s = s\<lparr>routing := config\<rparr> in
         (Inr (), publishSummary (if generation s = 0 then s else recompute_and_publish s True)))"

definition RemoveSource :: "string \<Rightarrow> service \<Rightarrow> service" where
  "RemoveSource pluginID s = (if pluginID = [] \<or> map_of (sources s) pluginID = None then s
     else publishSummary (recompute_and_publish (s\<lparr>sources := AList.delete pluginID (sources s)\<rparr>) False))"

definition LatestMerged :: "service \<Rightarrow> merged_frame \<times> bool" where
  "LatestMerged s = (latestMerged s, hasLatest s)"

text \<open>
  Subscribing registers a fresh channel (its identity is the argument) unless the context is
  already cancelled, in which case the channel is closed and stays unregistered. Cancelling
  removes it; receiving empties its buffer.
\<close>

definition SubscribeMerged :: "bool \<Rightarrow> nat \<Rightarrow> service \<Rightarrow> service" where
  "SubscribeMerged cancelled ch s = (if cancelled then s
     else s\<lparr>mergedSubscribers := AList.update ch
       (if hasLatest s then offerLatest None (latestMerged s) else None) (mergedSubscribers s)\<rparr>)"

definition SubscribeSummary :: "bool \<Rightarrow> nat \<Rightarrow> service \<Rightarrow> service" where
  "SubscribeSummary cancelled ch s = (if cancelled then s
     else s\<lparr>summarySubscribers := AList.update ch (offerLatest None (currentSummary s)) (summarySubscribers s)\<rparr>)"

definition CancelMerged :: "nat \<Rightarrow> service \<Rightarrow> service" where
  "CancelMerged ch s = s\<lparr>mergedSubscribers := AList.delete ch (mergedSubscribers s)\<rparr>"

definition CancelSummary :: "nat \<Rightarrow> service \<Rightarrow> service" where
  "CancelSummary ch s = s\<lparr>summarySubscribers := AList.delete ch (summarySubscribers s)\<rparr>"

definition ReceiveMerged :: "nat \<Rightarrow> service \<Rightarrow> merged_frame option \<times> service" where
  "ReceiveMerged ch s = (case map_of (mergedSubscribers s) ch of
     None \<Rightarrow> (None, s)
   | Some buf \<Rightarrow> (fst (try_recv buf),
       s\<lparr>mergedSubscribers := AList.update ch (snd (try_recv buf)) (mergedSubscribers s)\<rparr>))"

definition ReceiveSummary :: "nat \<Rightarrow> service \<Rightarrow> summary option \<times> service" where
  "ReceiveSummary ch s = (case map_of (summarySubscribers s) ch of
     None \<Rightarrow> (None, s)
   | Some buf \<Rightarrow> (fst (try_recv buf),
       s\<lparr>summarySubscribers := AList.update ch (snd (try_recv buf)) (summarySubscribers s)\<rparr>))"

text \<open>PluginFrameSink.Submit: a nil target drops the frame, and the error is ignored.\<close>

definition sink_Submit :: "string \<Rightarrow> u64 \<Rightarrow> tracking_frame \<Rightarrow> service option \<Rightarrow> service option" where
  "sink_Submit pluginID gen f target = map_option (\<lambda>s. snd (Submit pluginID gen f s)) target"

section \<open>Source selection\<close>

definition source_has :: "(string \<times> source_state) list \<Rightarrow> capability \<Rightarrow> string \<Rightarrow> bool" where
  "source_has srcs c p \<longleftrightarrow> (case map_of srcs p of None \<Rightarrow> False
     | Some source \<Rightarrow> cap_has (Capabilities (frame source)) c)"

definition candidates :: "(string \<times> source_state) list \<Rightarrow> capability \<Rightarrow> string set" where
  "candidates srcs c = {p \<in> fst ` set srcs. source_has srcs c p}"

definition keys_ok :: "(string \<times> 'a) list \<Rightarrow> bool" where
  "keys_ok srcs \<longleftrightarrow> distinct (map fst srcs) \<and> [] \<notin> set (map fst srcs)"

lemma source_has_candidates: "source_has srcs c p \<longleftrightarrow> p \<in> candidates srcs c"
  by (force simp: candidates_def source_has_def split: option.splits dest: map_of_SomeD)

lemma source_has_ex: "source_has srcs c p \<longleftrightarrow> (\<exists>source. map_of srcs p = Some source \<and> cap_has (Capabilities (frame source)) c)"
  by (auto simp: source_has_def split: option.splits)

lemma candidates_alt:
  assumes "keys_ok srcs"
  shows "candidates srcs c = {p. \<exists>source. (p, source) \<in> set srcs \<and> cap_has (Capabilities (frame source)) c}"
proof -
  have "distinct (map fst srcs)" using assms by (simp add: keys_ok_def)
  note m = map_of_eq_Some_iff [OF this]
  show ?thesis
    by (simp add: set_eq_iff source_has_ex m flip: source_has_candidates)
qed

lemma finite_candidates [simp]: "finite (candidates srcs c)"
  by (simp add: candidates_def)

lemma candidates_nonempty_id: "keys_ok srcs \<Longrightarrow> [] \<notin> candidates srcs c"
  by (auto simp: candidates_def keys_ok_def)

text \<open>The loop keeps the least identifier it has seen, [] standing for none.\<close>

definition least_id :: "string set \<Rightarrow> string" where
  "least_id A = (if A = {} then [] else Min A)"

lemma Min_insert_two: "finite A \<Longrightarrow> Min (insert a (insert b A)) = Min (insert (min a b) A)"
  by (cases "A = {}") (simp_all add: min.assoc)

lemma auto_loop_least:
  assumes "keys_ok srcs"
  shows "auto_loop srcs c selected =
    least_id ({p. \<exists>source. (p, source) \<in> set srcs \<and> cap_has (Capabilities (frame source)) c} \<union> ({selected} - {[]}))"
  using assms
proof (induction srcs c selected rule: auto_loop.induct)
  case (1 c selected)
  then show ?case by (simp add: least_id_def)
next
  case (2 pluginID source srcs c selected)
  let ?C = "{p. \<exists>source. (p, source) \<in> set srcs \<and> cap_has (Capabilities (frame source)) c}"
  have fin: "finite ?C" by (rule finite_subset [of _ "fst ` set srcs"]) force+
  have ok: "keys_ok srcs" "pluginID \<noteq> []" using "2.prems" by (auto simp: keys_ok_def)
  show ?case
  proof (cases "cap_has (Capabilities (frame source)) c")
    case False
    moreover have "{p. \<exists>s. (p, s) \<in> set ((pluginID, source) # srcs) \<and> cap_has (Capabilities (frame s)) c} = ?C"
      using False by auto
    ultimately show ?thesis using "2.IH"(1) [OF _ ok(1)] by simp
  next
    case True
    have split: "{p. \<exists>s. (p, s) \<in> set ((pluginID, source) # srcs) \<and> cap_has (Capabilities (frame s)) c} =
        insert pluginID ?C" using True by auto
    define nxt where "nxt = (if selected = [] \<or> pluginID < selected then pluginID else selected)"
    have "least_id (insert pluginID ?C \<union> ({selected} - {[]})) = least_id (?C \<union> ({nxt} - {[]}))"
    proof (cases "selected = []")
      case True
      then show ?thesis using ok(2) by (simp add: nxt_def Un_commute)
    next
      case False
      have "Min (insert pluginID (insert selected ?C)) = Min (insert (min pluginID selected) ?C)"
        using fin by (rule Min_insert_two)
      moreover have "nxt = min pluginID selected" using False by (auto simp: nxt_def min_def)
      ultimately show ?thesis using False ok(2) by (simp add: least_id_def min_def insert_commute split: if_splits)
    qed
    then show ?thesis using True "2.IH"(2) [OF _ ok(1)] unfolding split nxt_def by simp
  qed
qed

lemma auto_loop_start:
  "keys_ok srcs \<Longrightarrow> auto_loop srcs c [] = least_id (candidates srcs c)"
  by (simp add: auto_loop_least candidates_alt)

lemma chooseAutoSource_eq:
  "keys_ok srcs \<Longrightarrow> chooseAutoSource current srcs c =
    (if source_has srcs c current then current else least_id (candidates srcs c))"
  by (simp add: chooseAutoSource_def source_has_def auto_loop_start split: option.splits)

lemma resolveSource_eq:
  "keys_ok srcs \<Longrightarrow> resolveSource sel current srcs c =
    (if Auto sel then (if source_has srcs c current then current else least_id (candidates srcs c))
     else if source_has srcs c (sel_PluginID sel) then sel_PluginID sel else [])"
  by (simp add: resolveSource_def chooseAutoSource_eq source_has_def split: option.splits)

lemma least_id_in: "finite A \<Longrightarrow> least_id A \<noteq> [] \<Longrightarrow> least_id A \<in> A"
  by (auto simp: least_id_def split: if_splits)

lemma resolveSource_has:
  assumes "keys_ok srcs" "resolveSource sel current srcs c \<noteq> []"
  shows "source_has srcs c (resolveSource sel current srcs c)"
  using assms least_id_in [OF finite_candidates, of srcs c]
  by (auto simp: resolveSource_eq source_has_candidates split: if_splits)

lemma resolveSource_idem:
  assumes "keys_ok srcs"
  shows "resolveSource sel (resolveSource sel current srcs c) srcs c = resolveSource sel current srcs c"
proof (cases "resolveSource sel current srcs c = []")
  case True
  then show ?thesis
    using assms by (auto simp: resolveSource_eq source_has_candidates candidates_nonempty_id split: if_splits)
next
  case False
  from resolveSource_has [OF assms False] show ?thesis
    using assms by (auto simp: resolveSource_eq split: if_splits)
qed

text \<open>Automatic routing keeps the current source while it has the capability and
  otherwise takes the least plugin identifier that has it, "" when none has; the order in which
  the map is ranged over makes no difference.\<close>

theorem chooseAutoSource_spec:
  assumes "distinct (map fst srcs)" and "[] \<notin> set (map fst srcs)" and "mset srcs' = mset srcs"
  shows "chooseAutoSource current srcs' c = chooseAutoSource current srcs c \<and>
    (sourceHasCapability (s\<lparr>sources := srcs\<rparr>) current c \<longrightarrow> chooseAutoSource current srcs c = current) \<and>
    (\<not> sourceHasCapability (s\<lparr>sources := srcs\<rparr>) current c \<longrightarrow>
      (\<forall>p. sourceHasCapability (s\<lparr>sources := srcs\<rparr>) p c \<longrightarrow>
        sourceHasCapability (s\<lparr>sources := srcs\<rparr>) (chooseAutoSource current srcs c) c \<and>
        chooseAutoSource current srcs c \<le> p))"
proof -
  have ok: "keys_ok srcs" using assms by (simp add: keys_ok_def)
  have m: "mset (map fst srcs') = mset (map fst srcs)" using assms(3) by simp
  have ok': "keys_ok srcs'"
    using ok mset_eq_imp_distinct_iff [OF m] mset_eq_setD [OF m] by (simp add: keys_ok_def)
  have "map_of srcs' = map_of srcs"
    using ok ok' mset_eq_setD [OF assms(3)] by (simp add: keys_ok_def map_of_inject_set)
  then have same: "source_has srcs' c = source_has srcs c"
    by (simp add: fun_eq_iff source_has_def)
  then have cands: "candidates srcs' c = candidates srcs c" by (simp add: set_eq_iff flip: source_has_candidates)
  have "map_of srcs [] = None" using ok by (simp add: keys_ok_def map_of_eq_None_iff)
  then have has: "sourceHasCapability (s\<lparr>sources := srcs\<rparr>) p c = source_has srcs c p" for p
    by (simp add: sourceHasCapability_def source_has_def)
  have "least_id (candidates srcs c) \<in> candidates srcs c \<and> least_id (candidates srcs c) \<le> p"
    if "p \<in> candidates srcs c" for p
    using that by (auto simp: least_id_def)
  then show ?thesis
    using ok ok' by (auto simp: chooseAutoSource_eq same cands has source_has_candidates)
qed

section \<open>The invariant\<close>

definition reselect :: "service \<Rightarrow> service" where
  "reselect s = s\<lparr>
     eyeSourceID := resolveSource (route_Eye (routing s)) (eyeSourceID s) (sources s) CapabilityEye,
     expressionSourceID := resolveSource (route_Expression (routing s)) (expressionSourceID s) (sources s) CapabilityExpression,
     lipSourceID := resolveSource (route_Lip (routing s)) (lipSourceID s) (sources s) CapabilityLip\<rparr>"

definition source_ok :: "int \<Rightarrow> source_state \<Rightarrow> bool" where
  "source_ok t src \<longleftrightarrow> frame_canonical (frame src) \<and> 0 < receivedAtNS src \<and> receivedAtNS src \<le> t \<and>
     lastSequence src = Sequence (frame src) \<and> 0 \<le> lastTimestampNS src \<and> 0 \<le> lastSourceClockNS src"

definition group_ok :: "capability \<Rightarrow> capability \<Rightarrow> string \<Rightarrow> int \<Rightarrow> int \<Rightarrow> bool" where
  "group_ok caps c source updated t \<longleftrightarrow>
     (if cap_has caps c then source \<noteq> [] \<and> 0 < updated \<and> updated \<le> t else source = [] \<and> updated = 0)"

definition merged_content_ok :: "int \<Rightarrow> merged_frame \<Rightarrow> bool" where
  "merged_content_ok t m \<longleftrightarrow>
     group_ok (mf_Capabilities m) CapabilityEye (EyeSourceID m) (EyeUpdatedAtNS m) t \<and>
     group_ok (mf_Capabilities m) CapabilityExpression (ExpressionSourceID m) (ExpressionUpdatedAtNS m) t \<and>
     group_ok (mf_Capabilities m) CapabilityLip (LipSourceID m) (LipUpdatedAtNS m) t \<and>
     frame_canonical \<lparr>Sequence = 0, TimestampNS = 0, Capabilities = mf_Capabilities m, SourceClockNS = 0,
       Eye = mf_Eye m, Expressions = mf_Expressions m\<rparr>"

definition merged_ok :: "int \<Rightarrow> merged_frame \<Rightarrow> bool" where
  "merged_ok t m \<longleftrightarrow> Generation m \<noteq> 0 \<and> mf_Sequence m \<noteq> 0 \<and> 0 \<le> UpdatedAtNS m \<and> UpdatedAtNS m \<le> t \<and>
     merged_content_ok t m"

definition sources_ok :: "service \<Rightarrow> bool" where
  "sources_ok s \<longleftrightarrow> 0 \<le> lastHostTimeNS s \<and> lastHostTimeNS s \<le> max_int64 \<and> (\<forall>n. now s n \<le> max_int64) \<and> keys_ok (sources s) \<and>
     (\<forall>(p, src) \<in> set (sources s). source_ok (lastHostTimeNS s) src) \<and>
     (generation s = 0 \<longrightarrow> sources s = [])"

definition latest_ok :: "service \<Rightarrow> bool" where
  "latest_ok s \<longleftrightarrow> reselect s = s \<and> hasLatest s = (generation s \<noteq> 0) \<and>
     (hasLatest s \<longrightarrow> merged_ok (lastHostTimeNS s) (latestMerged s) \<and>
        mf_Sequence (latestMerged s) = mergedSequence s \<and> mergedContentEqual (merged_of s) (latestMerged s))"

definition subscribers_ok :: "service \<Rightarrow> bool" where
  "subscribers_ok s \<longleftrightarrow>
     (\<forall>(ch, buf) \<in> set (mergedSubscribers s). buf \<noteq> None \<longrightarrow> hasLatest s \<and> buf = Some (latestMerged s)) \<and>
     (\<forall>(ch, buf) \<in> set (summarySubscribers s). buf \<noteq> None \<longrightarrow> buf = Some (currentSummary s))"

definition tracking_wf :: "service \<Rightarrow> bool" where
  "tracking_wf s \<longleftrightarrow> sources_ok s \<and> latest_ok s \<and> subscribers_ok s"

lemma source_ok_mono: "source_ok t src \<Longrightarrow> t \<le> t' \<Longrightarrow> source_ok t' src"
  by (auto simp: source_ok_def)

lemma merged_content_ok_mono: "merged_content_ok t m \<Longrightarrow> t \<le> t' \<Longrightarrow> merged_content_ok t' m"
  by (auto simp: merged_content_ok_def group_ok_def split: if_splits)

lemma merged_ok_mono: "merged_ok t m \<Longrightarrow> t \<le> t' \<Longrightarrow> merged_ok t' m"
  by (auto simp: merged_ok_def merged_content_ok_mono)

section \<open>What the helpers do\<close>

definition at_time :: "int \<Rightarrow> service \<Rightarrow> service" where
  "at_time t s = s\<lparr>now_reads := Suc (now_reads s), lastHostTimeNS := t\<rparr>"

lemma nextTime_eq: "nextTime s = (max (now s (now_reads s)) (lastHostTimeNS s), at_time (max (now s (now_reads s)) (lastHostTimeNS s)) s)"
  by (simp add: nextTime_def read_now_def at_time_def max_def)

definition receipt_time :: "service \<Rightarrow> int" where
  "receipt_time s = fst (nextReceiptTime s)"

lemma nextReceiptTime_eq: "nextReceiptTime s = (receipt_time s, at_time (receipt_time s) s)"
  by (simp add: receipt_time_def nextReceiptTime_def read_now_def at_time_def Let_def)

lemma receipt_time_bounds:
  assumes "0 \<le> lastHostTimeNS s" "lastHostTimeNS s \<noteq> max_int64" "lastHostTimeNS s \<le> max_int64"
    and "\<forall>n. now s n \<le> max_int64"
  shows "lastHostTimeNS s < receipt_time s \<and> receipt_time s \<le> max_int64"
  using assms
  by (auto simp: receipt_time_def nextReceiptTime_def read_now_def Let_def is_i64_def max_int64_def)

lemma advanceMergedSequence_eq:
  "advanceMergedSequence s = s\<lparr>mergedSequence := saturatingAdd (mergedSequence s) 1\<rparr>"
proof (cases "mergedSequence s = max_u64")
  case True
  then show ?thesis by (simp add: advanceMergedSequence_def saturatingAdd_def less_max_u64_iff)
next
  case False
  then have "max_u64 - mergedSequence s \<noteq> 0" by simp
  then show ?thesis using False
    by (simp add: advanceMergedSequence_def saturatingAdd_def less_max_u64_iff word_less_1)
qed

lemma saturatingAdd_1: "saturatingAdd x 1 = (if x = max_u64 then max_u64 else x + 1)"
  using advanceMergedSequence_eq [of "(newServiceWithClock (\<lambda>_. 0))\<lparr>mergedSequence := x\<rparr>"]
  by (auto simp: advanceMergedSequence_def less_max_u64_iff newServiceWithClock_def split: if_splits)

lemma saturatingAdd_1_ge: "x \<le> saturatingAdd x 1" "x \<noteq> max_u64 \<Longrightarrow> x < saturatingAdd x 1"
  using succ_u64_greater [of x] by (auto simp: saturatingAdd_1 less_max_u64_iff order_less_le)

lemma saturatingAdd_1_ne_0: "saturatingAdd x 1 \<noteq> 0"
  using saturatingAdd_1_ge [of x] by (metis max_u64_ne_0(1) saturatingAdd_1 word_gt_0 word_le_0_iff not_less)

lemma merged_of_cong:
  "generation s = generation s' \<Longrightarrow> eyeSourceID s = eyeSourceID s' \<Longrightarrow> expressionSourceID s = expressionSourceID s' \<Longrightarrow>
   lipSourceID s = lipSourceID s' \<Longrightarrow> sources s = sources s' \<Longrightarrow> merged_of s = merged_of s'"
  by (simp add: merged_of_def source_at_def Let_def)

definition refreshed :: "service \<Rightarrow> service" where
  \<comment> \<open>what a recomputation that publishes leaves\<close>
  "refreshed s = (let s = reselect s; t = max (now s (now_reads s)) (lastHostTimeNS s);
     s = at_time t (s\<lparr>mergedSequence := saturatingAdd (mergedSequence s) 1\<rparr>)
     in publishMerged (s\<lparr>latestMerged := (merged_of s)\<lparr>mf_Sequence := mergedSequence s, UpdatedAtNS := t\<rparr>,
          hasLatest := True\<rparr>))"

lemma reselect_fields [simp]:
  "now (reselect s) = now s"
  "now_reads (reselect s) = now_reads s"
  "generation (reselect s) = generation s"
  "routing (reselect s) = routing s"
  "sources (reselect s) = sources s"
  "mergedSequence (reselect s) = mergedSequence s"
  "lastHostTimeNS (reselect s) = lastHostTimeNS s"
  "latestMerged (reselect s) = latestMerged s"
  "hasLatest (reselect s) = hasLatest s"
  "acceptedFrames (reselect s) = acceptedFrames s"
  "rejectedFrames (reselect s) = rejectedFrames s"
  "rejected (reselect s) = rejected s"
  "lastRejection (reselect s) = lastRejection s"
  "mergedSubscribers (reselect s) = mergedSubscribers s"
  "summarySubscribers (reselect s) = summarySubscribers s"
  by (simp_all add: reselect_def)

lemma at_time_fields [simp]:
  "now_reads (at_time t s) = Suc (now_reads s)" "lastHostTimeNS (at_time t s) = t"
  "now (at_time t s) = now s"
  "generation (at_time t s) = generation s"
  "routing (at_time t s) = routing s"
  "sources (at_time t s) = sources s"
  "mergedSequence (at_time t s) = mergedSequence s"
  "latestMerged (at_time t s) = latestMerged s"
  "hasLatest (at_time t s) = hasLatest s"
  "acceptedFrames (at_time t s) = acceptedFrames s"
  "rejectedFrames (at_time t s) = rejectedFrames s"
  "rejected (at_time t s) = rejected s"
  "lastRejection (at_time t s) = lastRejection s"
  "mergedSubscribers (at_time t s) = mergedSubscribers s"
  "summarySubscribers (at_time t s) = summarySubscribers s"
  "eyeSourceID (at_time t s) = eyeSourceID s"
  "expressionSourceID (at_time t s) = expressionSourceID s"
  "lipSourceID (at_time t s) = lipSourceID s"
  by (simp_all add: at_time_def)

lemma publishMerged_fields [simp]:
  "now (publishMerged s) = now s"
  "now_reads (publishMerged s) = now_reads s"
  "generation (publishMerged s) = generation s"
  "routing (publishMerged s) = routing s"
  "sources (publishMerged s) = sources s"
  "mergedSequence (publishMerged s) = mergedSequence s"
  "lastHostTimeNS (publishMerged s) = lastHostTimeNS s"
  "latestMerged (publishMerged s) = latestMerged s"
  "hasLatest (publishMerged s) = hasLatest s"
  "acceptedFrames (publishMerged s) = acceptedFrames s"
  "rejectedFrames (publishMerged s) = rejectedFrames s"
  "rejected (publishMerged s) = rejected s"
  "lastRejection (publishMerged s) = lastRejection s"
  "summarySubscribers (publishMerged s) = summarySubscribers s"
  "eyeSourceID (publishMerged s) = eyeSourceID s"
  "expressionSourceID (publishMerged s) = expressionSourceID s"
  "lipSourceID (publishMerged s) = lipSourceID s"
  by (simp_all add: publishMerged_def)

lemma publishSummary_fields [simp]:
  "now (publishSummary s) = now s"
  "now_reads (publishSummary s) = now_reads s"
  "generation (publishSummary s) = generation s"
  "routing (publishSummary s) = routing s"
  "sources (publishSummary s) = sources s"
  "mergedSequence (publishSummary s) = mergedSequence s"
  "lastHostTimeNS (publishSummary s) = lastHostTimeNS s"
  "latestMerged (publishSummary s) = latestMerged s"
  "hasLatest (publishSummary s) = hasLatest s"
  "acceptedFrames (publishSummary s) = acceptedFrames s"
  "rejectedFrames (publishSummary s) = rejectedFrames s"
  "rejected (publishSummary s) = rejected s"
  "lastRejection (publishSummary s) = lastRejection s"
  "mergedSubscribers (publishSummary s) = mergedSubscribers s"
  "eyeSourceID (publishSummary s) = eyeSourceID s"
  "expressionSourceID (publishSummary s) = expressionSourceID s"
  "lipSourceID (publishSummary s) = lipSourceID s"
  by (simp_all add: publishSummary_def)

lemma refreshed_alt:
  "refreshed s = publishMerged (case nextTime (advanceMergedSequence (reselect s)) of (t, u) \<Rightarrow>
     u\<lparr>latestMerged := (merged_of (reselect s))\<lparr>mf_Sequence := mergedSequence u, UpdatedAtNS := t\<rparr>, hasLatest := True\<rparr>)"
proof -
  have m: "merged_of (at_time t (r\<lparr>mergedSequence := n\<rparr>)) = merged_of r" for t n r
    by (rule merged_of_cong) simp_all
  show ?thesis by (simp add: refreshed_def Let_def advanceMergedSequence_eq nextTime_eq m)
qed

lemma reselect_same:
  "eyeSourceID (reselect s) = eyeSourceID s \<and> expressionSourceID (reselect s) = expressionSourceID s \<and>
   lipSourceID (reselect s) = lipSourceID s \<longleftrightarrow> reselect s = s"
proof
  assume "eyeSourceID (reselect s) = eyeSourceID s \<and> expressionSourceID (reselect s) = expressionSourceID s \<and>
    lipSourceID (reselect s) = lipSourceID s"
  then show "reselect s = s" by (intro service.equality) simp_all
qed simp_all

lemma recompute_and_publish_cases:
  "recompute_and_publish s force =
    (if \<not> force \<and> reselect s = s \<and> hasLatest s \<and> mergedContentEqual (merged_of s) (latestMerged s)
     then s else refreshed s)"
proof -
  define r where "r = reselect s"
  have "resolveSource (route_Eye (routing s)) (eyeSourceID s) (sources s) CapabilityEye = eyeSourceID r"
    "resolveSource (route_Expression (routing s)) (expressionSourceID s) (sources s) CapabilityExpression = expressionSourceID r"
    "resolveSource (route_Lip (routing s)) (lipSourceID s) (sources s) CapabilityLip = lipSourceID r"
    by (simp_all add: r_def reselect_def)
  note ids = this
  have r: "s\<lparr>eyeSourceID := eyeSourceID r, expressionSourceID := expressionSourceID r, lipSourceID := lipSourceID r\<rparr> = r"
    by (simp add: r_def reselect_def)
  have same: "eyeSourceID r = eyeSourceID s \<and> expressionSourceID r = expressionSourceID s \<and> lipSourceID r = lipSourceID s
      \<longleftrightarrow> r = s" unfolding r_def by (rule reselect_same)
  have "recomputeMerged s force = (if \<not> force \<and> r = s \<and> hasLatest s \<and> mergedContentEqual (merged_of s) (latestMerged s)
      then (False, s) else (True, case nextTime (advanceMergedSequence r) of (t, u) \<Rightarrow>
        u\<lparr>latestMerged := (merged_of r)\<lparr>mf_Sequence := mergedSequence u, UpdatedAtNS := t\<rparr>, hasLatest := True\<rparr>))"
    unfolding recomputeMerged_def ids Let_def r using same
    by (cases "r = s") (auto simp: r_def split: prod.split)
  then show ?thesis
    unfolding recompute_and_publish_def refreshed_alt r_def by simp
qed

section \<open>Every operation keeps the invariant\<close>

lemma mergedContentEqual_refl:
  assumes "eye_canonical (mf_Eye m)" "exp_canonical (mf_Expressions m)"
  shows "mergedContentEqual m (m\<lparr>mf_Sequence := q, UpdatedAtNS := u\<rparr>)"
  using assms by (simp add: mergedContentEqual_def eye_canonical_eq exp_canonical_eq)

definition selection_ok :: "service \<Rightarrow> bool" where
  "selection_ok s \<longleftrightarrow>
     (eyeSourceID s = [] \<or> source_has (sources s) CapabilityEye (eyeSourceID s)) \<and>
     (expressionSourceID s = [] \<or> source_has (sources s) CapabilityExpression (expressionSourceID s)) \<and>
     (lipSourceID s = [] \<or> source_has (sources s) CapabilityLip (lipSourceID s))"

lemma reselect_selection_ok: "keys_ok (sources s) \<Longrightarrow> selection_ok (reselect s)"
  using resolveSource_has by (auto simp: selection_ok_def reselect_def)

lemma reselect_idem: "keys_ok (sources s) \<Longrightarrow> reselect (reselect s) = reselect s"
  by (simp add: reselect_def resolveSource_idem)

lemma source_at_ok:
  assumes "sources_ok s" "source_has (sources s) c p"
  shows "source_ok (lastHostTimeNS s) (source_at s p) \<and> cap_has (Capabilities (frame (source_at s p))) c"
  using assms by (fastforce simp: sources_ok_def source_has_ex source_at_def dest: map_of_SomeD)

lemma cap_bits [simp]:
  "cap_has (a OR b) c \<longleftrightarrow> cap_has a c \<or> cap_has b c" "\<not> cap_has 0 c"
  "cap_has CapabilityEye CapabilityEye" "\<not> cap_has CapabilityEye CapabilityExpression" "\<not> cap_has CapabilityEye CapabilityLip"
  "\<not> cap_has CapabilityExpression CapabilityEye" "cap_has CapabilityExpression CapabilityExpression"
  "\<not> cap_has CapabilityExpression CapabilityLip" "\<not> cap_has CapabilityLip CapabilityEye"
  "\<not> cap_has CapabilityLip CapabilityExpression" "cap_has CapabilityLip CapabilityLip"
  by (simp_all add: cap_has_def CapabilityEye_def CapabilityExpression_def CapabilityLip_def bit.conj_disj_distrib2 or_eq_0_iff)

lemma cap_unknown [simp]:
  "CapabilityEye AND NOT knownCapabilities = 0" "CapabilityExpression AND NOT knownCapabilities = 0"
  "CapabilityLip AND NOT knownCapabilities = 0"
  by (simp_all add: knownCapabilities_def CapabilityEye_def CapabilityExpression_def CapabilityLip_def)

lemma empty_merged_fields [simp]:
  "mf_Eye empty_merged = empty_eye" "mf_Expressions empty_merged = empty_expressions" "mf_Capabilities empty_merged = 0"
  "EyeSourceID empty_merged = []" "ExpressionSourceID empty_merged = []" "LipSourceID empty_merged = []"
  "EyeUpdatedAtNS empty_merged = 0" "ExpressionUpdatedAtNS empty_merged = 0" "LipUpdatedAtNS empty_merged = 0"
  by (simp_all add: empty_merged_def)

lemma merged_of_fields:
  "Generation (merged_of s) = generation s"
  "mf_Capabilities (merged_of s) = (if eyeSourceID s = [] then 0 else CapabilityEye) OR
     (if expressionSourceID s = [] then 0 else CapabilityExpression) OR (if lipSourceID s = [] then 0 else CapabilityLip)"
  "mf_Eye (merged_of s) = (if eyeSourceID s = [] then empty_eye else Eye (frame (source_at s (eyeSourceID s))))"
  "mf_Expressions (merged_of s) = (if expressionSourceID s = [] then empty_expressions
     else Expressions (frame (source_at s (expressionSourceID s))))"
  "EyeSourceID (merged_of s) = eyeSourceID s" "ExpressionSourceID (merged_of s) = expressionSourceID s"
  "LipSourceID (merged_of s) = lipSourceID s"
  "EyeUpdatedAtNS (merged_of s) = (if eyeSourceID s = [] then 0 else receivedAtNS (source_at s (eyeSourceID s)))"
  "ExpressionUpdatedAtNS (merged_of s) = (if expressionSourceID s = [] then 0 else receivedAtNS (source_at s (expressionSourceID s)))"
  "LipUpdatedAtNS (merged_of s) = (if lipSourceID s = [] then 0 else receivedAtNS (source_at s (lipSourceID s)))"
  by (simp_all add: merged_of_def Let_def or.assoc)

lemma bit_or_unknown: "(a OR b) AND NOT (k :: u32) = 0 \<longleftrightarrow> a AND NOT k = 0 \<and> b AND NOT k = 0"
  by (simp add: bit.conj_disj_distrib2 or_eq_0_iff)

lemma merged_of_content_ok:
  assumes s: "sources_ok s" and sel: "selection_ok s"
  shows "merged_content_ok (lastHostTimeNS s) (merged_of s) \<and> eye_canonical (mf_Eye (merged_of s)) \<and>
    exp_canonical (mf_Expressions (merged_of s))"
proof -
  let ?src = "source_at s"
  have eye: "source_ok (lastHostTimeNS s) (?src (eyeSourceID s)) \<and> eye_canonical (Eye (frame (?src (eyeSourceID s))))"
    if "eyeSourceID s \<noteq> []"
    using that sel source_at_ok [OF s] unfolding selection_ok_def
    by (auto simp: source_ok_def frame_canonical_parts)
  have expr: "source_ok (lastHostTimeNS s) (?src (expressionSourceID s)) \<and>
      exp_canonical (Expressions (frame (?src (expressionSourceID s))))"
    if "expressionSourceID s \<noteq> []"
    using that sel source_at_ok [OF s] unfolding selection_ok_def
    by (auto simp: source_ok_def frame_canonical_parts)
  have lip: "source_ok (lastHostTimeNS s) (?src (lipSourceID s))" if "lipSourceID s \<noteq> []"
    using that sel source_at_ok [OF s] unfolding selection_ok_def by auto
  have groups: "group_ok (mf_Capabilities (merged_of s)) CapabilityEye (EyeSourceID (merged_of s)) (EyeUpdatedAtNS (merged_of s)) (lastHostTimeNS s)"
    "group_ok (mf_Capabilities (merged_of s)) CapabilityExpression (ExpressionSourceID (merged_of s)) (ExpressionUpdatedAtNS (merged_of s)) (lastHostTimeNS s)"
    "group_ok (mf_Capabilities (merged_of s)) CapabilityLip (LipSourceID (merged_of s)) (LipUpdatedAtNS (merged_of s)) (lastHostTimeNS s)"
    using eye expr lip by (auto simp: group_ok_def merged_of_fields source_ok_def)
  have canon: "eye_canonical (mf_Eye (merged_of s))" "exp_canonical (mf_Expressions (merged_of s))"
    using eye expr by (simp_all add: merged_of_fields)
  have "frame_canonical \<lparr>Sequence = 0, TimestampNS = 0, Capabilities = mf_Capabilities (merged_of s), SourceClockNS = 0,
      Eye = mf_Eye (merged_of s), Expressions = mf_Expressions (merged_of s)\<rparr>"
    using canon by (auto simp: frame_canonical_parts merged_of_fields bit_or_unknown)
  with groups canon show ?thesis by (simp add: merged_content_ok_def)
qed

lemma refreshed_fields [simp]:
  "generation (refreshed s) = generation s" "routing (refreshed s) = routing s" "sources (refreshed s) = sources s"
  "eyeSourceID (refreshed s) = eyeSourceID (reselect s)" "expressionSourceID (refreshed s) = expressionSourceID (reselect s)"
  "lipSourceID (refreshed s) = lipSourceID (reselect s)" "hasLatest (refreshed s)"
  "now (refreshed s) = now s" "now_reads (refreshed s) = Suc (now_reads s)"
  "mergedSequence (refreshed s) = saturatingAdd (mergedSequence s) 1"
  "lastHostTimeNS (refreshed s) = max (now s (now_reads s)) (lastHostTimeNS s)"
  "acceptedFrames (refreshed s) = acceptedFrames s" "rejectedFrames (refreshed s) = rejectedFrames s"
  "rejected (refreshed s) = rejected s" "lastRejection (refreshed s) = lastRejection s"
  "summarySubscribers (refreshed s) = summarySubscribers s"
  "mergedSubscribers (refreshed s) = publish (latestMerged (refreshed s)) (mergedSubscribers s)"
  by (simp_all add: refreshed_def Let_def publishMerged_def)

lemma refreshed_latest:
  "latestMerged (refreshed s) = (merged_of (reselect s))\<lparr>mf_Sequence := saturatingAdd (mergedSequence s) 1,
     UpdatedAtNS := max (now s (now_reads s)) (lastHostTimeNS s)\<rparr>"
proof -
  have m: "merged_of (at_time t (r\<lparr>mergedSequence := n\<rparr>)) = merged_of r" for t n r
    by (rule merged_of_cong) simp_all
  show ?thesis by (simp add: refreshed_def Let_def m)
qed

lemma reselect_cong:
  assumes "routing t = routing s" "sources t = sources s" "eyeSourceID t = eyeSourceID s"
    "expressionSourceID t = expressionSourceID s" "lipSourceID t = lipSourceID s"
  shows "reselect t = t \<longleftrightarrow> reselect s = s"
  using assms unfolding reselect_same [symmetric] by (simp add: reselect_def)

lemma reselect_refreshed: "keys_ok (sources s) \<Longrightarrow> reselect (refreshed s) = refreshed s"
  using reselect_cong [of "refreshed s" "reselect s"] reselect_idem [of s] by simp

lemma sources_ok_cong:
  assumes "sources t = sources s" "generation t = generation s" "lastHostTimeNS s \<le> lastHostTimeNS t" "sources_ok s"
    and "now t = now s" "lastHostTimeNS t \<le> max_int64"
  shows "sources_ok t"
  using assms by (auto simp: sources_ok_def intro: source_ok_mono)

lemma refreshed_ok:
  assumes s: "sources_ok s" and g: "generation s \<noteq> 0"
  shows "sources_ok (refreshed s)" "latest_ok (refreshed s)"
proof -
  show so: "sources_ok (refreshed s)" using s by (intro sources_ok_cong [OF _ _ _ s]) (simp_all add: sources_ok_def)
  have keys: "keys_ok (sources s)" using s by (simp add: sources_ok_def)
  have r: "sources_ok (reselect s)" using s by (intro sources_ok_cong [OF _ _ _ s]) (simp_all add: sources_ok_def)
  note m = merged_of_content_ok [OF r reselect_selection_ok [OF keys]]
  let ?t = "max (now s (now_reads s)) (lastHostTimeNS s)"
  have "0 \<le> ?t" using s by (simp add: sources_ok_def le_max_iff_disj)
  have ok: "merged_content_ok ?t (merged_of (reselect s))"
    using m merged_content_ok_mono [of "lastHostTimeNS s" _ ?t] by simp
  then have "merged_ok ?t (latestMerged (refreshed s))"
    using g \<open>0 \<le> ?t\<close> saturatingAdd_1_ne_0
    by (simp add: merged_ok_def refreshed_latest merged_of_fields(1) merged_content_ok_def)
  moreover have "merged_of (refreshed s) = merged_of (reselect s)"
    by (rule merged_of_cong) simp_all
  moreover have "mergedContentEqual (merged_of (reselect s)) (latestMerged (refreshed s))"
    unfolding refreshed_latest using m mergedContentEqual_refl by blast
  ultimately show "latest_ok (refreshed s)"
    using g reselect_refreshed [OF keys] by (simp add: latest_ok_def refreshed_latest)
qed

definition merged_subs_ok :: "service \<Rightarrow> bool" where
  "merged_subs_ok s \<longleftrightarrow> (\<forall>(ch, buf) \<in> set (mergedSubscribers s). buf \<noteq> None \<longrightarrow> hasLatest s \<and> buf = Some (latestMerged s))"

lemma publish_all: "(ch, buf) \<in> set (publish v subs) \<Longrightarrow> buf = Some v"
  by (auto simp: publish_def)

lemma latest_ok_cong:
  assumes "routing t = routing s" "sources t = sources s" "eyeSourceID t = eyeSourceID s"
    "expressionSourceID t = expressionSourceID s" "lipSourceID t = lipSourceID s" "generation t = generation s"
    "hasLatest t = hasLatest s" "latestMerged t = latestMerged s" "mergedSequence t = mergedSequence s"
    "lastHostTimeNS t = lastHostTimeNS s"
  shows "latest_ok t = latest_ok s"
  using assms merged_of_cong [of t s] reselect_cong [of t s] by (simp add: latest_ok_def)

lemma publishSummary_wf [wf_intros]:
  assumes "sources_ok s" "latest_ok s" "merged_subs_ok s"
  shows "tracking_wf (publishSummary s)"
proof -
  have "sources_ok (publishSummary s)" using assms(1) by (intro sources_ok_cong [OF _ _ _ assms(1)]) (simp_all add: sources_ok_def)
  moreover have "latest_ok (publishSummary s)" using assms(2) latest_ok_cong [of "publishSummary s" s] by simp
  moreover have "currentSummary (publishSummary s) = currentSummary s"
    by (simp add: currentSummary_def sourceHasCapability_def)
  moreover have "summarySubscribers (publishSummary s) = publish (currentSummary s) (summarySubscribers s)"
    by (simp add: publishSummary_def)
  moreover have "\<forall>(ch, buf) \<in> set (publish (currentSummary s) (summarySubscribers s)).
      buf \<noteq> None \<longrightarrow> buf = Some (currentSummary s)"
    using publish_all by fastforce
  ultimately show ?thesis
    using assms(3) by (simp add: tracking_wf_def subscribers_ok_def merged_subs_ok_def)
qed

lemma wf_parts:
  "tracking_wf s \<Longrightarrow> sources_ok s" "tracking_wf s \<Longrightarrow> latest_ok s" "tracking_wf s \<Longrightarrow> merged_subs_ok s"
  by (auto simp: tracking_wf_def subscribers_ok_def merged_subs_ok_def)

lemma refreshed_subs: "merged_subs_ok (refreshed s)"
  by (auto simp: merged_subs_ok_def dest: publish_all)

lemma recompute_ok:
  assumes "sources_ok s" "generation s \<noteq> 0" "hasLatest s \<Longrightarrow> merged_ok (lastHostTimeNS s) (latestMerged s) \<and>
      mf_Sequence (latestMerged s) = mergedSequence s" "merged_subs_ok s"
  shows "sources_ok (recompute_and_publish s force)" "latest_ok (recompute_and_publish s force)"
    "merged_subs_ok (recompute_and_publish s force)"
  using assms refreshed_ok [OF assms(1,2)] refreshed_subs [of s]
  by (auto simp: recompute_and_publish_cases latest_ok_def)

lemma new_wf: "\<forall>n. is_i64 (clk n) \<Longrightarrow> tracking_wf (newServiceWithClock clk)"
  by (auto simp: tracking_wf_def sources_ok_def latest_ok_def subscribers_ok_def newServiceWithClock_def keys_ok_def
      reselect_def defaultRouting_def resolveSource_def chooseAutoSource_def Let_def is_i64_def max_int64_def)

lemma reject_wf:
  assumes "tracking_wf s"
  shows "tracking_wf (snd (reject s p g r e))"
proof -
  have "tracking_wf (publishSummary (s\<lparr>rejectedFrames := a, rejected := b, lastRejection := c\<rparr>))" for a b c
  proof (rule publishSummary_wf)
    show "sources_ok (s\<lparr>rejectedFrames := a, rejected := b, lastRejection := c\<rparr>)"
      using wf_parts(1) [OF assms] by (simp add: sources_ok_def)
    show "latest_ok (s\<lparr>rejectedFrames := a, rejected := b, lastRejection := c\<rparr>)"
      using wf_parts(2) [OF assms] by (subst latest_ok_cong [of _ s]) simp_all
    show "merged_subs_ok (s\<lparr>rejectedFrames := a, rejected := b, lastRejection := c\<rparr>)"
      using wf_parts(3) [OF assms] by (simp add: merged_subs_ok_def)
  qed
  then show ?thesis by (simp add: reject_def)
qed

definition new_generation :: "u64 \<Rightarrow> service \<Rightarrow> service" where
  "new_generation gen s = s\<lparr>generation := gen, sources := [], eyeSourceID := [], expressionSourceID := [], lipSourceID := []\<rparr>"

lemma SetGeneration_refreshed:
  assumes "generation s < gen"
  shows "SetGeneration gen s = (Inr (), publishSummary (refreshed (new_generation gen s)))"
proof -
  have r: "reselect (new_generation gen s) = new_generation gen s"
    by (simp add: reselect_def new_generation_def resolveSource_def chooseAutoSource_def)
  have m: "merged_of (at_time t ((new_generation gen s)\<lparr>mergedSequence := q\<rparr>)) = empty_merged\<lparr>Generation := gen\<rparr>" for t q
    by (simp add: merged_of_def new_generation_def at_time_def empty_merged_def)
  have "gen \<noteq> 0" "gen \<noteq> generation s" "\<not> gen < generation s" using assms by auto
  then show ?thesis
    by (simp add: SetGeneration_def refreshed_def r Let_def nextTime_eq advanceMergedSequence_eq m
        flip: new_generation_def)
qed

lemma SetGeneration_wf:
  assumes "tracking_wf s"
  shows "tracking_wf (snd (SetGeneration gen s))"
proof (cases "generation s < gen")
  case True
  have "sources_ok (new_generation gen s)"
    using wf_parts(1) [OF assms] by (simp add: new_generation_def sources_ok_def keys_ok_def)
  moreover have "generation (new_generation gen s) \<noteq> 0" using True by (auto simp: new_generation_def)
  ultimately show ?thesis
    using refreshed_ok refreshed_subs by (auto simp: SetGeneration_refreshed [OF True] intro: publishSummary_wf)
next
  case False
  then show ?thesis using assms by (auto simp: SetGeneration_def)
qed

text \<open>The state an accepted frame leaves before the summary is published.\<close>

definition store_source :: "string \<Rightarrow> tracking_frame \<Rightarrow> service \<Rightarrow> service" where
  "store_source p canon s = (let previous = source_at s p in
     (at_time (receipt_time s) s)\<lparr>sources := AList.update p \<lparr>frame = canon, receivedAtNS = receipt_time s,
       lastSequence = Sequence canon,
       lastTimestampNS = (if TimestampNS canon \<noteq> 0 then TimestampNS canon else lastTimestampNS previous),
       lastSourceClockNS = (if SourceClockNS canon \<noteq> 0 then SourceClockNS canon else lastSourceClockNS previous)\<rparr> (sources s)\<rparr>)"

definition selected :: "string \<Rightarrow> service \<Rightarrow> bool" where
  "selected p s \<longleftrightarrow> p = eyeSourceID s \<or> p = expressionSourceID s \<or> p = lipSourceID s"

definition accepted :: "string \<Rightarrow> tracking_frame \<Rightarrow> service \<Rightarrow> service" where
  "accepted p canon s = (let t = recompute_and_publish (store_source p canon s) (selected p s) in
     publishSummary (t\<lparr>acceptedFrames := saturatingAdd (acceptedFrames t) 1\<rparr>))"

definition acceptable :: "string \<Rightarrow> u64 \<Rightarrow> tracking_frame \<Rightarrow> service \<Rightarrow> bool" where
  "acceptable p gen f s \<longleftrightarrow> p \<noteq> [] \<and> generation s \<noteq> 0 \<and> gen = generation s \<and> frame_ok f \<and>
     0 \<le> TimestampNS f \<and> 0 \<le> SourceClockNS f \<and> lastHostTimeNS s \<noteq> max_int64 \<and>
     (case map_of (sources s) p of None \<Rightarrow> True
      | Some prev \<Rightarrow> lastSequence prev < Sequence f \<and>
          (TimestampNS f = 0 \<or> lastTimestampNS prev \<le> TimestampNS f) \<and>
          (SourceClockNS f = 0 \<or> lastSourceClockNS prev \<le> SourceClockNS f))"

lemma Submit_accepts:
  assumes "sources_ok s" "acceptable p gen f s"
  shows "Submit p gen f s = (Inr (), accepted p (canonical f) s)"
proof -
  have c: "canonicalize f = Inr (canonical f)" using assms(2) by (simp add: canonicalize_eq acceptable_def)
  have guards: "p \<noteq> []" "generation s \<noteq> 0" "gen = generation s" "\<not> (TimestampNS f < 0 \<or> SourceClockNS f < 0)"
    "lastHostTimeNS s \<noteq> max_int64"
    using assms(2) by (auto simp: acceptable_def)
  have prev: "\<not> (map_of (sources s) p \<noteq> None \<and> Sequence f \<le> lastSequence (source_at s p))"
    "\<not> (map_of (sources s) p \<noteq> None \<and> TimestampNS f \<noteq> 0 \<and> lastTimestampNS (source_at s p) \<noteq> 0 \<and>
       TimestampNS f < lastTimestampNS (source_at s p))"
    "\<not> (map_of (sources s) p \<noteq> None \<and> SourceClockNS f \<noteq> 0 \<and> lastSourceClockNS (source_at s p) \<noteq> 0 \<and>
       SourceClockNS f < lastSourceClockNS (source_at s p))"
    using assms(2) by (auto simp: acceptable_def source_at_def split: option.splits)
  have "Submit p gen f s = (let (received, s1) = nextReceiptTime s;
      s2 = s1\<lparr>sources := AList.update p \<lparr>frame = canonical f, receivedAtNS = received, lastSequence = Sequence f,
        lastTimestampNS = (if TimestampNS f \<noteq> 0 then TimestampNS f else lastTimestampNS (source_at s p)),
        lastSourceClockNS = (if SourceClockNS f \<noteq> 0 then SourceClockNS f else lastSourceClockNS (source_at s p))\<rparr>
        (sources s1)\<rparr>;
      s3 = recompute_and_publish s2 (selected p s)
      in (Inr (), publishSummary (s3\<lparr>acceptedFrames := saturatingAdd (acceptedFrames s3) 1\<rparr>)))"
    unfolding Submit_def c Let_def selected_def canonical_meta sum.case
    by (simp only: guards prev if_False simp_thms order.irrefl)
  then show ?thesis by (simp add: nextReceiptTime_eq accepted_def store_source_def Let_def)
qed

definition rejects :: "service \<Rightarrow> string \<Rightarrow> u64 \<Rightarrow> (tracking_error, unit) result \<times> service \<Rightarrow> bool" where
  "rejects s p gen t \<longleftrightarrow> (\<exists>r e. r \<noteq> RejectionNone \<and> t = reject s p gen r e)"

lemma rejects_if:
  "r \<noteq> RejectionNone \<Longrightarrow> (\<not> b \<Longrightarrow> rejects s p gen t) \<Longrightarrow> rejects s p gen (if b then reject s p gen r e else t)"
  by (auto simp: rejects_def)

lemma Submit_rejects:
  assumes s: "sources_ok s" and n: "\<not> acceptable p gen f s"
  shows "rejects s p gen (Submit p gen f s)"
proof (cases "canonicalize f")
  case (Inl e)
  have "rejects s p gen (reject s p gen RejectionInvalidFrame ErrInvalidFrame)" by (auto simp: rejects_def)
  then show ?thesis unfolding Submit_def Inl sum.case by (intro rejects_if) simp_all
next
  case (Inr c)
  then have c: "frame_ok f" "c = canonical f" by (simp_all add: canonicalize_eq)
  have prev: "0 \<le> lastTimestampNS (source_at s p) \<and> 0 \<le> lastSourceClockNS (source_at s p)"
    using s by (auto simp: source_at_def zero_source_def sources_ok_def source_ok_def split: option.splits
        dest!: map_of_SomeD)
  have "acceptable p gen f s"
    if "p \<noteq> []" "generation s \<noteq> 0" "\<not> gen < generation s" "\<not> generation s < gen"
      "\<not> (map_of (sources s) p \<noteq> None \<and> Sequence f \<le> lastSequence (source_at s p))"
      "\<not> (TimestampNS f < 0 \<or> SourceClockNS f < 0)"
      "\<not> (map_of (sources s) p \<noteq> None \<and> TimestampNS f \<noteq> 0 \<and> lastTimestampNS (source_at s p) \<noteq> 0 \<and>
         TimestampNS f < lastTimestampNS (source_at s p))"
      "\<not> (map_of (sources s) p \<noteq> None \<and> SourceClockNS f \<noteq> 0 \<and> lastSourceClockNS (source_at s p) \<noteq> 0 \<and>
         SourceClockNS f < lastSourceClockNS (source_at s p))"
      "lastHostTimeNS s \<noteq> max_int64"
    using that c(1) prev by (auto simp: acceptable_def source_at_def not_le not_less split: option.splits)
  with n show ?thesis
    unfolding Submit_def Inr sum.case Let_def c(2) canonical_meta
    by (intro rejects_if rejection_reason.distinct [symmetric] rejection_reason.distinct) (simp_all only: not_False_eq_True simp_thms)
qed

lemma update_set:
  assumes "keys_ok srcs" "p \<noteq> []"
  shows "keys_ok (AList.update p v srcs)"
    and "(q, src) \<in> set (AList.update p v srcs) \<Longrightarrow> (q = p \<and> src = v) \<or> (q, src) \<in> set srcs"
proof -
  have d: "distinct (map fst srcs)" "distinct (map fst (AList.update p v srcs))"
    using assms by (simp_all add: keys_ok_def AList.distinct_update)
  show "keys_ok (AList.update p v srcs)"
    using assms unfolding keys_ok_def AList.update_keys by auto
  assume "(q, src) \<in> set (AList.update p v srcs)"
  then have "map_of (AList.update p v srcs) q = Some src" using d(2) by simp
  then show "(q = p \<and> src = v) \<or> (q, src) \<in> set srcs"
    using map_of_SomeD [of srcs q src] by (cases "q = p") (simp_all add: AList.update_conv)
qed

lemma store_source_ok:
  assumes s: "sources_ok s" and a: "acceptable p gen f s"
  shows "sources_ok (store_source p (canonical f) s)"
proof -
  have t: "lastHostTimeNS s < receipt_time s \<and> receipt_time s \<le> max_int64"
    using s a by (intro receipt_time_bounds) (simp_all add: sources_ok_def acceptable_def)
  have prev: "0 \<le> lastTimestampNS (source_at s p) \<and> 0 \<le> lastSourceClockNS (source_at s p)"
    using s by (auto simp: source_at_def zero_source_def sources_ok_def source_ok_def split: option.splits
        dest!: map_of_SomeD)
  have keys: "keys_ok (sources s)" "p \<noteq> []" using s a by (simp_all add: sources_ok_def acceptable_def)
  have canon: "frame_canonical (canonical f)"
    using a canonicalize_canonical [of f] by (simp add: canonicalize_eq acceptable_def)
  have old: "source_ok (receipt_time s) src" if "(q, src) \<in> set (sources s)" for q src
    using that s t by (auto simp: sources_ok_def intro: source_ok_mono)
  have "0 < receipt_time s" using t s by (auto simp: sources_ok_def)
  then have "source_ok (receipt_time s) src" if "(q, src) \<in> set (sources (store_source p (canonical f) s))" for q src
    using update_set(2) [OF keys] that old a prev canon
    by (fastforce simp: store_source_def Let_def source_ok_def acceptable_def)
  moreover have "keys_ok (sources (store_source p (canonical f) s))"
    using update_set(1) [OF keys] by (simp add: store_source_def Let_def)
  ultimately show ?thesis
    using s t a by (auto simp: sources_ok_def store_source_def Let_def acceptable_def)
qed

lemma store_source_fields [simp]:
  "generation (store_source p f s) = generation s" "latestMerged (store_source p f s) = latestMerged s"
  "hasLatest (store_source p f s) = hasLatest s" "mergedSequence (store_source p f s) = mergedSequence s"
  "mergedSubscribers (store_source p f s) = mergedSubscribers s" "routing (store_source p f s) = routing s"
  "lastHostTimeNS (store_source p f s) = receipt_time s" "acceptedFrames (store_source p f s) = acceptedFrames s"
  by (simp_all add: store_source_def Let_def)

lemma accepted_wf:
  assumes wf: "tracking_wf s" and a: "acceptable p gen f s"
  shows "tracking_wf (accepted p (canonical f) s)"
proof -
  let ?s = "store_source p (canonical f) s"
  let ?t = "recompute_and_publish ?s (selected p s)"
  have t: "lastHostTimeNS s \<le> receipt_time s"
    using wf_parts(1) [OF wf] a receipt_time_bounds [of s] by (auto simp: sources_ok_def acceptable_def)
  have so: "sources_ok ?s" using store_source_ok [OF wf_parts(1) [OF wf] a] .
  have g: "generation ?s \<noteq> 0" using a by (simp add: acceptable_def)
  have l: "hasLatest ?s \<Longrightarrow> merged_ok (lastHostTimeNS ?s) (latestMerged ?s) \<and> mf_Sequence (latestMerged ?s) = mergedSequence ?s"
    using wf_parts(2) [OF wf] t by (auto simp: latest_ok_def intro: merged_ok_mono)
  have m: "merged_subs_ok ?s" using wf_parts(3) [OF wf] by (simp add: merged_subs_ok_def)
  note ok = recompute_ok [OF so g l m, of "selected p s"]
  have "tracking_wf (publishSummary (?t\<lparr>acceptedFrames := n\<rparr>))" for n
  proof (rule publishSummary_wf)
    show "sources_ok (?t\<lparr>acceptedFrames := n\<rparr>)" using ok(1) by (simp add: sources_ok_def)
    show "latest_ok (?t\<lparr>acceptedFrames := n\<rparr>)" using ok(2) by (subst latest_ok_cong [of _ ?t]) simp_all
    show "merged_subs_ok (?t\<lparr>acceptedFrames := n\<rparr>)" using ok(3) by (simp add: merged_subs_ok_def)
  qed
  then show ?thesis by (simp add: accepted_def Let_def)
qed

lemma Submit_wf:
  assumes "tracking_wf s"
  shows "tracking_wf (snd (Submit p gen f s))"
proof (cases "acceptable p gen f s")
  case True
  then show ?thesis using assms accepted_wf Submit_accepts wf_parts(1) by fastforce
next
  case False
  then show ?thesis
    using reject_wf [OF assms] Submit_rejects [OF wf_parts(1) [OF assms] False] by (auto simp: rejects_def)
qed

lemma RemoveSource_wf:
  assumes wf: "tracking_wf s"
  shows "tracking_wf (RemoveSource p s)"
proof (cases "p = [] \<or> map_of (sources s) p = None")
  case True
  then show ?thesis using wf by (simp add: RemoveSource_def)
next
  case False
  let ?s = "s\<lparr>sources := AList.delete p (sources s)\<rparr>"
  have s: "sources_ok s" using wf_parts(1) [OF wf] .
  have "set (AList.delete p (sources s)) \<subseteq> set (sources s)" by (simp add: AList.delete_eq)
  moreover have "keys_ok (AList.delete p (sources s))"
    using s by (auto simp: sources_ok_def keys_ok_def delete_keys distinct_removeAll)
  ultimately have so: "sources_ok ?s" using s by (auto simp: sources_ok_def AList.delete_eq)
  have g: "generation ?s \<noteq> 0" using s False by (auto simp: sources_ok_def)
  have l: "hasLatest ?s \<Longrightarrow> merged_ok (lastHostTimeNS ?s) (latestMerged ?s) \<and> mf_Sequence (latestMerged ?s) = mergedSequence ?s"
    using wf_parts(2) [OF wf] by (simp add: latest_ok_def)
  have m: "merged_subs_ok ?s" using wf_parts(3) [OF wf] by (simp add: merged_subs_ok_def)
  have "RemoveSource p s = publishSummary (recompute_and_publish ?s False)" using False by (auto simp: RemoveSource_def)
  then show ?thesis using recompute_ok [OF so g l m] by (simp add: publishSummary_wf)
qed

lemma SetRouting_wf:
  assumes wf: "tracking_wf s"
  shows "tracking_wf (snd (SetRouting config s))"
proof (cases "is_ok (routing_validate config) \<and> config \<noteq> routing s")
  case False
  then show ?thesis using wf by (cases "routing_validate config") (simp_all add: SetRouting_def)
next
  case True
  let ?s = "s\<lparr>routing := config\<rparr>"
  have so: "sources_ok ?s" using wf_parts(1) [OF wf] by (simp add: sources_ok_def)
  have l: "hasLatest ?s \<Longrightarrow> merged_ok (lastHostTimeNS ?s) (latestMerged ?s) \<and> mf_Sequence (latestMerged ?s) = mergedSequence ?s"
    using wf_parts(2) [OF wf] by (simp add: latest_ok_def)
  have m: "merged_subs_ok ?s" using wf_parts(3) [OF wf] by (simp add: merged_subs_ok_def)
  show ?thesis
  proof (cases "generation s = 0")
    case False
    then show ?thesis using True recompute_ok [OF so _ l m]
      by (auto simp: SetRouting_def is_ok_iff publishSummary_wf)
  next
    case zero: True
    have src: "sources s = []" using so zero by (simp add: sources_ok_def)
    have "eyeSourceID s = [] \<and> expressionSourceID s = [] \<and> lipSourceID s = []"
      using wf_parts(2) [OF wf] unfolding latest_ok_def reselect_same [symmetric]
      by (simp add: reselect_def src resolveSource_def chooseAutoSource_def split: if_splits)
    then have "latest_ok ?s"
      using wf_parts(2) [OF wf] zero unfolding latest_ok_def reselect_same [symmetric]
      by (simp add: reselect_def src resolveSource_def chooseAutoSource_def)
    then show ?thesis using True zero so m by (auto simp: SetRouting_def is_ok_iff publishSummary_wf)
  qed
qed

lemma set_update_subset: "(q, x) \<in> set (AList.update p v al) \<Longrightarrow> (q = p \<and> x = v) \<or> (q, x) \<in> set al"
  by (induction al) (auto split: if_splits)

lemma subscriptions_wf:
  assumes wf: "tracking_wf s"
  shows "tracking_wf (SubscribeMerged c ch s)" "tracking_wf (SubscribeSummary c ch s)"
    "tracking_wf (CancelMerged ch s)" "tracking_wf (CancelSummary ch s)"
    "tracking_wf (snd (ReceiveMerged ch s))" "tracking_wf (snd (ReceiveSummary ch s))"
proof -
  have gen: "tracking_wf (s\<lparr>mergedSubscribers := m, summarySubscribers := n\<rparr>)"
    if "\<forall>(ch, buf) \<in> set m. buf \<noteq> None \<longrightarrow> hasLatest s \<and> buf = Some (latestMerged s)"
      "\<forall>(ch, buf) \<in> set n. buf \<noteq> None \<longrightarrow> buf = Some (currentSummary s)" for m n
  proof -
    have "currentSummary (s\<lparr>mergedSubscribers := m, summarySubscribers := n\<rparr>) = currentSummary s"
      by (simp add: currentSummary_def sourceHasCapability_def)
    moreover have "latest_ok (s\<lparr>mergedSubscribers := m, summarySubscribers := n\<rparr>)"
      using wf_parts(2) [OF wf] by (subst latest_ok_cong [of _ s]) simp_all
    ultimately show ?thesis
      using that wf_parts(1) [OF wf] by (simp add: tracking_wf_def subscribers_ok_def sources_ok_def)
  qed
  have subs: "\<forall>(ch, buf) \<in> set (mergedSubscribers s). buf \<noteq> None \<longrightarrow> hasLatest s \<and> buf = Some (latestMerged s)"
    "\<forall>(ch, buf) \<in> set (summarySubscribers s). buf \<noteq> None \<longrightarrow> buf = Some (currentSummary s)"
    using wf by (simp_all add: tracking_wf_def subscribers_ok_def)
  have up: "\<forall>(ch, buf) \<in> set (AList.update p v m). P buf"
    if "\<forall>(ch, buf) \<in> set m. P buf" "P v" for p :: nat and v :: "'b option" and m P
    using that set_update_subset [of _ _ p v m] by blast
  have del: "\<forall>(ch, buf) \<in> set (AList.delete p m). P buf"
    if "\<forall>(ch, buf) \<in> set m. P buf" for p :: nat and m :: "(nat \<times> 'b option) list" and P
    using that by (auto simp: AList.delete_eq)
  show "tracking_wf (SubscribeMerged c ch s)"
    using gen [OF up [OF subs(1)] subs(2), of "if hasLatest s then Some (latestMerged s) else None" ch] wf
    by (cases "hasLatest s") (simp_all add: SubscribeMerged_def)
  show "tracking_wf (SubscribeSummary c ch s)"
    using gen [OF subs(1) up [OF subs(2)], of "Some (currentSummary s)" ch] wf
    by (simp add: SubscribeSummary_def)
  show "tracking_wf (CancelMerged ch s)" "tracking_wf (CancelSummary ch s)"
    using gen [OF del [OF subs(1)] subs(2), of ch] gen [OF subs(1) del [OF subs(2)], of ch]
    by (simp_all add: CancelMerged_def CancelSummary_def)
  show "tracking_wf (snd (ReceiveMerged ch s))"
    using gen [OF up [OF subs(1)] subs(2), of None ch] wf
    by (simp add: ReceiveMerged_def try_recv_def split: option.split)
  show "tracking_wf (snd (ReceiveSummary ch s))"
    using gen [OF subs(1) up [OF subs(2)], of None ch] wf
    by (simp add: ReceiveSummary_def try_recv_def split: option.split)
qed

section \<open>Runs of the service\<close>

text \<open>One call into the service, by any of its clients; the mutex makes the calls atomic.\<close>

inductive tracking_step :: "service \<Rightarrow> service \<Rightarrow> bool" where
  step_SetGeneration: "tracking_step s (snd (SetGeneration gen s))"
| step_Submit: "tracking_step s (snd (Submit p gen f s))"
| step_SetRouting: "tracking_step s (snd (SetRouting config s))"
| step_RemoveSource: "tracking_step s (RemoveSource p s)"
| step_SubscribeMerged: "tracking_step s (SubscribeMerged c ch s)"
| step_SubscribeSummary: "tracking_step s (SubscribeSummary c ch s)"
| step_CancelMerged: "tracking_step s (CancelMerged ch s)"
| step_CancelSummary: "tracking_step s (CancelSummary ch s)"
| step_ReceiveMerged: "tracking_step s (snd (ReceiveMerged ch s))"
| step_ReceiveSummary: "tracking_step s (snd (ReceiveSummary ch s))"

inductive_cases tracking_stepE: "tracking_step s s'"

inductive tracking_run :: "service \<Rightarrow> service \<Rightarrow> bool" where
  run_start: "tracking_run s s"
| run_step: "tracking_run s s' \<Longrightarrow> tracking_step s' s'' \<Longrightarrow> tracking_run s s''"

lemma tracking_step_wf: "tracking_step s s' \<Longrightarrow> tracking_wf s \<Longrightarrow> tracking_wf s'"
  by (auto elim!: tracking_stepE simp: SetGeneration_wf Submit_wf SetRouting_wf RemoveSource_wf subscriptions_wf)

lemma tracking_run_wf: "tracking_run s s' \<Longrightarrow> tracking_wf s \<Longrightarrow> tracking_wf s'"
  by (induction rule: tracking_run.induct) (auto intro: tracking_step_wf)

text \<open>What a later state may differ in.\<close>

definition received_later :: "service \<Rightarrow> service \<Rightarrow> bool" where
  "received_later s s' \<longleftrightarrow> (\<forall>p src'. map_of (sources s') p = Some src' \<longrightarrow>
     lastHostTimeNS s < receivedAtNS src' \<or>
     (\<exists>src. map_of (sources s) p = Some src \<and> receivedAtNS src = receivedAtNS src'))"

definition latest_later :: "service \<Rightarrow> service \<Rightarrow> bool" where
  "latest_later s s' \<longleftrightarrow> (latestMerged s' = latestMerged s \<and> hasLatest s' = hasLatest s) \<or>
     (hasLatest s' \<and> (mergedSequence s < mergedSequence s' \<or> mergedSequence s = max_u64) \<and>
      lastHostTimeNS s \<le> UpdatedAtNS (latestMerged s'))"

definition advances :: "service \<Rightarrow> service \<Rightarrow> bool" where
  "advances s s' \<longleftrightarrow> generation s \<le> generation s' \<and> mergedSequence s \<le> mergedSequence s' \<and>
     lastHostTimeNS s \<le> lastHostTimeNS s' \<and> received_later s s' \<and> latest_later s s'"

lemma received_laterD:
  "received_later s s' \<Longrightarrow> map_of (sources s') p = Some src' \<Longrightarrow> lastHostTimeNS s < receivedAtNS src' \<or>
     (\<exists>src. map_of (sources s) p = Some src \<and> receivedAtNS src = receivedAtNS src')"
  by (simp add: received_later_def)

lemma received_later_refl [simp]: "sources s' = sources s \<Longrightarrow> received_later s s'"
  by (simp add: received_later_def)

lemma latest_later_refl [simp]:
  "latestMerged s' = latestMerged s \<Longrightarrow> hasLatest s' = hasLatest s \<Longrightarrow> latest_later s s'"
  by (simp add: latest_later_def)

lemma advances_refl [simp]: "advances s s"
  by (simp add: advances_def)

lemma advances_trans:
  assumes "advances s t" "advances t u"
  shows "advances s u"
proof -
  have "received_later s u"
    unfolding received_later_def
  proof (intro allI impI)
    fix p src' assume "map_of (sources u) p = Some src'"
    with assms have "lastHostTimeNS t < receivedAtNS src' \<or>
        (\<exists>src. map_of (sources t) p = Some src \<and> receivedAtNS src = receivedAtNS src')"
      by (simp add: advances_def received_later_def)
    then show "lastHostTimeNS s < receivedAtNS src' \<or>
        (\<exists>src. map_of (sources s) p = Some src \<and> receivedAtNS src = receivedAtNS src')"
    proof
      assume "lastHostTimeNS t < receivedAtNS src'"
      then show ?thesis using assms(1) by (simp add: advances_def)
    next
      assume "\<exists>src. map_of (sources t) p = Some src \<and> receivedAtNS src = receivedAtNS src'"
      then show ?thesis using assms(1) received_laterD [of s t p] by (fastforce simp: advances_def)
    qed
  qed
  moreover have "latest_later s u"
  proof (cases "latestMerged u = latestMerged t \<and> hasLatest u = hasLatest t")
    case True
    then show ?thesis using assms unfolding advances_def latest_later_def by auto
  next
    case False
    then have u: "hasLatest u" "mergedSequence t < mergedSequence u \<or> mergedSequence t = max_u64"
      "lastHostTimeNS t \<le> UpdatedAtNS (latestMerged u)"
      using assms(2) unfolding advances_def latest_later_def by blast+
    have le: "mergedSequence s \<le> mergedSequence t" "lastHostTimeNS s \<le> lastHostTimeNS t"
      "mergedSequence t \<le> mergedSequence u" using assms by (simp_all add: advances_def)
    have "mergedSequence s < mergedSequence u \<or> mergedSequence s = max_u64"
    proof (cases "mergedSequence t = max_u64")
      case True
      then have "mergedSequence u = max_u64" using le(3) le_max_u64 [of "mergedSequence u"] by simp
      then show ?thesis using less_max_u64_iff [of "mergedSequence s"] by auto
    next
      case False
      then show ?thesis using u(2) le(1) by auto
    qed
    then show ?thesis using u le by (simp add: latest_later_def)
  qed
  ultimately show ?thesis using assms by (auto simp: advances_def)
qed

lemma advances_publishSummary [simp]: "advances s (publishSummary t) = advances s t"
  by (simp add: advances_def received_later_def latest_later_def)

lemma advances_refreshed: "advances s (refreshed s)"
proof -
  have "mergedSequence s < saturatingAdd (mergedSequence s) 1 \<or> mergedSequence s = max_u64"
    using saturatingAdd_1_ge(2) by blast
  then show ?thesis
    using saturatingAdd_1_ge(1) by (simp add: advances_def latest_later_def refreshed_latest)
qed

lemma advances_recompute: "advances s (recompute_and_publish s force)"
  by (simp add: recompute_and_publish_cases advances_refreshed)

lemma advances_fewer_sources:
  assumes "map_of (sources t) \<subseteq>\<^sub>m map_of (sources s)" "generation s \<le> generation t" "mergedSequence t = mergedSequence s"
    "lastHostTimeNS t = lastHostTimeNS s" "latestMerged t = latestMerged s" "hasLatest t = hasLatest s"
  shows "advances s t"
proof -
  have "received_later s t"
    using assms(1) by (force simp: received_later_def map_le_def dom_def)
  then show ?thesis using assms by (simp add: advances_def)
qed

lemma advances_store_source:
  assumes s: "sources_ok s" and a: "acceptable p gen f s"
  shows "advances s (store_source p (canonical f) s)"
proof -
  have t: "lastHostTimeNS s < receipt_time s"
    using s a receipt_time_bounds [of s] by (auto simp: sources_ok_def acceptable_def)
  then have "received_later s (store_source p (canonical f) s)"
    by (auto simp: received_later_def store_source_def Let_def update_conv' split: if_splits)
  then show ?thesis using t by (simp add: advances_def)
qed

lemma Submit_advances:
  assumes "sources_ok s"
  shows "advances s (snd (Submit p gen f s))"
proof (cases "acceptable p gen f s")
  case True
  let ?t = "recompute_and_publish (store_source p (canonical f) s) (selected p s)"
  have "advances s ?t"
    using advances_trans [OF advances_store_source [OF assms True] advances_recompute] .
  then have "advances s (?t\<lparr>acceptedFrames := n\<rparr>)" for n
    by (simp add: advances_def received_later_def latest_later_def)
  then show ?thesis using True assms by (simp add: Submit_accepts accepted_def Let_def)
next
  case False
  from Submit_rejects [OF assms this] show ?thesis
    by (auto simp: rejects_def reject_def intro!: advances_fewer_sources)
qed

lemma tracking_step_advances:
  assumes "tracking_step s s'" and wf: "tracking_wf s"
  shows "advances s s'"
  using assms(1)
proof (cases rule: tracking_step.cases)
  case (step_SetGeneration gen)
  show ?thesis
  proof (cases "generation s < gen")
    case True
    have "advances s (new_generation gen s)"
      using True by (intro advances_fewer_sources) (simp_all add: new_generation_def)
    from advances_trans [OF this advances_refreshed] show ?thesis
      by (simp add: step_SetGeneration SetGeneration_refreshed [OF True])
  next
    case False
    then show ?thesis by (simp add: step_SetGeneration SetGeneration_def)
  qed
next
  case (step_Submit p gen f)
  then show ?thesis using Submit_advances [OF wf_parts(1) [OF wf]] by simp
next
  case (step_SetRouting config)
  have "advances s (s\<lparr>routing := config\<rparr>)" by (intro advances_fewer_sources) simp_all
  with advances_trans [OF this advances_recompute] show ?thesis
    by (cases "routing_validate config") (simp_all add: step_SetRouting SetRouting_def Let_def)
next
  case (step_RemoveSource p)
  have "advances s (s\<lparr>sources := AList.delete p (sources s)\<rparr>)"
    by (intro advances_fewer_sources) (simp_all add: delete_conv' map_le_def)
  from advances_trans [OF this advances_recompute] show ?thesis
    by (simp add: step_RemoveSource RemoveSource_def)
qed (auto simp: SubscribeMerged_def SubscribeSummary_def CancelMerged_def CancelSummary_def ReceiveMerged_def
    ReceiveSummary_def split: option.split intro!: advances_fewer_sources)

lemma tracking_run_advances: "tracking_run s s' \<Longrightarrow> tracking_wf s \<Longrightarrow> advances s s'"
proof (induction rule: tracking_run.induct)
  case (run_step s s' s'')
  then show ?case
    using advances_trans tracking_step_advances tracking_run_wf by blast
qed simp

section \<open>Properties\<close>

lemma reachable_wf: "\<forall>n. is_i64 (clk n) \<Longrightarrow> tracking_run (newServiceWithClock clk) s \<Longrightarrow> tracking_wf s"
  using tracking_run_wf new_wf by blast

text \<open>A run used by the witnesses: generation 7, then one frame of plugin p with eye data.\<close>

definition sample_clock :: "nat \<Rightarrow> int" where "sample_clock n = 100"

definition eye_frame :: tracking_frame where
  "eye_frame = \<lparr>Sequence = 1, TimestampNS = 5, Capabilities = CapabilityEye, SourceClockNS = 0,
     Eye = empty_eye\<lparr>eye_Valid := 4, LeftOpenness := one32\<rparr>, Expressions = empty_expressions\<rparr>"

definition sample_service :: service where
  "sample_service = snd (SetGeneration 7 (SubscribeMerged False 0 (newServiceWithClock sample_clock)))"

lemma sample_clock_ok: "\<forall>n. is_i64 (sample_clock n)"
  by (simp add: sample_clock_def is_i64_def max_int64_def)

lemma sample_run: "tracking_run (newServiceWithClock sample_clock) sample_service"
  unfolding sample_service_def by (rule run_step [OF run_step [OF run_start step_SubscribeMerged] step_SetGeneration])

lemma sample_run_submit: "tracking_run (newServiceWithClock sample_clock) (snd (Submit ''p'' 7 eye_frame sample_service))"
  by (rule run_step [OF sample_run step_Submit])

lemma sample_wf: "tracking_wf sample_service"
  using reachable_wf [OF sample_clock_ok sample_run] .

theorem chooseAutoSource_spec_witness:
  "chooseAutoSource [] [(''b'', zero_source\<lparr>frame := eye_frame\<rparr>), (''a'', zero_source\<lparr>frame := eye_frame\<rparr>)] CapabilityEye = ''a''"
proof -
  let ?src = "zero_source\<lparr>frame := eye_frame\<rparr>"
  have d: "distinct (map fst [(''a'', ?src), (''b'', ?src)])" "[] \<notin> set (map fst [(''a'', ?src), (''b'', ?src)])"
    "mset [(''b'', ?src), (''a'', ?src)] = mset [(''a'', ?src), (''b'', ?src)]"
    by simp_all
  have "chooseAutoSource [] [(''a'', ?src), (''b'', ?src)] CapabilityEye = ''a''" by code_simp
  with chooseAutoSource_spec [OF d, of "[]" CapabilityEye sample_service] show ?thesis by simp
qed

text \<open>C1 (invariant). In every state the service can reach, a merged frame exists exactly when a
  generation is set, carries that generation, and is content-equal to what the current sources
  and routing select; every selected source is present and has the group's capability, and the
  selection is the one the routing resolves to.\<close>

theorem latest_reflects_sources:
  assumes "\<forall>n. is_i64 (clk n)" and "tracking_run (newServiceWithClock clk) s"
  shows "hasLatest s = (generation s \<noteq> 0) \<and>
    (hasLatest s \<longrightarrow> Generation (latestMerged s) = generation s \<and> mergedContentEqual (merged_of s) (latestMerged s)) \<and>
    resolveSource (route_Eye (routing s)) (eyeSourceID s) (sources s) CapabilityEye = eyeSourceID s \<and>
    resolveSource (route_Expression (routing s)) (expressionSourceID s) (sources s) CapabilityExpression = expressionSourceID s \<and>
    resolveSource (route_Lip (routing s)) (lipSourceID s) (sources s) CapabilityLip = lipSourceID s \<and>
    (eyeSourceID s = [] \<or> sourceHasCapability s (eyeSourceID s) CapabilityEye) \<and>
    (expressionSourceID s = [] \<or> sourceHasCapability s (expressionSourceID s) CapabilityExpression) \<and>
    (lipSourceID s = [] \<or> sourceHasCapability s (lipSourceID s) CapabilityLip)"
proof -
  have wf: "sources_ok s" "latest_ok s" using reachable_wf [OF assms] by (auto simp: wf_parts)
  have sel: "selection_ok s"
    using wf reselect_selection_ok [of s] by (simp add: sources_ok_def latest_ok_def)
  have has: "source_has (sources s) c p \<Longrightarrow> sourceHasCapability s p c" for c p
    using wf(1) candidates_nonempty_id [of "sources s" c]
    by (auto simp: source_has_candidates sourceHasCapability_def source_has_def sources_ok_def
        simp flip: source_has_candidates split: option.splits)
  have gen: "Generation m = generation s" if "mergedContentEqual (merged_of s) m" for m
    using that by (simp add: mergedContentEqual_def merged_of_fields)
  have "eyeSourceID (reselect s) = eyeSourceID s" "expressionSourceID (reselect s) = expressionSourceID s"
    "lipSourceID (reselect s) = lipSourceID s" using wf(2) by (simp_all add: latest_ok_def)
  then have ids: "resolveSource (route_Eye (routing s)) (eyeSourceID s) (sources s) CapabilityEye = eyeSourceID s"
    "resolveSource (route_Expression (routing s)) (expressionSourceID s) (sources s) CapabilityExpression = expressionSourceID s"
    "resolveSource (route_Lip (routing s)) (lipSourceID s) (sources s) CapabilityLip = lipSourceID s"
    by (simp_all add: reselect_def)
  show ?thesis
    using wf(2) sel has gen ids by (auto simp: latest_ok_def selection_ok_def)
qed

theorem latest_reflects_sources_witness:
  "hasLatest (snd (Submit ''p'' 7 eye_frame sample_service))"
proof -
  have "generation sample_service = 7"
    by (simp add: sample_service_def SubscribeMerged_def newServiceWithClock_def SetGeneration_def Let_def
      advanceMergedSequence_eq nextTime_eq at_time_def)
  moreover have "generation sample_service \<le> generation (snd (Submit ''p'' 7 eye_frame sample_service))"
    using Submit_advances [OF wf_parts(1) [OF sample_wf]] by (simp add: advances_def)
  ultimately have "generation (snd (Submit ''p'' 7 eye_frame sample_service)) \<noteq> 0" by auto
  with latest_reflects_sources [OF sample_clock_ok sample_run_submit] show ?thesis by simp
qed

text \<open>No receiver is ever handed an outdated frame: whatever a subscriber's channel
  holds in a reachable state is the latest merged frame, or the current summary.\<close>

theorem buffered_is_latest:
  assumes "\<forall>n. is_i64 (clk n)" and "tracking_run (newServiceWithClock clk) s"
  shows "(\<forall>m. fst (ReceiveMerged ch s) = Some m \<longrightarrow> LatestMerged s = (m, True)) \<and>
    (\<forall>u. fst (ReceiveSummary ch s) = Some u \<longrightarrow> u = currentSummary s)"
proof -
  have "subscribers_ok s" using reachable_wf [OF assms] by (simp add: tracking_wf_def)
  then have "map_of (mergedSubscribers s) ch = Some (Some m) \<Longrightarrow> hasLatest s \<and> m = latestMerged s"
    "map_of (summarySubscribers s) ch = Some (Some u) \<Longrightarrow> u = currentSummary s" for m u
    by (fastforce simp: subscribers_ok_def dest: map_of_SomeD)+
  then show ?thesis
    by (simp add: ReceiveMerged_def ReceiveSummary_def LatestMerged_def try_recv_def split: option.split)
qed

theorem buffered_is_latest_witness:
  "fst (ReceiveMerged 0 sample_service) = Some (latestMerged sample_service) \<and>
   LatestMerged sample_service = (latestMerged sample_service, True)"
proof -
  have "fst (ReceiveMerged 0 sample_service) = Some (latestMerged sample_service)"
    by (simp add: sample_service_def SubscribeMerged_def newServiceWithClock_def SetGeneration_def Let_def
      advanceMergedSequence_eq nextTime_eq publishMerged_def publishSummary_def ReceiveMerged_def publish_def try_recv_def)
  with buffered_is_latest [OF sample_clock_ok sample_run, of 0] show ?thesis by blast
qed

text \<open>C2 (functional). In a well-formed state Submit accepts exactly the frames of the current
  generation from a named plugin that validate, have non-negative clocks and continue the
  source's sequence and clocks; it then keeps the canonical frame, stamped later than anything
  stamped before.\<close>

theorem Submit_accepts_iff:
  assumes "tracking_wf s"
  shows "(fst (Submit p gen f s) = Inr () \<longleftrightarrow>
      p \<noteq> [] \<and> generation s \<noteq> 0 \<and> gen = generation s \<and> frame_validate f = Inr () \<and>
      0 \<le> TimestampNS f \<and> 0 \<le> SourceClockNS f \<and> lastHostTimeNS s \<noteq> max_int64 \<and>
      (\<forall>prev. map_of (sources s) p = Some prev \<longrightarrow> lastSequence prev < Sequence f \<and>
        (TimestampNS f = 0 \<or> lastTimestampNS prev \<le> TimestampNS f) \<and>
        (SourceClockNS f = 0 \<or> lastSourceClockNS prev \<le> SourceClockNS f))) \<and>
    (fst (Submit p gen f s) = Inr () \<longrightarrow>
      (\<exists>src. map_of (sources (snd (Submit p gen f s))) p = Some src \<and> canonicalize f = Inr (frame src) \<and>
        lastSequence src = Sequence f \<and> lastHostTimeNS s < receivedAtNS src))"
proof -
  have acc: "acceptable p gen f s \<longleftrightarrow> p \<noteq> [] \<and> generation s \<noteq> 0 \<and> gen = generation s \<and> frame_validate f = Inr () \<and>
      0 \<le> TimestampNS f \<and> 0 \<le> SourceClockNS f \<and> lastHostTimeNS s \<noteq> max_int64 \<and>
      (\<forall>prev. map_of (sources s) p = Some prev \<longrightarrow> lastSequence prev < Sequence f \<and>
        (TimestampNS f = 0 \<or> lastTimestampNS prev \<le> TimestampNS f) \<and>
        (SourceClockNS f = 0 \<or> lastSourceClockNS prev \<le> SourceClockNS f))"
    by (auto simp: acceptable_def frame_validate_ok split: option.splits)
  have iff: "fst (Submit p gen f s) = Inr () \<longleftrightarrow> acceptable p gen f s"
    using Submit_accepts [OF wf_parts(1) [OF assms]] Submit_rejects [OF wf_parts(1) [OF assms]]
    by (cases "acceptable p gen f s") (fastforce simp: rejects_def reject_def)+
  have "\<exists>src. map_of (sources (snd (Submit p gen f s))) p = Some src \<and> canonicalize f = Inr (frame src) \<and>
      lastSequence src = Sequence f \<and> lastHostTimeNS s < receivedAtNS src" if a: "acceptable p gen f s"
  proof -
    have "lastHostTimeNS s < receipt_time s"
      using wf_parts(1) [OF assms] a receipt_time_bounds [of s] by (auto simp: sources_ok_def acceptable_def)
    moreover have "sources (snd (Submit p gen f s)) = sources (store_source p (canonical f) s)"
      by (simp add: Submit_accepts [OF wf_parts(1) [OF assms] a] accepted_def Let_def recompute_and_publish_cases)
    ultimately show ?thesis
      using a by (auto simp: store_source_def Let_def update_conv' canonicalize_eq acceptable_def)
  qed
  with iff show ?thesis unfolding acc by blast
qed

theorem Submit_accepts_iff_witness:
  "fst (Submit ''p'' 7 eye_frame sample_service) = Inr () \<and> fst (Submit ''p'' 6 eye_frame sample_service) \<noteq> Inr ()"
proof -
  have v: "frame_validate eye_frame = Inr ()" by code_simp
  have s: "generation sample_service = 7" "sources sample_service = []" "lastHostTimeNS sample_service = 100"
    by (simp_all add: sample_service_def SubscribeMerged_def newServiceWithClock_def SetGeneration_def Let_def
      advanceMergedSequence_eq nextTime_eq at_time_def sample_clock_def)
  show ?thesis
    using Submit_accepts_iff [OF sample_wf, of "''p''" 7 eye_frame] Submit_accepts_iff [OF sample_wf, of "''p''" 6 eye_frame] v
    by (simp add: s eye_frame_def max_int64_def)
qed

text \<open>A rejected frame changes nothing but the rejection statistics (and the summary
  offered to subscribers): sources, selection, merged frame and clock stay, and the rejection is
  counted once, saturating, under its own reason.\<close>

theorem rejected_frame_changes_nothing:
  assumes "tracking_wf s" and "Submit p gen f s = (Inl e, s')"
  shows "\<exists>r. s' = publishSummary (s\<lparr>rejectedFrames := saturatingAdd (rejectedFrames s) 1,
      rejected := rejection_increment r (rejected s),
      lastRejection := \<lparr>rej_PluginID = p, rej_Generation = gen, rej_Reason = r\<rparr>\<rparr>) \<and>
    r \<noteq> RejectionNone \<and> sources s' = sources s \<and> latestMerged s' = latestMerged s \<and>
    mergedSubscribers s' = mergedSubscribers s \<and> lastHostTimeNS s' = lastHostTimeNS s"
proof -
  have "rejects s p gen (Submit p gen f s)"
    using Submit_accepts [OF wf_parts(1) [OF assms(1)], of p gen f] assms(2)
    by (intro Submit_rejects wf_parts(1) [OF assms(1)]) auto
  then show ?thesis using assms(2) by (auto simp: rejects_def reject_def)
qed

theorem rejected_frame_changes_nothing_witness:
  "sources (snd (Submit ''p'' 6 eye_frame sample_service)) = sources sample_service"
proof -
  have "fst (Submit ''p'' 6 eye_frame sample_service) = Inl ErrStaleGeneration"
    by (simp add: Submit_def reject_def sample_service_def SubscribeMerged_def newServiceWithClock_def SetGeneration_def Let_def
      advanceMergedSequence_eq nextTime_eq at_time_def sample_clock_def)
  then obtain s' where s': "Submit ''p'' 6 eye_frame sample_service = (Inl ErrStaleGeneration, s')"
    by (metis prod.collapse)
  from rejected_frame_changes_nothing [OF sample_wf s'] s' show ?thesis by auto
qed

text \<open>The counters: the total and the sum over the reasons.\<close>

definition rejection_total :: "rejection_counts \<Rightarrow> nat" where
  "rejection_total c = unat (GenerationUnset c) + unat (GenerationZero c) + unat (StaleGeneration c) +
     unat (FutureGeneration c) + unat (InvalidPluginID c) + unat (InvalidFrame c) +
     unat (SequenceNotIncreasing c) + unat (TimestampRegression c) + unat (SourceClockRegression c)"

definition counters_ok :: "service \<Rightarrow> bool" where
  "counters_ok s \<longleftrightarrow> unat (rejectedFrames s) = min (2 ^ 64 - 1) (rejection_total (rejected s))"

lemma unat_saturating: "unat (saturatingAdd x 1) = min (2 ^ 64 - 1) (Suc (unat x))"
proof (cases "x = max_u64")
  case True
  then show ?thesis by (simp add: saturatingAdd_1 unat_max_u64)
next
  case False
  then have "unat (x + 1) = unat x + 1" by (simp add: succ_u64 less_max_u64_iff)
  moreover have "unat (x + 1) \<le> 2 ^ 64 - 1" using unsigned_less [of "x + 1", where ?'a = nat] by simp
  ultimately show ?thesis using False by (simp add: saturatingAdd_1)
qed

lemma rejection_total_increment:
  assumes "r \<noteq> RejectionNone"
  shows "min (2 ^ 64 - 1) (rejection_total (rejection_increment r c)) = min (2 ^ 64 - 1) (Suc (rejection_total c))"
  using assms by (cases r) (simp_all add: rejection_increment_def rejection_total_def unat_saturating)

lemma reject_counters: "counters_ok s \<Longrightarrow> r \<noteq> RejectionNone \<Longrightarrow> counters_ok (snd (reject s p gen r e))"
  using rejection_total_increment [of r "rejected s"]
  by (simp add: counters_ok_def reject_def unat_saturating)

lemma recompute_counters [simp]:
  "rejectedFrames (recompute_and_publish s b) = rejectedFrames s" "rejected (recompute_and_publish s b) = rejected s"
  by (simp_all add: recompute_and_publish_cases)

lemma tracking_step_counters:
  assumes "tracking_step s s'" "tracking_wf s" "counters_ok s"
  shows "counters_ok s'"
  using assms(1)
proof (cases rule: tracking_step.cases)
  case (step_Submit p gen f)
  show ?thesis
  proof (cases "acceptable p gen f s")
    case True
    then have "s' = accepted p (canonical f) s"
      using Submit_accepts [OF wf_parts(1) [OF assms(2)]] step_Submit by simp
    then show ?thesis
      using assms(3) by (simp add: accepted_def Let_def counters_ok_def store_source_def)
  next
    case False
    then show ?thesis
      using Submit_rejects [OF wf_parts(1) [OF assms(2)] False] reject_counters [OF assms(3)] step_Submit
      by (auto simp: rejects_def)
  qed
next
  case (step_SetGeneration gen)
  then show ?thesis
    using assms(3) SetGeneration_refreshed [of s gen]
    by (cases "generation s < gen") (auto simp: SetGeneration_def counters_ok_def new_generation_def)
next
  case (step_SetRouting config)
  then show ?thesis
    using assms(3) by (cases "routing_validate config") (auto simp: SetRouting_def counters_ok_def Let_def)
qed (use assms(3) in \<open>auto simp: counters_ok_def RemoveSource_def SubscribeMerged_def SubscribeSummary_def
    CancelMerged_def CancelSummary_def ReceiveMerged_def ReceiveSummary_def split: option.split\<close>)

text \<open>The rejection total is always the sum of the per-reason counters, capped at
  2^64 - 1: no rejection is counted twice, lost, or wraps a counter.\<close>

theorem rejections_counted:
  assumes "\<forall>n. is_i64 (clk n)" and "tracking_run (newServiceWithClock clk) s"
  shows "unat (rejectedFrames s) = min (2 ^ 64 - 1) (rejection_total (rejected s))"
proof -
  have "counters_ok s \<and> tracking_wf s" if "tracking_run s0 s" "s0 = newServiceWithClock clk" for s0
    using that
  proof (induction rule: tracking_run.induct)
    case run_start
    then show ?case using new_wf [OF assms(1)]
      by (simp add: counters_ok_def newServiceWithClock_def rejection_total_def)
  qed (blast intro: tracking_step_counters tracking_step_wf)
  with assms(2) show ?thesis by (simp add: counters_ok_def)
qed

theorem rejections_counted_witness:
  "unat (rejectedFrames sample_service) = min (2 ^ 64 - 1) (rejection_total (rejected sample_service))"
  by (rule rejections_counted [OF sample_clock_ok sample_run])

text \<open>C34 (invariant). Merged frames only move forward: along any run, a merged frame that replaces
  another belongs to the same or a later generation, has a strictly larger sequence number (until
  the counter saturates) and is not stamped earlier, whatever the host clock does.\<close>

theorem merged_frames_advance:
  assumes "\<forall>n. is_i64 (clk n)" and "tracking_run (newServiceWithClock clk) s" and "tracking_run s s'"
    and "LatestMerged s = (m, True)" and "LatestMerged s' = (m', True)" and "m' \<noteq> m"
  shows "Generation m \<le> Generation m' \<and> (mf_Sequence m < mf_Sequence m' \<or> mf_Sequence m = max_u64) \<and>
    UpdatedAtNS m \<le> UpdatedAtNS m'"
proof -
  have wf: "tracking_wf s" "tracking_wf s'"
    using reachable_wf [OF assms(1,2)] tracking_run_wf [OF assms(3)] by auto
  have adv: "advances s s'" using tracking_run_advances [OF assms(3) wf(1)] .
  have m: "latestMerged s = m" "hasLatest s" "latestMerged s' = m'" "hasLatest s'"
    using assms(4,5) by (simp_all add: LatestMerged_def)
  have gens: "Generation m = generation s" "Generation m' = generation s'"
    "mf_Sequence m = mergedSequence s" "mf_Sequence m' = mergedSequence s'" "UpdatedAtNS m \<le> lastHostTimeNS s"
    using wf_parts(2) [OF wf(1)] wf_parts(2) [OF wf(2)] m
    by (auto simp: latest_ok_def mergedContentEqual_def merged_of_fields merged_ok_def)
  show ?thesis
    using adv m gens assms(6) by (auto simp: advances_def latest_later_def)
qed

theorem merged_frames_advance_witness:
  "mf_Sequence (latestMerged sample_service) < mf_Sequence (latestMerged (snd (SetGeneration 9 sample_service)))"
proof -
  let ?s = "snd (SetGeneration 9 sample_service)"
  have run: "tracking_run sample_service ?s" by (rule run_step [OF run_start step_SetGeneration])
  have l: "Generation (latestMerged sample_service) = 7" "mf_Sequence (latestMerged sample_service) = 1"
    "hasLatest sample_service" "generation sample_service = 7"
    by (simp_all add: sample_service_def SubscribeMerged_def newServiceWithClock_def SetGeneration_def Let_def
      advanceMergedSequence_eq nextTime_eq at_time_def saturatingAdd_1 max_u64_def)
  then have l': "Generation (latestMerged ?s) = 9" "hasLatest ?s"
    by (simp_all add: SetGeneration_def Let_def advanceMergedSequence_eq nextTime_eq)
  have "latestMerged ?s \<noteq> latestMerged sample_service"
  proof
    assume "latestMerged ?s = latestMerged sample_service"
    then have "Generation (latestMerged ?s) = 7" using l(1) by simp
    with l'(1) show False by simp
  qed
  then show ?thesis
    using merged_frames_advance [OF sample_clock_ok sample_run run, of "latestMerged sample_service" "latestMerged ?s"] l l'
    by (auto simp: LatestMerged_def max_u64_def)
qed

end
