(* ===== verification/FloatBounds.thy ===== *)
theory FloatBounds
  imports IEEE754
begin

text \<open>
  Bounds on the results of float operations. A finite float has a real value; the magnitude bits
  of an operation's result are the rounding of the exact real result, and rounding is monotone,
  so an inequality between real numbers carries over to the bits. The lemmas are stated once for
  a format (p fraction bits, w exponent bits) and instantiated at float32 and float64.
\<close>

section \<open>Real values and rounding\<close>

definition round_abs :: "nat \<Rightarrow> nat \<Rightarrow> real \<Rightarrow> int" where
  "round_abs p w v = (if v = 0 then 0 else round_real p w v)"

lemma round_real_ge0: "0 < v \<Longrightarrow> 0 \<le> round_real p w v"
  by (simp add: round_real_def Let_def inf_mag_def rnd_nonneg)

lemma round_abs_ge0 [simp]: "0 \<le> v \<Longrightarrow> 0 \<le> round_abs p w v"
  by (simp add: round_abs_def round_real_ge0)

lemma round_abs_mono: "0 \<le> u \<Longrightarrow> u \<le> v \<Longrightarrow> round_abs p w u \<le> round_abs p w v"
  using round_real_mono [of u v p w] round_real_ge0 [of v p w] by (auto simp: round_abs_def)

lemma round_abs_le_inf: "round_abs p w v \<le> inf_mag p w"
  by (simp add: round_abs_def round_real_def Let_def inf_mag_def)

lemma round_mag_abs:
  assumes "0 \<le> n" "0 < d"
  shows "round_mag p w n d e = round_abs p w (fval n d e)"
proof (cases "n = 0")
  case True
  then show ?thesis by (simp add: round_mag_def round_abs_def fval_def)
next
  case False
  then show ?thesis using assms fval_pos [of n d e] by (simp add: round_mag_real round_abs_def)
qed

lemma mag_real_0 [simp]: "mag_real p w 0 = 0"
  by (simp add: mag_real_unfold)

lemma mag_real_ge0 [simp]: "0 \<le> m \<Longrightarrow> 0 \<le> mag_real p w m"
  using mag_real_pos [of m p w] by (cases "m = 0") auto

lemma round_abs_mag: "0 \<le> m \<Longrightarrow> m \<le> inf_mag p w \<Longrightarrow> round_abs p w (mag_real p w m) = m"
  using round_real_mag [of m p w] mag_real_pos [of m p w] by (cases "m = 0") (auto simp: round_abs_def)

lemma mag_mant_ge0: "0 \<le> m \<Longrightarrow> 0 \<le> mag_mant p m"
  using mag_value_bounds(1) [of m p] by (cases "m = 0") auto

definition real32 :: "float32 \<Rightarrow> real" where
  "real32 x = (if sign32 x then - mag_real 23 8 (mag32 x) else mag_real 23 8 (mag32 x))"

definition real64 :: "float64 \<Rightarrow> real" where
  "real64 x = (if sign64 x then - mag_real 52 11 (mag64 x) else mag_real 52 11 (mag64 x))"

definition xreal :: "exact \<Rightarrow> real" where
  "xreal x = (case x of XNum s n d e \<Rightarrow> (if s then - fval n d e else fval n d e) | _ \<Rightarrow> 0)"

definition xfinite :: "exact \<Rightarrow> bool" where
  "xfinite x = (case x of XNum s n d e \<Rightarrow> 0 \<le> n \<and> 0 < d | _ \<Rightarrow> False)"

lemma abs_real32: "\<bar>real32 x\<bar> = mag_real 23 8 (mag32 x)"
  by (simp add: real32_def)

lemma abs_real64: "\<bar>real64 x\<bar> = mag_real 52 11 (mag64 x)"
  by (simp add: real64_def)

lemma round_real32: "mag32 x \<le> inf_mag 23 8 \<Longrightarrow> round_abs 23 8 \<bar>real32 x\<bar> = mag32 x"
  by (simp add: abs_real32 round_abs_mag)

lemma round_real64: "mag64 x \<le> inf_mag 52 11 \<Longrightarrow> round_abs 52 11 \<bar>real64 x\<bar> = mag64 x"
  by (simp add: abs_real64 round_abs_mag)

lemma finite32_le_inf: "finite32 x \<Longrightarrow> mag32 x \<le> inf_mag 23 8"
  by (simp add: finite32_mag)

lemma finite64_le_inf: "finite64 x \<Longrightarrow> mag64 x \<le> inf_mag 52 11"
  by (simp add: finite64_mag)

lemma dec32_real: "finite32 x \<Longrightarrow> xreal (dec32 x) = real32 x \<and> xfinite (dec32 x)"
  by (simp add: dec32_finite xreal_def xfinite_def real32_def mag_real_def mag_mant_ge0)

lemma dec64_real: "finite64 x \<Longrightarrow> xreal (dec64 x) = real64 x \<and> xfinite (dec64 x)"
  by (simp add: dec64_finite xreal_def xfinite_def real64_def mag_real_def mag_mant_ge0)

lemma fval_ge0: "0 \<le> n \<Longrightarrow> 0 < d \<Longrightarrow> 0 \<le> fval n d e"
  by (simp add: fval_def)

lemma enc32_mag:
  assumes "xfinite x"
  shows "mag32 (enc32 x) = round_abs 23 8 \<bar>xreal x\<bar>"
proof -
  obtain s n d e where x: "x = XNum s n d e" "0 \<le> n" "0 < d"
    using assms by (auto simp: xfinite_def split: exact.splits)
  have "0 \<le> round_mag 23 8 n d e" "round_mag 23 8 n d e \<le> inf_mag 23 8"
    using round_mag_nonneg [OF x(2,3)] round_mag_le by auto
  then have "mag32 (enc32 x) = round_mag 23 8 n d e" by (simp add: x make32_sel mag_consts)
  then show ?thesis using fval_ge0 [OF x(2,3)] by (simp add: x xreal_def round_mag_abs)
qed

lemma enc64_mag:
  assumes "xfinite x"
  shows "mag64 (enc64 x) = round_abs 52 11 \<bar>xreal x\<bar>"
proof -
  obtain s n d e where x: "x = XNum s n d e" "0 \<le> n" "0 < d"
    using assms by (auto simp: xfinite_def split: exact.splits)
  have "0 \<le> round_mag 52 11 n d e" "round_mag 52 11 n d e \<le> inf_mag 52 11"
    using round_mag_nonneg [OF x(2,3)] round_mag_le by auto
  then have "mag64 (enc64 x) = round_mag 52 11 n d e" by (simp add: x make64_sel mag_consts)
  then show ?thesis using fval_ge0 [OF x(2,3)] by (simp add: x xreal_def round_mag_abs)
qed

lemma x_neg_real: "xreal (x_neg x) = - xreal x" "xfinite (x_neg x) = xfinite x"
  by (cases x; simp add: xreal_def xfinite_def)+

lemma fval_scale: "e \<le> e' \<Longrightarrow> 0 < c \<Longrightarrow> fval (n * c * 2 ^ nat (e' - e)) (d * c) e = fval n d e'"
  by (simp add: fval_def powi_nat [symmetric] power_int_diff)

lemma signed_fval: "fval (signed s n) d e = (if s then - fval n d e else fval n d e)"
  by (simp add: fval_def signed_def)

lemma fval_add: "fval (a + b) d e = fval a d e + fval b d e"
  by (simp add: fval_def add_divide_distrib distrib_right)

lemma x_add_real:
  assumes "xfinite x" "xfinite y"
  shows "xreal (x_add x y) = xreal x + xreal y \<and> xfinite (x_add x y)"
proof -
  obtain s1 n1 d1 e1 where x: "x = XNum s1 n1 d1 e1" "0 \<le> n1" "0 < d1"
    using assms by (auto simp: xfinite_def split: exact.splits)
  obtain s2 n2 d2 e2 where y: "y = XNum s2 n2 d2 e2" "0 \<le> n2" "0 < d2"
    using assms by (auto simp: xfinite_def split: exact.splits)
  define e where "e = min e1 e2"
  define t where "t = signed s1 (n1 * d2 * 2 ^ nat (e1 - e)) + signed s2 (n2 * d1 * 2 ^ nat (e2 - e))"
  have "fval t (d1 * d2) e = xreal x + xreal y"
  proof -
    have "fval (n1 * d2 * 2 ^ nat (e1 - e)) (d1 * d2) e = fval n1 d1 e1"
      using y by (intro fval_scale) (simp_all add: e_def)
    moreover have "fval (n2 * d1 * 2 ^ nat (e2 - e)) (d1 * d2) e = fval n2 d2 e2"
      using x fval_scale [of e e2 d1 n2 d2] by (simp add: e_def mult.commute)
    ultimately show ?thesis by (simp add: t_def fval_add signed_fval x(1) y(1) xreal_def)
  qed
  moreover have "xreal (x_add x y) = fval t (d1 * d2) e \<and> xfinite (x_add x y)"
    using x y by (auto simp: x(1) y(1) xreal_def xfinite_def fval_def Let_def simp flip: e_def t_def)
  ultimately show ?thesis by simp
qed

lemma x_mul_real:
  assumes "xfinite x" "xfinite y"
  shows "xreal (x_mul x y) = xreal x * xreal y \<and> xfinite (x_mul x y)"
  using assms
  by (auto simp: xreal_def xfinite_def fval_def power_int_add split: exact.splits)

lemma x_div_real:
  assumes "xfinite x" "xfinite y" "xreal y \<noteq> 0"
  shows "xreal (x_div x y) = xreal x / xreal y \<and> xfinite (x_div x y)"
  using assms
  by (auto simp: xreal_def xfinite_def fval_def power_int_diff mult_ac split: exact.splits)

section \<open>Results of operations\<close>

lemma mul32_mag: "finite32 x \<Longrightarrow> finite32 y \<Longrightarrow> mag32 (mul32 x y) = round_abs 23 8 (\<bar>real32 x\<bar> * \<bar>real32 y\<bar>)"
  using dec32_real x_mul_real [of "dec32 x" "dec32 y"] by (simp add: mul32_def enc32_mag abs_mult)

lemma div32_mag: "finite32 x \<Longrightarrow> finite32 y \<Longrightarrow> real32 y \<noteq> 0 \<Longrightarrow>
    mag32 (div32 x y) = round_abs 23 8 (\<bar>real32 x\<bar> / \<bar>real32 y\<bar>)"
  using dec32_real x_div_real [of "dec32 x" "dec32 y"] by (simp add: div32_def enc32_mag)

lemma sub32_mag: "finite32 x \<Longrightarrow> finite32 y \<Longrightarrow> mag32 (sub32 x y) = round_abs 23 8 \<bar>real32 x - real32 y\<bar>"
  using dec32_real x_add_real [of "dec32 x" "x_neg (dec32 y)"]
  by (simp add: sub32_def enc32_mag x_neg_real)

lemma add32_mag: "finite32 x \<Longrightarrow> finite32 y \<Longrightarrow> mag32 (add32 x y) = round_abs 23 8 \<bar>real32 x + real32 y\<bar>"
  using dec32_real x_add_real [of "dec32 x" "dec32 y"] by (simp add: add32_def enc32_mag)

lemma mul64_mag: "finite64 x \<Longrightarrow> finite64 y \<Longrightarrow> mag64 (mul64 x y) = round_abs 52 11 (\<bar>real64 x\<bar> * \<bar>real64 y\<bar>)"
  using dec64_real x_mul_real [of "dec64 x" "dec64 y"] by (simp add: mul64_def enc64_mag abs_mult)

lemma div64_mag: "finite64 x \<Longrightarrow> finite64 y \<Longrightarrow> real64 y \<noteq> 0 \<Longrightarrow>
    mag64 (div64 x y) = round_abs 52 11 (\<bar>real64 x\<bar> / \<bar>real64 y\<bar>)"
  using dec64_real x_div_real [of "dec64 x" "dec64 y"] by (simp add: div64_def enc64_mag)

lemma sub64_mag: "finite64 x \<Longrightarrow> finite64 y \<Longrightarrow> mag64 (sub64 x y) = round_abs 52 11 \<bar>real64 x - real64 y\<bar>"
  using dec64_real x_add_real [of "dec64 x" "x_neg (dec64 y)"]
  by (simp add: sub64_def enc64_mag x_neg_real)

lemma narrow_mag: "finite64 x \<Longrightarrow> mag32 (narrow x) = round_abs 23 8 \<bar>real64 x\<bar>"
  using dec64_real by (simp add: narrow_def enc32_mag)

lemma float64_of_int_mag: "mag64 (float64_of_int i) = round_abs 52 11 \<bar>of_int i\<bar>"
  by (auto simp: float64_of_int_def enc64_mag xfinite_def xreal_def fval_def simp del: enc64.simps)

lemma real32_one [simp]: "real32 one32 = 1"
proof -
  have "mag_mant 23 1065353216 = 8388608 \<and> mag_exp 23 1065353216 = 126" by (simp add: mag_mant_def mag_exp_def)
  moreover have "\<not> sign32 one32" by (simp add: sign32_def one32_def)
  ultimately show ?thesis by (simp add: real32_def mag_real_unfold mag_consts power_int_minus)
qed

lemma one64_sel [simp]: "mag64 one64 = 4607182418800017408" "finite64 one64" "\<not> sign64 one64"
  by (simp_all add: one64_def mag64_def finite64_mag mag_consts sign64_def)

lemma real64_one [simp]: "real64 one64 = 1"
proof -
  have "mag_mant 52 4607182418800017408 = 4503599627370496 \<and> mag_exp 52 4607182418800017408 = 1022"
    by (simp add: mag_mant_def mag_exp_def)
  then show ?thesis by (simp add: real64_def mag_real_unfold mag_consts power_int_minus)
qed

lemma round_abs_1: "round_abs 23 8 1 = mag32 one32" "round_abs 52 11 1 = mag64 one64"
  using round_real32 [of one32] round_real64 [of one64] by (simp_all add: mag_consts)

text \<open>Dividing by something at least as large gives at most one, and multiplying by at most one
  does not enlarge.\<close>

lemma div32_le_one:
  assumes "finite32 x" "finite32 y" "real32 y \<noteq> 0" "\<bar>real32 x\<bar> \<le> \<bar>real32 y\<bar>"
  shows "mag32 (div32 x y) \<le> mag32 one32"
proof -
  have "round_abs 23 8 (\<bar>real32 x\<bar> / \<bar>real32 y\<bar>) \<le> round_abs 23 8 1"
    using assms by (intro round_abs_mono) (simp_all add: divide_le_eq_1)
  then show ?thesis using assms div32_mag [of x y] unfolding round_abs_1 by simp
qed

lemma mag_real_less: "0 \<le> m \<Longrightarrow> m < n \<Longrightarrow> n \<le> inf_mag p w \<Longrightarrow> mag_real p w m < mag_real p w n"
proof -
  assume a: "0 \<le> m" "m < n" "n \<le> inf_mag p w"
  have "mag_real p w m \<noteq> mag_real p w n"
    using a round_abs_mag [of m p w] round_abs_mag [of n p w] by auto
  moreover have "mag_real p w m \<le> mag_real p w n"
    using a mag_real_pos [of n p w] mag_real_le [of m p w n] by (cases "m = 0") auto
  ultimately show ?thesis by simp
qed

lemma mag_real_le0: "0 \<le> m \<Longrightarrow> m \<le> n \<Longrightarrow> n \<le> inf_mag p w \<Longrightarrow> mag_real p w m \<le> mag_real p w n"
  using mag_real_less [of m n p w] by (cases "m = n") auto

lemma mag32_le_real: "finite32 x \<Longrightarrow> finite32 y \<Longrightarrow> mag32 x \<le> mag32 y \<Longrightarrow> \<bar>real32 x\<bar> \<le> \<bar>real32 y\<bar>"
  unfolding abs_real32 by (intro mag_real_le0 finite32_le_inf) simp_all

lemma mag64_le_real: "finite64 x \<Longrightarrow> finite64 y \<Longrightarrow> mag64 x \<le> mag64 y \<Longrightarrow> \<bar>real64 x\<bar> \<le> \<bar>real64 y\<bar>"
  unfolding abs_real64 by (intro mag_real_le0 finite64_le_inf) simp_all

lemma mul32_shrinks:
  assumes "finite32 x" "finite32 y" "mag32 y \<le> mag32 one32"
  shows "mag32 (mul32 x y) \<le> mag32 x" "mag32 (mul32 y x) \<le> mag32 x"
proof -
  have "\<bar>real32 y\<bar> \<le> 1" using mag32_le_real [OF assms(2) one32_sel(3) assms(3)] by simp
  then have "\<bar>real32 x\<bar> * \<bar>real32 y\<bar> \<le> \<bar>real32 x\<bar>" by (simp add: mult_left_le)
  from round_abs_mono [OF _ this, of 23 8] show "mag32 (mul32 x y) \<le> mag32 x" "mag32 (mul32 y x) \<le> mag32 x"
    using assms by (simp_all add: mul32_mag round_real32 finite32_le_inf mult.commute)
qed

lemma mag32_le_finite: "mag32 x \<le> mag32 y \<Longrightarrow> finite32 y \<Longrightarrow> finite32 x"
  by (simp add: finite32_mag)

lemma narrow_le_one:
  assumes "finite64 x" "mag64 x \<le> mag64 one64"
  shows "mag32 (narrow x) \<le> mag32 one32"
proof -
  have "\<bar>real64 x\<bar> \<le> 1" using mag64_le_real [OF assms(1) one64_sel(2) assms(2)] by simp
  from round_abs_mono [OF _ this, of 23 8] show ?thesis
    using assms(1) by (simp only: narrow_mag round_abs_1 [symmetric])
qed

text \<open>The order of finite floats is the order of their values.\<close>

lemma key32_less_real:
  assumes "finite32 x" "finite32 y"
  shows "key32 x < key32 y \<longleftrightarrow> real32 x < real32 y" "key32 x = key32 y \<longleftrightarrow> real32 x = real32 y"
proof -
  have lt: "key32 x < key32 y \<Longrightarrow> real32 x < real32 y" if "finite32 x" "finite32 y" for x y
  proof -
    assume k: "key32 x < key32 y"
    have b: "0 \<le> mag32 x" "0 \<le> mag32 y" "mag32 x \<le> inf_mag 23 8" "mag32 y \<le> inf_mag 23 8"
      using that by (simp_all add: finite32_le_inf)
    note r = mag_real_less [OF b(1) _ b(4)] mag_real_less [OF b(2) _ b(3)]
    have nonneg: "0 \<le> mag_real 23 8 (mag32 x)" "0 \<le> mag_real 23 8 (mag32 y)" by simp_all
    show ?thesis
    proof (cases "sign32 x"; cases "sign32 y")
      assume s: "sign32 x" "\<not> sign32 y"
      with k b have "0 < mag32 x \<or> 0 < mag32 y" by (auto simp: key32_def signed_def)
      then have "0 < mag_real 23 8 (mag32 x) \<or> 0 < mag_real 23 8 (mag32 y)" using mag_real_pos by blast
      then have "- mag_real 23 8 (mag32 x) < mag_real 23 8 (mag32 y)" using nonneg by (elim disjE) linarith+
      then show ?thesis using s by (simp add: real32_def)
    next
      assume "\<not> sign32 x" "sign32 y"
      then have "mag32 x < - mag32 y" using k by (simp add: key32_def signed_def)
      then show ?thesis using b(1,2) by linarith
    qed (use k r in \<open>auto simp: key32_def signed_def real32_def\<close>)
  qed
  have eq: "real32 x = real32 y" if k: "key32 x = key32 y"
  proof -
    have m: "mag32 x = mag32 y" using k abs_key32 by metis
    have "mag32 x = 0" if "sign32 x \<noteq> sign32 y"
      using that k m by (auto simp: key32_def signed_def split: if_splits)
    then show ?thesis using m by (cases "sign32 x = sign32 y") (simp_all add: real32_def)
  qed
  show "key32 x < key32 y \<longleftrightarrow> real32 x < real32 y" "key32 x = key32 y \<longleftrightarrow> real32 x = real32 y"
    using lt [OF assms] lt [OF assms(2,1)] eq by (metis less_asym linorder_less_linear)+
qed

lemma order32_real:
  assumes "finite32 x" "finite32 y"
  shows "lt32 x y \<longleftrightarrow> real32 x < real32 y" "le32 x y \<longleftrightarrow> real32 x \<le> real32 y" "eq32 x y \<longleftrightarrow> real32 x = real32 y"
  using assms key32_less_real [OF assms] key32_less_real [OF assms(2,1)]
  by (auto simp: lt32_def le32_def eq32_def not_less [symmetric])

section \<open>Signs, and zero\<close>

lemma real32_eq_0: "real32 x = 0 \<longleftrightarrow> mag32 x = 0"
  using mag_real_pos [of "mag32 x" 23 8] mag32_bounds(1) [of x]
  by (cases "mag32 x = 0") (auto simp: real32_def order_less_le)

lemma sign32_enc: "xfinite x \<Longrightarrow> x = XNum s n d e \<Longrightarrow> sign32 (enc32 x) = s"
  using round_mag_nonneg [of n d 23 8 e] round_mag_le [of 23 8 n d e]
  by (simp add: xfinite_def make32_sel mag_consts)

lemma sign64_enc: "xfinite x \<Longrightarrow> x = XNum s n d e \<Longrightarrow> sign64 (enc64 x) = s"
  using round_mag_nonneg [of n d 52 11 e] round_mag_le [of 52 11 n d e]
  by (simp add: xfinite_def make64_sel mag_consts)

lemma x_add_sign:
  assumes "xfinite x" "xfinite y" "xreal x + xreal y \<noteq> 0"
  shows "sign32 (enc32 (x_add x y)) \<longleftrightarrow> xreal x + xreal y < 0"
proof -
  from x_add_real [OF assms(1,2)] obtain s n d e where
    xy: "x_add x y = XNum s n d e" "0 \<le> n" "0 < d" "xreal (x_add x y) = xreal x + xreal y" "xfinite (x_add x y)"
    by (cases "x_add x y") (auto simp: xfinite_def)
  have "(if s then - fval n d e else fval n d e) = xreal x + xreal y" using xy by (simp add: xreal_def)
  then show ?thesis
    using sign32_enc [OF xy(5,1)] fval_ge0 [OF xy(2,3), of e] assms(3) by (auto split: if_splits)
qed

lemma sub32_sign:
  assumes "finite32 x" "finite32 y" "real32 x \<noteq> real32 y"
  shows "sign32 (sub32 x y) \<longleftrightarrow> real32 x < real32 y"
  using x_add_sign [of "dec32 x" "x_neg (dec32 y)"] dec32_real assms
  by (auto simp: sub32_def x_neg_real)

lemma mul32_sign: "finite32 x \<Longrightarrow> finite32 y \<Longrightarrow> sign32 (mul32 x y) = (sign32 x \<noteq> sign32 y)"
  using sign32_enc [OF conjunct2 [OF x_mul_real [of "dec32 x" "dec32 y"]]] dec32_real
  by (simp add: mul32_def dec32_finite del: enc32.simps)

lemma div32_sign: "finite32 x \<Longrightarrow> finite32 y \<Longrightarrow> real32 y \<noteq> 0 \<Longrightarrow> sign32 (div32 x y) = (sign32 x \<noteq> sign32 y)"
proof -
  assume a: "finite32 x" "finite32 y" "real32 y \<noteq> 0"
  have "real32 y = 0" if "mag_mant 23 (mag32 y) = 0"
  proof -
    have "mag_real 23 8 (mag32 y) = 0" using that by (simp add: mag_real_unfold)
    then show ?thesis by (simp add: real32_def)
  qed
  then have "mag_mant 23 (mag32 y) \<noteq> 0" using a(3) by blast
  then show ?thesis
    using a sign32_enc [OF conjunct2 [OF x_div_real [of "dec32 x" "dec32 y"]]] dec32_real
    by (simp add: div32_def dec32_finite del: enc32.simps)
qed

lemma div64_sign: "finite64 x \<Longrightarrow> finite64 y \<Longrightarrow> real64 y \<noteq> 0 \<Longrightarrow> sign64 (div64 x y) = (sign64 x \<noteq> sign64 y)"
proof -
  assume a: "finite64 x" "finite64 y" "real64 y \<noteq> 0"
  have "real64 y = 0" if "mag_mant 52 (mag64 y) = 0"
  proof -
    have "mag_real 52 11 (mag64 y) = 0" using that by (simp add: mag_real_unfold)
    then show ?thesis by (simp add: real64_def)
  qed
  then have "mag_mant 52 (mag64 y) \<noteq> 0" using a(3) by blast
  then show ?thesis
    using a sign64_enc [OF conjunct2 [OF x_div_real [of "dec64 x" "dec64 y"]]] dec64_real
    by (simp add: div64_def dec64_finite del: enc64.simps)
qed

text \<open>The difference of two different floats is not rounded to zero.\<close>

lemma mag_real_multiple: "0 \<le> m \<Longrightarrow> \<exists>k :: int. mag_real p w m = of_int k * 2 powi qmin p w"
proof -
  assume "0 \<le> m"
  then have "0 \<le> mag_exp p m" using mag_value_bounds(3) [of m p] by (cases "m = 0") auto
  then have "mag_real p w m = of_int (mag_mant p m * 2 ^ nat (mag_exp p m)) * 2 powi qmin p w"
    by (simp add: mag_real_unfold power_int_add powi_nat)
  then show ?thesis by blast
qed

lemma sub32_zero_iff:
  assumes "finite32 x" "finite32 y"
  shows "mag32 (sub32 x y) = 0 \<longleftrightarrow> real32 x = real32 y"
proof
  assume "real32 x = real32 y"
  then show "mag32 (sub32 x y) = 0" using assms by (simp add: sub32_mag round_abs_def)
next
  assume z: "mag32 (sub32 x y) = 0"
  show "real32 x = real32 y"
  proof (rule ccontr)
    assume ne: "real32 x \<noteq> real32 y"
    obtain i j :: int where "mag_real 23 8 (mag32 x) = of_int i * 2 powi qmin 23 8"
      "mag_real 23 8 (mag32 y) = of_int j * 2 powi qmin 23 8"
      using mag_real_multiple mag32_bounds(1) by meson
    then have "real32 x = of_int (signed (sign32 x) i) * 2 powi qmin 23 8"
      "real32 y = of_int (signed (sign32 y) j) * 2 powi qmin 23 8"
      by (simp_all add: real32_def signed_def)
    then have "real32 x - real32 y = of_int (signed (sign32 x) i - signed (sign32 y) j) * 2 powi qmin 23 8"
      by (simp add: left_diff_distrib)
    then obtain k :: int where k: "real32 x - real32 y = of_int k * 2 powi qmin 23 8" by blast
    with ne have "k \<noteq> 0" by auto
    then have "1 \<le> \<bar>real_of_int k\<bar>" by linarith
    then have "2 powi qmin 23 8 \<le> \<bar>real32 x - real32 y\<bar>"
      unfolding k by (simp add: abs_mult)
    moreover have "mag_real 23 8 1 = 2 powi qmin 23 8" by (simp add: mag_real_unfold mag_mant_def mag_exp_def)
    ultimately have "round_abs 23 8 (mag_real 23 8 1) \<le> mag32 (sub32 x y)"
      using assms by (simp add: sub32_mag round_abs_mono)
    then show False using z round_abs_mag [of 1 23 8] by (simp add: mag_consts)
  qed
qed

lemma xor_high_bit:
  fixes w :: "32 word"
  shows "uint (xor w 0x80000000) = (if 2 ^ 31 \<le> uint w then uint w - 2 ^ 31 else uint w + 2 ^ 31)"
proof -
  have b: "0 \<le> uint w" "uint w < 2 ^ 32" using uint32_bound by simp_all
  have t: "take_bit 31 (uint (xor w 0x80000000)) = take_bit 31 (uint w)"
    by (simp add: unsigned_xor_eq)
  have "bit (2147483648 :: int) 31" by (simp add: bit_iff_odd)
  then have h: "bit (uint (xor w 0x80000000)) 31 = (\<not> bit (uint w) 31)"
    by (simp add: unsigned_xor_eq bit_xor_iff)
  have split: "n = take_bit 31 n + (if bit n 31 then 2 ^ 31 else 0)" "bit n 31 \<longleftrightarrow> 2 ^ 31 \<le> n"
    if "0 \<le> n" "n < 2 ^ 32" for n :: int
  proof -
    have d: "n div 2 ^ 31 = (if 2 ^ 31 \<le> n then 1 else 0)"
      using that by (auto intro: int_div_pos_eq [where r = "n - 2 ^ 31"])
    then show "bit n 31 \<longleftrightarrow> 2 ^ 31 \<le> n" by (simp add: bit_iff_odd)
    then show "n = take_bit 31 n + (if bit n 31 then 2 ^ 31 else 0)"
      using d div_mult_mod_eq [of n "2 ^ 31"] by (simp add: take_bit_eq_mod split: if_splits)
  qed
  have m: "0 \<le> uint (xor w 0x80000000)" "uint (xor w 0x80000000) < 2 ^ 32" using uint32_bound by simp_all
  show ?thesis
  proof (cases "bit (uint w) 31")
    case True
    then show ?thesis using split [OF b] split [OF m] t h by simp
  next
    case False
    then show ?thesis using split [OF b] split [OF m] t h by simp
  qed
qed

lemma neg32_sel [simp]: "mag32 (neg32 x) = mag32 x" "sign32 (neg32 x) = (\<not> sign32 x)"
proof -
  have b: "0 \<le> uint (Float32bits x)" "uint (Float32bits x) < 2 ^ 32" using uint32_bound by simp_all
  then show "mag32 (neg32 x) = mag32 x" "sign32 (neg32 x) = (\<not> sign32 x)"
    by (auto simp: neg32_def mag32_def sign32_def xor_high_bit)
qed

lemma finite32_neg [simp]: "finite32 (neg32 x) = finite32 x"
  by (simp add: finite32_mag)

lemma le32_mag_bound:
  assumes "finite32 x" "finite32 g" "\<not> sign32 g" "mag32 x \<le> mag32 g"
  shows "le32 (neg32 g) x \<and> le32 x g"
  using assms finite32_not_nan [of x] finite32_not_nan [of g] finite32_not_nan [of "neg32 g"]
    mag32_bounds(1) [of x]
  by (auto simp: le32_def key32_def signed_def simp del: mag32_bounds finite32_not_nan)

text \<open>Operations with a neutral operand.\<close>

lemma sub32_zero: "finite32 x \<Longrightarrow> mag32 x \<noteq> 0 \<Longrightarrow> sub32 x zero32 = x"
proof -
  assume x: "finite32 x" "mag32 x \<noteq> 0"
  have z: "real32 zero32 = 0" by (simp add: real32_eq_0)
  have p: "0 < mag_real 23 8 (mag32 x)" using x mag32_bounds(1) [of x] by (intro mag_real_pos) linarith
  have "real32 x \<noteq> 0" using x by (simp add: real32_eq_0)
  then have "sign32 (sub32 x zero32) = sign32 x"
    using x sub32_sign [of x zero32] p by (auto simp: z real32_def)
  moreover have "mag32 (sub32 x zero32) = mag32 x"
    using x by (simp add: sub32_mag z round_real32 finite32_le_inf)
  ultimately show ?thesis by (rule float32_eqI)
qed

lemma div32_one: "finite32 x \<Longrightarrow> div32 x one32 = x"
proof -
  assume x: "finite32 x"
  have "\<not> sign32 one32" by (simp add: one32_def sign32_def)
  then show ?thesis
    using x by (intro float32_eqI) (simp_all add: div32_sign div32_mag round_real32 finite32_le_inf)
qed

lemma mul32_one: "finite32 x \<Longrightarrow> mul32 x one32 = x"
proof -
  assume x: "finite32 x"
  have "\<not> sign32 one32" by (simp add: one32_def sign32_def)
  then show ?thesis
    using x by (intro float32_eqI) (simp_all add: mul32_sign mul32_mag round_real32 finite32_le_inf)
qed

end
