(* ===== verification/Processing.thy ===== *)
theory Processing
  imports Tracking FloatBounds
begin

text \<open>
  internal/processing, the stages of the pipeline: channels, configuration, calibration, tuning,
  filters, dropout and mutual exclusion. A channel identifier is a positive number; an array
  indexed by channel is a list of length channelCount. Arithmetic is IEEE arithmetic on the
  exact operands, rounded once per Go operation (no fused multiply-add). math.Pow is the
  parameter pow of the definitions that reach it; time.Duration is an int64.
\<close>

unbundle bit_operations_syntax

section \<open>Channels\<close>

datatype processing_error =
    ErrInvalidConfig | ErrUnknownChannel | ErrInvalidCalibration | ErrInvalidTuning | ErrInvalidFilter
  | ErrInvalidDropout | ErrInvalidMutualExclusion | ErrInvalidInput | ErrGenerationRegression
  | ErrRevisionRegression | ErrRevisionConflict | ErrTimeRegression
  | Wrapped processing_error processing_error \<comment> \<open>an error wrapping two, as "%w: %w" makes\<close>

definition ChannelEyeLeftGazeX :: nat where "ChannelEyeLeftGazeX = 1"
definition ChannelEyeLeftGazeY :: nat where "ChannelEyeLeftGazeY = 2"
definition ChannelEyeRightGazeX :: nat where "ChannelEyeRightGazeX = 3"
definition ChannelEyeRightGazeY :: nat where "ChannelEyeRightGazeY = 4"
definition ChannelEyeLeftOpenness :: nat where "ChannelEyeLeftOpenness = 5"
definition ChannelEyeRightOpenness :: nat where "ChannelEyeRightOpenness = 6"
definition ChannelEyeLeftPupilDiameter :: nat where "ChannelEyeLeftPupilDiameter = 7"
definition ChannelEyeRightPupilDiameter :: nat where "ChannelEyeRightPupilDiameter = 8"
definition ChannelEyeLeftPupilDilation :: nat where "ChannelEyeLeftPupilDilation = 9"
definition ChannelEyeRightPupilDilation :: nat where "ChannelEyeRightPupilDilation = 10"
definition channelExpressionBase :: nat where "channelExpressionBase = 11"

definition channelCount :: nat where "channelCount = channelExpressionBase + ExpressionCount - 1"

definition eyeChannelCount :: nat where "eyeChannelCount = channelExpressionBase - 1"

definition ExpressionChannel :: "nat \<Rightarrow> nat \<times> bool" where
  "ExpressionChannel eid = (if ExpressionCount \<le> eid then (0, False) else (channelExpressionBase + eid, True))"

definition channel_ExpressionID :: "nat \<Rightarrow> nat \<times> bool" where
  "channel_ExpressionID ch = (if ch < channelExpressionBase \<or> channelCount + 1 \<le> ch then (0, False)
     else (ch - channelExpressionBase, True))"

definition AllChannels :: "nat list" where
  "AllChannels = map (\<lambda>i. i + 1) [0..<channelCount]"

definition knownChannel :: "nat \<Rightarrow> bool" where
  "knownChannel ch \<longleftrightarrow> ChannelEyeLeftGazeX \<le> ch \<and> ch \<le> channelCount"

definition rawChannelValue :: "eye_sample \<Rightarrow> expression_set \<Rightarrow> nat \<Rightarrow> float32 \<times> bool" where
  "rawChannelValue eye expressions ch =
    (if ch = ChannelEyeLeftGazeX then (X (LeftGaze eye), eye_Valid eye AND EyeValidLeftGaze \<noteq> 0)
     else if ch = ChannelEyeLeftGazeY then (Y (LeftGaze eye), eye_Valid eye AND EyeValidLeftGaze \<noteq> 0)
     else if ch = ChannelEyeRightGazeX then (X (RightGaze eye), eye_Valid eye AND EyeValidRightGaze \<noteq> 0)
     else if ch = ChannelEyeRightGazeY then (Y (RightGaze eye), eye_Valid eye AND EyeValidRightGaze \<noteq> 0)
     else if ch = ChannelEyeLeftOpenness then (LeftOpenness eye, eye_Valid eye AND EyeValidLeftOpenness \<noteq> 0)
     else if ch = ChannelEyeRightOpenness then (RightOpenness eye, eye_Valid eye AND EyeValidRightOpenness \<noteq> 0)
     else if ch = ChannelEyeLeftPupilDiameter then (LeftPupilDiameterMM eye, eye_Valid eye AND EyeValidLeftPupil \<noteq> 0)
     else if ch = ChannelEyeRightPupilDiameter then (RightPupilDiameterMM eye, eye_Valid eye AND EyeValidRightPupil \<noteq> 0)
     else if ch = ChannelEyeLeftPupilDilation then (LeftPupilDilation eye, eye_Valid eye AND EyeValidLeftPupil \<noteq> 0)
     else if ch = ChannelEyeRightPupilDilation then (RightPupilDilation eye, eye_Valid eye AND EyeValidRightPupil \<noteq> 0)
     else (case channel_ExpressionID ch of
         (expression, ok) \<Rightarrow> if \<not> ok then (zero32, False) else exp_get expressions expression))"

section \<open>Configuration\<close>

record channel_calibration =
  Enabled :: bool
  Neutral :: float32
  cal_Min :: float32
  cal_Max :: float32
  cal_Gain :: float32
  Invert :: bool

record channel_tuning =
  Deadzone :: float32
  tun_Gain :: float32
  Exponent :: float32
  ClampEnabled :: bool
  ClampMin :: float32
  ClampMax :: float32

definition FilterNone :: string where "FilterNone = ''none''"
definition FilterEMA :: string where "FilterEMA = ''ema''"
definition FilterOneEuro :: string where "FilterOneEuro = ''one_euro''"

record filter_config =
  Mode :: string
  EMAAlpha :: float32
  MinCutoff :: float32
  Beta :: float32
  DerivativeCutoff :: float32

record dropout_policy =
  HoldDuration :: int
  DecayDuration :: int
  StaleAfter :: int

record channel_config =
  Calibration :: channel_calibration
  Tuning :: channel_tuning
  filter_cfg :: filter_config
  Dropout :: dropout_policy

record proc_config =
  DefaultChannel :: channel_config
  Overrides :: "(nat \<times> channel_config) list" \<comment> \<open>the map, in the order it is ranged over\<close>
  ActiveStaleAfter :: int
  MutualExclusion :: "nat list list"

record compiled_config =
  cc_channels :: "channel_config list"
  activeStaleAfter :: int
  mutualExclusion :: "nat list list"

definition millisecond :: int where "millisecond = 1000000"

definition DefaultConfig :: proc_config where
  "DefaultConfig = \<lparr>
     DefaultChannel = \<lparr>
       Calibration = \<lparr>Enabled = False, Neutral = zero32, cal_Min = zero32, cal_Max = zero32, cal_Gain = one32, Invert = False\<rparr>,
       Tuning = \<lparr>Deadzone = zero32, tun_Gain = one32, Exponent = one32, ClampEnabled = False, ClampMin = zero32, ClampMax = zero32\<rparr>,
       filter_cfg = \<lparr>Mode = FilterNone, EMAAlpha = zero32, MinCutoff = zero32, Beta = zero32, DerivativeCutoff = zero32\<rparr>,
       Dropout = \<lparr>HoldDuration = 100 * millisecond, DecayDuration = 300 * millisecond, StaleAfter = 500 * millisecond\<rparr>\<rparr>,
     Overrides = [], ActiveStaleAfter = 500 * millisecond, MutualExclusion = []\<rparr>"

definition validateCalibration :: "channel_calibration \<Rightarrow> (processing_error, unit) result" where
  "validateCalibration c = (if \<not> Enabled c then Inr ()
     else guard_result (\<not> finite32 (cal_Min c) \<or> \<not> finite32 (Neutral c) \<or> \<not> finite32 (cal_Max c) \<or> \<not> finite32 (cal_Gain c) \<or>
         lt32 (Neutral c) (cal_Min c) \<or> lt32 (cal_Max c) (Neutral c) \<or>
         (eq32 (cal_Min c) (Neutral c) \<and> eq32 (Neutral c) (cal_Max c)) \<or> le32 (cal_Gain c) zero32)
       ErrInvalidCalibration (Inr ()))"

definition validateTuning :: "channel_tuning \<Rightarrow> (processing_error, unit) result" where
  "validateTuning c =
     guard_result (\<not> finite32 (Deadzone c) \<or> \<not> finite32 (tun_Gain c) \<or> \<not> finite32 (Exponent c) \<or>
         lt32 (Deadzone c) zero32 \<or> le32 one32 (Deadzone c) \<or> le32 (tun_Gain c) zero32 \<or> le32 (Exponent c) zero32)
       ErrInvalidTuning
    (guard_result (ClampEnabled c \<and> (\<not> finite32 (ClampMin c) \<or> \<not> finite32 (ClampMax c) \<or> le32 (ClampMax c) (ClampMin c)))
       ErrInvalidTuning (Inr ()))"

definition validateFilter :: "filter_config \<Rightarrow> (processing_error, unit) result" where
  "validateFilter c =
    (if Mode c = FilterNone then Inr ()
     else if Mode c = FilterEMA \<and> finite32 (EMAAlpha c) \<and> lt32 zero32 (EMAAlpha c) \<and> le32 (EMAAlpha c) one32 then Inr ()
     else if Mode c = FilterOneEuro \<and> finite32 (MinCutoff c) \<and> finite32 (Beta c) \<and> finite32 (DerivativeCutoff c) \<and>
       lt32 zero32 (MinCutoff c) \<and> le32 zero32 (Beta c) \<and> lt32 zero32 (DerivativeCutoff c) then Inr ()
     else Inl ErrInvalidFilter)"

definition validateDropout :: "dropout_policy \<Rightarrow> (processing_error, unit) result" where
  "validateDropout c = guard_result (StaleAfter c \<le> 0 \<or> HoldDuration c < 0 \<or> DecayDuration c < 0) ErrInvalidDropout (Inr ())"

definition validateChannelConfig :: "channel_config \<Rightarrow> (processing_error, unit) result" where
  "validateChannelConfig c =
     bind_result (validateCalibration (Calibration c)) (\<lambda>_.
     bind_result (validateTuning (Tuning c)) (\<lambda>_.
     bind_result (validateFilter (filter_cfg c)) (\<lambda>_. validateDropout (Dropout c))))"

fun compile_group :: "nat list \<Rightarrow> nat list \<Rightarrow> nat list \<Rightarrow> (processing_error, nat list \<times> nat list) result" where
  \<comment> \<open>the inner loop of compileMutualExclusion: remaining channels, the grp so far, the channels seen\<close>
  "compile_group [] out seen = Inr (out, seen)"
| "compile_group (channel # grp) out seen =
     guard_result (\<not> knownChannel channel) ErrUnknownChannel
    (guard_result (channel \<in> set seen) ErrInvalidMutualExclusion
       (compile_group grp (out @ [channel]) (channel # seen)))"

fun compile_groups :: "nat list list \<Rightarrow> nat list list \<Rightarrow> nat list \<Rightarrow> (processing_error, nat list list) result" where
  "compile_groups [] out seen = Inr out"
| "compile_groups (grp # groups) out seen =
     guard_result (length grp < 2) ErrInvalidMutualExclusion
    (bind_result (compile_group grp [] seen) (\<lambda>(g, seen). compile_groups groups (out @ [g]) seen))"

definition compileMutualExclusion :: "nat list list \<Rightarrow> (processing_error, nat list list) result" where
  "compileMutualExclusion groups = compile_groups groups [] []"

fun compile_overrides :: "(nat \<times> channel_config) list \<Rightarrow> channel_config list \<Rightarrow> (processing_error, channel_config list) result" where
  "compile_overrides [] channels = Inr channels"
| "compile_overrides ((ch, config) # overrides) channels =
     guard_result (\<not> knownChannel ch) ErrUnknownChannel
    (bind_result (validateChannelConfig config) (\<lambda>_. compile_overrides overrides (channels[ch - 1 := config])))"

definition compileConfig :: "proc_config \<Rightarrow> (processing_error, compiled_config) result" where
  "compileConfig config =
     guard_result (ActiveStaleAfter config \<le> 0) ErrInvalidDropout
    (bind_result (validateChannelConfig (DefaultChannel config)) (\<lambda>_.
     bind_result (compile_overrides (Overrides config) (replicate channelCount (DefaultChannel config))) (\<lambda>channels.
     bind_result (compileMutualExclusion (MutualExclusion config)) (\<lambda>groups.
       Inr \<lparr>cc_channels = channels, activeStaleAfter = ActiveStaleAfter config, mutualExclusion = groups\<rparr>))))"

definition channelConfig :: "compiled_config \<Rightarrow> nat \<Rightarrow> channel_config" where
  "channelConfig c ch = cc_channels c ! (ch - 1)"

section \<open>Calibration and tuning\<close>

definition applyCalibration :: "channel_calibration \<Rightarrow> float32 \<Rightarrow> (processing_error, float32) result" where
  "applyCalibration c raw =
     guard_result (\<not> is_ok (validateCalibration c) \<or> \<not> finite32 raw) ErrInvalidCalibration
    (if \<not> Enabled c then Inr raw else
     let negativeSpan = sub32 (Neutral c) (cal_Min c); positiveSpan = sub32 (cal_Max c) (Neutral c);
         v1 = (if lt32 raw (cal_Min c) then cal_Min c else if lt32 (cal_Max c) raw then cal_Max c else raw);
         v2 = sub32 v1 (Neutral c);
         scale = (if lt32 v2 zero32 \<or> eq32 (cal_Max c) (Neutral c) then negativeSpan else positiveSpan);
         v3 = div32 v2 scale;
         v4 = (if Invert c then neg32 v3 else v3);
         v5 = mul32 v4 (cal_Gain c)
     in guard_result (\<not> finite32 negativeSpan) ErrInvalidCalibration
       (guard_result (\<not> finite32 positiveSpan) ErrInvalidCalibration
       (guard_result (\<not> finite32 v1) ErrInvalidCalibration
       (guard_result (\<not> finite32 v2) ErrInvalidCalibration
       (guard_result (\<not> finite32 scale \<or> eq32 scale zero32) ErrInvalidCalibration
       (guard_result (\<not> finite32 v3) ErrInvalidCalibration
       (guard_result (Invert c \<and> \<not> finite32 v4) ErrInvalidCalibration
       (guard_result (\<not> finite32 v5) ErrInvalidCalibration (Inr v5)))))))))"

definition applyTuning :: "(float64 \<Rightarrow> float64 \<Rightarrow> float64) \<Rightarrow> channel_tuning \<Rightarrow> float32 \<Rightarrow> (processing_error, float32) result" where
  "applyTuning pow t v =
     guard_result (\<not> is_ok (validateTuning t) \<or> \<not> finite32 v) ErrInvalidTuning
    (let inputMagnitude = narrow (abs64 (widen v)) in
     guard_result (\<not> finite32 inputMagnitude) ErrInvalidTuning
    (if le32 inputMagnitude (Deadzone t) then Inr zero32 else
     let scaled = div32 (sub32 inputMagnitude (Deadzone t)) (sub32 one32 (Deadzone t));
         magnitude = mul32 scaled (tun_Gain t);
         powered = narrow (pow (widen magnitude) (widen (Exponent t)));
         signed_value = narrow (copysign64 (widen powered) (widen v));
         clamped = (if lt32 signed_value (ClampMin t) then ClampMin t
                    else if lt32 (ClampMax t) signed_value then ClampMax t else signed_value)
     in guard_result (\<not> finite32 scaled) ErrInvalidTuning
       (guard_result (\<not> finite32 magnitude) ErrInvalidTuning
       (guard_result (\<not> finite32 powered) ErrInvalidTuning
       (guard_result (\<not> finite32 signed_value) ErrInvalidTuning
       (if ClampEnabled t then guard_result (\<not> finite32 clamped) ErrInvalidTuning (Inr clamped)
        else Inr signed_value))))))"

section \<open>Filters\<close>

record filter_state =
  initialized :: bool
  lastAtNS :: int
  lastRaw :: float64
  filteredValue :: float64
  filteredDerivative :: float64

definition filter_reset :: filter_state where
  "filter_reset = \<lparr>initialized = False, lastAtNS = 0, lastRaw = zero64, filteredValue = zero64, filteredDerivative = zero64\<rparr>"

definition two_pi64 :: float64 where "two_pi64 = Float64frombits 0x401921FB54442D18"

definition lowPassAlpha :: "float64 \<Rightarrow> float64 \<Rightarrow> float64" where
  "lowPassAlpha cutoff dt = (let tau = div64 one64 (mul64 two_pi64 cutoff) in
     div64 one64 (add64 one64 (div64 tau dt)))"

definition filter_step :: "filter_config \<Rightarrow> filter_state \<Rightarrow> float64 \<Rightarrow> float64 \<Rightarrow> (processing_error, float64 \<times> float64) result" where
  \<comment> \<open>the switch on the mode: the new filtered value and derivative\<close>
  "filter_step c s input dt =
    (if Mode c = FilterNone then Inr (input, zero64)
     else if Mode c = FilterEMA then
       (let alpha = widen (EMAAlpha c) in
        Inr (add64 (mul64 alpha input) (mul64 (sub64 one64 alpha) (filteredValue s)), zero64))
     else if Mode c = FilterOneEuro then
       (let rawDerivative = div64 (sub64 input (lastRaw s)) dt;
            derivativeAlpha = lowPassAlpha (widen (DerivativeCutoff c)) dt;
            derivative = add64 (mul64 derivativeAlpha rawDerivative)
              (mul64 (sub64 one64 derivativeAlpha) (filteredDerivative s));
            cutoff = add64 (widen (MinCutoff c)) (mul64 (widen (Beta c)) (abs64 derivative));
            valueAlpha = lowPassAlpha cutoff dt
        in guard_result (\<not> finite64 rawDerivative) ErrInvalidFilter
          (guard_result (\<not> finite64 derivativeAlpha) ErrInvalidFilter
          (guard_result (\<not> finite64 derivative) ErrInvalidFilter
          (guard_result (\<not> finite64 cutoff \<or> le64 cutoff zero64) ErrInvalidFilter
          (guard_result (\<not> finite64 valueAlpha) ErrInvalidFilter
             (Inr (add64 (mul64 valueAlpha input) (mul64 (sub64 one64 valueAlpha) (filteredValue s)), derivative)))))))
     else Inl ErrInvalidFilter)"

definition filter_apply :: "filter_config \<Rightarrow> float32 \<Rightarrow> int \<Rightarrow> filter_state \<Rightarrow> (processing_error, float32 \<times> filter_state) result" where
  "filter_apply c v atNS s =
     guard_result (\<not> is_ok (validateFilter c) \<or> \<not> finite32 v) ErrInvalidFilter
    (let input = widen v in
     guard_result (\<not> finite64 input) ErrInvalidFilter
    (if \<not> initialized s then
       Inr (v, s\<lparr>initialized := True, lastAtNS := atNS, lastRaw := input, filteredValue := input, filteredDerivative := zero64\<rparr>)
     else guard_result (atNS \<le> lastAtNS s) ErrInvalidFilter
      (let dt = div64 (float64_of_int (uint ((word_of_int atNS :: u64) - word_of_int (lastAtNS s)))) (float64_of_int 1000000000) in
       guard_result (\<not> finite64 dt \<or> le64 dt zero64) ErrInvalidFilter
      (bind_result (filter_step c s input dt) (\<lambda>(new_value, new_derivative).
       guard_result (\<not> finite64 new_value) ErrInvalidFilter
      (let res = narrow new_value in
       guard_result (\<not> finite32 res) ErrInvalidFilter
         (Inr (res, s\<lparr>lastAtNS := atNS, lastRaw := input, filteredValue := new_value, filteredDerivative := new_derivative\<rparr>))))))))"

section \<open>Dropout\<close>

record channel_state =
  filter_st :: filter_state
  seen :: bool
  lastFreshAtNS :: int
  lastFreshValue :: float32
  dropoutStartNS :: int

definition empty_channel :: channel_state where
  "empty_channel = \<lparr>filter_st = filter_reset, seen = False, lastFreshAtNS = 0, lastFreshValue = zero32, dropoutStartNS = 0\<rparr>"

definition addDurationSaturated :: "int \<Rightarrow> int \<Rightarrow> int" where
  "addDurationSaturated atNS duration =
    (if atNS > i64 (max_int64 - duration) then max_int64 else i64 (atNS + duration))"

definition recordFresh :: "float32 \<Rightarrow> int \<Rightarrow> dropout_policy \<Rightarrow> channel_state \<Rightarrow> channel_state" where
  "recordFresh v atNS policy s = s\<lparr>seen := True, lastFreshAtNS := atNS, lastFreshValue := v,
     dropoutStartNS := addDurationSaturated atNS (StaleAfter policy)\<rparr>"

definition recordUnavailable :: "int \<Rightarrow> channel_state \<Rightarrow> channel_state" where
  "recordUnavailable atNS s = (if seen s \<and> atNS < dropoutStartNS s then s\<lparr>dropoutStartNS := atNS\<rparr> else s)"

definition dropoutValue :: "channel_state \<Rightarrow> dropout_policy \<Rightarrow> int \<Rightarrow> float32 \<times> bool" where
  "dropoutValue s policy nowNS =
    (if \<not> seen s then (zero32, False)
     else if nowNS \<le> dropoutStartNS s then (lastFreshValue s, True)
     else let elapsed = i64 (nowNS - dropoutStartNS s) in
       if elapsed \<le> HoldDuration policy then (lastFreshValue s, True)
       else let afterHold = i64 (elapsed - HoldDuration policy) in
         if DecayDuration policy = 0 \<or> DecayDuration policy \<le> afterHold then (zero32, True)
         else let fractionRemaining = sub64 one64 (div64 (float64_of_int afterHold) (float64_of_int (DecayDuration policy)))
           in (mul32 (lastFreshValue s) (narrow fractionRemaining), True))"

section \<open>Mutual exclusion\<close>

record channel_candidate =
  cand_value :: float32
  cand_valid :: bool

fun find_winner :: "channel_candidate list \<Rightarrow> nat list \<Rightarrow> nat \<Rightarrow> float64 \<Rightarrow> nat \<times> float64" where
  "find_winner cands [] winner magnitude = (winner, magnitude)"
| "find_winner cands (ch # grp) winner winnerMagnitude =
    (if \<not> cand_valid (cands ! (ch - 1)) then find_winner cands grp winner winnerMagnitude
     else let magnitude = abs64 (widen (cand_value (cands ! (ch - 1)))) in
       if winner = 0 \<or> lt64 winnerMagnitude magnitude \<or> eq64 magnitude winnerMagnitude \<and> ch < winner
       then find_winner cands grp ch magnitude
       else find_winner cands grp winner winnerMagnitude)"

fun zero_losers :: "nat \<Rightarrow> nat list \<Rightarrow> channel_candidate list \<Rightarrow> channel_candidate list" where
  "zero_losers winner [] cands = cands"
| "zero_losers winner (ch # grp) cands = zero_losers winner grp
    (if ch \<noteq> winner \<and> cand_valid (cands ! (ch - 1))
     then cands[ch - 1 := (cands ! (ch - 1))\<lparr>cand_value := zero32\<rparr>] else cands)"

definition project_group :: "nat list \<Rightarrow> channel_candidate list \<Rightarrow> channel_candidate list" where
  "project_group grp cands = (case find_winner cands grp 0 zero64 of
     (winner, _) \<Rightarrow> if winner = 0 then cands else zero_losers winner grp cands)"

fun projectMutualExclusion :: "nat list list \<Rightarrow> channel_candidate list \<Rightarrow> channel_candidate list" where
  "projectMutualExclusion [] cands = cands"
| "projectMutualExclusion (grp # groups) cands = projectMutualExclusion groups (project_group grp cands)"

section \<open>Compiling the configuration\<close>

lemma compile_group_iff:
  "compile_group grp out sn = Inr r \<longleftrightarrow> list_all knownChannel grp \<and> distinct grp \<and> set grp \<inter> set sn = {} \<and>
    r = (out @ grp, rev grp @ sn)"
proof (induction grp arbitrary: out sn)
  case (Cons ch grp)
  then show ?case by (auto simp: guard_result_Inr)
qed auto

lemma compile_groups_iff:
  "compile_groups groups out sn = Inr r \<longleftrightarrow> list_all (\<lambda>g. 2 \<le> length g) groups \<and>
    list_all knownChannel (concat groups) \<and> distinct (concat groups) \<and> set (concat groups) \<inter> set sn = {} \<and>
    r = out @ groups"
proof (induction groups arbitrary: out sn)
  case (Cons g groups)
  have "compile_groups (g # groups) out sn = Inr r \<longleftrightarrow> 2 \<le> length g \<and> list_all knownChannel g \<and> distinct g \<and>
      set g \<inter> set sn = {} \<and> compile_groups groups (out @ [g]) (rev g @ sn) = Inr r"
    by (auto simp: guard_result_Inr bind_result_Inr compile_group_iff not_less)
  then show ?case unfolding Cons.IH by auto
qed auto

lemma compileMutualExclusion_iff:
  "compileMutualExclusion groups = Inr r \<longleftrightarrow> list_all (\<lambda>g. 2 \<le> length g) groups \<and>
    list_all knownChannel (concat groups) \<and> distinct (concat groups) \<and> r = groups"
  by (simp add: compileMutualExclusion_def compile_groups_iff)

lemma known_bounds: "knownChannel ch \<longleftrightarrow> 1 \<le> ch \<and> ch \<le> 86"
  by (simp add: knownChannel_def ChannelEyeLeftGazeX_def channelCount_def channelExpressionBase_def)

lemma channelCount_86 [simp]: "channelCount = 86"
  by (simp add: channelCount_def channelExpressionBase_def)

lemma compile_overrides_iff:
  "compile_overrides ovs chs = Inr r \<longleftrightarrow>
    list_all (\<lambda>(ch, c). knownChannel ch \<and> validateChannelConfig c = Inr ()) ovs \<and>
    r = fold (\<lambda>(ch, c) chs. chs[ch - 1 := c]) ovs chs"
  by (induction ovs arbitrary: chs) (auto simp: guard_result_Inr bind_result_Inr)

lemma fold_overrides_length [simp]: "length (fold (\<lambda>(ch, c) chs. chs[ch - Suc 0 := c]) ovs chs) = length chs"
  by (induction ovs arbitrary: chs) auto

lemma fold_overrides_nth:
  assumes "distinct (map fst ovs)" "\<forall>(ch, c) \<in> set ovs. 1 \<le> ch" "1 \<le> k" "k \<le> length chs"
  shows "fold (\<lambda>(ch, c) chs. chs[ch - 1 := c]) ovs chs ! (k - 1) =
    (case map_of ovs k of Some c \<Rightarrow> c | None \<Rightarrow> chs ! (k - 1))"
  using assms
proof (induction ovs arbitrary: chs)
  case (Cons ov ovs)
  obtain ch c where o: "ov = (ch, c)" by (cases ov)
  have ch: "1 \<le> ch" "ch \<notin> fst ` set ovs" using Cons.prems by (auto simp: o)
  have "ch - 1 = k - 1 \<longleftrightarrow> ch = k" using ch(1) Cons.prems(3) by linarith
  then have "chs[ch - 1 := c] ! (k - 1) = (if ch = k then c else chs ! (k - 1))"
    using Cons.prems(3,4) by (auto simp: nth_list_update)
  then show ?case
    using Cons.IH [of "chs[ch - 1 := c]"] Cons.prems ch
    by (auto simp: o map_of_eq_None_iff [THEN iffD2] split: option.split)
qed simp

lemma compileConfig_iff:
  "compileConfig c = Inr cc \<longleftrightarrow> 0 < ActiveStaleAfter c \<and> validateChannelConfig (DefaultChannel c) = Inr () \<and>
    list_all (\<lambda>(ch, ov). knownChannel ch \<and> validateChannelConfig ov = Inr ()) (Overrides c) \<and>
    list_all (\<lambda>g. 2 \<le> length g) (MutualExclusion c) \<and> list_all knownChannel (concat (MutualExclusion c)) \<and>
    distinct (concat (MutualExclusion c)) \<and>
    cc = \<lparr>cc_channels = fold (\<lambda>(ch, ov) chs. chs[ch - 1 := ov]) (Overrides c) (replicate 86 (DefaultChannel c)),
      activeStaleAfter = ActiveStaleAfter c, mutualExclusion = MutualExclusion c\<rparr>"
  by (auto simp: compileConfig_def guard_result_Inr bind_result_Inr compile_overrides_iff compileMutualExclusion_iff)

text \<open>Whether a configuration compiles, and what every channel is configured to,
  does not depend on the order in which the map of overrides is ranged over: a channel has its
  override if there is one and the default otherwise, and every compiled setting has been
  validated.\<close>

theorem compileConfig_channels:
  assumes "compileConfig c = Inr cc" and "distinct (map fst (Overrides c))"
    and "mset ovs = mset (Overrides c)" and "knownChannel ch"
  shows "compileConfig (c\<lparr>Overrides := ovs\<rparr>) = Inr cc \<and>
    channelConfig cc ch = (case map_of (Overrides c) ch of Some ov \<Rightarrow> ov | None \<Rightarrow> DefaultChannel c) \<and>
    validateChannelConfig (channelConfig cc ch) = Inr ()"
proof -
  note cc = assms(1) [unfolded compileConfig_iff]
  have sets: "set ovs = set (Overrides c)" using assms(3) mset_eq_setD by blast
  have dis: "distinct (map fst ovs)"
    using assms(2) mset_eq_imp_distinct_iff [of "map fst ovs" "map fst (Overrides c)"] assms(3) by simp
  have pos: "\<forall>(ch, ov) \<in> set (Overrides c). 1 \<le> ch" using cc by (auto simp: list_all_iff known_bounds)
  have same: "map_of ovs = map_of (Overrides c)" using map_of_inject_set [OF dis assms(2)] sets by simp
  have nth: "fold (\<lambda>(ch, ov) chs. chs[ch - 1 := ov]) os (replicate 86 (DefaultChannel c)) ! (k - 1) =
      (case map_of os k of Some ov \<Rightarrow> ov | None \<Rightarrow> DefaultChannel c)"
    if "distinct (map fst os)" "set os = set (Overrides c)" "1 \<le> k" "k \<le> 86" for os k
    using fold_overrides_nth [OF that(1), of k "replicate 86 (DefaultChannel c)"] pos that
    by (auto split: option.splits)
  have "fold (\<lambda>(ch, ov) chs. chs[ch - 1 := ov]) ovs (replicate 86 (DefaultChannel c)) =
      fold (\<lambda>(ch, ov) chs. chs[ch - 1 := ov]) (Overrides c) (replicate 86 (DefaultChannel c))"
  proof (rule nth_equalityI)
    fix i assume "i < length (fold (\<lambda>(ch, ov) chs. chs[ch - 1 := ov]) ovs (replicate 86 (DefaultChannel c)))"
    then show "fold (\<lambda>(ch, ov) chs. chs[ch - 1 := ov]) ovs (replicate 86 (DefaultChannel c)) ! i =
        fold (\<lambda>(ch, ov) chs. chs[ch - 1 := ov]) (Overrides c) (replicate 86 (DefaultChannel c)) ! i"
      using nth [OF dis sets, of "Suc i"] nth [OF assms(2) refl, of "Suc i"] same by simp
  qed simp
  then have "compileConfig (c\<lparr>Overrides := ovs\<rparr>) = Inr cc"
    using cc sets by (simp add: compileConfig_iff list_all_iff)
  moreover have "channelConfig cc ch = (case map_of (Overrides c) ch of Some ov \<Rightarrow> ov | None \<Rightarrow> DefaultChannel c)"
    using cc assms(4) nth [OF assms(2) refl, of ch] by (simp add: channelConfig_def known_bounds)
  moreover have "validateChannelConfig ov = Inr ()" if "map_of (Overrides c) ch = Some ov" for ov
    using cc map_of_SomeD [OF that] by (auto simp: list_all_iff)
  ultimately show ?thesis using cc by (auto split: option.split)
qed

definition sample_override :: channel_config where
  "sample_override = (DefaultChannel DefaultConfig)\<lparr>Tuning := (Tuning (DefaultChannel DefaultConfig))\<lparr>Deadzone := half32\<rparr>\<rparr>"

definition sample_config :: proc_config where
  "sample_config = DefaultConfig\<lparr>Overrides := [(5, sample_override), (6, sample_override)], MutualExclusion := [[33, 34], [40, 41, 42]]\<rparr>"

lemma sample_config_compiles: "\<exists>cc. compileConfig sample_config = Inr cc"
proof -
  have "validateChannelConfig (DefaultChannel DefaultConfig) = Inr ()" "validateChannelConfig sample_override = Inr ()"
    by code_simp+
  then show ?thesis
    by (simp add: compileConfig_iff sample_config_def known_bounds DefaultConfig_def millisecond_def)
qed

theorem compileConfig_channels_witness:
  "\<exists>cc. compileConfig (sample_config\<lparr>Overrides := [(6, sample_override), (5, sample_override)]\<rparr>) = Inr cc \<and>
    channelConfig cc 5 = sample_override \<and> channelConfig cc 7 = DefaultChannel DefaultConfig"
proof -
  obtain cc where cc: "compileConfig sample_config = Inr cc" using sample_config_compiles by blast
  have d: "distinct (map fst (Overrides sample_config))"
    "mset [(6, sample_override), (5, sample_override)] = mset (Overrides sample_config)"
    by (simp_all add: sample_config_def)
  have k: "knownChannel 5" "knownChannel 7" by (simp_all add: known_bounds)
  show ?thesis
    using compileConfig_channels [OF cc d k(1)] compileConfig_channels [OF cc d k(2)]
    by (auto simp: sample_config_def DefaultConfig_def)
qed

section \<open>Mutual exclusion keeps one winner\<close>

definition cand_ok :: "channel_candidate list \<Rightarrow> nat \<Rightarrow> bool" where
  "cand_ok cands ch \<longleftrightarrow> cand_valid (cands ! (ch - 1))"

definition cand_mag :: "channel_candidate list \<Rightarrow> nat \<Rightarrow> int" where
  "cand_mag cands ch = mag32 (cand_value (cands ! (ch - 1)))"

definition beats :: "channel_candidate list \<Rightarrow> nat \<Rightarrow> nat \<Rightarrow> bool" where
  \<comment> \<open>w comes before ch: larger magnitude, or the same and a smaller identifier\<close>
  "beats cands w ch \<longleftrightarrow> cand_mag cands ch < cand_mag cands w \<or> cand_mag cands ch = cand_mag cands w \<and> w \<le> ch"

lemma find_winner_spec:
  assumes "\<forall>ch \<in> set grp. 1 \<le> ch \<and> (cand_ok cands ch \<longrightarrow> finite32 (cand_value (cands ! (ch - 1))))"
    and "w = 0 \<or> cand_ok cands w \<and> finite32 (cand_value (cands ! (w - 1))) \<and> m = abs64 (widen (cand_value (cands ! (w - 1))))"
    and "find_winner cands grp w m = (w', m')"
  shows "(w' = 0 \<longrightarrow> w = 0 \<and> (\<forall>ch \<in> set grp. \<not> cand_ok cands ch)) \<and>
    (w' \<noteq> 0 \<longrightarrow> cand_ok cands w' \<and> (w' \<in> set grp \<or> w' = w) \<and> (w \<noteq> 0 \<longrightarrow> beats cands w' w) \<and>
      (\<forall>ch \<in> set grp. cand_ok cands ch \<longrightarrow> beats cands w' ch))"
  using assms
proof (induction cands grp w m rule: find_winner.induct)
  case (1 cands w m)
  then have w: "w' = w" and ok: "w = 0 \<or> cand_ok cands w" by auto
  show ?case unfolding w using ok by (auto simp: beats_def)
next
  case (2 cands ch grp w m)
  let ?val = "\<lambda>c. cand_value (cands ! (c - 1))"
  show ?case
  proof (cases "cand_ok cands ch")
    case False
    then have "find_winner cands grp w m = (w', m')" using "2.prems"(3) by (simp add: cand_ok_def)
    with "2.IH"(1) "2.prems" False show ?thesis by (auto simp: cand_ok_def)
  next
    case True
    have fin: "finite32 (?val ch)" "1 \<le> ch" using "2.prems"(1) True by auto
    define better where "better \<longleftrightarrow> w = 0 \<or> lt64 m (abs64 (widen (?val ch))) \<or> eq64 (abs64 (widen (?val ch))) m \<and> ch < w"
    have b: "better \<longleftrightarrow> w = 0 \<or> \<not> beats cands w ch"
      using "2.prems"(2) fin lt64_abs_widen [of "?val w" "?val ch"] lt64_abs_widen [of "?val ch" "?val w"]
      by (auto simp: better_def beats_def cand_mag_def)
    have tr: "beats cands a c" if "beats cands a b" "beats cands b c" for a b c
      using that by (auto simp: beats_def)
    have tot: "beats cands b a" if "\<not> beats cands a b" for a b
      using that by (auto simp: beats_def)
    show ?thesis
    proof (cases better)
      case yes: True
      then have "find_winner cands grp ch (abs64 (widen (?val ch))) = (w', m')"
        using "2.prems"(3) True by (simp add: cand_ok_def better_def Let_def)
      from "2.IH"(2) [OF _ refl _ _ _ this] "2.prems"(1) fin True yes
      have IH: "w' = 0 \<longrightarrow> ch = 0" "w' \<noteq> 0 \<longrightarrow> cand_ok cands w' \<and> (w' \<in> set grp \<or> w' = ch) \<and> (ch \<noteq> 0 \<longrightarrow> beats cands w' ch) \<and>
          (\<forall>c \<in> set grp. cand_ok cands c \<longrightarrow> beats cands w' c)"
        by (simp_all add: cand_ok_def better_def)
      have "w' \<noteq> 0" using IH(1) fin(2) by auto
      moreover have "beats cands w' ch" using IH(2) \<open>w' \<noteq> 0\<close> fin(2) by auto
      moreover have "w \<noteq> 0 \<longrightarrow> beats cands w' w" using b yes tot tr \<open>beats cands w' ch\<close> by blast
      ultimately show ?thesis using IH(2) by auto
    next
      case no: False
      then have "find_winner cands grp w m = (w', m')"
        using "2.prems"(3) True by (simp add: cand_ok_def better_def Let_def split: if_splits)
      from "2.IH"(3) [OF _ refl _ _ _ this] "2.prems"(1,2) True no
      have IH: "w' = 0 \<longrightarrow> w = 0" "w' \<noteq> 0 \<longrightarrow> cand_ok cands w' \<and> (w' \<in> set grp \<or> w' = w) \<and> (w \<noteq> 0 \<longrightarrow> beats cands w' w) \<and>
          (\<forall>c \<in> set grp. cand_ok cands c \<longrightarrow> beats cands w' c)"
        by (simp_all add: cand_ok_def better_def)
      have "w \<noteq> 0" "beats cands w ch" using b no by simp_all
      moreover have "w' \<noteq> 0" using IH(1) \<open>w \<noteq> 0\<close> by auto
      moreover have "beats cands w' ch" using IH(2) \<open>w' \<noteq> 0\<close> \<open>w \<noteq> 0\<close> tr [OF _ \<open>beats cands w ch\<close>] by auto
      ultimately show ?thesis using IH(2) by auto
    qed
  qed
qed

lemma zero_losers_nth:
  assumes "\<forall>ch \<in> set grp. 1 \<le> ch" "1 \<le> k" "k \<le> length cands"
  shows "zero_losers w grp cands ! (k - 1) = (if k \<in> set grp \<and> k \<noteq> w \<and> cand_ok cands k
    then (cands ! (k - 1))\<lparr>cand_value := zero32\<rparr> else cands ! (k - 1)) \<and> length (zero_losers w grp cands) = length cands"
  using assms
proof (induction w grp cands rule: zero_losers.induct)
  case (2 w ch grp cands)
  have "ch - 1 = k - 1 \<longleftrightarrow> ch = k" using 2 by (auto simp: le_diff_conv)
  then show ?case using 2 by (auto simp: cand_ok_def nth_list_update)
qed simp

definition group_projected :: "nat list \<Rightarrow> channel_candidate list \<Rightarrow> channel_candidate list \<Rightarrow> bool" where
  \<comment> \<open>one winner keeps its value, every other valid channel of the group becomes zero\<close>
  "group_projected g cands out \<longleftrightarrow> (\<exists>w. ((\<exists>ch \<in> set g. cand_ok cands ch) \<longrightarrow> w \<in> set g \<and> cand_ok cands w) \<and>
     (\<forall>ch \<in> set g. cand_ok cands ch \<longrightarrow> beats cands w ch) \<and>
     (\<forall>ch \<in> set g. out ! (ch - 1) = (if cand_ok cands ch \<and> ch \<noteq> w then (cands ! (ch - 1))\<lparr>cand_value := zero32\<rparr>
        else cands ! (ch - 1))))"

lemma project_group_spec:
  assumes "\<forall>ch \<in> set g. 1 \<le> ch \<and> ch \<le> length cands" and "\<forall>c \<in> set cands. cand_valid c \<longrightarrow> finite32 (cand_value c)"
  shows "group_projected g cands (project_group g cands)"
    and "length (project_group g cands) = length cands"
    and "1 \<le> k \<Longrightarrow> k \<le> length cands \<Longrightarrow> k \<notin> set g \<Longrightarrow> project_group g cands ! (k - 1) = cands ! (k - 1)"
proof -
  obtain w m where w: "find_winner cands g 0 zero64 = (w, m)" by fastforce
  have pre: "\<forall>ch \<in> set g. 1 \<le> ch \<and> (cand_ok cands ch \<longrightarrow> finite32 (cand_value (cands ! (ch - 1))))"
    using assms by (auto simp: cand_ok_def)
  note sp = find_winner_spec [OF pre _ w, simplified]
  have pg: "project_group g cands = (if w = 0 then cands else zero_losers w g cands)"
    by (simp add: project_group_def w)
  have nth: "zero_losers w g cands ! (k - 1) = (if k \<in> set g \<and> k \<noteq> w \<and> cand_ok cands k
    then (cands ! (k - 1))\<lparr>cand_value := zero32\<rparr> else cands ! (k - 1))"
    and len: "length (zero_losers w g cands) = length cands" if "1 \<le> k" "k \<le> length cands" for k
    using zero_losers_nth [of g k cands w] assms(1) that by auto
  show "group_projected g cands (project_group g cands)"
    unfolding group_projected_def
    by (rule exI [of _ w]) (use sp nth assms(1) in \<open>auto simp: pg\<close>)
  have "length (zero_losers w g cands) = length cands" for g
    by (induction w g cands rule: zero_losers.induct) auto
  then show "length (project_group g cands) = length cands" by (simp add: pg)
  show "1 \<le> k \<Longrightarrow> k \<le> length cands \<Longrightarrow> k \<notin> set g \<Longrightarrow> project_group g cands ! (k - 1) = cands ! (k - 1)"
    using nth [of k] by (auto simp: pg)
qed

lemma group_projected_finite:
  assumes "\<forall>ch \<in> set g. 1 \<le> ch \<and> ch \<le> length cands" and "\<forall>c \<in> set cands. cand_valid c \<longrightarrow> finite32 (cand_value c)"
  shows "\<forall>c \<in> set (project_group g cands). cand_valid c \<longrightarrow> finite32 (cand_value c)"
proof -
  have "cand_valid (project_group g cands ! i) \<longrightarrow> finite32 (cand_value (project_group g cands ! i))" if "i < length cands" for i
  proof (cases "Suc i \<in> set g")
    case True
    then show ?thesis using project_group_spec(1) [OF assms] assms(2) that unfolding group_projected_def by fastforce
  next
    case False
    then show ?thesis using project_group_spec(3) [OF assms, of "Suc i"] assms(2) that by simp
  qed
  then show ?thesis using project_group_spec(2) [OF assms] by (auto simp: in_set_conv_nth)
qed

lemma group_projected_cong:
  assumes "\<And>ch. ch \<in> set g \<Longrightarrow> cands ! (ch - 1) = cands' ! (ch - 1)" "\<And>ch. ch \<in> set g \<Longrightarrow> out ! (ch - 1) = out' ! (ch - 1)"
    and "group_projected g cands out"
  shows "group_projected g cands' out'"
proof -
  have ok: "cand_ok cands ch = cand_ok cands' ch" "cand_mag cands ch = cand_mag cands' ch" if "ch \<in> set g" for ch
    using assms(1) [OF that] by (simp_all add: cand_ok_def cand_mag_def)
  obtain w where w: "(\<exists>ch \<in> set g. cand_ok cands ch) \<longrightarrow> w \<in> set g \<and> cand_ok cands w"
    "\<forall>ch \<in> set g. cand_ok cands ch \<longrightarrow> beats cands w ch"
    "\<forall>ch \<in> set g. out ! (ch - 1) = (if cand_ok cands ch \<and> ch \<noteq> w then (cands ! (ch - 1))\<lparr>cand_value := zero32\<rparr>
        else cands ! (ch - 1))"
    using assms(3) unfolding group_projected_def by blast
  have "(\<exists>ch \<in> set g. cand_ok cands' ch) \<longrightarrow> w \<in> set g \<and> cand_ok cands' w" using w(1) ok by blast
  moreover have "\<forall>ch \<in> set g. cand_ok cands' ch \<longrightarrow> beats cands' w ch"
    using w(1,2) ok unfolding beats_def by metis
  moreover have "\<forall>ch \<in> set g. out' ! (ch - 1) = (if cand_ok cands' ch \<and> ch \<noteq> w then (cands' ! (ch - 1))\<lparr>cand_value := zero32\<rparr>
        else cands' ! (ch - 1))"
    using w(3) ok(1) assms(1,2) by metis
  ultimately show ?thesis unfolding group_projected_def by blast
qed

lemma project_all:
  assumes "\<forall>ch \<in> set (concat gs). 1 \<le> ch \<and> ch \<le> length cands" "distinct (concat gs)"
    and "\<forall>c \<in> set cands. cand_valid c \<longrightarrow> finite32 (cand_value c)"
  shows "(\<forall>g \<in> set gs. group_projected g cands (projectMutualExclusion gs cands)) \<and>
    length (projectMutualExclusion gs cands) = length cands \<and>
    (\<forall>k. 1 \<le> k \<longrightarrow> k \<le> length cands \<longrightarrow> k \<notin> set (concat gs) \<longrightarrow> projectMutualExclusion gs cands ! (k - 1) = cands ! (k - 1)) \<and>
    (\<forall>c \<in> set (projectMutualExclusion gs cands). cand_valid c \<longrightarrow> finite32 (cand_value c))"
  using assms
proof (induction gs cands rule: projectMutualExclusion.induct)
  case (2 g gs cands)
  let ?c = "project_group g cands" and ?out = "projectMutualExclusion (g # gs) cands"
  have g: "\<forall>ch \<in> set g. 1 \<le> ch \<and> ch \<le> length cands" using "2.prems"(1) by auto
  note ps = project_group_spec [OF g "2.prems"(3)]
  have IH: "\<forall>h \<in> set gs. group_projected h ?c ?out" "length ?out = length cands"
    "\<forall>k. 1 \<le> k \<longrightarrow> k \<le> length cands \<longrightarrow> k \<notin> set (concat gs) \<longrightarrow> ?out ! (k - 1) = ?c ! (k - 1)"
    "\<forall>c \<in> set ?out. cand_valid c \<longrightarrow> finite32 (cand_value c)"
    using "2.IH" "2.prems" ps(2) group_projected_finite [OF g "2.prems"(3)] by auto
  have first: "group_projected g cands ?out"
  proof (rule group_projected_cong [OF refl _ ps(1)])
    fix ch assume "ch \<in> set g"
    then have "ch \<notin> set (concat gs)" "1 \<le> ch" "ch \<le> length cands" using g "2.prems"(2) by auto
    then show "?c ! (ch - 1) = ?out ! (ch - 1)" using IH(3) by simp
  qed
  have others: "group_projected h cands ?out" if "h \<in> set gs" for h
  proof (rule group_projected_cong [OF _ refl])
    show "group_projected h ?c ?out" using IH(1) that by blast
    fix ch assume "ch \<in> set h"
    then have "ch \<notin> set g" "1 \<le> ch" "ch \<le> length cands" using that "2.prems"(1,2) by auto
    then show "?c ! (ch - 1) = cands ! (ch - 1)" using ps(3) by blast
  qed
  show ?case using first others IH ps(3) by auto
qed auto

text \<open>With compiled mutual-exclusion groups, projection keeps exactly one winner
  per group: the valid channel of largest magnitude, ties going to the smaller identifier, keeps
  its value, every other valid channel of the group becomes zero, and channels outside the groups
  and the validity of all channels are untouched.\<close>

theorem mutual_exclusion_one_winner:
  assumes "compileMutualExclusion groups = Inr gs" and "length cands = channelCount"
    and "\<forall>c \<in> set cands. cand_valid c \<longrightarrow> finite32 (cand_value c)"
  shows "(\<forall>g \<in> set gs. \<exists>w. ((\<exists>ch \<in> set g. cand_valid (cands ! (ch - 1))) \<longrightarrow> w \<in> set g \<and> cand_valid (cands ! (w - 1))) \<and>
      (\<forall>ch \<in> set g. cand_valid (cands ! (ch - 1)) \<longrightarrow>
        mag32 (cand_value (cands ! (ch - 1))) < mag32 (cand_value (cands ! (w - 1))) \<or>
        mag32 (cand_value (cands ! (ch - 1))) = mag32 (cand_value (cands ! (w - 1))) \<and> w \<le> ch) \<and>
      (\<forall>ch \<in> set g. projectMutualExclusion gs cands ! (ch - 1) =
        (if cand_valid (cands ! (ch - 1)) \<and> ch \<noteq> w then (cands ! (ch - 1))\<lparr>cand_value := zero32\<rparr> else cands ! (ch - 1)))) \<and>
    (\<forall>ch. knownChannel ch \<longrightarrow> ch \<notin> set (concat gs) \<longrightarrow> projectMutualExclusion gs cands ! (ch - 1) = cands ! (ch - 1))"
proof -
  have gs: "gs = groups" "distinct (concat groups)" "Ball (set (concat groups)) knownChannel"
    using assms(1) unfolding compileMutualExclusion_iff list_all_iff by blast+
  then have "\<forall>ch \<in> set (concat groups). 1 \<le> ch \<and> ch \<le> length cands"
    using assms(2) unfolding known_bounds channelCount_86 by metis
  note gs = gs(1,2) this
  note all = project_all [OF gs(3,2) assms(3)]
  show ?thesis
    using all assms(2) unfolding gs(1) group_projected_def cand_ok_def beats_def cand_mag_def known_bounds channelCount_86
    by simp
qed

theorem mutual_exclusion_one_winner_witness:
  "cand_value (projectMutualExclusion [[11, 12]] ((replicate 86 \<lparr>cand_value = half32, cand_valid = True\<rparr>)
     [11 := \<lparr>cand_value = one32, cand_valid = True\<rparr>]) ! 10) = zero32"
proof -
  let ?c = "(replicate 86 \<lparr>cand_value = half32, cand_valid = True\<rparr>)[11 := \<lparr>cand_value = one32, cand_valid = True\<rparr>]"
  have c: "compileMutualExclusion [[11, 12]] = Inr [[11, 12]]" by code_simp
  have "finite32 half32" by code_simp
  then have fin: "\<forall>c \<in> set ?c. cand_valid c \<longrightarrow> finite32 (cand_value c)"
    using set_update_subset_insert [of "replicate 86 \<lparr>cand_value = half32, cand_valid = True\<rparr>" 11 "\<lparr>cand_value = one32, cand_valid = True\<rparr>"]
    by fastforce
  have m: "mag32 half32 < mag32 one32" by (simp add: half32_def one32_def mag32_def)
  have len: "length ?c = channelCount" and mem: "[11, 12] \<in> set [[11, 12 :: nat]]" by simp_all
  have v: "?c ! (11 - 1) = \<lparr>cand_value = half32, cand_valid = True\<rparr>" "?c ! (12 - 1) = \<lparr>cand_value = one32, cand_valid = True\<rparr>"
    by simp_all
  from bspec [OF conjunct1 [OF mutual_exclusion_one_winner [OF c len fin]] mem] obtain w where
    w: "\<forall>ch \<in> set [11, 12]. cand_valid (?c ! (ch - 1)) \<longrightarrow>
        mag32 (cand_value (?c ! (ch - 1))) < mag32 (cand_value (?c ! (w - 1))) \<or>
        mag32 (cand_value (?c ! (ch - 1))) = mag32 (cand_value (?c ! (w - 1))) \<and> w \<le> ch"
    "\<forall>ch \<in> set [11, 12]. projectMutualExclusion [[11, 12]] ?c ! (ch - 1) =
        (if cand_valid (?c ! (ch - 1)) \<and> ch \<noteq> w then (?c ! (ch - 1))\<lparr>cand_value := zero32\<rparr> else ?c ! (ch - 1))"
    by blast
  have "w \<noteq> 11" using bspec [OF w(1), of 12] m unfolding v by auto
  then show ?thesis using bspec [OF w(2), of 11] unfolding v by simp
qed

section \<open>Calibration\<close>

lemma zero32_real [simp]: "real32 zero32 = 0"
  by (simp add: real32_eq_0)

lemma calibration_config:
  assumes "validateCalibration c = Inr ()" "Enabled c"
  shows "finite32 (cal_Min c)" "finite32 (Neutral c)" "finite32 (cal_Max c)" "finite32 (cal_Gain c)"
    "real32 (cal_Min c) \<le> real32 (Neutral c)" "real32 (Neutral c) \<le> real32 (cal_Max c)"
    "real32 (cal_Min c) < real32 (Neutral c) \<or> real32 (Neutral c) < real32 (cal_Max c)" "0 < real32 (cal_Gain c)"
proof -
  have f: "finite32 (cal_Min c)" "finite32 (Neutral c)" "finite32 (cal_Max c)" "finite32 (cal_Gain c)"
    using assms by (simp_all add: validateCalibration_def guard_result_Inr)
  then show "finite32 (cal_Min c)" "finite32 (Neutral c)" "finite32 (cal_Max c)" "finite32 (cal_Gain c)" by simp_all
  show "real32 (cal_Min c) \<le> real32 (Neutral c)" "real32 (Neutral c) \<le> real32 (cal_Max c)"
    "real32 (cal_Min c) < real32 (Neutral c) \<or> real32 (Neutral c) < real32 (cal_Max c)" "0 < real32 (cal_Gain c)"
    using assms f by (auto simp: validateCalibration_def guard_result_Inr order32_real)
qed

definition calibration_scaled :: "channel_calibration \<Rightarrow> float32 \<Rightarrow> float32 \<times> float32 \<times> float32" where
  \<comment> \<open>the clamped value, the centered value and the scale\<close>
  "calibration_scaled c raw =
    (let v1 = (if lt32 raw (cal_Min c) then cal_Min c else if lt32 (cal_Max c) raw then cal_Max c else raw);
         v2 = sub32 v1 (Neutral c)
     in (v1, v2, if lt32 v2 zero32 \<or> eq32 (cal_Max c) (Neutral c) then sub32 (Neutral c) (cal_Min c) else sub32 (cal_Max c) (Neutral c)))"

lemma calibration_scaled_ok:
  assumes c: "validateCalibration c = Inr ()" "Enabled c" and raw: "finite32 raw"
    and spans: "finite32 (sub32 (Neutral c) (cal_Min c))" "finite32 (sub32 (cal_Max c) (Neutral c))"
    and eq: "calibration_scaled c raw = (v1, v2, scale)"
  shows "finite32 v1 \<and> finite32 v2 \<and> finite32 scale \<and> real32 scale \<noteq> 0 \<and> mag32 v2 \<le> mag32 scale"
proof -
  note cfg = calibration_config [OF c]
  let ?mn = "real32 (cal_Min c)" and ?nt = "real32 (Neutral c)" and ?mx = "real32 (cal_Max c)"
  have v1: "finite32 v1" "?mn \<le> real32 v1" "real32 v1 \<le> ?mx"
    using eq raw cfg by (auto simp: calibration_scaled_def Let_def order32_real split: if_splits)
  have v2: "v2 = sub32 v1 (Neutral c)" using eq by (auto simp: calibration_scaled_def Let_def)
  have m2: "mag32 v2 = round_abs 23 8 \<bar>real32 v1 - ?nt\<bar>" using v1 cfg by (simp add: v2 sub32_mag)
  have neg: "mag32 v2 \<le> mag32 (sub32 (Neutral c) (cal_Min c))" if "real32 v1 \<le> ?nt"
    using that v1 cfg unfolding m2 by (simp add: sub32_mag round_abs_mono)
  have pos: "mag32 v2 \<le> mag32 (sub32 (cal_Max c) (Neutral c))" if "?nt \<le> real32 v1"
    using that v1 cfg unfolding m2 by (simp add: sub32_mag round_abs_mono)
  have fin: "finite32 v2"
    using neg pos spans mag32_le_finite by (cases "real32 v1 \<le> ?nt") auto
  have lt: "lt32 v2 zero32 \<longleftrightarrow> real32 v1 < ?nt"
  proof (cases "real32 v1 = ?nt")
    case True
    then have "mag32 v2 = 0" using sub32_zero_iff [OF v1(1) cfg(2)] by (simp add: v2)
    then show ?thesis using True fin real32_eq_0 [of v2] by (simp add: order32_real)
  next
    case False
    then have "mag32 v2 \<noteq> 0" "sign32 v2 = (real32 v1 < ?nt)"
      using sub32_zero_iff [OF v1(1) cfg(2)] sub32_sign [OF v1(1) cfg(2)] by (simp_all add: v2)
    then show ?thesis using fin mag32_bounds(1) [of v2] finite32_not_nan [OF fin]
      by (auto simp: lt32_def key32_def signed_def simp del: mag32_bounds finite32_not_nan)
  qed
  show ?thesis
  proof (cases "real32 v1 < ?nt \<or> ?mx = ?nt")
    case True
    then have "scale = sub32 (Neutral c) (cal_Min c)"
      using eq lt cfg by (auto simp: calibration_scaled_def Let_def order32_real simp flip: v2)
    moreover have "?mn < ?nt" "real32 v1 \<le> ?nt" using True v1 cfg by auto
    ultimately show ?thesis
      using v1(1) fin spans neg sub32_zero_iff [OF cfg(2,1)] by (simp add: real32_eq_0)
  next
    case False
    then have "scale = sub32 (cal_Max c) (Neutral c)"
      using eq lt cfg by (auto simp: calibration_scaled_def Let_def order32_real simp flip: v2)
    then show ?thesis
      using v1(1) fin spans pos False sub32_zero_iff [OF cfg(3,2)] by (simp add: real32_eq_0)
  qed
qed

lemma applyCalibration_alt:
  assumes "validateCalibration c = Inr ()" "Enabled c" "finite32 raw"
    and "finite32 (sub32 (Neutral c) (cal_Min c))" "finite32 (sub32 (cal_Max c) (Neutral c))"
  shows "\<exists>v. applyCalibration c raw = Inr v \<and> mag32 v \<le> mag32 (cal_Gain c)"
proof -
  obtain v1 v2 scale where eq: "calibration_scaled c raw = (v1, v2, scale)" by (cases "calibration_scaled c raw")
  note ok = calibration_scaled_ok [OF assms eq]
  define v3 where "v3 = div32 v2 scale"
  define v4 where "v4 = (if Invert c then neg32 v3 else v3)"
  have "mag32 v3 \<le> mag32 one32"
    unfolding v3_def using ok mag32_le_real [of v2 scale] by (intro div32_le_one) simp_all
  then have v4: "mag32 v4 \<le> mag32 one32" "finite32 v3" "finite32 v4"
    using mag32_le_finite [of v3 one32] by (simp_all add: v4_def)
  have g: "finite32 (cal_Gain c)" using calibration_config [OF assms(1,2)] by simp
  have v5: "mag32 (mul32 v4 (cal_Gain c)) \<le> mag32 (cal_Gain c)" using mul32_shrinks(2) [OF g v4(3,1)] .
  have "\<not> eq32 scale zero32" using ok by (simp add: order32_real)
  moreover have e: "(if lt32 raw (cal_Min c) then cal_Min c else if lt32 (cal_Max c) raw then cal_Max c else raw) = v1"
    "sub32 v1 (Neutral c) = v2"
    "(if lt32 v2 zero32 \<or> eq32 (cal_Max c) (Neutral c) then sub32 (Neutral c) (cal_Min c) else sub32 (cal_Max c) (Neutral c)) = scale"
    using eq unfolding calibration_scaled_def Let_def by blast+
  have "finite32 v1" "finite32 v2" "finite32 scale" "finite32 (mul32 v4 (cal_Gain c))"
    using ok mag32_le_finite [OF v5 g] by simp_all
  ultimately have "applyCalibration c raw = Inr (mul32 v4 (cal_Gain c))"
    unfolding applyCalibration_def Let_def e v3_def [symmetric] v4_def [symmetric]
    by (simp add: assms v4)
  with v5 show ?thesis by blast
qed

text \<open>With a validated, enabled calibration a finite input is mapped into
  [-Gain, Gain]; the only way it fails is a span that overflows float32. In particular the
  division is never by zero and no later step overflows.\<close>

theorem calibration_bounded:
  assumes "validateCalibration c = Inr ()" and "Enabled c" and "finite32 raw"
  shows "(is_ok (applyCalibration c raw) \<longleftrightarrow>
      finite32 (sub32 (Neutral c) (cal_Min c)) \<and> finite32 (sub32 (cal_Max c) (Neutral c))) \<and>
    (\<forall>v. applyCalibration c raw = Inr v \<longrightarrow> le32 (neg32 (cal_Gain c)) v \<and> le32 v (cal_Gain c))"
proof -
  have spans: "finite32 (sub32 (Neutral c) (cal_Min c)) \<and> finite32 (sub32 (cal_Max c) (Neutral c))"
    if "applyCalibration c raw = Inr v" for v
    using that assms(2) by (auto simp: applyCalibration_def guard_result_Inr Let_def)
  have g: "finite32 (cal_Gain c)" "0 < real32 (cal_Gain c)" using calibration_config [OF assms(1,2)] by simp_all
  then have pos: "\<not> sign32 (cal_Gain c)" using mag_real_ge0 [of "mag32 (cal_Gain c)" 23 8]
    by (auto simp: real32_def simp del: mag_real_ge0)
  have "le32 (neg32 (cal_Gain c)) v \<and> le32 v (cal_Gain c)" if "applyCalibration c raw = Inr v" for v
    using applyCalibration_alt [OF assms] spans [OF that] that le32_mag_bound [OF _ g(1) pos, of v]
      mag32_le_finite [of v "cal_Gain c"] g(1) by auto
  then show ?thesis using spans applyCalibration_alt [OF assms] by (auto simp: is_ok_iff)
qed

definition sample_calibration :: channel_calibration where
  "sample_calibration = \<lparr>Enabled = True, Neutral = half32, cal_Min = zero32, cal_Max = one32, cal_Gain = one32, Invert = True\<rparr>"

theorem calibration_bounded_witness:
  "\<exists>v. applyCalibration sample_calibration one32 = Inr v \<and> le32 (neg32 one32) v \<and> le32 v one32"
proof -
  have v: "validateCalibration sample_calibration = Inr ()" "Enabled sample_calibration" "finite32 one32" by code_simp+
  have "finite32 (sub32 (Neutral sample_calibration) (cal_Min sample_calibration))"
    "finite32 (sub32 (cal_Max sample_calibration) (Neutral sample_calibration))" by code_simp+
  then show ?thesis using calibration_bounded [OF v] by (auto simp: sample_calibration_def is_ok_iff)
qed

lemma applyCalibration_finite: "applyCalibration c raw = Inr v \<Longrightarrow> finite32 v"
  by (auto simp: applyCalibration_def guard_result_Inr Let_def split: if_splits)

section \<open>Tuning\<close>

lemma applyTuning_finite: "applyTuning pow t x = Inr v \<Longrightarrow> finite32 v"
  by (auto simp: applyTuning_def guard_result_Inr Let_def split: if_splits)

lemma copysign_narrow:
  assumes "finite32 m" "finite32 v"
  shows "narrow (copysign64 (widen m) (widen v)) = make32 (sign32 v) (mag32 m)"
  using assms by (simp add: copysign64_def narrow_make64_widen)

text \<open>Tuning, whatever math.Pow computes: an input inside the dead zone gives zero; any
  other result keeps the sign of the input when clamping is off and lies in [ClampMin, ClampMax]
  when it is on. Every result is finite.\<close>

theorem tuning_result:
  assumes "applyTuning pow t v = Inr r"
  shows "finite32 r \<and> (le32 (abs32 v) (Deadzone t) \<longrightarrow> r = zero32) \<and>
    (\<not> le32 (abs32 v) (Deadzone t) \<longrightarrow>
      (if ClampEnabled t then le32 (ClampMin t) r \<and> le32 r (ClampMax t) else sign32 r = sign32 v))"
proof -
  have v: "finite32 v" and ok: "validateTuning t = Inr ()"
    using assms by (auto simp: applyTuning_def guard_result_Inr is_ok_iff)
  show ?thesis
  proof (cases "le32 (abs32 v) (Deadzone t)")
    case True
    then show ?thesis using assms v by (auto simp: applyTuning_def guard_result_Inr Let_def)
  next
    case False
    define magnitude where "magnitude = mul32 (div32 (sub32 (abs32 v) (Deadzone t)) (sub32 one32 (Deadzone t))) (tun_Gain t)"
    define powered where "powered = narrow (pow (widen magnitude) (widen (Exponent t)))"
    define y where "y = narrow (copysign64 (widen powered) (widen v))"
    define clamped where "clamped = (if lt32 y (ClampMin t) then ClampMin t else if lt32 (ClampMax t) y then ClampMax t else y)"
    from assms False v have pw: "finite32 powered" and y: "finite32 y" and r: "r = (if ClampEnabled t then clamped else y)"
      by (auto simp: applyTuning_def guard_result_Inr Let_def magnitude_def powered_def y_def clamped_def split: if_splits)
    have "sign32 y = sign32 v"
      using mag32_bounds [of powered] by (simp add: y_def copysign_narrow [OF pw v] make32_sel)
    moreover have "le32 (ClampMin t) clamped \<and> le32 clamped (ClampMax t)" if "ClampEnabled t"
    proof -
      have c: "finite32 (ClampMin t)" "finite32 (ClampMax t)" "\<not> le32 (ClampMax t) (ClampMin t)"
        using ok that by (auto simp: validateTuning_def guard_result_Inr)
      then show ?thesis using y by (auto simp: clamped_def order32_real)
    qed
    ultimately show ?thesis using False r applyTuning_finite [OF assms] by auto
  qed
qed

definition sample_tuning :: channel_tuning where
  "sample_tuning = \<lparr>Deadzone = zero32, tun_Gain = one32, Exponent = one32, ClampEnabled = True, ClampMin = zero32, ClampMax = half32\<rparr>"

theorem tuning_result_witness:
  "\<exists>r. applyTuning (\<lambda>x y. x) sample_tuning one32 = Inr r \<and> le32 r half32"
proof -
  have "is_ok (applyTuning (\<lambda>x y. x) sample_tuning one32)" by code_simp
  then obtain r where r: "applyTuning (\<lambda>x y. x) sample_tuning one32 = Inr r" by (auto simp: is_ok_iff)
  have "\<not> le32 (abs32 one32) (Deadzone sample_tuning)" by code_simp
  with tuning_result [OF r] r show ?thesis by (simp add: sample_tuning_def)
qed

text \<open>The default tuning changes nothing but the sign of a negative zero.\<close>

definition identity_tuning :: channel_tuning where
  "identity_tuning = \<lparr>Deadzone = zero32, tun_Gain = one32, Exponent = one32, ClampEnabled = False, ClampMin = zero32, ClampMax = zero32\<rparr>"

definition positive_zero :: "float32 \<Rightarrow> float32" where
  "positive_zero v = (if mag32 v = 0 then zero32 else v)"

lemma identity_tuning_valid: "validateTuning identity_tuning = Inr ()"
  by code_simp

lemma applyTuning_identity:
  assumes "finite32 v" and "\<And>x. pow x one64 = x"
  shows "applyTuning pow identity_tuning v = Inr (positive_zero v)"
proof -
  have a: "mag32 (abs32 v) = mag32 v" "\<not> sign32 (abs32 v)" "finite32 (abs32 v)" using assms(1) by simp_all
  have dz: "le32 (abs32 v) zero32 \<longleftrightarrow> mag32 v = 0"
    using a mag32_bounds(1) [of v] by (auto simp: le32_def key32_def signed_def simp del: mag32_bounds)
  show ?thesis
  proof (cases "mag32 v = 0")
    case True
    then show ?thesis
      using dz assms(1) identity_tuning_valid
      by (simp add: applyTuning_def identity_tuning_def positive_zero_def)
  next
    case False
    have "sub32 (abs32 v) zero32 = abs32 v" "sub32 one32 zero32 = one32"
      using False a sub32_zero [of "abs32 v"] sub32_zero [of one32] by simp_all
    then have m: "mul32 (div32 (sub32 (abs32 v) zero32) (sub32 one32 zero32)) one32 = abs32 v"
      using a(3) by (simp add: div32_one mul32_one)
    have w1: "widen one32 = one64" by code_simp
    have "narrow (copysign64 (widen (abs32 v)) (widen v)) = v"
      using assms(1) by (simp add: copysign_narrow)
    then show ?thesis
      using False dz assms identity_tuning_valid m a(3) \<open>sub32 (abs32 v) zero32 = abs32 v\<close> \<open>sub32 one32 zero32 = one32\<close>
      by (simp add: applyTuning_def identity_tuning_def positive_zero_def Let_def w1 div32_one mul32_one)
  qed
qed

section \<open>Dropout\<close>

lemma addDurationSaturated_eq:
  assumes "is_i64 atNS" "0 \<le> duration" "is_i64 duration"
  shows "addDurationSaturated atNS duration = min max_int64 (atNS + duration)"
  using assms by (auto simp: addDurationSaturated_def is_i64_def max_int64_def)

lemma decay_fraction:
  assumes "0 < a" "a < b" "b < 2 ^ 63"
  shows "finite64 (sub64 one64 (div64 (float64_of_int a) (float64_of_int b))) \<and>
    mag32 (narrow (sub64 one64 (div64 (float64_of_int a) (float64_of_int b)))) \<le> mag32 one32"
proof -
  let ?a = "float64_of_int a" and ?b = "float64_of_int b"
  have b62: "round_abs 52 11 (of_int b) \<le> mag64 (float64_of_int (2 ^ 63))"
    using assms by (simp only: float64_of_int_mag) (intro round_abs_mono; simp)
  have "mag64 (float64_of_int (2 ^ 63)) < inf_mag 52 11" by code_simp
  then have fin: "finite64 ?b" "finite64 ?a" "mag64 ?a \<le> mag64 ?b"
    using b62 assms round_abs_mono [of "of_int a" "of_int b" 52 11] by (auto simp: finite64_mag float64_of_int_mag)
  have "mag64 (float64_of_int 1) \<le> mag64 ?b"
    using assms unfolding float64_of_int_mag by (intro round_abs_mono) simp_all
  moreover have "0 < mag64 (float64_of_int 1)" by code_simp
  ultimately have bpos: "0 < mag64 ?b" by simp
  then have rb: "real64 ?b \<noteq> 0" using mag_real_pos [OF bpos, of 52 11] by (simp add: real64_def)
  define q where "q = div64 ?a ?b"
  have sa: "\<not> sign64 ?a" "\<not> sign64 ?b"
    using assms round_mag_nonneg [of a 1 52 11 0] round_mag_nonneg [of b 1 52 11 0] round_mag_le [of 52 11 a 1 0] round_mag_le [of 52 11 b 1 0]
    by (simp_all add: float64_of_int_def make64_sel mag_consts)
  then have r: "0 \<le> real64 ?a" "0 < real64 ?b"
    using rb by (auto simp: real64_def order_less_le)
  have "real64 ?a \<le> real64 ?b" using mag64_le_real [OF fin(2,1,3)] r by simp
  then have "mag64 q \<le> round_abs 52 11 1"
    unfolding q_def using fin rb r by (subst div64_mag) (auto intro!: round_abs_mono simp: divide_le_eq_1)
  then have q: "mag64 q \<le> mag64 one64" "finite64 q" by (simp_all add: round_abs_1 finite64_mag mag_consts)
  have qs: "\<not> sign64 q" using sa fin rb by (simp add: q_def div64_sign)
  have "0 \<le> real64 q" "real64 q \<le> 1"
    using qs mag64_le_real [OF q(2) one64_sel(2) q(1)] unfolding real64_one by (simp_all add: real64_def)
  then have "round_abs 52 11 \<bar>real64 one64 - real64 q\<bar> \<le> round_abs 52 11 1" by (intro round_abs_mono) simp_all
  then have d: "mag64 (sub64 one64 q) \<le> mag64 one64" using q by (simp add: sub64_mag round_abs_1)
  then have "finite64 (sub64 one64 q)" by (simp add: finite64_mag mag_consts)
  with narrow_le_one [OF this d] show ?thesis by (simp add: q_def)
qed

text \<open>Once a channel has been seen it always has a value. The value is the last fresh
  one until the dropout has been held for HoldDuration, zero once HoldDuration and DecayDuration
  have both passed, and never larger in magnitude than the last fresh value.\<close>

theorem dropout_value:
  assumes "validateDropout policy = Inr ()" and "seen s" and "finite32 (lastFreshValue s)"
    and "0 \<le> dropoutStartNS s" and "is_i64 (dropoutStartNS s)" and "is_i64 nowNS"
    and "is_i64 (HoldDuration policy)" and "is_i64 (DecayDuration policy)"
  shows "\<exists>v. dropoutValue s policy nowNS = (v, True) \<and> finite32 v \<and> mag32 v \<le> mag32 (lastFreshValue s) \<and>
    (nowNS \<le> dropoutStartNS s + HoldDuration policy \<longrightarrow> v = lastFreshValue s) \<and>
    (dropoutStartNS s + HoldDuration policy + DecayDuration policy \<le> nowNS \<and>
      dropoutStartNS s + HoldDuration policy < nowNS \<longrightarrow> v = zero32)"
proof -
  have pol: "0 \<le> HoldDuration policy" "0 \<le> DecayDuration policy"
    using assms(1) by (auto simp: validateDropout_def guard_result_Inr not_less)
  let ?e = "nowNS - dropoutStartNS s" and ?h = "HoldDuration policy" and ?d = "DecayDuration policy"
  consider (fresh) "?e \<le> 0" | (hold) "0 < ?e" "?e \<le> ?h" | (gone) "0 < ?e" "?h < ?e" "?d = 0 \<or> ?d \<le> ?e - ?h"
    | (decay) "0 < ?e" "?h < ?e" "?d \<noteq> 0" "?e - ?h < ?d"
    by linarith
  then show ?thesis
  proof cases
    case decay
    have i: "i64 ?e = ?e" "i64 (?e - ?h) = ?e - ?h"
      using decay assms pol by (auto simp: is_i64_def max_int64_def intro!: i64_id)
    define f where "f = narrow (sub64 one64 (div64 (float64_of_int (?e - ?h)) (float64_of_int ?d)))"
    have "mag32 f \<le> mag32 one32"
      unfolding f_def using decay_fraction [of "?e - ?h" ?d] decay assms(8) by (simp add: is_i64_def max_int64_def)
    then have f: "finite32 f" "mag32 f \<le> mag32 one32" using mag32_le_finite [of f one32] by auto
    have "dropoutValue s policy nowNS = (mul32 (lastFreshValue s) f, True)"
      using decay i assms(2) by (simp add: dropoutValue_def Let_def f_def)
    moreover have "mag32 (mul32 (lastFreshValue s) f) \<le> mag32 (lastFreshValue s)"
      using mul32_shrinks(1) [OF assms(3) f] .
    ultimately show ?thesis using decay mag32_le_finite assms(3) by auto
  next
    case hold
    have "i64 ?e = ?e" using hold assms by (auto simp: is_i64_def max_int64_def intro!: i64_id)
    then show ?thesis using hold assms(2,3) pol by (simp add: dropoutValue_def Let_def)
  next
    case gone
    have "i64 ?e = ?e" "i64 (?e - ?h) = ?e - ?h"
      using gone assms pol by (auto simp: is_i64_def max_int64_def intro!: i64_id)
    then show ?thesis using gone assms(2) by (auto simp: dropoutValue_def Let_def)
  next
    case fresh
    then show ?thesis using assms(2,3) pol by (simp add: dropoutValue_def)
  qed
qed

definition sample_channel :: channel_state where
  "sample_channel = empty_channel\<lparr>seen := True, lastFreshValue := one32, dropoutStartNS := 1000\<rparr>"

theorem dropout_value_witness:
  "fst (dropoutValue sample_channel (Dropout (DefaultChannel DefaultConfig)) 1000000000) = zero32"
proof -
  let ?p = "Dropout (DefaultChannel DefaultConfig)"
  have v: "validateDropout ?p = Inr ()" by code_simp
  have h: "HoldDuration ?p = 100000000" "DecayDuration ?p = 300000000"
    by (simp_all add: DefaultConfig_def millisecond_def)
  have "\<exists>v. dropoutValue sample_channel ?p 1000000000 = (v, True) \<and> finite32 v \<and> mag32 v \<le> mag32 (lastFreshValue sample_channel) \<and>
    (1000000000 \<le> dropoutStartNS sample_channel + HoldDuration ?p \<longrightarrow> v = lastFreshValue sample_channel) \<and>
    (dropoutStartNS sample_channel + HoldDuration ?p + DecayDuration ?p \<le> 1000000000 \<and>
      dropoutStartNS sample_channel + HoldDuration ?p < 1000000000 \<longrightarrow> v = zero32)"
    by (rule dropout_value [OF v]) (simp_all add: sample_channel_def h is_i64_range)
  then show ?thesis by (auto simp: h sample_channel_def)
qed

end
