(* ===== verification/Pipeline.thy ===== *)
theory Pipeline
  imports Processing
begin

text \<open>
  internal/processing/pipeline.go, validation.go and canonical.go: the pipeline state machine that
  turns merged frames into canonical frames. ProcessAt works on a copy of the pipeline that it
  commits only on success, which is the state the functions below return.
\<close>

unbundle bit_operations_syntax

section \<open>Input validation\<close>

definition validateGroup :: "bool \<Rightarrow> string \<Rightarrow> int \<Rightarrow> int \<Rightarrow> bool \<Rightarrow> (processing_error, unit) result" where
  "validateGroup capable source updatedAtNS nowNS hasData =
    (if capable then
       guard_result (source = []) ErrInvalidInput
      (guard_result (updatedAtNS \<le> 0 \<or> updatedAtNS > nowNS) ErrInvalidInput (Inr ()))
     else guard_result (source \<noteq> [] \<or> updatedAtNS \<noteq> 0 \<or> hasData) ErrInvalidInput (Inr ()))"

definition model_frame :: "merged_frame \<Rightarrow> tracking_frame" where
  "model_frame f = \<lparr>Sequence = 0, TimestampNS = 0, Capabilities = mf_Capabilities f, SourceClockNS = 0,
     Eye = mf_Eye f, Expressions = mf_Expressions f\<rparr>"

definition validateMergedInput :: "merged_frame \<Rightarrow> int \<Rightarrow> (processing_error, unit) result" where
  "validateMergedInput f nowNS =
     guard_result (Generation f = 0) ErrInvalidInput
    (guard_result (mf_Sequence f = 0) ErrInvalidInput
    (guard_result (nowNS < 0) ErrInvalidInput
    (guard_result (UpdatedAtNS f < 0 \<or> UpdatedAtNS f > nowNS) ErrInvalidInput
    (guard_result (mf_Capabilities f AND NOT knownCapabilities \<noteq> 0) ErrInvalidInput
    (bind_result (validateGroup (cap_has (mf_Capabilities f) CapabilityEye) (EyeSourceID f) (EyeUpdatedAtNS f) nowNS
        (\<not> eye_eq (mf_Eye f) empty_eye)) (\<lambda>_.
     bind_result (validateGroup (cap_has (mf_Capabilities f) CapabilityExpression) (ExpressionSourceID f)
        (ExpressionUpdatedAtNS f) nowNS (\<not> exp_eq (mf_Expressions f) empty_expressions)) (\<lambda>_.
     bind_result (validateGroup (cap_has (mf_Capabilities f) CapabilityLip) (LipSourceID f) (LipUpdatedAtNS f) nowNS False) (\<lambda>_.
     (case frame_validate (model_frame f) of Inl _ \<Rightarrow> Inl ErrInvalidInput | Inr _ \<Rightarrow> Inr ())))))))))"

section \<open>State\<close>

record pipeline =
  config :: compiled_config
  channels :: "channel_state list"
  hasLast :: bool
  lastInput :: merged_frame
  lastNowNS :: int

record canonical_frame =
  cf_Generation :: u64
  Revision :: u64
  ProcessedAtNS :: int
  cf_EyeSourceID :: string
  cf_ExpressionSourceID :: string
  cf_LipSourceID :: string
  EyeActive :: bool
  ExpressionActive :: bool
  LipActive :: bool
  cf_Eye :: eye_sample
  cf_Expressions :: expression_set

definition NewPipeline :: "proc_config \<Rightarrow> (processing_error, pipeline) result" where
  "NewPipeline c = (case compileConfig c of
     Inl e \<Rightarrow> Inl (Wrapped ErrInvalidConfig e)
   | Inr compiled \<Rightarrow> Inr \<lparr>config = compiled, channels = replicate channelCount empty_channel, hasLast = False,
       lastInput = empty_merged, lastNowNS = 0\<rparr>)"

definition merged_eq :: "merged_frame \<Rightarrow> merged_frame \<Rightarrow> bool" where
  \<comment> \<open>Go's == on MergedFrame\<close>
  "merged_eq a b \<longleftrightarrow> Generation a = Generation b \<and> mf_Sequence a = mf_Sequence b \<and> UpdatedAtNS a = UpdatedAtNS b \<and>
     mf_Capabilities a = mf_Capabilities b \<and> eye_eq (mf_Eye a) (mf_Eye b) \<and> exp_eq (mf_Expressions a) (mf_Expressions b) \<and>
     EyeSourceID a = EyeSourceID b \<and> ExpressionSourceID a = ExpressionSourceID b \<and> LipSourceID a = LipSourceID b \<and>
     EyeUpdatedAtNS a = EyeUpdatedAtNS b \<and> ExpressionUpdatedAtNS a = ExpressionUpdatedAtNS b \<and>
     LipUpdatedAtNS a = LipUpdatedAtNS b"

definition saturatedFreshnessNonregressing :: "merged_frame \<Rightarrow> merged_frame \<Rightarrow> bool" where
  "saturatedFreshnessNonregressing previous f =
    (if UpdatedAtNS f < UpdatedAtNS previous then False
     else if EyeSourceID previous \<noteq> [] \<and> EyeSourceID previous = EyeSourceID f \<and> EyeUpdatedAtNS f < EyeUpdatedAtNS previous then False
     else if ExpressionSourceID previous \<noteq> [] \<and> ExpressionSourceID previous = ExpressionSourceID f \<and>
       ExpressionUpdatedAtNS f < ExpressionUpdatedAtNS previous then False
     else if LipSourceID previous \<noteq> [] \<and> LipSourceID previous = LipSourceID f \<and> LipUpdatedAtNS f < LipUpdatedAtNS previous then False
     else True)"

definition classifyInput :: "pipeline \<Rightarrow> merged_frame \<Rightarrow> int \<Rightarrow> (processing_error, bool \<times> bool) result" where
  \<comment> \<open>(newInput, generationReset)\<close>
  "classifyInput p f nowNS =
    (if \<not> hasLast p then Inr (True, True)
     else let previous = lastInput p in
       guard_result (Generation f < Generation previous) ErrGenerationRegression
      (if Generation f > Generation previous then
         guard_result (nowNS \<le> lastNowNS p) ErrTimeRegression (Inr (True, True))
       else guard_result (mf_Sequence f < mf_Sequence previous) ErrRevisionRegression
        (if mf_Sequence f = mf_Sequence previous \<and> merged_eq f previous then
           guard_result (nowNS < lastNowNS p) ErrTimeRegression (Inr (False, False))
         else guard_result (mf_Sequence f = mf_Sequence previous \<and> mf_Sequence f \<noteq> max_u64) ErrRevisionConflict
          (guard_result (mf_Sequence f = mf_Sequence previous \<and> \<not> saturatedFreshnessNonregressing previous f) ErrRevisionConflict
          (guard_result (nowNS \<le> lastNowNS p) ErrTimeRegression (Inr (True, False)))))))"

section \<open>Channel ranges\<close>

definition resetChannels :: "nat \<Rightarrow> nat \<Rightarrow> channel_state list \<Rightarrow> channel_state list" where
  "resetChannels start stop chs = fold (\<lambda>i chs. chs[i := empty_channel]) [start..<stop] chs"

definition markUnavailable :: "int \<Rightarrow> nat \<Rightarrow> nat \<Rightarrow> channel_state list \<Rightarrow> channel_state list" where
  "markUnavailable atNS start stop chs = fold (\<lambda>i chs. chs[i := recordUnavailable atNS (chs ! i)]) [start..<stop] chs"

definition ingest_channel :: "(float64 \<Rightarrow> float64 \<Rightarrow> float64) \<Rightarrow> compiled_config \<Rightarrow> merged_frame \<Rightarrow> int \<Rightarrow> nat \<Rightarrow>
    channel_state list \<Rightarrow> (processing_error, channel_state list) result" where
  \<comment> \<open>the body of ingestRange's loop\<close>
  "ingest_channel pow cc f atNS index chs = (case rawChannelValue (mf_Eye f) (mf_Expressions f) (index + 1) of
     (raw, valid) \<Rightarrow> if \<not> valid then Inr chs else
       let c = channelConfig cc (index + 1) in
       (case applyCalibration (Calibration c) raw of
          Inl e \<Rightarrow> Inl (Wrapped ErrInvalidInput e)
        | Inr calibrated \<Rightarrow> (case applyTuning pow (Tuning c) calibrated of
            Inl e \<Rightarrow> Inl (Wrapped ErrInvalidInput e)
          | Inr tuned \<Rightarrow> (case filter_apply (filter_cfg c) tuned atNS (filter_st (chs ! index)) of
              Inl e \<Rightarrow> Inl (Wrapped ErrInvalidInput e)
            | Inr (filtered, st) \<Rightarrow>
                Inr (chs[index := recordFresh filtered atNS (Dropout c) ((chs ! index)\<lparr>filter_st := st\<rparr>)])))))"

definition ingestRange :: "(float64 \<Rightarrow> float64 \<Rightarrow> float64) \<Rightarrow> compiled_config \<Rightarrow> merged_frame \<Rightarrow> int \<Rightarrow> nat \<Rightarrow> nat \<Rightarrow>
    channel_state list \<Rightarrow> (processing_error, channel_state list) result" where
  "ingestRange pow cc f atNS start stop = fold_result (ingest_channel pow cc f atNS) [start..<stop]"

section \<open>The canonical frame\<close>

definition groupActive :: "bool \<Rightarrow> string \<Rightarrow> int \<Rightarrow> int \<Rightarrow> int \<Rightarrow> bool" where
  "groupActive capable source updatedAtNS nowNS staleAfter \<longleftrightarrow>
     capable \<and> source \<noteq> [] \<and> i64 (nowNS - updatedAtNS) \<le> staleAfter"

definition candidate_list :: "pipeline \<Rightarrow> int \<Rightarrow> channel_candidate list" where
  "candidate_list p nowNS = map (\<lambda>index.
     case dropoutValue (channels p ! index) (Dropout (channelConfig (config p) (index + 1))) nowNS of
       (v, ok) \<Rightarrow> \<lparr>cand_value = v, cand_valid = ok\<rparr>) [0..<channelCount]"

definition cand_at :: "channel_candidate list \<Rightarrow> nat \<Rightarrow> channel_candidate" where
  "cand_at cands ch = cands ! (ch - 1)"

definition eye_of_candidates :: "channel_candidate list \<Rightarrow> eye_sample" where
  "eye_of_candidates cands = (let
     ok = (\<lambda>ch. cand_valid (cand_at cands ch)); val = (\<lambda>ch. cand_value (cand_at cands ch)); e0 = empty_eye;
     e1 = (if ok ChannelEyeLeftGazeX \<and> ok ChannelEyeLeftGazeY
           then e0\<lparr>eye_Valid := eye_Valid e0 OR EyeValidLeftGaze,
                   LeftGaze := \<lparr>X = val ChannelEyeLeftGazeX, Y = val ChannelEyeLeftGazeY\<rparr>\<rparr> else e0);
     e2 = (if ok ChannelEyeRightGazeX \<and> ok ChannelEyeRightGazeY
           then e1\<lparr>eye_Valid := eye_Valid e1 OR EyeValidRightGaze,
                   RightGaze := \<lparr>X = val ChannelEyeRightGazeX, Y = val ChannelEyeRightGazeY\<rparr>\<rparr> else e1);
     e3 = (if ok ChannelEyeLeftOpenness
           then e2\<lparr>eye_Valid := eye_Valid e2 OR EyeValidLeftOpenness, LeftOpenness := val ChannelEyeLeftOpenness\<rparr> else e2);
     e4 = (if ok ChannelEyeRightOpenness
           then e3\<lparr>eye_Valid := eye_Valid e3 OR EyeValidRightOpenness, RightOpenness := val ChannelEyeRightOpenness\<rparr> else e3);
     e5 = (if ok ChannelEyeLeftPupilDiameter \<and> ok ChannelEyeLeftPupilDilation
           then e4\<lparr>eye_Valid := eye_Valid e4 OR EyeValidLeftPupil, LeftPupilDiameterMM := val ChannelEyeLeftPupilDiameter,
                   LeftPupilDilation := val ChannelEyeLeftPupilDilation\<rparr> else e4)
     in (if ok ChannelEyeRightPupilDiameter \<and> ok ChannelEyeRightPupilDilation
         then e5\<lparr>eye_Valid := eye_Valid e5 OR EyeValidRightPupil, RightPupilDiameterMM := val ChannelEyeRightPupilDiameter,
                 RightPupilDilation := val ChannelEyeRightPupilDilation\<rparr> else e5))"

definition expressions_of_candidates :: "channel_candidate list \<Rightarrow> expression_set" where
  "expressions_of_candidates cands = fold (\<lambda>eid s.
     let candidate = cand_at cands (fst (ExpressionChannel eid)) in
     if cand_valid candidate then fst (exp_set eid (cand_value candidate) s) else s) [0..<ExpressionCount] empty_expressions"

definition pipeline_canonical :: "pipeline \<Rightarrow> merged_frame \<Rightarrow> int \<Rightarrow> canonical_frame" where
  "pipeline_canonical p f nowNS =
    (let cands = projectMutualExclusion (mutualExclusion (config p)) (candidate_list p nowNS) in
     \<lparr>cf_Generation = Generation f, Revision = mf_Sequence f, ProcessedAtNS = nowNS, cf_EyeSourceID = EyeSourceID f,
      cf_ExpressionSourceID = ExpressionSourceID f, cf_LipSourceID = LipSourceID f,
      EyeActive = groupActive (cap_has (mf_Capabilities f) CapabilityEye) (EyeSourceID f) (EyeUpdatedAtNS f) nowNS (activeStaleAfter (config p)),
      ExpressionActive = groupActive (cap_has (mf_Capabilities f) CapabilityExpression) (ExpressionSourceID f)
        (ExpressionUpdatedAtNS f) nowNS (activeStaleAfter (config p)),
      LipActive = groupActive (cap_has (mf_Capabilities f) CapabilityLip) (LipSourceID f) (LipUpdatedAtNS f) nowNS (activeStaleAfter (config p)),
      cf_Eye = eye_of_candidates cands, cf_Expressions = expressions_of_candidates cands\<rparr>)"

section \<open>ProcessAt\<close>

definition eye_reset :: "pipeline \<Rightarrow> merged_frame \<Rightarrow> bool \<Rightarrow> bool" where
  "eye_reset p f generationReset \<longleftrightarrow>
     generationReset \<or> EyeSourceID f \<noteq> [] \<and> EyeSourceID f \<noteq> EyeSourceID (lastInput p)"

definition expression_reset :: "pipeline \<Rightarrow> merged_frame \<Rightarrow> bool \<Rightarrow> bool" where
  "expression_reset p f generationReset \<longleftrightarrow>
     generationReset \<or> ExpressionSourceID f \<noteq> [] \<and> ExpressionSourceID f \<noteq> ExpressionSourceID (lastInput p)"

definition prepare_channels :: "pipeline \<Rightarrow> merged_frame \<Rightarrow> bool \<Rightarrow> channel_state list" where
  \<comment> \<open>the channels after the resets and the dropouts of a new input\<close>
  "prepare_channels p f generationReset =
    (let previous = lastInput p;
         c = (if generationReset then replicate channelCount empty_channel else channels p);
         c = (if eye_reset p f generationReset then resetChannels 0 eyeChannelCount c else c);
         c = (if expression_reset p f generationReset then resetChannels eyeChannelCount channelCount c else c);
         c = (if \<not> generationReset \<and> EyeSourceID previous \<noteq> [] \<and> EyeSourceID f = []
              then markUnavailable (UpdatedAtNS f) 0 eyeChannelCount c else c)
     in (if \<not> generationReset \<and> ExpressionSourceID previous \<noteq> [] \<and> ExpressionSourceID f = []
         then markUnavailable (UpdatedAtNS f) eyeChannelCount channelCount c else c))"

definition accept_input :: "(float64 \<Rightarrow> float64 \<Rightarrow> float64) \<Rightarrow> pipeline \<Rightarrow> merged_frame \<Rightarrow> bool \<Rightarrow>
    (processing_error, channel_state list) result" where
  \<comment> \<open>... and after the ingestion of its fresh groups\<close>
  "accept_input pow p f generationReset =
    (let eyeFresh = (cap_has (mf_Capabilities f) CapabilityEye \<and>
           (eye_reset p f generationReset \<or> \<not> hasLast p \<or> EyeUpdatedAtNS f > EyeUpdatedAtNS (lastInput p)));
         expressionFresh = (cap_has (mf_Capabilities f) CapabilityExpression \<and>
           (expression_reset p f generationReset \<or> \<not> hasLast p \<or> ExpressionUpdatedAtNS f > ExpressionUpdatedAtNS (lastInput p)));
         c = prepare_channels p f generationReset
     in bind_result (if eyeFresh then ingestRange pow (config p) f (EyeUpdatedAtNS f) 0 eyeChannelCount c else Inr c) (\<lambda>c.
        if expressionFresh then ingestRange pow (config p) f (ExpressionUpdatedAtNS f) eyeChannelCount channelCount c else Inr c))"

definition processAt :: "(float64 \<Rightarrow> float64 \<Rightarrow> float64) \<Rightarrow> pipeline \<Rightarrow> merged_frame \<Rightarrow> int \<Rightarrow>
    (processing_error, canonical_frame \<times> pipeline) result" where
  "processAt pow p f nowNS =
     bind_result (validateMergedInput f nowNS) (\<lambda>_.
     bind_result (classifyInput p f nowNS) (\<lambda>(newInput, generationReset).
     if \<not> newInput then Inr (pipeline_canonical (p\<lparr>lastNowNS := nowNS\<rparr>) f nowNS, p\<lparr>lastNowNS := nowNS\<rparr>)
     else bind_result (accept_input pow p f generationReset) (\<lambda>chs.
       let p = p\<lparr>channels := chs, hasLast := True, lastInput := f, lastNowNS := nowNS\<rparr>
       in Inr (pipeline_canonical p f nowNS, p))))"

definition ProcessAt :: "(float64 \<Rightarrow> float64 \<Rightarrow> float64) \<Rightarrow> merged_frame \<Rightarrow> int \<Rightarrow> pipeline option \<Rightarrow>
    (processing_error, canonical_frame) result \<times> pipeline option" where
  \<comment> \<open>on a nil or real pipeline: the result and the pipeline afterwards\<close>
  "ProcessAt pow f nowNS receiver = (case receiver of
     None \<Rightarrow> (Inl ErrInvalidInput, None)
   | Some p \<Rightarrow> (case processAt pow p f nowNS of
       Inl e \<Rightarrow> (Inl e, Some p)
     | Inr (out, p') \<Rightarrow> (Inr out, Some p')))"

section \<open>Frames of the tracking service\<close>

lemma merged_ok_validates:
  assumes "merged_ok t m" "t \<le> nowNS"
  shows "validateMergedInput m nowNS = Inr ()"
proof -
  have c: "merged_content_ok nowNS m" and m: "Generation m \<noteq> 0" "mf_Sequence m \<noteq> 0" "0 \<le> UpdatedAtNS m" "UpdatedAtNS m \<le> nowNS"
    using assms by (auto simp: merged_ok_def intro: merged_content_ok_mono)
  have fc: "frame_canonical (model_frame m)" using c by (simp add: merged_content_ok_def model_frame_def)
  then have "frame_validate (model_frame m) = Inr ()" by (simp add: frame_canonical_def frame_validate_ok)
  moreover have "eye_eq (mf_Eye m) empty_eye" if "\<not> cap_has (mf_Capabilities m) CapabilityEye"
    using fc that by (simp add: frame_canonical_parts model_frame_def eye_canonical_eq)
  moreover have "exp_eq (mf_Expressions m) empty_expressions" if "\<not> cap_has (mf_Capabilities m) CapabilityExpression"
    using fc that by (simp add: frame_canonical_parts model_frame_def exp_canonical_eq)
  moreover have "mf_Capabilities m AND NOT knownCapabilities = 0"
    using fc by (simp add: frame_canonical_parts model_frame_def)
  ultimately show ?thesis
    using c m unfolding merged_content_ok_def group_ok_def
    by (auto simp: validateMergedInput_def validateGroup_def guard_result_def bind_result_def split: if_splits)
qed

text \<open>Every merged frame the tracking service publishes passes the pipeline's input
  validation at any processing time from its own clock on: the two components agree on what a
  merged frame is.\<close>

theorem merged_frame_passes_validation:
  assumes "\<forall>n. is_i64 (clk n)" and "tracking_run (newServiceWithClock clk) s"
    and "LatestMerged s = (m, True)" and "lastHostTimeNS s \<le> nowNS"
  shows "validateMergedInput m nowNS = Inr ()"
proof -
  have "latest_ok s" using reachable_wf [OF assms(1,2)] by (rule wf_parts)
  then have "merged_ok (lastHostTimeNS s) m" using assms(3) by (simp add: latest_ok_def LatestMerged_def)
  from merged_ok_validates [OF this assms(4)] show ?thesis .
qed

lemma sample_service_fields:
  "hasLatest sample_service" "lastHostTimeNS sample_service = 100" "generation sample_service = 7"
  by (simp_all add: sample_service_def SubscribeMerged_def newServiceWithClock_def SetGeneration_def Let_def
      advanceMergedSequence_eq nextTime_eq at_time_def sample_clock_def)

theorem merged_frame_passes_validation_witness:
  "validateMergedInput (latestMerged sample_service) 100 = Inr ()"
  using merged_frame_passes_validation [OF sample_clock_ok sample_run, of "latestMerged sample_service" 100]
  by (simp add: LatestMerged_def sample_service_fields)

lemma latest_group_received:
  assumes wf: "tracking_wf s" and l: "hasLatest s"
  shows "EyeSourceID (latestMerged s) \<noteq> [] \<Longrightarrow> \<exists>src. map_of (sources s) (EyeSourceID (latestMerged s)) = Some src \<and>
      receivedAtNS src = EyeUpdatedAtNS (latestMerged s)"
    and "ExpressionSourceID (latestMerged s) \<noteq> [] \<Longrightarrow> \<exists>src. map_of (sources s) (ExpressionSourceID (latestMerged s)) = Some src \<and>
      receivedAtNS src = ExpressionUpdatedAtNS (latestMerged s)"
    and "LipSourceID (latestMerged s) \<noteq> [] \<Longrightarrow> \<exists>src. map_of (sources s) (LipSourceID (latestMerged s)) = Some src \<and>
      receivedAtNS src = LipUpdatedAtNS (latestMerged s)"
proof -
  have eq: "mergedContentEqual (merged_of s) (latestMerged s)" and sel: "selection_ok s"
    using wf_parts(1,2) [OF wf] l reselect_selection_ok [of s] by (auto simp: latest_ok_def sources_ok_def)
  have at: "map_of (sources s) p = Some (source_at s p)" if "source_has (sources s) c p" for c p
    using that by (auto simp: source_has_ex source_at_def)
  note f = merged_of_fields
  show "EyeSourceID (latestMerged s) \<noteq> [] \<Longrightarrow> \<exists>src. map_of (sources s) (EyeSourceID (latestMerged s)) = Some src \<and>
      receivedAtNS src = EyeUpdatedAtNS (latestMerged s)"
    "ExpressionSourceID (latestMerged s) \<noteq> [] \<Longrightarrow> \<exists>src. map_of (sources s) (ExpressionSourceID (latestMerged s)) = Some src \<and>
      receivedAtNS src = ExpressionUpdatedAtNS (latestMerged s)"
    "LipSourceID (latestMerged s) \<noteq> [] \<Longrightarrow> \<exists>src. map_of (sources s) (LipSourceID (latestMerged s)) = Some src \<and>
      receivedAtNS src = LipUpdatedAtNS (latestMerged s)"
    using eq sel at by (fastforce simp: mergedContentEqual_def f selection_ok_def)+
qed

lemma received_after:
  assumes "received_later s s'" "map_of (sources s) p = Some src" "map_of (sources s') p = Some src'"
    and "receivedAtNS src \<le> lastHostTimeNS s"
  shows "receivedAtNS src \<le> receivedAtNS src'"
  using received_laterD [OF assms(1,3)] assms(2,4) by auto

lemma run_freshness:
  assumes wf: "tracking_wf s" "tracking_wf s'" and adv: "advances s s'" and l: "hasLatest s" "hasLatest s'"
    and u: "UpdatedAtNS (latestMerged s) \<le> UpdatedAtNS (latestMerged s')"
  shows "saturatedFreshnessNonregressing (latestMerged s) (latestMerged s')"
proof -
  have r: "received_later s s'" using adv by (simp add: advances_def)
  have ok: "receivedAtNS src \<le> lastHostTimeNS s" if "map_of (sources s) p = Some src" for p src
    using wf_parts(1) [OF wf(1)] map_of_SomeD [OF that] by (auto simp: sources_ok_def source_ok_def)
  note g = latest_group_received [OF wf(1) l(1)] and g' = latest_group_received [OF wf(2) l(2)]
  let ?m = "latestMerged s" and ?m' = "latestMerged s'"
  have later: "x \<le> y" if "\<exists>src. map_of (sources s) p = Some src \<and> receivedAtNS src = x"
    "\<exists>src. map_of (sources s') p = Some src \<and> receivedAtNS src = y" for p x y
    using that received_after [OF r] ok by blast
  have "EyeSourceID ?m \<noteq> [] \<Longrightarrow> EyeSourceID ?m = EyeSourceID ?m' \<Longrightarrow> EyeUpdatedAtNS ?m \<le> EyeUpdatedAtNS ?m'"
    using g(1) g'(1) by (intro later) simp_all
  moreover have "ExpressionSourceID ?m \<noteq> [] \<Longrightarrow> ExpressionSourceID ?m = ExpressionSourceID ?m' \<Longrightarrow>
      ExpressionUpdatedAtNS ?m \<le> ExpressionUpdatedAtNS ?m'"
    using g(2) g'(2) by (intro later) simp_all
  moreover have "LipSourceID ?m \<noteq> [] \<Longrightarrow> LipSourceID ?m = LipSourceID ?m' \<Longrightarrow> LipUpdatedAtNS ?m \<le> LipUpdatedAtNS ?m'"
    using g(3) g'(3) by (intro later) simp_all
  ultimately show ?thesis using u unfolding saturatedFreshnessNonregressing_def not_less [symmetric] by (simp only: if_False simp_thms) auto
qed

lemma merged_eq_refl:
  assumes "tracking_wf s" "hasLatest s"
  shows "merged_eq (latestMerged s) (latestMerged s)"
proof -
  have "frame_canonical (model_frame (latestMerged s))"
    using wf_parts(2) [OF assms(1)] assms(2) by (simp add: latest_ok_def merged_ok_def merged_content_ok_def model_frame_def)
  then have "eye_canonical (mf_Eye (latestMerged s))" "exp_canonical (mf_Expressions (latestMerged s))"
    by (auto simp: frame_canonical_parts model_frame_def split: if_splits)
  then show ?thesis by (simp add: merged_eq_def eye_canonical_eq exp_canonical_eq)
qed

text \<open>Fed with the merged frames of one tracking service, in the order they were
  published and at increasing times, the pipeline never reports a generation, revision or time
  regression or a revision conflict, not even after the sequence number has saturated.\<close>

theorem tracking_never_regresses:
  assumes "\<forall>n. is_i64 (clk n)" and "tracking_run (newServiceWithClock clk) s" and "tracking_run s s'"
    and "LatestMerged s = (m, True)" and "LatestMerged s' = (m', True)"
    and "lastInput p = m" and "lastNowNS p < nowNS"
  shows "is_ok (classifyInput p m' nowNS)"
proof -
  have wf: "tracking_wf s" "tracking_wf s'"
    using reachable_wf [OF assms(1,2)] tracking_run_wf [OF assms(3)] by auto
  have l: "hasLatest s" "hasLatest s'" "m = latestMerged s" "m' = latestMerged s'"
    using assms(4,5) by (simp_all add: LatestMerged_def)
  have adv: "advances s s'" using tracking_run_advances [OF assms(3) wf(1)] .
  have gens: "Generation m = generation s" "Generation m' = generation s'"
    "mf_Sequence m = mergedSequence s" "mf_Sequence m' = mergedSequence s'" "UpdatedAtNS m \<le> lastHostTimeNS s"
    using wf_parts(2) [OF wf(1)] wf_parts(2) [OF wf(2)] l
    by (auto simp: latest_ok_def mergedContentEqual_def merged_of_fields merged_ok_def)
  have le: "Generation m \<le> Generation m'" "mf_Sequence m \<le> mf_Sequence m'"
    using adv gens by (simp_all add: advances_def)
  show ?thesis
  proof (cases "m' = m")
    case True
    then show ?thesis using assms(6,7) merged_eq_refl [OF wf(1) l(1)] l
      by (simp add: classifyInput_def Let_def)
  next
    case False
    with adv l gens have seq: "mf_Sequence m < mf_Sequence m' \<or> mf_Sequence m = max_u64" and u: "UpdatedAtNS m \<le> UpdatedAtNS m'"
      by (auto simp: advances_def latest_later_def)
    have fresh: "saturatedFreshnessNonregressing m m'"
      using run_freshness [OF wf adv] l u by simp
    have "mf_Sequence m' = max_u64" if "mf_Sequence m = max_u64"
      using that le(2) le_max_u64 [of "mf_Sequence m'"] by (metis order.antisym)
    then show ?thesis
      using le seq fresh assms(6,7) by (auto simp: classifyInput_def Let_def guard_result_def)
  qed
qed

theorem tracking_never_regresses_witness:
  "is_ok (classifyInput \<lparr>config = \<lparr>cc_channels = [], activeStaleAfter = 1, mutualExclusion = []\<rparr>, channels = [], hasLast = True, lastInput = latestMerged sample_service, lastNowNS = 100\<rparr>
     (latestMerged (snd (SetGeneration 9 sample_service))) 200)"
proof -
  let ?s = "snd (SetGeneration 9 sample_service)"
  have run: "tracking_run sample_service ?s" by (rule run_step [OF run_start step_SetGeneration])
  have "hasLatest ?s"
    using sample_service_fields by (simp add: SetGeneration_def Let_def advanceMergedSequence_eq nextTime_eq)
  then show ?thesis
    by (intro tracking_never_regresses [OF sample_clock_ok sample_run run]) (simp_all add: LatestMerged_def sample_service_fields)
qed

section \<open>Pipelines move forward\<close>

lemma classify_forward:
  assumes "classifyInput p f nowNS = Inr (new, reset)" "hasLast p"
  shows "lastNowNS p \<le> nowNS \<and> (Generation (lastInput p) < Generation f \<or>
    Generation (lastInput p) = Generation f \<and> mf_Sequence (lastInput p) \<le> mf_Sequence f)"
  using assms by (auto simp: classifyInput_def Let_def guard_result_Inr not_less split: if_splits)

section \<open>Outputs are finite\<close>

definition channel_ok :: "channel_state \<Rightarrow> bool" where
  "channel_ok s \<longleftrightarrow> (seen s \<longrightarrow> finite32 (lastFreshValue s) \<and> 0 \<le> dropoutStartNS s \<and> is_i64 (dropoutStartNS s))"

definition policy_typed :: "dropout_policy \<Rightarrow> bool" where
  "policy_typed d \<longleftrightarrow> is_i64 (HoldDuration d) \<and> is_i64 (DecayDuration d) \<and> is_i64 (StaleAfter d)"

definition config_ok :: "compiled_config \<Rightarrow> bool" where
  \<comment> \<open>compiled, and every duration an int64\<close>
  "config_ok cc \<longleftrightarrow> length (cc_channels cc) = 86 \<and>
     (\<forall>c \<in> set (cc_channels cc). validateChannelConfig c = Inr () \<and> policy_typed (Dropout c)) \<and>
     list_all knownChannel (concat (mutualExclusion cc)) \<and> distinct (concat (mutualExclusion cc))"

definition config_typed :: "proc_config \<Rightarrow> bool" where
  "config_typed c \<longleftrightarrow> policy_typed (Dropout (DefaultChannel c)) \<and> (\<forall>(ch, ov) \<in> set (Overrides c). policy_typed (Dropout ov))"

lemma fold_overrides_set:
  "x \<in> set (fold (\<lambda>(ch, c) chs. chs[ch - Suc 0 := c]) ovs chs) \<Longrightarrow> x \<in> set chs \<or> x \<in> snd ` set ovs"
proof (induction ovs arbitrary: chs)
  case (Cons ov ovs)
  obtain ch c where ov: "ov = (ch, c)" by (cases ov)
  from Cons.IH [of "chs[ch - Suc 0 := c]"] Cons.prems have "x \<in> set (chs[ch - Suc 0 := c]) \<or> x \<in> snd ` set ovs"
    by (simp add: ov)
  then show ?case using set_update_subset_insert [of chs "ch - Suc 0" c] by (auto simp: ov)
qed simp

lemma compileConfig_ok:
  assumes "compileConfig c = Inr cc" "config_typed c"
  shows "config_ok cc"
proof -
  note cc = assms(1) [unfolded compileConfig_iff]
  have "validateChannelConfig x = Inr () \<and> policy_typed (Dropout x)" if "x \<in> set (cc_channels cc)" for x
    using that cc assms(2) fold_overrides_set [of x "Overrides c" "replicate 86 (DefaultChannel c)"]
    by (auto simp: list_all_iff config_typed_def)
  then show ?thesis using cc by (simp add: config_ok_def)
qed

definition pipeline_ok :: "pipeline \<Rightarrow> bool" where
  "pipeline_ok p \<longleftrightarrow> config_ok (config p) \<and> length (channels p) = 86 \<and> list_all channel_ok (channels p)"

lemma empty_channel_ok [simp]: "channel_ok empty_channel"
  by (simp add: channel_ok_def empty_channel_def)

lemma recordFresh_ok:
  "finite32 v \<Longrightarrow> 0 \<le> atNS \<Longrightarrow> is_i64 atNS \<Longrightarrow> policy_typed d \<Longrightarrow> 0 \<le> StaleAfter d \<Longrightarrow> channel_ok (recordFresh v atNS d s)"
  by (auto simp: channel_ok_def recordFresh_def addDurationSaturated_eq policy_typed_def is_i64_def max_int64_def)

lemma recordUnavailable_ok: "channel_ok s \<Longrightarrow> 0 \<le> atNS \<Longrightarrow> is_i64 atNS \<Longrightarrow> channel_ok (recordUnavailable atNS s)"
  by (simp add: channel_ok_def recordUnavailable_def)

lemma list_all_update: "list_all P xs \<Longrightarrow> P x \<Longrightarrow> list_all P (xs[i := x])"
  using set_update_subset_insert [of xs i x] by (auto simp: list_all_iff)

lemma fold_index_invariant:
  assumes "Q xs" "\<And>i xs. i \<in> set is \<Longrightarrow> Q xs \<Longrightarrow> Q (f i xs)"
  shows "Q (fold f is xs)"
  using assms by (induction "is" arbitrary: xs) auto

lemma resetChannels_ok:
  assumes "length chs = 86" "list_all channel_ok chs"
  shows "length (resetChannels a b chs) = 86 \<and> list_all channel_ok (resetChannels a b chs)"
  unfolding resetChannels_def using assms
  by (intro fold_index_invariant [where Q = "\<lambda>xs. length xs = 86 \<and> list_all channel_ok xs"]) (auto intro: list_all_update)

lemma markUnavailable_ok:
  assumes "length chs = 86" "list_all channel_ok chs" "0 \<le> atNS" "is_i64 atNS" "b \<le> 86"
  shows "length (markUnavailable atNS a b chs) = 86 \<and> list_all channel_ok (markUnavailable atNS a b chs)"
  unfolding markUnavailable_def using assms
  by (intro fold_index_invariant [where Q = "\<lambda>xs. length xs = 86 \<and> list_all channel_ok xs"])
    (auto simp: list_all_length nth_list_update recordUnavailable_ok)

lemma filter_apply_finite: "filter_apply c v atNS st = Inr (r, st') \<Longrightarrow> finite32 r"
  by (auto simp: filter_apply_def guard_result_Inr bind_result_Inr Let_def split: if_splits)

lemma channelConfig_in:
  "config_ok cc \<Longrightarrow> index < 86 \<Longrightarrow> validateChannelConfig (channelConfig cc (index + 1)) = Inr () \<and>
    policy_typed (Dropout (channelConfig cc (index + 1)))"
  by (simp add: config_ok_def channelConfig_def)

lemma validate_dropout: "validateChannelConfig c = Inr () \<Longrightarrow> validateDropout (Dropout c) = Inr ()"
  by (auto simp: validateChannelConfig_def bind_result_Inr)

lemma ingest_channel_ok:
  assumes "ingest_channel pow cc f atNS index chs = Inr chs'" "config_ok cc" "index < 86" "0 \<le> atNS" "is_i64 atNS"
    and "length chs = 86 \<and> list_all channel_ok chs"
  shows "length chs' = 86 \<and> list_all channel_ok chs'"
proof (cases "snd (rawChannelValue (mf_Eye f) (mf_Expressions f) (index + 1))")
  case False
  then show ?thesis using assms(1,6) by (auto simp: ingest_channel_def split: prod.splits)
next
  case True
  then obtain filtered st t where
    flt: "filter_apply (filter_cfg (channelConfig cc (index + 1))) t atNS (filter_st (chs ! index)) = Inr (filtered, st)"
    and chs': "chs' = chs[index := recordFresh filtered atNS (Dropout (channelConfig cc (index + 1))) ((chs ! index)\<lparr>filter_st := st\<rparr>)]"
    using assms(1) by (auto simp: ingest_channel_def Let_def split: prod.splits sum.splits)
  have "0 \<le> StaleAfter (Dropout (channelConfig cc (index + 1)))"
    using validate_dropout [OF conjunct1 [OF channelConfig_in [OF assms(2,3)]]] by (simp add: validateDropout_def guard_result_Inr)
  then show ?thesis
    using assms(4-6) filter_apply_finite [OF flt] channelConfig_in [OF assms(2,3)]
    by (auto simp: chs' intro!: list_all_update recordFresh_ok)
qed

lemma ingestRange_ok:
  assumes "ingestRange pow cc f atNS a b chs = Inr chs'" "config_ok cc" "b \<le> 86" "0 \<le> atNS" "is_i64 atNS"
    and "length chs = 86 \<and> list_all channel_ok chs"
  shows "length chs' = 86 \<and> list_all channel_ok chs'"
  using assms(1) unfolding ingestRange_def
  by (rule fold_result_invariant [where P = "\<lambda>chs. length chs = 86 \<and> list_all channel_ok chs"])
    (use assms ingest_channel_ok in auto)

lemma validateMergedInput_times:
  assumes "validateMergedInput f nowNS = Inr ()" "is_i64 nowNS"
  shows "0 \<le> UpdatedAtNS f \<and> is_i64 (UpdatedAtNS f) \<and> 0 \<le> EyeUpdatedAtNS f \<and> is_i64 (EyeUpdatedAtNS f) \<and>
    0 \<le> ExpressionUpdatedAtNS f \<and> is_i64 (ExpressionUpdatedAtNS f)"
  using assms
  by (auto simp: validateMergedInput_def guard_result_Inr bind_result_Inr validateGroup_def is_i64_def max_int64_def split: if_splits)

lemma eyeChannelCount_10 [simp]: "eyeChannelCount = 10"
  by (simp add: eyeChannelCount_def channelExpressionBase_def)

lemma prepare_channels_ok:
  assumes "pipeline_ok p" "0 \<le> UpdatedAtNS f" "is_i64 (UpdatedAtNS f)"
  shows "length (prepare_channels p f reset) = 86 \<and> list_all channel_ok (prepare_channels p f reset)"
proof -
  have "length (channels p) = 86 \<and> list_all channel_ok (channels p)" using assms(1) by (simp add: pipeline_ok_def)
  moreover have "list_all channel_ok (replicate 86 empty_channel)" by (simp add: list_all_length)
  ultimately show ?thesis
    unfolding prepare_channels_def Let_def channelCount_86 eyeChannelCount_10
    using assms(2,3) by (simp add: resetChannels_ok markUnavailable_ok)
qed

lemma accept_input_ok:
  assumes "accept_input pow p f reset = Inr chs" "pipeline_ok p" "validateMergedInput f nowNS = Inr ()" "is_i64 nowNS"
  shows "length chs = 86 \<and> list_all channel_ok chs"
proof -
  note t = validateMergedInput_times [OF assms(3,4)]
  have cc: "config_ok (config p)" using assms(2) by (simp add: pipeline_ok_def)
  have c: "length (prepare_channels p f reset) = 86 \<and> list_all channel_ok (prepare_channels p f reset)"
    using prepare_channels_ok [OF assms(2)] t by blast
  obtain c1 where c1: "c1 = prepare_channels p f reset \<or> ingestRange pow (config p) f (EyeUpdatedAtNS f) 0 10 (prepare_channels p f reset) = Inr c1"
    and chs: "chs = c1 \<or> ingestRange pow (config p) f (ExpressionUpdatedAtNS f) 10 86 c1 = Inr chs"
    using assms(1) by (auto simp: accept_input_def Let_def bind_result_Inr split: if_splits)
  have "length c1 = 86 \<and> list_all channel_ok c1"
    using c1 c ingestRange_ok [OF _ cc] t by (elim disjE) auto
  then show ?thesis using chs ingestRange_ok [OF _ cc] t by (elim disjE) auto
qed

lemma candidate_list_finite:
  assumes "pipeline_ok p" "is_i64 nowNS"
  shows "length (candidate_list p nowNS) = 86 \<and> (\<forall>c \<in> set (candidate_list p nowNS). cand_valid c \<longrightarrow> finite32 (cand_value c))"
proof -
  have "finite32 (fst (dropoutValue (channels p ! i) (Dropout (channelConfig (config p) (i + 1))) nowNS))" if "i < 86" for i
  proof (cases "seen (channels p ! i)")
    case False
    then show ?thesis by (simp add: dropoutValue_def)
  next
    case True
    have ok: "channel_ok (channels p ! i)" "config_ok (config p)"
      using assms(1) that by (simp_all add: pipeline_ok_def list_all_length)
    note d = channelConfig_in [OF ok(2) that]
    have "\<exists>v. dropoutValue (channels p ! i) (Dropout (channelConfig (config p) (i + 1))) nowNS = (v, True) \<and> finite32 v"
      using dropout_value [OF validate_dropout [OF conjunct1 [OF d]] True] True d ok(1) assms(2)
      by (simp add: channel_ok_def policy_typed_def) blast
    then show ?thesis by auto
  qed
  then show ?thesis by (auto simp: candidate_list_def case_prod_beta)
qed

lemma mask_normal_iff: "m = mask_normalize m \<longleftrightarrow> (\<forall>n. bit (Words1 m) n \<longrightarrow> n < 12)"
proof
  assume "\<forall>n. bit (Words1 m) n \<longrightarrow> n < 12"
  then have "Words1 m AND 4095 = Words1 m"
    by (intro bit_word_eqI) (simp only: bit_and_iff bit_4095, blast)
  then show "m = mask_normalize m"
    by (intro expression_mask.equality) (simp_all add: mask_normalize_words)
qed (use mask_normalized_tail in blast)

lemma mask_set_normal:
  assumes "m = mask_normalize m" "eid < 76"
  shows "fst (mask_set eid m) = mask_normalize (fst (mask_set eid m))"
proof -
  have tail: "\<forall>n. bit (Words1 m) n \<longrightarrow> n < 12" using assms(1) mask_normal_iff by blast
  show ?thesis
  proof (cases "eid < 64")
    case True
    then have "Words1 (fst (mask_set eid m)) = Words1 m"
      using assms(2) by (simp add: mask_set_def mask_set_word_def)
    then show ?thesis using tail unfolding mask_normal_iff by simp
  next
    case False
    then have "eid div 64 = 1" "eid mod 64 = eid - 64"
      using assms(2) div_nat_eqI [of 1 64 eid] by (simp_all add: mod_if)
    with assms(2) have d: "eid div 64 = 1" "eid mod 64 < 12" by simp_all
    then have "Words1 (fst (mask_set eid m)) = Words1 m OR push_bit (eid mod 64) 1"
      using assms(2) by (simp add: mask_set_def mask_set_word_def mask_word_def)
    then show ?thesis using tail d(2) unfolding mask_normal_iff by (auto simp: bit_or_push)
  qed
qed

lemma exp_set_canonical:
  assumes "exp_canonical s" "finite32 v" "eid < 76"
  shows "exp_canonical (fst (exp_set eid v s))"
proof -
  have z: "Values s j = zero32" if "j < 76" "\<not> mask_has (exp_Valid s) j" for j
  proof -
    have "Values s j = Values (zeroInvalidExpressions s) j" using assms(1) by (simp only: exp_canonical_def)
    then show ?thesis using that by simp
  qed
  have "zeroInvalidExpressions (fst (exp_set eid v s)) = fst (exp_set eid v s)"
    by (rule expression_set.equality) (use assms(3) z in \<open>auto simp: exp_set_def mask_has_set fun_eq_iff\<close>)
  moreover have "fst (mask_set eid (exp_Valid s)) = mask_normalize (fst (mask_set eid (exp_Valid s)))"
    using mask_set_normal assms by (simp add: exp_canonical_def)
  ultimately show ?thesis
    using assms by (auto simp: exp_canonical_def exp_set_def mask_has_set)
qed

lemma expressions_of_candidates_canonical:
  assumes "length cands = 86" "\<forall>c \<in> set cands. cand_valid c \<longrightarrow> finite32 (cand_value c)"
  shows "exp_canonical (expressions_of_candidates cands)"
proof -
  have "cand_at cands (fst (ExpressionChannel eid)) \<in> set cands" if "eid < 76" for eid
    using that assms(1) by (simp add: cand_at_def ExpressionChannel_def channelExpressionBase_def)
  then show ?thesis
    unfolding expressions_of_candidates_def
    by (intro fold_index_invariant [where Q = exp_canonical])
      (use assms(2) exp_set_canonical in \<open>auto simp: Let_def\<close>)
qed

definition eye_flags :: "channel_candidate list \<Rightarrow> bool \<times> bool \<times> bool \<times> bool \<times> bool \<times> bool" where
  "eye_flags cands = (let ok = (\<lambda>ch. cand_valid (cand_at cands ch)) in
     (ok 1 \<and> ok 2, ok 3 \<and> ok 4, ok 5, ok 6, ok 7 \<and> ok 9, ok 8 \<and> ok 10))"

lemmas eye_channel_defs = ChannelEyeLeftGazeX_def ChannelEyeLeftGazeY_def ChannelEyeRightGazeX_def ChannelEyeRightGazeY_def
  ChannelEyeLeftOpenness_def ChannelEyeRightOpenness_def ChannelEyeLeftPupilDiameter_def ChannelEyeRightPupilDiameter_def
  ChannelEyeLeftPupilDilation_def ChannelEyeRightPupilDilation_def

lemmas eye_bit_defs = EyeValidLeftGaze_def EyeValidRightGaze_def EyeValidLeftOpenness_def EyeValidRightOpenness_def
  EyeValidLeftPupil_def EyeValidRightPupil_def

lemma eye_of_candidates_bits:
  assumes "eye_flags cands = (b1, b2, b3, b4, b5, b6)"
  shows "eye_Valid (eye_of_candidates cands) AND EyeValidLeftGaze = 0 \<longleftrightarrow> \<not> b1"
    "eye_Valid (eye_of_candidates cands) AND EyeValidRightGaze = 0 \<longleftrightarrow> \<not> b2"
    "eye_Valid (eye_of_candidates cands) AND EyeValidLeftOpenness = 0 \<longleftrightarrow> \<not> b3"
    "eye_Valid (eye_of_candidates cands) AND EyeValidRightOpenness = 0 \<longleftrightarrow> \<not> b4"
    "eye_Valid (eye_of_candidates cands) AND EyeValidLeftPupil = 0 \<longleftrightarrow> \<not> b5"
    "eye_Valid (eye_of_candidates cands) AND EyeValidRightPupil = 0 \<longleftrightarrow> \<not> b6"
    "eye_Valid (eye_of_candidates cands) AND NOT knownEyeValid = 0"
proof -
  have v: "eye_Valid (eye_of_candidates cands) = (if b1 then EyeValidLeftGaze else 0) OR (if b2 then EyeValidRightGaze else 0) OR
      (if b3 then EyeValidLeftOpenness else 0) OR (if b4 then EyeValidRightOpenness else 0) OR
      (if b5 then EyeValidLeftPupil else 0) OR (if b6 then EyeValidRightPupil else 0)"
    using assms by (auto simp: eye_of_candidates_def eye_flags_def Let_def eye_channel_defs or.assoc)
  show "eye_Valid (eye_of_candidates cands) AND EyeValidLeftGaze = 0 \<longleftrightarrow> \<not> b1"
    "eye_Valid (eye_of_candidates cands) AND EyeValidRightGaze = 0 \<longleftrightarrow> \<not> b2"
    "eye_Valid (eye_of_candidates cands) AND EyeValidLeftOpenness = 0 \<longleftrightarrow> \<not> b3"
    "eye_Valid (eye_of_candidates cands) AND EyeValidRightOpenness = 0 \<longleftrightarrow> \<not> b4"
    "eye_Valid (eye_of_candidates cands) AND EyeValidLeftPupil = 0 \<longleftrightarrow> \<not> b5"
    "eye_Valid (eye_of_candidates cands) AND EyeValidRightPupil = 0 \<longleftrightarrow> \<not> b6"
    "eye_Valid (eye_of_candidates cands) AND NOT knownEyeValid = 0"
    unfolding v
    by (cases b1; cases b2; cases b3; cases b4; cases b5; cases b6; simp add: eye_bit_defs knownEyeValid_def)+
qed

lemma eye_of_candidates_values:
  assumes "eye_flags cands = (b1, b2, b3, b4, b5, b6)"
  shows "LeftGaze (eye_of_candidates cands) = (if b1 then \<lparr>X = cand_value (cand_at cands 1), Y = cand_value (cand_at cands 2)\<rparr> else zero_vec2)"
    "RightGaze (eye_of_candidates cands) = (if b2 then \<lparr>X = cand_value (cand_at cands 3), Y = cand_value (cand_at cands 4)\<rparr> else zero_vec2)"
    "LeftOpenness (eye_of_candidates cands) = (if b3 then cand_value (cand_at cands 5) else zero32)"
    "RightOpenness (eye_of_candidates cands) = (if b4 then cand_value (cand_at cands 6) else zero32)"
    "LeftPupilDiameterMM (eye_of_candidates cands) = (if b5 then cand_value (cand_at cands 7) else zero32)"
    "LeftPupilDilation (eye_of_candidates cands) = (if b5 then cand_value (cand_at cands 9) else zero32)"
    "RightPupilDiameterMM (eye_of_candidates cands) = (if b6 then cand_value (cand_at cands 8) else zero32)"
    "RightPupilDilation (eye_of_candidates cands) = (if b6 then cand_value (cand_at cands 10) else zero32)"
  using assms
  by (auto simp: eye_of_candidates_def eye_flags_def Let_def eye_channel_defs empty_eye_def)

lemma eye_of_candidates_canonical:
  assumes "length cands = 86" "\<forall>c \<in> set cands. cand_valid c \<longrightarrow> finite32 (cand_value c)"
  shows "eye_canonical (eye_of_candidates cands)"
proof -
  obtain b1 b2 b3 b4 b5 b6 where b: "eye_flags cands = (b1, b2, b3, b4, b5, b6)" by (cases "eye_flags cands")
  note bits = eye_of_candidates_bits [OF b] and vals = eye_of_candidates_values [OF b]
  have at: "cand_valid (cand_at cands k) \<Longrightarrow> finite32 (cand_value (cand_at cands k))" if "1 \<le> k" "k \<le> 86" for k
    using assms that by (simp add: cand_at_def)
  have fin: "b1 \<Longrightarrow> finite32 (cand_value (cand_at cands 1)) \<and> finite32 (cand_value (cand_at cands 2))"
    "b2 \<Longrightarrow> finite32 (cand_value (cand_at cands 3)) \<and> finite32 (cand_value (cand_at cands 4))"
    "b3 \<Longrightarrow> finite32 (cand_value (cand_at cands 5))" "b4 \<Longrightarrow> finite32 (cand_value (cand_at cands 6))"
    "b5 \<Longrightarrow> finite32 (cand_value (cand_at cands 7)) \<and> finite32 (cand_value (cand_at cands 9))"
    "b6 \<Longrightarrow> finite32 (cand_value (cand_at cands 8)) \<and> finite32 (cand_value (cand_at cands 10))"
    using b at by (auto simp: eye_flags_def Let_def)
  have "zeroInvalidEyeValues (eye_of_candidates cands) = eye_of_candidates cands"
    by (rule eye_sample.equality) (simp_all add: bits vals)
  moreover have "\<forall>(b, n, x) \<in> set (eye_checks (eye_of_candidates cands)). eye_Valid (eye_of_candidates cands) AND b \<noteq> 0 \<longrightarrow> finite32 x"
    using fin by (simp add: eye_checks_def bits vals zero_vec2_def)
  ultimately show ?thesis using bits(7) by (simp add: eye_canonical_def)
qed


lemma NewPipeline_ok:
  assumes "NewPipeline c = Inr p" "config_typed c"
  shows "pipeline_ok p"
proof -
  obtain cc where "compileConfig c = Inr cc" "p = \<lparr>config = cc, channels = replicate channelCount empty_channel, hasLast = False,
      lastInput = empty_merged, lastNowNS = 0\<rparr>"
    using assms(1) by (auto simp: NewPipeline_def split: sum.splits)
  then show ?thesis using compileConfig_ok [OF _ assms(2)] by (simp add: pipeline_ok_def list_all_length)
qed

lemma processAt_cases:
  assumes "processAt pow p f nowNS = Inr (out, p')"
  obtains (again) "p' = p\<lparr>lastNowNS := nowNS\<rparr>" "out = pipeline_canonical p' f nowNS"
    "classifyInput p f nowNS = Inr (False, False)"
  | (new) chs reset where "p' = p\<lparr>channels := chs, hasLast := True, lastInput := f, lastNowNS := nowNS\<rparr>"
    "out = pipeline_canonical p' f nowNS" "accept_input pow p f reset = Inr chs"
    "validateMergedInput f nowNS = Inr ()" "classifyInput p f nowNS = Inr (True, reset)"
proof -
  obtain new reset where v: "validateMergedInput f nowNS = Inr ()" and c: "classifyInput p f nowNS = Inr (new, reset)"
    using assms by (auto simp: processAt_def bind_result_Inr)
  have "\<not> new \<Longrightarrow> \<not> reset"
    using c by (auto simp: classifyInput_def Let_def guard_result_Inr split: if_splits)
  with assms v c that show thesis
    by (cases new) (auto simp: processAt_def bind_result_Inr Let_def)
qed

lemma processAt_ok:
  assumes "processAt pow p f nowNS = Inr (out, p')" "pipeline_ok p" "is_i64 nowNS"
  shows "pipeline_ok p' \<and> out = pipeline_canonical p' f nowNS"
  using assms(1)
proof (cases rule: processAt_cases)
  case again
  then show ?thesis using assms(2) by (simp add: pipeline_ok_def)
next
  case (new chs reset)
  then show ?thesis using accept_input_ok [OF new(3) assms(2) new(4) assms(3)] assms(2) by (simp add: pipeline_ok_def)
qed

lemma pipeline_canonical_canonical:
  assumes "pipeline_ok p" "is_i64 nowNS"
  shows "eye_canonical (cf_Eye (pipeline_canonical p f nowNS)) \<and> exp_canonical (cf_Expressions (pipeline_canonical p f nowNS))"
proof -
  note cl = candidate_list_finite [OF assms]
  have "\<forall>ch \<in> set (concat (mutualExclusion (config p))). 1 \<le> ch \<and> ch \<le> length (candidate_list p nowNS)"
    "distinct (concat (mutualExclusion (config p)))"
    using assms(1) cl unfolding pipeline_ok_def config_ok_def list_all_iff known_bounds by metis+
  note proj = project_all [OF this conjunct2 [OF cl]]
  then show ?thesis
    using eye_of_candidates_canonical expressions_of_candidates_canonical cl
    by (simp add: pipeline_canonical_def Let_def)
qed

text \<open>The pipelines a configuration can lead to, and one processing step of them.\<close>

inductive processed :: "(float64 \<Rightarrow> float64 \<Rightarrow> float64) \<Rightarrow> proc_config \<Rightarrow> pipeline \<Rightarrow> bool"
  for pow c where
  processed_new: "NewPipeline c = Inr p \<Longrightarrow> processed pow c p"
| processed_step: "processed pow c p \<Longrightarrow> is_i64 nowNS \<Longrightarrow> processAt pow p f nowNS = Inr (out, p') \<Longrightarrow> processed pow c p'"

lemma processed_ok: "processed pow c p \<Longrightarrow> config_typed c \<Longrightarrow> pipeline_ok p"
  by (induction rule: processed.induct) (use NewPipeline_ok processAt_ok in blast)+

end
