(* ===== verification/PipelineRuns.thy ===== *)
theory PipelineRuns
  imports Pipeline
begin

text \<open>
  Whole runs of the processing pipeline (internal/processing/pipeline.go): what a pipeline with
  the default configuration computes, and that one fed from a tracking service never fails.
\<close>

unbundle bit_operations_syntax

section \<open>Channels are ingested independently\<close>

definition ingest_one :: "(float64 \<Rightarrow> float64 \<Rightarrow> float64) \<Rightarrow> compiled_config \<Rightarrow> merged_frame \<Rightarrow> int \<Rightarrow> nat \<Rightarrow>
    channel_state \<Rightarrow> (processing_error, channel_state) result" where
  \<comment> \<open>ingest_channel on the state of its channel alone\<close>
  "ingest_one pow cc f atNS index s = (case rawChannelValue (mf_Eye f) (mf_Expressions f) (index + 1) of
     (raw, valid) \<Rightarrow> if \<not> valid then Inr s else
       let c = channelConfig cc (index + 1) in
       bind_result (applyCalibration (Calibration c) raw) (\<lambda>calibrated.
       bind_result (applyTuning pow (Tuning c) calibrated) (\<lambda>tuned.
       bind_result (filter_apply (filter_cfg c) tuned atNS (filter_st s)) (\<lambda>(filtered, st).
         Inr (recordFresh filtered atNS (Dropout c) (s\<lparr>filter_st := st\<rparr>))))))"

lemma ingest_channel_one:
  assumes "ingest_one pow cc f atNS index (chs ! index) = Inr s"
  shows "ingest_channel pow cc f atNS index chs = Inr (chs[index := s])"
  using assms
  by (auto simp: ingest_channel_def ingest_one_def Let_def bind_result_Inr split: prod.splits if_splits)

lemma ingestRange_pointwise:
  assumes "\<forall>i. a \<le> i \<and> i < b \<longrightarrow> ingest_one pow cc f atNS i (chs ! i) = Inr (g i)" "b \<le> length chs"
  shows "\<exists>chs'. ingestRange pow cc f atNS a b chs = Inr chs' \<and> length chs' = length chs \<and>
    (\<forall>i < length chs. chs' ! i = (if a \<le> i \<and> i < b then g i else chs ! i))"
  using assms
proof (induction b)
  case 0
  then show ?case by (simp add: ingestRange_def)
next
  case (Suc b)
  show ?case
  proof (cases "a \<le> b")
    case False
    then show ?thesis using Suc.prems by (auto simp: ingestRange_def)
  next
    case True
    from Suc obtain chs1 where c1: "ingestRange pow cc f atNS a b chs = Inr chs1" "length chs1 = length chs"
      "\<forall>i < length chs. chs1 ! i = (if a \<le> i \<and> i < b then g i else chs ! i)" by auto
    have "ingest_one pow cc f atNS b (chs1 ! b) = Inr (g b)" using Suc.prems c1(3) True by simp
    then have "ingestRange pow cc f atNS a (Suc b) chs = Inr (chs1[b := g b])"
      using c1(1) True ingest_channel_one by (simp add: ingestRange_def fold_result_append)
    moreover have "i = b \<or> i < b" if "i < Suc b" for i using that by auto
    ultimately show ?thesis using c1 True Suc.prems(2) by (auto simp: nth_list_update)
  qed
qed

section \<open>The default configuration\<close>

lemma seconds_ok:
  assumes "1 \<le> d" "d < 2 ^ 63"
  shows "finite64 (div64 (float64_of_int d) (float64_of_int 1000000000)) \<and>
    \<not> le64 (div64 (float64_of_int d) (float64_of_int 1000000000)) zero64"
proof -
  let ?d = "float64_of_int d" and ?b = "float64_of_int 1000000000" and ?top = "float64_of_int (2 ^ 63)"
  have "round_abs 52 11 1 \<le> round_abs 52 11 \<bar>of_int d\<bar>" using assms by (intro round_abs_mono) simp_all
  then have lo: "mag64 one64 \<le> mag64 ?d" by (simp only: float64_of_int_mag round_abs_1)
  have hi: "mag64 ?d \<le> mag64 ?top" using assms unfolding float64_of_int_mag by (intro round_abs_mono) simp_all
  have top: "finite64 ?top" "finite64 ?b" by code_simp+
  then have d: "finite64 ?d" using hi by (simp add: finite64_mag)
  have sgn: "sign64 (float64_of_int i) = (i < 0)" for i
    using sign64_enc [of "XNum (i < 0) \<bar>i\<bar> 1 0"] by (simp add: float64_of_int_def xfinite_def del: enc64.simps)
  have "mag64 ?b \<noteq> 0" by code_simp
  then have b: "real64 ?b \<noteq> 0" using mag_real_pos [of "mag64 ?b" 52 11] mag64_bounds(1) [of ?b]
    by (auto simp: real64_def)
  have "\<bar>real64 one64\<bar> \<le> \<bar>real64 ?d\<bar>" "\<bar>real64 ?d\<bar> \<le> \<bar>real64 ?top\<bar>"
    using lo hi d top one64_sel(2) by (intro mag64_le_real; simp del: one64_sel)+
  then have q: "mag64 (div64 one64 ?b) \<le> mag64 (div64 ?d ?b)" "mag64 (div64 ?d ?b) \<le> mag64 (div64 ?top ?b)"
    unfolding div64_mag [OF d top(2) b] div64_mag [OF top(1,2) b] div64_mag [OF one64_sel(2) top(2) b]
    by (intro round_abs_mono divide_right_mono; simp del: real64_one)+
  have "0 < mag64 (div64 one64 ?b)" "finite64 (div64 ?top ?b)" by code_simp+
  moreover have "\<not> sign64 (div64 ?d ?b)" using assms d top b by (simp add: div64_sign sgn)
  ultimately show ?thesis
    using q finite64_not_nan by (auto simp: finite64_mag le64_def key64_def signed_def zero64_def mag64_def)
qed


definition default_compiled :: compiled_config where
  "default_compiled = \<lparr>cc_channels = replicate 86 (DefaultChannel DefaultConfig), activeStaleAfter = 500000000, mutualExclusion = []\<rparr>"

lemma default_pipeline:
  assumes "NewPipeline DefaultConfig = Inr p"
  shows "p = \<lparr>config = default_compiled, channels = replicate 86 empty_channel, hasLast = False, lastInput = empty_merged, lastNowNS = 0\<rparr>"
proof -
  obtain cc where cc: "compileConfig DefaultConfig = Inr cc" and
    p: "p = \<lparr>config = cc, channels = replicate 86 empty_channel, hasLast = False, lastInput = empty_merged, lastNowNS = 0\<rparr>"
    using assms by (auto simp: NewPipeline_def split: sum.splits)
  have "Overrides DefaultConfig = []" "MutualExclusion DefaultConfig = []" "ActiveStaleAfter DefaultConfig = 500000000"
    by (simp_all add: DefaultConfig_def millisecond_def)
  then have "cc = default_compiled" using cc unfolding compileConfig_iff default_compiled_def by simp
  then show ?thesis by (simp add: p)
qed

lemma default_channel:
  "i < 86 \<Longrightarrow> channelConfig default_compiled (Suc i) = DefaultChannel DefaultConfig"
  by (simp add: channelConfig_def default_compiled_def)

lemma default_channel_parts:
  "Enabled (Calibration (DefaultChannel DefaultConfig)) = False" "Tuning (DefaultChannel DefaultConfig) = identity_tuning"
  "Mode (filter_cfg (DefaultChannel DefaultConfig)) = FilterNone"
  "StaleAfter (Dropout (DefaultChannel DefaultConfig)) = 500000000"
  "HoldDuration (Dropout (DefaultChannel DefaultConfig)) = 100000000"
  "DecayDuration (Dropout (DefaultChannel DefaultConfig)) = 300000000"
  by (simp_all add: DefaultConfig_def millisecond_def identity_tuning_def)

lemma positive_zero_finite: "finite32 v \<Longrightarrow> finite32 (positive_zero v)"
  by (simp add: positive_zero_def)

lemma filter_none_ok:
  assumes "Mode c = FilterNone" "finite32 v" "is_i64 atNS"
    and "initialized st \<longrightarrow> 0 \<le> lastAtNS st \<and> lastAtNS st < atNS"
  shows "\<exists>st'. filter_apply c v atNS st = Inr (v, st') \<and> initialized st' \<and> lastAtNS st' = atNS"
proof (cases "initialized st")
  case True
  let ?d = "atNS - lastAtNS st"
  have d: "1 \<le> ?d" "?d < 2 ^ 63" using assms True by (auto simp: is_i64_def max_int64_def)
  have "(word_of_int atNS :: u64) - word_of_int (lastAtNS st) = word_of_int ?d" by (simp only: wi_hom_sub)
  moreover have "uint (word_of_int ?d :: u64) = ?d"
    unfolding uint_word_of_int using d by (intro mod_pos_pos_trivial) simp_all
  ultimately have "uint ((word_of_int atNS :: u64) - word_of_int (lastAtNS st)) = ?d" by simp
  then show ?thesis
    using assms True seconds_ok [OF d]
    by (simp add: filter_apply_def validateFilter_def guard_result_def filter_step_def Let_def bind_result_def)
next
  case False
  then show ?thesis
    using assms by (simp add: filter_apply_def validateFilter_def guard_result_def Let_def)
qed

lemma default_ingest_one:
  assumes pow: "\<forall>x. pow x one64 = x" and i: "i < 86" and at: "is_i64 atNS"
    and raw: "rawChannelValue (mf_Eye f) (mf_Expressions f) (i + 1) = (raw, valid)" "valid \<longrightarrow> finite32 raw"
    and st: "initialized (filter_st s) \<longrightarrow> 0 \<le> lastAtNS (filter_st s) \<and> lastAtNS (filter_st s) < atNS"
  shows "\<exists>s'. ingest_one pow default_compiled f atNS i s = Inr s' \<and>
    (if valid then seen s' \<and> lastFreshValue s' = positive_zero raw \<and> lastAtNS (filter_st s') = atNS \<and>
        dropoutStartNS s' = min max_int64 (atNS + 500000000)
     else s' = s)"
proof (cases valid)
  case False
  then show ?thesis using raw by (simp add: ingest_one_def)
next
  case True
  let ?c = "DefaultChannel DefaultConfig"
  have cal: "applyCalibration (Calibration ?c) raw = Inr raw"
    using True raw(2) by (simp add: applyCalibration_def guard_result_def validateCalibration_def default_channel_parts)
  have tun: "applyTuning pow (Tuning ?c) raw = Inr (positive_zero raw)"
    using True raw(2) pow by (simp add: default_channel_parts applyTuning_identity)
  obtain st' where st': "filter_apply (filter_cfg ?c) (positive_zero raw) atNS (filter_st s) = Inr (positive_zero raw, st')"
    "initialized st'" "lastAtNS st' = atNS"
    using filter_none_ok [OF default_channel_parts(3) positive_zero_finite at st] True raw(2) by blast
  have "addDurationSaturated atNS 500000000 = min max_int64 (atNS + 500000000)"
    using at by (intro addDurationSaturated_eq) (simp_all add: is_i64_range)
  then show ?thesis
    using True raw(1) cal tun st' default_channel [OF i]
    by (simp add: ingest_one_def Let_def bind_result_def recordFresh_def default_channel_parts)
qed


section \<open>Accepting an input\<close>

lemma fold_update_nth:
  "b \<le> length chs \<Longrightarrow> length (fold (\<lambda>i chs. chs[i := f (chs ! i)]) [a..<b] chs) = length chs \<and>
    (\<forall>i < length chs. fold (\<lambda>i chs. chs[i := f (chs ! i)]) [a..<b] chs ! i = (if a \<le> i \<and> i < b then f (chs ! i) else chs ! i))"
  by (induction b) (auto simp: nth_list_update less_Suc_eq)

lemma resetChannels_nth:
  "b \<le> length chs \<Longrightarrow> length (resetChannels a b chs) = length chs \<and>
    (\<forall>i < length chs. resetChannels a b chs ! i = (if a \<le> i \<and> i < b then empty_channel else chs ! i))"
  unfolding resetChannels_def using fold_update_nth [of b chs "\<lambda>_. empty_channel" a] by simp

lemma markUnavailable_nth:
  "b \<le> length chs \<Longrightarrow> length (markUnavailable t a b chs) = length chs \<and>
    (\<forall>i < length chs. markUnavailable t a b chs ! i = (if a \<le> i \<and> i < b then recordUnavailable t (chs ! i) else chs ! i))"
  unfolding markUnavailable_def using fold_update_nth [of b chs "recordUnavailable t" a] by simp

lemma recordUnavailable_sel [simp]:
  "filter_st (recordUnavailable t s) = filter_st s" "seen (recordUnavailable t s) = seen s"
  by (simp_all add: recordUnavailable_def)

lemma prepare_channels_nth:
  assumes "length (channels p) = 86" "i < 86"
  shows "length (prepare_channels p f reset) = 86"
    and "(if i < 10 then eye_reset p f reset else expression_reset p f reset) \<Longrightarrow> prepare_channels p f reset ! i = empty_channel"
    and "\<not> (if i < 10 then eye_reset p f reset else expression_reset p f reset) \<Longrightarrow>
      filter_st (prepare_channels p f reset ! i) = filter_st (channels p ! i)"
proof -
  have e: "recordUnavailable t empty_channel = empty_channel" for t
    by (simp add: recordUnavailable_def empty_channel_def)
  note defs = prepare_channels_def Let_def resetChannels_nth markUnavailable_nth eye_reset_def expression_reset_def e
  show "length (prepare_channels p f reset) = 86" using assms by (simp add: defs)
  show "prepare_channels p f reset ! i = empty_channel" if "if i < 10 then eye_reset p f reset else expression_reset p f reset"
    using that assms by (cases "i < 10"; cases reset) (auto simp: defs)
  show "filter_st (prepare_channels p f reset ! i) = filter_st (channels p ! i)"
    if "\<not> (if i < 10 then eye_reset p f reset else expression_reset p f reset)"
    using that assms by (cases "i < 10"; cases reset) (auto simp: defs)
qed

definition eye_fresh :: "pipeline \<Rightarrow> merged_frame \<Rightarrow> bool \<Rightarrow> bool" where
  "eye_fresh p f reset \<longleftrightarrow> cap_has (mf_Capabilities f) CapabilityEye \<and>
     (eye_reset p f reset \<or> \<not> hasLast p \<or> EyeUpdatedAtNS f > EyeUpdatedAtNS (lastInput p))"

definition expression_fresh :: "pipeline \<Rightarrow> merged_frame \<Rightarrow> bool \<Rightarrow> bool" where
  "expression_fresh p f reset \<longleftrightarrow> cap_has (mf_Capabilities f) CapabilityExpression \<and>
     (expression_reset p f reset \<or> \<not> hasLast p \<or> ExpressionUpdatedAtNS f > ExpressionUpdatedAtNS (lastInput p))"

lemma accept_input_alt:
  "accept_input pow p f reset = bind_result
     (if eye_fresh p f reset then ingestRange pow (config p) f (EyeUpdatedAtNS f) 0 10 (prepare_channels p f reset)
      else Inr (prepare_channels p f reset)) (\<lambda>c.
     if expression_fresh p f reset then ingestRange pow (config p) f (ExpressionUpdatedAtNS f) 10 86 c else Inr c)"
  unfolding accept_input_def eye_fresh_def expression_fresh_def Let_def eyeChannelCount_10 channelCount_86 ..

definition filter_before :: "int \<Rightarrow> channel_state \<Rightarrow> bool" where
  "filter_before t s \<longleftrightarrow> (initialized (filter_st s) \<longrightarrow> 0 \<le> lastAtNS (filter_st s) \<and> lastAtNS (filter_st s) < t)"

definition taken :: "merged_frame \<Rightarrow> int \<Rightarrow> nat \<Rightarrow> channel_state \<Rightarrow> channel_state \<Rightarrow> bool" where
  \<comment> \<open>s' is s after the default configuration has taken channel i of the frame, at time t\<close>
  "taken f t i s s' \<longleftrightarrow> (case rawChannelValue (mf_Eye f) (mf_Expressions f) (i + 1) of
     (raw, valid) \<Rightarrow> if valid then seen s' \<and> lastFreshValue s' = positive_zero raw \<and> lastAtNS (filter_st s') = t \<and>
         dropoutStartNS s' = min max_int64 (t + 500000000)
       else s' = s)"

lemma default_ingestRange:
  assumes pow: "\<forall>x. pow x one64 = x" and at: "is_i64 atNS" and len: "length chs = 86" "b \<le> 86"
    and raw: "\<forall>i < 86. \<forall>v. rawChannelValue (mf_Eye f) (mf_Expressions f) (i + 1) = (v, True) \<longrightarrow> finite32 v"
    and st: "\<forall>i. a \<le> i \<and> i < b \<longrightarrow> filter_before atNS (chs ! i)"
  shows "\<exists>chs'. ingestRange pow default_compiled f atNS a b chs = Inr chs' \<and> length chs' = 86 \<and>
    (\<forall>i < 86. if a \<le> i \<and> i < b then taken f atNS i (chs ! i) (chs' ! i) else chs' ! i = chs ! i)"
proof -
  have "\<exists>s'. ingest_one pow default_compiled f atNS i (chs ! i) = Inr s' \<and> taken f atNS i (chs ! i) s'"
    if i: "a \<le> i" "i < b" for i
  proof -
    obtain v valid where r: "rawChannelValue (mf_Eye f) (mf_Expressions f) (i + 1) = (v, valid)" by fastforce
    moreover have "i < 86" using i len(2) by simp
    moreover from this have "valid \<longrightarrow> finite32 v" using raw r by auto
    ultimately show ?thesis
      using default_ingest_one [of pow i atNS f v valid "chs ! i"] pow at r st i unfolding filter_before_def taken_def by simp
  qed
  then obtain g where g: "\<forall>i. a \<le> i \<and> i < b \<longrightarrow> ingest_one pow default_compiled f atNS i (chs ! i) = Inr (g i) \<and>
      taken f atNS i (chs ! i) (g i)"
    by metis
  with ingestRange_pointwise [of a b pow default_compiled f atNS chs g] len show ?thesis by fastforce
qed


lemma validated_frame_ok:
  "validateMergedInput f nowNS = Inr () \<Longrightarrow> frame_ok (model_frame f)"
  by (auto simp: validateMergedInput_def guard_result_Inr bind_result_Inr frame_validate_ok split: sum.splits)

lemma validated_group:
  assumes "validateMergedInput f nowNS = Inr ()"
  shows "cap_has (mf_Capabilities f) CapabilityEye \<longleftrightarrow> EyeSourceID f \<noteq> []"
    and "cap_has (mf_Capabilities f) CapabilityExpression \<longleftrightarrow> ExpressionSourceID f \<noteq> []"
    and "EyeSourceID f \<noteq> [] \<Longrightarrow> 0 < EyeUpdatedAtNS f \<and> EyeUpdatedAtNS f \<le> nowNS"
    and "ExpressionSourceID f \<noteq> [] \<Longrightarrow> 0 < ExpressionUpdatedAtNS f \<and> ExpressionUpdatedAtNS f \<le> nowNS"
  using assms
  by (auto simp: validateMergedInput_def guard_result_Inr bind_result_Inr validateGroup_def split: if_splits)

lemma raw_finite:
  assumes "frame_ok (model_frame f)" "rawChannelValue (mf_Eye f) (mf_Expressions f) ch = (v, True)"
  shows "finite32 v"
proof (cases "ch \<le> 10")
  case True
  have "\<forall>(b, n, x) \<in> set (eye_checks (mf_Eye f)). eye_Valid (mf_Eye f) AND b \<noteq> 0 \<longrightarrow> finite32 x"
    using assms(1) by (simp add: frame_ok_def model_frame_def)
  then show ?thesis
    using True assms(2)
    by (auto simp: rawChannelValue_def eye_channel_defs eye_checks_def channel_ExpressionID_def channelExpressionBase_def split: if_splits)
next
  case False
  have "\<forall>eid < ExpressionCount. mask_has (exp_Valid (mf_Expressions f)) eid \<longrightarrow> finite32 (Values (mf_Expressions f) eid)"
    using assms(1) by (simp add: frame_ok_def model_frame_def)
  then show ?thesis
    using False assms(2)
    by (auto simp: rawChannelValue_def eye_channel_defs channel_ExpressionID_def exp_get_def split: if_splits)
qed

abbreviation group_fresh :: "pipeline \<Rightarrow> merged_frame \<Rightarrow> bool \<Rightarrow> nat \<Rightarrow> bool" where
  "group_fresh p f reset i \<equiv> (if i < 10 then eye_fresh p f reset else expression_fresh p f reset)"

abbreviation group_reset :: "pipeline \<Rightarrow> merged_frame \<Rightarrow> bool \<Rightarrow> nat \<Rightarrow> bool" where
  "group_reset p f reset i \<equiv> (if i < 10 then eye_reset p f reset else expression_reset p f reset)"

abbreviation group_time :: "merged_frame \<Rightarrow> nat \<Rightarrow> int" where
  "group_time f i \<equiv> (if i < 10 then EyeUpdatedAtNS f else ExpressionUpdatedAtNS f)"

lemma default_accept:
  assumes pow: "\<forall>x. pow x one64 = x" and p: "config p = default_compiled" "length (channels p) = 86"
    and v: "validateMergedInput f nowNS = Inr ()" "is_i64 nowNS"
    and old: "\<forall>i < 86. group_fresh p f reset i \<longrightarrow> group_reset p f reset i \<or> filter_before (group_time f i) (channels p ! i)"
  shows "\<exists>chs. accept_input pow p f reset = Inr chs \<and> length chs = 86 \<and>
    (\<forall>i < 86. if group_fresh p f reset i then taken f (group_time f i) i (prepare_channels p f reset ! i) (chs ! i)
      else chs ! i = prepare_channels p f reset ! i)"
proof -
  let ?c = "prepare_channels p f reset"
  note prep = prepare_channels_nth [OF p(2), of _ f reset]
  have len: "length ?c = 86" using prep(1) [of 0] by simp
  have raw: "\<forall>i < 86. \<forall>x. rawChannelValue (mf_Eye f) (mf_Expressions f) (i + 1) = (x, True) \<longrightarrow> finite32 x"
    using raw_finite [OF validated_frame_ok [OF v(1)]] by blast
  note t = validateMergedInput_times [OF v]
  have before: "filter_before (group_time f i) (?c ! i)" if "i < 86" "group_fresh p f reset i" for i
  proof (cases "group_reset p f reset i")
    case True
    then have "?c ! i = empty_channel" using prep(2) that by blast
    then show ?thesis by (simp add: filter_before_def empty_channel_def filter_reset_def)
  next
    case False
    then have "filter_st (?c ! i) = filter_st (channels p ! i)" using prep(3) that by blast
    then show ?thesis using old that False unfolding filter_before_def by metis
  qed
  obtain c1 where c1: "(if eye_fresh p f reset then ingestRange pow default_compiled f (EyeUpdatedAtNS f) 0 10 ?c else Inr ?c) = Inr c1"
    "length c1 = 86" "\<forall>i < 86. if i < 10 \<and> eye_fresh p f reset then taken f (EyeUpdatedAtNS f) i (?c ! i) (c1 ! i) else c1 ! i = ?c ! i"
  proof (cases "eye_fresh p f reset")
    case True
    have "\<forall>i. 0 \<le> i \<and> i < 10 \<longrightarrow> filter_before (EyeUpdatedAtNS f) (?c ! i)"
    proof (intro allI impI)
      fix i :: nat assume "0 \<le> i \<and> i < 10"
      then show "filter_before (EyeUpdatedAtNS f) (?c ! i)" using before [of i] True by simp
    qed
    from default_ingestRange [of pow "EyeUpdatedAtNS f" ?c 10 f 0, OF pow _ len _ raw this] t
    show ?thesis using True that by auto
  qed (use that len in simp)
  obtain c2 where c2: "(if expression_fresh p f reset then ingestRange pow default_compiled f (ExpressionUpdatedAtNS f) 10 86 c1 else Inr c1) = Inr c2"
    "length c2 = 86" "\<forall>i < 86. if 10 \<le> i \<and> expression_fresh p f reset then taken f (ExpressionUpdatedAtNS f) i (c1 ! i) (c2 ! i) else c2 ! i = c1 ! i"
  proof (cases "expression_fresh p f reset")
    case True
    have "\<forall>i. 10 \<le> i \<and> i < 86 \<longrightarrow> filter_before (ExpressionUpdatedAtNS f) (c1 ! i)"
    proof (intro allI impI)
      fix i :: nat assume "10 \<le> i \<and> i < 86"
      then show "filter_before (ExpressionUpdatedAtNS f) (c1 ! i)" using before [of i] c1(3) True by simp
    qed
    from default_ingestRange [of pow "ExpressionUpdatedAtNS f" c1 86 f 10, OF pow _ c1(2) _ raw this] t
    show ?thesis using True that by auto
  qed (use that c1(2) in simp)
  have "accept_input pow p f reset = Inr c2"
    using c1(1) c2(1) by (simp only: accept_input_alt p(1) bind_result_simps)
  moreover have "if group_fresh p f reset i then taken f (group_time f i) i (?c ! i) (c2 ! i) else c2 ! i = ?c ! i"
    if "i < 86" for i
    using c1(3) [rule_format, OF that] c2(3) [rule_format, OF that] by (cases "i < 10"; cases "expression_fresh p f reset"; simp)
  ultimately show ?thesis using c2(2) by blast
qed


section \<open>A pipeline fed by a tracking service\<close>

text \<open>A tracking service and a default pipeline that processes its latest merged frames; it may skip
  frames, and process one again later.\<close>

inductive fed :: "(nat \<Rightarrow> int) \<Rightarrow> (float64 \<Rightarrow> float64 \<Rightarrow> float64) \<Rightarrow> service \<Rightarrow> pipeline \<Rightarrow> bool"
  for clk pow where
  fed_new: "NewPipeline DefaultConfig = Inr p \<Longrightarrow> fed clk pow (newServiceWithClock clk) p"
| fed_track: "fed clk pow s p \<Longrightarrow> tracking_step s s' \<Longrightarrow> fed clk pow s' p"
| fed_process: "fed clk pow s p \<Longrightarrow> LatestMerged s = (m, True) \<Longrightarrow> is_i64 nowNS \<Longrightarrow>
    processAt pow p m nowNS = Inr (out, p') \<Longrightarrow> fed clk pow s p'"

abbreviation group_source :: "merged_frame \<Rightarrow> nat \<Rightarrow> string" where
  "group_source f i \<equiv> (if i < 10 then EyeSourceID f else ExpressionSourceID f)"

definition groups_before :: "merged_frame \<Rightarrow> channel_state list \<Rightarrow> bool" where
  "groups_before f chs \<longleftrightarrow>
     (\<forall>i < 86. group_source f i \<noteq> [] \<longrightarrow> filter_before (group_time f i + 1) (chs ! i))"

definition fed_ok :: "(nat \<Rightarrow> int) \<Rightarrow> service \<Rightarrow> pipeline \<Rightarrow> bool" where
  "fed_ok clk s p \<longleftrightarrow> config p = default_compiled \<and> length (channels p) = 86 \<and> tracking_run (newServiceWithClock clk) s \<and>
     (hasLast p \<longrightarrow> (\<exists>s0. tracking_run (newServiceWithClock clk) s0 \<and> tracking_run s0 s \<and> LatestMerged s0 = (lastInput p, True)) \<and>
        groups_before (lastInput p) (channels p))"

lemma run_group_time:
  assumes "\<forall>n. is_i64 (clk n)" "tracking_run (newServiceWithClock clk) s" "tracking_run s s'"
    and "LatestMerged s = (m, True)" "LatestMerged s' = (m', True)"
    and "group_source m i \<noteq> []" "group_source m i = group_source m' i"
  shows "group_time m i \<le> group_time m' i"
proof (cases "m = m'")
  case False
  have wf: "tracking_wf s" "tracking_wf s'"
    using reachable_wf [OF assms(1,2)] tracking_run_wf [OF assms(3)] by auto
  have l: "hasLatest s" "hasLatest s'" "m = latestMerged s" "m' = latestMerged s'"
    using assms(4,5) by (simp_all add: LatestMerged_def)
  have adv: "advances s s'" using tracking_run_advances [OF assms(3) wf(1)] .
  have "UpdatedAtNS m \<le> lastHostTimeNS s" using wf_parts(2) [OF wf(1)] l by (auto simp: latest_ok_def merged_ok_def)
  with adv False l have "UpdatedAtNS m \<le> UpdatedAtNS m'" by (auto simp: advances_def latest_later_def)
  then have "saturatedFreshnessNonregressing m m'" using run_freshness [OF wf adv] l by simp
  then show ?thesis using assms(6,7)
    by (cases "i < 10") (auto simp: saturatedFreshnessNonregressing_def not_less split: if_splits)
qed simp

lemma classify_again_or_new:
  "classifyInput p f nowNS = Inr (new, reset) \<Longrightarrow> \<not> reset \<Longrightarrow> hasLast p"
  by (auto simp: classifyInput_def split: if_splits)

lemma fed_old:
  assumes clk: "\<forall>n. is_i64 (clk n)" and ok: "fed_ok clk s p" and m: "LatestMerged s = (m, True)"
    and reset: "reset \<or> hasLast p" and i: "i < 86" "group_source m i \<noteq> []" "\<not> group_reset p m reset i"
  shows "filter_before (group_time (lastInput p) i + 1) (channels p ! i) \<and> group_time (lastInput p) i \<le> group_time m i"
proof -
  have h: "hasLast p" "group_source (lastInput p) i = group_source m i"
    using reset i by (cases "i < 10"; auto simp: eye_reset_def expression_reset_def)+
  then obtain s0 where s0: "tracking_run (newServiceWithClock clk) s0" "tracking_run s0 s" "LatestMerged s0 = (lastInput p, True)"
    using ok unfolding fed_ok_def by blast
  have "filter_before (group_time (lastInput p) i + 1) (channels p ! i)"
    using ok h i unfolding fed_ok_def groups_before_def by metis
  moreover have "group_time (lastInput p) i \<le> group_time m i"
    using run_group_time [OF clk s0 m] h i by metis
  ultimately show ?thesis by blast
qed

lemma filter_before_mono: "filter_before t s \<Longrightarrow> t \<le> t' \<Longrightarrow> filter_before t' s"
  by (auto simp: filter_before_def)

lemma filter_before_cong: "filter_st s = filter_st s' \<Longrightarrow> filter_before t s = filter_before t s'"
  by (simp add: filter_before_def)

lemma group_fresh_source:
  assumes "validateMergedInput f nowNS = Inr ()" "group_fresh p f reset i"
  shows "group_source f i \<noteq> []"
  using assms validated_group(1,2) [OF assms(1)] by (cases "i < 10") (auto simp: eye_fresh_def expression_fresh_def)

lemma fed_accept:
  assumes pow: "\<forall>x. pow x one64 = x" and clk: "\<forall>n. is_i64 (clk n)" and ok: "fed_ok clk s p"
    and m: "LatestMerged s = (m, True)" and v: "validateMergedInput m nowNS = Inr ()" "is_i64 nowNS"
    and reset: "reset \<or> hasLast p"
  shows "\<exists>chs. accept_input pow p m reset = Inr chs \<and> length chs = 86 \<and> groups_before m chs"
proof -
  have p: "config p = default_compiled" "length (channels p) = 86" using ok by (simp_all add: fed_ok_def)
  note prep = prepare_channels_nth [OF p(2), of _ m reset]
  have old: "\<forall>i < 86. group_fresh p m reset i \<longrightarrow> group_reset p m reset i \<or> filter_before (group_time m i) (channels p ! i)"
  proof (intro allI impI disjCI)
    fix i assume i: "i < 86" "group_fresh p m reset i" "\<not> filter_before (group_time m i) (channels p ! i)"
    show "group_reset p m reset i"
    proof (rule ccontr)
      assume n: "\<not> group_reset p m reset i"
      then have h: "hasLast p" using reset by (cases "i < 10") (auto simp: eye_reset_def expression_reset_def)
      have "group_time (lastInput p) i < group_time m i"
        using i(2) n h by (cases "i < 10") (auto simp: eye_fresh_def expression_fresh_def)
      then show False
        using fed_old [OF clk ok m reset i(1) group_fresh_source [OF v(1) i(2)] n] i(3) filter_before_mono by fastforce
    qed
  qed
  from default_accept [of pow, OF pow p v old] obtain chs where
    chs: "accept_input pow p m reset = Inr chs" "length chs = 86" and
    nth: "\<forall>i < 86. if group_fresh p m reset i then taken m (group_time m i) i (prepare_channels p m reset ! i) (chs ! i)
      else chs ! i = prepare_channels p m reset ! i" by blast
  have "filter_before (group_time m i + 1) (chs ! i)" if i: "i < 86" "group_source m i \<noteq> []" for i
  proof -
    have pos: "0 < group_time m i" using validated_group(3,4) [OF v(1)] i(2) by (cases "i < 10") auto
    have "filter_before (group_time m i + 1) (prepare_channels p m reset ! i)"
    proof (cases "group_reset p m reset i")
      case True
      then have "prepare_channels p m reset ! i = empty_channel" using prep(2) i(1) by blast
      then show ?thesis by (simp add: filter_before_def empty_channel_def filter_reset_def)
    next
      case False
      then have "filter_st (prepare_channels p m reset ! i) = filter_st (channels p ! i)" using prep(3) i(1) by blast
      moreover have "filter_before (group_time m i + 1) (channels p ! i)"
        using fed_old [OF clk ok m reset i False] filter_before_mono by fastforce
      ultimately show ?thesis using filter_before_cong by blast
    qed
    then show ?thesis
      using nth [rule_format, OF i(1)] pos
      by (cases "group_fresh p m reset i") (auto simp: taken_def filter_before_def split: prod.splits if_splits)
  qed
  then have "groups_before m chs" unfolding groups_before_def by (intro allI impI)
  with chs show ?thesis by blast
qed

lemma fed_invariant:
  assumes pow: "\<forall>x. pow x one64 = x" and clk: "\<forall>n. is_i64 (clk n)"
  shows "fed clk pow s p \<Longrightarrow> fed_ok clk s p"
proof (induction rule: fed.induct)
  case (fed_new p)
  then show ?case using default_pipeline by (auto simp: fed_ok_def intro: run_start)
next
  case (fed_track s p s')
  then show ?case by (auto simp: fed_ok_def intro: run_step)
next
  case (fed_process s p m nowNS out p')
  show ?case using fed_process.hyps(4)
  proof (cases rule: processAt_cases)
    case again
    have "fed_ok clk s (p\<lparr>lastNowNS := nowNS\<rparr>) = fed_ok clk s p" by (simp add: fed_ok_def)
    with again(1) fed_process.IH show ?thesis by simp
  next
    case (new chs reset)
    have r: "reset \<or> hasLast p" using classify_again_or_new [OF new(5)] by blast
    from fed_accept [of pow, OF pow clk fed_process.IH fed_process.hyps(2) new(4) fed_process.hyps(3) r] new(3)
    have c: "length chs = 86" "groups_before m chs" by auto
    have "tracking_run (newServiceWithClock clk) s" "config p = default_compiled"
      using fed_process.IH by (simp_all add: fed_ok_def)
    moreover from this have "\<exists>s0. tracking_run (newServiceWithClock clk) s0 \<and> tracking_run s0 s \<and> LatestMerged s0 = (m, True)"
      using fed_process.hyps(2) run_start by blast
    ultimately show ?thesis using c unfolding fed_ok_def new(1) by simp
  qed
qed

lemma merged_eq_latest:
  "tracking_wf s \<Longrightarrow> LatestMerged s = (m, True) \<Longrightarrow> merged_eq m m"
  using merged_eq_refl by (auto simp: LatestMerged_def)

lemma fed_classify:
  assumes clk: "\<forall>n. is_i64 (clk n)" and ok: "fed_ok clk s p" and m: "LatestMerged s = (m, True)"
    and now: "hasLast p \<longrightarrow> lastNowNS p < nowNS"
  shows "is_ok (classifyInput p m nowNS)"
proof (cases "hasLast p")
  case True
  then obtain s0 where s0: "tracking_run (newServiceWithClock clk) s0" "tracking_run s0 s" "LatestMerged s0 = (lastInput p, True)"
    using ok unfolding fed_ok_def by blast
  have wf: "tracking_wf s0" "tracking_wf s" using reachable_wf [OF clk s0(1)] tracking_run_wf [OF s0(2)] by auto
  have l: "hasLatest s0" "lastInput p = latestMerged s0" "hasLatest s" "m = latestMerged s"
    using s0(3) m by (simp_all add: LatestMerged_def)
  have adv: "advances s0 s" using tracking_run_advances [OF s0(2) wf(1)] .
  have gens: "Generation (lastInput p) = generation s0" "Generation m = generation s"
    "mf_Sequence (lastInput p) = mergedSequence s0" "mf_Sequence m = mergedSequence s" "UpdatedAtNS (lastInput p) \<le> lastHostTimeNS s0"
    using wf_parts(2) [OF wf(1)] wf_parts(2) [OF wf(2)] l
    by (auto simp: latest_ok_def mergedContentEqual_def merged_of_fields merged_ok_def)
  show ?thesis
  proof (cases "m = lastInput p")
    case eq: True
    then show ?thesis using merged_eq_latest [OF wf(2) m] True now by (simp add: classifyInput_def Let_def)
  next
    case False
    have le: "Generation (lastInput p) \<le> Generation m" "mf_Sequence (lastInput p) \<le> mf_Sequence m"
      using adv gens by (simp_all add: advances_def)
    from adv False l gens have seq: "mf_Sequence (lastInput p) < mf_Sequence m \<or> mf_Sequence (lastInput p) = max_u64"
      and "UpdatedAtNS (lastInput p) \<le> UpdatedAtNS m"
      by (auto simp: advances_def latest_later_def)
    then have fresh: "saturatedFreshnessNonregressing (lastInput p) m" using run_freshness [OF wf adv] l by simp
    have "mf_Sequence m = max_u64" if "mf_Sequence (lastInput p) = max_u64"
      using that le(2) le_max_u64 [of "mf_Sequence m"] by (metis order.antisym)
    then show ?thesis using le seq fresh True now by (auto simp: classifyInput_def Let_def guard_result_def)
  qed
qed (simp add: classifyInput_def)

text \<open>C36 (liveness). A pipeline with the default configuration that is fed from a tracking service
  never gets stuck: whatever frames the sources have submitted and whatever frames it has processed
  or skipped, it processes the service's latest frame at any later time without an error. The only
  fact used about math.Pow is that x to the power of one is x.\<close>

theorem fed_pipeline_never_fails:
  assumes "\<forall>x. pow x one64 = x" and "\<forall>n. is_i64 (clk n)" and "fed clk pow s p" and "LatestMerged s = (m, True)"
    and "is_i64 nowNS" and "lastHostTimeNS s \<le> nowNS" and "hasLast p \<longrightarrow> lastNowNS p < nowNS"
  shows "\<exists>out p'. ProcessAt pow m nowNS (Some p) = (Inr out, Some p')"
proof -
  have ok: "fed_ok clk s p" using fed_invariant [OF assms(1-3)] .
  have "tracking_wf s" using reachable_wf [OF assms(2)] ok by (simp add: fed_ok_def)
  then have "merged_ok (lastHostTimeNS s) m" using wf_parts(2) assms(4) by (auto simp: latest_ok_def LatestMerged_def)
  then have v: "validateMergedInput m nowNS = Inr ()" using merged_ok_validates assms(6) by blast
  obtain new reset where c: "classifyInput p m nowNS = Inr (new, reset)"
    using fed_classify [OF assms(2) ok assms(4,7)] by (auto simp: is_ok_iff)
  obtain chs where "accept_input pow p m reset = Inr chs"
    using fed_accept [of pow, OF assms(1,2) ok assms(4) v assms(5)] classify_again_or_new [OF c] by blast
  then have "is_ok (processAt pow p m nowNS)"
    using v c by (cases new) (auto simp: processAt_def Let_def)
  then show ?thesis by (auto simp: ProcessAt_def is_ok_iff)
qed

theorem fed_pipeline_never_fails_witness:
  "\<exists>out p p'. NewPipeline DefaultConfig = Inr p \<and> ProcessAt (\<lambda>x y. x) (latestMerged sample_service) 200 (Some p) = (Inr out, Some p')"
proof -
  have "is_ok (NewPipeline DefaultConfig)" by code_simp
  then obtain p where p: "NewPipeline DefaultConfig = Inr p" by (auto simp: is_ok_iff)
  have track: "fed sample_clock pow s' p" if "tracking_run s s'" "fed sample_clock pow s p" for pow s s'
    using that by (induction rule: tracking_run.induct) (auto intro: fed_track)
  have fed: "fed sample_clock (\<lambda>x y. x) sample_service p"
    by (rule track [OF sample_run]) (rule fed_new [OF p])
  have "\<exists>out p'. ProcessAt (\<lambda>x y. x) (latestMerged sample_service) 200 (Some p) = (Inr out, Some p')"
    by (rule fed_pipeline_never_fails [OF _ sample_clock_ok fed])
      (use default_pipeline [OF p] in \<open>simp_all add: LatestMerged_def sample_service_fields is_i64_range\<close>)
  with p show ?thesis by blast
qed


section \<open>What a pipeline outputs\<close>

text \<open>Whatever the configuration, the frames processed so far and math.Pow, every
  canonical frame a pipeline outputs is canonical in the sense of the tracking model: no unknown
  validity bit, every valid value finite, every invalid value zero.\<close>

theorem outputs_are_canonical:
  assumes "config_typed c" and "processed pow c p" and "is_i64 nowNS" and "processAt pow p f nowNS = Inr (out, p')"
  shows "eye_canonical (cf_Eye out) \<and> exp_canonical (cf_Expressions out)"
  using processAt_ok [OF assms(4) processed_ok [OF assms(2,1)] assms(3)] pipeline_canonical_canonical [OF _ assms(3)]
  by metis


lemma pow_first: "\<forall>x. (\<lambda>x y. x :: float64) x (one64 :: float64) = x" by simp

definition sample_merged :: merged_frame where
  "sample_merged = empty_merged\<lparr>Generation := 1, mf_Sequence := 1, UpdatedAtNS := 100, mf_Capabilities := CapabilityEye,
     mf_Eye := empty_eye\<lparr>eye_Valid := EyeValidLeftOpenness, LeftOpenness := half32\<rparr>, EyeSourceID := ''steam'', EyeUpdatedAtNS := 100\<rparr>"

lemma sample_merged_valid: "validateMergedInput sample_merged 200 = Inr ()"
  by code_simp

lemma default_first_frame:
  assumes "\<forall>x. pow x one64 = x" "config p = default_compiled" "length (channels p) = 86" "\<not> hasLast p"
    and "validateMergedInput f nowNS = Inr ()" "is_i64 nowNS"
  shows "\<exists>out p'. processAt pow p f nowNS = Inr (out, p')"
proof -
  have old: "\<forall>i < 86. group_fresh p f True i \<longrightarrow> group_reset p f True i \<or> filter_before (group_time f i) (channels p ! i)"
    by (simp add: eye_reset_def expression_reset_def)
  from default_accept [of pow, OF assms(1-3,5,6) old] obtain chs where "accept_input pow p f True = Inr chs" by blast
  then show ?thesis using assms(4,5) by (simp add: processAt_def classifyInput_def Let_def)
qed

lemma default_new: "\<exists>p. NewPipeline DefaultConfig = Inr p"
proof -
  have "is_ok (NewPipeline DefaultConfig)" by code_simp
  then show ?thesis by (auto simp: is_ok_iff)
qed

lemma sample_processed: "\<exists>p out p'. NewPipeline DefaultConfig = Inr p \<and> processAt (\<lambda>x y. x) p sample_merged 200 = Inr (out, p')"
proof -
  obtain p where p: "NewPipeline DefaultConfig = Inr p" using default_new by blast
  then show ?thesis
    using default_first_frame [of "\<lambda>x y. x", OF _ _ _ _ sample_merged_valid] default_pipeline [OF p] by (simp add: is_i64_range)
qed

lemma default_typed: "config_typed DefaultConfig"
  by code_simp

theorem outputs_are_canonical_witness:
  "\<exists>p out p'. processAt (\<lambda>x y. x) p sample_merged 200 = Inr (out, p') \<and> eye_canonical (cf_Eye out)"
proof -
  obtain p out p' where p: "NewPipeline DefaultConfig = Inr p" "processAt (\<lambda>x y. x) p sample_merged 200 = Inr (out, p')"
    using sample_processed by blast
  have t: "is_i64 200" by code_simp
  from outputs_are_canonical [OF default_typed processed_new [OF p(1)] t p(2)] p show ?thesis by blast
qed

text \<open>ProcessAt either fails and leaves the pipeline as it was, or it succeeds and
  the pipeline has moved forward: time has not gone back, and its last input is of the same
  generation with no smaller revision, or of a later generation.\<close>

theorem ProcessAt_forward:
  assumes "ProcessAt pow f nowNS (Some p) = (r, Some p')"
  shows "(case r of Inl e \<Rightarrow> p' = p
    | Inr out \<Rightarrow> lastNowNS p' = nowNS \<and> cf_Generation out = Generation f \<and> Revision out = mf_Sequence f \<and>
        ProcessedAtNS out = nowNS \<and> config p' = config p \<and>
        (hasLast p \<longrightarrow> hasLast p' \<and> lastNowNS p \<le> lastNowNS p' \<and>
          (Generation (lastInput p) < Generation (lastInput p') \<or>
           Generation (lastInput p) = Generation (lastInput p') \<and> mf_Sequence (lastInput p) \<le> mf_Sequence (lastInput p'))))"
proof (cases "processAt pow p f nowNS")
  case (Inl e)
  then show ?thesis using assms by (auto simp: ProcessAt_def)
next
  case (Inr q)
  then obtain out where q: "processAt pow p f nowNS = Inr (out, p')" "r = Inr out"
    using assms by (cases q) (auto simp: ProcessAt_def)
  then obtain new reset where c: "classifyInput p f nowNS = Inr (new, reset)"
    by (auto simp: processAt_def bind_result_Inr)
  show ?thesis
  proof (cases new)
    case True
    with q c obtain chs where "p' = p\<lparr>channels := chs, hasLast := True, lastInput := f, lastNowNS := nowNS\<rparr>"
      "out = pipeline_canonical p' f nowNS"
      by (auto simp: processAt_def bind_result_Inr Let_def)
    then show ?thesis using classify_forward [OF c] q(2) by (simp add: pipeline_canonical_def Let_def)
  next
    case False
    with q c have "p' = p\<lparr>lastNowNS := nowNS\<rparr>" "out = pipeline_canonical p' f nowNS"
      by (auto simp: processAt_def bind_result_Inr)
    then show ?thesis using classify_forward [OF c] q(2) by (simp add: pipeline_canonical_def Let_def)
  qed
qed


theorem ProcessAt_forward_witness:
  "\<exists>p out p'. ProcessAt (\<lambda>x y. x) sample_merged 200 (Some p) = (Inr out, Some p') \<and> lastNowNS p' = 200 \<and> Revision out = 1"
proof -
  obtain p out p' where p: "processAt (\<lambda>x y. x) p sample_merged 200 = Inr (out, p')"
    using sample_processed by blast
  then have P: "ProcessAt (\<lambda>x y. x) sample_merged 200 (Some p) = (Inr out, Some p')"
    by (simp add: ProcessAt_def)
  from ProcessAt_forward [OF P] P show ?thesis by (auto simp: sample_merged_def)
qed


section \<open>The default pipeline passes values through\<close>

lemma exp_of_candidates_fold:
  "n \<le> 76 \<Longrightarrow> exp_get (fold (\<lambda>eid s.
     let candidate = cand_at cands (fst (ExpressionChannel eid)) in
     if cand_valid candidate then fst (exp_set eid (cand_value candidate) s) else s) [0..<n] empty_expressions) k =
   (if k < n \<and> cand_valid (cand_at cands (11 + k)) then (cand_value (cand_at cands (11 + k)), True) else (zero32, False))"
proof (induction n)
  case 0
  then show ?case by (simp add: exp_get_def empty_expressions_def)
next
  case (Suc n)
  have c: "fst (ExpressionChannel n) = 11 + n"
    using Suc.prems by (simp add: ExpressionChannel_def channelExpressionBase_def)
  have get_set: "exp_get (fst (exp_set n v s)) k = (if k = n then (v, True) else exp_get s k)" for v s
    using Suc.prems by (auto simp: exp_get_def exp_set_def mask_has_set)
  have IH: "exp_get (fold (\<lambda>eid s.
     let candidate = cand_at cands (fst (ExpressionChannel eid)) in
     if cand_valid candidate then fst (exp_set eid (cand_value candidate) s) else s) [0..<n] empty_expressions) k =
   (if k < n \<and> cand_valid (cand_at cands (11 + k)) then (cand_value (cand_at cands (11 + k)), True) else (zero32, False))"
    using Suc.IH Suc.prems by simp
  show ?case
    by (auto simp: c Let_def get_set IH [unfolded Let_def] less_Suc_eq)
qed

lemma raw_of_candidates:
  assumes "cand_valid (cand_at cands 1) = cand_valid (cand_at cands 2)" "cand_valid (cand_at cands 3) = cand_valid (cand_at cands 4)"
    and "cand_valid (cand_at cands 7) = cand_valid (cand_at cands 9)" "cand_valid (cand_at cands 8) = cand_valid (cand_at cands 10)"
    and "knownChannel ch"
  shows "rawChannelValue (eye_of_candidates cands) (expressions_of_candidates cands) ch =
    (if cand_valid (cand_at cands ch) then (cand_value (cand_at cands ch), True) else (zero32, False))"
proof -
  obtain b1 b2 b3 b4 b5 b6 where b: "eye_flags cands = (b1, b2, b3, b4, b5, b6)" by (cases "eye_flags cands")
  note bits = eye_of_candidates_bits [OF b] and vals = eye_of_candidates_values [OF b]
  have flags: "b1 = cand_valid (cand_at cands 1)" "b2 = cand_valid (cand_at cands 3)" "b3 = cand_valid (cand_at cands 5)"
    "b4 = cand_valid (cand_at cands 6)" "b5 = cand_valid (cand_at cands 7)" "b6 = cand_valid (cand_at cands 8)"
    using b assms(1-4) by (auto simp: eye_flags_def Let_def)
  show ?thesis
  proof (cases "ch \<le> 10")
    case True
    then have "ch = 1 \<or> ch = 2 \<or> ch = 3 \<or> ch = 4 \<or> ch = 5 \<or> ch = 6 \<or> ch = 7 \<or> ch = 8 \<or> ch = 9 \<or> ch = 10"
      using assms(5) unfolding known_bounds by presburger
    then show ?thesis
      using assms(1-4) by (elim disjE) (simp_all add: rawChannelValue_def eye_channel_defs bits vals flags zero_vec2_def)
  next
    case False
    then have "rawChannelValue (eye_of_candidates cands) (expressions_of_candidates cands) ch =
        exp_get (expressions_of_candidates cands) (ch - 11)"
      using assms(5) by (simp add: rawChannelValue_def eye_channel_defs channel_ExpressionID_def channelExpressionBase_def known_bounds)
    also have "\<dots> = (if cand_valid (cand_at cands ch) then (cand_value (cand_at cands ch), True) else (zero32, False))"
      using False assms(5) exp_of_candidates_fold [of 76 cands "ch - 11"] le_add_diff_inverse [of 11 ch]
      unfolding known_bounds by (simp add: expressions_of_candidates_def less_diff_conv2)
    finally show ?thesis .
  qed
qed

lemma raw_valid_capable:
  assumes "frame_ok (model_frame f)" "snd (rawChannelValue (mf_Eye f) (mf_Expressions f) (Suc i))" "i < 86"
  shows "cap_has (mf_Capabilities f) (if i < 10 then CapabilityEye else CapabilityExpression)"
  using assms
  by (auto simp: frame_ok_def model_frame_def rawChannelValue_def eye_channel_defs channel_ExpressionID_def
      channelExpressionBase_def exp_get_def mask_is_zero_iff split: if_splits)


lemma default_candidates:
  assumes new: "NewPipeline DefaultConfig = Inr p" and out: "processAt pow p f nowNS = Inr (out, p')"
    and pow: "\<forall>x. pow x one64 = x" and now: "is_i64 nowNS"
    and recent: "EyeSourceID f \<noteq> [] \<longrightarrow> nowNS \<le> EyeUpdatedAtNS f + 500000000"
      "ExpressionSourceID f \<noteq> [] \<longrightarrow> nowNS \<le> ExpressionUpdatedAtNS f + 500000000"
    and i: "i < 86"
  shows "candidate_list p' nowNS ! i = (case rawChannelValue (mf_Eye f) (mf_Expressions f) (Suc i) of
    (v, valid) \<Rightarrow> if valid then \<lparr>cand_value = positive_zero v, cand_valid = True\<rparr> else \<lparr>cand_value = zero32, cand_valid = False\<rparr>)"
proof -
  note p = default_pipeline [OF new]
  obtain chs reset where p': "p' = p\<lparr>channels := chs, hasLast := True, lastInput := f, lastNowNS := nowNS\<rparr>"
    and acc: "accept_input pow p f reset = Inr chs" and v: "validateMergedInput f nowNS = Inr ()" and r: reset
    using out by (cases rule: processAt_cases) (simp_all add: p classifyInput_def)
  have grp: "group_reset p f reset j" "group_fresh p f reset j = cap_has (mf_Capabilities f) (if j < 10 then CapabilityEye else CapabilityExpression)" for j
    using r by (auto simp: eye_reset_def expression_reset_def eye_fresh_def expression_fresh_def)
  have len: "config p = default_compiled" "length (channels p) = 86" by (simp_all add: p)
  have old: "\<forall>i < 86. group_fresh p f reset i \<longrightarrow> group_reset p f reset i \<or> filter_before (group_time f i) (channels p ! i)"
    using grp(1) by metis
  obtain chs' where "accept_input pow p f reset = Inr chs'" and
    nth': "\<forall>i < 86. if group_fresh p f reset i then taken f (group_time f i) i (prepare_channels p f reset ! i) (chs' ! i)
      else chs' ! i = prepare_channels p f reset ! i"
    using default_accept [of pow, OF pow len v now old] by blast
  then have "chs' = chs" using acc by simp
  note nth = nth' [unfolded this]
  have prep: "prepare_channels p f reset ! i = empty_channel"
    using prepare_channels_nth(2) [of p i f reset] i grp(1) [of i] by (simp add: p)
  obtain x valid where x: "rawChannelValue (mf_Eye f) (mf_Expressions f) (Suc i) = (x, valid)" by fastforce
  have cand: "candidate_list p' nowNS ! i = (case dropoutValue (chs ! i) (Dropout (DefaultChannel DefaultConfig)) nowNS of
      (v, ok) \<Rightarrow> \<lparr>cand_value = v, cand_valid = ok\<rparr>)"
    using i by (simp add: candidate_list_def p' p default_channel)
  show ?thesis
  proof (cases valid)
    case True
    have cap: "cap_has (mf_Capabilities f) (if i < 10 then CapabilityEye else CapabilityExpression)"
      using raw_valid_capable [OF validated_frame_ok [OF v] _ i] x True by simp
    then have "group_source f i \<noteq> []" using validated_group(1,2) [OF v] by (cases "i < 10") auto
    then have "nowNS \<le> group_time f i + 500000000" using recent by (cases "i < 10") auto
    moreover have "taken f (group_time f i) i (prepare_channels p f reset ! i) (chs ! i)"
      using nth i cap grp(2) [of i] by metis
    ultimately have "seen (chs ! i)" "lastFreshValue (chs ! i) = positive_zero x" "nowNS \<le> dropoutStartNS (chs ! i)"
      using x True now by (auto simp: taken_def is_i64_def)
    then show ?thesis using x True cand by (simp add: dropoutValue_def)
  next
    case False
    have "chs ! i = empty_channel"
    proof (cases "group_fresh p f reset i")
      case True
      then have "taken f (group_time f i) i (prepare_channels p f reset ! i) (chs ! i)" using nth i by metis
      with False x prep show ?thesis by (simp add: taken_def)
    next
      case no: False
      then show ?thesis using nth i prep by metis
    qed
    then show ?thesis using x False cand by (simp add: dropoutValue_def empty_channel_def)
  qed
qed

text \<open>With the default configuration the first frame of a pipeline passes through:
  while the group it belongs to is fresh, a channel of the output has the value it has in the
  input (a negative zero becoming zero) and is valid exactly if it is valid in the input.\<close>

theorem default_pipeline_passes_through:
  assumes "\<forall>x. pow x one64 = x" and "NewPipeline DefaultConfig = Inr p" and "ProcessAt pow f nowNS (Some p) = (Inr out, Some p')"
    and "is_i64 nowNS" and "EyeSourceID f \<noteq> [] \<longrightarrow> nowNS \<le> EyeUpdatedAtNS f + 500000000"
    and "ExpressionSourceID f \<noteq> [] \<longrightarrow> nowNS \<le> ExpressionUpdatedAtNS f + 500000000" and "knownChannel ch"
  shows "rawChannelValue (cf_Eye out) (cf_Expressions out) ch =
    (case rawChannelValue (mf_Eye f) (mf_Expressions f) ch of
       (v, valid) \<Rightarrow> if valid then (positive_zero v, True) else (zero32, False))"
proof -
  have P: "processAt pow p f nowNS = Inr (out, p')"
    using assms(3) by (auto simp: ProcessAt_def split: sum.splits)
  let ?c = "candidate_list p' nowNS" and ?raw = "rawChannelValue (mf_Eye f) (mf_Expressions f)"
  have at: "cand_at ?c k = (case ?raw k of
      (v, valid) \<Rightarrow> if valid then \<lparr>cand_value = positive_zero v, cand_valid = True\<rparr> else \<lparr>cand_value = zero32, cand_valid = False\<rparr>)"
    if "1 \<le> k" "k \<le> 86" for k
    using default_candidates [of p pow f nowNS out p' "k - 1"] assms P that by (simp add: cand_at_def)
  have "config p' = default_compiled"
    using P by (cases rule: processAt_cases) (simp_all add: default_pipeline [OF assms(2)])
  moreover have "out = pipeline_canonical p' f nowNS" using P by (cases rule: processAt_cases) simp_all
  ultimately have out: "cf_Eye out = eye_of_candidates ?c" "cf_Expressions out = expressions_of_candidates ?c"
    by (simp_all add: pipeline_canonical_def default_compiled_def Let_def)
  have "cand_valid (cand_at ?c 1) = cand_valid (cand_at ?c 2)" "cand_valid (cand_at ?c 3) = cand_valid (cand_at ?c 4)"
    "cand_valid (cand_at ?c 7) = cand_valid (cand_at ?c 9)" "cand_valid (cand_at ?c 8) = cand_valid (cand_at ?c 10)"
    by (simp_all add: at rawChannelValue_def eye_channel_defs)
  from raw_of_candidates [OF this assms(7)] show ?thesis
    using assms(7) by (auto simp: out at known_bounds split: prod.splits)
qed

theorem default_pipeline_passes_through_witness:
  "\<exists>p out p'. ProcessAt (\<lambda>x y. x) sample_merged 200 (Some p) = (Inr out, Some p') \<and>
    rawChannelValue (cf_Eye out) (cf_Expressions out) 5 = (half32, True)"
proof -
  obtain p out p' where p: "NewPipeline DefaultConfig = Inr p" "processAt (\<lambda>x y. x) p sample_merged 200 = Inr (out, p')"
    using sample_processed by blast
  then have P: "ProcessAt (\<lambda>x y. x) sample_merged 200 (Some p) = (Inr out, Some p')" by (simp add: ProcessAt_def)
  have r: "rawChannelValue (mf_Eye sample_merged) (mf_Expressions sample_merged) 5 = (half32, True)" "positive_zero half32 = half32"
    by code_simp+
  have "rawChannelValue (cf_Eye out) (cf_Expressions out) 5 = (half32, True)"
    using default_pipeline_passes_through [OF _ p(1) P, of 5] r by (simp add: sample_merged_def is_i64_range known_bounds)
  with P show ?thesis by blast
qed

end
