(* ===== verification/ParameterTable.thy ===== *)
theory ParameterTable
  imports GoStrings IEEE754
begin

text \<open>
  internal/parameters/definitions_gen.go: the table of the 127 parameters the host can send, a
  committed generated file, with the types of types.go it uses. The table is written as one list
  per group of parameters (two or three for the long groups), every field included.
\<close>

unbundle bit_operations_syntax

section \<open>Types\<close>

datatype parameter_kind = KindDetailed | KindSimplified | KindTrackingActive

type_synonym value_type = u8

definition ValueFloat :: value_type where "ValueFloat = 1"
definition ValueBool :: value_type where "ValueBool = 2"

type_synonym encoding = u8

definition EncodingFloat :: encoding where "EncodingFloat = 1"
definition EncodingBinary :: encoding where "EncodingBinary = 2"
definition EncodingBool :: encoding where "EncodingBool = 4"

definition encoding_has :: "encoding \<Rightarrow> encoding \<Rightarrow> bool" where
  "encoding_has e flag \<longleftrightarrow> e AND flag \<noteq> 0"

record value_range =
  range_Min :: float32
  range_Max :: float32

record semantic_range =
  sr_Min :: float32
  sr_Max :: float32
  Meaning :: string

record bool_semantics =
  bs_True :: string
  bs_False :: string

record parameter_definition =
  pd_ID :: nat
  pd_Name :: string
  OSCName :: string
  pd_Group :: string
  pd_Kind :: parameter_kind
  pd_ValueType :: value_type
  pd_Encodings :: encoding
  pd_Range :: value_range
  HasRange :: bool
  pd_Unit :: string
  Semantics :: "semantic_range list"
  pd_Bool :: bool_semantics

section \<open>The table\<close>

definition ParameterEyeLeftX :: nat where "ParameterEyeLeftX = 0"
definition ParameterEyeLeftY :: nat where "ParameterEyeLeftY = 1"
definition ParameterEyeRightX :: nat where "ParameterEyeRightX = 2"
definition ParameterEyeRightY :: nat where "ParameterEyeRightY = 3"
definition ParameterEyeLidRight :: nat where "ParameterEyeLidRight = 4"
definition ParameterEyeLidLeft :: nat where "ParameterEyeLidLeft = 5"
definition ParameterEyeLid :: nat where "ParameterEyeLid = 6"
definition ParameterEyeSquintRight :: nat where "ParameterEyeSquintRight = 7"
definition ParameterEyeSquintLeft :: nat where "ParameterEyeSquintLeft = 8"
definition ParameterEyeSquint :: nat where "ParameterEyeSquint = 9"
definition ParameterPupilDilation :: nat where "ParameterPupilDilation = 10"
definition ParameterPupilDiameterRight :: nat where "ParameterPupilDiameterRight = 11"
definition ParameterPupilDiameterLeft :: nat where "ParameterPupilDiameterLeft = 12"
definition ParameterPupilDiameter :: nat where "ParameterPupilDiameter = 13"
definition ParameterBrowPinchRight :: nat where "ParameterBrowPinchRight = 14"
definition ParameterBrowPinchLeft :: nat where "ParameterBrowPinchLeft = 15"
definition ParameterBrowLowererRight :: nat where "ParameterBrowLowererRight = 16"
definition ParameterBrowLowererLeft :: nat where "ParameterBrowLowererLeft = 17"
definition ParameterBrowInnerUpRight :: nat where "ParameterBrowInnerUpRight = 18"
definition ParameterBrowInnerUpLeft :: nat where "ParameterBrowInnerUpLeft = 19"
definition ParameterBrowOuterUpRight :: nat where "ParameterBrowOuterUpRight = 20"
definition ParameterBrowOuterUpLeft :: nat where "ParameterBrowOuterUpLeft = 21"
definition ParameterNoseSneerRight :: nat where "ParameterNoseSneerRight = 22"
definition ParameterNoseSneerLeft :: nat where "ParameterNoseSneerLeft = 23"
definition ParameterNasalDilationRight :: nat where "ParameterNasalDilationRight = 24"
definition ParameterNasalDilationLeft :: nat where "ParameterNasalDilationLeft = 25"
definition ParameterNasalConstrictRight :: nat where "ParameterNasalConstrictRight = 26"
definition ParameterNasalConstrictLeft :: nat where "ParameterNasalConstrictLeft = 27"
definition ParameterCheekSquintRight :: nat where "ParameterCheekSquintRight = 28"
definition ParameterCheekSquintLeft :: nat where "ParameterCheekSquintLeft = 29"
definition ParameterCheekPuffSuckRight :: nat where "ParameterCheekPuffSuckRight = 30"
definition ParameterCheekPuffSuckLeft :: nat where "ParameterCheekPuffSuckLeft = 31"
definition ParameterJawOpen :: nat where "ParameterJawOpen = 32"
definition ParameterMouthClosed :: nat where "ParameterMouthClosed = 33"
definition ParameterJawX :: nat where "ParameterJawX = 34"
definition ParameterJawZ :: nat where "ParameterJawZ = 35"
definition ParameterJawClench :: nat where "ParameterJawClench = 36"
definition ParameterJawMandibleRaise :: nat where "ParameterJawMandibleRaise = 37"
definition ParameterLipSuckUpperRight :: nat where "ParameterLipSuckUpperRight = 38"
definition ParameterLipSuckUpperLeft :: nat where "ParameterLipSuckUpperLeft = 39"
definition ParameterLipSuckLowerRight :: nat where "ParameterLipSuckLowerRight = 40"
definition ParameterLipSuckLowerLeft :: nat where "ParameterLipSuckLowerLeft = 41"
definition ParameterLipSuckCornerRight :: nat where "ParameterLipSuckCornerRight = 42"
definition ParameterLipSuckCornerLeft :: nat where "ParameterLipSuckCornerLeft = 43"
definition ParameterLipFunnelUpperRight :: nat where "ParameterLipFunnelUpperRight = 44"
definition ParameterLipFunnelUpperLeft :: nat where "ParameterLipFunnelUpperLeft = 45"
definition ParameterLipFunnelLowerRight :: nat where "ParameterLipFunnelLowerRight = 46"
definition ParameterLipFunnelLowerLeft :: nat where "ParameterLipFunnelLowerLeft = 47"
definition ParameterLipPuckerUpperRight :: nat where "ParameterLipPuckerUpperRight = 48"
definition ParameterLipPuckerUpperLeft :: nat where "ParameterLipPuckerUpperLeft = 49"
definition ParameterLipPuckerLowerRight :: nat where "ParameterLipPuckerLowerRight = 50"
definition ParameterLipPuckerLowerLeft :: nat where "ParameterLipPuckerLowerLeft = 51"
definition ParameterMouthUpperUpRight :: nat where "ParameterMouthUpperUpRight = 52"
definition ParameterMouthUpperUpLeft :: nat where "ParameterMouthUpperUpLeft = 53"
definition ParameterMouthLowerDownRight :: nat where "ParameterMouthLowerDownRight = 54"
definition ParameterMouthLowerDownLeft :: nat where "ParameterMouthLowerDownLeft = 55"
definition ParameterMouthUpperDeepenRight :: nat where "ParameterMouthUpperDeepenRight = 56"
definition ParameterMouthUpperDeepenLeft :: nat where "ParameterMouthUpperDeepenLeft = 57"
definition ParameterMouthUpperX :: nat where "ParameterMouthUpperX = 58"
definition ParameterMouthLowerX :: nat where "ParameterMouthLowerX = 59"
definition ParameterMouthCornerPullRight :: nat where "ParameterMouthCornerPullRight = 60"
definition ParameterMouthCornerPullLeft :: nat where "ParameterMouthCornerPullLeft = 61"
definition ParameterMouthCornerSlantRight :: nat where "ParameterMouthCornerSlantRight = 62"
definition ParameterMouthCornerSlantLeft :: nat where "ParameterMouthCornerSlantLeft = 63"
definition ParameterMouthDimpleRight :: nat where "ParameterMouthDimpleRight = 64"
definition ParameterMouthDimpleLeft :: nat where "ParameterMouthDimpleLeft = 65"
definition ParameterMouthFrownRight :: nat where "ParameterMouthFrownRight = 66"
definition ParameterMouthFrownLeft :: nat where "ParameterMouthFrownLeft = 67"
definition ParameterMouthStretchRight :: nat where "ParameterMouthStretchRight = 68"
definition ParameterMouthStretchLeft :: nat where "ParameterMouthStretchLeft = 69"
definition ParameterMouthRaiserUpper :: nat where "ParameterMouthRaiserUpper = 70"
definition ParameterMouthRaiserLower :: nat where "ParameterMouthRaiserLower = 71"
definition ParameterMouthPressRight :: nat where "ParameterMouthPressRight = 72"
definition ParameterMouthPressLeft :: nat where "ParameterMouthPressLeft = 73"
definition ParameterMouthTightenerRight :: nat where "ParameterMouthTightenerRight = 74"
definition ParameterMouthTightenerLeft :: nat where "ParameterMouthTightenerLeft = 75"
definition ParameterTongueOut :: nat where "ParameterTongueOut = 76"
definition ParameterTongueX :: nat where "ParameterTongueX = 77"
definition ParameterTongueY :: nat where "ParameterTongueY = 78"
definition ParameterTongueRoll :: nat where "ParameterTongueRoll = 79"
definition ParameterTongueArchY :: nat where "ParameterTongueArchY = 80"
definition ParameterTongueShape :: nat where "ParameterTongueShape = 81"
definition ParameterTongueTwistRight :: nat where "ParameterTongueTwistRight = 82"
definition ParameterTongueTwistLeft :: nat where "ParameterTongueTwistLeft = 83"
definition ParameterSoftPalateClose :: nat where "ParameterSoftPalateClose = 84"
definition ParameterThroatSwallow :: nat where "ParameterThroatSwallow = 85"
definition ParameterNeckFlexRight :: nat where "ParameterNeckFlexRight = 86"
definition ParameterNeckFlexLeft :: nat where "ParameterNeckFlexLeft = 87"
definition ParameterEyeX :: nat where "ParameterEyeX = 88"
definition ParameterEyeY :: nat where "ParameterEyeY = 89"
definition ParameterBrowDownRight :: nat where "ParameterBrowDownRight = 90"
definition ParameterBrowDownLeft :: nat where "ParameterBrowDownLeft = 91"
definition ParameterBrowOuterUp :: nat where "ParameterBrowOuterUp = 92"
definition ParameterBrowInnerUp :: nat where "ParameterBrowInnerUp = 93"
definition ParameterBrowUp :: nat where "ParameterBrowUp = 94"
definition ParameterBrowExpressionRight :: nat where "ParameterBrowExpressionRight = 95"
definition ParameterBrowExpressionLeft :: nat where "ParameterBrowExpressionLeft = 96"
definition ParameterBrowExpression :: nat where "ParameterBrowExpression = 97"
definition ParameterMouthX :: nat where "ParameterMouthX = 98"
definition ParameterMouthUpperUp :: nat where "ParameterMouthUpperUp = 99"
definition ParameterMouthLowerDown :: nat where "ParameterMouthLowerDown = 100"
definition ParameterMouthOpen :: nat where "ParameterMouthOpen = 101"
definition ParameterMouthSmileRight :: nat where "ParameterMouthSmileRight = 102"
definition ParameterMouthSmileLeft :: nat where "ParameterMouthSmileLeft = 103"
definition ParameterMouthSadRight :: nat where "ParameterMouthSadRight = 104"
definition ParameterMouthSadLeft :: nat where "ParameterMouthSadLeft = 105"
definition ParameterSmileFrownRight :: nat where "ParameterSmileFrownRight = 106"
definition ParameterSmileFrownLeft :: nat where "ParameterSmileFrownLeft = 107"
definition ParameterSmileFrown :: nat where "ParameterSmileFrown = 108"
definition ParameterSmileSadRight :: nat where "ParameterSmileSadRight = 109"
definition ParameterSmileSadLeft :: nat where "ParameterSmileSadLeft = 110"
definition ParameterSmileSad :: nat where "ParameterSmileSad = 111"
definition ParameterLipSuckUpper :: nat where "ParameterLipSuckUpper = 112"
definition ParameterLipSuckLower :: nat where "ParameterLipSuckLower = 113"
definition ParameterLipSuck :: nat where "ParameterLipSuck = 114"
definition ParameterLipFunnelUpper :: nat where "ParameterLipFunnelUpper = 115"
definition ParameterLipFunnelLower :: nat where "ParameterLipFunnelLower = 116"
definition ParameterLipFunnel :: nat where "ParameterLipFunnel = 117"
definition ParameterLipPuckerUpper :: nat where "ParameterLipPuckerUpper = 118"
definition ParameterLipPuckerLower :: nat where "ParameterLipPuckerLower = 119"
definition ParameterLipPucker :: nat where "ParameterLipPucker = 120"
definition ParameterNoseSneer :: nat where "ParameterNoseSneer = 121"
definition ParameterCheekSquint :: nat where "ParameterCheekSquint = 122"
definition ParameterCheekPuffSuck :: nat where "ParameterCheekPuffSuck = 123"
definition ParameterEyeTrackingActive :: nat where "ParameterEyeTrackingActive = 124"
definition ParameterExpressionTrackingActive :: nat where "ParameterExpressionTrackingActive = 125"
definition ParameterLipTrackingActive :: nat where "ParameterLipTrackingActive = 126"

lemmas parameter_ids =
  ParameterEyeLeftX_def ParameterEyeLeftY_def ParameterEyeRightX_def ParameterEyeRightY_def
  ParameterEyeLidRight_def ParameterEyeLidLeft_def ParameterEyeLid_def ParameterEyeSquintRight_def
  ParameterEyeSquintLeft_def ParameterEyeSquint_def ParameterPupilDilation_def ParameterPupilDiameterRight_def
  ParameterPupilDiameterLeft_def ParameterPupilDiameter_def ParameterBrowPinchRight_def
  ParameterBrowPinchLeft_def ParameterBrowLowererRight_def ParameterBrowLowererLeft_def
  ParameterBrowInnerUpRight_def ParameterBrowInnerUpLeft_def ParameterBrowOuterUpRight_def
  ParameterBrowOuterUpLeft_def ParameterNoseSneerRight_def ParameterNoseSneerLeft_def
  ParameterNasalDilationRight_def ParameterNasalDilationLeft_def ParameterNasalConstrictRight_def
  ParameterNasalConstrictLeft_def ParameterCheekSquintRight_def ParameterCheekSquintLeft_def
  ParameterCheekPuffSuckRight_def ParameterCheekPuffSuckLeft_def ParameterJawOpen_def ParameterMouthClosed_def
  ParameterJawX_def ParameterJawZ_def ParameterJawClench_def ParameterJawMandibleRaise_def
  ParameterLipSuckUpperRight_def ParameterLipSuckUpperLeft_def ParameterLipSuckLowerRight_def
  ParameterLipSuckLowerLeft_def ParameterLipSuckCornerRight_def ParameterLipSuckCornerLeft_def
  ParameterLipFunnelUpperRight_def ParameterLipFunnelUpperLeft_def ParameterLipFunnelLowerRight_def
  ParameterLipFunnelLowerLeft_def ParameterLipPuckerUpperRight_def ParameterLipPuckerUpperLeft_def
  ParameterLipPuckerLowerRight_def ParameterLipPuckerLowerLeft_def ParameterMouthUpperUpRight_def
  ParameterMouthUpperUpLeft_def ParameterMouthLowerDownRight_def ParameterMouthLowerDownLeft_def
  ParameterMouthUpperDeepenRight_def ParameterMouthUpperDeepenLeft_def ParameterMouthUpperX_def
  ParameterMouthLowerX_def ParameterMouthCornerPullRight_def ParameterMouthCornerPullLeft_def
  ParameterMouthCornerSlantRight_def ParameterMouthCornerSlantLeft_def ParameterMouthDimpleRight_def
  ParameterMouthDimpleLeft_def ParameterMouthFrownRight_def ParameterMouthFrownLeft_def
  ParameterMouthStretchRight_def ParameterMouthStretchLeft_def ParameterMouthRaiserUpper_def
  ParameterMouthRaiserLower_def ParameterMouthPressRight_def ParameterMouthPressLeft_def
  ParameterMouthTightenerRight_def ParameterMouthTightenerLeft_def ParameterTongueOut_def ParameterTongueX_def
  ParameterTongueY_def ParameterTongueRoll_def ParameterTongueArchY_def ParameterTongueShape_def
  ParameterTongueTwistRight_def ParameterTongueTwistLeft_def ParameterSoftPalateClose_def
  ParameterThroatSwallow_def ParameterNeckFlexRight_def ParameterNeckFlexLeft_def ParameterEyeX_def
  ParameterEyeY_def ParameterBrowDownRight_def ParameterBrowDownLeft_def ParameterBrowOuterUp_def
  ParameterBrowInnerUp_def ParameterBrowUp_def ParameterBrowExpressionRight_def
  ParameterBrowExpressionLeft_def ParameterBrowExpression_def ParameterMouthX_def ParameterMouthUpperUp_def
  ParameterMouthLowerDown_def ParameterMouthOpen_def ParameterMouthSmileRight_def ParameterMouthSmileLeft_def
  ParameterMouthSadRight_def ParameterMouthSadLeft_def ParameterSmileFrownRight_def
  ParameterSmileFrownLeft_def ParameterSmileFrown_def ParameterSmileSadRight_def ParameterSmileSadLeft_def
  ParameterSmileSad_def ParameterLipSuckUpper_def ParameterLipSuckLower_def ParameterLipSuck_def
  ParameterLipFunnelUpper_def ParameterLipFunnelLower_def ParameterLipFunnel_def ParameterLipPuckerUpper_def
  ParameterLipPuckerLower_def ParameterLipPucker_def ParameterNoseSneer_def ParameterCheekSquint_def
  ParameterCheekPuffSuck_def ParameterEyeTrackingActive_def ParameterExpressionTrackingActive_def
  ParameterLipTrackingActive_def

definition ParameterCount :: nat where "ParameterCount = 127"

lemma ParameterCount_127 [simp]: "ParameterCount = 127"
  by (simp add: ParameterCount_def)

definition minus_one32 :: float32 where "minus_one32 = Float32frombits 0xBF800000"
definition three_quarters32 :: float32 where "three_quarters32 = Float32frombits 0x3F400000"

definition unit_range :: value_range where "unit_range = \<lparr>range_Min = zero32, range_Max = one32\<rparr>"
definition signed_range :: value_range where "signed_range = \<lparr>range_Min = minus_one32, range_Max = one32\<rparr>"

definition meaning :: "float32 \<Rightarrow> float32 \<Rightarrow> string \<Rightarrow> semantic_range" where
  "meaning lo hi text = \<lparr>sr_Min = lo, sr_Max = hi, Meaning = text\<rparr>"

definition float_parameter :: "parameter_kind \<Rightarrow> nat \<Rightarrow> string \<Rightarrow> string \<Rightarrow> value_range \<Rightarrow> string \<Rightarrow> semantic_range list \<Rightarrow> parameter_definition" where
  "float_parameter kind pid name group_name rng unit_name meanings = \<lparr>pd_ID = pid, pd_Name = name, OSCName = ''v2/'' @ name,
     pd_Group = group_name, pd_Kind = kind, pd_ValueType = ValueFloat, pd_Encodings = EncodingFloat OR EncodingBinary,
     pd_Range = rng, HasRange = True, pd_Unit = unit_name, Semantics = meanings, pd_Bool = \<lparr>bs_True = [], bs_False = []\<rparr>\<rparr>"

definition detailed_parameter :: "nat \<Rightarrow> string \<Rightarrow> string \<Rightarrow> value_range \<Rightarrow> string \<Rightarrow> semantic_range list \<Rightarrow> parameter_definition" where
  "detailed_parameter = float_parameter KindDetailed"

definition simplified_parameter :: "nat \<Rightarrow> string \<Rightarrow> string \<Rightarrow> value_range \<Rightarrow> string \<Rightarrow> semantic_range list \<Rightarrow> parameter_definition" where
  "simplified_parameter = float_parameter KindSimplified"

definition active_parameter :: "nat \<Rightarrow> string \<Rightarrow> string \<Rightarrow> string \<Rightarrow> string \<Rightarrow> parameter_definition" where
  "active_parameter pid name group_name when_true when_false = \<lparr>pd_ID = pid, pd_Name = name, OSCName = name,
     pd_Group = group_name, pd_Kind = KindTrackingActive, pd_ValueType = ValueBool, pd_Encodings = EncodingBool,
     pd_Range = \<lparr>range_Min = zero32, range_Max = zero32\<rparr>, HasRange = False, pd_Unit = [], Semantics = [],
     pd_Bool = \<lparr>bs_True = when_true, bs_False = when_false\<rparr>\<rparr>"

definition eye_gaze_definitions :: "parameter_definition list" where
  "eye_gaze_definitions = [
     detailed_parameter ParameterEyeLeftX ''EyeLeftX'' ''eye_gaze'' signed_range ''normalized_cartesian''
         [meaning zero32 one32 ''left eye looks right'',
          meaning minus_one32 zero32 ''left eye looks left''],
     detailed_parameter ParameterEyeLeftY ''EyeLeftY'' ''eye_gaze'' signed_range ''normalized_cartesian''
         [meaning zero32 one32 ''left eye looks up'', meaning minus_one32 zero32 ''left eye looks down''],
     detailed_parameter ParameterEyeRightX ''EyeRightX'' ''eye_gaze'' signed_range ''normalized_cartesian''
         [meaning zero32 one32 ''right eye looks right'',
          meaning minus_one32 zero32 ''right eye looks left''],
     detailed_parameter ParameterEyeRightY ''EyeRightY'' ''eye_gaze'' signed_range ''normalized_cartesian''
         [meaning zero32 one32 ''right eye looks up'',
          meaning minus_one32 zero32 ''right eye looks down'']]"

definition eye_expression_definitions_1 :: "parameter_definition list" where
  "eye_expression_definitions_1 = [
     detailed_parameter ParameterEyeLidRight ''EyeLidRight'' ''eye_expression'' unit_range ''normalized''
         [meaning zero32 three_quarters32 ''right-eye openness'',
          meaning three_quarters32 one32 ''right-eye widen beyond the normal-open region''],
     detailed_parameter ParameterEyeLidLeft ''EyeLidLeft'' ''eye_expression'' unit_range ''normalized''
         [meaning zero32 three_quarters32 ''left-eye openness'',
          meaning three_quarters32 one32 ''left-eye widen beyond the normal-open region''],
     detailed_parameter ParameterEyeLid ''EyeLid'' ''eye_expression'' unit_range ''normalized''
         [meaning zero32 three_quarters32 ''combined left/right eye openness'',
          meaning three_quarters32 one32 ''combined left/right eye widen beyond the normal-open region''],
     detailed_parameter ParameterEyeSquintRight ''EyeSquintRight'' ''eye_expression'' unit_range ''normalized''
         [meaning zero32 one32 ''right-eye squint''],
     detailed_parameter ParameterEyeSquintLeft ''EyeSquintLeft'' ''eye_expression'' unit_range ''normalized''
         [meaning zero32 one32 ''left-eye squint''],
     detailed_parameter ParameterEyeSquint ''EyeSquint'' ''eye_expression'' unit_range ''normalized''
         [meaning zero32 one32 ''combined right/left eye squint''],
     detailed_parameter ParameterPupilDilation ''PupilDilation'' ''eye_expression'' unit_range ''normalized''
         [meaning zero32 one32 ''normalized pupil dilation''],
     detailed_parameter ParameterPupilDiameterRight ''PupilDiameterRight'' ''eye_expression'' unit_range ''centimeter''
         [meaning zero32 one32 ''right-pupil diameter''],
     detailed_parameter ParameterPupilDiameterLeft ''PupilDiameterLeft'' ''eye_expression'' unit_range ''centimeter''
         [meaning zero32 one32 ''left-pupil diameter'']]"

definition eye_expression_definitions_2 :: "parameter_definition list" where
  "eye_expression_definitions_2 = [
     detailed_parameter ParameterPupilDiameter ''PupilDiameter'' ''eye_expression'' unit_range ''centimeter''
         [meaning zero32 one32 ''combined pupil diameter'']]"

definition brow_definitions :: "parameter_definition list" where
  "brow_definitions = [
     detailed_parameter ParameterBrowPinchRight ''BrowPinchRight'' ''brow'' unit_range ''normalized''
         [meaning zero32 one32 ''right-brow pinch''],
     detailed_parameter ParameterBrowPinchLeft ''BrowPinchLeft'' ''brow'' unit_range ''normalized''
         [meaning zero32 one32 ''left-brow pinch''],
     detailed_parameter ParameterBrowLowererRight ''BrowLowererRight'' ''brow'' unit_range ''normalized''
         [meaning zero32 one32 ''right-brow lowering''],
     detailed_parameter ParameterBrowLowererLeft ''BrowLowererLeft'' ''brow'' unit_range ''normalized''
         [meaning zero32 one32 ''left-brow lowering''],
     detailed_parameter ParameterBrowInnerUpRight ''BrowInnerUpRight'' ''brow'' unit_range ''normalized''
         [meaning zero32 one32 ''right inner-brow raise''],
     detailed_parameter ParameterBrowInnerUpLeft ''BrowInnerUpLeft'' ''brow'' unit_range ''normalized''
         [meaning zero32 one32 ''left inner-brow raise''],
     detailed_parameter ParameterBrowOuterUpRight ''BrowOuterUpRight'' ''brow'' unit_range ''normalized''
         [meaning zero32 one32 ''right outer-brow raise''],
     detailed_parameter ParameterBrowOuterUpLeft ''BrowOuterUpLeft'' ''brow'' unit_range ''normalized''
         [meaning zero32 one32 ''left outer-brow raise'']]"

definition nose_definitions :: "parameter_definition list" where
  "nose_definitions = [
     detailed_parameter ParameterNoseSneerRight ''NoseSneerRight'' ''nose'' unit_range ''normalized''
         [meaning zero32 one32 ''right-side nose sneer''],
     detailed_parameter ParameterNoseSneerLeft ''NoseSneerLeft'' ''nose'' unit_range ''normalized''
         [meaning zero32 one32 ''left-side nose sneer''],
     detailed_parameter ParameterNasalDilationRight ''NasalDilationRight'' ''nose'' unit_range ''normalized''
         [meaning zero32 one32 ''right nostril dilation''],
     detailed_parameter ParameterNasalDilationLeft ''NasalDilationLeft'' ''nose'' unit_range ''normalized''
         [meaning zero32 one32 ''left nostril dilation''],
     detailed_parameter ParameterNasalConstrictRight ''NasalConstrictRight'' ''nose'' unit_range ''normalized''
         [meaning zero32 one32 ''right nostril constriction''],
     detailed_parameter ParameterNasalConstrictLeft ''NasalConstrictLeft'' ''nose'' unit_range ''normalized''
         [meaning zero32 one32 ''left nostril constriction'']]"

definition cheek_definitions :: "parameter_definition list" where
  "cheek_definitions = [
     detailed_parameter ParameterCheekSquintRight ''CheekSquintRight'' ''cheek'' unit_range ''normalized''
         [meaning zero32 one32 ''right-cheek squint''],
     detailed_parameter ParameterCheekSquintLeft ''CheekSquintLeft'' ''cheek'' unit_range ''normalized''
         [meaning zero32 one32 ''left-cheek squint''],
     detailed_parameter ParameterCheekPuffSuckRight ''CheekPuffSuckRight'' ''cheek'' signed_range ''normalized''
         [meaning zero32 one32 ''right-cheek puff'', meaning minus_one32 zero32 ''right-cheek suck''],
     detailed_parameter ParameterCheekPuffSuckLeft ''CheekPuffSuckLeft'' ''cheek'' signed_range ''normalized''
         [meaning zero32 one32 ''left-cheek puff'', meaning minus_one32 zero32 ''left-cheek suck'']]"

definition jaw_definitions :: "parameter_definition list" where
  "jaw_definitions = [
     detailed_parameter ParameterJawOpen ''JawOpen'' ''jaw'' unit_range ''normalized''
         [meaning zero32 one32 ''jaw opening''],
     detailed_parameter ParameterMouthClosed ''MouthClosed'' ''jaw'' unit_range ''normalized''
         [meaning zero32 one32 ''mouth closing''],
     detailed_parameter ParameterJawX ''JawX'' ''jaw'' signed_range ''normalized''
         [meaning zero32 one32 ''jaw moves right'', meaning minus_one32 zero32 ''jaw moves left''],
     detailed_parameter ParameterJawZ ''JawZ'' ''jaw'' signed_range ''normalized''
         [meaning zero32 one32 ''jaw moves forward'', meaning minus_one32 zero32 ''jaw moves backward''],
     detailed_parameter ParameterJawClench ''JawClench'' ''jaw'' unit_range ''normalized''
         [meaning zero32 one32 ''jaw clench''],
     detailed_parameter ParameterJawMandibleRaise ''JawMandibleRaise'' ''jaw'' unit_range ''normalized''
         [meaning zero32 one32 ''mandible raise'']]"

definition lip_definitions_1 :: "parameter_definition list" where
  "lip_definitions_1 = [
     detailed_parameter ParameterLipSuckUpperRight ''LipSuckUpperRight'' ''lip'' unit_range ''normalized''
         [meaning zero32 one32 ''upper-right lip suck''],
     detailed_parameter ParameterLipSuckUpperLeft ''LipSuckUpperLeft'' ''lip'' unit_range ''normalized''
         [meaning zero32 one32 ''upper-left lip suck''],
     detailed_parameter ParameterLipSuckLowerRight ''LipSuckLowerRight'' ''lip'' unit_range ''normalized''
         [meaning zero32 one32 ''lower-right lip suck''],
     detailed_parameter ParameterLipSuckLowerLeft ''LipSuckLowerLeft'' ''lip'' unit_range ''normalized''
         [meaning zero32 one32 ''lower-left lip suck''],
     detailed_parameter ParameterLipSuckCornerRight ''LipSuckCornerRight'' ''lip'' unit_range ''normalized''
         [meaning zero32 one32 ''right lip-corner suck''],
     detailed_parameter ParameterLipSuckCornerLeft ''LipSuckCornerLeft'' ''lip'' unit_range ''normalized''
         [meaning zero32 one32 ''left lip-corner suck''],
     detailed_parameter ParameterLipFunnelUpperRight ''LipFunnelUpperRight'' ''lip'' unit_range ''normalized''
         [meaning zero32 one32 ''upper-right lip funnel''],
     detailed_parameter ParameterLipFunnelUpperLeft ''LipFunnelUpperLeft'' ''lip'' unit_range ''normalized''
         [meaning zero32 one32 ''upper-left lip funnel''],
     detailed_parameter ParameterLipFunnelLowerRight ''LipFunnelLowerRight'' ''lip'' unit_range ''normalized''
         [meaning zero32 one32 ''lower-right lip funnel''],
     detailed_parameter ParameterLipFunnelLowerLeft ''LipFunnelLowerLeft'' ''lip'' unit_range ''normalized''
         [meaning zero32 one32 ''lower-left lip funnel'']]"

definition lip_definitions_2 :: "parameter_definition list" where
  "lip_definitions_2 = [
     detailed_parameter ParameterLipPuckerUpperRight ''LipPuckerUpperRight'' ''lip'' unit_range ''normalized''
         [meaning zero32 one32 ''upper-right lip pucker''],
     detailed_parameter ParameterLipPuckerUpperLeft ''LipPuckerUpperLeft'' ''lip'' unit_range ''normalized''
         [meaning zero32 one32 ''upper-left lip pucker''],
     detailed_parameter ParameterLipPuckerLowerRight ''LipPuckerLowerRight'' ''lip'' unit_range ''normalized''
         [meaning zero32 one32 ''lower-right lip pucker''],
     detailed_parameter ParameterLipPuckerLowerLeft ''LipPuckerLowerLeft'' ''lip'' unit_range ''normalized''
         [meaning zero32 one32 ''lower-left lip pucker'']]"

definition mouth_definitions_1 :: "parameter_definition list" where
  "mouth_definitions_1 = [
     detailed_parameter ParameterMouthUpperUpRight ''MouthUpperUpRight'' ''mouth'' unit_range ''normalized''
         [meaning zero32 one32 ''upper-right mouth raise''],
     detailed_parameter ParameterMouthUpperUpLeft ''MouthUpperUpLeft'' ''mouth'' unit_range ''normalized''
         [meaning zero32 one32 ''upper-left mouth raise''],
     detailed_parameter ParameterMouthLowerDownRight ''MouthLowerDownRight'' ''mouth'' unit_range ''normalized''
         [meaning zero32 one32 ''lower-right mouth depression''],
     detailed_parameter ParameterMouthLowerDownLeft ''MouthLowerDownLeft'' ''mouth'' unit_range ''normalized''
         [meaning zero32 one32 ''lower-left mouth depression''],
     detailed_parameter ParameterMouthUpperDeepenRight ''MouthUpperDeepenRight'' ''mouth'' unit_range ''normalized''
         [meaning zero32 one32 ''upper-right mouth deepen''],
     detailed_parameter ParameterMouthUpperDeepenLeft ''MouthUpperDeepenLeft'' ''mouth'' unit_range ''normalized''
         [meaning zero32 one32 ''upper-left mouth deepen''],
     detailed_parameter ParameterMouthUpperX ''MouthUpperX'' ''mouth'' signed_range ''normalized''
         [meaning zero32 one32 ''upper mouth moves right'',
          meaning minus_one32 zero32 ''upper mouth moves left''],
     detailed_parameter ParameterMouthLowerX ''MouthLowerX'' ''mouth'' signed_range ''normalized''
         [meaning zero32 one32 ''lower mouth moves right'',
          meaning minus_one32 zero32 ''lower mouth moves left''],
     detailed_parameter ParameterMouthCornerPullRight ''MouthCornerPullRight'' ''mouth'' unit_range ''normalized''
         [meaning zero32 one32 ''right mouth-corner pull'']]"

definition mouth_definitions_2 :: "parameter_definition list" where
  "mouth_definitions_2 = [
     detailed_parameter ParameterMouthCornerPullLeft ''MouthCornerPullLeft'' ''mouth'' unit_range ''normalized''
         [meaning zero32 one32 ''left mouth-corner pull''],
     detailed_parameter ParameterMouthCornerSlantRight ''MouthCornerSlantRight'' ''mouth'' unit_range ''normalized''
         [meaning zero32 one32 ''right mouth-corner slant''],
     detailed_parameter ParameterMouthCornerSlantLeft ''MouthCornerSlantLeft'' ''mouth'' unit_range ''normalized''
         [meaning zero32 one32 ''left mouth-corner slant''],
     detailed_parameter ParameterMouthDimpleRight ''MouthDimpleRight'' ''mouth'' unit_range ''normalized''
         [meaning zero32 one32 ''right mouth dimple''],
     detailed_parameter ParameterMouthDimpleLeft ''MouthDimpleLeft'' ''mouth'' unit_range ''normalized''
         [meaning zero32 one32 ''left mouth dimple''],
     detailed_parameter ParameterMouthFrownRight ''MouthFrownRight'' ''mouth'' unit_range ''normalized''
         [meaning zero32 one32 ''right mouth frown''],
     detailed_parameter ParameterMouthFrownLeft ''MouthFrownLeft'' ''mouth'' unit_range ''normalized''
         [meaning zero32 one32 ''left mouth frown''],
     detailed_parameter ParameterMouthStretchRight ''MouthStretchRight'' ''mouth'' unit_range ''normalized''
         [meaning zero32 one32 ''right mouth stretch''],
     detailed_parameter ParameterMouthStretchLeft ''MouthStretchLeft'' ''mouth'' unit_range ''normalized''
         [meaning zero32 one32 ''left mouth stretch''],
     detailed_parameter ParameterMouthRaiserUpper ''MouthRaiserUpper'' ''mouth'' unit_range ''normalized''
         [meaning zero32 one32 ''upper-mouth raiser'']]"

definition mouth_definitions_3 :: "parameter_definition list" where
  "mouth_definitions_3 = [
     detailed_parameter ParameterMouthRaiserLower ''MouthRaiserLower'' ''mouth'' unit_range ''normalized''
         [meaning zero32 one32 ''lower-mouth raiser''],
     detailed_parameter ParameterMouthPressRight ''MouthPressRight'' ''mouth'' unit_range ''normalized''
         [meaning zero32 one32 ''right mouth press''],
     detailed_parameter ParameterMouthPressLeft ''MouthPressLeft'' ''mouth'' unit_range ''normalized''
         [meaning zero32 one32 ''left mouth press''],
     detailed_parameter ParameterMouthTightenerRight ''MouthTightenerRight'' ''mouth'' unit_range ''normalized''
         [meaning zero32 one32 ''right mouth tightener''],
     detailed_parameter ParameterMouthTightenerLeft ''MouthTightenerLeft'' ''mouth'' unit_range ''normalized''
         [meaning zero32 one32 ''left mouth tightener'']]"

definition tongue_definitions :: "parameter_definition list" where
  "tongue_definitions = [
     detailed_parameter ParameterTongueOut ''TongueOut'' ''tongue'' unit_range ''normalized''
         [meaning zero32 one32 ''tongue extension''],
     detailed_parameter ParameterTongueX ''TongueX'' ''tongue'' signed_range ''normalized''
         [meaning zero32 one32 ''tongue points right'', meaning minus_one32 zero32 ''tongue points left''],
     detailed_parameter ParameterTongueY ''TongueY'' ''tongue'' signed_range ''normalized''
         [meaning zero32 one32 ''tongue points up'', meaning minus_one32 zero32 ''tongue points down''],
     detailed_parameter ParameterTongueRoll ''TongueRoll'' ''tongue'' unit_range ''normalized''
         [meaning zero32 one32 ''tongue roll''],
     detailed_parameter ParameterTongueArchY ''TongueArchY'' ''tongue'' signed_range ''normalized''
         [meaning zero32 one32 ''tongue bends down'', meaning minus_one32 zero32 ''tongue curls up''],
     detailed_parameter ParameterTongueShape ''TongueShape'' ''tongue'' signed_range ''normalized''
         [meaning zero32 one32 ''tongue squish'', meaning minus_one32 zero32 ''tongue flatten''],
     detailed_parameter ParameterTongueTwistRight ''TongueTwistRight'' ''tongue'' unit_range ''normalized''
         [meaning zero32 one32 ''rightward tongue twist''],
     detailed_parameter ParameterTongueTwistLeft ''TongueTwistLeft'' ''tongue'' unit_range ''normalized''
         [meaning zero32 one32 ''leftward tongue twist'']]"

definition neck_definitions :: "parameter_definition list" where
  "neck_definitions = [
     detailed_parameter ParameterSoftPalateClose ''SoftPalateClose'' ''neck'' unit_range ''normalized''
         [meaning zero32 one32 ''soft-palate closure''],
     detailed_parameter ParameterThroatSwallow ''ThroatSwallow'' ''neck'' unit_range ''normalized''
         [meaning zero32 one32 ''swallowing motion''],
     detailed_parameter ParameterNeckFlexRight ''NeckFlexRight'' ''neck'' unit_range ''normalized''
         [meaning zero32 one32 ''right-side neck flex''],
     detailed_parameter ParameterNeckFlexLeft ''NeckFlexLeft'' ''neck'' unit_range ''normalized''
         [meaning zero32 one32 ''left-side neck flex'']]"

definition simplified_eye_definitions :: "parameter_definition list" where
  "simplified_eye_definitions = [
     simplified_parameter ParameterEyeX ''EyeX'' ''simplified_eye'' signed_range ''normalized_cartesian''
         [meaning zero32 one32 ''both eyes look right'',
          meaning minus_one32 zero32 ''both eyes look left''],
     simplified_parameter ParameterEyeY ''EyeY'' ''simplified_eye'' signed_range ''normalized_cartesian''
         [meaning zero32 one32 ''both eyes look up'', meaning minus_one32 zero32 ''both eyes look down'']]"

definition simplified_brow_definitions :: "parameter_definition list" where
  "simplified_brow_definitions = [
     simplified_parameter ParameterBrowDownRight ''BrowDownRight'' ''simplified_brow'' unit_range ''normalized''
         [meaning zero32 one32 ''right brow down''],
     simplified_parameter ParameterBrowDownLeft ''BrowDownLeft'' ''simplified_brow'' unit_range ''normalized''
         [meaning zero32 one32 ''left brow down''],
     simplified_parameter ParameterBrowOuterUp ''BrowOuterUp'' ''simplified_brow'' unit_range ''normalized''
         [meaning zero32 one32 ''combined outer-brow raise''],
     simplified_parameter ParameterBrowInnerUp ''BrowInnerUp'' ''simplified_brow'' unit_range ''normalized''
         [meaning zero32 one32 ''combined inner-brow raise''],
     simplified_parameter ParameterBrowUp ''BrowUp'' ''simplified_brow'' unit_range ''normalized''
         [meaning zero32 one32 ''combined brow raise''],
     simplified_parameter ParameterBrowExpressionRight ''BrowExpressionRight'' ''simplified_brow'' signed_range ''normalized''
         [meaning zero32 one32 ''right brow up'', meaning minus_one32 zero32 ''right brow down''],
     simplified_parameter ParameterBrowExpressionLeft ''BrowExpressionLeft'' ''simplified_brow'' signed_range ''normalized''
         [meaning zero32 one32 ''left brow up'', meaning minus_one32 zero32 ''left brow down''],
     simplified_parameter ParameterBrowExpression ''BrowExpression'' ''simplified_brow'' signed_range ''normalized''
         [meaning zero32 one32 ''combined brow up'', meaning minus_one32 zero32 ''combined brow down'']]"

definition simplified_mouth_definitions_1 :: "parameter_definition list" where
  "simplified_mouth_definitions_1 = [
     simplified_parameter ParameterMouthX ''MouthX'' ''simplified_mouth'' signed_range ''normalized''
         [meaning zero32 one32 ''mouth moves right'', meaning minus_one32 zero32 ''mouth moves left''],
     simplified_parameter ParameterMouthUpperUp ''MouthUpperUp'' ''simplified_mouth'' unit_range ''normalized''
         [meaning zero32 one32 ''combined upper-mouth raise''],
     simplified_parameter ParameterMouthLowerDown ''MouthLowerDown'' ''simplified_mouth'' unit_range ''normalized''
         [meaning zero32 one32 ''combined lower-mouth depression''],
     simplified_parameter ParameterMouthOpen ''MouthOpen'' ''simplified_mouth'' unit_range ''normalized''
         [meaning zero32 one32 ''combined upper raise and lower depression''],
     simplified_parameter ParameterMouthSmileRight ''MouthSmileRight'' ''simplified_mouth'' unit_range ''normalized''
         [meaning zero32 one32 ''right smile from mouth-corner pull and slant''],
     simplified_parameter ParameterMouthSmileLeft ''MouthSmileLeft'' ''simplified_mouth'' unit_range ''normalized''
         [meaning zero32 one32 ''left smile from mouth-corner pull and slant''],
     simplified_parameter ParameterMouthSadRight ''MouthSadRight'' ''simplified_mouth'' unit_range ''normalized''
         [meaning zero32 one32 ''right sad shape from frown and stretch''],
     simplified_parameter ParameterMouthSadLeft ''MouthSadLeft'' ''simplified_mouth'' unit_range ''normalized''
         [meaning zero32 one32 ''left sad shape from frown and stretch''],
     simplified_parameter ParameterSmileFrownRight ''SmileFrownRight'' ''simplified_mouth'' signed_range ''normalized''
         [meaning zero32 one32 ''right smile from corner pull/slant'',
          meaning minus_one32 zero32 ''right frown'']]"

definition simplified_mouth_definitions_2 :: "parameter_definition list" where
  "simplified_mouth_definitions_2 = [
     simplified_parameter ParameterSmileFrownLeft ''SmileFrownLeft'' ''simplified_mouth'' signed_range ''normalized''
         [meaning zero32 one32 ''left smile from corner pull/slant'',
          meaning minus_one32 zero32 ''left frown''],
     simplified_parameter ParameterSmileFrown ''SmileFrown'' ''simplified_mouth'' signed_range ''normalized''
         [meaning zero32 one32 ''combined smile from corner pull/slant'',
          meaning minus_one32 zero32 ''combined frown''],
     simplified_parameter ParameterSmileSadRight ''SmileSadRight'' ''simplified_mouth'' signed_range ''normalized''
         [meaning zero32 one32 ''right smile from corner pull/slant'',
          meaning minus_one32 zero32 ''right sad shape from frown/stretch''],
     simplified_parameter ParameterSmileSadLeft ''SmileSadLeft'' ''simplified_mouth'' signed_range ''normalized''
         [meaning zero32 one32 ''left smile from corner pull/slant'',
          meaning minus_one32 zero32 ''left sad shape from frown/stretch''],
     simplified_parameter ParameterSmileSad ''SmileSad'' ''simplified_mouth'' signed_range ''normalized''
         [meaning zero32 one32 ''combined smile from corner pull/slant'',
          meaning minus_one32 zero32 ''combined sad shape from frown/stretch'']]"

definition simplified_lip_definitions :: "parameter_definition list" where
  "simplified_lip_definitions = [
     simplified_parameter ParameterLipSuckUpper ''LipSuckUpper'' ''simplified_lip'' unit_range ''normalized''
         [meaning zero32 one32 ''combined upper-lip suck''],
     simplified_parameter ParameterLipSuckLower ''LipSuckLower'' ''simplified_lip'' unit_range ''normalized''
         [meaning zero32 one32 ''combined lower-lip suck''],
     simplified_parameter ParameterLipSuck ''LipSuck'' ''simplified_lip'' unit_range ''normalized''
         [meaning zero32 one32 ''combined lip suck''],
     simplified_parameter ParameterLipFunnelUpper ''LipFunnelUpper'' ''simplified_lip'' unit_range ''normalized''
         [meaning zero32 one32 ''combined upper-lip funnel''],
     simplified_parameter ParameterLipFunnelLower ''LipFunnelLower'' ''simplified_lip'' unit_range ''normalized''
         [meaning zero32 one32 ''combined lower-lip funnel''],
     simplified_parameter ParameterLipFunnel ''LipFunnel'' ''simplified_lip'' unit_range ''normalized''
         [meaning zero32 one32 ''combined lip funnel''],
     simplified_parameter ParameterLipPuckerUpper ''LipPuckerUpper'' ''simplified_lip'' unit_range ''normalized''
         [meaning zero32 one32 ''combined upper-lip pucker''],
     simplified_parameter ParameterLipPuckerLower ''LipPuckerLower'' ''simplified_lip'' unit_range ''normalized''
         [meaning zero32 one32 ''combined lower-lip pucker''],
     simplified_parameter ParameterLipPucker ''LipPucker'' ''simplified_lip'' unit_range ''normalized''
         [meaning zero32 one32 ''combined lip pucker'']]"

definition simplified_nose_cheek_definitions :: "parameter_definition list" where
  "simplified_nose_cheek_definitions = [
     simplified_parameter ParameterNoseSneer ''NoseSneer'' ''simplified_nose_cheek'' unit_range ''normalized''
         [meaning zero32 one32 ''combined nose sneer''],
     simplified_parameter ParameterCheekSquint ''CheekSquint'' ''simplified_nose_cheek'' unit_range ''normalized''
         [meaning zero32 one32 ''combined cheek squint''],
     simplified_parameter ParameterCheekPuffSuck ''CheekPuffSuck'' ''simplified_nose_cheek'' signed_range ''normalized''
         [meaning zero32 one32 ''combined cheek puff'',
          meaning minus_one32 zero32 ''combined cheek suck'']]"

definition tracking_active_definitions :: "parameter_definition list" where
  "tracking_active_definitions = [
     active_parameter ParameterEyeTrackingActive ''EyeTrackingActive'' ''tracking_active''
         ''eye tracking is active'' ''eye tracking is inactive'',
     active_parameter ParameterExpressionTrackingActive ''ExpressionTrackingActive'' ''tracking_active''
         ''expression tracking is active'' ''expression tracking is inactive'',
     active_parameter ParameterLipTrackingActive ''LipTrackingActive'' ''tracking_active''
         ''lip tracking is active'' ''lip tracking is inactive'']"

definition Definitions :: "parameter_definition list" where
  "Definitions =
     eye_gaze_definitions @ eye_expression_definitions_1 @ eye_expression_definitions_2 @ brow_definitions @
     nose_definitions @ cheek_definitions @ jaw_definitions @ lip_definitions_1 @ lip_definitions_2 @
     mouth_definitions_1 @ mouth_definitions_2 @ mouth_definitions_3 @ tongue_definitions @ neck_definitions @
     simplified_eye_definitions @ simplified_brow_definitions @ simplified_mouth_definitions_1 @
     simplified_mouth_definitions_2 @ simplified_lip_definitions @ simplified_nose_cheek_definitions @
     tracking_active_definitions"

lemmas definition_chunks =
  eye_gaze_definitions_def
  eye_expression_definitions_1_def
  eye_expression_definitions_2_def
  brow_definitions_def
  nose_definitions_def
  cheek_definitions_def
  jaw_definitions_def
  lip_definitions_1_def
  lip_definitions_2_def
  mouth_definitions_1_def
  mouth_definitions_2_def
  mouth_definitions_3_def
  tongue_definitions_def
  neck_definitions_def
  simplified_eye_definitions_def
  simplified_brow_definitions_def
  simplified_mouth_definitions_1_def
  simplified_mouth_definitions_2_def
  simplified_lip_definitions_def
  simplified_nose_cheek_definitions_def
  tracking_active_definitions_def

definition ParameterByOSCName :: "string \<Rightarrow> nat option" where
  \<comment> \<open>the generated map lists the table's names and identifiers in the table's order\<close>
  "ParameterByOSCName = map_of (map (\<lambda>d. (OSCName d, pd_ID d)) Definitions)"

section \<open>The table, checked\<close>

lemma Definitions_length: "length Definitions = 127"
  by code_simp

lemma Definitions_ids: "map pd_ID Definitions = [0..<127]"
  by code_simp

definition osc_name_ok :: "string \<Rightarrow> bool" where
  \<comment> \<open>not empty, no slash at either end, no whitespace at the end, no digit at the end\<close>
  "osc_name_ok name \<longleftrightarrow> name \<noteq> [] \<and> hd name \<noteq> CHR ''/'' \<and>
     last name \<in> set ''abcdefghijklmnopqrstuvwxyzABCDEFGHIJKLMNOPQRSTUVWXYZ''"

lemma Definitions_osc_names: "list_all (\<lambda>d. osc_name_ok (OSCName d) \<and> OSCName d = (if pd_ValueType d = ValueFloat then ''v2/'' @ pd_Name d else pd_Name d) \<and>
    CHR ''/'' \<notin> set (pd_Name d)) Definitions"
  by code_simp

lemma Definitions_distinct: "distinct (map pd_Name Definitions)"
  by (simp add: Definitions_def definition_chunks detailed_parameter_def simplified_parameter_def float_parameter_def active_parameter_def)


end
