(* ===== verification/Parameters.thy ===== *)
theory Parameters
  imports ParameterTable
begin

text \<open>
  internal/parameters/types.go: lookups in the parameter table, the addresses that name a
  parameter, and clamping to a parameter's range.
\<close>

unbundle bit_operations_syntax

section \<open>Lookups and addresses\<close>

definition Definition :: "nat \<Rightarrow> parameter_definition option" where
  "Definition pid = (if ParameterCount \<le> pid then None else Some (Definitions ! pid))"

definition LookupOSCName :: "string \<Rightarrow> nat option" where
  "LookupOSCName name = ParameterByOSCName name"

definition parameters_prefix :: string where "parameters_prefix = ''/avatar/parameters/''"

definition normalizeAddress :: "string \<Rightarrow> string" where
  "normalizeAddress address = trim_char CHR ''/'' (trim_prefix (trim_space address) parameters_prefix)"

fun first_some :: "('a \<Rightarrow> 'b option) \<Rightarrow> 'a list \<Rightarrow> 'b option" where
  \<comment> \<open>a range loop that returns from its first hit\<close>
  "first_some f [] = None"
| "first_some f (x # xs) = (case f x of Some y \<Rightarrow> Some y | None \<Rightarrow> first_some f xs)"

definition ResolveAddress :: "string \<Rightarrow> (nat \<times> string) option" where
  "ResolveAddress address =
    (let normalized = normalizeAddress address; parts = split_char CHR ''/'' normalized in
     if normalized = [] then None
     else case LookupOSCName normalized of Some pid \<Rightarrow> Some (pid, [])
     | None \<Rightarrow> first_some (\<lambda>i. map_option (\<lambda>pid. (pid, join_char CHR ''/'' (take i parts)))
         (LookupOSCName (join_char CHR ''/'' (drop i parts)))) [1..<length parts])"

record binary_part =
  bp_Parameter :: nat
  bp_Prefix :: string
  Negative :: bool
  Weight :: u32

definition binary_match :: "string \<Rightarrow> string \<Rightarrow> parameter_definition \<Rightarrow> binary_part option" where
  \<comment> \<open>the body of ResolveBinaryAddress's inner loop\<close>
  "binary_match candidate pre def =
    (if pd_ValueType def \<noteq> ValueFloat \<or> \<not> encoding_has (pd_Encodings def) EncodingBinary then None
     else if candidate = OSCName def @ ''Negative''
       then Some \<lparr>bp_Parameter = pd_ID def, bp_Prefix = pre, Negative = True, Weight = 0\<rparr>
     else if \<not> has_prefix candidate (OSCName def) then None
     else let rest = trim_prefix candidate (OSCName def) in
       if rest = [] then None
       else case parse_uint32 rest of None \<Rightarrow> None
       | Some weight \<Rightarrow> if weight = 0 \<or> weight AND (weight - 1) \<noteq> 0 then None
         else Some \<lparr>bp_Parameter = pd_ID def, bp_Prefix = pre, Negative = False, Weight = weight\<rparr>)"

definition ResolveBinaryAddress :: "string \<Rightarrow> binary_part option" where
  "ResolveBinaryAddress address = (let parts = split_char CHR ''/'' (normalizeAddress address) in
     first_some (\<lambda>i. first_some
       (binary_match (join_char CHR ''/'' (drop i parts)) (join_char CHR ''/'' (take i parts))) Definitions)
       [0..<length parts])"

definition CanonicalAddress :: "nat \<Rightarrow> string \<Rightarrow> string option" where
  "CanonicalAddress pid pre = (case Definition pid of None \<Rightarrow> None
   | Some def \<Rightarrow> let pre = trim_char CHR ''/'' pre in
     if pre = [] then Some (parameters_prefix @ OSCName def)
     else Some (parameters_prefix @ pre @ ''/'' @ OSCName def))"

definition Clamp :: "nat \<Rightarrow> float32 \<Rightarrow> float32 \<times> bool" where
  "Clamp pid v = (case Definition pid of None \<Rightarrow> (v, False)
   | Some def \<Rightarrow> if \<not> HasRange def then (v, True)
     else if lt32 v (range_Min (pd_Range def)) then (range_Min (pd_Range def), True)
     else if lt32 (range_Max (pd_Range def)) v then (range_Max (pd_Range def), True)
     else (v, True))"

section \<open>Addresses\<close>

lemma split_char_append: "split_char c (a @ c # b) = split_char c a @ split_char c b"
  by (induction a) (auto split: list.splits)

lemma join_char_append: "a \<noteq> [] \<Longrightarrow> b \<noteq> [] \<Longrightarrow> join_char c (a @ b) = join_char c a @ c # join_char c b"
proof (induction a rule: join_char.induct)
  case (2 c f)
  then show ?case by (cases b) auto
qed auto

lemma split_char_plain: "c \<notin> set s \<Longrightarrow> split_char c s = [s]"
  by (induction s) auto

lemma definition_at:
  assumes "pid < 127"
  shows "Definition pid = Some (Definitions ! pid)" "pd_ID (Definitions ! pid) = pid"
    and "osc_name_ok (OSCName (Definitions ! pid))" "CHR ''/'' \<notin> set (pd_Name (Definitions ! pid))"
    and "OSCName (Definitions ! pid) =
      (if pd_ValueType (Definitions ! pid) = ValueFloat then ''v2/'' @ pd_Name (Definitions ! pid) else pd_Name (Definitions ! pid))"
proof -
  have "pd_ID (Definitions ! pid) = map pd_ID Definitions ! pid" using assms by (simp add: Definitions_length)
  then show "pd_ID (Definitions ! pid) = pid" using assms by (simp add: Definitions_ids)
qed (use assms Definitions_osc_names Definitions_length in \<open>auto simp: Definition_def list_all_length\<close>)

lemma split_osc_name:
  assumes "pid < 127"
  shows "split_char CHR ''/'' (OSCName (Definitions ! pid)) =
    (if pd_ValueType (Definitions ! pid) = ValueFloat then [''v2''] else []) @ [pd_Name (Definitions ! pid)]"
proof -
  have "split_char CHR ''/'' (''v2/'' @ n) = ''v2'' # split_char CHR ''/'' n" for n
    by (simp add: split_char.simps split: list.splits)
  then show ?thesis using definition_at(4,5) [OF assms] by (simp add: split_char_plain)
qed

lemma name_inj: "i < 127 \<Longrightarrow> j < 127 \<Longrightarrow> pd_Name (Definitions ! i) = pd_Name (Definitions ! j) \<Longrightarrow> i = j"
  using Definitions_distinct nth_eq_iff_index_eq [of "map pd_Name Definitions" i j] by (simp add: Definitions_length)

lemma osc_name_inj:
  assumes "i < 127" "j < 127" "OSCName (Definitions ! i) = OSCName (Definitions ! j)"
  shows "i = j"
proof -
  have "last (split_char CHR ''/'' (OSCName (Definitions ! i))) = last (split_char CHR ''/'' (OSCName (Definitions ! j)))"
    using assms(3) by simp
  then show ?thesis using assms(1,2) name_inj by (simp add: split_osc_name)
qed

lemma LookupOSCName_iff: "LookupOSCName name = Some pid \<longleftrightarrow> pid < 127 \<and> name = OSCName (Definitions ! pid)"
proof -
  let ?rows = "map (\<lambda>d. (OSCName d, pd_ID d)) Definitions"
  have "inj_on OSCName (set Definitions)"
  proof (rule inj_onI)
    fix x y assume "x \<in> set Definitions" "y \<in> set Definitions" "OSCName x = OSCName y"
    then show "x = y" using osc_name_inj by (metis in_set_conv_nth Definitions_length)
  qed
  then have "distinct (map fst ?rows)"
    using Definitions_distinct by (auto simp: comp_def distinct_map)
  then have "LookupOSCName name = Some pid \<longleftrightarrow> (name, pid) \<in> set ?rows"
    unfolding LookupOSCName_def ParameterByOSCName_def by (rule map_of_eq_Some_iff)
  also have "\<dots> \<longleftrightarrow> (\<exists>d \<in> set Definitions. name = OSCName d \<and> pid = pd_ID d)" by auto
  also have "\<dots> \<longleftrightarrow> (\<exists>i < 127. name = OSCName (Definitions ! i) \<and> pid = pd_ID (Definitions ! i))"
    by (metis in_set_conv_nth Definitions_length)
  also have "\<dots> \<longleftrightarrow> pid < 127 \<and> name = OSCName (Definitions ! pid)" using definition_at(2) by auto
  finally show ?thesis .
qed

lemma LookupOSCName_prefixed:
  assumes "pid < 127"
  shows "LookupOSCName (x @ CHR ''/'' # OSCName (Definitions ! pid)) = None"
proof (rule ccontr)
  assume "LookupOSCName (x @ CHR ''/'' # OSCName (Definitions ! pid)) \<noteq> None"
  then obtain j where j: "j < 127" "x @ CHR ''/'' # OSCName (Definitions ! pid) = OSCName (Definitions ! j)"
    by (auto simp: LookupOSCName_iff)
  from arg_cong [OF j(2), of "split_char CHR ''/''"] have
    eq: "split_char CHR ''/'' x @ split_char CHR ''/'' (OSCName (Definitions ! pid)) = split_char CHR ''/'' (OSCName (Definitions ! j))"
    by (simp only: split_char_append)
  have ne: "split_char CHR ''/'' x \<noteq> []" by simp
  then have "pd_Name (Definitions ! pid) = pd_Name (Definitions ! j)" "pd_ValueType (Definitions ! pid) \<noteq> pd_ValueType (Definitions ! j)"
    using eq unfolding split_osc_name [OF assms] split_osc_name [OF j(1)]
    by (auto simp: append_eq_Cons_conv split: if_splits)
  then show False using name_inj assms j(1) by metis
qed

lemma trim_left_space_id:
  assumes "s = [] \<or> (\<forall>r \<in> set space_runes. hd r \<noteq> hd s)"
  shows "trim_left_space s = s"
proof -
  have "\<not> prefix r s" if "r \<in> set space_runes" for r
    using assms that space_runes_nonempty [OF that] by (cases r) (auto simp: prefix_def)
  then have "List.find (\<lambda>r. prefix r s) space_runes = None" by (simp add: find_None_iff)
  then show ?thesis by (subst trim_left_space.simps) simp
qed

lemma trim_right_space_id:
  assumes "s = [] \<or> (\<forall>r \<in> set space_runes. last r \<noteq> last s)"
  shows "trim_right_space s = s"
proof -
  have "\<not> suffix r s" if "r \<in> set space_runes" for r
    using assms that space_runes_nonempty [OF that] by (cases r rule: rev_cases) (auto simp: suffix_def)
  then have "List.find (\<lambda>r. suffix r s) space_runes = None" by (simp add: find_None_iff)
  then show ?thesis by (subst trim_right_space.simps) simp
qed

lemma trim_char_ends:
  assumes "trim_char c s \<noteq> []"
  shows "hd (trim_char c s) \<noteq> c \<and> last (trim_char c s) \<noteq> c"
proof -
  let ?l = "dropWhile (\<lambda>x. x = c) s"
  let ?r = "dropWhile (\<lambda>x. x = c) (rev ?l)"
  have ne: "?r \<noteq> []"
  proof
    assume "?r = []"
    then have "trim_char c s = []" by (simp only: trim_char_def rev.simps)
    with assms show False ..
  qed
  then have "hd ?r \<noteq> c" using hd_dropWhile [OF ne] by simp
  moreover have nl: "?l \<noteq> []"
  proof
    assume "?l = []"
    then have "?r = []" by (simp only: rev.simps dropWhile.simps)
    with ne show False ..
  qed
  moreover have "hd ?l \<noteq> c" using hd_dropWhile [OF nl] by simp
  moreover have "last ?r = hd ?l"
  proof -
    have "rev ?l = takeWhile (\<lambda>x. x = c) (rev ?l) @ ?r" by (rule takeWhile_dropWhile_id [symmetric])
    then have "last (rev ?l) = last ?r" using ne by (metis last_appendR)
    then show ?thesis by (simp only: last_rev)
  qed
  ultimately show ?thesis unfolding trim_char_def hd_rev last_rev by simp
qed

lemma trim_char_id: "s = [] \<or> hd s \<noteq> c \<and> last s \<noteq> c \<Longrightarrow> trim_char c s = s"
proof (cases "s = []")
  case False
  assume "s = [] \<or> hd s \<noteq> c \<and> last s \<noteq> c"
  then have "dropWhile (\<lambda>x. x = c) s = s" "dropWhile (\<lambda>x. x = c) (rev s) = rev s"
    using False by (simp_all add: dropWhile_eq_self_iff hd_rev)
  then show ?thesis by (simp add: trim_char_def)
qed (simp add: trim_char_def)


lemma first_some_skip:
  "\<forall>x \<in> set xs. f x = None \<Longrightarrow> first_some f (xs @ ys) = first_some f ys"
  by (induction xs) auto

lemma letters_not_space:
  assumes "c \<in> set ''abcdefghijklmnopqrstuvwxyzABCDEFGHIJKLMNOPQRSTUVWXYZ''"
  shows "c \<noteq> CHR ''/'' \<and> (\<forall>r \<in> set space_runes. last r \<noteq> c)"
proof -
  have "list_all (\<lambda>c. c \<noteq> CHR ''/'' \<and> list_all (\<lambda>r. last r \<noteq> c) space_runes) ''abcdefghijklmnopqrstuvwxyzABCDEFGHIJKLMNOPQRSTUVWXYZ''"
    by code_simp
  then show ?thesis using assms unfolding list_all_iff by blast
qed

lemma normalize_prefixed:
  assumes "s \<noteq> []" "hd s \<noteq> CHR ''/''" "last s \<in> set ''abcdefghijklmnopqrstuvwxyzABCDEFGHIJKLMNOPQRSTUVWXYZ''"
  shows "normalizeAddress (parameters_prefix @ s) = s"
proof -
  let ?a = "parameters_prefix @ s"
  have "\<forall>r \<in> set space_runes. hd r \<noteq> CHR ''/''" by code_simp
  then have "trim_left_space ?a = ?a" by (intro trim_left_space_id) (simp add: parameters_prefix_def)
  moreover have "trim_right_space ?a = ?a"
    using assms(1) letters_not_space [OF assms(3)] by (intro trim_right_space_id) simp
  ultimately show ?thesis
    using assms(1,2) letters_not_space [OF assms(3)]
    by (simp add: normalizeAddress_def trim_space_def trim_prefix_def trim_char_id)
qed

text \<open>C40 (roundtrip). ResolveAddress inverts CanonicalAddress: whatever prefix an address is built
  with, resolving it gives the parameter back, and the prefix without its outer slashes. In
  particular no prefix can turn the address of one parameter into that of another.\<close>

theorem ResolveAddress_CanonicalAddress:
  assumes "CanonicalAddress pid pre = Some address"
  shows "ResolveAddress address = Some (pid, trim_char CHR ''/'' pre)"
proof -
  let ?p = "trim_char CHR ''/'' pre" and ?n = "OSCName (Definitions ! pid)"
  have pid: "pid < 127" using assms by (simp add: CanonicalAddress_def Definition_def split: if_splits)
  note d = definition_at [OF pid]
  define s where "s = (if ?p = [] then ?n else ?p @ CHR ''/'' # ?n)"
  have a: "address = parameters_prefix @ s"
    using assms by (simp add: CanonicalAddress_def d(1) Let_def s_def split: if_splits)
  have n: "?n \<noteq> []" "hd ?n \<noteq> CHR ''/''" "last ?n \<in> set ''abcdefghijklmnopqrstuvwxyzABCDEFGHIJKLMNOPQRSTUVWXYZ''"
    using d(3) unfolding osc_name_ok_def by blast+
  have s: "s \<noteq> []" "hd s \<noteq> CHR ''/''" "last s = last ?n"
    using n(1,2) trim_char_ends [of "CHR ''/''" pre] by (auto simp: s_def hd_append)
  have norm: "normalizeAddress address = s" unfolding a using normalize_prefixed [OF s(1,2)] s(3) n(3) by metis
  have self: "LookupOSCName ?n = Some pid" using pid by (simp add: LookupOSCName_iff)
  show ?thesis
  proof (cases "?p = []")
    case True
    then show ?thesis using norm s self n(1) by (simp add: ResolveAddress_def s_def)
  next
    case False
    let ?P = "split_char CHR ''/'' ?p" and ?N = "split_char CHR ''/'' ?n"
    have parts: "split_char CHR ''/'' s = ?P @ ?N" using False by (simp add: s_def split_char_append)
    have join: "join_char CHR ''/'' (drop i (?P @ ?N)) = join_char CHR ''/'' (drop i ?P) @ CHR ''/'' # ?n" if "i < length ?P" for i
      using that join_char_append [of "drop i ?P" ?N "CHR ''/''"] by simp
    define f where "f = (\<lambda>i. map_option (\<lambda>pid. (pid, join_char CHR ''/'' (take i (?P @ ?N))))
      (LookupOSCName (join_char CHR ''/'' (drop i (?P @ ?N)))))"
    have none: "\<forall>i \<in> set [1..<length ?P]. f i = None"
      using join LookupOSCName_prefixed [OF pid] by (simp add: f_def)
    have hit: "f (length ?P) = Some (pid, ?p)" using self by (simp add: f_def)
    have len: "1 \<le> length ?P" "0 < length ?N" using split_char_nonempty by (simp_all add: Suc_le_eq)
    then have "[1..<length (?P @ ?N)] = [1..<length ?P] @ length ?P # [Suc (length ?P)..<length (?P @ ?N)]"
      by (simp add: upt_add_eq_append upt_conv_Cons)
    then have "first_some f [1..<length (?P @ ?N)] = Some (pid, ?p)"
      using first_some_skip [OF none] hit by simp
    moreover have "LookupOSCName s = None" using False LookupOSCName_prefixed [OF pid, of ?p] by (simp add: s_def)
    ultimately show ?thesis using norm s(1) by (simp add: ResolveAddress_def parts f_def)
  qed
qed

theorem ResolveAddress_CanonicalAddress_witness:
  "ResolveAddress ''/avatar/parameters/Face/v2/JawOpen'' = Some (ParameterJawOpen, ''Face'')"
proof -
  have c: "CanonicalAddress ParameterJawOpen ''/Face/'' = Some ''/avatar/parameters/Face/v2/JawOpen''" by code_simp
  have t: "trim_char CHR ''/'' ''/Face/'' = ''Face''" by code_simp
  from ResolveAddress_CanonicalAddress [OF c] show ?thesis by (simp only: t)
qed

section \<open>Clamping\<close>

text \<open>Clamp fails exactly on unknown parameters; a finite value of a parameter with a
  range is moved into the range, and by no more than necessary: a value already inside stays.\<close>

theorem Clamp_range:
  assumes "finite32 v"
  shows "snd (Clamp pid v) = (pid < ParameterCount) \<and>
    (pid < ParameterCount \<and> pd_ValueType (Definitions ! pid) = ValueFloat \<longrightarrow>
      le32 (range_Min (pd_Range (Definitions ! pid))) (fst (Clamp pid v)) \<and>
      le32 (fst (Clamp pid v)) (range_Max (pd_Range (Definitions ! pid))) \<and>
      (le32 (range_Min (pd_Range (Definitions ! pid))) v \<and> le32 v (range_Max (pd_Range (Definitions ! pid))) \<longrightarrow>
        fst (Clamp pid v) = v))"
proof (cases "pid < 127")
  case True
  have "list_all (\<lambda>d. pd_ValueType d = ValueFloat \<longrightarrow> HasRange d \<and> pd_Range d \<in> {unit_range, signed_range}) Definitions"
    by code_simp
  then have r: "pd_ValueType (Definitions ! pid) = ValueFloat \<longrightarrow> HasRange (Definitions ! pid) \<and> pd_Range (Definitions ! pid) \<in> {unit_range, signed_range}"
    using True by (simp add: list_all_length Definitions_length)
  have c: "finite32 zero32" "finite32 one32" "finite32 minus_one32" "le32 zero32 one32" "le32 minus_one32 one32"
    "le32 zero32 zero32" "le32 one32 one32" "le32 minus_one32 minus_one32" by code_simp+
  have o: "lt32 x y \<longleftrightarrow> \<not> le32 y x" if "finite32 x" "finite32 y" for x y
    using that by (auto simp: lt32_def le32_def)
  show ?thesis
    using True r assms c by (auto simp: Clamp_def definition_at(1) unit_range_def signed_range_def o)
next
  case False
  then show ?thesis by (simp add: Clamp_def Definition_def)
qed

theorem Clamp_range_witness: "le32 (fst (Clamp ParameterJawOpen (Float32frombits 0x40000000))) one32"
proof -
  have v: "finite32 (Float32frombits 0x40000000)" by code_simp
  have "ParameterJawOpen < ParameterCount" "pd_ValueType (Definitions ! ParameterJawOpen) = ValueFloat"
    "range_Max (pd_Range (Definitions ! ParameterJawOpen)) = one32" by code_simp+
  then show ?thesis using Clamp_range [OF v, of ParameterJawOpen] by metis
qed

end
