(* ===== verification/Traversal.thy ===== *)
theory Traversal
  imports Prelude
begin

text \<open>
  Depth-first traversals of a dependency graph, the way internal/parameterdeps and
  internal/evaluator write them: a recursive closure over a map of node states (unvisited,
  visiting, visited). The recursion is bounded by fuel, \<open>None\<close> standing for running out of
  it; the locale shows once that fuel for one more than the nodes is enough, that a successful
  visit leaves the pending nodes alone and marks its node visited, and that on a graph whose edges
  go to smaller numbers no visit fails.
\<close>

datatype visit_mark = Unvisited | Visiting | Visited

type_synonym ('e, 'a) run = "('e, 'a) result option"

definition bind_run :: "('e, 'a) run \<Rightarrow> ('a \<Rightarrow> ('e, 'b) run) \<Rightarrow> ('e, 'b) run" where
  "bind_run r f = (case r of None \<Rightarrow> None | Some (Inl e) \<Rightarrow> Some (Inl e) | Some (Inr x) \<Rightarrow> f x)"

lemma bind_run_simps [simp]:
  "bind_run None f = None" "bind_run (Some (Inl e)) f = Some (Inl e)" "bind_run (Some (Inr x)) f = f x"
  by (simp_all add: bind_run_def)

lemma bind_run_ok: "bind_run r f = Some (Inr y) \<longleftrightarrow> (\<exists>x. r = Some (Inr x) \<and> f x = Some (Inr y))"
  by (auto simp: bind_run_def split: option.splits sum.splits)

lemma bind_run_None: "bind_run r f = None \<longleftrightarrow> r = None \<or> (\<exists>x. r = Some (Inr x) \<and> f x = None)"
  by (auto simp: bind_run_def split: option.splits sum.splits)

fun fold_run :: "('a \<Rightarrow> 's \<Rightarrow> ('e, 's) run) \<Rightarrow> 'a list \<Rightarrow> 's \<Rightarrow> ('e, 's) run" where
  \<comment> \<open>a range loop that stops at the first error\<close>
  "fold_run f [] s = Some (Inr s)"
| "fold_run f (x # xs) s = bind_run (f x s) (fold_run f xs)"

lemma fold_run_append: "fold_run f (xs @ ys) s = bind_run (fold_run f xs s) (fold_run f ys)"
  by (induction xs arbitrary: s) (auto simp: bind_run_def split: option.splits sum.splits)

lemma fold_run_invariant:
  assumes "fold_run f xs s = Some (Inr t)" and "P s"
    and "\<And>x s t. x \<in> set xs \<Longrightarrow> P s \<Longrightarrow> f x s = Some (Inr t) \<Longrightarrow> P t"
  shows "P t"
  using assms
proof (induction xs arbitrary: s)
  case (Cons x xs)
  from Cons.prems(1) obtain u where u: "f x s = Some (Inr u)" "fold_run f xs u = Some (Inr t)"
    by (auto simp: bind_run_ok)
  have "P u" using Cons.prems(3) [OF _ Cons.prems(2) u(1)] by simp
  with Cons.IH [OF u(2)] Cons.prems(3) show ?case by (meson list.set_intros(2))
qed simp

lemma fold_run_not_None:
  assumes "P s" and "\<And>x s. x \<in> set xs \<Longrightarrow> P s \<Longrightarrow> f x s \<noteq> None"
    and "\<And>x s t. x \<in> set xs \<Longrightarrow> P s \<Longrightarrow> f x s = Some (Inr t) \<Longrightarrow> P t"
  shows "fold_run f xs s \<noteq> None"
  using assms
proof (induction xs arbitrary: s)
  case (Cons x xs)
  have "fold_run f xs t \<noteq> None" if "f x s = Some (Inr t)" for t
  proof (rule Cons.IH)
    show "P t" using Cons.prems(3) [of x s t] Cons.prems(1) that by simp
  qed (meson Cons.prems(2,3) list.set_intros(2))+
  moreover have "f x s \<noteq> None" using Cons.prems(1,2) by simp
  ultimately show ?case unfolding fold_run.simps bind_run_None by blast
qed simp

lemma fold_run_ok:
  assumes "P s" and "\<And>x s. x \<in> set xs \<Longrightarrow> P s \<Longrightarrow> \<exists>t. f x s = Some (Inr t) \<and> P t"
  shows "\<exists>t. fold_run f xs s = Some (Inr t) \<and> P t"
  using assms
proof (induction xs arbitrary: s)
  case (Cons x xs)
  then obtain t where "f x s = Some (Inr t)" "P t" by (meson list.set_intros(1))
  with Cons.IH [of t] Cons.prems(2) show ?case by (auto simp: bind_run_ok)
qed simp

locale depth_first =
  fixes visit :: "nat \<Rightarrow> nat \<Rightarrow> 's \<Rightarrow> ('e, 's) run"
    and enter :: "nat \<Rightarrow> 's \<Rightarrow> 's"
    and leave :: "nat \<Rightarrow> 's \<Rightarrow> 's \<Rightarrow> ('e, 's) result"
    and mark :: "'s \<Rightarrow> nat \<Rightarrow> visit_mark"
    and succs :: "nat \<Rightarrow> nat list option"
  assumes no_fuel: "visit 0 cur s = None"
    and unvisited: "mark s cur = Unvisited \<Longrightarrow> succs cur = Some ds \<Longrightarrow>
      visit (Suc n) cur s = bind_run (fold_run (visit n) ds (enter cur s)) (\<lambda>s'. Some (leave cur s s'))"
    and visited: "mark s cur = Visited \<Longrightarrow> \<exists>r. visit (Suc n) cur s = Some r \<and>
      (\<forall>s'. r = Inr s' \<longrightarrow> mark s' = mark s) \<and> (succs cur \<noteq> None \<longrightarrow> is_ok r)"
    and stopped: "mark s cur = Visiting \<or> mark s cur = Unvisited \<and> succs cur = None \<Longrightarrow>
      \<exists>e. visit (Suc n) cur s = Some (Inl e)"
    and mark_enter: "mark (enter cur s) = (mark s)(cur := Visiting)"
    and mark_leave: "leave cur s s' = Inr t \<Longrightarrow> mark t = (mark s')(cur := Visited)"
begin

lemma visit_cases:
  assumes "visit n cur s = Some (Inr s')"
  obtains (again) m where "n = Suc m" "mark s cur = Visited" "mark s' = mark s"
  | (new) m ds s1 where "n = Suc m" "mark s cur = Unvisited" "succs cur = Some ds"
      "fold_run (visit m) ds (enter cur s) = Some (Inr s1)" "leave cur s s1 = Inr s'"
proof -
  obtain m where m: "n = Suc m" using assms no_fuel by (cases n) auto
  show ?thesis
  proof (cases "mark s cur")
    case Unvisited
    then obtain ds where ds: "succs cur = Some ds" using assms m stopped [of s cur m] by (cases "succs cur") auto
    with assms m unvisited [OF Unvisited ds] that(2) Unvisited show ?thesis by (auto simp: bind_run_ok)
  next
    case Visited
    with assms m visited [OF Visited, of m] that(1) show ?thesis by auto
  next
    case Visiting
    then show ?thesis using assms m stopped [of s cur m] by auto
  qed
qed

text \<open>A successful visit marks its node visited; other nodes keep their mark or become visited.\<close>

lemma visit_marks:
  "visit n cur s = Some (Inr s') \<Longrightarrow>
    mark s' cur = Visited \<and> (\<forall>v. mark s' v = mark s v \<or> mark s v = Unvisited \<and> mark s' v = Visited)"
proof (induction n arbitrary: cur s s')
  case 0
  then show ?case by (simp add: no_fuel)
next
  case (Suc n)
  from Suc.prems show ?case
  proof (cases rule: visit_cases)
    case again
    then show ?thesis by simp
  next
    case (new m ds s1)
    have "\<forall>v. mark s1 v = mark (enter cur s) v \<or> mark (enter cur s) v = Unvisited \<and> mark s1 v = Visited"
      using new(4)
    proof (rule fold_run_invariant)
      fix d t t'
      assume t: "\<forall>v. mark t v = mark (enter cur s) v \<or> mark (enter cur s) v = Unvisited \<and> mark t v = Visited"
        and "visit m d t = Some (Inr t')"
      then have "\<forall>v. mark t' v = mark t v \<or> mark t v = Unvisited \<and> mark t' v = Visited" using Suc.IH new(1) by auto
      with t show "\<forall>v. mark t' v = mark (enter cur s) v \<or> mark (enter cur s) v = Unvisited \<and> mark t' v = Visited" by metis
    qed simp
    then show ?thesis using mark_leave [OF new(5)] new(2) by (auto simp: mark_enter split: if_splits)
  qed
qed

lemma visit_visiting: "visit n cur s = Some (Inr s') \<Longrightarrow> mark s' v = Visiting \<longleftrightarrow> mark s v = Visiting"
  using visit_marks by (metis visit_mark.distinct)

lemma fold_visit_marks:
  assumes "fold_run (visit n) ds s = Some (Inr s')"
  shows "(\<forall>d \<in> set ds. mark s' d = Visited) \<and> (\<forall>v. mark s' v = mark s v \<or> mark s v = Unvisited \<and> mark s' v = Visited)"
  using assms
proof (induction ds arbitrary: s)
  case (Cons d ds)
  then obtain t where t: "visit n d s = Some (Inr t)" "fold_run (visit n) ds t = Some (Inr s')"
    by (auto simp: bind_run_ok)
  from visit_marks [OF t(1)] Cons.IH [OF t(2)] show ?case
    by (metis set_ConsD visit_mark.distinct(3))
qed simp

text \<open>Fuel for the nodes that are not being visited is enough.\<close>

lemma visit_terminates:
  assumes "finite {v. succs v \<noteq> None}"
  shows "card {v. succs v \<noteq> None \<and> mark s v \<noteq> Visiting} < n \<Longrightarrow> visit n cur s \<noteq> None"
proof (induction n arbitrary: cur s)
  case (Suc n)
  let ?D = "\<lambda>s. {v. succs v \<noteq> None \<and> mark s v \<noteq> Visiting}"
  show ?case
  proof (cases "mark s cur = Unvisited \<and> succs cur \<noteq> None")
    case False
    then show ?thesis
      using visited [of s cur n] stopped [of s cur n] by (cases "mark s cur") auto
  next
    case True
    then obtain ds where ds: "succs cur = Some ds" by blast
    have fin: "finite (?D s)" using assms by (rule rev_finite_subset) auto
    have "?D (enter cur s) = ?D s - {cur}" by (auto simp: mark_enter)
    moreover have "cur \<in> ?D s" using True by simp
    ultimately have "?D (enter cur s) \<subset> ?D s" by blast
    then have "card (?D (enter cur s)) < card (?D s)" by (rule psubset_card_mono [OF fin])
    then have small: "card (?D (enter cur s)) < n" using Suc.prems by simp
    have "fold_run (visit n) ds (enter cur s) \<noteq> None"
    proof (rule fold_run_not_None [where P = "\<lambda>t. card (?D t) < n"])
      fix d t t' assume "card (?D t) < n" "visit n d t = Some (Inr t')"
      moreover from visit_visiting [OF this(2)] have "?D t' = ?D t" by simp
      ultimately show "card (?D t') < n" by simp
    qed (use small Suc.IH in auto)
    then show ?thesis using unvisited [OF _ ds, of s n] True by (auto simp: bind_run_None)
  qed
qed simp

text \<open>An invariant that entering and leaving a node keep holds after every visit.\<close>

lemma visit_invariant:
  assumes again: "\<And>n cur s s'. P s \<Longrightarrow> mark s cur = Visited \<Longrightarrow> visit (Suc n) cur s = Some (Inr s') \<Longrightarrow> P s'"
    and enter: "\<And>cur s ds. P s \<Longrightarrow> mark s cur = Unvisited \<Longrightarrow> succs cur = Some ds \<Longrightarrow> P (enter cur s)"
    and leave: "\<And>cur s s1 s2 ds. P s1 \<Longrightarrow> succs cur = Some ds \<Longrightarrow> \<forall>d \<in> set ds. mark s1 d = Visited \<Longrightarrow>
      mark s1 cur = Visiting \<Longrightarrow> leave cur s s1 = Inr s2 \<Longrightarrow> P s2"
  shows "visit n cur s = Some (Inr s') \<Longrightarrow> P s \<Longrightarrow> P s'"
proof (induction n arbitrary: cur s s')
  case 0
  then show ?case by (simp add: no_fuel)
next
  case (Suc n)
  from Suc.prems(1) show ?case
  proof (cases rule: visit_cases)
    case (again m)
    then show ?thesis using assms(1) Suc.prems by blast
  next
    case (new m ds s1)
    have "P s1" using new(4)
    proof (rule fold_run_invariant)
      show "P (enter cur s)" using assms(2) Suc.prems(2) new(2,3) by blast
    qed (use Suc.IH new(1) in auto)
    moreover have "mark s1 cur = Visiting"
      using fold_visit_marks [OF new(4)] by (auto simp: mark_enter dest: spec [of _ cur])
    ultimately show ?thesis using assms(3) fold_visit_marks [OF new(4)] new(3,5) by blast
  qed
qed

text \<open>Edges that go down cannot close a cycle.\<close>

lemma visit_ranked:
  assumes down: "\<And>v ds d. succs v = Some ds \<Longrightarrow> d \<in> set ds \<Longrightarrow> d < v \<and> succs d \<noteq> None"
    and ok: "\<And>v s s' e. succs v \<noteq> None \<Longrightarrow> leave v s s' \<noteq> Inl e"
  shows "cur < n \<Longrightarrow> succs cur \<noteq> None \<Longrightarrow> \<forall>v. mark s v = Visiting \<longrightarrow> cur < v \<Longrightarrow> \<exists>s'. visit n cur s = Some (Inr s')"
proof (induction n arbitrary: cur s)
  case (Suc n)
  obtain ds where ds: "succs cur = Some ds" using Suc.prems(2) by blast
  show ?case
  proof (cases "mark s cur")
    case Unvisited
    have "\<exists>t. fold_run (visit n) ds (enter cur s) = Some (Inr t) \<and> (\<forall>v. mark t v = Visiting \<longrightarrow> cur \<le> v)"
    proof (rule fold_run_ok)
      show "\<forall>v. mark (enter cur s) v = Visiting \<longrightarrow> cur \<le> v"
        using Suc.prems(3) by (auto simp: mark_enter less_imp_le)
    next
      fix d t assume d: "d \<in> set ds" and t: "\<forall>v. mark t v = Visiting \<longrightarrow> cur \<le> v"
      have "d < cur" "succs d \<noteq> None" using down [OF ds d] by auto
      then obtain t' where t': "visit n d t = Some (Inr t')" using Suc.IH [of d t] t Suc.prems(1) by fastforce
      moreover have "\<forall>v. mark t' v = Visiting \<longrightarrow> cur \<le> v" using visit_visiting [OF t'] t by simp
      ultimately show "\<exists>t'. visit n d t = Some (Inr t') \<and> (\<forall>v. mark t' v = Visiting \<longrightarrow> cur \<le> v)" by blast
    qed
    then obtain t where t: "fold_run (visit n) ds (enter cur s) = Some (Inr t)" by blast
    obtain u where "leave cur s t = Inr u" using ok [of cur s t] ds by (cases "leave cur s t") auto
    with unvisited [OF Unvisited ds, of n] t show ?thesis by simp
  next
    case Visited
    then show ?thesis using visited [OF Visited, of n] ds by (auto simp: is_ok_iff)
  next
    case Visiting
    then show ?thesis using Suc.prems(3) by blast
  qed
qed simp

end

end
