(* ===== verification/ParameterDeps.thy ===== *)
theory ParameterDeps
  imports Parameters Traversal TrackingModel
begin

text \<open>
  internal/parameterdeps/dependencies.go: which tracking inputs each parameter needs. The shipped
  plans are built from the parameter table and the expression names of pkg/trackingmodel;
  resolveLeaves walks a plan's dependencies depth first and collects the inputs at the leaves.
\<close>

unbundle bit_operations_syntax

section \<open>Fields and inputs\<close>

type_synonym eye_field = nat

definition EyeFieldLeftGazeX :: eye_field where "EyeFieldLeftGazeX = 1"
definition EyeFieldLeftGazeY :: eye_field where "EyeFieldLeftGazeY = 2"
definition EyeFieldRightGazeX :: eye_field where "EyeFieldRightGazeX = 3"
definition EyeFieldRightGazeY :: eye_field where "EyeFieldRightGazeY = 4"
definition EyeFieldLeftOpenness :: eye_field where "EyeFieldLeftOpenness = 5"
definition EyeFieldRightOpenness :: eye_field where "EyeFieldRightOpenness = 6"
definition EyeFieldLeftPupilDiameter :: eye_field where "EyeFieldLeftPupilDiameter = 7"
definition EyeFieldRightPupilDiameter :: eye_field where "EyeFieldRightPupilDiameter = 8"
definition EyeFieldLeftPupilDilation :: eye_field where "EyeFieldLeftPupilDilation = 9"
definition EyeFieldRightPupilDilation :: eye_field where "EyeFieldRightPupilDilation = 10"
definition eyeFieldCount :: eye_field where "eyeFieldCount = 11"

lemmas eye_field_defs = EyeFieldLeftGazeX_def EyeFieldLeftGazeY_def EyeFieldRightGazeX_def EyeFieldRightGazeY_def
  EyeFieldLeftOpenness_def EyeFieldRightOpenness_def EyeFieldLeftPupilDiameter_def EyeFieldRightPupilDiameter_def
  EyeFieldLeftPupilDilation_def EyeFieldRightPupilDilation_def eyeFieldCount_def

type_synonym eye_fields = u16

definition eye_fields_add :: "eye_field \<Rightarrow> eye_fields \<Rightarrow> eye_fields" where
  "eye_fields_add field fs = (if 0 < field \<and> field < eyeFieldCount then fs OR push_bit (field - 1) 1 else fs)"

definition EyeFieldsOf :: "eye_field list \<Rightarrow> eye_fields" where
  "EyeFieldsOf fs = fold eye_fields_add fs 0"

definition eye_fields_has :: "eye_fields \<Rightarrow> eye_field \<Rightarrow> bool" where
  "eye_fields_has f field \<longleftrightarrow> \<not> (field = 0 \<or> eyeFieldCount \<le> field) \<and> f AND push_bit (field - 1) 1 \<noteq> 0"

definition eye_fields_EyeValid :: "eye_fields \<Rightarrow> eye_valid" where
  "eye_fields_EyeValid f =
     (if eye_fields_has f EyeFieldLeftGazeX \<or> eye_fields_has f EyeFieldLeftGazeY then EyeValidLeftGaze else 0) OR
     (if eye_fields_has f EyeFieldRightGazeX \<or> eye_fields_has f EyeFieldRightGazeY then EyeValidRightGaze else 0) OR
     (if eye_fields_has f EyeFieldLeftOpenness then EyeValidLeftOpenness else 0) OR
     (if eye_fields_has f EyeFieldRightOpenness then EyeValidRightOpenness else 0) OR
     (if eye_fields_has f EyeFieldLeftPupilDiameter \<or> eye_fields_has f EyeFieldLeftPupilDilation then EyeValidLeftPupil else 0) OR
     (if eye_fields_has f EyeFieldRightPupilDiameter \<or> eye_fields_has f EyeFieldRightPupilDilation then EyeValidRightPupil else 0)"

type_synonym active_state = nat

definition ActiveStateEyeTracking :: active_state where "ActiveStateEyeTracking = 1"
definition ActiveStateExpressionTracking :: active_state where "ActiveStateExpressionTracking = 2"
definition ActiveStateLipTracking :: active_state where "ActiveStateLipTracking = 3"
definition activeStateCount :: active_state where "activeStateCount = 4"

lemmas active_state_defs = ActiveStateEyeTracking_def ActiveStateExpressionTracking_def ActiveStateLipTracking_def
  activeStateCount_def

type_synonym active_states = u8

definition active_states_add :: "active_state \<Rightarrow> active_states \<Rightarrow> active_states" where
  "active_states_add state states = (if 0 < state \<and> state < activeStateCount then states OR push_bit (state - 1) 1 else states)"

definition ActiveStatesOf :: "active_state list \<Rightarrow> active_states" where
  "ActiveStatesOf states = fold active_states_add states 0"

definition active_states_has :: "active_states \<Rightarrow> active_state \<Rightarrow> bool" where
  "active_states_has s state \<longleftrightarrow> \<not> (state = 0 \<or> activeStateCount \<le> state) \<and> s AND push_bit (state - 1) 1 \<noteq> 0"

record inputs =
  in_Eye :: eye_fields
  in_Expressions :: expression_mask
  in_Active :: active_states

definition empty_inputs :: inputs where
  "empty_inputs = \<lparr>in_Eye = 0, in_Expressions = empty_mask, in_Active = 0\<rparr>"

definition inputs_IsZero :: "inputs \<Rightarrow> bool" where
  "inputs_IsZero i \<longleftrightarrow> in_Eye i = 0 \<and> mask_is_zero (in_Expressions i) \<and> in_Active i = 0"

definition RequiredEyeValid :: "inputs \<Rightarrow> eye_valid" where
  "RequiredEyeValid i = eye_fields_EyeValid (in_Eye i)"

definition union_inputs :: "inputs \<Rightarrow> inputs \<Rightarrow> inputs" where
  "union_inputs left right = \<lparr>in_Eye = in_Eye left OR in_Eye right,
     in_Expressions = (in_Expressions left)\<lparr>Words0 := Words0 (in_Expressions left) OR Words0 (in_Expressions right),
       Words1 := Words1 (in_Expressions left) OR Words1 (in_Expressions right)\<rparr>,
     in_Active = in_Active left OR in_Active right\<rparr>"

section \<open>Plans\<close>

type_synonym operation = u8

definition OperationDirect :: operation where "OperationDirect = 1"
definition OperationAverage :: operation where "OperationAverage = 2"
definition OperationMax :: operation where "OperationMax = 3"
definition OperationSignedPair :: operation where "OperationSignedPair = 4"
definition OperationSumClamp :: operation where "OperationSumClamp = 5"

record dependency_plan =
  Inputs :: inputs
  DependsOn :: "nat list"
  Operation :: operation

type_synonym plans = "(nat \<times> dependency_plan) list" \<comment> \<open>a Go map: the last assignment to a key first\<close>

definition expressionNames :: "string list" where
  "expressionNames = [
    ''EyeSquintRight'', ''EyeSquintLeft'', ''BrowPinchRight'', ''BrowPinchLeft'', ''BrowLowererRight'',
    ''BrowLowererLeft'', ''BrowInnerUpRight'', ''BrowInnerUpLeft'', ''BrowOuterUpRight'', ''BrowOuterUpLeft'',
    ''NoseSneerRight'', ''NoseSneerLeft'', ''NasalDilationRight'', ''NasalDilationLeft'', ''NasalConstrictRight'',
    ''NasalConstrictLeft'', ''CheekSquintRight'', ''CheekSquintLeft'', ''CheekPuffSuckRight'', ''CheekPuffSuckLeft'',
    ''JawOpen'', ''MouthClosed'', ''JawX'', ''JawZ'', ''JawClench'', ''JawMandibleRaise'', ''LipSuckUpperRight'',
    ''LipSuckUpperLeft'', ''LipSuckLowerRight'', ''LipSuckLowerLeft'', ''LipSuckCornerRight'', ''LipSuckCornerLeft'',
    ''LipFunnelUpperRight'', ''LipFunnelUpperLeft'', ''LipFunnelLowerRight'', ''LipFunnelLowerLeft'',
    ''LipPuckerUpperRight'', ''LipPuckerUpperLeft'', ''LipPuckerLowerRight'', ''LipPuckerLowerLeft'',
    ''MouthUpperUpRight'', ''MouthUpperUpLeft'', ''MouthLowerDownRight'', ''MouthLowerDownLeft'',
    ''MouthUpperDeepenRight'', ''MouthUpperDeepenLeft'', ''MouthUpperX'', ''MouthLowerX'', ''MouthCornerPullRight'',
    ''MouthCornerPullLeft'', ''MouthCornerSlantRight'', ''MouthCornerSlantLeft'', ''MouthDimpleRight'',
    ''MouthDimpleLeft'', ''MouthFrownRight'', ''MouthFrownLeft'', ''MouthStretchRight'', ''MouthStretchLeft'',
    ''MouthRaiserUpper'', ''MouthRaiserLower'', ''MouthPressRight'', ''MouthPressLeft'', ''MouthTightenerRight'',
    ''MouthTightenerLeft'', ''TongueOut'', ''TongueX'', ''TongueY'', ''TongueRoll'', ''TongueArchY'',
    ''TongueShape'', ''TongueTwistRight'', ''TongueTwistLeft'', ''SoftPalateClose'', ''ThroatSwallow'',
    ''NeckFlexRight'', ''NeckFlexLeft'']"

definition ExpressionNames :: "string list" where "ExpressionNames = expressionNames"

definition directEye :: "nat \<Rightarrow> eye_field list \<Rightarrow> nat \<times> dependency_plan" where
  "directEye pid fs = (pid, \<lparr>Inputs = empty_inputs\<lparr>in_Eye := EyeFieldsOf fs\<rparr>, DependsOn = [], Operation = OperationDirect\<rparr>)"

definition directActive :: "nat \<Rightarrow> active_state \<Rightarrow> nat \<times> dependency_plan" where
  "directActive pid state = (pid, \<lparr>Inputs = empty_inputs\<lparr>in_Active := ActiveStatesOf [state]\<rparr>, DependsOn = [], Operation = OperationDirect\<rparr>)"

definition derived :: "nat \<Rightarrow> operation \<Rightarrow> nat list \<Rightarrow> nat \<times> dependency_plan" where
  "derived pid oper dependencies = (pid, \<lparr>Inputs = empty_inputs, DependsOn = dependencies, Operation = oper\<rparr>)"

definition expressionIDs :: "string \<Rightarrow> nat option" where
  "expressionIDs = map_of (rev (zip ExpressionNames [0..<length ExpressionNames]))"

definition expression_plans :: "(nat \<times> dependency_plan) list" where
  \<comment> \<open>the loop over the parameter table\<close>
  "expression_plans = List.map_filter (\<lambda>def. map_option (\<lambda>eid. (pd_ID def,
     \<lparr>Inputs = empty_inputs\<lparr>in_Expressions := ExpressionMaskOf [eid] empty_mask\<rparr>, DependsOn = [], Operation = OperationDirect\<rparr>))
     (expressionIDs (pd_Name def))) Definitions"

definition direct_plans :: "(nat \<times> dependency_plan) list" where
  \<comment> \<open>the assignments before the loop\<close>
  "direct_plans = [
     directEye ParameterEyeLeftX [EyeFieldLeftGazeX],
     directEye ParameterEyeLeftY [EyeFieldLeftGazeY],
     directEye ParameterEyeRightX [EyeFieldRightGazeX],
     directEye ParameterEyeRightY [EyeFieldRightGazeY],
     directEye ParameterEyeLidRight [EyeFieldRightOpenness],
     directEye ParameterEyeLidLeft [EyeFieldLeftOpenness],
     (ParameterPupilDilation, \<lparr>Inputs = empty_inputs\<lparr>in_Eye := EyeFieldsOf [EyeFieldLeftPupilDilation, EyeFieldRightPupilDilation]\<rparr>,
       DependsOn = [], Operation = OperationAverage\<rparr>),
     directEye ParameterPupilDiameterRight [EyeFieldRightPupilDiameter],
     directEye ParameterPupilDiameterLeft [EyeFieldLeftPupilDiameter],
     directActive ParameterEyeTrackingActive ActiveStateEyeTracking,
     directActive ParameterExpressionTrackingActive ActiveStateExpressionTracking,
     directActive ParameterLipTrackingActive ActiveStateLipTracking]"

definition derived_plans :: "(nat \<times> dependency_plan) list" where
  \<comment> \<open>the assignments after it\<close>
  "derived_plans = [
     derived ParameterEyeLid OperationAverage [ParameterEyeLidRight, ParameterEyeLidLeft],
     derived ParameterEyeSquint OperationAverage [ParameterEyeSquintRight, ParameterEyeSquintLeft],
     derived ParameterPupilDiameter OperationAverage [ParameterPupilDiameterRight, ParameterPupilDiameterLeft],
     derived ParameterEyeX OperationAverage [ParameterEyeLeftX, ParameterEyeRightX],
     derived ParameterEyeY OperationAverage [ParameterEyeLeftY, ParameterEyeRightY],
     derived ParameterBrowDownRight OperationMax [ParameterBrowPinchRight, ParameterBrowLowererRight],
     derived ParameterBrowDownLeft OperationMax [ParameterBrowPinchLeft, ParameterBrowLowererLeft],
     derived ParameterBrowOuterUp OperationAverage [ParameterBrowOuterUpRight, ParameterBrowOuterUpLeft],
     derived ParameterBrowInnerUp OperationAverage [ParameterBrowInnerUpRight, ParameterBrowInnerUpLeft],
     derived ParameterBrowUp OperationMax [ParameterBrowOuterUp, ParameterBrowInnerUp],
     derived ParameterBrowExpressionRight OperationSignedPair [ParameterBrowInnerUpRight, ParameterBrowOuterUpRight, ParameterBrowDownRight],
     derived ParameterBrowExpressionLeft OperationSignedPair [ParameterBrowInnerUpLeft, ParameterBrowOuterUpLeft, ParameterBrowDownLeft],
     derived ParameterBrowExpression OperationAverage [ParameterBrowExpressionRight, ParameterBrowExpressionLeft],
     derived ParameterMouthX OperationAverage [ParameterMouthUpperX, ParameterMouthLowerX],
     derived ParameterMouthUpperUp OperationAverage [ParameterMouthUpperUpRight, ParameterMouthUpperUpLeft],
     derived ParameterMouthLowerDown OperationAverage [ParameterMouthLowerDownRight, ParameterMouthLowerDownLeft],
     derived ParameterMouthOpen OperationSumClamp [ParameterMouthUpperUp, ParameterMouthLowerDown],
     derived ParameterMouthSmileRight OperationMax [ParameterMouthCornerPullRight, ParameterMouthCornerSlantRight],
     derived ParameterMouthSmileLeft OperationMax [ParameterMouthCornerPullLeft, ParameterMouthCornerSlantLeft],
     derived ParameterMouthSadRight OperationMax [ParameterMouthFrownRight, ParameterMouthStretchRight],
     derived ParameterMouthSadLeft OperationMax [ParameterMouthFrownLeft, ParameterMouthStretchLeft],
     derived ParameterSmileFrownRight OperationSignedPair [ParameterMouthCornerPullRight, ParameterMouthCornerSlantRight, ParameterMouthFrownRight],
     derived ParameterSmileFrownLeft OperationSignedPair [ParameterMouthCornerPullLeft, ParameterMouthCornerSlantLeft, ParameterMouthFrownLeft],
     derived ParameterSmileFrown OperationAverage [ParameterSmileFrownRight, ParameterSmileFrownLeft],
     derived ParameterSmileSadRight OperationSignedPair [ParameterMouthSmileRight, ParameterMouthSadRight],
     derived ParameterSmileSadLeft OperationSignedPair [ParameterMouthSmileLeft, ParameterMouthSadLeft],
     derived ParameterSmileSad OperationAverage [ParameterSmileSadRight, ParameterSmileSadLeft],
     derived ParameterLipSuckUpper OperationAverage [ParameterLipSuckUpperRight, ParameterLipSuckUpperLeft],
     derived ParameterLipSuckLower OperationAverage [ParameterLipSuckLowerRight, ParameterLipSuckLowerLeft],
     derived ParameterLipSuck OperationAverage [ParameterLipSuckUpper, ParameterLipSuckLower],
     derived ParameterLipFunnelUpper OperationAverage [ParameterLipFunnelUpperRight, ParameterLipFunnelUpperLeft],
     derived ParameterLipFunnelLower OperationAverage [ParameterLipFunnelLowerRight, ParameterLipFunnelLowerLeft],
     derived ParameterLipFunnel OperationAverage [ParameterLipFunnelUpper, ParameterLipFunnelLower],
     derived ParameterLipPuckerUpper OperationAverage [ParameterLipPuckerUpperRight, ParameterLipPuckerUpperLeft],
     derived ParameterLipPuckerLower OperationAverage [ParameterLipPuckerLowerRight, ParameterLipPuckerLowerLeft],
     derived ParameterLipPucker OperationAverage [ParameterLipPuckerUpper, ParameterLipPuckerLower],
     derived ParameterNoseSneer OperationAverage [ParameterNoseSneerRight, ParameterNoseSneerLeft],
     derived ParameterCheekSquint OperationAverage [ParameterCheekSquintRight, ParameterCheekSquintLeft],
     derived ParameterCheekPuffSuck OperationAverage [ParameterCheekPuffSuckRight, ParameterCheekPuffSuckLeft]]"

definition buildPlans :: plans where
  "buildPlans = rev (direct_plans @ expression_plans @ derived_plans)"

definition Plan :: "nat \<Rightarrow> dependency_plan option" where
  "Plan pid = map_of buildPlans pid"

section \<open>Resolving leaves\<close>

datatype deps_error = UnknownParameter nat | MissingDependency nat nat | DependencyCycle "nat list"

record leaves_state =
  ls_mark :: "nat \<Rightarrow> visit_mark"
  ls_cache :: "nat \<Rightarrow> inputs"
  ls_stack :: "nat list"

definition enter_leaves :: "nat \<Rightarrow> leaves_state \<Rightarrow> leaves_state" where
  "enter_leaves current s = s\<lparr>ls_mark := (ls_mark s)(current := Visiting), ls_stack := ls_stack s @ [current]\<rparr>"

definition leave_leaves :: "nat \<Rightarrow> inputs \<Rightarrow> leaves_state \<Rightarrow> leaves_state" where
  "leave_leaves current leaves s = s\<lparr>ls_stack := butlast (ls_stack s), ls_mark := (ls_mark s)(current := Visited),
     ls_cache := (ls_cache s)(current := leaves)\<rparr>"

fun visit_leaves :: "(nat \<Rightarrow> dependency_plan option) \<Rightarrow> nat \<Rightarrow> nat option \<Rightarrow> nat \<Rightarrow> leaves_state \<Rightarrow>
    (deps_error, inputs \<times> leaves_state) run" where
  "visit_leaves plans 0 parent current s = None"
| "visit_leaves plans (Suc fuel) parent current s = (case plans current of
     None \<Rightarrow> Some (Inl (case parent of None \<Rightarrow> UnknownParameter current | Some p \<Rightarrow> MissingDependency p current))
   | Some plan \<Rightarrow> (case ls_mark s current of
       Visiting \<Rightarrow> Some (Inl (DependencyCycle (dropWhile (\<lambda>x. x \<noteq> current) (ls_stack s) @ [current])))
     | Visited \<Rightarrow> Some (Inr (ls_cache s current, s))
     | Unvisited \<Rightarrow> bind_run (fold_run (\<lambda>dependency (leaves, s).
           bind_run (visit_leaves plans fuel (Some current) dependency s) (\<lambda>(dependencyLeaves, s).
             Some (Inr (union_inputs leaves dependencyLeaves, s)))) (DependsOn plan) (Inputs plan, enter_leaves current s))
         (\<lambda>(leaves, s). Some (Inr (leaves, leave_leaves current leaves s)))))"

definition resolveLeaves :: "nat \<Rightarrow> plans \<Rightarrow> (deps_error, inputs) run" where
  \<comment> \<open>with fuel for one more call than there are plans\<close>
  "resolveLeaves pid plans = bind_run (visit_leaves (map_of plans) (length plans + 1) None pid
       \<lparr>ls_mark = (\<lambda>_. Unvisited), ls_cache = (\<lambda>_. empty_inputs), ls_stack = []\<rparr>) (\<lambda>(leaves, s). Some (Inr leaves))"

definition ResolveLeaves :: "nat \<Rightarrow> (deps_error, inputs) run" where
  "ResolveLeaves pid = resolveLeaves pid buildPlans"

definition RequiredInputs :: "nat list \<Rightarrow> (deps_error, inputs) run" where
  "RequiredInputs pids = fold_run (\<lambda>pid required.
     bind_run (ResolveLeaves pid) (\<lambda>leaves. Some (Inr (union_inputs required leaves)))) pids empty_inputs"

section \<open>The shipped plans\<close>

text \<open>The expressions are named like the parameters 7, 8 and 14 to 87, in the same order.\<close>

definition expression_parameter :: "nat \<Rightarrow> bool" where
  "expression_parameter pid \<longleftrightarrow> pid = 7 \<or> pid = 8 \<or> 14 \<le> pid \<and> pid < 88"

definition parameter_expression :: "nat \<Rightarrow> nat" where
  "parameter_expression pid = (if pid < 14 then pid - 7 else pid - 12)"

definition expression_plan :: "nat \<Rightarrow> dependency_plan" where
  "expression_plan eid = \<lparr>Inputs = empty_inputs\<lparr>in_Expressions := ExpressionMaskOf [eid] empty_mask\<rparr>, DependsOn = [], Operation = OperationDirect\<rparr>"

lemma expressionNames_table:
  "map pd_Name (take 2 (drop 7 Definitions) @ take 74 (drop 14 Definitions)) = expressionNames"
  by code_simp

lemma expressionNames_length: "length expressionNames = 76"
  by code_simp

lemma expressionNames_at:
  assumes "expression_parameter pid"
  shows "parameter_expression pid < 76 \<and> expressionNames ! parameter_expression pid = pd_Name (Definitions ! pid)"
proof -
  have "expressionNames ! k = pd_Name (Definitions ! (if k < 2 then 7 + k else 12 + k))" if "k < 76" for k
    using that by (simp add: expressionNames_table [symmetric] nth_append Definitions_length)
  then show ?thesis using assms
    by (auto simp: expression_parameter_def parameter_expression_def)
qed

lemma expressionNames_pid: "k < 76 \<Longrightarrow> \<exists>pid. expression_parameter pid \<and> parameter_expression pid = k"
  by (rule exI [of _ "if k < 2 then 7 + k else 12 + k"]) (auto simp: expression_parameter_def parameter_expression_def)

lemma expression_parameter_bound: "expression_parameter pid \<Longrightarrow> pid < 127"
  by (auto simp: expression_parameter_def)

lemma parameter_expression_inj:
  "expression_parameter p \<Longrightarrow> expression_parameter q \<Longrightarrow> parameter_expression p = parameter_expression q \<Longrightarrow> p = q"
  by (auto simp: expression_parameter_def parameter_expression_def split: if_splits)

lemma expressionNames_distinct: "distinct expressionNames"
proof -
  have "i = j" if k: "i < 76" "j < 76" "expressionNames ! i = expressionNames ! j" for i j
  proof -
    obtain p q where p: "expression_parameter p" "parameter_expression p = i" and q: "expression_parameter q" "parameter_expression q = j"
      using expressionNames_pid k(1,2) by meson
    then have "pd_Name (Definitions ! p) = pd_Name (Definitions ! q)" using expressionNames_at k(3) by metis
    then show ?thesis using name_inj expression_parameter_bound p q by metis
  qed
  then show ?thesis by (auto simp: distinct_conv_nth expressionNames_length)
qed

lemma expressionIDs_iff: "expressionIDs name = Some k \<longleftrightarrow> k < 76 \<and> name = expressionNames ! k"
proof -
  have "expressionIDs name = Some k \<longleftrightarrow> (name, k) \<in> set (zip expressionNames [0..<76])"
    unfolding expressionIDs_def ExpressionNames_def expressionNames_length
    using expressionNames_distinct by (subst map_of_eq_Some_iff) (simp_all add: rev_map [symmetric] expressionNames_length)
  then show ?thesis by (auto simp: set_zip expressionNames_length)
qed

lemma expressionIDs_table:
  assumes "pid < 127"
  shows "expressionIDs (pd_Name (Definitions ! pid)) = (if expression_parameter pid then Some (parameter_expression pid) else None)"
proof (cases "expression_parameter pid")
  case True
  then show ?thesis using expressionNames_at [OF True] by (simp add: expressionIDs_iff)
next
  case False
  have "expressionIDs (pd_Name (Definitions ! pid)) \<noteq> Some k" for k
  proof
    assume "expressionIDs (pd_Name (Definitions ! pid)) = Some k"
    then have k: "k < 76" "pd_Name (Definitions ! pid) = expressionNames ! k" by (simp_all add: expressionIDs_iff)
    obtain q where q: "expression_parameter q" "parameter_expression q = k" using expressionNames_pid k(1) by blast
    then show False using expressionNames_at [OF q(1)] name_inj [OF assms expression_parameter_bound [OF q(1)]] k False by metis
  qed
  then show ?thesis using False by auto
qed

lemma map_of_map_filter:
  assumes "distinct (map key xs)" "x \<in> set xs"
  shows "map_of (List.map_filter (\<lambda>x. map_option (\<lambda>v. (key x, g v)) (h x)) xs) (key x) = map_option g (h x)"
  using assms
proof (induction xs)
  case (Cons y ys)
  have none: "map_of (List.map_filter (\<lambda>x. map_option (\<lambda>v. (key x, g v)) (h x)) ys) k = None" if "k \<notin> key ` set ys" for k
    using that by (auto simp: map_of_eq_None_iff map_filter_def)
  show ?case
  proof (cases "x = y")
    case True
    then show ?thesis using Cons.prems none [of "key y"] by (cases "h y") (auto simp: map_filter_simps)
  next
    case False
    then have "key x \<in> key ` set ys" using Cons.prems(2) by auto
    then have "key x \<noteq> key y" using Cons.prems(1) by auto
    then show ?thesis using False Cons by (cases "h y") (auto simp: map_filter_simps)
  qed
qed simp

lemma expression_plans_key: "fst ` set expression_plans \<subseteq> {..<127}"
proof -
  have "pd_ID d < 127" if "d \<in> set Definitions" for d
    using that definition_at(2) by (auto simp: in_set_conv_nth Definitions_length)
  then show ?thesis by (auto simp: expression_plans_def map_filter_def)
qed

lemma expression_plans_at:
  "map_of expression_plans pid = (if expression_parameter pid then Some (expression_plan (parameter_expression pid)) else None)"
proof (cases "pid < 127")
  case True
  have "distinct (map pd_ID Definitions)" by (simp add: Definitions_ids)
  from map_of_map_filter [OF this, of "Definitions ! pid" expression_plan "\<lambda>d. expressionIDs (pd_Name d)"]
  show ?thesis
    using True expressionIDs_table [OF True] definition_at(2) [OF True] Definitions_length
    by (simp add: expression_plans_def expression_plan_def [abs_def])
next
  case False
  then have "map_of expression_plans pid = None"
    using expression_plans_key by (auto simp: map_of_eq_None_iff)
  then show ?thesis using False expression_parameter_bound by auto
qed


lemma map_of_rev_distinct: "distinct (map fst xs) \<Longrightarrow> map_of (rev xs) = map_of xs"
  by (subst map_of_inject_set) (simp_all flip: rev_map)

lemma Plan_at:
  "Plan pid = (case map_of (rev derived_plans) pid of Some plan \<Rightarrow> Some plan
     | None \<Rightarrow> if expression_parameter pid then Some (expression_plan (parameter_expression pid))
       else map_of (rev direct_plans) pid)"
proof -
  have "map fst expression_plans = filter (\<lambda>pid. expressionIDs (pd_Name (Definitions ! pid)) \<noteq> None) (map pd_ID Definitions)"
  proof -
    have gen: "map fst (List.map_filter (\<lambda>d. map_option (\<lambda>v. (pd_ID d, g v)) (expressionIDs (pd_Name d))) ds) =
        filter (\<lambda>pid. expressionIDs (pd_Name (Definitions ! pid)) \<noteq> None) (map pd_ID ds)"
      if "\<forall>d \<in> set ds. Definitions ! pd_ID d = d" for ds and g :: "nat \<Rightarrow> dependency_plan"
      using that by (induction ds) (auto simp: map_filter_simps split: option.splits)
    have "\<forall>d \<in> set Definitions. Definitions ! pd_ID d = d"
    proof
      fix d assume "d \<in> set Definitions"
      then obtain i where "i < 127" "d = Definitions ! i" by (auto simp: in_set_conv_nth Definitions_length)
      then show "Definitions ! pd_ID d = d" using definition_at(2) by simp
    qed
    from gen [OF this, of "\<lambda>eid. \<lparr>Inputs = empty_inputs\<lparr>in_Expressions := ExpressionMaskOf [eid] empty_mask\<rparr>, DependsOn = [], Operation = OperationDirect\<rparr>"]
    show ?thesis unfolding expression_plans_def .
  qed
  then have "distinct (map fst expression_plans)" unfolding Definitions_ids by (simp only: distinct_filter distinct_upt)
  from map_of_rev_distinct [OF this] show ?thesis
    unfolding Plan_def buildPlans_def rev_append map_of_append map_add_def
    by (simp only: expression_plans_at) (auto split: option.split)
qed

lemma derived_keys: "map fst derived_plans = [6, 9, 13] @ [88..<124]"
  by (simp add: derived_plans_def derived_def parameter_ids upt_rec)

lemma direct_keys: "map fst direct_plans = [0, 1, 2, 3, 4, 5, 10, 11, 12, 124, 125, 126]"
  by (simp add: direct_plans_def directEye_def directActive_def parameter_ids)

lemma derived_down: "list_all (\<lambda>(pid, plan). list_all (\<lambda>d. d < pid) (DependsOn plan)) derived_plans"
  by (simp add: derived_plans_def derived_def parameter_ids)

lemma direct_leaf: "list_all (\<lambda>(pid, plan). DependsOn plan = []) direct_plans"
  by (simp add: direct_plans_def directEye_def directActive_def)

lemma Plan_derived: "map_of (rev derived_plans) pid = Some plan \<Longrightarrow> (pid, plan) \<in> set derived_plans"
  using map_of_SomeD by fastforce

lemma Plan_direct: "map_of (rev direct_plans) pid = Some plan \<Longrightarrow> (pid, plan) \<in> set direct_plans"
  using map_of_SomeD by fastforce

lemma Plan_keys:
  "map_of (rev derived_plans) pid = None \<longleftrightarrow> \<not> (pid = 6 \<or> pid = 9 \<or> pid = 13 \<or> 88 \<le> pid \<and> pid < 124)"
  "map_of (rev direct_plans) pid = None \<longleftrightarrow> \<not> (pid < 6 \<or> pid = 10 \<or> pid = 11 \<or> pid = 12 \<or> pid = 124 \<or> pid = 125 \<or> pid = 126)"
proof -
  have key: "map_of (rev ps) pid = None \<longleftrightarrow> pid \<notin> set (map fst ps)" for ps :: plans
    by (simp add: map_of_eq_None_iff)
  show "map_of (rev derived_plans) pid = None \<longleftrightarrow> \<not> (pid = 6 \<or> pid = 9 \<or> pid = 13 \<or> 88 \<le> pid \<and> pid < 124)"
    "map_of (rev direct_plans) pid = None \<longleftrightarrow> \<not> (pid < 6 \<or> pid = 10 \<or> pid = 11 \<or> pid = 12 \<or> pid = 124 \<or> pid = 125 \<or> pid = 126)"
    unfolding key derived_keys direct_keys set_append set_upt by auto
qed

lemma Plan_known: "Plan pid \<noteq> None \<longleftrightarrow> pid < 127"
proof -
  have "Plan pid = None \<longleftrightarrow> map_of (rev derived_plans) pid = None \<and> \<not> expression_parameter pid \<and> map_of (rev direct_plans) pid = None"
    by (simp add: Plan_at split: option.split)
  then show ?thesis unfolding Plan_keys expression_parameter_def by presburger
qed

lemma Plan_down: "Plan pid = Some plan \<Longrightarrow> d \<in> set (DependsOn plan) \<Longrightarrow> d < pid"
  using derived_down direct_leaf
  by (fastforce simp: Plan_at list_all_iff expression_plan_def dest: Plan_derived Plan_direct split: option.splits if_splits)


section \<open>Traversal of the plans\<close>

text \<open>The traversal with its errors forgotten, accumulating the inputs like the loop over the
  dependencies does, is an instance of the generic one.\<close>

definition forget :: "('e, 'a) run \<Rightarrow> (unit, 'a) run" where
  "forget r = map_option (map_sum (\<lambda>_. ()) (\<lambda>x. x)) r"

lemma forget_simps [simp]:
  "forget None = None" "forget (Some (Inl e)) = Some (Inl ())" "forget (Some (Inr x)) = Some (Inr x)"
  by (simp_all add: forget_def)

lemma forget_iff [simp]: "forget r = None \<longleftrightarrow> r = None" "forget r = Some (Inr x) \<longleftrightarrow> r = Some (Inr x)"
proof -
  have "forget (Some z) = Some (Inr x) \<longleftrightarrow> z = Inr x" for z :: "('e, 'a) result" by (cases z) auto
  then show "forget r = Some (Inr x) \<longleftrightarrow> r = Some (Inr x)" by (cases r) auto
qed (simp add: forget_def)

lemma forget_bind: "forget (bind_run r f) = bind_run (forget r) (\<lambda>x. forget (f x))"
  by (cases r) (auto simp: bind_run_def forget_def split: sum.splits)

lemma forget_fold: "forget (fold_run f xs s) = fold_run (\<lambda>x s. forget (f x s)) xs s"
  by (induction xs arbitrary: s) (simp_all add: forget_bind)

definition leaves_visit :: "(nat \<Rightarrow> dependency_plan option) \<Rightarrow> nat \<Rightarrow> nat \<Rightarrow> inputs \<times> leaves_state \<Rightarrow> (unit, inputs \<times> leaves_state) run" where
  "leaves_visit plans n cur st = bind_run (forget (visit_leaves plans n None cur (snd st)))
     (\<lambda>(leaves, s). Some (Inr (union_inputs (fst st) leaves, s)))"

definition leaves_enter :: "(nat \<Rightarrow> dependency_plan option) \<Rightarrow> nat \<Rightarrow> inputs \<times> leaves_state \<Rightarrow> inputs \<times> leaves_state" where
  "leaves_enter plans cur st = (case plans cur of Some plan \<Rightarrow> Inputs plan | None \<Rightarrow> empty_inputs, enter_leaves cur (snd st))"

definition leaves_leave :: "nat \<Rightarrow> inputs \<times> leaves_state \<Rightarrow> inputs \<times> leaves_state \<Rightarrow> (unit, inputs \<times> leaves_state) result" where
  "leaves_leave cur st st' = Inr (union_inputs (fst st) (fst st'), leave_leaves cur (fst st') (snd st'))"

lemma visit_leaves_parent: "forget (visit_leaves plans n p cur s) = forget (visit_leaves plans n q cur s)"
  by (cases n) (auto split: option.split)

lemma visit_leaves_body:
  "forget (bind_run (visit_leaves plans n (Some cur) d (snd st)) (\<lambda>(l, s). Some (Inr (union_inputs (fst st) l, s)))) =
    leaves_visit plans n d st"
  by (simp add: forget_bind leaves_visit_def visit_leaves_parent [of plans n "Some cur" d _ None] case_prod_unfold)

interpretation leaves: depth_first "leaves_visit plans" "leaves_enter plans" leaves_leave "\<lambda>st. ls_mark (snd st)"
    "\<lambda>v. map_option DependsOn (plans v)" for plans
proof unfold_locales
  fix n cur and st :: "inputs \<times> leaves_state" and ds
  assume u: "ls_mark (snd st) cur = Unvisited" and "map_option DependsOn (plans cur) = Some ds"
  then obtain plan where plan: "plans cur = Some plan" "ds = DependsOn plan" by auto
  have "forget (fold_run (\<lambda>d (l, s). bind_run (visit_leaves plans n (Some cur) d s) (\<lambda>(dl, s). Some (Inr (union_inputs l dl, s)))) ds x) =
      fold_run (leaves_visit plans n) ds x" for x
    by (simp add: forget_fold case_prod_unfold visit_leaves_body [unfolded case_prod_unfold])
  then show "leaves_visit plans (Suc n) cur st =
      bind_run (fold_run (leaves_visit plans n) ds (leaves_enter plans cur st)) (\<lambda>st'. Some (leaves_leave cur st st'))"
    using u plan
    by (simp add: leaves_visit_def leaves_enter_def leaves_leave_def forget_bind case_prod_unfold)
       (auto simp: bind_run_def split: option.splits sum.splits)
qed (auto simp: leaves_visit_def leaves_enter_def leaves_leave_def enter_leaves_def leave_leaves_def split: option.splits)


lemma resolveLeaves_visit:
  "forget (resolveLeaves pid plans) = bind_run (leaves_visit (map_of plans) (length plans + 1) pid
     (empty_inputs, \<lparr>ls_mark = (\<lambda>_. Unvisited), ls_cache = (\<lambda>_. empty_inputs), ls_stack = []\<rparr>)) (\<lambda>st. Some (Inr (fst st)))"
proof -
  have "union_inputs empty_inputs i = i" for i
    by (cases i; cases "in_Expressions i") (simp add: union_inputs_def empty_inputs_def empty_mask_def)
  then show ?thesis
    by (auto simp: resolveLeaves_def leaves_visit_def forget_bind bind_run_def case_prod_unfold split: option.splits sum.splits)
qed

text \<open>Resolving the leaves of a parameter always ends, for whatever plans: a cycle is
  reported, it is never followed.\<close>

theorem resolveLeaves_terminates: "resolveLeaves pid plans \<noteq> None"
proof -
  let ?D = "{v. map_option DependsOn (map_of plans v) \<noteq> None}"
  have dom: "?D = fst ` set plans" by (auto simp: dom_map_of_conv_image_fst [symmetric] dom_def)
  then have "card ?D \<le> length plans" using card_image_le [of "set plans" fst] card_length [of plans] by simp
  moreover have "finite ?D" unfolding dom by simp
  ultimately have "leaves_visit (map_of plans) (length plans + 1) pid
      (empty_inputs, \<lparr>ls_mark = (\<lambda>_. Unvisited), ls_cache = (\<lambda>_. empty_inputs), ls_stack = []\<rparr>) \<noteq> None"
    by (intro leaves.visit_terminates) simp_all
  then have "forget (resolveLeaves pid plans) \<noteq> None" unfolding resolveLeaves_visit bind_run_None by auto
  then show ?thesis by simp
qed

section \<open>What a parameter needs\<close>

text \<open>The field sets are bit sets.\<close>

interpretation eye_bits: bit_set 0 eye_fields_add eye_fields_has "\<lambda>f. 0 < f \<and> f < 11"
proof
  fix i j :: nat and m :: eye_fields
  assume "0 < i \<and> i < 11"
  then show "eye_fields_has (eye_fields_add i m) j \<longleftrightarrow> j = i \<or> eye_fields_has m j"
    by (auto simp: eye_fields_has_def eye_fields_add_def eyeFieldCount_def bit_simps)
qed (simp add: eye_fields_has_def)

interpretation active_bits: bit_set 0 active_states_add active_states_has "\<lambda>a. 0 < a \<and> a < 4"
proof
  fix i j :: nat and m :: active_states
  assume "0 < i \<and> i < 4"
  then show "active_states_has (active_states_add i m) j \<longleftrightarrow> j = i \<or> active_states_has m j"
    by (auto simp: active_states_has_def active_states_add_def activeStateCount_def bit_simps)
qed (simp add: active_states_has_def)

datatype leaf = EyeLeaf eye_field | ExpressionLeaf nat | ActiveLeaf active_state

fun inputs_has :: "inputs \<Rightarrow> leaf \<Rightarrow> bool" where
  "inputs_has i (EyeLeaf f) = eye_fields_has (in_Eye i) f"
| "inputs_has i (ExpressionLeaf e) = mask_has (in_Expressions i) e"
| "inputs_has i (ActiveLeaf a) = active_states_has (in_Active i) a"

lemma inputs_has_union [simp]: "inputs_has (union_inputs a b) x \<longleftrightarrow> inputs_has a x \<or> inputs_has b x"
proof -
  show ?thesis
  proof (cases x)
    case (ExpressionLeaf e)
    then show ?thesis by (auto simp: union_inputs_def mask_has_def mask_word_def bit_or_iff)
  qed (auto simp: union_inputs_def eye_fields_has_def active_states_has_def bit_or_iff)
qed

lemma inputs_has_empty [simp]: "\<not> inputs_has empty_inputs x"
  by (cases x) (simp_all add: empty_inputs_def eye_fields_has_def active_states_has_def)

inductive depends :: "(nat \<Rightarrow> dependency_plan option) \<Rightarrow> nat \<Rightarrow> nat \<Rightarrow> bool" for plans where
  depends_self: "depends plans v v"
| depends_step: "plans v = Some plan \<Longrightarrow> d \<in> set (DependsOn plan) \<Longrightarrow> depends plans d w \<Longrightarrow> depends plans v w"

definition leaf_of :: "(nat \<Rightarrow> dependency_plan option) \<Rightarrow> nat \<Rightarrow> leaf \<Rightarrow> bool" where
  \<comment> \<open>x is an input of the parameter or of one it depends on, directly or not\<close>
  "leaf_of plans v x \<longleftrightarrow> (\<exists>w plan. depends plans v w \<and> plans w = Some plan \<and> inputs_has (Inputs plan) x)"

lemma leaf_of_step:
  assumes "plans v = Some plan"
  shows "leaf_of plans v x \<longleftrightarrow> inputs_has (Inputs plan) x \<or> (\<exists>d \<in> set (DependsOn plan). leaf_of plans d x)"
proof
  assume "leaf_of plans v x"
  then obtain w p where w: "depends plans v w" "plans w = Some p" "inputs_has (Inputs p) x" unfolding leaf_of_def by blast
  from w(1) show "inputs_has (Inputs plan) x \<or> (\<exists>d \<in> set (DependsOn plan). leaf_of plans d x)"
  proof (cases rule: depends.cases)
    case depends_self
    then show ?thesis using w assms by simp
  next
    case (depends_step plan' d)
    then show ?thesis using w assms unfolding leaf_of_def by (metis option.inject)
  qed
next
  assume "inputs_has (Inputs plan) x \<or> (\<exists>d \<in> set (DependsOn plan). leaf_of plans d x)"
  then show "leaf_of plans v x"
    unfolding leaf_of_def using assms depends_self depends_step [of plans v, OF assms] by blast
qed

definition cache_ok :: "(nat \<Rightarrow> dependency_plan option) \<Rightarrow> leaves_state \<Rightarrow> bool" where
  "cache_ok plans s \<longleftrightarrow> (\<forall>v. ls_mark s v = Visited \<longrightarrow> (\<forall>x. inputs_has (ls_cache s v) x \<longleftrightarrow> leaf_of plans v x))"

lemma visit_leaves_sound:
  "visit_leaves plans n p cur s = Some (Inr (leaves, s')) \<Longrightarrow> cache_ok plans s \<Longrightarrow>
    cache_ok plans s' \<and> (\<forall>x. inputs_has leaves x \<longleftrightarrow> leaf_of plans cur x)"
proof (induction n arbitrary: p cur s leaves s')
  case (Suc n)
  from Suc.prems(1) obtain plan where plan: "plans cur = Some plan" by (auto split: option.splits)
  show ?case
  proof (cases "ls_mark s cur")
    case Unvisited
    let ?f = "\<lambda>d (leaves, s). bind_run (visit_leaves plans n (Some cur) d s) (\<lambda>(dl, s). Some (Inr (union_inputs leaves dl, s)))"
    have fold: "cache_ok plans t' \<and> (\<forall>x. inputs_has l' x \<longleftrightarrow> inputs_has l x \<or> (\<exists>d \<in> set ds. leaf_of plans d x))"
      if "fold_run ?f ds (l, t) = Some (Inr (l', t'))" "cache_ok plans t" for ds l t l' t'
      using that
    proof (induction ds arbitrary: l t)
      case (Cons d ds)
      then obtain dl t1 where v: "visit_leaves plans n (Some cur) d t = Some (Inr (dl, t1))"
        "fold_run ?f ds (union_inputs l dl, t1) = Some (Inr (l', t'))"
        by (auto simp: bind_run_ok)
      from Suc.IH [OF v(1) Cons.prems(2)] Cons.IH [OF v(2)] show ?case by auto
    qed simp
    obtain l t where lt: "fold_run ?f (DependsOn plan) (Inputs plan, enter_leaves cur s) = Some (Inr (l, t))"
      "leaves = l" "s' = leave_leaves cur l t"
      using Suc.prems(1) plan Unvisited by (auto simp: bind_run_ok)
    have "cache_ok plans (enter_leaves cur s)" using Suc.prems(2) by (simp add: cache_ok_def enter_leaves_def)
    from fold [OF lt(1) this] leaf_of_step [of plans cur plan, OF plan] show ?thesis
      by (auto simp: lt(2,3) cache_ok_def leave_leaves_def)
  next
    case Visited
    then show ?thesis using Suc.prems plan by (auto simp: cache_ok_def)
  qed (use Suc.prems plan in simp)
qed simp

lemma ResolveLeaves_known:
  assumes "pid < 127"
  shows "\<exists>r. ResolveLeaves pid = Some (Inr r) \<and> (\<forall>x. inputs_has r x \<longleftrightarrow> leaf_of Plan pid x)"
proof -
  have plans: "map_of buildPlans = Plan" by (simp add: Plan_def fun_eq_iff)
  let ?s = "\<lparr>ls_mark = (\<lambda>_. Unvisited), ls_cache = (\<lambda>_. empty_inputs), ls_stack = []\<rparr>"
  have "{..<127} \<subseteq> dom (map_of buildPlans)" using Plan_known unfolding plans by auto
  then have "card {..<127::nat} \<le> card (dom (map_of buildPlans))" by (intro card_mono finite_dom_map_of)
  also have "\<dots> \<le> length buildPlans"
    using card_image_le [of "set buildPlans" fst] card_length [of buildPlans] by (simp add: dom_map_of_conv_image_fst)
  finally have fuel: "pid < length buildPlans + 1" using assms by simp
  have "\<exists>st. leaves_visit Plan (length buildPlans + 1) pid (empty_inputs, ?s) = Some (Inr st)"
  proof (rule leaves.visit_ranked)
    fix v ds d assume "map_option DependsOn (Plan v) = Some ds" "d \<in> set ds"
    then obtain plan where "Plan v = Some plan" "d \<in> set (DependsOn plan)" by auto
    moreover from this have "d < v" "v < 127" using Plan_down Plan_known [of v] by auto
    ultimately show "d < v \<and> map_option DependsOn (Plan d) \<noteq> None" using Plan_known [of d] by simp
  qed (use fuel assms Plan_known in \<open>auto simp: leaves_leave_def\<close>)
  then obtain st where "leaves_visit Plan (length buildPlans + 1) pid (empty_inputs, ?s) = Some (Inr st)" by blast
  then have "forget (ResolveLeaves pid) = Some (Inr (fst st))"
    by (simp add: ResolveLeaves_def resolveLeaves_visit plans)
  then have r: "ResolveLeaves pid = Some (Inr (fst st))" by simp
  then obtain s' where "visit_leaves Plan (length buildPlans + 1) None pid ?s = Some (Inr (fst st, s'))"
    by (auto simp: ResolveLeaves_def resolveLeaves_def bind_run_ok plans)
  from visit_leaves_sound [OF this] r show ?thesis by (auto simp: cache_ok_def)
qed

lemma RequiredInputs_leaves:
  "if list_all (\<lambda>pid. pid < ParameterCount) pids
   then \<exists>r. RequiredInputs pids = Some (Inr r) \<and> (\<forall>x. inputs_has r x \<longleftrightarrow> (\<exists>pid \<in> set pids. leaf_of Plan pid x))
   else \<exists>e. RequiredInputs pids = Some (Inl e)"
proof -
  let ?f = "\<lambda>pid required. bind_run (ResolveLeaves pid) (\<lambda>leaves. Some (Inr (union_inputs required leaves)))"
  have "if list_all (\<lambda>pid. pid < 127) pids
     then \<exists>r. fold_run ?f pids i = Some (Inr r) \<and> (\<forall>x. inputs_has r x \<longleftrightarrow> inputs_has i x \<or> (\<exists>pid \<in> set pids. leaf_of Plan pid x))
     else \<exists>e. fold_run ?f pids i = Some (Inl e)" for i
  proof (induction pids arbitrary: i)
    case (Cons pid pids)
    show ?case
    proof (cases "pid < 127")
      case True
      obtain r where "ResolveLeaves pid = Some (Inr r)" "\<forall>x. inputs_has r x \<longleftrightarrow> leaf_of Plan pid x"
        using ResolveLeaves_known [OF True] by blast
      then show ?thesis using Cons.IH [of "union_inputs i r"] True by auto
    next
      case False
      then have "map_of buildPlans pid = None" using Plan_known [of pid] by (simp add: Plan_def)
      then have "ResolveLeaves pid = Some (Inl (UnknownParameter pid))"
        by (simp add: ResolveLeaves_def resolveLeaves_def)
      then show ?thesis using False by simp
    qed
  qed simp
  from this [of empty_inputs] show ?thesis
    by (simp only: RequiredInputs_def ParameterCount_127 inputs_has_empty simp_thms)
qed

text \<open>The inputs required for a list of known parameters are exactly the leaves of
  their dependency graphs: nothing a requested parameter needs is missing and nothing else is asked
  of the plugins. For an unknown parameter the request is rejected.\<close>

theorem RequiredInputs_exact:
  "if list_all (\<lambda>pid. pid < ParameterCount) pids
   then \<exists>r. RequiredInputs pids = Some (Inr r) \<and> (\<forall>x. inputs_has r x \<longleftrightarrow> (\<exists>pid \<in> set pids. leaf_of Plan pid x))
   else \<exists>e. RequiredInputs pids = Some (Inl e)"
  by (rule RequiredInputs_leaves)

end
