(* ===== verification/Evaluator.thy ===== *)
theory Evaluator
  imports ParameterDeps Pipeline
begin

text \<open>
  internal/evaluator: compiling the requested parameters to a list of instructions in dependency
  order (plan.go), evaluating the list on a canonical frame (evaluate.go) and reading the snapshot
  that results (snapshot.go). Arrays indexed by parameter are functions.
\<close>

unbundle bit_operations_syntax

section \<open>Parameter sets and snapshots\<close>

record parameter_words = \<comment> \<open>the array [2]uint64\<close>
  Word0 :: u64
  Word1 :: u64

definition no_parameters :: parameter_words where "no_parameters = \<lparr>Word0 = 0, Word1 = 0\<rparr>"

definition set_add :: "nat \<Rightarrow> parameter_words \<Rightarrow> parameter_words" where
  "set_add pid s = (if pid div 64 = 0 then s\<lparr>Word0 := Word0 s OR push_bit (pid mod 64) 1\<rparr>
     else s\<lparr>Word1 := Word1 s OR push_bit (pid mod 64) 1\<rparr>)"

definition set_has :: "parameter_words \<Rightarrow> nat \<Rightarrow> bool" where
  "set_has s pid \<longleftrightarrow> pid < ParameterCount \<and> (if pid div 64 = 0 then Word0 s else Word1 s) AND push_bit (pid mod 64) 1 \<noteq> 0"

definition setValid :: "nat \<Rightarrow> parameter_words \<Rightarrow> parameter_words" where
  "setValid pid bits = (if pid div 64 = 0 then bits\<lparr>Word0 := Word0 bits OR push_bit (pid mod 64) 1\<rparr>
     else bits\<lparr>Word1 := Word1 bits OR push_bit (pid mod 64) 1\<rparr>)"

definition valid_bit :: "parameter_words \<Rightarrow> nat \<Rightarrow> bool" where
  "valid_bit bits pid \<longleftrightarrow> pid < ParameterCount \<and> (if pid div 64 = 0 then Word0 bits else Word1 bits) AND push_bit (pid mod 64) 1 \<noteq> 0"

record snapshot =
  floats :: "nat \<Rightarrow> float32"
  bools :: "nat \<Rightarrow> bool"
  floatValid :: parameter_words
  boolValid :: parameter_words

definition empty_snapshot :: snapshot where
  "empty_snapshot = \<lparr>floats = (\<lambda>_. zero32), bools = (\<lambda>_. False), floatValid = no_parameters, boolValid = no_parameters\<rparr>"

definition snapshot_Float :: "snapshot \<Rightarrow> nat \<Rightarrow> float32 \<times> bool" where
  "snapshot_Float s pid = (case Definition pid of None \<Rightarrow> (zero32, False)
   | Some definition \<Rightarrow> if pd_ValueType definition \<noteq> ValueFloat \<or> \<not> valid_bit (floatValid s) pid then (zero32, False)
     else (floats s pid, True))"

definition snapshot_Bool :: "snapshot \<Rightarrow> nat \<Rightarrow> bool \<times> bool" where
  "snapshot_Bool s pid = (case Definition pid of None \<Rightarrow> (False, False)
   | Some definition \<Rightarrow> if pd_ValueType definition \<noteq> ValueBool \<or> \<not> valid_bit (boolValid s) pid then (False, False)
     else (bools s pid, True))"

section \<open>Compiling\<close>

datatype operand = OperandEye eye_field | OperandExpression nat | OperandActive active_state | OperandParameter nat

record instruction =
  ins_parameter :: nat
  ins_valueType :: value_type
  ins_operation :: operation
  operands :: "operand list"

record eval_plan =
  requested :: parameter_words
  instructions :: "instruction list"

datatype compile_error = ErrUnknownParameter nat | ErrMissingPlan nat | ErrDependencyCycle "nat list" | ErrInvalidOperation

definition enumerateOperands :: "dependency_plan \<Rightarrow> operand list" where
  "enumerateOperands plan =
     map OperandEye (filter (eye_fields_has (in_Eye (Inputs plan))) [EyeFieldLeftGazeX..<EyeFieldRightPupilDilation + 1]) @
     map OperandExpression (filter (mask_has (in_Expressions (Inputs plan))) [0..<ExpressionCount]) @
     map OperandActive (filter (active_states_has (in_Active (Inputs plan))) [ActiveStateEyeTracking..<ActiveStateLipTracking + 1]) @
     map OperandParameter (DependsOn plan)"

definition valueTypeOf :: "operand \<Rightarrow> value_type \<times> bool" where
  "valueTypeOf current = (case current of
     OperandEye _ \<Rightarrow> (ValueFloat, True) | OperandExpression _ \<Rightarrow> (ValueFloat, True) | OperandActive _ \<Rightarrow> (ValueBool, True)
   | OperandParameter pid \<Rightarrow> (case Definition pid of None \<Rightarrow> (0, False) | Some definition \<Rightarrow> (pd_ValueType definition, True)))"

definition is_parameter :: "operand \<Rightarrow> bool" where
  "is_parameter current = (case current of OperandParameter _ \<Rightarrow> True | _ \<Rightarrow> False)"

definition operation_arity :: "operation \<Rightarrow> operand list \<Rightarrow> (compile_error, unit) result" where
  \<comment> \<open>the switch of validateInstruction on the operation\<close>
  "operation_arity oper ops =
    (if oper = OperationDirect then
       guard_result (length ops \<noteq> 1) ErrInvalidOperation (guard_result (is_parameter (hd ops)) ErrInvalidOperation (Inr ()))
     else if oper = OperationAverage \<or> oper = OperationMax \<or> oper = OperationSumClamp then
       guard_result (length ops = 0) ErrInvalidOperation (Inr ())
     else if oper = OperationSignedPair then guard_result (length ops < 2) ErrInvalidOperation (Inr ())
     else Inl ErrInvalidOperation)"

definition validateInstruction :: "parameter_definition \<Rightarrow> operation \<Rightarrow> operand list \<Rightarrow> (compile_error, unit) result" where
  "validateInstruction definition oper ops =
     guard_result (pd_ValueType definition \<noteq> ValueFloat \<and> pd_ValueType definition \<noteq> ValueBool) ErrInvalidOperation
    (bind_result (operation_arity oper ops) (\<lambda>_.
     guard_result (pd_ValueType definition = ValueBool \<and> oper \<noteq> OperationDirect) ErrInvalidOperation
    (guard_result (list_ex (\<lambda>current. \<not> snd (valueTypeOf current) \<or> fst (valueTypeOf current) \<noteq> pd_ValueType definition) ops)
       ErrInvalidOperation (Inr ()))))"

record compile_state =
  cs_states :: "nat \<Rightarrow> visit_mark"
  cs_stack :: "nat list"
  cs_instructions :: "instruction list"

definition formatCycle :: "nat list \<Rightarrow> nat \<Rightarrow> nat list" where
  \<comment> \<open>the identifiers of the message, in order\<close>
  "formatCycle stack repeated = dropWhile (\<lambda>x. x \<noteq> repeated) stack @ [repeated]"

definition compile_enter :: "nat \<Rightarrow> compile_state \<Rightarrow> compile_state" where
  "compile_enter pid s = s\<lparr>cs_states := (cs_states s)(pid := Visiting), cs_stack := cs_stack s @ [pid]\<rparr>"

definition compile_leave :: "parameter_definition \<Rightarrow> dependency_plan \<Rightarrow> nat \<Rightarrow> compile_state \<Rightarrow> (compile_error, compile_state) result" where
  \<comment> \<open>visit, after the dependencies\<close>
  "compile_leave definition plan pid s = (let ops = enumerateOperands plan in
     bind_result (validateInstruction definition (Operation plan) ops) (\<lambda>_.
       Inr (s\<lparr>cs_instructions := cs_instructions s @ [\<lparr>ins_parameter = pid, ins_valueType = pd_ValueType definition,
              ins_operation = Operation plan, operands = ops\<rparr>],
            cs_stack := butlast (cs_stack s), cs_states := (cs_states s)(pid := Visited)\<rparr>)))"

fun compile_visit :: "(nat \<Rightarrow> dependency_plan option) \<Rightarrow> nat \<Rightarrow> nat \<Rightarrow> compile_state \<Rightarrow> (compile_error, compile_state) run" where
  "compile_visit lookup 0 pid s = None"
| "compile_visit lookup (Suc fuel) pid s = (case Definition pid of
     None \<Rightarrow> Some (Inl (ErrUnknownParameter pid))
   | Some definition \<Rightarrow> (case cs_states s pid of
       Visiting \<Rightarrow> Some (Inl (ErrDependencyCycle (formatCycle (cs_stack s) pid)))
     | Visited \<Rightarrow> Some (Inr s)
     | Unvisited \<Rightarrow> (case lookup pid of
         None \<Rightarrow> Some (Inl (ErrMissingPlan pid))
       | Some plan \<Rightarrow> bind_run (fold_run (compile_visit lookup fuel) (DependsOn plan) (compile_enter pid s))
           (\<lambda>s. Some (compile_leave definition plan pid s)))))"

definition compileWithPlans :: "nat list \<Rightarrow> (nat \<Rightarrow> dependency_plan option) \<Rightarrow> (compile_error, eval_plan) run" where
  \<comment> \<open>with fuel for one more call than there are parameters\<close>
  "compileWithPlans pids lookup =
     bind_run (fold_run (\<lambda>pid s. Some (case Definition pid of None \<Rightarrow> Inl (ErrUnknownParameter pid) | Some _ \<Rightarrow> Inr (set_add pid s)))
       pids no_parameters) (\<lambda>requestedSet.
     if length pids = 0 then Some (Inr \<lparr>requested = requestedSet, instructions = []\<rparr>)
     else bind_run (fold_run (\<lambda>pid s. if set_has requestedSet pid then compile_visit lookup (ParameterCount + 1) pid s else Some (Inr s))
         [0..<ParameterCount] \<lparr>cs_states = (\<lambda>_. Unvisited), cs_stack = [], cs_instructions = []\<rparr>)
       (\<lambda>s. Some (Inr \<lparr>requested = requestedSet, instructions = cs_instructions s\<rparr>)))"

definition Compile :: "nat list \<Rightarrow> (compile_error, eval_plan) run" where
  "Compile pids = compileWithPlans pids Plan"

section \<open>Evaluating\<close>

definition eyeValue :: "eye_sample \<Rightarrow> eye_field \<Rightarrow> float32 \<times> bool" where
  "eyeValue eye field =
    (if field = EyeFieldLeftGazeX then (X (LeftGaze eye), eye_Valid eye AND EyeValidLeftGaze \<noteq> 0)
     else if field = EyeFieldLeftGazeY then (Y (LeftGaze eye), eye_Valid eye AND EyeValidLeftGaze \<noteq> 0)
     else if field = EyeFieldRightGazeX then (X (RightGaze eye), eye_Valid eye AND EyeValidRightGaze \<noteq> 0)
     else if field = EyeFieldRightGazeY then (Y (RightGaze eye), eye_Valid eye AND EyeValidRightGaze \<noteq> 0)
     else if field = EyeFieldLeftOpenness then (LeftOpenness eye, eye_Valid eye AND EyeValidLeftOpenness \<noteq> 0)
     else if field = EyeFieldRightOpenness then (RightOpenness eye, eye_Valid eye AND EyeValidRightOpenness \<noteq> 0)
     else if field = EyeFieldLeftPupilDiameter then (LeftPupilDiameterMM eye, eye_Valid eye AND EyeValidLeftPupil \<noteq> 0)
     else if field = EyeFieldRightPupilDiameter then (RightPupilDiameterMM eye, eye_Valid eye AND EyeValidRightPupil \<noteq> 0)
     else if field = EyeFieldLeftPupilDilation then (LeftPupilDilation eye, eye_Valid eye AND EyeValidLeftPupil \<noteq> 0)
     else if field = EyeFieldRightPupilDilation then (RightPupilDilation eye, eye_Valid eye AND EyeValidRightPupil \<noteq> 0)
     else (zero32, False))"

definition floatOperandValue :: "operand \<Rightarrow> canonical_frame \<Rightarrow> (nat \<Rightarrow> float32) \<Rightarrow> parameter_words \<Rightarrow> float32 \<times> bool" where
  "floatOperandValue current cf fs fv = (case current of
     OperandEye field \<Rightarrow> eyeValue (cf_Eye cf) field
   | OperandExpression e \<Rightarrow> exp_get (cf_Expressions cf) e
   | OperandParameter pid \<Rightarrow> if \<not> valid_bit fv pid then (zero32, False) else (fs pid, True)
   | OperandActive _ \<Rightarrow> (zero32, False))"

definition boolOperandValue :: "operand \<Rightarrow> canonical_frame \<Rightarrow> (nat \<Rightarrow> bool) \<Rightarrow> parameter_words \<Rightarrow> bool \<times> bool" where
  "boolOperandValue current cf bs bv = (case current of
     OperandActive a \<Rightarrow>
       if a = ActiveStateEyeTracking then (EyeActive cf, True)
       else if a = ActiveStateExpressionTracking then (ExpressionActive cf, True)
       else if a = ActiveStateLipTracking then (LipActive cf, True) else (False, False)
   | OperandParameter pid \<Rightarrow> if \<not> valid_bit bv pid then (False, False) else (bs pid, True)
   | _ \<Rightarrow> (False, False))"

definition operand_step :: "operation \<Rightarrow> nat \<Rightarrow> nat \<Rightarrow> float32 \<Rightarrow> float32 \<Rightarrow> float32" where
  \<comment> \<open>the switch of evaluateFloat's loop, at one of n operands\<close>
  "operand_step oper n index v res =
    (if oper = OperationDirect then v
     else if oper = OperationAverage \<or> oper = OperationSumClamp then add32 res v
     else if oper = OperationMax then (if index = 0 \<or> lt32 res v then v else res)
     else if oper = OperationSignedPair then
       (if index + 1 = n then sub32 res v else if index = 0 \<or> lt32 res v then v else res)
     else res)"

fun operand_loop :: "operation \<Rightarrow> nat \<Rightarrow> nat \<Rightarrow> (float32 \<times> bool) list \<Rightarrow> float32 \<Rightarrow> float32 option" where
  \<comment> \<open>the loop from index on; the operand values are read as they are reached\<close>
  "operand_loop oper n index [] res = Some res"
| "operand_loop oper n index (v # vs) res =
    (if \<not> snd v \<or> \<not> finite32 (fst v) then None
     else operand_loop oper n (index + 1) vs (operand_step oper n index (fst v) res))"

definition finish_float :: "operation \<Rightarrow> nat \<Rightarrow> nat \<Rightarrow> float32 \<Rightarrow> float32 \<times> bool" where
  \<comment> \<open>evaluateFloat after the loop\<close>
  "finish_float oper n pid res =
    (let res = (if oper = OperationAverage then div32 res (float32_of_int (int n)) else res) in
     if \<not> finite32 res then (zero32, False)
     else case Clamp pid res of (clamped, ok) \<Rightarrow> if \<not> ok \<or> \<not> finite32 clamped then (zero32, False) else (clamped, True))"

definition evaluateFloat :: "instruction \<Rightarrow> canonical_frame \<Rightarrow> (nat \<Rightarrow> float32) \<Rightarrow> parameter_words \<Rightarrow> float32 \<times> bool" where
  "evaluateFloat current cf fs fv =
    (case operand_loop (ins_operation current) (length (operands current)) 0
        (map (\<lambda>op. floatOperandValue op cf fs fv) (operands current)) zero32 of
       None \<Rightarrow> (zero32, False)
     | Some res \<Rightarrow> finish_float (ins_operation current) (length (operands current)) (ins_parameter current) res)"

definition eval_step :: "canonical_frame \<Rightarrow> snapshot \<Rightarrow> instruction \<Rightarrow> snapshot" where
  \<comment> \<open>the body of Evaluate's first loop on the working arrays\<close>
  "eval_step cf s current =
    (if ins_valueType current = ValueFloat then
       (case evaluateFloat current cf (floats s) (floatValid s) of
          (v, ok) \<Rightarrow> if \<not> ok then s else s\<lparr>floats := (floats s)(ins_parameter current := v),
            floatValid := setValid (ins_parameter current) (floatValid s)\<rparr>)
     else if ins_valueType current = ValueBool then
       (case boolOperandValue (hd (operands current)) cf (bools s) (boolValid s) of
          (v, ok) \<Rightarrow> if \<not> ok then s else s\<lparr>bools := (bools s)(ins_parameter current := v),
            boolValid := setValid (ins_parameter current) (boolValid s)\<rparr>)
     else s)"

definition snapshot_step :: "eval_plan \<Rightarrow> snapshot \<Rightarrow> nat \<Rightarrow> snapshot \<Rightarrow> snapshot" where
  \<comment> \<open>the body of its second loop, copying from the working arrays\<close>
  "snapshot_step p w pid s =
    (if \<not> set_has (requested p) pid then s
     else if pd_ValueType (Definitions ! pid) = ValueFloat then
       (if valid_bit (floatValid w) pid then s\<lparr>floats := (floats s)(pid := floats w pid), floatValid := setValid pid (floatValid s)\<rparr> else s)
     else if pd_ValueType (Definitions ! pid) = ValueBool then
       (if valid_bit (boolValid w) pid then s\<lparr>bools := (bools s)(pid := bools w pid), boolValid := setValid pid (boolValid s)\<rparr> else s)
     else s)"

definition Evaluate :: "eval_plan \<Rightarrow> canonical_frame \<Rightarrow> snapshot" where
  "Evaluate p cf = (let w = foldl (eval_step cf) empty_snapshot (instructions p) in
     fold (snapshot_step p w) [0..<ParameterCount] empty_snapshot)"


section \<open>Sets and traversal are instances of the shared contracts\<close>

lemma word_test: "(pid :: nat) mod 64 < 64" by simp

interpretation parameter_set: bit_set no_parameters set_add set_has "\<lambda>pid. pid < 127"
proof
  fix i j :: nat and m
  assume "i < 127"
  moreover have "i = j" if "i mod 64 = j mod 64" "i div 64 = j div 64" using that by (metis div_mult_mod_eq)
  moreover have "i div 64 = 0 \<or> i div 64 = 1" using \<open>i < 127\<close> by auto
  moreover have "j < 127 \<Longrightarrow> j div 64 = 0 \<or> j div 64 = 1" by auto
  ultimately show "set_has (set_add i m) j \<longleftrightarrow> j = i \<or> set_has m j"
    by (auto simp: set_has_def set_add_def bit_simps)
qed (simp add: set_has_def no_parameters_def)

lemma valid_is_set: "valid_bit = set_has" "setValid = set_add"
  by (simp_all add: fun_eq_iff valid_bit_def set_has_def setValid_def set_add_def)

interpretation validity: bit_set no_parameters setValid valid_bit "\<lambda>pid. pid < 127"
  unfolding valid_is_set by (rule parameter_set.bit_set_axioms)

definition compile_succs :: "(nat \<Rightarrow> dependency_plan option) \<Rightarrow> nat \<Rightarrow> nat list option" where
  "compile_succs lookup pid = (if pid < 127 then map_option DependsOn (lookup pid) else None)"

definition compile_end :: "(nat \<Rightarrow> dependency_plan option) \<Rightarrow> nat \<Rightarrow> compile_state \<Rightarrow> compile_state \<Rightarrow> (compile_error, compile_state) result" where
  "compile_end lookup pid s0 s = (case lookup pid of None \<Rightarrow> Inl (ErrMissingPlan pid)
     | Some plan \<Rightarrow> compile_leave (Definitions ! pid) plan pid s)"

lemma Definition_simps [simp]: "pid < 127 \<Longrightarrow> Definition pid = Some (Definitions ! pid)" "\<not> pid < 127 \<Longrightarrow> Definition pid = None"
  by (simp_all add: Definition_def)

text \<open>A visited parameter without a plan cannot be reached, but the traversal contract asks: the
  lookup is looked at before the mark.\<close>

lemma compile_visit_unvisited:
  "cs_states s pid = Unvisited \<Longrightarrow> compile_succs lookup pid = Some ds \<Longrightarrow>
    compile_visit lookup (Suc n) pid s =
      bind_run (fold_run (compile_visit lookup n) ds (compile_enter pid s)) (\<lambda>s'. Some (compile_end lookup pid s s'))"
  by (auto simp: compile_succs_def compile_end_def split: if_splits)

interpretation compiling: depth_first "compile_visit lookup" compile_enter "compile_end lookup" cs_states "compile_succs lookup" for lookup
proof
  show "\<exists>e. compile_visit lookup (Suc n) cur s = Some (Inl e)"
    if "cs_states s cur = Visiting \<or> cs_states s cur = Unvisited \<and> compile_succs lookup cur = None" for s cur n
    using that by (auto simp: compile_succs_def split: if_splits visit_mark.splits)
qed (auto simp: compile_visit_unvisited compile_succs_def compile_end_def compile_leave_def compile_enter_def bind_result_Inr Let_def
  split: if_splits option.splits)


section \<open>The instruction list\<close>

definition instruction_for :: "nat \<Rightarrow> dependency_plan \<Rightarrow> instruction" where
  "instruction_for pid plan = \<lparr>ins_parameter = pid, ins_valueType = pd_ValueType (Definitions ! pid),
     ins_operation = Operation plan, operands = enumerateOperands plan\<rparr>"

lemma instruction_for_simps [simp]:
  "ins_parameter (instruction_for pid plan) = pid"
  "ins_valueType (instruction_for pid plan) = pd_ValueType (Definitions ! pid)"
  "ins_operation (instruction_for pid plan) = Operation plan"
  "operands (instruction_for pid plan) = enumerateOperands plan"
  by (simp_all add: instruction_for_def)

abbreviation produced :: "instruction list \<Rightarrow> nat set" where
  "produced is \<equiv> ins_parameter ` set is"

inductive ordered :: "(nat \<Rightarrow> dependency_plan option) \<Rightarrow> instruction list \<Rightarrow> bool" for lookup where
  ordered_nil: "ordered lookup []"
| ordered_snoc: "ordered lookup is \<Longrightarrow> pid < 127 \<Longrightarrow> lookup pid = Some plan \<Longrightarrow>
    validateInstruction (Definitions ! pid) (Operation plan) (enumerateOperands plan) = Inr () \<Longrightarrow>
    set (DependsOn plan) \<subseteq> produced is \<Longrightarrow> pid \<notin> produced is \<Longrightarrow> ordered lookup (is @ [instruction_for pid plan])"

definition compile_ok :: "(nat \<Rightarrow> dependency_plan option) \<Rightarrow> compile_state \<Rightarrow> bool" where
  "compile_ok lookup s \<longleftrightarrow> ordered lookup (cs_instructions s) \<and> (\<forall>v. cs_states s v = Visited \<longleftrightarrow> v \<in> produced (cs_instructions s))"

lemma compile_visit_ok:
  assumes "compile_visit lookup n pid s = Some (Inr s')" "compile_ok lookup s"
  shows "compile_ok lookup s'"
proof (rule compiling.visit_invariant [where P = "compile_ok lookup", OF _ _ _ assms])
  fix n cur s s'
  assume "compile_ok lookup s" "cs_states s cur = Visited" "compile_visit lookup (Suc n) cur s = Some (Inr s')"
  then show "compile_ok lookup s'" by (auto split: option.splits)
next
  fix cur s ds
  assume ok: "compile_ok lookup s" and u: "cs_states s cur = Unvisited"
  then have "cur \<notin> produced (cs_instructions s)" unfolding compile_ok_def by (metis visit_mark.distinct(3))
  then show "compile_ok lookup (compile_enter cur s)"
    using ok by (auto simp: compile_ok_def compile_enter_def)
next
  fix cur s s1 s2 ds
  assume ok: "compile_ok lookup s1" and ds: "compile_succs lookup cur = Some ds" "\<forall>d \<in> set ds. cs_states s1 d = Visited"
    and cur: "cs_states s1 cur = Visiting" and "compile_end lookup cur s s1 = Inr s2"
  then obtain plan where plan: "cur < 127" "lookup cur = Some plan" "ds = DependsOn plan"
    "validateInstruction (Definitions ! cur) (Operation plan) (enumerateOperands plan) = Inr ()"
    "cs_instructions s2 = cs_instructions s1 @ [instruction_for cur plan]" "cs_states s2 = (cs_states s1)(cur := Visited)"
    by (auto simp: compile_succs_def compile_end_def compile_leave_def instruction_for_def bind_result_Inr Let_def split: if_splits)
  have "ordered lookup (cs_instructions s2)" unfolding plan(5)
  proof (rule ordered_snoc)
    show "cur \<notin> produced (cs_instructions s1)" using ok cur unfolding compile_ok_def by (metis visit_mark.distinct(5))
    show "set (DependsOn plan) \<subseteq> produced (cs_instructions s1)" using ok ds(2) plan(3) unfolding compile_ok_def by blast
  qed (use ok plan in \<open>simp_all add: compile_ok_def\<close>)
  then show "compile_ok lookup s2" using ok plan(5,6) by (auto simp: compile_ok_def instruction_for_def)
qed

lemma compile_terminates_visit: "compile_visit lookup 128 pid s \<noteq> None"
proof (rule compiling.visit_terminates)
  have sub: "{v. compile_succs lookup v \<noteq> None} \<subseteq> {..<127}" by (auto simp: compile_succs_def split: if_splits)
  then show "finite {v. compile_succs lookup v \<noteq> None}" by (rule finite_subset) simp
  have "{v. compile_succs lookup v \<noteq> None \<and> cs_states s v \<noteq> Visiting} \<subseteq> {..<127}" using sub by auto
  then have "card {v. compile_succs lookup v \<noteq> None \<and> cs_states s v \<noteq> Visiting} \<le> card {..<127::nat}" by (intro card_mono) auto
  then show "card {v. compile_succs lookup v \<noteq> None \<and> cs_states s v \<noteq> Visiting} < 128" by simp
qed

lemma requested_loop:
  "fold_run (\<lambda>pid s. Some (case Definition pid of None \<Rightarrow> Inl (ErrUnknownParameter pid) | Some _ \<Rightarrow> Inr (set_add pid s))) pids s =
    (if list_all (\<lambda>pid. pid < 127) pids then Some (Inr (fold set_add pids s))
     else Some (Inl (ErrUnknownParameter (hd (filter (\<lambda>pid. \<not> pid < 127) pids)))))"
proof (induction pids arbitrary: s)
  case (Cons pid pids)
  then show ?case by (cases "pid < 127") auto
qed simp

text \<open>C39 (termination). Compilation always ends, for every list of parameters and every dependency
  lookup, cyclic ones included.\<close>

theorem compileWithPlans_terminates: "compileWithPlans pids lookup \<noteq> None"
proof -
  have "fold_run (\<lambda>pid s. if set_has r pid then compile_visit lookup (ParameterCount + 1) pid s else Some (Inr s)) ps s \<noteq> None" for r ps s
    by (rule fold_run_not_None [where P = "\<lambda>_. True"]) (use compile_terminates_visit in simp_all)
  then show ?thesis
    unfolding compileWithPlans_def by (auto simp: requested_loop bind_run_None simp del: not_None_eq ParameterCount_127)
qed

lemma compile_loop_ok:
  assumes "fold_run (\<lambda>pid s. if set_has r pid then compile_visit lookup k pid s else Some (Inr s)) ps s = Some (Inr s')"
    and "compile_ok lookup s"
  shows "compile_ok lookup s' \<and> (\<forall>pid \<in> set ps. set_has r pid \<longrightarrow> cs_states s' pid = Visited) \<and>
    (\<forall>v. cs_states s v = Visited \<longrightarrow> cs_states s' v = Visited)"
  using assms
proof (induction ps arbitrary: s)
  case (Cons pid ps)
  then obtain t where t: "(if set_has r pid then compile_visit lookup k pid s else Some (Inr s)) = Some (Inr t)"
    "fold_run (\<lambda>pid s. if set_has r pid then compile_visit lookup k pid s else Some (Inr s)) ps t = Some (Inr s')"
    by (auto simp: bind_run_ok)
  have "compile_ok lookup t" using t(1) Cons.prems(2) compile_visit_ok by (auto split: if_splits)
  note IH = Cons.IH [OF t(2) this]
  have "(set_has r pid \<longrightarrow> cs_states t pid = Visited) \<and> (\<forall>v. cs_states s v = Visited \<longrightarrow> cs_states t v = Visited)"
    using t(1) compiling.visit_marks [of lookup k pid s t] by (auto split: if_splits dest: spec) (metis visit_mark.distinct(3))
  then show ?case using IH by auto
qed simp

lemma compile_sound:
  assumes "compileWithPlans pids lookup = Some (Inr p)"
  shows "ordered lookup (instructions p) \<and> set pids \<subseteq> produced (instructions p) \<and>
    (\<forall>pid. set_has (requested p) pid = (pid \<in> set pids))"
proof -
  have known: "list_all (\<lambda>pid. pid < 127) pids"
    using assms by (auto simp: compileWithPlans_def requested_loop split: if_splits)
  define r where "r = fold set_add pids no_parameters"
  have has: "set_has r pid = (pid \<in> set pids)" for pid
    unfolding r_def using known by (intro parameter_set.has_fold_empty) (simp add: list_all_iff)
  show ?thesis
  proof (cases "pids = []")
    case True
    then show ?thesis using assms has by (auto simp: compileWithPlans_def requested_loop r_def intro: ordered_nil)
  next
    case False
    let ?s = "\<lparr>cs_states = (\<lambda>_. Unvisited), cs_stack = [], cs_instructions = []\<rparr>"
    obtain s where s: "fold_run (\<lambda>pid s. if set_has r pid then compile_visit lookup (ParameterCount + 1) pid s else Some (Inr s)) [0..<127] ?s = Some (Inr s)"
      "p = \<lparr>requested = r, instructions = cs_instructions s\<rparr>"
      using assms known False by (auto simp: compileWithPlans_def requested_loop r_def bind_run_ok)
    have "compile_ok lookup ?s" by (auto simp: compile_ok_def intro: ordered_nil)
    from compile_loop_ok [OF s(1) this] has known show ?thesis
      unfolding s(2) compile_ok_def list_all_iff by auto
  qed
qed

text \<open>A compiled plan is executable in order, whatever the lookup: each instruction
  is that of its parameter's plan and has passed validation, no parameter is computed twice, every
  parameter an instruction reads is computed before it, and every requested parameter is computed.\<close>

theorem compile_ordered:
  assumes "compileWithPlans pids lookup = Some (Inr p)"
  shows "ordered lookup (instructions p) \<and> set pids \<subseteq> produced (instructions p) \<and>
    (\<forall>pid. set_has (requested p) pid = (pid \<in> set pids))"
  using assms by (rule compile_sound)


section \<open>The shipped plans compile\<close>

lemma Definitions_types: "map pd_ValueType Definitions = replicate 124 ValueFloat @ replicate 3 ValueBool"
  by code_simp

lemma definition_type: "pid < 127 \<Longrightarrow> pd_ValueType (Definitions ! pid) = (if pid < 124 then ValueFloat else ValueBool)"
proof -
  assume pid: "pid < 127"
  have "map pd_ValueType Definitions ! pid = (if pid < 124 then ValueFloat else ValueBool)"
    unfolding Definitions_types nth_append using pid by simp
  then show ?thesis using pid by (simp add: Definitions_length)
qed

lemma value_types_differ [simp]: "ValueFloat \<noteq> ValueBool" "ValueBool \<noteq> ValueFloat"
  by (simp_all add: ValueFloat_def ValueBool_def)

lemma enumerate_derived:
  "Inputs plan = empty_inputs \<Longrightarrow> enumerateOperands plan = map OperandParameter (DependsOn plan)"
  using inputs_has_empty [of "EyeLeaf f" for f] inputs_has_empty [of "ExpressionLeaf e" for e] inputs_has_empty [of "ActiveLeaf a" for a]
  by (simp add: enumerateOperands_def filter_empty_conv)

lemma filter_one: "k < n \<Longrightarrow> filter (\<lambda>i. i = k) [0..<n] = [k]"
proof (induction n)
  case (Suc n)
  then show ?case by (cases "k = n") (auto simp: filter_empty_conv)
qed simp

lemma enumerate_expression:
  assumes "eid < 76"
  shows "enumerateOperands (expression_plan eid) = [OperandExpression eid]"
proof -
  have "\<not> eye_fields_has 0 f" "\<not> active_states_has 0 a" for f a
    by (simp_all add: eye_fields_has_def active_states_has_def)
  moreover have "mask_has (ExpressionMaskOf [eid] empty_mask) = (\<lambda>i. i = eid)"
    using assms expression_bits.has_add [of eid empty_mask] expression_bits.has_empty by (auto simp: fun_eq_iff)
  ultimately show ?thesis
    using filter_one [OF assms] by (simp add: enumerateOperands_def expression_plan_def empty_inputs_def filter_empty_conv)
qed

definition derived_valid :: "nat \<times> dependency_plan \<Rightarrow> bool" where
  "derived_valid = (\<lambda>(pid, plan). Inputs plan = empty_inputs \<and> pid < 124 \<and> list_all (\<lambda>d. d < 124) (DependsOn plan) \<and>
     Operation plan \<in> {OperationAverage, OperationMax, OperationSignedPair, OperationSumClamp} \<and> 2 \<le> length (DependsOn plan))"

lemma derived_valid: "list_all derived_valid derived_plans"
  by (simp add: derived_plans_def derived_def parameter_ids derived_valid_def)

definition direct_operands :: "dependency_plan \<Rightarrow> operand list" where
  "direct_operands plan = map OperandEye (filter (eye_fields_has (in_Eye (Inputs plan))) [1..<11]) @
     map OperandActive (filter (active_states_has (in_Active (Inputs plan))) [1..<4])"

lemma direct_checked:
  "list_all (\<lambda>(pid, plan). in_Expressions (Inputs plan) = empty_mask \<and> DependsOn plan = [] \<and>
     operation_arity (Operation plan) (direct_operands plan) = Inr () \<and>
     list_all (\<lambda>x. valueTypeOf x = (if pid < 124 then ValueFloat else ValueBool, True)) (direct_operands plan) \<and>
     (124 \<le> pid \<longrightarrow> Operation plan = OperationDirect \<and> direct_operands plan = [OperandActive (pid - 123)])) direct_plans"
  by code_simp

lemma direct_enumerate: "(pid, plan) \<in> set direct_plans \<Longrightarrow> enumerateOperands plan = direct_operands plan"
proof -
  assume "(pid, plan) \<in> set direct_plans"
  then have d: "in_Expressions (Inputs plan) = empty_mask" "DependsOn plan = []" using direct_checked by (auto simp: list_all_iff)
  then have "filter (mask_has (in_Expressions (Inputs plan))) [0..<76] = []"
    using expression_bits.has_empty by (simp add: filter_empty_conv)
  then show ?thesis
    using d(2) unfolding enumerateOperands_def direct_operands_def eye_field_defs active_state_defs ExpressionCount_simps by simp
qed

lemma operations_differ [simp]:
  "OperationDirect \<noteq> OperationAverage" "OperationDirect \<noteq> OperationMax" "OperationDirect \<noteq> OperationSignedPair" "OperationDirect \<noteq> OperationSumClamp"
  "OperationAverage \<noteq> OperationDirect" "OperationMax \<noteq> OperationDirect" "OperationSignedPair \<noteq> OperationDirect" "OperationSumClamp \<noteq> OperationDirect"
  "OperationAverage \<noteq> OperationMax" "OperationAverage \<noteq> OperationSignedPair" "OperationAverage \<noteq> OperationSumClamp"
  "OperationMax \<noteq> OperationAverage" "OperationMax \<noteq> OperationSignedPair" "OperationMax \<noteq> OperationSumClamp"
  "OperationSignedPair \<noteq> OperationAverage" "OperationSignedPair \<noteq> OperationMax" "OperationSignedPair \<noteq> OperationSumClamp"
  "OperationSumClamp \<noteq> OperationAverage" "OperationSumClamp \<noteq> OperationMax" "OperationSumClamp \<noteq> OperationSignedPair"
  by (simp_all add: OperationDirect_def OperationAverage_def OperationMax_def OperationSignedPair_def OperationSumClamp_def)

text \<open>The three kinds of shipped plans.\<close>

lemma Plan_kinds:
  assumes "Plan pid = Some plan"
  obtains (derived) "derived_valid (pid, plan)"
  | (expression) "expression_parameter pid" "plan = expression_plan (parameter_expression pid)"
  | (direct) "(pid, plan) \<in> set direct_plans"
  using assms derived_valid unfolding Plan_at list_all_iff
  by (auto dest: Plan_derived Plan_direct split: option.splits if_splits)

lemma shipped_valid:
  assumes "Plan pid = Some plan"
  shows "validateInstruction (Definitions ! pid) (Operation plan) (enumerateOperands plan) = Inr ()"
  using assms
proof (cases rule: Plan_kinds)
  case derived
  then have d: "Inputs plan = empty_inputs" "pid < 124" "\<forall>d \<in> set (DependsOn plan). d < 124" "2 \<le> length (DependsOn plan)"
    "Operation plan \<in> {OperationAverage, OperationMax, OperationSignedPair, OperationSumClamp}"
    by (auto simp: derived_valid_def list_all_iff)
  have "\<not> list_ex (\<lambda>current. \<not> snd (valueTypeOf current) \<or> fst (valueTypeOf current) \<noteq> ValueFloat) (map OperandParameter (DependsOn plan))"
    using d(3) definition_type by (auto simp: list_ex_iff valueTypeOf_def)
  moreover have "DependsOn plan \<noteq> []" using d(4) by auto
  ultimately show ?thesis
    using d(2,4,5) definition_type [of pid]
    by (auto simp: validateInstruction_def enumerate_derived [OF d(1)] operation_arity_def)
next
  case expression
  have p: "pid < 124" using expression(1) by (auto simp: expression_parameter_def)
  have "parameter_expression pid < 76" using expressionNames_at [OF expression(1)] by blast
  from enumerate_expression [OF this] show ?thesis
    using p definition_type [of pid] expression(2)
    by (simp add: validateInstruction_def operation_arity_def valueTypeOf_def is_parameter_def) (simp add: expression_plan_def)
next
  case direct
  have "pid < 127" using assms Plan_known [of pid] by simp
  moreover have "operation_arity (Operation plan) (direct_operands plan) = Inr ()" "pid < 124 \<or> Operation plan = OperationDirect"
    "\<forall>x \<in> set (direct_operands plan). valueTypeOf x = (if pid < 124 then ValueFloat else ValueBool, True)"
    using direct direct_checked by (auto simp: list_all_iff)
  ultimately show ?thesis
    using definition_type [of pid] unfolding validateInstruction_def direct_enumerate [OF direct]
    by (auto simp: guard_result_def list_ex_iff)
qed

lemma shipped_visit:
  assumes "pid < 127" "\<forall>v. cs_states s v \<noteq> Visiting"
  shows "\<exists>s'. compile_visit Plan 128 pid s = Some (Inr s') \<and> (\<forall>v. cs_states s' v \<noteq> Visiting)"
proof -
  have "\<exists>s'. compile_visit Plan 128 pid s = Some (Inr s')"
  proof (rule compiling.visit_ranked)
    fix v ds d assume "compile_succs Plan v = Some ds" "d \<in> set ds"
    then obtain plan where "Plan v = Some plan" "d \<in> set (DependsOn plan)" "v < 127" by (auto simp: compile_succs_def split: if_splits)
    moreover from this have "d < v" using Plan_down by blast
    ultimately show "d < v \<and> compile_succs Plan d \<noteq> None" using Plan_known [of d] by (simp add: compile_succs_def)
  next
    fix v s s' e assume "compile_succs Plan v \<noteq> None"
    then obtain plan where "Plan v = Some plan" by (auto simp: compile_succs_def split: if_splits)
    then show "compile_end Plan v s s' \<noteq> Inl e"
      using shipped_valid by (simp add: compile_end_def compile_leave_def Let_def)
  qed (use assms Plan_known [of pid] in \<open>auto simp: compile_succs_def\<close>)
  then show ?thesis using compiling.visit_visiting assms(2) by blast
qed

lemma shipped_loop:
  "\<exists>s. fold_run (\<lambda>pid s. if set_has r pid then compile_visit Plan (ParameterCount + 1) pid s else Some (Inr s))
    [0..<ParameterCount] \<lparr>cs_states = (\<lambda>_. Unvisited), cs_stack = [], cs_instructions = []\<rparr> = Some (Inr s)"
proof -
  have "\<exists>s. fold_run (\<lambda>pid s. if set_has r pid then compile_visit Plan (ParameterCount + 1) pid s else Some (Inr s))
      [0..<127] \<lparr>cs_states = (\<lambda>_. Unvisited), cs_stack = [], cs_instructions = []\<rparr> = Some (Inr s) \<and> (\<forall>v. cs_states s v \<noteq> Visiting)"
  proof (rule fold_run_ok)
    fix pid and s :: compile_state assume "pid \<in> set [0..<127]" "\<forall>v. cs_states s v \<noteq> Visiting"
    then show "\<exists>t. (if set_has r pid then compile_visit Plan (ParameterCount + 1) pid s else Some (Inr s)) = Some (Inr t) \<and>
        (\<forall>v. cs_states t v \<noteq> Visiting)"
      using shipped_visit [of pid s] by auto
  qed simp
  then show ?thesis unfolding ParameterCount_127 by blast
qed

lemma Compile_loop:
  "Compile pids =
    (if list_all (\<lambda>pid. pid < 127) pids then
       if pids = [] then Some (Inr \<lparr>requested = no_parameters, instructions = []\<rparr>)
       else bind_run (fold_run (\<lambda>pid s. if set_has (fold set_add pids no_parameters) pid then compile_visit Plan (ParameterCount + 1) pid s else Some (Inr s))
           [0..<ParameterCount] \<lparr>cs_states = (\<lambda>_. Unvisited), cs_stack = [], cs_instructions = []\<rparr>)
         (\<lambda>s. Some (Inr \<lparr>requested = fold set_add pids no_parameters, instructions = cs_instructions s\<rparr>))
     else Some (Inl (ErrUnknownParameter (hd (filter (\<lambda>pid. \<not> pid < 127) pids)))))"
  unfolding Compile_def compileWithPlans_def requested_loop by (cases "pids = []") (simp_all del: ParameterCount_127)

lemma Compile_known: "list_all (\<lambda>pid. pid < 127) pids \<Longrightarrow> \<exists>p. Compile pids = Some (Inr p)"
  using shipped_loop [of "fold set_add pids no_parameters"] unfolding Compile_loop
  by (cases "pids = []") (auto simp del: ParameterCount_127)

text \<open>With the shipped plans, compiling a list of parameters succeeds exactly if all
  of them are known: the table has a plan for every parameter, the plans have no cycle and every
  operation fits its operands.\<close>

theorem Compile_succeeds:
  "(\<exists>p. Compile pids = Some (Inr p)) = list_all (\<lambda>pid. pid < ParameterCount) pids"
proof (cases "list_all (\<lambda>pid. pid < 127) pids")
  case True
  then show ?thesis using Compile_known by simp
next
  case False
  then show ?thesis by (simp add: Compile_loop)
qed

theorem compile_ordered_witness:
  "\<exists>p. Compile [ParameterSmileSad, ParameterJawOpen] = Some (Inr p) \<and> ordered Plan (instructions p) \<and>
    ParameterJawOpen \<in> produced (instructions p)"
proof -
  have "list_all (\<lambda>pid. pid < 127) [ParameterSmileSad, ParameterJawOpen]" by code_simp
  then obtain p where p: "Compile [ParameterSmileSad, ParameterJawOpen] = Some (Inr p)" using Compile_known by blast
  from compile_ordered [OF this [unfolded Compile_def]] p show ?thesis by auto
qed


section \<open>What a parameter's value is\<close>

text \<open>
  The reference: the value of a parameter as an equation over the values it is derived from,
  without instruction lists, working arrays or an order of evaluation. No value means invalid.
\<close>

definition checked :: "float32 \<times> bool \<Rightarrow> float32 option" where
  "checked v = (if snd v \<and> finite32 (fst v) then Some (fst v) else None)"

definition larger :: "float32 \<Rightarrow> float32 \<Rightarrow> float32" where
  "larger a b = (if lt32 a b then b else a)"

definition largest :: "float32 list \<Rightarrow> float32" where
  "largest vs = foldl larger (hd vs) (tl vs)"

definition combine :: "operation \<Rightarrow> float32 list \<Rightarrow> float32" where
  "combine oper vs =
    (if oper = OperationDirect then hd vs
     else if oper = OperationAverage then div32 (foldl add32 zero32 vs) (float32_of_int (int (length vs)))
     else if oper = OperationSumClamp then foldl add32 zero32 vs
     else if oper = OperationMax then largest vs
     else sub32 (largest (butlast vs)) (last vs))"

definition in_range :: "nat \<Rightarrow> float32 \<Rightarrow> float32 option" where
  "in_range pid v = (if finite32 v then checked (Clamp pid v) else None)"

lemma parameter_operand: "OperandParameter d \<in> set (enumerateOperands plan) \<longleftrightarrow> d \<in> set (DependsOn plan)"
  by (auto simp: enumerateOperands_def)

function float_value :: "canonical_frame \<Rightarrow> nat \<Rightarrow> float32 option" where
  "float_value cf pid = (case Plan pid of None \<Rightarrow> None
   | Some plan \<Rightarrow> (case those (map (\<lambda>op. case op of
         OperandEye field \<Rightarrow> checked (eyeValue (cf_Eye cf) field)
       | OperandExpression e \<Rightarrow> checked (exp_get (cf_Expressions cf) e)
       | OperandActive _ \<Rightarrow> None
       | OperandParameter d \<Rightarrow> float_value cf d) (enumerateOperands plan)) of
       None \<Rightarrow> None
     | Some vs \<Rightarrow> in_range pid (combine (Operation plan) vs)))"
  by pat_completeness auto
termination
  by (relation "measure snd") (auto simp: parameter_operand Plan_down)

declare float_value.simps [simp del]

definition bool_value :: "canonical_frame \<Rightarrow> nat \<Rightarrow> bool option" where
  "bool_value cf pid = (if pid = ParameterEyeTrackingActive then Some (EyeActive cf)
     else if pid = ParameterExpressionTrackingActive then Some (ExpressionActive cf)
     else if pid = ParameterLipTrackingActive then Some (LipActive cf) else None)"

lemma operand_loop_Cons:
  "operand_loop oper n i (v # vs) r =
    (case checked v of None \<Rightarrow> None | Some w \<Rightarrow> operand_loop oper n (i + 1) vs (operand_step oper n i w r))"
  by (simp add: checked_def)

lemma operand_steps:
  "operand_step OperationDirect n i v r = v"
  "operand_step OperationAverage n i v r = add32 r v"
  "operand_step OperationSumClamp n i v r = add32 r v"
  "operand_step OperationMax n i v r = (if i = 0 then v else larger r v)"
  "operand_step OperationSignedPair n i v r = (if i + 1 = n then sub32 r v else if i = 0 then v else larger r v)"
  by (simp_all add: operand_step_def larger_def)

lemma operand_loop_foldl:
  assumes "\<And>j v r. i \<le> j \<Longrightarrow> operand_step oper n j v r = f r v"
  shows "operand_loop oper n i vs r = map_option (foldl f r) (those (map checked vs))"
  using assms
proof (induction vs arbitrary: i r)
  case (Cons v vs)
  then show ?case by (auto simp: operand_loop_Cons option.map_comp o_def simp del: operand_loop.simps(2) split: option.splits)
qed simp

lemma operand_loop_pair:
  "0 < i \<Longrightarrow> i + length vs = n \<Longrightarrow> vs \<noteq> [] \<Longrightarrow>
    operand_loop OperationSignedPair n i vs r =
      map_option (\<lambda>ws. sub32 (foldl larger r (butlast ws)) (last ws)) (those (map checked vs))"
proof (induction vs arbitrary: i r)
  case (Cons v vs)
  show ?case
  proof (cases "vs = []")
    case True
    then show ?thesis using Cons.prems by (simp add: operand_loop_Cons operand_steps del: operand_loop.simps(2) split: option.split)
  next
    case False
    then have "those (map checked vs) \<noteq> Some []" by (cases vs) (auto split: option.splits)
    then show ?thesis
      using Cons.prems False Cons.IH [of "i + 1"]
      by (cases "those (map checked vs)") (auto simp: operand_loop_Cons operand_steps simp del: operand_loop.simps(2) split: option.splits)
  qed
qed simp

lemma those_length: "those xs = Some ys \<Longrightarrow> length ys = length xs"
  by (induction xs arbitrary: ys) (auto split: option.splits)

lemma operand_loop_combine:
  assumes "operation_arity oper ops = Inr ()" "length vs = length ops"
  shows "map_option (\<lambda>res. if oper = OperationAverage then div32 res (float32_of_int (int (length ops))) else res)
      (operand_loop oper (length ops) 0 vs zero32) = map_option (combine oper) (those (map checked vs))"
proof -
  obtain v ws where vs: "vs = v # ws" using assms by (cases vs) (auto simp: operation_arity_def split: if_splits)
  consider "oper = OperationDirect" "ws = []" | "oper = OperationAverage" | "oper = OperationSumClamp" | "oper = OperationMax"
    | "oper = OperationSignedPair" "ws \<noteq> []"
    using assms vs by (cases ws) (auto simp: operation_arity_def split: if_splits)
  then show ?thesis
  proof cases
    case 1
    then show ?thesis using vs by (simp add: operand_loop_Cons operand_steps combine_def del: operand_loop.simps(2) split: option.split)
  next
    case 2
    then show ?thesis
      using operand_loop_foldl [of 0 oper "length ops" add32 vs zero32] assms(2)
      by (auto simp: operand_steps combine_def option.map_comp o_def dest!: those_length intro!: option.map_cong0 option.map_cong)
  next
    case 3
    then show ?thesis
      using operand_loop_foldl [of 0 oper "length ops" add32 vs zero32]
      by (auto simp: operand_steps combine_def option.map_comp o_def intro!: option.map_cong)
  next
    case 4
    then show ?thesis
      using operand_loop_foldl [of 1 oper "length ops" larger ws] vs
      by (auto simp: operand_loop_Cons operand_steps combine_def largest_def option.map_comp o_def simp del: operand_loop.simps(2) split: option.splits)
  next
    case 5
    then have "those (map checked ws) \<noteq> Some []" by (cases ws) (auto split: option.splits)
    moreover have "length ops \<noteq> Suc 0" using 5 vs assms(2) by auto
    ultimately show ?thesis
      using operand_loop_pair [of 1 ws "length ops"] 5 vs assms(2)
      by (cases "those (map checked ws)")
        (auto simp: operand_loop_Cons operand_steps combine_def largest_def simp del: operand_loop.simps(2) split: option.splits)
  qed
qed

lemma evaluateFloat_combine:
  assumes "operation_arity (ins_operation c) (operands c) = Inr ()"
  shows "(case evaluateFloat c cf fs fv of (v, ok) \<Rightarrow> if ok then Some v else None) =
    (case those (map (\<lambda>x. checked (floatOperandValue x cf fs fv)) (operands c)) of None \<Rightarrow> None
     | Some ws \<Rightarrow> in_range (ins_parameter c) (combine (ins_operation c) ws))"
proof -
  let ?vs = "map (\<lambda>x. floatOperandValue x cf fs fv) (operands c)"
  have "(case finish_float oper n pid res of (v, ok) \<Rightarrow> if ok then Some v else None) =
      in_range pid (if oper = OperationAverage then div32 res (float32_of_int (int n)) else res)" for oper n pid res
    by (auto simp: finish_float_def in_range_def checked_def Let_def split: prod.splits)
  then show ?thesis
    using operand_loop_combine [OF assms, of ?vs]
    by (cases "operand_loop (ins_operation c) (length (operands c)) 0 ?vs zero32"; cases "those (map checked ?vs)")
      (auto simp: evaluateFloat_def o_def)
qed

definition float_at :: "snapshot \<Rightarrow> nat \<Rightarrow> float32 option" where
  "float_at s pid = (if valid_bit (floatValid s) pid then Some (floats s pid) else None)"

definition bool_at :: "snapshot \<Rightarrow> nat \<Rightarrow> bool option" where
  "bool_at s pid = (if valid_bit (boolValid s) pid then Some (bools s pid) else None)"

lemma at_set_float [simp]:
  "pid < 127 \<Longrightarrow> float_at (s\<lparr>floats := (floats s)(pid := v), floatValid := setValid pid (floatValid s)\<rparr>) d =
    (if d = pid then Some v else float_at s d)"
  "bool_at (s\<lparr>floats := fs, floatValid := fv\<rparr>) d = bool_at s d"
  by (auto simp: float_at_def bool_at_def validity.has_add)

lemma at_set_bool [simp]:
  "pid < 127 \<Longrightarrow> bool_at (s\<lparr>bools := (bools s)(pid := b), boolValid := setValid pid (boolValid s)\<rparr>) d =
    (if d = pid then Some b else bool_at s d)"
  "float_at (s\<lparr>bools := bs, boolValid := bv\<rparr>) d = float_at s d"
  by (auto simp: float_at_def bool_at_def validity.has_add)

lemma float_value_finite: "float_value cf pid = Some v \<Longrightarrow> finite32 v"
  by (subst (asm) float_value.simps) (auto simp: in_range_def checked_def split: option.splits if_splits)

lemma active_plan:
  assumes "Plan pid = Some plan" "124 \<le> pid"
  shows "Operation plan = OperationDirect" "enumerateOperands plan = [OperandActive (pid - 123)]"
proof -
  have "(pid, plan) \<in> set direct_plans"
    using assms(1)
  proof (cases rule: Plan_kinds)
    case expression
    then show ?thesis using assms(2) by (simp add: expression_parameter_def)
  qed (use assms(2) in \<open>auto simp: derived_valid_def\<close>)
  then show "Operation plan = OperationDirect" "enumerateOperands plan = [OperandActive (pid - 123)]"
    using direct_checked assms(2) direct_enumerate by (auto simp: list_all_iff)
qed

lemma float_value_active: "124 \<le> pid \<Longrightarrow> float_value cf pid = None"
  by (subst float_value.simps) (simp add: active_plan split: option.split)

lemma active_parameters: "ParameterEyeTrackingActive = 124" "ParameterExpressionTrackingActive = 125" "ParameterLipTrackingActive = 126"
  by (simp_all add: parameter_ids)

lemma bool_value_float: "pid < 124 \<Longrightarrow> bool_value cf pid = None"
  by (simp add: bool_value_def active_parameters)

lemma checked_read:
  assumes "x \<in> set (enumerateOperands plan)" "\<forall>d \<in> set (DependsOn plan). float_at s d = float_value cf d"
  shows "checked (floatOperandValue x cf (floats s) (floatValid s)) = (case x of
         OperandEye field \<Rightarrow> checked (eyeValue (cf_Eye cf) field)
       | OperandExpression e \<Rightarrow> checked (exp_get (cf_Expressions cf) e)
       | OperandActive _ \<Rightarrow> None
       | OperandParameter d \<Rightarrow> float_value cf d)"
proof (cases x)
  case (OperandParameter d)
  then have d: "float_at s d = float_value cf d" using assms by (simp add: parameter_operand)
  show ?thesis
  proof (cases "valid_bit (floatValid s) d")
    case True
    then have "float_value cf d = Some (floats s d)" using d by (simp add: float_at_def)
    from float_value_finite [OF this] this True OperandParameter show ?thesis by (simp add: floatOperandValue_def checked_def)
  next
    case False
    then show ?thesis using OperandParameter d by (simp add: floatOperandValue_def checked_def float_at_def)
  qed
qed (simp_all add: floatOperandValue_def checked_def)

definition computed :: "canonical_frame \<Rightarrow> nat set \<Rightarrow> snapshot \<Rightarrow> bool" where
  "computed cf A s \<longleftrightarrow> (\<forall>pid. float_at s pid = (if pid \<in> A then float_value cf pid else None) \<and>
     bool_at s pid = (if pid \<in> A then bool_value cf pid else None))"

lemma eval_step_float:
  assumes "computed cf (produced is) s" "pid < 124" "Plan pid = Some plan" "set (DependsOn plan) \<subseteq> produced is" "pid \<notin> produced is"
  shows "computed cf (insert pid (produced is)) (eval_step cf s (instruction_for pid plan))"
proof -
  let ?c = "instruction_for pid plan"
  have "operation_arity (Operation plan) (enumerateOperands plan) = Inr ()"
    using shipped_valid [OF assms(3)] by (auto simp: validateInstruction_def bind_result_Inr guard_result_def split: if_splits)
  then have "(case evaluateFloat ?c cf (floats s) (floatValid s) of (v, ok) \<Rightarrow> if ok then Some v else None) =
      (case those (map (\<lambda>x. checked (floatOperandValue x cf (floats s) (floatValid s))) (enumerateOperands plan)) of None \<Rightarrow> None
       | Some ws \<Rightarrow> in_range pid (combine (Operation plan) ws))"
    using evaluateFloat_combine [of ?c cf "floats s" "floatValid s"] unfolding instruction_for_simps by blast
  also have "map (\<lambda>x. checked (floatOperandValue x cf (floats s) (floatValid s))) (enumerateOperands plan) =
      map (\<lambda>op. case op of
         OperandEye field \<Rightarrow> checked (eyeValue (cf_Eye cf) field)
       | OperandExpression e \<Rightarrow> checked (exp_get (cf_Expressions cf) e)
       | OperandActive _ \<Rightarrow> None
       | OperandParameter d \<Rightarrow> float_value cf d) (enumerateOperands plan)"
    using assms(1,4) by (intro map_cong refl checked_read) (auto simp: computed_def)
  finally have v: "(case evaluateFloat ?c cf (floats s) (floatValid s) of (v, ok) \<Rightarrow> if ok then Some v else None) = float_value cf pid"
    using assms(3) by (simp add: float_value.simps [of cf pid])
  obtain v ok where e: "evaluateFloat ?c cf (floats s) (floatValid s) = (v, ok)" by fastforce
  have "eval_step cf s (instruction_for pid plan) = (if ok then
      s\<lparr>floats := (floats s)(pid := v), floatValid := setValid pid (floatValid s)\<rparr> else s)"
    using assms(2) definition_type [of pid] e by (simp add: eval_step_def)
  moreover have "float_value cf pid = (if ok then Some v else None)" using e v by simp
  ultimately show ?thesis
    using assms(1,2,5) bool_value_float [OF assms(2), of cf] by (auto simp: computed_def)
qed

lemma eval_step_bool:
  assumes "computed cf (produced is) s" "124 \<le> pid" "pid < 127" "Plan pid = Some plan" "pid \<notin> produced is"
  shows "computed cf (insert pid (produced is)) (eval_step cf s (instruction_for pid plan))"
proof -
  have "pid = 124 \<or> pid = 125 \<or> pid = 126" using assms(2,3) by auto
  then obtain b where b: "boolOperandValue (OperandActive (pid - 123)) cf (bools s) (boolValid s) = (b, True)" "bool_value cf pid = Some b"
    by (auto simp: boolOperandValue_def bool_value_def active_parameters active_state_defs)
  then have "eval_step cf s (instruction_for pid plan) = s\<lparr>bools := (bools s)(pid := b), boolValid := setValid pid (boolValid s)\<rparr>"
    using assms(2,3) definition_type [of pid] by (simp add: eval_step_def active_plan [OF assms(4,2)])
  then show ?thesis
    using assms(1,3) b(2) float_value_active [OF assms(2), of cf] by (auto simp: computed_def)
qed

lemma computed_instructions:
  "ordered Plan is \<Longrightarrow> computed cf (produced is) (foldl (eval_step cf) empty_snapshot is)"
proof (induction rule: ordered.induct)
  case ordered_nil
  show ?case by (simp add: computed_def float_at_def bool_at_def empty_snapshot_def validity.has_empty)
next
  case (ordered_snoc "is" pid plan)
  then show ?case
    using ordered_snoc eval_step_float [of cf "is" _ pid plan] eval_step_bool [of cf "is" _ pid plan]
    by (cases "pid < 124") auto
qed

lemma snapshot_step_at:
  assumes "n < 127"
  shows "float_at (snapshot_step p w n s) d = (if d = n \<and> n < 124 \<and> set_has (requested p) n \<and> float_at w n \<noteq> None then float_at w n else float_at s d)"
    "bool_at (snapshot_step p w n s) d = (if d = n \<and> 124 \<le> n \<and> set_has (requested p) n \<and> bool_at w n \<noteq> None then bool_at w n else bool_at s d)"
proof -
  have "float_at w n \<noteq> None \<longleftrightarrow> valid_bit (floatValid w) n" "bool_at w n \<noteq> None \<longleftrightarrow> valid_bit (boolValid w) n"
    "valid_bit (floatValid w) n \<Longrightarrow> float_at w n = Some (floats w n)" "valid_bit (boolValid w) n \<Longrightarrow> bool_at w n = Some (bools w n)"
    by (simp_all add: float_at_def bool_at_def)
  then show "float_at (snapshot_step p w n s) d = (if d = n \<and> n < 124 \<and> set_has (requested p) n \<and> float_at w n \<noteq> None then float_at w n else float_at s d)"
    "bool_at (snapshot_step p w n s) d = (if d = n \<and> 124 \<le> n \<and> set_has (requested p) n \<and> bool_at w n \<noteq> None then bool_at w n else bool_at s d)"
    using assms definition_type [of n] by (simp_all add: snapshot_step_def)
qed

lemma snapshot_loop:
  "n \<le> 127 \<Longrightarrow> float_at (fold (snapshot_step p w) [0..<n] empty_snapshot) pid =
      (if pid < n \<and> pid < 124 \<and> set_has (requested p) pid then float_at w pid else None) \<and>
    bool_at (fold (snapshot_step p w) [0..<n] empty_snapshot) pid =
      (if pid < n \<and> 124 \<le> pid \<and> set_has (requested p) pid then bool_at w pid else None)"
proof (induction n)
  case 0
  show ?case by (simp add: float_at_def bool_at_def empty_snapshot_def validity.has_empty)
next
  case (Suc n)
  then have n: "n < 127" by simp
  show ?case using Suc by (auto simp: snapshot_step_at [OF n] less_Suc_eq)
qed

lemma Evaluate_at:
  assumes "ordered Plan (instructions p)"
  shows "float_at (Evaluate p cf) pid = (if set_has (requested p) pid \<and> pid \<in> produced (instructions p) then float_value cf pid else None)"
    "bool_at (Evaluate p cf) pid = (if set_has (requested p) pid \<and> pid \<in> produced (instructions p) then bool_value cf pid else None)"
proof -
  let ?w = "foldl (eval_step cf) empty_snapshot (instructions p)"
  have w: "float_at ?w pid = (if pid \<in> produced (instructions p) then float_value cf pid else None)"
    "bool_at ?w pid = (if pid \<in> produced (instructions p) then bool_value cf pid else None)"
    using computed_instructions [OF assms, of cf] unfolding computed_def by blast+
  have known: "set_has (requested p) pid \<Longrightarrow> pid < 127" by (simp add: set_has_def)
  show "float_at (Evaluate p cf) pid = (if set_has (requested p) pid \<and> pid \<in> produced (instructions p) then float_value cf pid else None)"
    using snapshot_loop [of 127 p ?w pid] w known float_value_active [of pid cf]
    unfolding Evaluate_def Let_def ParameterCount_127 by auto
  show "bool_at (Evaluate p cf) pid = (if set_has (requested p) pid \<and> pid \<in> produced (instructions p) then bool_value cf pid else None)"
    using snapshot_loop [of 127 p ?w pid] w known bool_value_float [of pid cf]
    unfolding Evaluate_def Let_def ParameterCount_127 by auto
qed

lemma snapshot_reads:
  "snapshot_Float s pid = (case if pid < 124 then float_at s pid else None of None \<Rightarrow> (zero32, False) | Some v \<Rightarrow> (v, True))"
  "snapshot_Bool s pid = (case if 124 \<le> pid \<and> pid < 127 then bool_at s pid else None of None \<Rightarrow> (False, False) | Some v \<Rightarrow> (v, True))"
  using definition_type [of pid]
  by (cases "pid < 127"; simp add: snapshot_Float_def snapshot_Bool_def float_at_def bool_at_def)+

lemma Evaluate_reads:
  assumes "Compile pids = Some (Inr p)"
  shows "snapshot_Float (Evaluate p cf) pid =
      (case if pid \<in> set pids then float_value cf pid else None of None \<Rightarrow> (zero32, False) | Some v \<Rightarrow> (v, True)) \<and>
    snapshot_Bool (Evaluate p cf) pid =
      (case if pid \<in> set pids then bool_value cf pid else None of None \<Rightarrow> (False, False) | Some v \<Rightarrow> (v, True))"
proof -
  have p: "ordered Plan (instructions p)" "set pids \<subseteq> produced (instructions p)" "\<forall>pid. set_has (requested p) pid = (pid \<in> set pids)"
    using compile_sound assms unfolding Compile_def by blast+
  then have "float_at (Evaluate p cf) pid = (if pid \<in> set pids then float_value cf pid else None)"
    "bool_at (Evaluate p cf) pid = (if pid \<in> set pids then bool_value cf pid else None)"
    by (auto simp: Evaluate_at)
  moreover have "\<not> pid < 127 \<Longrightarrow> bool_value cf pid = None" by (simp add: bool_value_def active_parameters)
  ultimately show ?thesis
    using float_value_active [of pid cf] bool_value_float [of pid cf] unfolding snapshot_reads by auto
qed

text \<open>C37 (equivalence). Compiling and evaluating computes the reference values: what the snapshot
  reports for a requested parameter is exactly the value defined by the recursive equation over
  its plan (or invalid, if that has no value), and every other parameter is reported invalid. In
  particular the result for one parameter does not depend on which others were requested.\<close>

theorem Evaluate_reference:
  assumes "Compile pids = Some (Inr p)"
  shows "snapshot_Float (Evaluate p cf) pid =
      (case if pid \<in> set pids then float_value cf pid else None of None \<Rightarrow> (zero32, False) | Some v \<Rightarrow> (v, True)) \<and>
    snapshot_Bool (Evaluate p cf) pid =
      (case if pid \<in> set pids then bool_value cf pid else None of None \<Rightarrow> (False, False) | Some v \<Rightarrow> (v, True))"
  using assms by (rule Evaluate_reads)

theorem Evaluate_reference_witness:
  "\<exists>p. Compile [ParameterLipTrackingActive] = Some (Inr p) \<and>
    (\<forall>cf. snapshot_Bool (Evaluate p cf) ParameterLipTrackingActive = (LipActive cf, True))"
proof -
  have "list_all (\<lambda>pid. pid < 127) [ParameterLipTrackingActive]" by (simp add: parameter_ids)
  then obtain p where p: "Compile [ParameterLipTrackingActive] = Some (Inr p)" using Compile_known by blast
  moreover have "bool_value cf ParameterLipTrackingActive = Some (LipActive cf)" for cf by (simp add: bool_value_def parameter_ids)
  ultimately show ?thesis using Evaluate_reference [OF p, of _ ParameterLipTrackingActive] by auto
qed


section \<open>The required inputs are enough\<close>

lemma inputs_operands:
  "inputs_has (Inputs plan) x \<longleftrightarrow> (case x of EyeLeaf f \<Rightarrow> OperandEye f | ExpressionLeaf e \<Rightarrow> OperandExpression e
     | ActiveLeaf a \<Rightarrow> OperandActive a) \<in> set (enumerateOperands plan)"
proof (cases x)
  case (EyeLeaf f)
  have "eye_fields_has (in_Eye (Inputs plan)) f \<Longrightarrow> 1 \<le> f \<and> f < 11"
    by (simp add: eye_fields_has_def eyeFieldCount_def)
  then show ?thesis using EyeLeaf by (auto simp: enumerateOperands_def eye_field_defs)
next
  case (ExpressionLeaf e)
  have "mask_has (in_Expressions (Inputs plan)) e \<Longrightarrow> e < 76" by (simp add: mask_has_def split: if_splits)
  then show ?thesis using ExpressionLeaf by (auto simp: enumerateOperands_def)
next
  case (ActiveLeaf a)
  have "active_states_has (in_Active (Inputs plan)) a \<Longrightarrow> 1 \<le> a \<and> a < 4"
    by (simp add: active_states_has_def activeStateCount_def)
  then show ?thesis using ActiveLeaf by (auto simp: enumerateOperands_def active_state_defs)
qed

declare inputs_has.simps [simp del]

definition active_state_value :: "canonical_frame \<Rightarrow> active_state \<Rightarrow> bool" where
  "active_state_value cf a = fst (boolOperandValue (OperandActive a) cf (\<lambda>_. False) no_parameters)"

definition same_leaf :: "canonical_frame \<Rightarrow> canonical_frame \<Rightarrow> leaf \<Rightarrow> bool" where
  "same_leaf cf cf' x = (case x of
     EyeLeaf f \<Rightarrow> eyeValue (cf_Eye cf) f = eyeValue (cf_Eye cf') f
   | ExpressionLeaf e \<Rightarrow> exp_get (cf_Expressions cf) e = exp_get (cf_Expressions cf') e
   | ActiveLeaf a \<Rightarrow> active_state_value cf a = active_state_value cf' a)"

lemma float_value_leaves:
  "\<forall>x. leaf_of Plan pid x \<longrightarrow> same_leaf cf cf' x \<Longrightarrow> float_value cf pid = float_value cf' pid"
proof (induction pid rule: less_induct)
  case (less pid)
  show ?case
  proof (cases "Plan pid")
    case None
    then show ?thesis by (simp add: float_value.simps [of _ pid])
  next
    case (Some plan)
    note step = leaf_of_step [of Plan pid plan, OF Some]
    have "(case op of OperandEye field \<Rightarrow> checked (eyeValue (cf_Eye cf) field)
         | OperandExpression e \<Rightarrow> checked (exp_get (cf_Expressions cf) e)
         | OperandActive _ \<Rightarrow> None | OperandParameter d \<Rightarrow> float_value cf d) =
        (case op of OperandEye field \<Rightarrow> checked (eyeValue (cf_Eye cf') field)
         | OperandExpression e \<Rightarrow> checked (exp_get (cf_Expressions cf') e)
         | OperandActive _ \<Rightarrow> None | OperandParameter d \<Rightarrow> float_value cf' d)"
      if op: "op \<in> set (enumerateOperands plan)" for op
    proof (cases op)
      case (OperandEye f)
      then have "leaf_of Plan pid (EyeLeaf f)" using op by (simp add: step inputs_operands)
      then show ?thesis using less.prems OperandEye by (auto simp: same_leaf_def)
    next
      case (OperandExpression e)
      then have "leaf_of Plan pid (ExpressionLeaf e)" using op by (simp add: step inputs_operands)
      then show ?thesis using less.prems OperandExpression by (auto simp: same_leaf_def)
    next
      case (OperandParameter d)
      then have d: "d \<in> set (DependsOn plan)" using op by (simp add: parameter_operand)
      then have "float_value cf d = float_value cf' d"
        using less.IH [OF Plan_down [OF Some d]] less.prems by (simp add: step) blast
      then show ?thesis using OperandParameter by simp
    qed simp
    then show ?thesis using Some by (simp add: float_value.simps [of _ pid] cong: map_cong)
  qed
qed

lemma bool_value_leaves:
  assumes "pid < 127" "\<forall>x. leaf_of Plan pid x \<longrightarrow> same_leaf cf cf' x"
  shows "bool_value cf pid = bool_value cf' pid"
proof (cases "pid < 124")
  case False
  obtain plan where plan: "Plan pid = Some plan" using Plan_known [of pid] assms(1) by auto
  have "leaf_of Plan pid (ActiveLeaf (pid - 123))"
    using active_plan [OF plan] False by (simp add: leaf_of_step [of Plan pid plan, OF plan] inputs_operands)
  then have "active_state_value cf (pid - 123) = active_state_value cf' (pid - 123)" using assms(2) by (fastforce simp: same_leaf_def)
  moreover have "pid = 124 \<or> pid = 125 \<or> pid = 126" using False assms(1) by auto
  ultimately show ?thesis
    by (auto simp: bool_value_def active_parameters active_state_value_def boolOperandValue_def active_state_defs)
qed (simp add: bool_value_float)

text \<open>C38 (safety). The inputs required for a list of parameters are enough to evaluate them: frames
  that agree on those leaves give equal snapshots, so plugins that submit only the required inputs
  do not change what is sent.\<close>

theorem required_inputs_suffice:
  assumes "RequiredInputs pids = Some (Inr r)" and "Compile pids = Some (Inr p)"
    and "\<forall>x. inputs_has r x \<longrightarrow> same_leaf cf cf' x"
  shows "snapshot_Float (Evaluate p cf) pid = snapshot_Float (Evaluate p cf') pid \<and>
    snapshot_Bool (Evaluate p cf) pid = snapshot_Bool (Evaluate p cf') pid"
proof -
  have known: "list_all (\<lambda>pid. pid < 127) pids" using assms(2) by (simp add: Compile_loop split: if_splits)
  then have leaves: "inputs_has r x \<longleftrightarrow> (\<exists>pid \<in> set pids. leaf_of Plan pid x)" for x
    using RequiredInputs_leaves [of pids] assms(1) by auto
  have p: "ordered Plan (instructions p)" "\<forall>pid. set_has (requested p) pid = (pid \<in> set pids)"
    using compile_sound assms(2) unfolding Compile_def by blast+
  have "float_value cf pid = float_value cf' pid \<and> bool_value cf pid = bool_value cf' pid" if "pid \<in> set pids"
    using that known assms(3) leaves float_value_leaves [of pid cf cf'] bool_value_leaves [of pid cf cf'] by (auto simp: list_all_iff)
  then have "float_at (Evaluate p cf) pid = float_at (Evaluate p cf') pid" "bool_at (Evaluate p cf) pid = bool_at (Evaluate p cf') pid"
    using p by (auto simp: Evaluate_at)
  then show ?thesis by (simp add: snapshot_reads)
qed

theorem required_inputs_suffice_witness:
  "\<exists>r p. RequiredInputs [ParameterLipTrackingActive] = Some (Inr r) \<and> Compile [ParameterLipTrackingActive] = Some (Inr p) \<and>
    (\<forall>cf. snapshot_Bool (Evaluate p cf) ParameterLipTrackingActive =
      snapshot_Bool (Evaluate p (cf\<lparr>EyeActive := \<not> EyeActive cf, Revision := 0\<rparr>)) ParameterLipTrackingActive)"
proof -
  have "list_all (\<lambda>pid. pid < 127) [ParameterLipTrackingActive]" by (simp add: parameter_ids)
  then obtain r p where rp: "RequiredInputs [ParameterLipTrackingActive] = Some (Inr r)" "Compile [ParameterLipTrackingActive] = Some (Inr p)"
    and r: "\<forall>x. inputs_has r x \<longleftrightarrow> leaf_of Plan 126 x"
    using Compile_known [of "[ParameterLipTrackingActive]"] RequiredInputs_leaves [of "[ParameterLipTrackingActive]"]
    by (auto simp: active_parameters)
  obtain plan where plan: "Plan 126 = Some plan" using Plan_known [of 126] by auto
  have "DependsOn plan = []" using active_plan [OF plan] parameter_operand [of "hd (DependsOn plan)" plan]
    by (cases "DependsOn plan") auto
  then have "inputs_has r x \<Longrightarrow> x = ActiveLeaf 3" for x
    using r active_plan [OF plan] by (auto simp: leaf_of_step [of Plan 126 plan, OF plan] inputs_operands split: leaf.splits)
  moreover have "same_leaf cf (cf\<lparr>EyeActive := \<not> EyeActive cf, Revision := 0\<rparr>) (ActiveLeaf 3)" for cf
    by (simp add: same_leaf_def active_state_value_def boolOperandValue_def active_state_defs)
  ultimately have "\<forall>x. inputs_has r x \<longrightarrow> same_leaf cf (cf\<lparr>EyeActive := \<not> EyeActive cf, Revision := 0\<rparr>) x" for cf by metis
  from required_inputs_suffice [OF rp this] rp show ?thesis by blast
qed

end
