(* ===== verification/OscBuilder.thy ===== *)
theory OscBuilder
  imports OscPacket
begin

text \<open>
  internal/osc/scalar.go and internal/osc/builder.go: the host's own writer for messages with one
  scalar argument, alone or collected in an immediate bundle of bounded size. It avoids the general
  encoder of pkg/osc; the lemmas show that it writes the same bytes, so its datagrams decode to the
  messages put in.
\<close>

unbundle bit_operations_syntax

section \<open>Scalars\<close>

type_synonym scalar_kind = u8

definition scalarFloat32 :: scalar_kind where "scalarFloat32 = 1"
definition scalarInt32 :: scalar_kind where "scalarInt32 = 2"
definition scalarFalse :: scalar_kind where "scalarFalse = 3"
definition scalarTrue :: scalar_kind where "scalarTrue = 4"

lemmas scalar_kinds = scalarFloat32_def scalarInt32_def scalarFalse_def scalarTrue_def

record scalar_value =
  sv_bits :: u32
  sv_kind :: scalar_kind

definition floatScalar :: "float32 \<Rightarrow> scalar_value" where
  "floatScalar v = \<lparr>sv_bits = Float32bits v, sv_kind = scalarFloat32\<rparr>"

definition intScalar :: "u32 \<Rightarrow> scalar_value" where
  \<comment> \<open>an int32, as its bits\<close>
  "intScalar v = \<lparr>sv_bits = v, sv_kind = scalarInt32\<rparr>"

definition boolScalar :: "bool \<Rightarrow> scalar_value" where
  "boolScalar v = \<lparr>sv_bits = 0, sv_kind = (if v then scalarTrue else scalarFalse)\<rparr>"

definition typeTag :: "scalar_value \<Rightarrow> char" where
  "typeTag v = (if sv_kind v = scalarFloat32 then CHR ''f'' else if sv_kind v = scalarInt32 then CHR ''i''
     else if sv_kind v = scalarFalse then CHR ''F'' else if sv_kind v = scalarTrue then CHR ''T'' else NUL)"

definition scalarEqual :: "scalar_value \<Rightarrow> scalar_value \<Rightarrow> float32 \<Rightarrow> bool" where
  "scalarEqual left right epsilon =
    (if sv_kind left \<noteq> sv_kind right then False
     else if sv_kind left = scalarFloat32 then
       le32 (narrow (abs64 (widen (sub32 (Float32frombits (sv_bits left)) (Float32frombits (sv_bits right)))))) epsilon
     else sv_bits left = sv_bits right)"

section \<open>Messages\<close>

definition appendPaddedString :: "bytes \<Rightarrow> bytes \<Rightarrow> bytes" where
  "appendPaddedString buffer v = pad_zero (buffer @ v @ [NUL])"

definition paddedStringSize :: "bytes \<Rightarrow> int" where
  "paddedStringSize v = (int (length v) + 4) AND NOT 3"

definition has_payload :: "scalar_value \<Rightarrow> bool" where
  "has_payload v \<longleftrightarrow> sv_kind v = scalarFloat32 \<or> sv_kind v = scalarInt32"

definition appendScalarMessage :: "bytes \<Rightarrow> bytes \<Rightarrow> scalar_value \<Rightarrow> (osc_error, bytes) result" where
  "appendScalarMessage buffer address v =
     guard_result (\<not> ValidAddress address) ErrInvalidAddress
    (guard_result (typeTag v = NUL) ErrUnsupportedType
    (let buffer = appendPaddedString buffer address @ [CHR '','', typeTag v, NUL, NUL] in
       Inr (if has_payload v then buffer @ put_uint32 (sv_bits v) else buffer)))"

definition scalarMessageSize :: "bytes \<Rightarrow> scalar_value \<Rightarrow> (osc_error, int) result" where
  "scalarMessageSize address v =
     guard_result (\<not> ValidAddress address) ErrInvalidAddress
    (guard_result (typeTag v = NUL) ErrUnsupportedType
    (let size = paddedStringSize address + 4 in Inr (if has_payload v then size + 4 else size)))"

definition encodeScalar :: "bytes \<Rightarrow> scalar_value \<Rightarrow> (osc_error, bytes) result" where
  \<comment> \<open>the message builder's buffer is cut to nothing first\<close>
  "encodeScalar address v = appendScalarMessage [] address v"

section \<open>Bundles\<close>

definition immediateBundleHeaderSize :: int where "immediateBundleHeaderSize = 16"

record bundle_builder =
  bb_buffer :: bytes
  maxDatagram :: int

definition builder_reset :: "bundle_builder \<Rightarrow> bundle_builder" where
  "builder_reset b = b\<lparr>bb_buffer := ''#bundle'' @ [NUL] @ put_uint64 1\<rparr>"

definition newBundleBuilder :: "int \<Rightarrow> bundle_builder" where
  "newBundleBuilder limit = builder_reset \<lparr>bb_buffer = [], maxDatagram = limit\<rparr>"

definition appendScalar :: "bytes \<Rightarrow> scalar_value \<Rightarrow> bundle_builder \<Rightarrow> (osc_error, bool \<times> bundle_builder) result" where
  "appendScalar address v b =
     bind_result (scalarMessageSize address v) (\<lambda>messageSize.
     if maxDatagram b < int (length (bb_buffer b)) + 4 + messageSize then Inr (False, b)
     else let messageStart = length (bb_buffer b @ replicate 4 NUL) in
       bind_result (appendScalarMessage (bb_buffer b @ replicate 4 NUL) address v) (\<lambda>buffer.
         Inr (True, b\<lparr>bb_buffer := take (length (bb_buffer b)) buffer @
           put_uint32 (word_of_int (int (length buffer - messageStart))) @ drop messageStart buffer\<rparr>)))"

definition builder_empty :: "bundle_builder \<Rightarrow> bool" where
  "builder_empty b \<longleftrightarrow> int (length (bb_buffer b)) = immediateBundleHeaderSize"

section \<open>The same bytes as the general encoder\<close>

definition valid_kind :: "scalar_kind \<Rightarrow> bool" where
  "valid_kind k \<longleftrightarrow> k = scalarFloat32 \<or> k = scalarInt32 \<or> k = scalarFalse \<or> k = scalarTrue"

definition value_of_scalar :: "scalar_value \<Rightarrow> osc_value" where
  "value_of_scalar v = (if sv_kind v = scalarFloat32 then Float32 (Float32frombits (sv_bits v))
     else if sv_kind v = scalarInt32 then Int32 (sv_bits v) else Bool (sv_kind v = scalarTrue))"

definition scalar_message :: "bytes \<Rightarrow> scalar_value \<Rightarrow> osc_message" where
  "scalar_message address v = \<lparr>msg_Address = address, msg_Args = [value_of_scalar v]\<rparr>"

lemma typeTag_valid: "typeTag v = NUL \<longleftrightarrow> \<not> valid_kind (sv_kind v)"
  by (simp add: typeTag_def valid_kind_def NUL_def)

definition scalar_bytes :: "bytes \<Rightarrow> scalar_value \<Rightarrow> bytes" where
  "scalar_bytes address v = projr (MarshalMessage (scalar_message address v))"

lemma pad_len_add: "a mod 4 = 0 \<Longrightarrow> pad_len (a + b) = pad_len b"
  unfolding pad_len_def by (metis add_0 mod_add_left_eq)

lemma pad_len_mult: "pad_len (4 * q + k) = pad_len k"
  by (rule pad_len_add) simp

lemma pad_len_small: "pad_len (4 * q + 0) = 0" "pad_len (4 * q + 1) = 3" "pad_len (4 * q + 2) = 2" "pad_len (4 * q + 3) = 1"
  unfolding pad_len_mult by (simp_all add: pad_len_def)

lemma quotient_cases:
  fixes n :: nat
  obtains q where "n = 4 * q + 0" | q where "n = 4 * q + 1" | q where "n = 4 * q + 2" | q where "n = 4 * q + 3"
proof -
  have n: "n = 4 * (n div 4) + n mod 4" by simp
  have "n mod 4 = 0 \<or> n mod 4 = 1 \<or> n mod 4 = 2 \<or> n mod 4 = 3" by linarith
  then show ?thesis using that n by metis
qed

lemma pad_len_aligned: "(n + pad_len n) mod 4 = 0"
proof (cases rule: quotient_cases [of n])
  case (1 q)
  show ?thesis unfolding 1 pad_len_small by simp
next
  case (2 q)
  show ?thesis unfolding 2 pad_len_small by simp
next
  case (3 q)
  show ?thesis unfolding 3 pad_len_small by simp
next
  case (4 q)
  show ?thesis unfolding 4 pad_len_small by simp
qed

lemma pad_len_size: "4 * ((n + 4) div 4) = Suc n + pad_len (Suc n)"
proof -
  have "(Suc n + pad_len (Suc n)) mod 4 = 0" by (rule pad_len_aligned)
  moreover have "pad_len (Suc n) < 4" by (simp add: pad_len_def)
  ultimately show ?thesis by presburger
qed

lemma and_not_3: "(x :: int) AND NOT 3 = 4 * (x div 4)"
proof -
  have "x AND NOT (mask 2) = push_bit 2 (drop_bit 2 x)"
  proof (rule bit_eqI)
    fix n
    show "bit (x AND NOT (mask 2)) n \<longleftrightarrow> bit (push_bit 2 (drop_bit 2 x)) n"
      by (cases "n < 2") (auto simp: bit_simps not_less dest!: le_Suc_ex)
  qed
  then show ?thesis by (simp add: mask_eq_exp_minus_1 push_bit_eq_mult drop_bit_eq_div)
qed

lemma writePadded_append:
  "length pre mod 4 = 0 \<Longrightarrow> writePaddedString pre s = pre @ writePaddedString [] s"
  using pad_len_add [of "length pre" "Suc (length s)"] by (simp add: writePaddedString_eq)

lemma length_writePadded: "length (writePaddedString [] s) = 4 * ((length s + 4) div 4)"
  using pad_len_size [of "length s"] by (simp add: writePaddedString_eq)

lemma writePadded_tag: "length pre mod 4 = 0 \<Longrightarrow> writePaddedString pre [CHR '','', c] = pre @ [CHR '','', c, NUL, NUL]"
  by (simp add: writePadded_append [of pre]) (simp add: writePaddedString_eq pad_len_def numeral_2_eq_2)

lemma marshal_scalar:
  assumes "valid_kind (sv_kind v)"
  shows "MarshalMessage (scalar_message address v) =
    guard_result (\<not> ValidAddress address) ErrInvalidAddress (Inr (writePaddedString [] address @ [CHR '','', typeTag v, NUL, NUL] @
      (if has_payload v then put_uint32 (sv_bits v) else [])))"
  using assms length_writePadded [of address]
  by (auto simp: MarshalMessage_def scalar_message_def value_of_scalar_def valid_kind_def scalar_kinds has_payload_def
    kind_defs typeTag_def Int32_def Float32_def Bool_def zero_value_def writePadded_tag guard_result_def)

lemma append_scalar_bytes:
  assumes "length buffer mod 4 = 0" "valid_kind (sv_kind v)" "ValidAddress address"
  shows "appendScalarMessage buffer address v = Inr (buffer @ scalar_bytes address v)"
    "MarshalMessage (scalar_message address v) = Inr (scalar_bytes address v)"
    "scalarMessageSize address v = Inr (int (length (scalar_bytes address v)))"
    "length (scalar_bytes address v) mod 4 = 0"
proof -
  have b: "scalar_bytes address v = writePaddedString [] address @ [CHR '','', typeTag v, NUL, NUL] @
      (if has_payload v then put_uint32 (sv_bits v) else [])"
    using assms by (simp add: scalar_bytes_def marshal_scalar)
  show "appendScalarMessage buffer address v = Inr (buffer @ scalar_bytes address v)"
    using assms writePadded_append [OF assms(1), of address]
    by (simp add: appendScalarMessage_def b typeTag_valid appendPaddedString_def flip: writePaddedString_def)
  show "MarshalMessage (scalar_message address v) = Inr (scalar_bytes address v)"
    using assms by (simp add: marshal_scalar b)
  show "length (scalar_bytes address v) mod 4 = 0" by (simp add: b length_writePadded)
  have "paddedStringSize address = int (length (writePaddedString [] address))"
    unfolding paddedStringSize_def and_not_3 length_writePadded by simp
  then show "scalarMessageSize address v = Inr (int (length (scalar_bytes address v)))"
    using assms by (simp add: scalarMessageSize_def typeTag_valid b Let_def)
qed

text \<open>The scalar writer appends exactly the bytes the general encoder of pkg/osc
  gives for the message with that one argument, and rejects the same addresses.\<close>

theorem appendScalarMessage_marshals:
  assumes "length buffer mod 4 = 0" and "valid_kind (sv_kind v)"
  shows "appendScalarMessage buffer address v =
    (case MarshalMessage (scalar_message address v) of Inl e \<Rightarrow> Inl e | Inr p \<Rightarrow> Inr (buffer @ p))"
proof (cases "ValidAddress address")
  case True
  then show ?thesis using append_scalar_bytes assms by simp
next
  case False
  then show ?thesis using assms(2) by (simp add: appendScalarMessage_def marshal_scalar)
qed

theorem appendScalarMessage_marshals_witness:
  "appendScalarMessage ''1234'' ''/x'' (intScalar 7) = Inr (''1234/x'' @ [NUL, NUL] @ '',i'' @ [NUL, NUL, NUL, NUL, NUL, CHR 0x07])"
proof -
  have "MarshalMessage (scalar_message ''/x'' (intScalar 7)) = Inr (''/x'' @ [NUL, NUL] @ '',i'' @ [NUL, NUL, NUL, NUL, NUL, CHR 0x07])"
    by code_simp
  then show ?thesis using appendScalarMessage_marshals [of "''1234''" "intScalar 7" "''/x''"]
    by (simp add: intScalar_def valid_kind_def)
qed


section \<open>Bundles decode to their messages\<close>

type_synonym scalar_item = "bytes \<times> scalar_value"

definition item_ok :: "scalar_item \<Rightarrow> bool" where
  "item_ok i \<longleftrightarrow> ValidAddress (fst i) \<and> valid_kind (sv_kind (snd i))"

abbreviation item_bytes :: "scalar_item \<Rightarrow> bytes" where
  "item_bytes i \<equiv> scalar_bytes (fst i) (snd i)"

abbreviation item_message :: "scalar_item \<Rightarrow> osc_message" where
  "item_message i \<equiv> scalar_message (fst i) (snd i)"

definition bundle_bytes :: "scalar_item list \<Rightarrow> bytes" where
  "bundle_bytes items = bundle_prefix @ put_uint64 1 @ concat (map (element_bytes \<circ> item_bytes) items)"

lemma length_bundle_bytes: "length (bundle_bytes items) = 16 + (\<Sum>i\<leftarrow>items. 4 + length (item_bytes i))"
  by (simp add: bundle_bytes_def element_bytes_def length_concat o_def)

lemma bundle_bytes_empty: "length (bundle_bytes items) = 16 \<longleftrightarrow> items = []"
  by (cases items) (simp_all add: length_bundle_bytes)

lemma bundle_bytes_aligned: "list_all item_ok items \<Longrightarrow> length (bundle_bytes items) mod 4 = 0"
proof -
  assume "list_all item_ok items"
  then have "(\<Sum>i\<leftarrow>items. 4 + length (item_bytes i)) mod 4 = 0"
  proof (induction items)
    case (Cons i items)
    then have "length (item_bytes i) mod 4 = 0" using append_scalar_bytes(4) [of "[]"] by (simp add: item_ok_def)
    then show ?case using Cons by (simp add: mod_add_eq [symmetric])
  qed simp
  then show ?thesis by (simp add: length_bundle_bytes mod_add_eq [symmetric])
qed

lemma unmarshal_message_packet:
  "MarshalMessage m = Inr p \<Longrightarrow> depth \<le> maxBundleDepth \<Longrightarrow> unmarshalPacket p depth = Inr [decoded_message m]"
  using unmarshal_marshal [of m p] marshal_slash [of m p]
  by (simp add: unmarshalPacket.simps has_prefix_bundle_slash not_less)

lemma item_decoded_at: "item_ok i \<Longrightarrow> depth \<le> maxBundleDepth \<Longrightarrow> unmarshalPacket (item_bytes i) depth = Inr [item_message i]"
proof -
  assume i: "item_ok i" "depth \<le> maxBundleDepth"
  then have "MarshalMessage (item_message i) = Inr (item_bytes i)" using append_scalar_bytes(2) [of "[]"] by (simp add: item_ok_def)
  moreover have "decoded_message (item_message i) = item_message i"
    by (simp add: decoded_message_def scalar_message_def value_of_scalar_def)
  ultimately show ?thesis using unmarshal_message_packet i(2) by fastforce
qed

lemma item_decoded: "item_ok i \<Longrightarrow> UnmarshalPacket (item_bytes i) = Inr [item_message i]"
  by (simp add: UnmarshalPacket_def item_decoded_at)

lemma appendScalar_item:
  assumes "bb_buffer b = bundle_bytes items" "list_all item_ok items" "item_ok i"
  shows "appendScalar (fst i) (snd i) b =
    (if maxDatagram b < int (length (bundle_bytes (items @ [i]))) then Inr (False, b)
     else Inr (True, b\<lparr>bb_buffer := bundle_bytes (items @ [i])\<rparr>))"
proof -
  have "length (bundle_bytes items @ replicate 4 NUL) mod 4 = 0"
    using bundle_bytes_aligned [OF assms(2)] by (simp add: mod_add_eq [symmetric])
  then show ?thesis
    using assms append_scalar_bytes [of "bundle_bytes items @ replicate 4 NUL" "snd i" "fst i"]
    by (simp add: appendScalar_def item_ok_def Let_def length_bundle_bytes) (simp add: bundle_bytes_def element_bytes_def)
qed

lemma item_bytes_slash: "item_ok i \<Longrightarrow> item_bytes i \<noteq> []"
  using append_scalar_bytes(2) [of "[]" "snd i" "fst i"] marshal_slash by (fastforce simp: item_ok_def)

lemma bundle_decoded:
  assumes "list_all item_ok items" "int (length (bundle_bytes items)) \<le> 2 ^ 31 - 1"
  shows "UnmarshalPacket (bundle_bytes items) = Inr (map item_message items)"
proof -
  have "length (item_bytes i) \<le> length (bundle_bytes items)" if "i \<in> set items" for i
    using member_le_sum_list [of "4 + length (item_bytes i)" "map (\<lambda>i. 4 + length (item_bytes i)) items"] that
    unfolding length_bundle_bytes by fastforce
  then have "list_all (\<lambda>e. e \<noteq> [] \<and> int (length e) \<le> 2 ^ 31 - 1) (map item_bytes items)"
    using assms item_bytes_slash by (fastforce simp: list_all_iff)
  moreover have "list_all2 (\<lambda>e ms. unmarshalPacket e (Suc 0) = Inr ms) (map item_bytes items) (map (\<lambda>i. [item_message i]) items)"
    using assms(1) item_decoded_at [of _ "Suc 0"] by (auto simp: list.rel_map list_all2_same list_all_iff maxBundleDepth_def)
  ultimately show ?thesis
    using unmarshalPacket_bundle [of 0 1 "concat (map element_bytes (map item_bytes items))"]
      bundle_loop_elements [of 0 "map item_bytes items" "map (\<lambda>i. [item_message i]) items" "bundle_prefix @ put_uint64 1" "[]"]
    by (simp add: UnmarshalPacket_def bundle_bytes_def o_def)
qed

end
