(* ===== verification/OscCatalog.thy ===== *)
theory OscCatalog
  imports OscBuilder Parameters "HOL-Library.AList" "HOL-Library.Char_ord" "HOL-Library.List_Lexorder"
    "HOL-Library.Product_Lexorder" "HOL-Library.Multiset"
begin

text \<open>
  internal/osc/parameter_catalog.go, vrcft_specs.go and catalog.go: the parameter table as the OSC
  side uses it, the matching of an avatar's endpoints to parameters, and the compilation of the
  matches to a flat list of outputs with unique addresses.
\<close>

unbundle bit_operations_syntax

section \<open>Parameter specifications\<close>

datatype definition_error = ErrInvalidParameterID | ErrDuplicateParameterID | ErrDuplicateOSCName | ErrEmptyOSCName
  | ErrInvalidOSCName | ErrUnsupportedValueType | ErrUnsupportedEncoding | ErrInvalidRange
  | ErrBinaryRequiresFloat | ErrBinaryRequiresRange

record parameter_spec =
  spec_ID :: nat
  spec_OSCName :: string
  spec_Kind :: parameter_kind
  spec_ValueType :: value_type
  spec_Encodings :: encoding
  spec_Range :: value_range
  spec_HasRange :: bool
  spec_Unit :: string

definition SupportsDirect :: "parameter_spec \<Rightarrow> bool" where
  "SupportsDirect s = (if spec_ValueType s = ValueFloat then encoding_has (spec_Encodings s) EncodingFloat
     else if spec_ValueType s = ParameterTable.ValueBool then encoding_has (spec_Encodings s) EncodingBool else False)"

definition SupportsBinary :: "parameter_spec \<Rightarrow> bool" where
  "SupportsBinary s \<longleftrightarrow> spec_ValueType s = ValueFloat \<and> encoding_has (spec_Encodings s) EncodingBinary"

definition spec_Signed :: "parameter_spec \<Rightarrow> bool" where
  "spec_Signed s \<longleftrightarrow> spec_HasRange s \<and> lt32 (range_Min (spec_Range s)) zero32"

definition spec_Clamp :: "parameter_spec \<Rightarrow> float32 \<Rightarrow> float32" where
  "spec_Clamp s v = (if \<not> spec_HasRange s then v
     else if lt32 v (range_Min (spec_Range s)) then range_Min (spec_Range s)
     else if lt32 (range_Max (spec_Range s)) v then range_Max (spec_Range s) else v)"

record parameter_catalog =
  byID :: "parameter_spec list"
  byOSCName :: "(string \<times> nat) list"

definition validateParameterSpec :: "parameter_spec \<Rightarrow> (definition_error, unit) result" where
  "validateParameterSpec s =
     bind_result
      (if spec_ValueType s = ValueFloat then
         guard_result (encoding_has (spec_Encodings s) EncodingBool) ErrUnsupportedEncoding
        (guard_result (\<not> encoding_has (spec_Encodings s) EncodingFloat \<and> \<not> encoding_has (spec_Encodings s) EncodingBinary)
           ErrUnsupportedEncoding (Inr ()))
       else if spec_ValueType s = ParameterTable.ValueBool then
         guard_result (\<not> encoding_has (spec_Encodings s) EncodingBool \<or> encoding_has (spec_Encodings s) EncodingFloat \<or>
           encoding_has (spec_Encodings s) EncodingBinary) ErrUnsupportedEncoding (Inr ())
       else Inl ErrUnsupportedValueType) (\<lambda>_.
     guard_result (spec_HasRange s \<and> (is_nan32 (range_Min (spec_Range s)) \<or> is_nan32 (range_Max (spec_Range s)) \<or>
       is_inf32 (range_Min (spec_Range s)) \<or> is_inf32 (range_Max (spec_Range s)) \<or>
       lt32 (range_Max (spec_Range s)) (range_Min (spec_Range s)))) ErrInvalidRange
    (guard_result (encoding_has (spec_Encodings s) EncodingBinary \<and> spec_ValueType s \<noteq> ValueFloat) ErrBinaryRequiresFloat
    (guard_result (encoding_has (spec_Encodings s) EncodingBinary \<and> \<not> spec_HasRange s) ErrBinaryRequiresRange (Inr ()))))"

definition compileParameterDefinition :: "parameter_definition \<Rightarrow> (definition_error, parameter_spec) result" where
  "compileParameterDefinition d = (let oscName = trim_char CHR ''/'' (trim_space (OSCName d)) in
     guard_result (oscName = []) ErrEmptyOSCName
    (guard_result (sublist ''//'' oscName \<or> has_prefix oscName ''avatar/parameters/'') ErrInvalidOSCName
    (let spec = \<lparr>spec_ID = pd_ID d, spec_OSCName = oscName, spec_Kind = pd_Kind d, spec_ValueType = pd_ValueType d,
         spec_Encodings = pd_Encodings d, spec_Range = pd_Range d, spec_HasRange = HasRange d, spec_Unit = pd_Unit d\<rparr>
     in bind_result (validateParameterSpec spec) (\<lambda>_. Inr spec))))"

definition catalog_step :: "nat \<Rightarrow> nat \<times> parameter_definition \<Rightarrow> parameter_catalog \<times> bool list \<Rightarrow>
    (nat \<times> definition_error, parameter_catalog \<times> bool list) result" where
  \<comment> \<open>the loop body of NewParameterCatalog; an error carries its index\<close>
  "catalog_step n = (\<lambda>(index, d) (c, seenIDs).
     guard_result (n \<le> pd_ID d) (index, ErrInvalidParameterID)
    (guard_result (seenIDs ! pd_ID d) (index, ErrDuplicateParameterID)
    (guard_result (pd_ID d \<noteq> index) (index, ErrInvalidParameterID)
    (case compileParameterDefinition d of
       Inl e \<Rightarrow> Inl (index, e)
     | Inr spec \<Rightarrow> guard_result (map_of (byOSCName c) (spec_OSCName spec) \<noteq> None) (index, ErrDuplicateOSCName)
         (Inr (c\<lparr>byID := (byID c)[pd_ID d := spec], byOSCName := AList.update (spec_OSCName spec) (spec_ID spec) (byOSCName c)\<rparr>,
            seenIDs[pd_ID d := True]))))))"

definition zero_spec :: parameter_spec where
  \<comment> \<open>the zero struct make fills the slice with; every slot is assigned before the catalog is returned\<close>
  "zero_spec = \<lparr>spec_ID = 0, spec_OSCName = [], spec_Kind = KindDetailed, spec_ValueType = 0, spec_Encodings = 0,
     spec_Range = \<lparr>range_Min = zero32, range_Max = zero32\<rparr>, spec_HasRange = False, spec_Unit = []\<rparr>"

definition NewParameterCatalog :: "parameter_definition list \<Rightarrow> (nat \<times> definition_error, parameter_catalog) result" where
  "NewParameterCatalog ds = bind_result
     (fold_result (catalog_step (length ds)) (enumerate 0 ds)
       (\<lparr>byID = replicate (length ds) zero_spec, byOSCName = []\<rparr>, replicate (length ds) False))
     (\<lambda>(c, _). Inr c)"

definition NewVRCFTParameterCatalog :: "(nat \<times> definition_error, parameter_catalog) result" where
  "NewVRCFTParameterCatalog = NewParameterCatalog Definitions"

definition catalog_Spec :: "parameter_catalog \<Rightarrow> nat \<Rightarrow> parameter_spec option" where
  "catalog_Spec c pid = (if length (byID c) \<le> pid then None else Some (byID c ! pid))"

definition catalog_LookupOSCName :: "parameter_catalog \<Rightarrow> string \<Rightarrow> nat option" where
  "catalog_LookupOSCName c name = map_of (byOSCName c) (trim_char CHR ''/'' name)"

section \<open>Resolving addresses\<close>

definition normalizeParameterAddress :: "string \<Rightarrow> string" where
  "normalizeParameterAddress address = trim_char CHR ''/'' (trim_prefix (trim_space address) ''/avatar/parameters/'')"

record address_match =
  am_ID :: nat
  am_Prefix :: string

definition catalog_ResolveAddress :: "parameter_catalog \<Rightarrow> string \<Rightarrow> address_match option" where
  "catalog_ResolveAddress c address =
    (let normalized = normalizeParameterAddress address; parts = split_char CHR ''/'' normalized in
     if normalized = [] then None
     else first_some (\<lambda>i. map_option (\<lambda>pid. \<lparr>am_ID = pid, am_Prefix = join_char CHR ''/'' (take i parts)\<rparr>)
       (map_of (byOSCName c) (join_char CHR ''/'' (drop i parts)))) [0..<length parts])"

definition splitBinaryWeight :: "string \<Rightarrow> (string \<times> u32) option" where
  "splitBinaryWeight candidate =
    (let digits = rev (takeWhile is_digit (rev candidate)); index = length candidate - length digits in
     if index = length candidate \<or> index = 0 then None
     else case parse_uint32 digits of
       None \<Rightarrow> None
     | Some weight \<Rightarrow> if weight = 0 \<or> weight AND (weight - 1) \<noteq> 0 then None else Some (take index candidate, weight))"

record binary_address_match =
  bm_ID :: nat
  bm_Prefix :: string
  bm_Negative :: bool
  bm_Weight :: u32

definition binary_candidate :: "parameter_catalog \<Rightarrow> string \<Rightarrow> string \<Rightarrow> binary_address_match option" where
  \<comment> \<open>the loop body of ResolveBinaryAddress\<close>
  "binary_candidate c candidate pre =
    (let negative = (if has_suffix candidate ''Negative'' then
           (case map_of (byOSCName c) (trim_suffix candidate ''Negative'') of
              Some pid \<Rightarrow> if SupportsBinary (byID c ! pid) \<and> spec_Signed (byID c ! pid)
                then Some \<lparr>bm_ID = pid, bm_Prefix = pre, bm_Negative = True, bm_Weight = 0\<rparr> else None
            | None \<Rightarrow> None)
         else None)
     in case negative of Some m \<Rightarrow> Some m
     | None \<Rightarrow> (case splitBinaryWeight candidate of
         None \<Rightarrow> None
       | Some (name, weight) \<Rightarrow> (case map_of (byOSCName c) name of
           None \<Rightarrow> None
         | Some pid \<Rightarrow> if \<not> SupportsBinary (byID c ! pid) then None
             else Some \<lparr>bm_ID = pid, bm_Prefix = pre, bm_Negative = False, bm_Weight = weight\<rparr>)))"

definition catalog_ResolveBinaryAddress :: "parameter_catalog \<Rightarrow> string \<Rightarrow> binary_address_match option" where
  "catalog_ResolveBinaryAddress c address =
    (let normalized = normalizeParameterAddress address; parts = split_char CHR ''/'' normalized in
     if normalized = [] then None
     else first_some (\<lambda>i. binary_candidate c (join_char CHR ''/'' (drop i parts)) (join_char CHR ''/'' (take i parts)))
       [0..<length parts])"

section \<open>Catalogs\<close>

record endpoint =
  ep_Address :: bytes
  ep_Type :: string

record binary_bit =
  bit_Endpoint :: endpoint
  bit_Weight :: u32

record binary_binding =
  bb_Negative :: "endpoint option"
  Bits :: "binary_bit list"

record parameter_binding =
  pb_Spec :: parameter_spec
  pb_Direct :: "endpoint list"
  pb_Binary :: "binary_binding list"

type_synonym output_operation = u8

definition outputDirectFloat :: output_operation where "outputDirectFloat = 1"
definition outputDirectBool :: output_operation where "outputDirectBool = 2"
definition outputBinaryNegative :: output_operation where "outputBinaryNegative = 3"
definition outputBinaryBit :: output_operation where "outputBinaryBit = 4"

lemmas output_operations = outputDirectFloat_def outputDirectBool_def outputBinaryNegative_def outputBinaryBit_def

record output_binding =
  ob_Parameter :: nat
  ob_Address :: bytes
  ob_Operation :: output_operation
  WireKind :: scalar_kind
  ob_Weight :: u32
  QuantizeMax :: u32
  ob_Range :: value_range
  ob_HasRange :: bool
  CacheIndex :: u16

type_synonym bindings = "(nat \<times> parameter_binding) list" \<comment> \<open>a Go map\<close>

record osc_catalog =
  oc_Generation :: u64
  oc_UpdatedAt :: int
  oc_Hash :: u64
  oc_Bindings :: bindings
  RawMethods :: "endpoint list"
  Outputs :: "output_binding list"

datatype catalog_error = NilParameterCatalog | InvalidEndpointAddress bytes | UnsupportedEndpointType string
  | ErrConflictingOSCAddress bytes | ErrTooManyOSCOutputs

definition supportedParameterType :: "string \<Rightarrow> bool" where
  "supportedParameterType typ \<longleftrightarrow> typ = ''f'' \<or> typ = ''i'' \<or> typ = ''T'' \<or> typ = ''F''"

definition endpointWireKind :: "string \<Rightarrow> (catalog_error, scalar_kind) result" where
  "endpointWireKind typ = (if typ = ''f'' then Inr scalarFloat32 else if typ = ''i'' then Inr scalarInt32
     else if typ = ''T'' \<or> typ = ''F'' then Inr scalarFalse else Inl (UnsupportedEndpointType typ))"

definition sortEndpoints :: "endpoint list \<Rightarrow> endpoint list" where
  "sortEndpoints es = sort_key (\<lambda>e. (ep_Address e, ep_Type e)) es"

section \<open>Compiling outputs\<close>

definition direct_output :: "nat \<Rightarrow> parameter_spec \<Rightarrow> endpoint \<Rightarrow> scalar_kind \<Rightarrow> output_binding" where
  "direct_output pid spec e kind = \<lparr>ob_Parameter = pid, ob_Address = ep_Address e,
     ob_Operation = (if spec_ValueType spec = ParameterTable.ValueBool then outputDirectBool else outputDirectFloat),
     WireKind = kind, ob_Weight = 0, QuantizeMax = 0, ob_Range = spec_Range spec, ob_HasRange = spec_HasRange spec, CacheIndex = 0\<rparr>"

definition binary_output :: "nat \<Rightarrow> parameter_spec \<Rightarrow> output_operation \<Rightarrow> u32 \<Rightarrow> u32 \<Rightarrow> endpoint \<Rightarrow> scalar_kind \<Rightarrow> output_binding" where
  "binary_output pid spec operation weight qmax e kind = \<lparr>ob_Parameter = pid, ob_Address = ep_Address e, ob_Operation = operation,
     WireKind = kind, ob_Weight = weight, QuantizeMax = qmax, ob_Range = spec_Range spec, ob_HasRange = spec_HasRange spec, CacheIndex = 0\<rparr>"

definition emit_output :: "(endpoint \<Rightarrow> scalar_kind \<Rightarrow> output_binding) \<Rightarrow> endpoint \<Rightarrow> output_binding list \<Rightarrow>
    (catalog_error, output_binding list) result" where
  "emit_output output_for e outputs = bind_result (endpointWireKind (ep_Type e)) (\<lambda>kind. Inr (outputs @ [output_for e kind]))"

definition quantize_max :: "binary_bit list \<Rightarrow> u32" where
  "quantize_max bits = foldl (\<lambda>m b. m OR bit_Weight b) 0 bits"

definition binary_outputs :: "nat \<Rightarrow> parameter_spec \<Rightarrow> binary_binding \<Rightarrow> output_binding list \<Rightarrow>
    (catalog_error, output_binding list) result" where
  "binary_outputs pid spec b outputs = (let qmax = quantize_max (Bits b) in
     bind_result (case bb_Negative b of None \<Rightarrow> Inr outputs
       | Some e \<Rightarrow> emit_output (binary_output pid spec outputBinaryNegative 0 qmax) e outputs) (\<lambda>outputs.
     fold_result (\<lambda>bt. emit_output (binary_output pid spec outputBinaryBit (bit_Weight bt) qmax) (bit_Endpoint bt)) (Bits b) outputs))"

definition binding_outputs :: "nat \<times> parameter_binding \<Rightarrow> output_binding list \<Rightarrow> (catalog_error, output_binding list) result" where
  "binding_outputs = (\<lambda>(pid, b) outputs.
     bind_result (fold_result (emit_output (direct_output pid (pb_Spec b))) (pb_Direct b) outputs)
       (fold_result (binary_outputs pid (pb_Spec b)) (pb_Binary b)))"

definition output_key :: "output_binding \<Rightarrow> bytes \<times> nat \<times> output_operation \<times> scalar_kind \<times> u32" where
  "output_key o1 = (ob_Address o1, ob_Parameter o1, ob_Operation o1, WireKind o1, ob_Weight o1)"

fun unique_outputs :: "output_binding list \<Rightarrow> output_binding list \<Rightarrow> (catalog_error, output_binding list) result" where
  "unique_outputs unique [] = Inr unique"
| "unique_outputs unique (x # xs) =
    (if unique \<noteq> [] \<and> ob_Address (last unique) = ob_Address x then
       if last unique\<lparr>CacheIndex := 0\<rparr> = x\<lparr>CacheIndex := 0\<rparr> then unique_outputs unique xs
       else Inl (ErrConflictingOSCAddress (ob_Address x))
     else unique_outputs (unique @ [x]) xs)"

definition number_outputs :: "output_binding list \<Rightarrow> output_binding list" where
  "number_outputs xs = map (\<lambda>(i, x). x\<lparr>CacheIndex := word_of_nat i\<rparr>) (enumerate 0 xs)"

definition compileOutputs :: "bindings \<Rightarrow> (catalog_error, output_binding list) result" where
  \<comment> \<open>the map is visited in the order of the list; the result does not depend on it\<close>
  "compileOutputs bs =
     bind_result (fold_result binding_outputs bs []) (\<lambda>outputs.
     bind_result (unique_outputs [] (sort_key output_key outputs)) (\<lambda>unique.
     guard_result (65535 + 1 < int (length unique)) ErrTooManyOSCOutputs (Inr (number_outputs unique))))"

section \<open>The catalog's hash\<close>

definition fnv_byte :: "u64 \<Rightarrow> char \<Rightarrow> u64" where
  \<comment> \<open>hash/fnv, 64-bit FNV-1a\<close>
  "fnv_byte h c = (h XOR word_of_int (of_char c)) * 1099511628211"

definition hash_output :: "u64 \<Rightarrow> output_binding \<Rightarrow> u64" where
  "hash_output h x = foldl fnv_byte h
     (ob_Address x @ [NUL, char_of (unat (ob_Operation x)), char_of (unat (WireKind x))] @
      put_uint64 (word_of_nat (ob_Parameter x)) @ put_uint32 (ob_Weight x) @ put_uint32 (QuantizeMax x) @
      put_uint32 (Float32bits (range_Min (ob_Range x))) @ put_uint32 (Float32bits (range_Max (ob_Range x))) @
      [if ob_HasRange x then CHR 0x01 else CHR 0x00])"

definition hashCatalog :: "output_binding list \<Rightarrow> u64" where
  "hashCatalog xs = foldl hash_output 14695981039346656037 xs"

section \<open>Building a catalog\<close>

record binary_group =
  bg_negative :: "endpoint option"
  bg_bits :: "binary_bit list"

type_synonym groups = "(nat \<times> (string \<times> binary_group) list) list"

definition find_binding :: "bindings \<Rightarrow> nat \<Rightarrow> parameter_binding" where
  "find_binding bs pid = (case map_of bs pid of Some b \<Rightarrow> b
     | None \<Rightarrow> \<lparr>pb_Spec = zero_spec, pb_Direct = [], pb_Binary = []\<rparr>)"

definition find_group :: "(string \<times> binary_group) list \<Rightarrow> string \<Rightarrow> binary_group" where
  "find_group gs pre = (case map_of gs pre of Some g \<Rightarrow> g | None \<Rightarrow> \<lparr>bg_negative = None, bg_bits = []\<rparr>)"

definition find_groups :: "groups \<Rightarrow> nat \<Rightarrow> (string \<times> binary_group) list" where
  "find_groups gs pid = (case map_of gs pid of Some g \<Rightarrow> g | None \<Rightarrow> [])"

definition bind_endpoint :: "parameter_catalog \<Rightarrow> endpoint \<Rightarrow> bindings \<times> groups \<Rightarrow> bindings \<times> groups" where
  \<comment> \<open>the body of the loop over the endpoints\<close>
  "bind_endpoint specs e = (\<lambda>(bs, gs).
     case catalog_ResolveAddress specs (ep_Address e) of
       Some m \<Rightarrow> (case catalog_Spec specs (am_ID m) of
           Some spec \<Rightarrow> if SupportsDirect spec then
               (let b = find_binding bs (am_ID m) in
                 (AList.update (am_ID m) (b\<lparr>pb_Spec := spec, pb_Direct := pb_Direct b @ [e]\<rparr>) bs, gs))
             else (bs, gs)
         | None \<Rightarrow> (bs, gs))
     | None \<Rightarrow> (case catalog_ResolveBinaryAddress specs (ep_Address e) of
         None \<Rightarrow> (bs, gs)
       | Some m \<Rightarrow> (case catalog_Spec specs (bm_ID m) of
           None \<Rightarrow> (bs, gs)
         | Some spec \<Rightarrow> if \<not> SupportsBinary spec then (bs, gs)
             else let parameterGroups = find_groups gs (bm_ID m); g = find_group parameterGroups (bm_Prefix m);
                 g = (if bm_Negative m then g\<lparr>bg_negative := Some e\<rparr>
                   else g\<lparr>bg_bits := bg_bits g @ [\<lparr>bit_Endpoint = e, bit_Weight = bm_Weight m\<rparr>]\<rparr>)
               in (AList.update (bm_ID m) ((find_binding bs (bm_ID m))\<lparr>pb_Spec := spec\<rparr>) bs,
                   AList.update (bm_ID m) (AList.update (bm_Prefix m) g parameterGroups) gs))))"

definition finish_binding :: "groups \<Rightarrow> nat \<times> parameter_binding \<Rightarrow> nat \<times> parameter_binding" where
  \<comment> \<open>the body of the loop over the bindings\<close>
  "finish_binding gs = (\<lambda>(pid, b). (pid, b\<lparr>pb_Direct := sortEndpoints (pb_Direct b),
     pb_Binary := pb_Binary b @ List.map_filter (\<lambda>pre. let g = find_group (find_groups gs pid) pre in
       if bg_bits g = [] then None else Some \<lparr>bb_Negative = bg_negative g, Bits = sort_key bit_Weight (bg_bits g)\<rparr>)
       (sort (map fst (find_groups gs pid)))\<rparr>))"

fun check_endpoints :: "endpoint list \<Rightarrow> (catalog_error, unit) result" where
  "check_endpoints [] = Inr ()"
| "check_endpoints (e # es) =
     guard_result (\<not> ValidAddress (ep_Address e)) (InvalidEndpointAddress (ep_Address e))
    (guard_result (\<not> supportedParameterType (ep_Type e)) (UnsupportedEndpointType (ep_Type e)) (check_endpoints es))"

definition BuildCatalogFromEndpoints :: "int \<Rightarrow> endpoint list \<Rightarrow> parameter_catalog option \<Rightarrow> u64 \<Rightarrow> (catalog_error, osc_catalog) result" where
  \<comment> \<open>at the time now\<close>
  "BuildCatalogFromEndpoints now es specs generation = (case specs of None \<Rightarrow> Inl NilParameterCatalog
   | Some specs \<Rightarrow> bind_result (check_endpoints es) (\<lambda>_.
       let (bs, gs) = fold (bind_endpoint specs) es ([], []); bs = map (finish_binding gs) bs in
       bind_result (compileOutputs bs) (\<lambda>outputs.
         Inr \<lparr>oc_Generation = generation, oc_UpdatedAt = now, oc_Hash = hashCatalog outputs, oc_Bindings = bs,
              RawMethods = sortEndpoints es, Outputs = outputs\<rparr>)))"

section \<open>What the compiled outputs are\<close>

definition wire_kind :: "string \<Rightarrow> scalar_kind" where
  "wire_kind typ = (if typ = ''f'' then scalarFloat32 else if typ = ''i'' then scalarInt32 else scalarFalse)"

text \<open>The outputs a binding asks for, as a set: no order, no numbering, no errors.\<close>

definition wanted_binary :: "nat \<Rightarrow> parameter_spec \<Rightarrow> binary_binding \<Rightarrow> output_binding set" where
  "wanted_binary pid spec b =
     (\<lambda>e. binary_output pid spec outputBinaryNegative 0 (quantize_max (Bits b)) e (wire_kind (ep_Type e))) ` set_option (bb_Negative b) \<union>
     (\<lambda>bt. binary_output pid spec outputBinaryBit (bit_Weight bt) (quantize_max (Bits b)) (bit_Endpoint bt)
       (wire_kind (ep_Type (bit_Endpoint bt)))) ` set (Bits b)"

definition wanted :: "bindings \<Rightarrow> output_binding set" where
  "wanted bs = (\<Union>(pid, b) \<in> set bs.
     (\<lambda>e. direct_output pid (pb_Spec b) e (wire_kind (ep_Type e))) ` set (pb_Direct b) \<union>
     (\<Union>bb \<in> set (pb_Binary b). wanted_binary pid (pb_Spec b) bb))"

definition binary_endpoints :: "binary_binding \<Rightarrow> endpoint set" where
  "binary_endpoints b = set_option (bb_Negative b) \<union> bit_Endpoint ` set (Bits b)"

definition endpoints_of :: "bindings \<Rightarrow> endpoint set" where
  "endpoints_of bs = (\<Union>(pid, b) \<in> set bs. set (pb_Direct b) \<union> (\<Union>bb \<in> set (pb_Binary b). binary_endpoints bb))"

definition supported :: "endpoint set \<Rightarrow> bool" where
  "supported E \<longleftrightarrow> (\<forall>e \<in> E. supportedParameterType (ep_Type e))"

lemma supported_Un [simp]: "supported (A \<union> B) \<longleftrightarrow> supported A \<and> supported B" "supported (insert e A) \<longleftrightarrow> supportedParameterType (ep_Type e) \<and> supported A"
  "supported {}"
  by (auto simp: supported_def)

lemma emit_supported [simp]:
  "supportedParameterType (ep_Type e) \<Longrightarrow> emit_output f e outs = Inr (outs @ [f e (wire_kind (ep_Type e))])"
  by (auto simp: emit_output_def endpointWireKind_def wire_kind_def supportedParameterType_def)

lemma emit_fold:
  "supported (g ` set xs) \<Longrightarrow> fold_result (\<lambda>x. emit_output (f x) (g x)) xs outs =
    Inr (outs @ map (\<lambda>x. f x (g x) (wire_kind (ep_Type (g x)))) xs)"
  by (induction xs arbitrary: outs) auto

lemma binary_outputs_set:
  assumes "supported (binary_endpoints b)"
  shows "\<exists>new. binary_outputs pid spec b outs = Inr (outs @ new) \<and> set new = wanted_binary pid spec b"
  using assms emit_fold [of bit_Endpoint "Bits b" "\<lambda>bt. binary_output pid spec outputBinaryBit (bit_Weight bt) (quantize_max (Bits b))"]
  by (cases "bb_Negative b") (auto simp: binary_outputs_def Let_def wanted_binary_def binary_endpoints_def)

lemma fold_result_collect:
  assumes "\<And>x outs. x \<in> set xs \<Longrightarrow> \<exists>new. f x outs = Inr (outs @ new) \<and> set new = W x"
  shows "\<exists>new. fold_result f xs outs = Inr (outs @ new) \<and> set new = (\<Union>x \<in> set xs. W x)"
  using assms
proof (induction xs arbitrary: outs)
  case (Cons x xs)
  obtain new where n: "f x outs = Inr (outs @ new)" "set new = W x" using Cons.prems by fastforce
  moreover obtain new' where "fold_result f xs (outs @ new) = Inr ((outs @ new) @ new')" "set new' = (\<Union>x \<in> set xs. W x)"
    using Cons.IH [of "outs @ new"] Cons.prems by fastforce
  ultimately show ?case by (intro exI [of _ "new @ new'"]) simp
qed simp

lemma binding_outputs_set:
  assumes "supported (set (pb_Direct b) \<union> (\<Union>bb \<in> set (pb_Binary b). binary_endpoints bb))"
  shows "\<exists>new. binding_outputs (pid, b) outs = Inr (outs @ new) \<and> set new = wanted [(pid, b)]"
proof -
  have d: "fold_result (emit_output (direct_output pid (pb_Spec b))) (pb_Direct b) outs =
      Inr (outs @ map (\<lambda>e. direct_output pid (pb_Spec b) e (wire_kind (ep_Type e))) (pb_Direct b))"
    using emit_fold [of "\<lambda>e. e" "pb_Direct b" "\<lambda>_. direct_output pid (pb_Spec b)"] assms by simp
  let ?outs = "outs @ map (\<lambda>e. direct_output pid (pb_Spec b) e (wire_kind (ep_Type e))) (pb_Direct b)"
  have "\<exists>new. fold_result (binary_outputs pid (pb_Spec b)) (pb_Binary b) ?outs = Inr (?outs @ new) \<and>
      set new = (\<Union>bb \<in> set (pb_Binary b). wanted_binary pid (pb_Spec b) bb)"
  proof (rule fold_result_collect)
    fix x outs assume "x \<in> set (pb_Binary b)"
    then have "supported (binary_endpoints x)" using assms by (auto simp: supported_def)
    then show "\<exists>new. binary_outputs pid (pb_Spec b) x outs = Inr (outs @ new) \<and> set new = wanted_binary pid (pb_Spec b) x"
      by (rule binary_outputs_set)
  qed
  then obtain new where "fold_result (binary_outputs pid (pb_Spec b)) (pb_Binary b) ?outs = Inr (?outs @ new)"
    "set new = (\<Union>bb \<in> set (pb_Binary b). wanted_binary pid (pb_Spec b) bb)" by blast
  then show ?thesis by (simp add: binding_outputs_def d wanted_def)
qed

lemma raw_outputs_set:
  assumes "supported (endpoints_of bs)"
  shows "\<exists>raw. fold_result binding_outputs bs [] = Inr raw \<and> set raw = wanted bs"
proof -
  have "\<exists>new. fold_result binding_outputs bs [] = Inr ([] @ new) \<and> set new = (\<Union>x \<in> set bs. wanted [x])"
  proof (rule fold_result_collect)
    fix x outs assume x: "x \<in> set bs"
    obtain pid b where "x = (pid, b)" by fastforce
    moreover have "supported (set (pb_Direct (snd x)) \<union> (\<Union>bb \<in> set (pb_Binary (snd x)). binary_endpoints bb))"
      using assms x by (fastforce simp: endpoints_of_def supported_def)
    ultimately show "\<exists>new. binding_outputs x outs = Inr (outs @ new) \<and> set new = wanted [x]"
      using binding_outputs_set by simp
  qed
  moreover have "(\<Union>x \<in> set bs. wanted [x]) = wanted bs" by (auto simp: wanted_def)
  ultimately show ?thesis by simp
qed

lemma wanted_fresh: "x \<in> wanted bs \<Longrightarrow> CacheIndex x = 0"
  by (auto simp: wanted_def wanted_binary_def direct_output_def binary_output_def split: if_splits)

lemma fresh_update: "CacheIndex x = 0 \<Longrightarrow> x\<lparr>CacheIndex := 0\<rparr> = x"
  by simp

lemma unique_outputs_cases:
  assumes "sorted (map ob_Address (unique @ xs))" "distinct (map ob_Address unique)" "\<forall>x \<in> set (unique @ xs). CacheIndex x = 0"
  shows "if inj_on ob_Address (set (unique @ xs))
    then \<exists>ys. unique_outputs unique xs = Inr ys \<and> set ys = set (unique @ xs) \<and> sorted_wrt (<) (map ob_Address ys)
    else \<exists>a. unique_outputs unique xs = Inl (ErrConflictingOSCAddress a)"
  using assms
proof (induction unique xs rule: unique_outputs.induct)
  case (1 unique)
  then show ?case by (simp add: strict_sorted_iff distinct_map)
next
  case (2 unique x xs)
  show ?case
  proof (cases "unique \<noteq> [] \<and> ob_Address (last unique) = ob_Address x")
    case True
    then have l: "last unique \<in> set unique" by simp
    show ?thesis
    proof (cases "last unique = x")
      case same: True
      then have "set (unique @ x # xs) = set (unique @ xs)" using l by auto
      then show ?thesis using 2 True same
        by (cases "inj_on ob_Address (set (unique @ xs))") (simp_all add: fresh_update sorted_append)
    next
      case False
      then have "last unique\<lparr>CacheIndex := 0\<rparr> \<noteq> x\<lparr>CacheIndex := 0\<rparr>" using 2(5) l by (simp add: fresh_update)
      moreover have "\<not> inj_on ob_Address (set (unique @ x # xs))"
        using True False l by (auto simp: inj_on_def)
      ultimately show ?thesis using True by simp
    qed
  next
    case False
    have "ob_Address x \<notin> ob_Address ` set unique"
    proof
      assume "ob_Address x \<in> ob_Address ` set unique"
      then obtain y where y: "y \<in> set unique" "ob_Address y = ob_Address x" by (metis imageE)
      then have "unique \<noteq> []" by auto
      then obtain front l where u: "unique = front @ [l]" using rev_exhaust by blast
      then have "ob_Address l \<le> ob_Address x" "y = l \<or> ob_Address y \<le> ob_Address l" using 2(3) y(1) by (auto simp: sorted_append)
      then show False using False u y by auto
    qed
    moreover have "unique_outputs unique (x # xs) = unique_outputs (unique @ [x]) xs"
      using False by (simp only: unique_outputs.simps if_False)
    moreover have "set ((unique @ [x]) @ xs) = set (unique @ x # xs)" by simp
    moreover have "(unique @ [x]) @ xs = unique @ x # xs" by simp
    ultimately show ?thesis using 2(2) [OF False] 2(3-) by (simp only: map_append list.map distinct_append) simp
  qed
qed

lemma finite_wanted: "finite (wanted bs)"
proof -
  have "finite (wanted_binary pid spec b)" for pid spec b by (simp add: wanted_binary_def)
  then show ?thesis by (auto simp: wanted_def)
qed

lemma compileOutputs_cases:
  assumes "supported (endpoints_of bs)"
  shows "if inj_on ob_Address (wanted bs)
    then \<exists>ys. set ys = wanted bs \<and> sorted_wrt (<) (map ob_Address ys) \<and>
      compileOutputs bs = (if 65536 < card (wanted bs) then Inl ErrTooManyOSCOutputs else Inr (number_outputs ys))
    else \<exists>a. compileOutputs bs = Inl (ErrConflictingOSCAddress a)"
proof -
  obtain raw where raw: "fold_result binding_outputs bs [] = Inr raw" "set raw = wanted bs"
    using raw_outputs_set [OF assms] by blast
  let ?xs = "sort_key output_key raw"
  have "sorted (map ob_Address ?xs)"
  proof -
    have "sorted (map output_key ?xs)" by simp
    then show ?thesis unfolding sorted_map
      by (rule sorted_wrt_mono_rel [rotated]) (auto simp: output_key_def)
  qed
  then have u: "if inj_on ob_Address (wanted bs) then \<exists>ys. unique_outputs [] ?xs = Inr ys \<and> set ys = wanted bs \<and> sorted_wrt (<) (map ob_Address ys)
      else \<exists>a. unique_outputs [] ?xs = Inl (ErrConflictingOSCAddress a)"
    using unique_outputs_cases [of "[]" ?xs] raw(2) wanted_fresh by (auto split: if_splits)
  show ?thesis
  proof (cases "inj_on ob_Address (wanted bs)")
    case True
    then obtain ys where ys: "unique_outputs [] ?xs = Inr ys" "set ys = wanted bs" "sorted_wrt (<) (map ob_Address ys)" using u by auto
    then have "distinct ys" by (metis distinct_map strict_sorted_iff)
    then have "length ys = card (wanted bs)" using ys(2) distinct_card by metis
    then have "compileOutputs bs = (if 65536 < card (wanted bs) then Inl ErrTooManyOSCOutputs else Inr (number_outputs ys))"
      using ys(1) raw(1) by (simp add: compileOutputs_def)
    then show ?thesis using True ys by auto
  next
    case False
    then show ?thesis using u raw(1) by (auto simp: compileOutputs_def)
  qed
qed

lemma number_outputs_nth: "i < length xs \<Longrightarrow> number_outputs xs ! i = (xs ! i)\<lparr>CacheIndex := word_of_nat i\<rparr>"
  by (simp add: number_outputs_def nth_enumerate_eq)

lemma number_outputs_simps [simp]:
  "length (number_outputs xs) = length xs" "map ob_Address (number_outputs xs) = map ob_Address xs"
proof -
  show len: "length (number_outputs xs) = length xs" by (simp add: number_outputs_def)
  show "map ob_Address (number_outputs xs) = map ob_Address xs"
    by (rule nth_equalityI) (simp_all add: len number_outputs_nth)
qed

lemma number_outputs_clear:
  assumes "\<forall>x \<in> set xs. CacheIndex x = 0"
  shows "(\<lambda>x. x\<lparr>CacheIndex := 0\<rparr>) ` set (number_outputs xs) = set xs"
proof -
  have "map (\<lambda>x. x\<lparr>CacheIndex := 0\<rparr>) (number_outputs xs) = xs"
    using assms by (intro nth_equalityI) (simp_all add: number_outputs_nth fresh_update)
  then show ?thesis by (metis list.set_map)
qed

text \<open>C33 (functional). The compiled outputs of a set of bindings are exactly the outputs the bindings
  ask for, each once, in strictly increasing order of their addresses and numbered in that order.
  Compilation fails only if two different outputs want the same address, or if there are more than
  the 65536 the numbering has room for.\<close>

theorem compileOutputs_exact:
  assumes "supported (endpoints_of bs)"
  shows "case compileOutputs bs of
      Inr outs \<Rightarrow> sorted_wrt (<) (map ob_Address outs) \<and> (\<lambda>x. x\<lparr>CacheIndex := 0\<rparr>) ` set outs = wanted bs \<and>
        (\<forall>i < length outs. unat (CacheIndex (outs ! i)) = i)
    | Inl (ErrConflictingOSCAddress a) \<Rightarrow> \<not> inj_on ob_Address (wanted bs)
    | Inl ErrTooManyOSCOutputs \<Rightarrow> inj_on ob_Address (wanted bs) \<and> 65536 < card (wanted bs)
    | Inl _ \<Rightarrow> False"
proof (cases "inj_on ob_Address (wanted bs)")
  case True
  then obtain ys where ys: "set ys = wanted bs" "sorted_wrt (<) (map ob_Address ys)"
      "compileOutputs bs = (if 65536 < card (wanted bs) then Inl ErrTooManyOSCOutputs else Inr (number_outputs ys))"
    using compileOutputs_cases [OF assms] by auto
  have "distinct ys" using ys(2) by (metis distinct_map strict_sorted_iff)
  then have "length ys = card (wanted bs)" using ys(1) distinct_card by metis
  then have "i < length ys \<Longrightarrow> \<not> 65536 < card (wanted bs) \<Longrightarrow> unat (word_of_nat i :: u16) = i" for i
    by (simp add: unat_of_nat take_bit_eq_mod)
  then show ?thesis using True ys number_outputs_clear [of ys] wanted_fresh by (auto simp: number_outputs_nth)
next
  case False
  then show ?thesis using compileOutputs_cases [OF assms] by auto
qed

text \<open>The outputs do not depend on the order in which the map of bindings is
  visited, which Go leaves open.\<close>

theorem compileOutputs_order:
  assumes "supported (endpoints_of bs)" and "set bs' = set bs" and "compileOutputs bs = Inr outs"
  shows "compileOutputs bs' = Inr outs"
proof -
  have same: "wanted bs' = wanted bs" "endpoints_of bs' = endpoints_of bs" using assms(2) by (simp_all add: wanted_def endpoints_of_def)
  then have inj: "inj_on ob_Address (wanted bs)" using compileOutputs_cases [OF assms(1)] assms(3) by (auto split: if_splits)
  then obtain ys ys' where ys: "set ys = wanted bs" "sorted_wrt (<) (map ob_Address ys)"
      "compileOutputs bs = (if 65536 < card (wanted bs) then Inl ErrTooManyOSCOutputs else Inr (number_outputs ys))"
    and ys': "set ys' = wanted bs" "sorted_wrt (<) (map ob_Address ys')"
      "compileOutputs bs' = (if 65536 < card (wanted bs) then Inl ErrTooManyOSCOutputs else Inr (number_outputs ys'))"
    using compileOutputs_cases [OF assms(1)] compileOutputs_cases [of bs'] assms(1) unfolding same by auto
  have "map ob_Address ys = map ob_Address ys'"
    using ys ys' by (intro strict_sorted_equal) simp_all
  then have "ys = ys'" using inj ys(1) ys'(1) by (metis map_inj_on sup.idem)
  then show ?thesis using ys(3) ys'(3) assms(3) by simp
qed

section \<open>The shipped parameter table compiles\<close>

definition spec_of :: "parameter_definition \<Rightarrow> parameter_spec" where
  "spec_of d = \<lparr>spec_ID = pd_ID d, spec_OSCName = OSCName d, spec_Kind = pd_Kind d, spec_ValueType = pd_ValueType d,
     spec_Encodings = pd_Encodings d, spec_Range = pd_Range d, spec_HasRange = HasRange d, spec_Unit = pd_Unit d\<rparr>"

lemma update_fresh: "k \<notin> fst ` set al \<Longrightarrow> AList.update k v al = al @ [(k, v)]"
  by (induction al) auto

lemma catalog_loop:
  assumes ok: "\<forall>i < length ds. pd_ID (ds ! i) = i \<and> compileParameterDefinition (ds ! i) = Inr (spec_of (ds ! i))"
    and names: "distinct (map OSCName ds)" and "k \<le> length ds"
  shows "fold_result (catalog_step (length ds)) (enumerate 0 (take k ds))
      (\<lparr>byID = replicate (length ds) zero_spec, byOSCName = []\<rparr>, replicate (length ds) False) =
    Inr (\<lparr>byID = map spec_of (take k ds) @ replicate (length ds - k) zero_spec, byOSCName = map (\<lambda>d. (OSCName d, pd_ID d)) (take k ds)\<rparr>,
      replicate k True @ replicate (length ds - k) False)"
  using assms(3)
proof (induction k)
  case (Suc k)
  let ?d = "ds ! k"
  let ?c = "\<lparr>byID = map spec_of (take k ds) @ replicate (length ds - k) zero_spec, byOSCName = map (\<lambda>d. (OSCName d, pd_ID d)) (take k ds)\<rparr>"
  have k: "k < length ds" using Suc.prems by simp
  have fresh: "OSCName ?d \<notin> OSCName ` set (take k ds)"
  proof -
    have "distinct (map OSCName (take (Suc k) ds))" using names by (metis distinct_take take_map)
    then show ?thesis using k by (simp add: take_Suc_conv_app_nth)
  qed
  have "enumerate 0 (take (Suc k) ds) = enumerate 0 (take k ds) @ [(k, ?d)]"
    using k by (simp add: take_Suc_conv_app_nth enumerate_append_eq)
  moreover have "catalog_step (length ds) (k, ?d) (?c, replicate k True @ replicate (length ds - k) False) =
    Inr (\<lparr>byID = map spec_of (take (Suc k) ds) @ replicate (length ds - Suc k) zero_spec,
        byOSCName = map (\<lambda>d. (OSCName d, pd_ID d)) (take (Suc k) ds)\<rparr>,
      replicate (Suc k) True @ replicate (length ds - Suc k) False)"
  proof -
    have "map_of (byOSCName ?c) (spec_OSCName (spec_of ?d)) = None"
      using fresh by (auto simp: map_of_eq_None_iff spec_of_def)
    moreover have "AList.update (spec_OSCName (spec_of ?d)) (spec_ID (spec_of ?d)) (byOSCName ?c) =
        map (\<lambda>d. (OSCName d, pd_ID d)) (take (Suc k) ds)"
      using fresh k by (subst update_fresh) (auto simp: spec_of_def take_Suc_conv_app_nth)
    moreover obtain m where "length ds - k = Suc m" "length ds - Suc k = m" using k by (metis Suc_diff_Suc)
    ultimately show ?thesis
      using ok k by (simp add: catalog_step_def take_Suc_conv_app_nth nth_append list_update_append replicate_app_Cons_same)
  qed
  ultimately show ?case using Suc by (simp add: fold_result_append)
qed simp

lemma trim_space_name:
  assumes "osc_name_ok name" "hd name \<in> set ''abcdefghijklmnopqrstuvwxyzABCDEFGHIJKLMNOPQRSTUVWXYZ''"
  shows "trim_char CHR ''/'' (trim_space name) = name"
proof -
  let ?letters = "''abcdefghijklmnopqrstuvwxyzABCDEFGHIJKLMNOPQRSTUVWXYZ''"
  have l: "last name \<in> set ?letters" "name \<noteq> []" "hd name \<noteq> CHR ''/''" using assms(1) unfolding osc_name_ok_def by blast+
  have "list_all (\<lambda>c. list_all (\<lambda>r. hd r \<noteq> c) space_runes) ?letters" by code_simp
  then have "\<forall>r \<in> set space_runes. hd r \<noteq> hd name" using assms(2) unfolding list_all_iff by blast
  then have "trim_left_space name = name" by (intro trim_left_space_id) simp
  moreover have "trim_right_space name = name" using letters_not_space [OF l(1)] by (intro trim_right_space_id) simp
  ultimately show ?thesis using l letters_not_space [OF l(1)] by (simp add: trim_space_def trim_char_id)
qed

lemma shipped_definitions:
  "list_all (\<lambda>d. hd (OSCName d) \<in> set ''abcdefghijklmnopqrstuvwxyzABCDEFGHIJKLMNOPQRSTUVWXYZ'' \<and> \<not> sublist ''//'' (OSCName d) \<and>
    \<not> has_prefix (OSCName d) ''avatar/parameters/'' \<and> validateParameterSpec (spec_of d) = Inr ()) Definitions"
  by code_simp

lemma shipped_compiles:
  assumes "i < 127"
  shows "compileParameterDefinition (Definitions ! i) = Inr (spec_of (Definitions ! i))"
proof -
  let ?d = "Definitions ! i"
  have s: "hd (OSCName ?d) \<in> set ''abcdefghijklmnopqrstuvwxyzABCDEFGHIJKLMNOPQRSTUVWXYZ''" "\<not> sublist ''//'' (OSCName ?d)"
    "\<not> has_prefix (OSCName ?d) ''avatar/parameters/''" "validateParameterSpec (spec_of ?d) = Inr ()"
    using shipped_definitions assms unfolding list_all_length Definitions_length by blast+
  have n: "osc_name_ok (OSCName ?d)" using definition_at(3) [OF assms] .
  then have "OSCName ?d \<noteq> []" by (simp add: osc_name_ok_def)
  then show ?thesis
    using s(2-4) trim_space_name [OF n s(1)] by (simp add: compileParameterDefinition_def Let_def spec_of_def)
qed

definition shipped_catalog :: parameter_catalog where
  "shipped_catalog = \<lparr>byID = map spec_of Definitions, byOSCName = map (\<lambda>d. (OSCName d, pd_ID d)) Definitions\<rparr>"

lemma NewVRCFTParameterCatalog_shipped: "NewVRCFTParameterCatalog = Inr shipped_catalog"
proof -
  have "distinct (map OSCName Definitions)"
    using osc_name_inj unfolding distinct_conv_nth by (auto simp: Definitions_length)
  moreover have "\<forall>i < length Definitions. pd_ID (Definitions ! i) = i \<and> compileParameterDefinition (Definitions ! i) = Inr (spec_of (Definitions ! i))"
    using shipped_compiles definition_at(2) by (simp add: Definitions_length)
  ultimately show ?thesis
    using catalog_loop [of Definitions "length Definitions"]
    by (simp add: NewVRCFTParameterCatalog_def NewParameterCatalog_def shipped_catalog_def)
qed

text \<open>The OSC side's catalog of the shipped table can be built, and it resolves
  every address, canonical, prefixed or neither, to the parameter and prefix the parameters package
  resolves it to.\<close>

theorem shipped_catalog_resolves:
  "\<exists>c. NewVRCFTParameterCatalog = Inr c \<and>
    (\<forall>address. map_option (\<lambda>m. (am_ID m, am_Prefix m)) (catalog_ResolveAddress c address) = ResolveAddress address)"
proof (intro exI [of _ shipped_catalog] conjI allI)
  fix address
  let ?n = "normalizeAddress address" let ?parts = "split_char CHR ''/'' ?n"
  have norm: "normalizeParameterAddress address = ?n" by (simp add: normalizeParameterAddress_def normalizeAddress_def parameters_prefix_def)
  have look: "map_of (byOSCName shipped_catalog) name = LookupOSCName name" for name
    by (simp add: shipped_catalog_def LookupOSCName_def ParameterByOSCName_def)
  have first: "map_option h (first_some f xs) = first_some (\<lambda>i. map_option h (f i)) xs"
    for f :: "nat \<Rightarrow> address_match option" and h :: "address_match \<Rightarrow> nat \<times> string" and xs
    by (induction xs) (auto split: option.split)
  have upt: "[0..<length ?parts] = 0 # [1..<length ?parts]" using split_char_nonempty [of "CHR ''/''" ?n] by (simp add: upt_conv_Cons)
  show "map_option (\<lambda>m. (am_ID m, am_Prefix m)) (catalog_ResolveAddress shipped_catalog address) = ResolveAddress address"
    unfolding catalog_ResolveAddress_def ResolveAddress_def norm look Let_def upt
    by (cases "LookupOSCName ?n") (simp_all add: first option.map_comp o_def)
qed (rule NewVRCFTParameterCatalog_shipped)

section \<open>Which endpoints a catalog binds\<close>

definition direct_of :: "parameter_catalog \<Rightarrow> endpoint \<Rightarrow> nat option" where
  "direct_of specs e = (case catalog_ResolveAddress specs (ep_Address e) of
     Some m \<Rightarrow> (case catalog_Spec specs (am_ID m) of
         Some spec \<Rightarrow> if SupportsDirect spec then Some (am_ID m) else None
       | None \<Rightarrow> None)
   | None \<Rightarrow> None)"

definition binary_of :: "parameter_catalog \<Rightarrow> endpoint \<Rightarrow> binary_address_match option" where
  "binary_of specs e = (case catalog_ResolveAddress specs (ep_Address e) of
     Some _ \<Rightarrow> None
   | None \<Rightarrow> (case catalog_ResolveBinaryAddress specs (ep_Address e) of
       None \<Rightarrow> None
     | Some m \<Rightarrow> (case catalog_Spec specs (bm_ID m) of
         None \<Rightarrow> None
       | Some spec \<Rightarrow> if SupportsBinary spec then Some m else None)))"

definition bits_of :: "parameter_catalog \<Rightarrow> endpoint list \<Rightarrow> nat \<Rightarrow> string \<Rightarrow> binary_bit list" where
  "bits_of specs es pid pre = List.map_filter (\<lambda>e. case binary_of specs e of None \<Rightarrow> None
     | Some m \<Rightarrow> if bm_ID m = pid \<and> bm_Prefix m = pre \<and> \<not> bm_Negative m
         then Some \<lparr>bit_Endpoint = e, bit_Weight = bm_Weight m\<rparr> else None) es"

definition negative_of :: "parameter_catalog \<Rightarrow> endpoint list \<Rightarrow> nat \<Rightarrow> string \<Rightarrow> endpoint option" where
  "negative_of specs es pid pre = foldl (\<lambda>r e. case binary_of specs e of None \<Rightarrow> r
     | Some m \<Rightarrow> if bm_ID m = pid \<and> bm_Prefix m = pre \<and> bm_Negative m then Some e else r) None es"

definition bound_parameters :: "parameter_catalog \<Rightarrow> endpoint list \<Rightarrow> nat set" where
  "bound_parameters specs es = {pid. \<exists>e \<in> set es. direct_of specs e = Some pid \<or> map_option bm_ID (binary_of specs e) = Some pid}"

definition bound_prefixes :: "parameter_catalog \<Rightarrow> endpoint list \<Rightarrow> nat \<Rightarrow> string set" where
  "bound_prefixes specs es pid = {pre. \<exists>e \<in> set es. \<exists>m. binary_of specs e = Some m \<and> bm_ID m = pid \<and> bm_Prefix m = pre}"

lemma bind_endpoint_cases:
  "bind_endpoint specs e (bs, gs) = (case direct_of specs e of
     Some pid \<Rightarrow> (AList.update pid ((find_binding bs pid)\<lparr>pb_Spec := byID specs ! pid, pb_Direct := pb_Direct (find_binding bs pid) @ [e]\<rparr>) bs, gs)
   | None \<Rightarrow> (case binary_of specs e of
       None \<Rightarrow> (bs, gs)
     | Some m \<Rightarrow> (AList.update (bm_ID m) ((find_binding bs (bm_ID m))\<lparr>pb_Spec := byID specs ! bm_ID m\<rparr>) bs,
         AList.update (bm_ID m) (AList.update (bm_Prefix m)
           (let g = find_group (find_groups gs (bm_ID m)) (bm_Prefix m) in
            if bm_Negative m then g\<lparr>bg_negative := Some e\<rparr>
            else g\<lparr>bg_bits := bg_bits g @ [\<lparr>bit_Endpoint = e, bit_Weight = bm_Weight m\<rparr>]\<rparr>) (find_groups gs (bm_ID m))) gs)))"
  by (auto simp: bind_endpoint_def direct_of_def binary_of_def catalog_Spec_def Let_def split: option.splits)

lemma find_updates [simp]:
  "find_binding (AList.update k v bs) pid = (if pid = k then v else find_binding bs pid)"
  "find_groups (AList.update k w gs) pid = (if pid = k then w else find_groups gs pid)"
  "find_group (AList.update p g pgs) pre = (if pre = p then g else find_group pgs pre)"
  by (simp_all add: find_binding_def find_groups_def find_group_def update_conv')

lemma direct_binary: "direct_of specs e \<noteq> None \<Longrightarrow> binary_of specs e = None"
  by (auto simp: direct_of_def binary_of_def split: option.splits)

definition bound :: "parameter_catalog \<Rightarrow> endpoint list \<Rightarrow> bindings \<times> groups \<Rightarrow> bool" where
  "bound specs es = (\<lambda>(bs, gs). distinct (map fst bs) \<and> fst ` set bs = bound_parameters specs es \<and>
     (\<forall>pid. pb_Direct (find_binding bs pid) = filter (\<lambda>e. direct_of specs e = Some pid) es \<and>
       pb_Binary (find_binding bs pid) = [] \<and>
       (pid \<in> bound_parameters specs es \<longrightarrow> pb_Spec (find_binding bs pid) = byID specs ! pid) \<and>
       fst ` set (find_groups gs pid) = bound_prefixes specs es pid \<and>
       (\<forall>pre. bg_bits (find_group (find_groups gs pid) pre) = bits_of specs es pid pre \<and>
          bg_negative (find_group (find_groups gs pid) pre) = negative_of specs es pid pre)))"

lemma bits_of_snoc: "bits_of specs (es @ [e]) pid pre = bits_of specs es pid pre @ (case binary_of specs e of None \<Rightarrow> []
     | Some m \<Rightarrow> if bm_ID m = pid \<and> bm_Prefix m = pre \<and> \<not> bm_Negative m then [\<lparr>bit_Endpoint = e, bit_Weight = bm_Weight m\<rparr>] else [])"
  by (auto simp: bits_of_def map_filter_def split: option.split)

lemma negative_of_snoc: "negative_of specs (es @ [e]) pid pre = (case binary_of specs e of None \<Rightarrow> negative_of specs es pid pre
     | Some m \<Rightarrow> if bm_ID m = pid \<and> bm_Prefix m = pre \<and> bm_Negative m then Some e else negative_of specs es pid pre)"
  by (auto simp: negative_of_def split: option.split)

lemma parameters_snoc: "bound_parameters specs (es @ [e]) = bound_parameters specs es \<union> set_option (direct_of specs e) \<union>
    set_option (map_option bm_ID (binary_of specs e))"
  by (auto simp: bound_parameters_def)

lemma prefixes_snoc: "bound_prefixes specs (es @ [e]) pid = bound_prefixes specs es pid \<union>
    (case binary_of specs e of None \<Rightarrow> {} | Some m \<Rightarrow> if bm_ID m = pid then {bm_Prefix m} else {})"
  by (auto simp: bound_prefixes_def split: option.split)

lemma bound_step: "bound specs es (bs, gs) \<Longrightarrow> bound specs (es @ [e]) (bind_endpoint specs e (bs, gs))"
proof -
  assume b: "bound specs es (bs, gs)"
  note snoc = parameters_snoc prefixes_snoc bits_of_snoc negative_of_snoc bind_endpoint_cases dom_update distinct_update
  show ?thesis
  proof (cases "direct_of specs e")
    case (Some pid)
    then have "binary_of specs e = None" using direct_binary by fastforce
    then show ?thesis using b Some by (simp add: bound_def snoc)
  next
    case None
    show ?thesis
    proof (cases "binary_of specs e")
      case None
      then show ?thesis using b \<open>direct_of specs e = None\<close> by (simp add: bound_def snoc)
    next
      case (Some m)
      then show ?thesis using b \<open>direct_of specs e = None\<close> by (simp add: bound_def snoc Let_def)
    qed
  qed
qed

lemma bound_fold: "bound specs es (fold (bind_endpoint specs) es ([], []))"
proof (induction es rule: rev_induct)
  case Nil
  show ?case by (simp add: bound_def bound_parameters_def bound_prefixes_def find_binding_def find_groups_def find_group_def
    bits_of_def negative_of_def map_filter_simps)
next
  case (snoc e es)
  then show ?case using bound_step by (cases "fold (bind_endpoint specs) es ([], [])") auto
qed

lemma check_endpoints_ok:
  "check_endpoints es = Inr () \<longleftrightarrow> (\<forall>e \<in> set es. ValidAddress (ep_Address e) \<and> supportedParameterType (ep_Type e))"
  by (induction es) (auto simp: guard_result_Inr)

lemma set_map_filter: "set (List.map_filter f xs) = {y. \<exists>x \<in> set xs. f x = Some y}"
  by (induction xs) (auto simp: map_filter_simps split: option.split)

lemma bits_of_mem: "bt \<in> set (bits_of specs es pid pre) \<longleftrightarrow> bit_Endpoint bt \<in> set es \<and>
    (\<exists>m. binary_of specs (bit_Endpoint bt) = Some m \<and> bm_ID m = pid \<and> bm_Prefix m = pre \<and> \<not> bm_Negative m \<and> bit_Weight bt = bm_Weight m)"
proof -
  have "(case binary_of specs e of None \<Rightarrow> None | Some m \<Rightarrow> if bm_ID m = pid \<and> bm_Prefix m = pre \<and> \<not> bm_Negative m
         then Some \<lparr>bit_Endpoint = e, bit_Weight = bm_Weight m\<rparr> else None) = Some bt \<longleftrightarrow>
      e = bit_Endpoint bt \<and> (\<exists>m. binary_of specs e = Some m \<and> bm_ID m = pid \<and> bm_Prefix m = pre \<and> \<not> bm_Negative m \<and> bit_Weight bt = bm_Weight m)" for e
    by (cases bt; cases "binary_of specs e") auto
  then show ?thesis unfolding bits_of_def set_map_filter by (simp only: mem_Collect_eq) blast
qed

lemma set_filter_some: "set (List.map_filter (\<lambda>x. if P x then None else Some (g x)) xs) = g ` {x \<in> set xs. \<not> P x}"
  by (induction xs) (auto simp: map_filter_simps)

lemma negative_of_mem: "negative_of specs es pid pre = Some e \<Longrightarrow> e \<in> set es \<and>
    (\<exists>m. binary_of specs e = Some m \<and> bm_ID m = pid \<and> bm_Prefix m = pre \<and> bm_Negative m)"
proof (induction es rule: rev_induct)
  case (snoc x es)
  then show ?case by (auto simp: negative_of_snoc split: option.splits if_splits)
qed (simp add: negative_of_def)

definition built_binary :: "parameter_catalog \<Rightarrow> endpoint list \<Rightarrow> nat \<Rightarrow> binary_binding list" where
  "built_binary specs es pid = List.map_filter (\<lambda>pre. if bits_of specs es pid pre = [] then None
     else Some \<lparr>bb_Negative = negative_of specs es pid pre, Bits = sort_key bit_Weight (bits_of specs es pid pre)\<rparr>)
     (sort (sorted_list_of_set (bound_prefixes specs es pid)))"

lemma finite_bound_prefixes: "finite (bound_prefixes specs es pid)"
proof -
  have "bound_prefixes specs es pid \<subseteq> (\<lambda>e. bm_Prefix (the (binary_of specs e))) ` set es"
  proof
    fix pre assume "pre \<in> bound_prefixes specs es pid"
    then obtain e m where e: "e \<in> set es" "binary_of specs e = Some m" "bm_Prefix m = pre" unfolding bound_prefixes_def by blast
    then have "pre = bm_Prefix (the (binary_of specs e))" by simp
    then show "pre \<in> (\<lambda>e. bm_Prefix (the (binary_of specs e))) ` set es" using e(1) by blast
  qed
  then show ?thesis by (rule finite_subset) simp
qed

lemma built_binary_set:
  "set (built_binary specs es pid) = (\<lambda>pre. \<lparr>bb_Negative = negative_of specs es pid pre, Bits = sort_key bit_Weight (bits_of specs es pid pre)\<rparr>) `
    {pre. bits_of specs es pid pre \<noteq> []}"
proof -
  have "pre \<in> bound_prefixes specs es pid" if "bits_of specs es pid pre \<noteq> []" for pre
  proof -
    have "\<exists>bt. bt \<in> set (bits_of specs es pid pre)" using that by (simp add: ex_in_conv)
    then obtain bt where "bt \<in> set (bits_of specs es pid pre)" ..
    then show ?thesis unfolding bits_of_mem bound_prefixes_def by blast
  qed
  then have "{pre \<in> bound_prefixes specs es pid. bits_of specs es pid pre \<noteq> []} = {pre. bits_of specs es pid pre \<noteq> []}" by blast
  then show ?thesis using finite_bound_prefixes [of specs es pid] by (simp add: built_binary_def set_filter_some)
qed

lemma built_parts:
  assumes "BuildCatalogFromEndpoints now es (Some specs) gen = Inr cat"
  obtains bs gs where "fold (bind_endpoint specs) es ([], []) = (bs, gs)" "oc_Bindings cat = map (finish_binding gs) bs"
    "compileOutputs (oc_Bindings cat) = Inr (Outputs cat)" "check_endpoints es = Inr ()"
proof -
  obtain bs gs where "fold (bind_endpoint specs) es ([], []) = (bs, gs)" by fastforce
  then show ?thesis using assms that by (auto simp: BuildCatalogFromEndpoints_def result_iffs Let_def)
qed

lemma built_bindings:
  assumes "BuildCatalogFromEndpoints now es (Some specs) gen = Inr cat" and "(pid, b) \<in> set (oc_Bindings cat)"
  shows "set (pb_Direct b) = {e \<in> set es. direct_of specs e = Some pid}"
    and "set (pb_Binary b) = set (built_binary specs es pid)" and "pb_Spec b = byID specs ! pid"
proof -
  obtain bs gs where f: "fold (bind_endpoint specs) es ([], []) = (bs, gs)" "oc_Bindings cat = map (finish_binding gs) bs"
    by (rule built_parts [OF assms(1)])
  have bnd: "bound specs es (bs, gs)" using bound_fold [of specs es] f by simp
  have "(pid, b) \<in> set (map (finish_binding gs) bs)" using assms(2) f(2) by simp
  then obtain b0 where b0: "(pid, b0) \<in> set bs" "(pid, b) = finish_binding gs (pid, b0)" by (auto simp: finish_binding_def)
  have "find_binding bs pid = b0" using b0(1) bnd by (simp add: find_binding_def bound_def map_of_is_SomeI)
  moreover have "pid \<in> bound_parameters specs es" using b0(1) bnd by (force simp: bound_def)
  ultimately have d: "pb_Direct b0 = filter (\<lambda>e. direct_of specs e = Some pid) es" "pb_Binary b0 = []" "pb_Spec b0 = byID specs ! pid"
    using bnd by (auto simp: bound_def)
  show "set (pb_Direct b) = {e \<in> set es. direct_of specs e = Some pid}" "pb_Spec b = byID specs ! pid"
    using b0(2) d by (auto simp: finish_binding_def sortEndpoints_def)
  have "fst ` set (find_groups gs pid) = bound_prefixes specs es pid"
    "bg_bits (find_group (find_groups gs pid) pre) = bits_of specs es pid pre"
    "bg_negative (find_group (find_groups gs pid) pre) = negative_of specs es pid pre" for pre
    using bnd by (simp_all add: bound_def)
  then show "set (pb_Binary b) = set (built_binary specs es pid)"
    using b0(2) d(2) finite_bound_prefixes [of specs es pid]
    by (simp add: finish_binding_def built_binary_def map_filter_def Let_def image_iff Collect_conj_eq [symmetric])
qed

lemma built_keys:
  assumes "BuildCatalogFromEndpoints now es (Some specs) gen = Inr cat"
  shows "fst ` set (oc_Bindings cat) = bound_parameters specs es"
proof -
  obtain bs gs where f: "fold (bind_endpoint specs) es ([], []) = (bs, gs)" "oc_Bindings cat = map (finish_binding gs) bs"
    by (rule built_parts [OF assms])
  have "fst ` set bs = bound_parameters specs es" using bound_fold [of specs es] f by (simp add: bound_def)
  moreover have "fst (finish_binding gs x) = fst x" for x by (simp add: finish_binding_def split: prod.split)
  ultimately show ?thesis by (simp add: f(2) image_image)
qed

definition built_group :: "parameter_catalog \<Rightarrow> endpoint list \<Rightarrow> nat \<Rightarrow> string \<Rightarrow> binary_binding" where
  "built_group specs es pid pre =
     \<lparr>bb_Negative = negative_of specs es pid pre, Bits = sort_key bit_Weight (bits_of specs es pid pre)\<rparr>"

lemma bits_bound: "bits_of specs es pid pre \<noteq> [] \<Longrightarrow> pid \<in> bound_parameters specs es"
proof -
  assume "bits_of specs es pid pre \<noteq> []"
  then have "\<exists>bt. bt \<in> set (bits_of specs es pid pre)" by (simp add: ex_in_conv)
  then obtain bt where "bt \<in> set (bits_of specs es pid pre)" ..
  then show ?thesis unfolding bits_of_mem bound_parameters_def by (metis (mono_tags, lifting) mem_Collect_eq option.simps(9))
qed

definition wanted_for :: "parameter_catalog \<Rightarrow> endpoint list \<Rightarrow> nat \<Rightarrow> output_binding set" where
  "wanted_for specs es pid =
     (\<lambda>e. direct_output pid (byID specs ! pid) e (wire_kind (ep_Type e))) ` {e \<in> set es. direct_of specs e = Some pid} \<union>
     (\<Union>pre \<in> {pre. bits_of specs es pid pre \<noteq> []}. wanted_binary pid (byID specs ! pid) (built_group specs es pid pre))"

lemma wanted_for_bound: "wanted_for specs es pid \<noteq> {} \<Longrightarrow> pid \<in> bound_parameters specs es"
  using bits_bound [of specs es pid] by (auto simp: wanted_for_def bound_parameters_def)

lemma wanted_built:
  assumes "BuildCatalogFromEndpoints now es (Some specs) gen = Inr cat"
  shows "wanted (oc_Bindings cat) = (\<Union>pid. wanted_for specs es pid)"
proof -
  have one: "wanted [(pid, b)] = wanted_for specs es pid" if "(pid, b) \<in> set (oc_Bindings cat)" for pid b
  proof -
    note b = built_bindings [OF assms that]
    have "(\<Union>bb \<in> set (pb_Binary b). wanted_binary pid (pb_Spec b) bb) =
        (\<Union>pre \<in> {pre. bits_of specs es pid pre \<noteq> []}. wanted_binary pid (byID specs ! pid) (built_group specs es pid pre))"
      unfolding b(2,3) built_binary_set built_group_def image_image by simp
    then show ?thesis using b(1,3) by (simp add: wanted_def wanted_for_def)
  qed
  have "wanted (oc_Bindings cat) = (\<Union>x \<in> set (oc_Bindings cat). wanted [x])" by (simp add: wanted_def)
  also have "\<dots> = (\<Union>x \<in> set (oc_Bindings cat). wanted_for specs es (fst x))" using one by auto
  also have "\<dots> = (\<Union>pid \<in> bound_parameters specs es. wanted_for specs es pid)"
    unfolding built_keys [OF assms, symmetric] by simp
  also have "\<dots> = (\<Union>pid. wanted_for specs es pid)" using wanted_for_bound by blast
  finally show ?thesis .
qed

lemma built_supported:
  assumes "BuildCatalogFromEndpoints now es (Some specs) gen = Inr cat"
  shows "endpoints_of (oc_Bindings cat) \<subseteq> set es" "supported (endpoints_of (oc_Bindings cat))"
proof -
  show sub: "endpoints_of (oc_Bindings cat) \<subseteq> set es"
  proof
    fix e assume "e \<in> endpoints_of (oc_Bindings cat)"
    then obtain pid b where b: "(pid, b) \<in> set (oc_Bindings cat)" "e \<in> set (pb_Direct b) \<or> (\<exists>bb \<in> set (pb_Binary b). e \<in> binary_endpoints bb)"
      unfolding endpoints_of_def by blast
    note B = built_bindings [OF assms b(1)]
    show "e \<in> set es"
      using b(2) negative_of_mem [of specs es pid _ e] unfolding B(1,2) built_binary_set binary_endpoints_def
      by (auto simp: bits_of_mem)
  qed
  have "check_endpoints es = Inr ()" by (rule built_parts [OF assms])
  then show "supported (endpoints_of (oc_Bindings cat))" using sub by (auto simp: check_endpoints_ok supported_def)
qed

lemma built_outputs:
  assumes "BuildCatalogFromEndpoints now es (Some specs) gen = Inr cat"
  shows "sorted_wrt (<) (map ob_Address (Outputs cat))"
    and "(\<lambda>x. x\<lparr>CacheIndex := 0\<rparr>) ` set (Outputs cat) = (\<Union>pid. wanted_for specs es pid)"
proof -
  have "compileOutputs (oc_Bindings cat) = Inr (Outputs cat)" by (rule built_parts [OF assms])
  moreover obtain ys where "set ys = wanted (oc_Bindings cat)" "sorted_wrt (<) (map ob_Address ys)"
      "compileOutputs (oc_Bindings cat) = (if 65536 < card (wanted (oc_Bindings cat)) then Inl ErrTooManyOSCOutputs else Inr (number_outputs ys))"
    using compileOutputs_cases [OF built_supported(2) [OF assms]] calculation by (auto split: if_splits)
  ultimately have out: "Outputs cat = number_outputs ys" by (auto split: if_splits)
  show "sorted_wrt (<) (map ob_Address (Outputs cat))"
    using \<open>sorted_wrt (<) (map ob_Address ys)\<close> unfolding out number_outputs_simps(2) .
  show "(\<lambda>x. x\<lparr>CacheIndex := 0\<rparr>) ` set (Outputs cat) = (\<Union>pid. wanted_for specs es pid)"
    unfolding out wanted_built [OF assms, symmetric]
    using \<open>set ys = wanted (oc_Bindings cat)\<close> number_outputs_clear [of ys] wanted_fresh by blast
qed

lemma wanted_for_fields:
  assumes "y \<in> wanted_for specs es pid"
  shows "\<exists>e \<in> set es. ob_Address y = ep_Address e \<and> WireKind y = wire_kind (ep_Type e) \<and>
      (if ob_Operation y = outputDirectFloat \<or> ob_Operation y = outputDirectBool then direct_of specs e = Some (ob_Parameter y)
       else \<exists>m. binary_of specs e = Some m \<and> bm_ID m = ob_Parameter y \<and> bm_Negative m = (ob_Operation y = outputBinaryNegative) \<and>
         (\<not> bm_Negative m \<longrightarrow> bm_Weight m = ob_Weight y))"
proof -
  from assms consider e where "e \<in> set es" "direct_of specs e = Some pid" "y = direct_output pid (byID specs ! pid) e (wire_kind (ep_Type e))"
    | pre e where "negative_of specs es pid pre = Some e"
        "y = binary_output pid (byID specs ! pid) outputBinaryNegative 0 (quantize_max (Bits (built_group specs es pid pre))) e (wire_kind (ep_Type e))"
    | pre bt where "bt \<in> set (bits_of specs es pid pre)"
        "y = binary_output pid (byID specs ! pid) outputBinaryBit (bit_Weight bt) (quantize_max (Bits (built_group specs es pid pre)))
          (bit_Endpoint bt) (wire_kind (ep_Type (bit_Endpoint bt)))"
    by (auto simp: wanted_for_def wanted_binary_def built_group_def)
  then show ?thesis
  proof cases
    case 1
    then show ?thesis by (intro bexI [of _ e]) (simp_all add: direct_output_def)
  next
    case 2
    from negative_of_mem [OF 2(1)] 2(2) show ?thesis
      by (intro bexI [of _ e]) (auto simp: binary_output_def output_operations)
  next
    case 3
    from 3(1) 3(2) show ?thesis unfolding bits_of_mem
      by (intro bexI [of _ "bit_Endpoint bt"]) (auto simp: binary_output_def output_operations)
  qed
qed

lemma wanted_for_complete:
  assumes "e \<in> set es" "direct_of specs e \<noteq> None \<or> (\<exists>m. binary_of specs e = Some m \<and> \<not> bm_Negative m)"
  shows "\<exists>pid. \<exists>y \<in> wanted_for specs es pid. ob_Address y = ep_Address e"
  using assms(2)
proof
  assume "direct_of specs e \<noteq> None"
  then obtain pid where "direct_of specs e = Some pid" by blast
  then have "direct_output pid (byID specs ! pid) e (wire_kind (ep_Type e)) \<in> wanted_for specs es pid"
    using assms(1) by (simp add: wanted_for_def)
  then show ?thesis by (intro exI bexI) (simp_all add: direct_output_def)
next
  assume "\<exists>m. binary_of specs e = Some m \<and> \<not> bm_Negative m"
  then obtain m where m: "binary_of specs e = Some m" "\<not> bm_Negative m" by blast
  let ?bits = "bits_of specs es (bm_ID m) (bm_Prefix m)" and ?bt = "\<lparr>bit_Endpoint = e, bit_Weight = bm_Weight m\<rparr>"
  have bt: "?bt \<in> set ?bits" unfolding bits_of_mem using assms(1) m by simp
  then have "?bits \<noteq> []" by auto
  then have "binary_output (bm_ID m) (byID specs ! bm_ID m) outputBinaryBit (bm_Weight m)
      (quantize_max (Bits (built_group specs es (bm_ID m) (bm_Prefix m)))) e (wire_kind (ep_Type e)) \<in> wanted_for specs es (bm_ID m)"
    using bt by (force simp: wanted_for_def wanted_binary_def built_group_def)
  then show ?thesis by (intro exI bexI) (simp_all add: binary_output_def)
qed

text \<open>C32 (functional). The outputs of a built catalog are those of the avatar's endpoints that match
  a parameter: each output sends to an endpoint whose address resolves to its parameter, directly or
  as a sign or a weighted bit of a binary encoding, in the endpoint's type, and every endpoint that
  resolves directly or to a bit has an output.\<close>

theorem built_catalog_outputs:
  assumes "BuildCatalogFromEndpoints now es (Some specs) gen = Inr cat"
  shows "(\<forall>x \<in> set (Outputs cat). \<exists>e \<in> set es. ob_Address x = ep_Address e \<and> WireKind x = wire_kind (ep_Type e) \<and>
      (if ob_Operation x = outputDirectFloat \<or> ob_Operation x = outputDirectBool then direct_of specs e = Some (ob_Parameter x)
       else \<exists>m. binary_of specs e = Some m \<and> bm_ID m = ob_Parameter x \<and> bm_Negative m = (ob_Operation x = outputBinaryNegative) \<and>
         (\<not> bm_Negative m \<longrightarrow> bm_Weight m = ob_Weight x))) \<and>
    (\<forall>e \<in> set es. direct_of specs e \<noteq> None \<or> (\<exists>m. binary_of specs e = Some m \<and> \<not> bm_Negative m) \<longrightarrow>
      ep_Address e \<in> ob_Address ` set (Outputs cat))"
proof (intro conjI ballI impI)
  note out = built_outputs(2) [OF assms]
  fix x assume "x \<in> set (Outputs cat)"
  then obtain pid where "x\<lparr>CacheIndex := 0\<rparr> \<in> wanted_for specs es pid" using out by blast
  from wanted_for_fields [OF this]
  show "\<exists>e \<in> set es. ob_Address x = ep_Address e \<and> WireKind x = wire_kind (ep_Type e) \<and>
      (if ob_Operation x = outputDirectFloat \<or> ob_Operation x = outputDirectBool then direct_of specs e = Some (ob_Parameter x)
       else \<exists>m. binary_of specs e = Some m \<and> bm_ID m = ob_Parameter x \<and> bm_Negative m = (ob_Operation x = outputBinaryNegative) \<and>
         (\<not> bm_Negative m \<longrightarrow> bm_Weight m = ob_Weight x))" by (simp cong: if_cong)
next
  fix e assume e: "e \<in> set es" "direct_of specs e \<noteq> None \<or> (\<exists>m. binary_of specs e = Some m \<and> \<not> bm_Negative m)"
  obtain pid y where y: "y \<in> wanted_for specs es pid" "ob_Address y = ep_Address e"
    using wanted_for_complete [OF e] by blast
  then have "y \<in> (\<lambda>x. x\<lparr>CacheIndex := 0\<rparr>) ` set (Outputs cat)" using built_outputs(2) [OF assms] by blast
  then show "ep_Address e \<in> ob_Address ` set (Outputs cat)" using y(2) by force
qed


section \<open>Examples\<close>

definition sample_endpoints :: "endpoint list" where
  "sample_endpoints = [\<lparr>ep_Address = ''/avatar/parameters/v2/JawX1'', ep_Type = ''T''\<rparr>,
     \<lparr>ep_Address = ''/avatar/parameters/v2/JawOpen'', ep_Type = ''f''\<rparr>]"

definition sample_bindings :: bindings where
  "sample_bindings = map (\<lambda>(pid, b). (pid, b)) [
     (ParameterJawX, \<lparr>pb_Spec = spec_of (Definitions ! ParameterJawX), pb_Direct = [],
       pb_Binary = [\<lparr>bb_Negative = None, Bits = [\<lparr>bit_Endpoint = hd sample_endpoints, bit_Weight = 1\<rparr>]\<rparr>]\<rparr>),
     (ParameterJawOpen, \<lparr>pb_Spec = spec_of (Definitions ! ParameterJawOpen), pb_Direct = [last sample_endpoints], pb_Binary = []\<rparr>)]"

lemma sample_supported: "supported (endpoints_of sample_bindings)"
  by (simp add: sample_bindings_def endpoints_of_def binary_endpoints_def sample_endpoints_def supportedParameterType_def)

lemma sample_compiles: "is_ok (compileOutputs sample_bindings)"
  by code_simp

theorem compileOutputs_exact_witness:
  "\<exists>outs. compileOutputs sample_bindings = Inr outs \<and> sorted_wrt (<) (map ob_Address outs) \<and>
    (\<lambda>x. x\<lparr>CacheIndex := 0\<rparr>) ` set outs = wanted sample_bindings"
  using compileOutputs_exact [OF sample_supported] sample_compiles by (auto simp: is_ok_iff)

theorem compileOutputs_order_witness: "compileOutputs (rev sample_bindings) = compileOutputs sample_bindings"
  using compileOutputs_order [OF sample_supported, of "rev sample_bindings"] sample_compiles by (auto simp: is_ok_iff)

theorem built_catalog_outputs_witness:
  "\<exists>cat. BuildCatalogFromEndpoints 0 sample_endpoints (Some shipped_catalog) 1 = Inr cat \<and>
    ''/avatar/parameters/v2/JawOpen'' \<in> ob_Address ` set (Outputs cat)"
proof -
  have "is_ok (BuildCatalogFromEndpoints 0 sample_endpoints (Some shipped_catalog) 1)" by code_simp
  then obtain cat where cat: "BuildCatalogFromEndpoints 0 sample_endpoints (Some shipped_catalog) 1 = Inr cat" by (auto simp: is_ok_iff)
  have "direct_of shipped_catalog (last sample_endpoints) \<noteq> None" by code_simp
  then have "ep_Address (last sample_endpoints) \<in> ob_Address ` set (Outputs cat)"
    using built_catalog_outputs [OF cat] by (simp add: sample_endpoints_def)
  then show ?thesis using cat by (auto simp: sample_endpoints_def)
qed

end
