(* ===== verification/OscSender.thy ===== *)
theory OscSender
  imports OscCatalog BitSets
begin

text \<open>
  internal/osc/sender.go and source.go: turning parameter values into the scalars of a catalog's
  outputs and sending those that changed, in bundles or one by one. The transport is a parameter:
  a function that says of each attempt, by its number and bytes, whether it is accepted; the
  sender's state records the attempts.
\<close>

unbundle bit_operations_syntax

section \<open>Value sources\<close>

record value_source =
  src_Float :: "nat \<Rightarrow> float32 \<times> bool"
  src_Bool :: "nat \<Rightarrow> bool \<times> bool"

record snapshot_source =
  ss_floats :: "nat \<Rightarrow> float32"
  ss_floatValid :: "nat \<Rightarrow> bool"
  ss_bools :: "nat \<Rightarrow> bool"
  ss_boolValid :: "nat \<Rightarrow> bool"

definition NewSnapshotSource :: snapshot_source where
  "NewSnapshotSource = \<lparr>ss_floats = (\<lambda>_. zero32), ss_floatValid = (\<lambda>_. False), ss_bools = (\<lambda>_. False), ss_boolValid = (\<lambda>_. False)\<rparr>"

definition source_SetFloat :: "nat \<Rightarrow> float32 \<Rightarrow> snapshot_source \<Rightarrow> snapshot_source \<times> bool" where
  "source_SetFloat pid v s = (case Definition pid of None \<Rightarrow> (s, False)
   | Some d \<Rightarrow> if pd_ValueType d \<noteq> ValueFloat then (s, False)
     else (s\<lparr>ss_floats := (ss_floats s)(pid := v), ss_floatValid := (ss_floatValid s)(pid := True)\<rparr>, True))"

definition source_SetBool :: "nat \<Rightarrow> bool \<Rightarrow> snapshot_source \<Rightarrow> snapshot_source \<times> bool" where
  "source_SetBool pid v s = (case Definition pid of None \<Rightarrow> (s, False)
   | Some d \<Rightarrow> if pd_ValueType d \<noteq> ParameterTable.ValueBool then (s, False)
     else (s\<lparr>ss_bools := (ss_bools s)(pid := v), ss_boolValid := (ss_boolValid s)(pid := True)\<rparr>, True))"

definition SetFloatByOSCName :: "string \<Rightarrow> float32 \<Rightarrow> snapshot_source \<Rightarrow> snapshot_source \<times> bool" where
  "SetFloatByOSCName name v s = (case LookupOSCName name of None \<Rightarrow> (s, False) | Some pid \<Rightarrow> source_SetFloat pid v s)"

definition SetBoolByOSCName :: "string \<Rightarrow> bool \<Rightarrow> snapshot_source \<Rightarrow> snapshot_source \<times> bool" where
  "SetBoolByOSCName name v s = (case LookupOSCName name of None \<Rightarrow> (s, False) | Some pid \<Rightarrow> source_SetBool pid v s)"

definition source_Invalidate :: "nat \<Rightarrow> snapshot_source \<Rightarrow> snapshot_source \<times> bool" where
  "source_Invalidate pid s = (case Definition pid of None \<Rightarrow> (s, False)
   | Some _ \<Rightarrow> (s\<lparr>ss_floatValid := (ss_floatValid s)(pid := False), ss_boolValid := (ss_boolValid s)(pid := False)\<rparr>, True))"

definition source_Float :: "snapshot_source \<Rightarrow> nat \<Rightarrow> float32 \<times> bool" where
  "source_Float s pid = (if ParameterCount \<le> pid then (zero32, False) else (ss_floats s pid, ss_floatValid s pid))"

definition source_Bool :: "snapshot_source \<Rightarrow> nat \<Rightarrow> bool \<times> bool" where
  "source_Bool s pid = (if ParameterCount \<le> pid then (False, False) else (ss_bools s pid, ss_boolValid s pid))"

section \<open>Output values\<close>

datatype send_error = SourceNil | TransportNil | SendOsc osc_error | UnsupportedOutput | ErrTransport

definition clamp32 :: "float32 \<Rightarrow> float32 \<Rightarrow> float32 \<Rightarrow> float32" where
  "clamp32 v lo hi = (if lt32 v lo then lo else if lt32 hi v then hi else v)"

definition clampOutput :: "output_binding \<Rightarrow> float32 \<Rightarrow> float32" where
  "clampOutput x v = (if \<not> ob_HasRange x then v else clamp32 v (range_Min (ob_Range x)) (range_Max (ob_Range x)))"

definition scalarFromFloat :: "scalar_kind \<Rightarrow> float32 \<Rightarrow> (send_error, scalar_value option) result" where
  "scalarFromFloat kind v =
    (if kind = scalarFloat32 then Inr (Some (floatScalar v))
     else if kind = scalarInt32 then Inr (Some (intScalar (int32_of_float64 (round64 (widen v)))))
     else if kind = scalarFalse \<or> kind = scalarTrue then Inr (Some (boolScalar (le32 half32 v)))
     else Inl UnsupportedOutput)"

definition scalarFromBool :: "scalar_kind \<Rightarrow> bool \<Rightarrow> (send_error, scalar_value option) result" where
  "scalarFromBool kind v =
    (if kind = scalarFloat32 then Inr (Some (if v then floatScalar one32 else floatScalar zero32))
     else if kind = scalarInt32 then Inr (Some (if v then intScalar 1 else intScalar 0))
     else if kind = scalarFalse \<or> kind = scalarTrue then Inr (Some (boolScalar v))
     else Inl UnsupportedOutput)"

definition binaryMagnitude :: "value_range \<Rightarrow> bool \<Rightarrow> float32 \<Rightarrow> float32" where
  \<comment> \<open>of a specification's range and whether it has one\<close>
  "binaryMagnitude rng hasRange v =
    (if \<not> hasRange \<or> le32 (range_Max rng) (range_Min rng) then clamp32 (narrow (abs64 (widen v))) zero32 one32
     else if lt32 (range_Min rng) zero32 then
       (let limit = narrow (max64 (abs64 (widen (range_Min rng))) (abs64 (widen (range_Max rng)))) in
        if le32 limit zero32 then zero32 else clamp32 (div32 (narrow (abs64 (widen v))) limit) zero32 one32)
     else clamp32 (div32 (sub32 v (range_Min rng)) (sub32 (range_Max rng) (range_Min rng))) zero32 one32)"

definition quantize :: "u32 \<Rightarrow> float32 \<Rightarrow> u32" where
  "quantize qmax magnitude =
    (let quantized = uint32_of_float64 (floor64 (widen (mul32 magnitude (float32_of_int (uint (qmax + 1)))))) in
     if qmax < quantized then qmax else quantized)"

definition evaluateOutput :: "output_binding \<Rightarrow> value_source \<Rightarrow> (send_error, scalar_value option) result" where
  \<comment> \<open>no scalar stands for valid = false\<close>
  "evaluateOutput x src =
    (if ob_Operation x = outputDirectFloat then
       (case src_Float src (ob_Parameter x) of (v, valid) \<Rightarrow>
         if \<not> valid \<or> \<not> finite32 v then Inr None else scalarFromFloat (WireKind x) (clampOutput x v))
     else if ob_Operation x = outputDirectBool then
       (case src_Bool src (ob_Parameter x) of (v, valid) \<Rightarrow>
         if \<not> valid then Inr None else scalarFromBool (WireKind x) v)
     else if ob_Operation x = outputBinaryNegative then
       (case src_Float src (ob_Parameter x) of (v, valid) \<Rightarrow>
         if \<not> valid \<or> \<not> finite32 v then Inr None else scalarFromBool (WireKind x) (lt32 (clampOutput x v) zero32))
     else if ob_Operation x = outputBinaryBit then
       (case src_Float src (ob_Parameter x) of (v, valid) \<Rightarrow>
         if \<not> valid \<or> \<not> finite32 v then Inr None
         else scalarFromBool (WireKind x)
           (quantize (QuantizeMax x) (binaryMagnitude (ob_Range x) (ob_HasRange x) (clampOutput x v)) AND ob_Weight x \<noteq> 0))
     else Inl UnsupportedOutput)"

section \<open>The sender\<close>

record cached_scalar =
  cs_value :: scalar_value
  cs_valid :: bool

record sender =
  FloatEpsilon :: float32
  MaxDatagram :: int
  UseBundles :: bool
  snd_transport :: bool \<comment> \<open>not nil\<close>
  snd_catalog :: "osc_catalog option"
  snd_last :: "cached_scalar list"
  snd_pending :: "(nat \<times> scalar_value) list"
  snd_bundle :: bundle_builder
  snd_log :: "(bytes \<times> bool) list" \<comment> \<open>the datagrams handed to the transport, and whether it took them\<close>

definition zero_cached :: cached_scalar where
  "zero_cached = \<lparr>cs_value = \<lparr>sv_bits = 0, sv_kind = 0\<rparr>, cs_valid = False\<rparr>"

definition newParameterSender :: "bool \<Rightarrow> float32 \<Rightarrow> int \<Rightarrow> bool \<Rightarrow> sender" where
  "newParameterSender transport epsilon limit bundles =
    (let epsilon = (if le32 epsilon zero32 then Float32frombits 0x3A83126F else epsilon);
         limit = (if limit \<le> 0 then 1200 else limit)
     in \<lparr>FloatEpsilon = epsilon, MaxDatagram = limit, UseBundles = bundles, snd_transport = transport, snd_catalog = None,
         snd_last = [], snd_pending = [], snd_bundle = newBundleBuilder limit, snd_log = []\<rparr>)"

definition SetCatalog :: "osc_catalog option \<Rightarrow> sender \<Rightarrow> sender" where
  "SetCatalog catalog s =
    (let previous = snd_catalog s; s = s\<lparr>snd_catalog := catalog\<rparr> in
     case catalog of
       None \<Rightarrow> s\<lparr>snd_last := [], snd_pending := []\<rparr>
     | Some c \<Rightarrow>
         if (case previous of None \<Rightarrow> True | Some p \<Rightarrow> oc_Hash p \<noteq> oc_Hash c \<or> length (snd_last s) \<noteq> length (Outputs c))
         then s\<lparr>snd_last := replicate (length (Outputs c)) zero_cached, snd_pending := []\<rparr> else s)"

definition ResetChangeDetection :: "sender \<Rightarrow> sender" where
  "ResetChangeDetection s = s\<lparr>snd_last := map (\<lambda>c. c\<lparr>cs_valid := False\<rparr>) (snd_last s)\<rparr>"

definition transmit :: "(nat \<Rightarrow> bytes \<Rightarrow> bool) \<Rightarrow> bytes \<Rightarrow> sender \<Rightarrow> sender \<times> bool" where
  "transmit tx p s = (let ok = tx (length (snd_log s)) p in (s\<lparr>snd_log := snd_log s @ [(p, ok)]\<rparr>, ok))"

definition changed :: "sender \<Rightarrow> nat \<Rightarrow> scalar_value \<Rightarrow> bool" where
  "changed s index v = (let e = snd_last s ! index in \<not> cs_valid e \<or> \<not> scalarEqual (cs_value e) v (FloatEpsilon s))"

definition commit :: "nat \<Rightarrow> scalar_value \<Rightarrow> sender \<Rightarrow> sender" where
  "commit index v s = s\<lparr>snd_last := (snd_last s)[index := \<lparr>cs_value = v, cs_valid = True\<rparr>]\<rparr>"

definition flushBundle :: "(nat \<Rightarrow> bytes \<Rightarrow> bool) \<Rightarrow> sender \<Rightarrow> sender \<times> send_error option" where
  "flushBundle tx s =
    (if builder_empty (snd_bundle s) then (s, None)
     else case transmit tx (bb_buffer (snd_bundle s)) s of (s, ok) \<Rightarrow>
       if \<not> ok then (s, Some ErrTransport)
       else let s = fold (\<lambda>(index, v). commit index v) (snd_pending s) s in
         (s\<lparr>snd_pending := [], snd_bundle := builder_reset (snd_bundle s)\<rparr>, None))"

definition send_single :: "(nat \<Rightarrow> bytes \<Rightarrow> bool) \<Rightarrow> nat \<Rightarrow> bytes \<Rightarrow> scalar_value \<Rightarrow> sender \<Rightarrow> sender \<times> send_error option" where
  \<comment> \<open>encode, send and commit one scalar: the end of both loop bodies\<close>
  "send_single tx index address v s = (case encodeScalar address v of
     Inl e \<Rightarrow> (s, Some (SendOsc e))
   | Inr p \<Rightarrow> (case transmit tx p s of (s, ok) \<Rightarrow> if \<not> ok then (s, Some ErrTransport) else (commit index v s, None)))"

fun sendStandalone :: "(nat \<Rightarrow> bytes \<Rightarrow> bool) \<Rightarrow> value_source \<Rightarrow> (nat \<times> output_binding) list \<Rightarrow> sender \<Rightarrow> sender \<times> send_error option" where
  "sendStandalone tx src [] s = (s, None)"
| "sendStandalone tx src ((index, x) # xs) s = (case evaluateOutput x src of
     Inl e \<Rightarrow> (s, Some e)
   | Inr None \<Rightarrow> sendStandalone tx src xs s
   | Inr (Some v) \<Rightarrow>
       if \<not> changed s index v then sendStandalone tx src xs s
       else case send_single tx index (ob_Address x) v s of
         (s, Some e) \<Rightarrow> (s, Some e)
       | (s, None) \<Rightarrow> sendStandalone tx src xs s)"

definition append_pending :: "nat \<Rightarrow> bytes \<Rightarrow> scalar_value \<Rightarrow> sender \<Rightarrow> (osc_error, bool \<times> sender) result" where
  "append_pending index address v s = bind_result (appendScalar address v (snd_bundle s)) (\<lambda>(appended, b).
     Inr (appended, if appended then s\<lparr>snd_bundle := b, snd_pending := snd_pending s @ [(index, v)]\<rparr> else s))"

definition bundle_item :: "(nat \<Rightarrow> bytes \<Rightarrow> bool) \<Rightarrow> nat \<Rightarrow> bytes \<Rightarrow> scalar_value \<Rightarrow> sender \<Rightarrow> sender \<times> send_error option" where
  \<comment> \<open>the body of sendBundle's loop for a changed value\<close>
  "bundle_item tx index address v s = (case append_pending index address v s of
     Inl e \<Rightarrow> (s, Some (SendOsc e))
   | Inr (True, s) \<Rightarrow> (s, None)
   | Inr (False, s) \<Rightarrow>
       if builder_empty (snd_bundle s) then send_single tx index address v s
       else case flushBundle tx s of
         (s, Some e) \<Rightarrow> (s, Some e)
       | (s, None) \<Rightarrow> (case append_pending index address v s of
           Inl e \<Rightarrow> (s, Some (SendOsc e))
         | Inr (True, s) \<Rightarrow> (s, None)
         | Inr (False, s) \<Rightarrow> send_single tx index address v s))"

fun bundle_loop :: "(nat \<Rightarrow> bytes \<Rightarrow> bool) \<Rightarrow> value_source \<Rightarrow> (nat \<times> output_binding) list \<Rightarrow> sender \<Rightarrow> sender \<times> send_error option" where
  "bundle_loop tx src [] s = flushBundle tx s"
| "bundle_loop tx src ((index, x) # xs) s = (case evaluateOutput x src of
     Inl e \<Rightarrow> (s, Some e)
   | Inr None \<Rightarrow> bundle_loop tx src xs s
   | Inr (Some v) \<Rightarrow>
       if \<not> changed s index v then bundle_loop tx src xs s
       else case bundle_item tx index (ob_Address x) v s of
         (s, Some e) \<Rightarrow> (s, Some e)
       | (s, None) \<Rightarrow> bundle_loop tx src xs s)"

definition sendBundle :: "(nat \<Rightarrow> bytes \<Rightarrow> bool) \<Rightarrow> value_source \<Rightarrow> (nat \<times> output_binding) list \<Rightarrow> sender \<Rightarrow> sender \<times> send_error option" where
  "sendBundle tx src xs s = bundle_loop tx src xs (s\<lparr>snd_bundle := builder_reset (snd_bundle s), snd_pending := []\<rparr>)"

definition Send :: "(nat \<Rightarrow> bytes \<Rightarrow> bool) \<Rightarrow> value_source option \<Rightarrow> sender \<Rightarrow> sender \<times> send_error option" where
  "Send tx src s = (case src of None \<Rightarrow> (s, Some SourceNil)
   | Some src \<Rightarrow> (case snd_catalog s of None \<Rightarrow> (s, None)
     | Some catalog \<Rightarrow>
         if \<not> snd_transport s then (s, Some TransportNil)
         else if UseBundles s then sendBundle tx src (enumerate 0 (Outputs catalog)) s
         else sendStandalone tx src (enumerate 0 (Outputs catalog)) s))"

section \<open>What a send delivers\<close>

text \<open>The outputs that are due: those with a value that differs from the last one committed, in order.\<close>

type_synonym due_item = "nat \<times> scalar_item"

definition due :: "float32 \<Rightarrow> cached_scalar list \<Rightarrow> value_source \<Rightarrow> (nat \<times> output_binding) list \<Rightarrow> due_item list" where
  "due epsilon last_sent src xs = List.map_filter (\<lambda>(index, x). case evaluateOutput x src of
     Inr (Some v) \<Rightarrow> if cs_valid (last_sent ! index) \<and> scalarEqual (cs_value (last_sent ! index)) v epsilon then None
       else Some (index, ob_Address x, v)
   | _ \<Rightarrow> None) xs"

definition commit_items :: "due_item list \<Rightarrow> cached_scalar list \<Rightarrow> cached_scalar list" where
  "commit_items items l = foldl (\<lambda>l (index, address, v). l[index := \<lparr>cs_value = v, cs_valid = True\<rparr>]) l items"

definition delivered :: "(bytes \<times> bool) list \<Rightarrow> osc_message list" where
  \<comment> \<open>what a receiver decodes from the datagrams the transport took\<close>
  "delivered lg = concat (map (\<lambda>(p, ok). if ok then projr (UnmarshalPacket p) else []) lg)"

definition output_ok :: "output_binding \<Rightarrow> bool" where
  "output_ok x \<longleftrightarrow> ValidAddress (ob_Address x) \<and> valid_kind (WireKind x) \<and>
     (ob_Operation x = outputDirectFloat \<or> ob_Operation x = outputDirectBool \<or> ob_Operation x = outputBinaryNegative \<or> ob_Operation x = outputBinaryBit)"

lemma scalarFrom_ok:
  "valid_kind kind \<Longrightarrow> \<exists>w. scalarFromFloat kind v = Inr (Some w) \<and> valid_kind (sv_kind w)"
  "valid_kind kind \<Longrightarrow> \<exists>w. scalarFromBool kind b = Inr (Some w) \<and> valid_kind (sv_kind w)"
  by (auto simp: scalarFromFloat_def scalarFromBool_def valid_kind_def floatScalar_def intScalar_def boolScalar_def)

lemma evaluateOutput_ok:
  assumes "output_ok x"
  shows "evaluateOutput x src = Inr None \<or> (\<exists>v. evaluateOutput x src = Inr (Some v) \<and> item_ok (ob_Address x, v))"
  using assms scalarFrom_ok [of "WireKind x"]
  by (auto simp: evaluateOutput_def output_ok_def item_ok_def output_operations split: prod.splits if_splits)

definition same_setup :: "sender \<Rightarrow> sender \<Rightarrow> bool" where
  "same_setup s s' \<longleftrightarrow> snd_catalog s' = snd_catalog s \<and> FloatEpsilon s' = FloatEpsilon s \<and> MaxDatagram s' = MaxDatagram s \<and>
     snd_transport s' = snd_transport s \<and> maxDatagram (snd_bundle s') = maxDatagram (snd_bundle s)"

lemma same_setup_refl [simp]: "same_setup s s"
  by (simp add: same_setup_def)

lemma same_setup_trans: "same_setup s s1 \<Longrightarrow> same_setup s1 s2 \<Longrightarrow> same_setup s s2"
  by (simp add: same_setup_def)

text \<open>The outcome of sending a list of items from a state: a prefix of them is delivered and
  committed, all of them exactly if there is no error, and the only error is the transport's.\<close>

definition outcome :: "sender \<Rightarrow> due_item list \<Rightarrow> sender \<times> send_error option \<Rightarrow> bool" where
  "outcome s items r \<longleftrightarrow> (\<exists>n lg. n \<le> length items \<and>
     snd_log (fst r) = snd_log s @ lg \<and> delivered lg = map (item_message \<circ> snd) (take n items) \<and>
     snd_last (fst r) = commit_items (take n items) (snd_last s) \<and>
     snd r = (if n = length items then None else Some ErrTransport) \<and>
     (\<forall>p \<in> fst ` set lg. int (length p) \<le> MaxDatagram s \<or> (\<exists>i \<in> set items. p = item_bytes (snd i))) \<and>
     same_setup s (fst r) \<and> (items = [] \<longrightarrow> lg = []))"

lemma commit_items_append: "commit_items (a @ b) l = commit_items b (commit_items a l)"
  by (simp add: commit_items_def)

lemma delivered_append [simp]: "delivered (a @ b) = delivered a @ delivered b"
  by (simp add: delivered_def)

lemma outcome_done:
  assumes "snd_log s' = snd_log s" "snd_last s' = snd_last s" "same_setup s s'"
  shows "outcome s [] (s', None)"
  using assms unfolding outcome_def by (intro exI [of _ 0] exI [of _ "[]"]) (simp add: commit_items_def delivered_def)

lemma outcome_trans:
  assumes "outcome s a (s1, None)" "outcome s1 b r"
  shows "outcome s (a @ b) r"
proof -
  obtain lg1 where 1: "snd_log s1 = snd_log s @ lg1" "delivered lg1 = map (item_message \<circ> snd) a"
    "snd_last s1 = commit_items a (snd_last s)" "same_setup s s1"
    "\<forall>p \<in> fst ` set lg1. int (length p) \<le> MaxDatagram s \<or> (\<exists>i \<in> set a. p = item_bytes (snd i))" "a = [] \<longrightarrow> lg1 = []"
    using assms(1) unfolding outcome_def by (auto split: if_splits)
  obtain n lg2 where 2: "n \<le> length b" "snd_log (fst r) = snd_log s1 @ lg2" "delivered lg2 = map (item_message \<circ> snd) (take n b)"
    "snd_last (fst r) = commit_items (take n b) (snd_last s1)" "snd r = (if n = length b then None else Some ErrTransport)"
    "\<forall>p \<in> fst ` set lg2. int (length p) \<le> MaxDatagram s1 \<or> (\<exists>i \<in> set b. p = item_bytes (snd i))"
    "same_setup s1 (fst r)" "b = [] \<longrightarrow> lg2 = []"
    using assms(2) unfolding outcome_def by blast
  have t: "take (length a + n) (a @ b) = a @ take n b" by simp
  show ?thesis unfolding outcome_def
  proof (intro exI [of _ "length a + n"] exI [of _ "lg1 @ lg2"] conjI)
    show "\<forall>p \<in> fst ` set (lg1 @ lg2). int (length p) \<le> MaxDatagram s \<or> (\<exists>i \<in> set (a @ b). p = item_bytes (snd i))"
      using 1 2(6) by (auto simp: image_Un same_setup_def)
    show "same_setup s (fst r)" using 1(4) 2(7) same_setup_trans by blast
  qed (use 1 2 in \<open>simp_all add: t commit_items_append\<close>)
qed

lemma outcome_error:
  assumes "outcome s a (s1, Some e)"
  shows "outcome s (a @ b) (s1, Some e)"
proof -
  obtain n lg where 1: "n \<le> length a" "Some e = (if n = length a then None else Some ErrTransport)"
    "snd_log s1 = snd_log s @ lg" "delivered lg = map (item_message \<circ> snd) (take n a)"
    "snd_last s1 = commit_items (take n a) (snd_last s)" "same_setup s s1"
    "\<forall>p \<in> fst ` set lg. int (length p) \<le> MaxDatagram s \<or> (\<exists>i \<in> set a. p = item_bytes (snd i))"
    using assms unfolding outcome_def fst_conv snd_conv by blast
  from 1(2) have n: "n \<noteq> length a" "e = ErrTransport" by (auto split: if_splits)
  then have "n < length a" using 1(1) by simp
  then show ?thesis unfolding outcome_def
    by (intro exI [of _ n] exI [of _ lg]) (use 1 n in auto)
qed

lemma outcome_transmit:
  assumes "UnmarshalPacket p = Inr (map (item_message \<circ> snd) items)" "items \<noteq> []"
    and "int (length p) \<le> MaxDatagram s \<or> (\<exists>i \<in> set items. p = item_bytes (snd i))"
    and "snd_last s' = commit_items items (snd_last s)" "snd_log s' = snd_log s @ [(p, True)]"
      "same_setup s s'"
  shows "outcome s items (if tx (length (snd_log s)) p then (s', None) else (s\<lparr>snd_log := snd_log s @ [(p, False)]\<rparr>, Some ErrTransport))"
proof (cases "tx (length (snd_log s)) p")
  case True
  then show ?thesis unfolding outcome_def using assms
    by (intro exI [of _ "length items"] exI [of _ "[(p, True)]"]) (simp add: delivered_def)
next
  case False
  then show ?thesis unfolding outcome_def using assms
    by (intro exI [of _ 0] exI [of _ "[(p, False)]"]) (simp add: delivered_def commit_items_def same_setup_def)
qed

lemma send_single_outcome:
  assumes "item_ok (address, v)"
  shows "outcome s [(index, address, v)] (send_single tx index address v s)"
proof -
  let ?p = "scalar_bytes address v"
  have e: "encodeScalar address v = Inr ?p"
    using append_scalar_bytes(1) [of "[]" v address] assms by (simp add: encodeScalar_def item_ok_def)
  have d: "UnmarshalPacket ?p = Inr (map (item_message \<circ> snd) [(index, address, v)])" using item_decoded [OF assms] by simp
  have "outcome s [(index, address, v)] (if tx (length (snd_log s)) ?p then (commit index v (s\<lparr>snd_log := snd_log s @ [(?p, True)]\<rparr>), None)
      else (s\<lparr>snd_log := snd_log s @ [(?p, False)]\<rparr>, Some ErrTransport))"
    by (rule outcome_transmit [OF d]) (simp_all add: commit_def commit_items_def same_setup_def)
  then show ?thesis by (simp add: send_single_def e transmit_def split: if_splits)
qed

text \<open>The bundle under construction holds the encodings of the pending scalars.\<close>

definition pending_ok :: "due_item list \<Rightarrow> sender \<Rightarrow> bool" where
  "pending_ok items s \<longleftrightarrow> bb_buffer (snd_bundle s) = bundle_bytes (map snd items) \<and>
     snd_pending s = map (\<lambda>(i, a, v). (i, v)) items \<and> list_all (item_ok \<circ> snd) items \<and>
     maxDatagram (snd_bundle s) = MaxDatagram s \<and> MaxDatagram s \<le> 2 ^ 31 - 1 \<and>
     (items \<noteq> [] \<longrightarrow> int (length (bundle_bytes (map snd items))) \<le> MaxDatagram s)"

lemma reset_bundle: "bb_buffer (builder_reset b) = bundle_bytes []" "maxDatagram (builder_reset b) = maxDatagram b"
  by (simp_all add: builder_reset_def bundle_bytes_def bundle_prefix_def)

lemma pending_empty: "pending_ok items s \<Longrightarrow> builder_empty (snd_bundle s) \<longleftrightarrow> items = []"
  using bundle_bytes_empty [of "map snd items"] by (simp add: pending_ok_def builder_empty_def immediateBundleHeaderSize_def)

lemma fold_commit: "fold (\<lambda>(i, v). commit i v) (map (\<lambda>(i, a, v). (i, v)) items) s = s\<lparr>snd_last := commit_items items (snd_last s)\<rparr>"
  by (induction items arbitrary: s) (auto simp: commit_items_def commit_def)

lemma flush_outcome:
  assumes "pending_ok items s"
  shows "outcome s items (flushBundle tx s)" "snd (flushBundle tx s) = None \<Longrightarrow> pending_ok [] (fst (flushBundle tx s))"
proof -
  let ?p = "bb_buffer (snd_bundle s)"
  show "outcome s items (flushBundle tx s)"
  proof (cases "items = []")
    case True
    then show ?thesis using pending_empty [OF assms] by (simp add: flushBundle_def outcome_done)
  next
    case False
    have d: "UnmarshalPacket ?p = Inr (map (item_message \<circ> snd) items)"
      using bundle_decoded [of "map snd items"] assms False by (simp add: pending_ok_def list.pred_map)
    let ?s = "s\<lparr>snd_log := snd_log s @ [(?p, True)]\<rparr>"
    have "outcome s items (if tx (length (snd_log s)) ?p
        then (?s\<lparr>snd_last := commit_items items (snd_last s), snd_pending := [], snd_bundle := builder_reset (snd_bundle s)\<rparr>, None)
        else (s\<lparr>snd_log := snd_log s @ [(?p, False)]\<rparr>, Some ErrTransport))"
      by (rule outcome_transmit [OF d False]) (use assms False in \<open>simp_all add: pending_ok_def same_setup_def reset_bundle\<close>)
    moreover have "snd_pending s = map (\<lambda>(i, a, v). (i, v)) items" using assms by (simp add: pending_ok_def)
    ultimately show ?thesis
      using pending_empty [OF assms] False by (simp add: flushBundle_def transmit_def fold_commit Let_def split: if_splits)
  qed
  show "pending_ok [] (fst (flushBundle tx s))" if "snd (flushBundle tx s) = None"
  proof (cases "items = []")
    case True
    then show ?thesis using assms pending_empty [OF assms] by (simp add: flushBundle_def)
  next
    case False
    moreover have "snd_pending s = map (\<lambda>(i, a, v). (i, v)) items" using assms by (simp add: pending_ok_def)
    ultimately show ?thesis
      using assms that pending_empty [OF assms]
      by (auto simp: flushBundle_def transmit_def fold_commit Let_def pending_ok_def reset_bundle split: if_splits)
  qed
qed

lemma append_pending_item:
  assumes "pending_ok items s" "item_ok (address, v)"
  shows "(\<exists>s'. append_pending index address v s = Inr (True, s') \<and> pending_ok (items @ [(index, address, v)]) s' \<and>
      snd_log s' = snd_log s \<and> snd_last s' = snd_last s \<and> same_setup s s') \<or>
    append_pending index address v s = Inr (False, s)"
proof -
  have "list_all item_ok (map snd items)" using assms(1) by (simp add: pending_ok_def list.pred_map)
  then have "appendScalar address v (snd_bundle s) =
      (if MaxDatagram s < int (length (bundle_bytes (map snd (items @ [(index, address, v)])))) then Inr (False, snd_bundle s)
       else Inr (True, (snd_bundle s)\<lparr>bb_buffer := bundle_bytes (map snd (items @ [(index, address, v)]))\<rparr>))"
    using appendScalar_item [of "snd_bundle s" "map snd items" "(address, v)"] assms by (simp add: pending_ok_def)
  then show ?thesis using assms by (auto simp: append_pending_def pending_ok_def same_setup_def)
qed

lemma send_single_pending: "pending_ok [] s \<Longrightarrow> pending_ok [] (fst (send_single tx index address v s))"
  by (simp add: send_single_def transmit_def commit_def pending_ok_def Let_def split: sum.split)

lemma bundle_item_outcome:
  assumes "pending_ok items s" "item_ok (address, v)"
  shows "case bundle_item tx index address v s of
      (s', None) \<Rightarrow> \<exists>sent pending. items @ [(index, address, v)] = sent @ pending \<and> outcome s sent (s', None) \<and> pending_ok pending s'
    | (s', Some e) \<Rightarrow> outcome s (items @ [(index, address, v)]) (s', Some e)"
  using append_pending_item [OF assms, of index]
proof (elim disjE exE conjE)
  fix s' assume s': "append_pending index address v s = Inr (True, s')" "pending_ok (items @ [(index, address, v)]) s'"
    "snd_log s' = snd_log s" "snd_last s' = snd_last s" "same_setup s s'"
  then have "outcome s [] (s', None)" by (intro outcome_done)
  then show ?thesis using s'(1,2) by (auto simp: bundle_item_def)
next
  assume full: "append_pending index address v s = Inr (False, s)"
  show ?thesis
  proof (cases "items = []")
    case True
    obtain s' r where r: "send_single tx index address v s = (s', r)" by fastforce
    then have "outcome s [(index, address, v)] (s', r)" "pending_ok [] s'"
      using send_single_outcome [OF assms(2), of s index tx] send_single_pending [of s tx index address v] assms(1) True by simp_all
    then show ?thesis using full r pending_empty [OF assms(1)] True by (cases r) (auto simp: bundle_item_def)
  next
    case False
    obtain s1 r where f: "flushBundle tx s = (s1, r)" by fastforce
    then have o1: "outcome s items (s1, r)" and p1: "r = None \<Longrightarrow> pending_ok [] s1"
      using flush_outcome [OF assms(1), of tx] by simp_all
    show ?thesis
    proof (cases r)
      case (Some e)
      then show ?thesis using full f pending_empty [OF assms(1)] False o1 outcome_error [of s items s1 e] by (simp add: bundle_item_def)
    next
      case None
      note p = p1 [OF None]
      show ?thesis
        using append_pending_item [OF p assms(2), of index]
      proof (elim disjE exE conjE)
        fix s2 assume s2: "append_pending index address v s1 = Inr (True, s2)" "pending_ok ([] @ [(index, address, v)]) s2"
          "snd_log s2 = snd_log s1" "snd_last s2 = snd_last s1" "same_setup s1 s2"
        then have "outcome s1 [] (s2, None)" by (intro outcome_done)
        then have "outcome s items (s2, None)" using outcome_trans o1 None by fastforce
        then show ?thesis using full f None s2(1,2) pending_empty [OF assms(1)] False by (auto simp: bundle_item_def)
      next
        assume full1: "append_pending index address v s1 = Inr (False, s1)"
        obtain s2 r2 where r2: "send_single tx index address v s1 = (s2, r2)" by fastforce
        then have "outcome s1 [(index, address, v)] (s2, r2)" "pending_ok [] s2"
          using send_single_outcome [OF assms(2), of s1 index tx] send_single_pending [OF p, of tx index address v] by simp_all
        then have "outcome s (items @ [(index, address, v)]) (s2, r2)" using outcome_trans o1 None by blast
        then show ?thesis using full f None full1 r2 \<open>pending_ok [] s2\<close> pending_empty [OF assms(1)] False
          by (cases r2) (auto simp: bundle_item_def)
      qed
    qed
  qed
qed

lemma due_Cons:
  "due eps l src ((index, x) # xs) = (case evaluateOutput x src of
     Inr (Some v) \<Rightarrow> if cs_valid (l ! index) \<and> scalarEqual (cs_value (l ! index)) v eps then due eps l src xs
       else (index, ob_Address x, v) # due eps l src xs
   | _ \<Rightarrow> due eps l src xs)"
  by (auto simp: due_def map_filter_simps split: sum.split option.split)

lemma due_mem:
  "item \<in> set (due eps l src xs) \<longleftrightarrow> (\<exists>index x v. (index, x) \<in> set xs \<and> evaluateOutput x src = Inr (Some v) \<and>
    \<not> (cs_valid (l ! index) \<and> scalarEqual (cs_value (l ! index)) v eps) \<and> item = (index, ob_Address x, v))"
proof (induction xs)
  case (Cons x xs)
  obtain i ob where "x = (i, ob)" by fastforce
  then show ?case using Cons by (cases "evaluateOutput ob src") (auto simp: due_Cons split: option.split)
qed (simp add: due_def map_filter_simps)

lemma commit_items_other: "index \<notin> fst ` set items \<Longrightarrow> commit_items items l ! index = l ! index"
  by (induction items arbitrary: l) (auto simp: commit_items_def)

lemma due_commit:
  "fst ` set xs \<inter> fst ` set items = {} \<Longrightarrow> due eps (commit_items items l) src xs = due eps l src xs"
proof (induction xs)
  case (Cons x xs)
  then show ?case using commit_items_other [of "fst x" items l]
    by (cases x) (auto simp: due_Cons split: sum.split option.split)
qed (simp add: due_def map_filter_simps)

lemma outcome_keeps:
  assumes "outcome s items (s', None)"
  shows "FloatEpsilon s' = FloatEpsilon s" "snd_last s' = commit_items items (snd_last s)"
  using assms unfolding outcome_def same_setup_def by (auto split: if_splits)

lemma bundle_loop_outcome:
  assumes "list_all (output_ok \<circ> snd) xs" "pending_ok items s" "distinct (map fst items @ map fst xs)"
  shows "outcome s (items @ due (FloatEpsilon s) (snd_last s) src xs) (bundle_loop tx src xs s)"
  using assms
proof (induction xs arbitrary: items s)
  case Nil
  then show ?case using flush_outcome(1) [of items s tx] by (simp add: due_def map_filter_simps)
next
  case (Cons x xs)
  obtain index ob where x: "x = (index, ob)" by fastforce
  have ok: "output_ok ob" "list_all (output_ok \<circ> snd) xs" using Cons.prems(1) x by (simp_all add: o_def)
  have rest: "outcome s (items @ due (FloatEpsilon s) (snd_last s) src xs) (bundle_loop tx src xs s)"
    using Cons.IH [OF ok(2) Cons.prems(2)] Cons.prems(3) x by simp
  from evaluateOutput_ok [OF ok(1), of src] show ?case
  proof (elim disjE exE conjE)
    assume "evaluateOutput ob src = Inr None"
    then show ?thesis using rest by (simp add: x due_Cons)
  next
    fix v assume v: "evaluateOutput ob src = Inr (Some v)" "item_ok (ob_Address ob, v)"
    show ?thesis
    proof (cases "changed s index v")
      case False
      then show ?thesis using rest v(1) by (simp add: x due_Cons changed_def Let_def)
    next
      case True
      let ?it = "(index, ob_Address ob, v)"
      have d: "due (FloatEpsilon s) (snd_last s) src (x # xs) = ?it # due (FloatEpsilon s) (snd_last s) src xs"
        using True v(1) by (simp add: x due_Cons changed_def Let_def)
      obtain s' r where b: "bundle_item tx index (ob_Address ob) v s = (s', r)" by fastforce
      note step = bundle_item_outcome [where tx = tx and index = index, OF Cons.prems(2) v(2), unfolded b prod.case]
      show ?thesis
      proof (cases r)
        case (Some e)
        then have "outcome s (items @ [?it]) (s', Some e)" using step by simp
        from outcome_error [OF this, of "due (FloatEpsilon s) (snd_last s) src xs"]
        show ?thesis using True v(1) b Some d by (simp add: x)
      next
        case None
        then obtain sent pending where sp: "items @ [?it] = sent @ pending" "outcome s sent (s', None)" "pending_ok pending s'"
          using step by auto
        have fsts: "map fst sent @ map fst pending = map fst items @ [index]" using arg_cong [OF sp(1), of "map fst"] by simp
        have dist: "distinct ((map fst sent @ map fst pending) @ map fst xs)"
          using Cons.prems(3) unfolding fsts by (simp add: x)
        then have "outcome s' (pending @ due (FloatEpsilon s') (snd_last s') src xs) (bundle_loop tx src xs s')"
          by (intro Cons.IH ok sp) simp
        moreover have "due (FloatEpsilon s') (snd_last s') src xs = due (FloatEpsilon s) (snd_last s) src xs"
          unfolding outcome_keeps [OF sp(2)] using dist by (intro due_commit) auto
        ultimately have "outcome s (sent @ pending @ due (FloatEpsilon s) (snd_last s) src xs) (bundle_loop tx src xs s')"
          using outcome_trans [OF sp(2)] by simp
        moreover have "sent @ pending @ due (FloatEpsilon s) (snd_last s) src xs = items @ ?it # due (FloatEpsilon s) (snd_last s) src xs"
          using sp(1) by (metis append.assoc append_Cons append_Nil)
        ultimately show ?thesis using True v(1) b None d by (simp add: x)
      qed
    qed
  qed
qed

lemma standalone_outcome:
  assumes "list_all (output_ok \<circ> snd) xs" "distinct (map fst xs)"
  shows "outcome s (due (FloatEpsilon s) (snd_last s) src xs) (sendStandalone tx src xs s)"
  using assms
proof (induction xs arbitrary: s)
  case Nil
  then show ?case by (simp add: due_def map_filter_simps outcome_done)
next
  case (Cons x xs)
  obtain index ob where x: "x = (index, ob)" by fastforce
  have ok: "output_ok ob" "list_all (output_ok \<circ> snd) xs" "distinct (map fst xs)" "index \<notin> fst ` set xs" using Cons.prems x by (simp_all add: o_def)
  from evaluateOutput_ok [OF ok(1), of src] show ?case
  proof (elim disjE exE conjE)
    assume "evaluateOutput ob src = Inr None"
    then show ?thesis using Cons.IH [OF ok(2,3)] by (simp add: x due_Cons)
  next
    fix v assume v: "evaluateOutput ob src = Inr (Some v)" "item_ok (ob_Address ob, v)"
    show ?thesis
    proof (cases "changed s index v")
      case False
      then show ?thesis using Cons.IH [OF ok(2,3)] v(1) by (simp add: x due_Cons changed_def Let_def)
    next
      case True
      let ?it = "(index, ob_Address ob, v)"
      have d: "due (FloatEpsilon s) (snd_last s) src (x # xs) = ?it # due (FloatEpsilon s) (snd_last s) src xs"
        using True v(1) by (simp add: x due_Cons changed_def Let_def)
      obtain s' r where b: "send_single tx index (ob_Address ob) v s = (s', r)" by fastforce
      have o1: "outcome s [?it] (s', r)" using send_single_outcome [OF v(2), of s index tx] b by simp
      show ?thesis
      proof (cases r)
        case (Some e)
        then show ?thesis using True v(1) b d outcome_error [of s "[?it]" s' e] o1 by (simp add: x)
      next
        case None
        have "due (FloatEpsilon s') (snd_last s') src xs = due (FloatEpsilon s) (snd_last s) src xs"
          unfolding outcome_keeps [OF o1 [unfolded None]] using ok(4) by (intro due_commit) auto
        then have "outcome s ([?it] @ due (FloatEpsilon s) (snd_last s) src xs) (sendStandalone tx src xs s')"
          using outcome_trans [OF o1 [unfolded None]] Cons.IH [OF ok(2,3), of s'] by simp
        then show ?thesis using True v(1) b None d by (simp add: x)
      qed
    qed
  qed
qed

section \<open>Sending a catalog's outputs\<close>

definition ready :: "osc_catalog \<Rightarrow> sender \<Rightarrow> bool" where
  "ready cat s \<longleftrightarrow> snd_catalog s = Some cat \<and> snd_transport s \<and> maxDatagram (snd_bundle s) = MaxDatagram s \<and> MaxDatagram s \<le> 2 ^ 31 - 1"

abbreviation due_outputs :: "osc_catalog \<Rightarrow> value_source \<Rightarrow> sender \<Rightarrow> due_item list" where
  "due_outputs cat src s \<equiv> due (FloatEpsilon s) (snd_last s) src (enumerate 0 (Outputs cat))"

lemma wanted_for_operation: "y \<in> wanted_for specs es pid \<Longrightarrow> ob_Operation y = outputDirectFloat \<or> ob_Operation y = outputDirectBool \<or>
    ob_Operation y = outputBinaryNegative \<or> ob_Operation y = outputBinaryBit"
  by (auto simp: wanted_for_def wanted_binary_def direct_output_def binary_output_def)

lemma built_output:
  assumes "BuildCatalogFromEndpoints now es (Some specs) gen = Inr cat" "x \<in> set (Outputs cat)"
  obtains pid where "x\<lparr>CacheIndex := 0\<rparr> \<in> wanted_for specs es pid"
  using assms built_outputs(2) [OF assms(1)] by blast

lemma built_outputs_ok:
  assumes "BuildCatalogFromEndpoints now es (Some specs) gen = Inr cat"
  shows "list_all output_ok (Outputs cat)"
  unfolding list_all_iff
proof
  fix x assume "x \<in> set (Outputs cat)"
  then obtain pid where x: "x\<lparr>CacheIndex := 0\<rparr> \<in> wanted_for specs es pid" by (rule built_output [OF assms])
  obtain e where e: "e \<in> set es" "ob_Address x = ep_Address e" "WireKind x = wire_kind (ep_Type e)"
    using wanted_for_fields [OF x] by auto
  have "check_endpoints es = Inr ()" by (rule built_parts [OF assms])
  then have "ValidAddress (ep_Address e)" using e(1) by (simp add: check_endpoints_ok)
  moreover have "valid_kind (wire_kind (ep_Type e))" by (simp add: wire_kind_def valid_kind_def)
  ultimately show "output_ok x" using e(2,3) wanted_for_operation [OF x] by (simp add: output_ok_def)
qed

lemma Send_outcome:
  assumes "BuildCatalogFromEndpoints now es (Some specs) gen = Inr cat" "ready cat s"
  shows "outcome s (due_outputs cat src s) (Send tx (Some src) s)"
proof -
  let ?xs = "enumerate 0 (Outputs cat)"
  have ok: "list_all (output_ok \<circ> snd) ?xs" "distinct (map fst ?xs)"
    using built_outputs_ok [OF assms(1)] by (simp_all flip: list.pred_map)
  show ?thesis
  proof (cases "UseBundles s")
    case True
    let ?s = "s\<lparr>snd_bundle := builder_reset (snd_bundle s), snd_pending := []\<rparr>"
    have "pending_ok [] ?s" using assms(2) by (simp add: pending_ok_def ready_def reset_bundle)
    then have "outcome ?s ([] @ due (FloatEpsilon ?s) (snd_last ?s) src ?xs) (bundle_loop tx src ?xs ?s)"
      by (rule bundle_loop_outcome [OF ok(1)]) (simp add: ok(2))
    then have "outcome ?s (due_outputs cat src s) (bundle_loop tx src ?xs ?s)" by simp
    moreover have "outcome s [] (?s, None)" by (rule outcome_done) (simp_all add: same_setup_def reset_bundle)
    ultimately have "outcome s ([] @ due_outputs cat src s) (bundle_loop tx src ?xs ?s)" using outcome_trans by blast
    then show ?thesis using assms(2) True by (simp add: Send_def ready_def sendBundle_def)
  next
    case False
    then show ?thesis using assms(2) standalone_outcome [OF ok, of s src tx] by (simp add: Send_def ready_def)
  qed
qed

text \<open>C3 (refinement). In both modes Send implements one abstract operation: deliver the outputs that
  are due, in the catalog's order. Whatever the transport refuses, a prefix of them is delivered,
  which is what the datagrams it accepted decode to; exactly the delivered ones are remembered as
  sent, so that the rest stays due; and there is an error exactly if something is left over.\<close>

theorem Send_delivers:
  assumes "BuildCatalogFromEndpoints now es (Some specs) gen = Inr cat" and "ready cat s"
  shows "\<exists>n lg. n \<le> length (due_outputs cat src s) \<and>
    snd_log (fst (Send tx (Some src) s)) = snd_log s @ lg \<and>
    delivered lg = map (item_message \<circ> snd) (take n (due_outputs cat src s)) \<and>
    snd_last (fst (Send tx (Some src) s)) = commit_items (take n (due_outputs cat src s)) (snd_last s) \<and>
    snd (Send tx (Some src) s) = (if n = length (due_outputs cat src s) then None else Some ErrTransport)"
  using Send_outcome [OF assms, of src tx] unfolding outcome_def by blast

text \<open>Every datagram a send hands to the transport fits the datagram limit, unless it is
  a single message, which cannot be split.\<close>

theorem Send_datagram_size:
  assumes "BuildCatalogFromEndpoints now es (Some specs) gen = Inr cat" and "ready cat s"
    and "(p, ok) \<in> set (drop (length (snd_log s)) (snd_log (fst (Send tx (Some src) s))))"
  shows "int (length p) \<le> MaxDatagram s \<or> (\<exists>m. MarshalMessage m = Inr p)"
proof -
  obtain lg where lg: "snd_log (fst (Send tx (Some src) s)) = snd_log s @ lg"
      "\<forall>p \<in> fst ` set lg. int (length p) \<le> MaxDatagram s \<or> (\<exists>i \<in> set (due_outputs cat src s). p = item_bytes (snd i))"
    using Send_outcome [OF assms(1,2), of src tx] unfolding outcome_def by blast
  then have "int (length p) \<le> MaxDatagram s \<or> (\<exists>i \<in> set (due_outputs cat src s). p = item_bytes (snd i))"
    using assms(3) by force
  moreover have "item_ok (snd i)" if i: "i \<in> set (due_outputs cat src s)" for i
  proof -
    obtain index x v where x: "(index, x) \<in> set (enumerate 0 (Outputs cat))" "evaluateOutput x src = Inr (Some v)" "i = (index, ob_Address x, v)"
      using i unfolding due_mem by blast
    then have "output_ok x" using built_outputs_ok [OF assms(1)] by (auto simp: list_all_iff in_set_enumerate_eq)
    then show ?thesis using evaluateOutput_ok [of x src] x(2,3) by auto
  qed
  ultimately show ?thesis using append_scalar_bytes(2) [of "[]"] unfolding item_ok_def by fastforce
qed

section \<open>Sending the same values again\<close>

lemma wanted_for_range: "y \<in> wanted_for specs es pid \<Longrightarrow>
    ob_Range y = spec_Range (byID specs ! pid) \<and> ob_HasRange y = spec_HasRange (byID specs ! pid)"
  by (auto simp: wanted_for_def wanted_binary_def direct_output_def binary_output_def)

lemma built_range:
  assumes "BuildCatalogFromEndpoints now es (Some shipped_catalog) gen = Inr cat" "x \<in> set (Outputs cat)" "ob_HasRange x"
  shows "finite32 (range_Min (ob_Range x))" "finite32 (range_Max (ob_Range x))"
proof -
  obtain pid where x: "x\<lparr>CacheIndex := 0\<rparr> \<in> wanted_for shipped_catalog es pid" by (rule built_output [OF assms(1,2)])
  then have "pid \<in> bound_parameters shipped_catalog es" using wanted_for_bound by blast
  then obtain e where "direct_of shipped_catalog e = Some pid \<or> map_option bm_ID (binary_of shipped_catalog e) = Some pid"
    by (auto simp: bound_parameters_def)
  then have "catalog_Spec shipped_catalog pid \<noteq> None"
    by (auto simp: direct_of_def binary_of_def split: option.splits if_splits)
  then have pid: "pid < 127" by (simp add: catalog_Spec_def shipped_catalog_def Definitions_length split: if_splits)
  have "ob_Range x = spec_Range (byID shipped_catalog ! pid) \<and> ob_HasRange x = spec_HasRange (byID shipped_catalog ! pid)"
    using wanted_for_range [OF x] by simp
  then have r: "ob_Range x = pd_Range (Definitions ! pid)" "HasRange (Definitions ! pid)"
    using pid assms(3) by (simp_all add: shipped_catalog_def spec_of_def Definitions_length)
  have "validateParameterSpec (spec_of (Definitions ! pid)) = Inr ()"
    using shipped_definitions pid unfolding list_all_length Definitions_length by blast
  then show "finite32 (range_Min (ob_Range x))" "finite32 (range_Max (ob_Range x))"
    using r by (auto simp: validateParameterSpec_def spec_of_def result_iffs finite32_def)
qed

definition settled_scalar :: "scalar_value \<Rightarrow> bool" where
  "settled_scalar v \<longleftrightarrow> (sv_kind v = scalarFloat32 \<longrightarrow> finite32 (Float32frombits (sv_bits v)))"

lemma evaluateOutput_settled:
  assumes "evaluateOutput x src = Inr (Some v)" "ob_HasRange x \<Longrightarrow> finite32 (range_Min (ob_Range x)) \<and> finite32 (range_Max (ob_Range x))"
  shows "settled_scalar v"
proof -
  have "finite32 w \<Longrightarrow> finite32 (clampOutput x w)" for w using assms(2) by (auto simp: clampOutput_def clamp32_def)
  then have f: "scalarFromFloat (WireKind x) (clampOutput x w) = Inr (Some v) \<Longrightarrow> finite32 w \<Longrightarrow> settled_scalar v" for w
    by (auto simp: scalarFromFloat_def settled_scalar_def floatScalar_def intScalar_def boolScalar_def scalar_kinds split: if_splits)
  have b: "scalarFromBool (WireKind x) c = Inr (Some v) \<Longrightarrow> settled_scalar v" for c
    by (auto simp: scalarFromBool_def settled_scalar_def floatScalar_def intScalar_def boolScalar_def scalar_kinds split: if_splits)
  show ?thesis using assms(1) f b by (auto simp: evaluateOutput_def split: prod.splits if_splits)
qed

lemma scalarEqual_refl: "settled_scalar v \<Longrightarrow> le32 zero32 epsilon \<Longrightarrow> scalarEqual v v epsilon"
  using narrow_abs_widen [of zero32] by (simp add: scalarEqual_def settled_scalar_def sub32_self abs32_def make32_parts [of zero32, simplified])

lemma commit_items_nth:
  assumes "(index, a, v) \<in> set items" "distinct (map fst items)" "index < length l"
  shows "commit_items items l ! index = \<lparr>cs_value = v, cs_valid = True\<rparr>"
  using assms
proof (induction items arbitrary: l)
  case (Cons i items)
  obtain j b w where i: "i = (j, b, w)" by (cases i) auto
  have step: "commit_items (i # items) l = commit_items items (l[j := \<lparr>cs_value = w, cs_valid = True\<rparr>])" by (simp add: commit_items_def i)
  show ?case
  proof (cases "(index, a, v) \<in> set items")
    case True
    then show ?thesis using Cons.IH [of "l[j := \<lparr>cs_value = w, cs_valid = True\<rparr>]"] Cons.prems by (simp add: step)
  next
    case False
    then have "j = index" "w = v" using Cons.prems(1) i by auto
    moreover have "index \<notin> fst ` set items" using Cons.prems(2) i calculation(1) by simp
    ultimately show ?thesis unfolding step using Cons.prems(3) by (simp add: commit_items_other)
  qed
qed simp

lemma due_distinct: "distinct (map fst xs) \<Longrightarrow> distinct (map fst (due eps l src xs)) \<and> fst ` set (due eps l src xs) \<subseteq> fst ` set xs"
proof (induction xs)
  case (Cons x xs)
  obtain i ob where "x = (i, ob)" by fastforce
  then show ?case using Cons by (auto simp: due_Cons split: sum.split option.split)
qed (simp add: due_def map_filter_simps)

lemma due_settled:
  assumes "distinct (map fst xs)" "\<forall>(i, x) \<in> set xs. i < length l \<and> (\<forall>v. evaluateOutput x src = Inr (Some v) \<longrightarrow> scalarEqual v v eps)"
  shows "due eps (commit_items (due eps l src xs) l) src xs = []"
proof -
  let ?D = "due eps l src xs"
  have "item \<notin> set (due eps (commit_items ?D l) src xs)" for item
  proof
    assume "item \<in> set (due eps (commit_items ?D l) src xs)"
    then obtain i x v where x: "(i, x) \<in> set xs" "evaluateOutput x src = Inr (Some v)"
        "\<not> (cs_valid (commit_items ?D l ! i) \<and> scalarEqual (cs_value (commit_items ?D l ! i)) v eps)"
      unfolding due_mem by blast
    have i: "i < length l" "scalarEqual v v eps" using assms(2) x(1,2) by auto
    show False
    proof (cases "cs_valid (l ! i) \<and> scalarEqual (cs_value (l ! i)) v eps")
      case True
      have "i \<notin> fst ` set ?D"
      proof
        assume "i \<in> fst ` set ?D"
        then obtain x' v' where "(i, x') \<in> set xs" "evaluateOutput x' src = Inr (Some v')" "\<not> (cs_valid (l ! i) \<and> scalarEqual (cs_value (l ! i)) v' eps)"
          by (auto simp: due_mem)
        moreover from this have "x' = x" using assms(1) x(1) by (metis map_of_is_SomeI option.inject)
        ultimately show False using True x(2) by simp
      qed
      then show False using True x(3) by (simp add: commit_items_other)
    next
      case False
      then have "(i, ob_Address x, v) \<in> set ?D" using x(1,2) unfolding due_mem by blast
      then have "commit_items ?D l ! i = \<lparr>cs_value = v, cs_valid = True\<rparr>"
        by (intro commit_items_nth conjunct1 [OF due_distinct] assms(1) i(1))
      then show False using x(3) i(2) by simp
    qed
  qed
  then show ?thesis by (metis neq_Nil_conv list.set_intros(1))
qed

text \<open>A send that succeeds settles the sender: sending the same values again hands
  nothing to the transport and changes nothing that is remembered, for every threshold that is not
  negative. It takes finite values, which are the only ones evaluated, and ranges with finite bounds,
  which the shipped table has.\<close>

theorem Send_again_silent:
  assumes "BuildCatalogFromEndpoints now es (Some shipped_catalog) gen = Inr cat" and "ready cat s"
    and "length (snd_last s) = length (Outputs cat)" and "le32 zero32 (FloatEpsilon s)"
    and "Send tx (Some src) s = (s', None)"
  shows "snd_log (fst (Send tx' (Some src) s')) = snd_log s' \<and> snd_last (fst (Send tx' (Some src) s')) = snd_last s' \<and>
    snd (Send tx' (Some src) s') = None"
proof -
  let ?xs = "enumerate 0 (Outputs cat)"
  have o: "outcome s (due_outputs cat src s) (s', None)" using Send_outcome [OF assms(1,2), of src tx] assms(5) by simp
  note keep = outcome_keeps [OF o]
  have "due_outputs cat src s' = []"
    unfolding keep
  proof (rule due_settled)
    show "distinct (map fst ?xs)" by simp
    show "\<forall>(i, x) \<in> set ?xs. i < length (snd_last s) \<and> (\<forall>v. evaluateOutput x src = Inr (Some v) \<longrightarrow> scalarEqual v v (FloatEpsilon s))"
    proof (clarify, intro conjI allI impI)
      fix i x assume x: "(i, x) \<in> set ?xs"
      then show "i < length (snd_last s)" using assms(3) by (simp add: in_set_enumerate_eq)
      fix v assume v: "evaluateOutput x src = Inr (Some v)"
      have "x \<in> set (Outputs cat)" using x by (auto simp: in_set_enumerate_eq)
      then have "settled_scalar v" using evaluateOutput_settled [OF v] built_range [OF assms(1)] by blast
      then show "scalarEqual v v (FloatEpsilon s)" using scalarEqual_refl assms(4) by blast
    qed
  qed
  moreover have "ready cat s'"
    using assms(2) o by (auto simp: ready_def outcome_def same_setup_def)
  ultimately have "outcome s' [] (Send tx' (Some src) s')" using Send_outcome [OF assms(1), of s' src tx'] by simp
  then show ?thesis by (auto simp: outcome_def delivered_def commit_items_def)
qed

section \<open>Binary encodings\<close>

lemma quantize_le: "quantize qmax magnitude \<le> qmax"
  by (simp add: quantize_def Let_def not_less)

lemma sum_bits: "w \<le> mask n \<Longrightarrow> (\<Sum>i<n. if bit w i then 2 ^ i else 0 :: int) = uint w" for w :: u32
proof -
  assume w: "w \<le> mask n"
  have "uint w \<le> mask (min 32 n)" using w by (simp add: word_le_def uint_mask_eq)
  also have "mask (min 32 n) < (2 ^ n :: int)"
  proof -
    have "(2 :: int) ^ min 32 n \<le> 2 ^ n" by (rule power_increasing) simp_all
    then show ?thesis unfolding mask_eq_exp_minus_1 by linarith
  qed
  finally have "take_bit n (uint w) = uint w" by (simp add: take_bit_int_eq_self_iff)
  moreover have "(\<Sum>i<n. if bit w i then 2 ^ i else 0 :: int) = take_bit n (uint w)"
  proof -
    have "(\<Sum>i<n. of_bool (bit (uint w) i) * 2 ^ i) = take_bit n (uint w)"
      by (simp flip: horner_sum_bit_eq_take_bit add: horner_sum_eq_sum atLeast0LessThan)
    moreover have "bit (uint w) i = bit w i" for i
      using bit_imp_le_length [of w i] by (auto simp: bit_uint_iff)
    moreover have "(\<Sum>i<n. if bit w i then 2 ^ i else 0 :: int) = (\<Sum>i<n. of_bool (bit w i) * 2 ^ i)"
      by (intro sum.cong) simp_all
    ultimately show ?thesis by simp
  qed
  ultimately show ?thesis by simp
qed

text \<open>The bit outputs of a binary encoding with all the weights below 2^n spell the
  quantized magnitude: the weights whose bit is sent as true add up to it.\<close>

theorem binary_outputs_spell:
  assumes "src_Float src pid = (v, True)" and "finite32 v" and "n \<le> 32"
    and "\<And>i. i < n \<Longrightarrow> ob_Operation (x i) = outputBinaryBit \<and> ob_Parameter (x i) = pid \<and> WireKind (x i) = scalarFalse \<and>
      ob_Weight (x i) = 2 ^ i \<and> QuantizeMax (x i) = mask n \<and> ob_Range (x i) = rng \<and> ob_HasRange (x i) = hasRange"
  shows "(\<Sum>i<n. if evaluateOutput (x i) src = Inr (Some (boolScalar True)) then 2 ^ i else 0) =
    uint (quantize (mask n) (binaryMagnitude rng hasRange (if hasRange then clamp32 v (range_Min rng) (range_Max rng) else v)))"
proof -
  let ?q = "quantize (mask n) (binaryMagnitude rng hasRange (if hasRange then clamp32 v (range_Min rng) (range_Max rng) else v))"
  have "evaluateOutput (x i) src = Inr (Some (boolScalar True)) \<longleftrightarrow> bit ?q i" if "i < n" for i
  proof -
    have c: "clampOutput (x i) v = (if hasRange then clamp32 v (range_Min rng) (range_Max rng) else v)"
      using assms(4) [OF that] by (simp add: clampOutput_def)
    have "evaluateOutput (x i) src = Inr (Some (boolScalar (?q AND 2 ^ i \<noteq> 0)))"
      using assms(1,2) assms(4) [OF that] unfolding evaluateOutput_def
      by (simp add: c output_operations scalarFromBool_def scalar_kinds)
    then show ?thesis by (simp add: boolScalar_def scalar_kinds)
  qed
  then have "(\<Sum>i<n. if evaluateOutput (x i) src = Inr (Some (boolScalar True)) then 2 ^ i else 0 :: int) = (\<Sum>i<n. if bit ?q i then 2 ^ i else 0)"
    by (intro sum.cong) auto
  also have "\<dots> = uint ?q" using sum_bits quantize_le by blast
  finally show ?thesis .
qed

text \<open>The factor QuantizeMax+1 is computed in 32 bits. If all 32 weights are bound it wraps to zero,
  and the largest magnitude is quantized to zero instead of QuantizeMax.\<close>

lemma quantize_wraps: "quantize 0xFFFFFFFF one32 = 0"
  by code_simp

section \<open>Examples\<close>

definition sample_source :: value_source where
  "sample_source = \<lparr>src_Float = (\<lambda>_. (half32, True)), src_Bool = (\<lambda>_. (True, True))\<rparr>"

definition sample_sender :: "osc_catalog \<Rightarrow> sender" where
  "sample_sender cat = SetCatalog (Some cat) (newParameterSender True zero32 0 True)"

lemma sample_catalog: "\<exists>cat. BuildCatalogFromEndpoints 0 sample_endpoints (Some shipped_catalog) 1 = Inr cat"
proof -
  have "is_ok (BuildCatalogFromEndpoints 0 sample_endpoints (Some shipped_catalog) 1)" by code_simp
  then show ?thesis by (auto simp: is_ok_iff)
qed

lemma sample_ready: "ready cat (sample_sender cat)" "length (snd_last (sample_sender cat)) = length (Outputs cat)"
  "snd_log (sample_sender cat) = []" "MaxDatagram (sample_sender cat) = 1200"
  by (simp_all add: sample_sender_def SetCatalog_def newParameterSender_def ready_def newBundleBuilder_def builder_reset_def Let_def)

theorem Send_delivers_witness:
  "\<exists>cat n. BuildCatalogFromEndpoints 0 sample_endpoints (Some shipped_catalog) 1 = Inr cat \<and>
    delivered (snd_log (fst (Send (\<lambda>_ _. True) (Some sample_source) (sample_sender cat)))) =
      map (item_message \<circ> snd) (take n (due_outputs cat sample_source (sample_sender cat)))"
proof -
  obtain cat where cat: "BuildCatalogFromEndpoints 0 sample_endpoints (Some shipped_catalog) 1 = Inr cat" using sample_catalog by blast
  from Send_delivers [OF this sample_ready(1), where tx = "\<lambda>_ _. True" and src = sample_source] cat show ?thesis unfolding sample_ready(3) by auto
qed

lemma sample_log:
  "snd_log (fst (Send (\<lambda>_ _. True) (Some sample_source)
    (sample_sender (projr (BuildCatalogFromEndpoints 0 sample_endpoints (Some shipped_catalog) 1))))) \<noteq> []"
  by code_simp

theorem Send_datagram_size_witness:
  "\<exists>cat p ok. BuildCatalogFromEndpoints 0 sample_endpoints (Some shipped_catalog) 1 = Inr cat \<and>
    (p, ok) \<in> set (snd_log (fst (Send (\<lambda>_ _. True) (Some sample_source) (sample_sender cat)))) \<and>
    (int (length p) \<le> 1200 \<or> (\<exists>m. MarshalMessage m = Inr p))"
proof -
  obtain cat where cat: "BuildCatalogFromEndpoints 0 sample_endpoints (Some shipped_catalog) 1 = Inr cat" using sample_catalog by blast
  then obtain p ok where p: "(p, ok) \<in> set (snd_log (fst (Send (\<lambda>_ _. True) (Some sample_source) (sample_sender cat))))"
    using sample_log by (fastforce simp: neq_Nil_conv)
  from Send_datagram_size [OF cat sample_ready(1), where tx = "\<lambda>_ _. True" and src = sample_source and p = p and ok = ok] p cat
  show ?thesis by (intro exI [of _ cat] exI [of _ p] exI [of _ ok]) (simp add: sample_ready)
qed

lemma sample_send:
  "snd (Send (\<lambda>_ _. True) (Some sample_source)
    (sample_sender (projr (BuildCatalogFromEndpoints 0 sample_endpoints (Some shipped_catalog) 1)))) = None"
  by code_simp

theorem Send_again_silent_witness:
  "\<exists>cat. BuildCatalogFromEndpoints 0 sample_endpoints (Some shipped_catalog) 1 = Inr cat \<and>
    (let (s', r) = Send (\<lambda>_ _. True) (Some sample_source) (sample_sender cat) in
      r = None \<and> snd_log (fst (Send (\<lambda>_ _. True) (Some sample_source) s')) = snd_log s')"
proof -
  obtain cat where cat: "BuildCatalogFromEndpoints 0 sample_endpoints (Some shipped_catalog) 1 = Inr cat" using sample_catalog by blast
  have eps: "le32 zero32 (FloatEpsilon (sample_sender cat))"
  proof -
    have "le32 zero32 (Float32frombits 0x3A83126F)" "le32 zero32 zero32" by code_simp+
    then show ?thesis by (simp add: sample_sender_def SetCatalog_def newParameterSender_def Let_def)
  qed
  obtain s' r where s': "Send (\<lambda>_ _. True) (Some sample_source) (sample_sender cat) = (s', r)" by fastforce
  then have r: "r = None" using sample_send cat by simp
  from Send_again_silent [OF cat sample_ready(1,2) eps s' [unfolded r], of "\<lambda>_ _. True"] cat s' r show ?thesis by auto
qed

theorem binary_outputs_spell_witness:
  "(\<Sum>i<1. if evaluateOutput \<lparr>ob_Parameter = 0, ob_Address = ''/a'', ob_Operation = outputBinaryBit, WireKind = scalarFalse, ob_Weight = 2 ^ i,
      QuantizeMax = mask 1, ob_Range = unit_range, ob_HasRange = True, CacheIndex = 0\<rparr> sample_source = Inr (Some (boolScalar True)) then 2 ^ i else 0) =
    uint (quantize (mask 1) (binaryMagnitude unit_range True (clamp32 half32 zero32 one32)))"
proof -
  have "finite32 half32" by code_simp
  then show ?thesis
    using binary_outputs_spell [of sample_source 0 half32 1 "\<lambda>i. \<lparr>ob_Parameter = 0, ob_Address = ''/a'', ob_Operation = outputBinaryBit, WireKind = scalarFalse,
      ob_Weight = 2 ^ i, QuantizeMax = mask 1, ob_Range = unit_range, ob_HasRange = True, CacheIndex = 0\<rparr>" unit_range True]
    by (simp add: sample_source_def unit_range_def)
qed

end
