(* ===== verification/Protocol.thy ===== *)
theory Protocol
  imports PluginApi
begin

text \<open>
  pkg/protocol/message.go: the thirteen payloads of the host-plugin protocol, their types and
  validation and NewMessage. encoding/json is a parameter: \<open>encode\<close> gives the JSON of a payload, or nothing
  where json.Marshal fails.
\<close>

section \<open>Messages\<close>

definition ProtocolVersion :: u16 where "ProtocolVersion = 1"

definition MaxPayloadSize :: int where "MaxPayloadSize = 1024 * 1024"

definition MaxMessageSize :: int where "MaxMessageSize = MaxPayloadSize + 256"

type_synonym message_type = u16

definition MessageHello :: message_type where "MessageHello = 1"
definition MessageInitialize :: message_type where "MessageInitialize = 2"
definition MessageReady :: message_type where "MessageReady = 3"
definition MessageHeartbeat :: message_type where "MessageHeartbeat = 4"
definition MessageTrackingFrame :: message_type where "MessageTrackingFrame = 5"
definition MessageStatus :: message_type where "MessageStatus = 6"
definition MessageLog :: message_type where "MessageLog = 7"
definition MessageConfigChanged :: message_type where "MessageConfigChanged = 8"
definition MessageSubscriptionChanged :: message_type where "MessageSubscriptionChanged = 9"
definition MessageActiveChanged :: message_type where "MessageActiveChanged = 10"
definition MessageShutdown :: message_type where "MessageShutdown = 11"
definition MessageShutdownAck :: message_type where "MessageShutdownAck = 12"
definition MessageError :: message_type where "MessageError = 13"

lemmas message_types = MessageHello_def MessageInitialize_def MessageReady_def MessageHeartbeat_def
  MessageTrackingFrame_def MessageStatus_def MessageLog_def MessageConfigChanged_def
  MessageSubscriptionChanged_def MessageActiveChanged_def MessageShutdown_def MessageShutdownAck_def MessageError_def

datatype payload =
    Hello string descriptor u16 u16 \<comment> \<open>token, descriptor, least and greatest version\<close>
  | Initialize plugin_startup
  | Ready
  | Heartbeat u64
  | TrackingFrame u64 tracking_frame
  | Status device_status
  | Log string string u64 \<comment> \<open>level, message, dropped\<close>
  | ConfigChanged plugin_config
  | SubscriptionChanged subscription
  | ActiveChanged bool
  | Shutdown
  | ShutdownAck
  | PeerError string string \<comment> \<open>Error: code, message\<close>
  | OtherPayload \<comment> \<open>a value of any other type\<close>

record message =
  msg_Version :: u16
  msg_Type :: message_type
  msg_Payload :: payload

datatype message_error =
    BadVersion | UnknownType | UnsupportedPayload | TypeMismatch | BlankToken | BadDescriptor descriptor_error
  | BadRange | BadConfig config_error | BadSubscription subscription_error | ZeroGeneration
  | BadFrame frame_error | BadStatus status_error | BadLevel | BlankMessage | ZeroRevision | BlankCode
  | EncodeFailed | PayloadTooLarge int

definition message_type_valid :: "message_type \<Rightarrow> bool" where
  "message_type_valid t \<longleftrightarrow> MessageHello \<le> t \<and> t \<le> MessageError"

fun messageTypeForPayload :: "payload \<Rightarrow> (message_error, message_type) result" where
  "messageTypeForPayload (Hello _ _ _ _) = Inr MessageHello"
| "messageTypeForPayload (Initialize _) = Inr MessageInitialize"
| "messageTypeForPayload Ready = Inr MessageReady"
| "messageTypeForPayload (Heartbeat _) = Inr MessageHeartbeat"
| "messageTypeForPayload (TrackingFrame _ _) = Inr MessageTrackingFrame"
| "messageTypeForPayload (Status _) = Inr MessageStatus"
| "messageTypeForPayload (Log _ _ _) = Inr MessageLog"
| "messageTypeForPayload (ConfigChanged _) = Inr MessageConfigChanged"
| "messageTypeForPayload (SubscriptionChanged _) = Inr MessageSubscriptionChanged"
| "messageTypeForPayload (ActiveChanged _) = Inr MessageActiveChanged"
| "messageTypeForPayload Shutdown = Inr MessageShutdown"
| "messageTypeForPayload ShutdownAck = Inr MessageShutdownAck"
| "messageTypeForPayload (PeerError _ _) = Inr MessageError"
| "messageTypeForPayload OtherPayload = Inl UnsupportedPayload"

definition wrap_error :: "('e \<Rightarrow> message_error) \<Rightarrow> ('e, 'a) result \<Rightarrow> (message_error, unit) result" where
  \<comment> \<open>if err != nil, it is wrapped\<close>
  "wrap_error f r = (case r of Inl e \<Rightarrow> Inl (f e) | Inr _ \<Rightarrow> Inr ())"

fun validatePayload :: "payload \<Rightarrow> (message_error, unit) result" where
  "validatePayload (Hello token d lo hi) =
     guard_result (blank token) BlankToken
    (bind_result (wrap_error BadDescriptor (descriptor_validate d)) (\<lambda>_.
     guard_result (lo \<noteq> ProtocolVersion \<or> hi \<noteq> ProtocolVersion) BadRange (Inr ())))"
| "validatePayload (Initialize s) =
     bind_result (wrap_error BadConfig (config_validate (startup_Config s))) (\<lambda>_.
     wrap_error BadSubscription (sub_validate (startup_Subscription s) (startup_Active s)))"
| "validatePayload Ready = Inr ()"
| "validatePayload (Heartbeat _) = Inr ()"
| "validatePayload (ActiveChanged _) = Inr ()"
| "validatePayload Shutdown = Inr ()"
| "validatePayload ShutdownAck = Inr ()"
| "validatePayload (TrackingFrame gen f) =
     guard_result (gen = 0) ZeroGeneration (wrap_error BadFrame (frame_validate f))"
| "validatePayload (Status s) = wrap_error BadStatus (status_validate s)"
| "validatePayload (Log level text _) =
     guard_result (\<not> log_level_valid level) BadLevel (guard_result (blank text) BlankMessage (Inr ()))"
| "validatePayload (ConfigChanged c) =
     bind_result (wrap_error BadConfig (config_validate c)) (\<lambda>_. guard_result (Revision c = 0) ZeroRevision (Inr ()))"
| "validatePayload (SubscriptionChanged s) = wrap_error BadSubscription (sub_validate s True)"
| "validatePayload (PeerError code text) =
     guard_result (blank code) BlankCode (guard_result (blank text) BlankMessage (Inr ()))"
| "validatePayload OtherPayload = Inl UnsupportedPayload"

definition validateSemantics :: "message \<Rightarrow> (message_error, unit) result" where
  "validateSemantics m =
     guard_result (msg_Version m \<noteq> ProtocolVersion) BadVersion
    (guard_result (\<not> message_type_valid (msg_Type m)) UnknownType
    (bind_result (messageTypeForPayload (msg_Payload m)) (\<lambda>t.
     guard_result (t \<noteq> msg_Type m) TypeMismatch (validatePayload (msg_Payload m)))))"

definition validatedPayload :: "(payload \<Rightarrow> bytes option) \<Rightarrow> message \<Rightarrow> (message_error, bytes) result" where
  "validatedPayload encode m = bind_result (validateSemantics m) (\<lambda>_.
     case encode (msg_Payload m) of
       None \<Rightarrow> Inl EncodeFailed
     | Some p \<Rightarrow> guard_result (MaxPayloadSize < int (length p)) (PayloadTooLarge (int (length p))) (Inr p))"

definition message_validate :: "(payload \<Rightarrow> bytes option) \<Rightarrow> message \<Rightarrow> (message_error, unit) result" where
  "message_validate encode m = bind_result (validatedPayload encode m) (\<lambda>_. Inr ())"

definition NewMessage :: "(payload \<Rightarrow> bytes option) \<Rightarrow> payload \<Rightarrow> (message_error, message) result" where
  "NewMessage encode p = bind_result (messageTypeForPayload p) (\<lambda>t.
     let m = \<lparr>msg_Version = ProtocolVersion, msg_Type = t, msg_Payload = p\<rparr> in
     bind_result (message_validate encode m) (\<lambda>_. Inr m))"

section \<open>Which messages can be built\<close>

lemma wrap_error_ok [simp]: "wrap_error f r = Inr u \<longleftrightarrow> is_ok r"
  by (cases r) (simp_all add: wrap_error_def)

lemma type_valid: "messageTypeForPayload p = Inr t \<Longrightarrow> message_type_valid t"
  by (cases p) (auto simp: message_type_valid_def message_types)

lemma NewMessage_ok:
  "NewMessage encode p = Inr m \<longleftrightarrow> messageTypeForPayload p = Inr (msg_Type m) \<and> msg_Version m = ProtocolVersion \<and> msg_Payload m = p \<and>
     validatePayload p = Inr () \<and> (\<exists>raw. encode p = Some raw \<and> int (length raw) \<le> MaxPayloadSize)"
  using type_valid [of p]
  by (cases m) (auto simp: NewMessage_def message_validate_def validatedPayload_def validateSemantics_def Let_def result_iffs
      not_less split: option.splits)

end
