(* ===== verification/Control.thy ===== *)
theory Control
  imports Protocol "HOL-Library.Multiset"
begin

text \<open>
  internal/plugins/control.go: the control state of a plugin session with its revision and
  generation gates, applyControl, and the session writer, the goroutine that owns the state and
  sends the changes to the plugin. The writer is a step relation over the callers of Control and
  the goroutine: a caller is one atomic step under the mutex, the goroutine receives, sends, stops
  and drains in separate steps, between which callers may come in.
\<close>

section \<open>The control state\<close>

datatype plugin_error =
    ErrInvalidManifest | ErrDuplicatePluginID | ErrInvalidEntrypoint | ErrUnknownPlugin | ErrManagerNotStarted | ErrManagerClosed
  | ErrInvalidState | ErrControlBackpressure | ErrConfigRevisionRegression | ErrConfigRevisionConflict
  | ErrSubscriptionGenerationRegression | ErrSubscriptionGenerationConflict | ErrHandshakeTimeout | ErrAuthenticationFailed
  | ErrDescriptorMismatch | ErrProtocolIncompatible | ErrProtocolViolation | ErrHeartbeatTimeout | ErrGracefulShutdownTimeout
  | ErrKillTimeout | ErrRestartLimitReached
  | InvalidConfig config_error | InvalidSubscription subscription_error | CreateMessage message_error | SendFailed string | ContextDone

record control_state =
  cs_Active :: bool
  cs_Config :: plugin_config
  cs_Subscription :: subscription

definition applyConfig :: "plugin_config \<Rightarrow> control_state \<Rightarrow> control_state \<times> (plugin_error, bool) result" where
  "applyConfig new s = (case config_validate new of
     Inl e \<Rightarrow> (s, Inl (InvalidConfig e))
   | Inr _ \<Rightarrow>
       if Revision new < Revision (cs_Config s) then (s, Inl ErrConfigRevisionRegression)
       else if Revision new = Revision (cs_Config s) then
         (s, if Data new = Data (cs_Config s) then Inr False else Inl ErrConfigRevisionConflict)
       else (s\<lparr>cs_Config := config_clone new\<rparr>, Inr True))"

definition applySubscription :: "subscription \<Rightarrow> control_state \<Rightarrow> control_state \<times> (plugin_error, bool) result" where
  "applySubscription new s = (case sub_validate new (cs_Active s) of
     Inl e \<Rightarrow> (s, Inl (InvalidSubscription e))
   | Inr _ \<Rightarrow>
       if sub_Generation new < sub_Generation (cs_Subscription s) then (s, Inl ErrSubscriptionGenerationRegression)
       else if sub_Generation new = sub_Generation (cs_Subscription s) then
         (s, if new = cs_Subscription s then Inr False else Inl ErrSubscriptionGenerationConflict)
       else (s\<lparr>cs_Subscription := new\<rparr>, Inr True))"

definition applyActive :: "bool \<Rightarrow> control_state \<Rightarrow> control_state \<times> bool" where
  "applyActive new s = (if cs_Active s = new then (s, False) else (s\<lparr>cs_Active := new\<rparr>, True))"

type_synonym control_kind = u8

definition controlConfig :: control_kind where "controlConfig = 1"
definition controlSubscription :: control_kind where "controlSubscription = 2"
definition controlActive :: control_kind where "controlActive = 3"
definition controlShutdown :: control_kind where "controlShutdown = 4"

lemmas control_kinds = controlConfig_def controlSubscription_def controlActive_def controlShutdown_def

record control_request =
  cr_kind :: control_kind
  cr_state :: control_state
  forceActive :: bool

definition applyControl :: "(payload \<Rightarrow> bytes option) \<Rightarrow> control_request \<Rightarrow> control_state \<Rightarrow>
    control_state \<times> (plugin_error, message option \<times> bool) result" where
  \<comment> \<open>the message to send, none if nothing changed, and whether it is the shutdown\<close>
  "applyControl encode r s =
    (let build = (\<lambda>s p shutdown. (s, case NewMessage encode p of
           Inl e \<Rightarrow> Inl (CreateMessage e) | Inr m \<Rightarrow> Inr (Some m, shutdown)))
     in if cr_kind r = controlConfig then
          (case applyConfig (cs_Config (cr_state r)) s of (s, res) \<Rightarrow> (case res of
             Inl e \<Rightarrow> (s, Inl e)
           | Inr changed \<Rightarrow> if \<not> changed then (s, Inr (None, False)) else build s (ConfigChanged (config_clone (cs_Config s))) False))
        else if cr_kind r = controlSubscription then
          (case applySubscription (cs_Subscription (cr_state r)) s of (s, res) \<Rightarrow> (case res of
             Inl e \<Rightarrow> (s, Inl e)
           | Inr changed \<Rightarrow> if \<not> changed then (s, Inr (None, False)) else build s (SubscriptionChanged (cs_Subscription s)) False))
        else if cr_kind r = controlActive then
          (case applyActive (cs_Active (cr_state r)) s of (s, changed) \<Rightarrow>
             if \<not> (changed \<or> forceActive r) then (s, Inr (None, False)) else build s (ActiveChanged (cs_Active s)) False)
        else if cr_kind r = controlShutdown then build s Shutdown True
        else (s, Inl ErrInvalidState))"

section \<open>The session writer\<close>

text \<open>
  A request carries the number of its call, which stands for its reply channel. The replies are
  logged; the goroutine is waiting for a request, sending a message, about to stop, draining the
  queue, or done.
\<close>

type_synonym call = "nat \<times> control_request"

datatype writer_pc = Waiting | Sending nat message bool | Stopping | Draining | Done

record writer =
  w_capacity :: nat
  w_requests :: "call list"
  w_accepting :: bool
  terminalErr :: "plugin_error option"
  w_state :: control_state
  w_pc :: writer_pc
  w_sent :: "message list"
  w_replies :: "(nat \<times> plugin_error option) list"

definition newSessionWriter :: "control_state \<Rightarrow> int \<Rightarrow> writer" where
  "newSessionWriter initial capacity = \<lparr>w_capacity = nat (if capacity < 1 then 1 else capacity), w_requests = [], w_accepting = True,
     terminalErr = None, w_state = initial\<lparr>cs_Config := config_clone (cs_Config initial)\<rparr>, w_pc = Waiting,
     w_sent = [], w_replies = []\<rparr>"

definition reply :: "nat \<Rightarrow> plugin_error option \<Rightarrow> writer \<Rightarrow> writer" where
  "reply i e w = w\<lparr>w_replies := w_replies w @ [(i, e)]\<rparr>"

definition writer_Control :: "bool \<Rightarrow> nat \<Rightarrow> control_request \<Rightarrow> writer \<Rightarrow> writer" where
  \<comment> \<open>up to the wait for the reply; the first argument tells whether the context is done\<close>
  "writer_Control cancelled i r w =
    (if cancelled then reply i (Some ContextDone) w
     else if \<not> w_accepting w then reply i (Some ErrInvalidState) w
     else let r = (if cr_kind r = controlConfig
           then r\<lparr>cr_state := (cr_state r)\<lparr>cs_Config := config_clone (cs_Config (cr_state r))\<rparr>\<rparr> else r) in
       if length (w_requests w) < w_capacity w then
         w\<lparr>w_requests := w_requests w @ [(i, r)], w_accepting := w_accepting w \<and> cr_kind r \<noteq> controlShutdown\<rparr>
       else reply i (Some ErrControlBackpressure) w)"

definition writer_receive :: "(payload \<Rightarrow> bytes option) \<Rightarrow> writer \<Rightarrow> writer" where
  \<comment> \<open>an iteration of run up to the send\<close>
  "writer_receive encode w = (case w_requests w of
     [] \<Rightarrow> w
   | (i, r) # rest \<Rightarrow> (case applyControl encode r (w_state w) of (s, res) \<Rightarrow>
       let w = w\<lparr>w_requests := rest, w_state := s\<rparr> in
       (case res of
          Inl e \<Rightarrow> reply i (Some e) w
        | Inr (None, shutdown) \<Rightarrow> reply i None w
        | Inr (Some m, shutdown) \<Rightarrow> w\<lparr>w_pc := Sending i m shutdown\<rparr>)))"

definition writer_sent :: "plugin_error option \<Rightarrow> writer \<Rightarrow> writer" where
  \<comment> \<open>the rest of the iteration, after the connection took the message or failed\<close>
  "writer_sent failure w = (case w_pc w of
     Sending i m shutdown \<Rightarrow> (case failure of
         Some e \<Rightarrow> (reply i (Some e) (w\<lparr>terminalErr := Some e\<rparr>))\<lparr>w_pc := Stopping\<rparr>
       | None \<Rightarrow> (reply i None (w\<lparr>w_sent := w_sent w @ [m]\<rparr>))\<lparr>w_pc := if shutdown then Stopping else Waiting\<rparr>)
   | _ \<Rightarrow> w)"

definition writer_stop :: "writer \<Rightarrow> writer" where
  "writer_stop w = w\<lparr>w_accepting := False, w_pc := Draining\<rparr>"

definition writer_drain :: "writer \<Rightarrow> writer" where
  \<comment> \<open>an iteration of stopAndRejectQueued's loop\<close>
  "writer_drain w = (case w_requests w of
     [] \<Rightarrow> w\<lparr>w_pc := Done\<rparr>
   | (i, r) # rest \<Rightarrow> reply i (Some ErrInvalidState) (w\<lparr>w_requests := rest\<rparr>))"

text \<open>One step, and the calls so far: each call has a number of its own.\<close>

inductive own_step :: "(payload \<Rightarrow> bytes option) \<Rightarrow> writer \<Rightarrow> writer \<Rightarrow> bool" for encode where
  receive: "w_pc w = Waiting \<Longrightarrow> w_requests w \<noteq> [] \<Longrightarrow> own_step encode w (writer_receive encode w)"
| sent: "w_pc w = Sending i m shutdown \<Longrightarrow> own_step encode w (writer_sent failure w)"
| stop: "w_pc w = Stopping \<Longrightarrow> own_step encode w (writer_stop w)"
| drain: "w_pc w = Draining \<Longrightarrow> own_step encode w (writer_drain w)"

inductive writer_step :: "(payload \<Rightarrow> bytes option) \<Rightarrow> nat set \<times> writer \<Rightarrow> nat set \<times> writer \<Rightarrow> bool" for encode where
  call: "i \<notin> calls \<Longrightarrow> writer_step encode (calls, w) (insert i calls, writer_Control cancelled i r w)"
| own: "own_step encode w w' \<Longrightarrow> writer_step encode (calls, w) (calls, w')"

inductive_cases own_stepE: "own_step encode w w'"
inductive_cases writer_stepE: "writer_step encode x y"

inductive writer_reachable :: "(payload \<Rightarrow> bytes option) \<Rightarrow> control_state \<Rightarrow> int \<Rightarrow> nat set \<times> writer \<Rightarrow> bool" for encode initial capacity where
  start: "writer_reachable encode initial capacity ({}, newSessionWriter initial capacity)"
| step: "writer_reachable encode initial capacity x \<Longrightarrow> writer_step encode x y \<Longrightarrow> writer_reachable encode initial capacity y"

section \<open>What the plugin is told\<close>

text \<open>The control state of a plugin that starts with a state and follows the messages.\<close>

fun told :: "message \<Rightarrow> control_state \<Rightarrow> control_state" where
  "told m s = (case msg_Payload m of
     ConfigChanged c \<Rightarrow> s\<lparr>cs_Config := c\<rparr>
   | SubscriptionChanged u \<Rightarrow> s\<lparr>cs_Subscription := u\<rparr>
   | ActiveChanged b \<Rightarrow> s\<lparr>cs_Active := b\<rparr>
   | _ \<Rightarrow> s)"

definition advance :: "control_state \<Rightarrow> message \<Rightarrow> bool" where
  \<comment> \<open>a message that moves the state forward\<close>
  "advance s m = (case msg_Payload m of
     ConfigChanged c \<Rightarrow> Revision (cs_Config s) < Revision c \<and> config_validate c = Inr ()
   | SubscriptionChanged u \<Rightarrow> sub_Generation (cs_Subscription s) < sub_Generation u \<and> sub_validate u True = Inr ()
   | ActiveChanged b \<Rightarrow> True
   | Shutdown \<Rightarrow> True
   | _ \<Rightarrow> False)"

fun advances_along :: "control_state \<Rightarrow> message list \<Rightarrow> bool" where
  "advances_along s [] \<longleftrightarrow> True"
| "advances_along s (m # ms) \<longleftrightarrow> advance s m \<and> (msg_Payload m = Shutdown \<longrightarrow> ms = []) \<and> advances_along (told m s) ms"

definition encodable :: "(payload \<Rightarrow> bytes option) \<Rightarrow> payload \<Rightarrow> bool" where
  \<comment> \<open>a payload has an encoding within the limit\<close>
  "encodable encode p \<longleftrightarrow> (\<exists>raw. encode p = Some raw \<and> int (length raw) \<le> MaxPayloadSize)"

lemma advances_along_snoc:
  "advances_along s (ms @ [m]) \<longleftrightarrow> advances_along s ms \<and> advance (fold told ms s) m \<and> (\<forall>x \<in> set ms. msg_Payload x \<noteq> Shutdown)"
  by (induction ms arbitrary: s) auto

lemma applyControl_message:
  assumes "applyControl encode r s = (s', Inr (Some m, shutdown))"
  shows "told m s = s' \<and> advance s m \<and> shutdown = (msg_Payload m = Shutdown)"
  using assms
  by (auto simp: applyControl_def applyConfig_def applySubscription_def applyActive_def Let_def NewMessage_ok advance_def is_ok_iff
      split: if_splits sum.splits prod.splits option.splits)

lemma applyControl_silent: "applyControl encode r s = (s', Inr (None, shutdown)) \<Longrightarrow> s' = s"
  by (auto simp: applyControl_def applyConfig_def applySubscription_def applyActive_def Let_def split: if_splits sum.splits prod.splits)

lemma NewMessage_encodable:
  "encodable encode p \<Longrightarrow> validatePayload p = Inr () \<Longrightarrow> messageTypeForPayload p = Inr t \<Longrightarrow>
   NewMessage encode p = Inr \<lparr>msg_Version = ProtocolVersion, msg_Type = t, msg_Payload = p\<rparr>"
  by (simp add: NewMessage_ok encodable_def)

text \<open>What the plugin holds of the writer's state: every part of it whose message can be made.\<close>

definition agrees :: "(payload \<Rightarrow> bytes option) \<Rightarrow> control_state \<Rightarrow> control_state \<Rightarrow> bool" where
  "agrees encode s p \<longleftrightarrow>
     (cs_Config p = cs_Config s \<or> \<not> is_ok (NewMessage encode (ConfigChanged (cs_Config s)))) \<and>
     (cs_Subscription p = cs_Subscription s \<or> \<not> is_ok (NewMessage encode (SubscriptionChanged (cs_Subscription s)))) \<and>
     (cs_Active p = cs_Active s \<or> \<not> is_ok (NewMessage encode (ActiveChanged (cs_Active s))))"

definition behind :: "control_state \<Rightarrow> control_state \<Rightarrow> bool" where
  "behind p s \<longleftrightarrow> Revision (cs_Config p) \<le> Revision (cs_Config s) \<and> sub_Generation (cs_Subscription p) \<le> sub_Generation (cs_Subscription s)"

lemma agrees_refl [simp]: "agrees encode s s" "behind s s"
  by (simp_all add: agrees_def behind_def)

definition built :: "(payload \<Rightarrow> bytes option) \<Rightarrow> payload \<Rightarrow> bool \<Rightarrow> (plugin_error, message option \<times> bool) result" where
  "built encode p shutdown = (case NewMessage encode p of Inl e \<Rightarrow> Inl (CreateMessage e) | Inr m \<Rightarrow> Inr (Some m, shutdown))"

definition no_message :: "(plugin_error, message option \<times> bool) result \<Rightarrow> bool" where
  "no_message res \<longleftrightarrow> (case res of Inr (Some m, shutdown) \<Rightarrow> False | _ \<Rightarrow> True)"

lemma applyConfig_cases:
  assumes "applyConfig new s = (s', r)"
  shows "s' = s \<and> r \<noteq> Inr True \<or> s' = s\<lparr>cs_Config := new\<rparr> \<and> r = Inr True \<and> Revision (cs_Config s) < Revision new \<and> config_validate new = Inr ()"
  using assms by (auto simp: applyConfig_def split: sum.splits if_splits)

lemma applySubscription_cases:
  assumes "applySubscription new s = (s', r)"
  shows "s' = s \<and> r \<noteq> Inr True \<or> s' = s\<lparr>cs_Subscription := new\<rparr> \<and> r = Inr True \<and> sub_Generation (cs_Subscription s) < sub_Generation new"
  using assms by (auto simp: applySubscription_def split: sum.splits if_splits)

lemma applyControl_cases:
  assumes "applyControl encode r s = (s', res)"
  obtains "s' = s" "no_message res"
  | c where "s' = s\<lparr>cs_Config := c\<rparr>" "Revision (cs_Config s) < Revision c" "res = built encode (ConfigChanged c) False"
  | u where "s' = s\<lparr>cs_Subscription := u\<rparr>" "sub_Generation (cs_Subscription s) < sub_Generation u" "res = built encode (SubscriptionChanged u) False"
  | b where "s' = s\<lparr>cs_Active := b\<rparr>" "res = built encode (ActiveChanged b) False"
  | "s' = s" "res = built encode Shutdown True"
proof -
  obtain sc rc ss rs where ac: "applyConfig (cs_Config (cr_state r)) s = (sc, rc)" and as: "applySubscription (cs_Subscription (cr_state r)) s = (ss, rs)"
    by fastforce
  consider "cr_kind r = controlConfig" | "cr_kind r = controlSubscription" | "cr_kind r = controlActive" | "cr_kind r = controlShutdown"
    | "cr_kind r \<notin> {controlConfig, controlSubscription, controlActive, controlShutdown}" by blast
  then show thesis
  proof cases
    case 1
    then show thesis using assms ac applyConfig_cases [OF ac] that(1,2)
      by (auto simp: applyControl_def Let_def built_def no_message_def split: sum.splits if_splits)
  next
    case 2
    then show thesis using assms as applySubscription_cases [OF as] that(1,3)
      by (auto simp: applyControl_def Let_def built_def no_message_def control_kinds split: sum.splits if_splits)
  next
    case 3
    then have "s' = s \<and> no_message res \<or> s' = s\<lparr>cs_Active := cs_Active (cr_state r)\<rparr> \<and> res = built encode (ActiveChanged (cs_Active (cr_state r))) False"
      using assms by (auto simp: applyControl_def applyActive_def Let_def built_def no_message_def control_kinds split: if_splits)
    then show thesis using that(1,4) by blast
  next
    case 4
    then show thesis using assms that(5) by (simp add: applyControl_def Let_def built_def control_kinds)
  next
    case 5
    then show thesis using assms that(1) by (auto simp: applyControl_def no_message_def)
  qed
qed

lemma built_cases:
  "built encode p shutdown = Inr (Some m, b) \<longleftrightarrow> NewMessage encode p = Inr m \<and> b = shutdown"
  "Inr (Some m, b) = built encode p shutdown \<longleftrightarrow> NewMessage encode p = Inr m \<and> b = shutdown"
  "no_message (built encode p shutdown) \<longleftrightarrow> \<not> is_ok (NewMessage encode p)"
  by (auto simp: built_def no_message_def split: sum.splits)

lemma applyControl_keeps:
  assumes "applyControl encode r s = (s', res)" and "agrees encode s p" and "behind p s"
  shows "(no_message res \<longrightarrow> agrees encode s' p \<and> behind p s') \<and>
    (\<forall>m shutdown. res = Inr (Some m, shutdown) \<longrightarrow> agrees encode s' (told m p) \<and> behind (told m p) s' \<and> advance p m \<and> shutdown = (msg_Payload m = Shutdown))"
  using assms(1)
proof (cases rule: applyControl_cases)
  case 1
  then show ?thesis using assms(2,3) by (auto simp: no_message_def)
next
  case (2 c)
  then show ?thesis using assms(2,3) by (auto simp: built_cases agrees_def behind_def NewMessage_ok advance_def is_ok_iff wrap_error_def split: sum.splits)
next
  case (3 u)
  then show ?thesis using assms(2,3) by (auto simp: built_cases agrees_def behind_def NewMessage_ok advance_def is_ok_iff wrap_error_def split: sum.splits)
next
  case (4 b)
  then show ?thesis using assms(2,3) by (auto simp: built_cases agrees_def behind_def NewMessage_ok advance_def)
next
  case 5
  then show ?thesis using assms(2,3) by (auto simp: built_cases agrees_def behind_def NewMessage_ok advance_def)
qed

text \<open>The invariant of the writer.\<close>

definition in_flight :: "writer \<Rightarrow> (nat \<times> message) list" where
  "in_flight w = (case w_pc w of Sending i m shutdown \<Rightarrow> [(i, m)] | _ \<Rightarrow> [])"

definition call_order :: "writer \<Rightarrow> nat list" where
  \<comment> \<open>the calls: answered, being answered, waiting\<close>
  "call_order w = map fst (w_replies w) @ map fst (in_flight w) @ map fst (w_requests w)"

definition shutdown_waits :: "writer \<Rightarrow> bool" where
  "shutdown_waits w \<longleftrightarrow> (\<exists>c \<in> set (w_requests w). cr_kind (snd c) = controlShutdown)"

definition writer_ok :: "nat set \<times> writer \<Rightarrow> bool" where
  "writer_ok = (\<lambda>(calls, w). distinct (call_order w) \<and> set (call_order w) = calls \<and> length (w_requests w) \<le> w_capacity w \<and>
     (case w_pc w of
        Waiting \<Rightarrow> \<not> w_accepting w \<longrightarrow> shutdown_waits w
      | Sending i m shutdown \<Rightarrow> shutdown = (msg_Payload m = Shutdown) \<and> (\<not> w_accepting w \<longrightarrow> shutdown_waits w \<or> shutdown)
      | Stopping \<Rightarrow> True
      | Draining \<Rightarrow> \<not> w_accepting w
      | Done \<Rightarrow> \<not> w_accepting w \<and> w_requests w = []))"

definition mirrored :: "(payload \<Rightarrow> bytes option) \<Rightarrow> control_state \<Rightarrow> writer \<Rightarrow> bool" where
  "mirrored encode initial w \<longleftrightarrow>
     (\<exists>lost. advances_along initial (w_sent w @ map snd (in_flight w) @ lost) \<and>
       agrees encode (w_state w) (fold told (w_sent w @ map snd (in_flight w) @ lost) initial) \<and>
       behind (fold told (w_sent w @ map snd (in_flight w) @ lost) initial) (w_state w) \<and>
       length lost = (if terminalErr w = None then 0 else 1) \<and>
       (\<forall>i m shutdown. w_pc w = Sending i m shutdown \<longrightarrow> shutdown = (msg_Payload m = Shutdown)) \<and>
       (terminalErr w \<noteq> None \<or> (\<exists>m \<in> set (w_sent w). msg_Payload m = Shutdown) \<longrightarrow> w_pc w \<in> {Stopping, Draining, Done}))"

lemma reply_fields [simp]:
  "w_requests (reply i e w) = w_requests w" "w_accepting (reply i e w) = w_accepting w" "w_state (reply i e w) = w_state w"
  "w_pc (reply i e w) = w_pc w" "w_sent (reply i e w) = w_sent w" "terminalErr (reply i e w) = terminalErr w"
  "w_replies (reply i e w) = w_replies w @ [(i, e)]" "w_capacity (reply i e w) = w_capacity w"
  by (simp_all add: reply_def)

lemma in_flight_reply [simp]: "in_flight (reply i e w) = in_flight w"
  by (simp add: in_flight_def)

lemma Control_fields [simp]:
  "w_state (writer_Control b i r w) = w_state w" "w_pc (writer_Control b i r w) = w_pc w" "w_sent (writer_Control b i r w) = w_sent w"
  "terminalErr (writer_Control b i r w) = terminalErr w" "w_capacity (writer_Control b i r w) = w_capacity w"
  by (simp_all add: writer_Control_def Let_def)

lemma in_flight_Control [simp]: "in_flight (writer_Control b i r w) = in_flight w"
  by (simp add: in_flight_def)

lemma Control_order:
  "mset (call_order (writer_Control b i r w)) = add_mset i (mset (call_order w))"
  "length (w_requests w) \<le> w_capacity w \<Longrightarrow> length (w_requests (writer_Control b i r w)) \<le> w_capacity w"
  "w_accepting (writer_Control b i r w) \<Longrightarrow> w_accepting w"
  "\<not> w_accepting w \<Longrightarrow> w_requests (writer_Control b i r w) = w_requests w"
  "shutdown_waits w \<Longrightarrow> shutdown_waits (writer_Control b i r w)"
  "\<not> w_accepting (writer_Control b i r w) \<Longrightarrow> w_accepting w \<Longrightarrow> shutdown_waits (writer_Control b i r w)"
  by (auto simp: writer_Control_def call_order_def shutdown_waits_def in_flight_def Let_def split: if_splits)

lemma call_ok:
  assumes "writer_ok (calls, w)" and "i \<notin> calls"
  shows "writer_ok (insert i calls, writer_Control b i r w)"
proof -
  have order: "distinct (call_order (writer_Control b i r w)) \<and> set (call_order (writer_Control b i r w)) = insert i (set (call_order w))"
    if "i \<notin> set (call_order w)" "distinct (call_order w)"
    using that Control_order(1) [of b i r w]
    by (metis distinct.simps(2) list.simps(15) mset.simps(2) mset_eq_imp_distinct_iff mset_eq_setD)
  then show ?thesis using assms Control_order [where b = b and i = i and r = r and w = w]
    by (auto simp: writer_ok_def split: writer_pc.splits)
qed

lemma receive_ok:
  assumes "writer_ok (calls, w)" and "w_pc w = Waiting" and "w_requests w \<noteq> []" and "encodable encode Shutdown"
  shows "writer_ok (calls, writer_receive encode w)"
proof -
  obtain i r rest where q: "w_requests w = (i, r) # rest" using assms(3) by (cases "w_requests w") auto
  obtain s res where r: "applyControl encode r (w_state w) = (s, res)" by fastforce
  show ?thesis
  proof (cases res)
    case (Inl e)
    have "cr_kind r \<noteq> controlShutdown"
    proof
      assume "cr_kind r = controlShutdown"
      then have "NewMessage encode Shutdown = Inl (projl (NewMessage encode Shutdown))"
        using r Inl by (auto simp: applyControl_def control_kinds Let_def split: sum.splits)
      then show False using NewMessage_encodable [OF assms(4)] by simp
    qed
    then show ?thesis using assms(1,2) q r Inl
      by (auto simp: writer_ok_def writer_receive_def call_order_def in_flight_def shutdown_waits_def)
  next
    case (Inr p)
    obtain m shutdown where p: "p = (m, shutdown)" by (cases p)
    show ?thesis
    proof (cases m)
      case None
      have "cr_kind r \<noteq> controlShutdown"
        using r Inr p None by (auto simp: applyControl_def control_kinds Let_def split: sum.splits)
      then show ?thesis using assms(1,2) q r Inr p None
        by (auto simp: writer_ok_def writer_receive_def call_order_def in_flight_def shutdown_waits_def)
    next
      case (Some msg)
      have "shutdown" if "cr_kind r = controlShutdown"
        using that r Inr p Some by (auto simp: applyControl_def control_kinds Let_def split: sum.splits)
      moreover have "shutdown = (msg_Payload msg = Shutdown)"
        using applyControl_message r Inr p Some by blast
      ultimately show ?thesis using assms(1,2) q r Inr p Some
        by (auto simp: writer_ok_def writer_receive_def call_order_def in_flight_def shutdown_waits_def)
    qed
  qed
qed

lemma own_step_ok:
  assumes "own_step encode w w'" and "writer_ok (calls, w)" and "encodable encode Shutdown"
  shows "writer_ok (calls, w')"
  using assms(1)
proof cases
  case (sent i m shutdown failure)
  then show ?thesis using assms(2)
    by (auto simp: writer_ok_def writer_sent_def call_order_def in_flight_def shutdown_waits_def split: option.splits)
next
  case drain
  then show ?thesis using assms(2)
    by (auto simp: writer_ok_def writer_drain_def call_order_def in_flight_def rev_image_eqI split: list.splits)
qed (use assms(2,3) receive_ok in \<open>auto simp: writer_ok_def writer_stop_def call_order_def in_flight_def\<close>)

lemma own_step_mirrored:
  assumes "own_step encode w w'" and "mirrored encode initial w"
  shows "mirrored encode initial w'"
  using assms(1)
proof cases
  case receive
  obtain i r rest where q: "w_requests w = (i, r) # rest" using receive(3) by (cases "w_requests w") auto
  obtain s res where r: "applyControl encode r (w_state w) = (s, res)" by fastforce
  let ?p = "fold told (w_sent w) initial"
  have m: "advances_along initial (w_sent w)" "agrees encode (w_state w) ?p" "behind ?p (w_state w)" "terminalErr w = None"
    "\<forall>m \<in> set (w_sent w). msg_Payload m \<noteq> Shutdown"
    using assms(2) receive(2) by (auto simp: mirrored_def in_flight_def split: if_splits)
  note k = applyControl_keeps [OF r m(2,3)]
  show ?thesis
  proof (cases "\<exists>msg shutdown. res = Inr (Some msg, shutdown)")
    case True
    then obtain msg shutdown where res: "res = Inr (Some msg, shutdown)" by blast
    then have "w' = w\<lparr>w_requests := rest, w_state := s, w_pc := Sending i msg shutdown\<rparr>"
      using receive(1) q r by (simp add: writer_receive_def)
    moreover have "agrees encode s (told msg ?p)" "behind (told msg ?p) s" "advance ?p msg" "shutdown = (msg_Payload msg = Shutdown)" using k res by simp_all
    ultimately show ?thesis using m by (simp add: mirrored_def in_flight_def advances_along_snoc)
  next
    case False
    then obtain e where w': "w' = reply i e (w\<lparr>w_requests := rest, w_state := s\<rparr>)"
      using receive(1) q r by (cases res) (auto simp: writer_receive_def Let_def split: option.splits)
    have "agrees encode s ?p" "behind ?p s" using k False by (auto simp: no_message_def split: sum.splits prod.splits option.splits)
    then show ?thesis using m receive(2) w' by (simp add: mirrored_def in_flight_def)
  qed
next
  case (sent i m shutdown failure)
  let ?p = "fold told (w_sent w @ [m]) initial"
  have m: "advances_along initial (w_sent w @ [m])" "agrees encode (w_state w) ?p" "behind ?p (w_state w)" "terminalErr w = None"
    "\<forall>m \<in> set (w_sent w). msg_Payload m \<noteq> Shutdown" "shutdown = (msg_Payload m = Shutdown)"
    using assms(2) sent(2) by (auto simp: mirrored_def in_flight_def split: if_splits)
  show ?thesis
  proof (cases failure)
    case None
    then show ?thesis using m sent by (auto simp: mirrored_def writer_sent_def in_flight_def)
  next
    case (Some e)
    then show ?thesis using m sent unfolding mirrored_def
      by (intro exI [of _ "[m]"]) (auto simp: writer_sent_def in_flight_def)
  qed
next
  case drain
  then show ?thesis using assms(2) by (auto simp: mirrored_def writer_drain_def in_flight_def split: list.splits)
qed (use assms(2) in \<open>auto simp: mirrored_def writer_stop_def in_flight_def\<close>)

lemma reachable_mirrored:
  assumes "writer_reachable encode initial capacity (calls, w)"
  shows "mirrored encode initial w"
  using assms
proof (induction "(calls, w)" arbitrary: calls w)
  case start
  then show ?case by (simp add: mirrored_def newSessionWriter_def in_flight_def)
next
  case (step x)
  obtain calls0 w0 where x: "x = (calls0, w0)" by fastforce
  show ?case using step.hyps(3) unfolding x
    by cases (use step.hyps(2) [OF x] own_step_mirrored in \<open>auto simp: mirrored_def\<close>)
qed

lemma reachable_ok:
  assumes "writer_reachable encode initial capacity (calls, w)" and "encodable encode Shutdown"
  shows "writer_ok (calls, w)"
  using assms(1)
proof (induction "(calls, w)" arbitrary: calls w)
  case start
  then show ?case by (simp add: writer_ok_def newSessionWriter_def call_order_def in_flight_def)
next
  case (step x)
  obtain calls0 w0 where x: "x = (calls0, w0)" by fastforce
  show ?case using step.hyps(3) unfolding x
  proof (cases rule: writer_step.cases)
    case (call i b r)
    then show ?thesis using step.hyps(2) [OF x] call_ok by blast
  next
    case own
    then show ?thesis using step.hyps(2) [OF x] own_step_ok assms(2) by blast
  qed
qed

section \<open>Every call is answered\<close>

definition own_steps_left :: "writer \<Rightarrow> nat" where
  "own_steps_left w = (case w_pc w of
     Waiting \<Rightarrow> 3 * length (w_requests w) + 4
   | Sending i m shutdown \<Rightarrow> 3 * length (w_requests w) + 5
   | Stopping \<Rightarrow> length (w_requests w) + 3
   | Draining \<Rightarrow> length (w_requests w) + 1
   | Done \<Rightarrow> 0)"

lemma own_step_shrinks: "own_step encode w w' \<Longrightarrow> own_steps_left w' < own_steps_left w"
  by (erule own_stepE) (auto simp: own_steps_left_def writer_receive_def writer_sent_def writer_stop_def writer_drain_def reply_def
      neq_Nil_conv Let_def split: prod.splits sum.splits option.splits list.splits)

lemma own_step_closed: "own_step encode w w' \<Longrightarrow> \<not> w_accepting w \<Longrightarrow> \<not> w_accepting w'"
  by (erule own_stepE) (auto simp: writer_receive_def writer_sent_def writer_stop_def writer_drain_def
      Let_def split: prod.splits sum.splits option.splits list.splits)

lemma own_step_enabled:
  assumes "writer_ok (calls, w)" and "\<not> w_accepting w" and "w_pc w \<noteq> Done"
  shows "\<exists>w'. own_step encode w w'"
proof (cases "w_pc w")
  case Waiting
  then have "w_requests w \<noteq> []" using assms(1,2) by (auto simp: writer_ok_def shutdown_waits_def)
  then show ?thesis using own_step.receive [OF Waiting] by blast
qed (use assms(3) in \<open>auto intro: own_step.intros\<close>)

lemma own_steps_end:
  assumes "(own_step encode ^^ n) w w'" and "writer_ok (calls, w)" and "\<not> w_accepting w" and "encodable encode Shutdown"
  shows "n + own_steps_left w' \<le> own_steps_left w \<and> writer_ok (calls, w') \<and> \<not> w_accepting w'"
  using assms(1)
proof (induction n arbitrary: w')
  case 0
  then show ?case using assms by simp
next
  case (Suc n)
  then obtain v where v: "(own_step encode ^^ n) w v" "own_step encode v w'" by auto
  then show ?case using Suc.IH [OF v(1)] own_step_shrinks own_step_ok own_step_closed assms(4) by fastforce
qed

section \<open>Properties\<close>

text \<open>C23 (refinement). The plugin follows the writer's control state: whatever the interleaving of the
  callers with the writer's goroutine and whatever the encoder does, replaying the messages that
  were sent over the state the session started with gives the state the writer holds in every
  part, configuration, subscription and activity, whose message can be made, as soon as no message
  is under way and unless the connection failed. A part of which the plugin has not heard is one
  that does not encode within the limit. Each of these messages moves the plugin forward, to a
  valid configuration of a greater revision or a valid subscription of a greater generation, the
  plugin is never ahead of the writer, and nothing follows a shutdown.\<close>

theorem plugin_follows:
  assumes "writer_reachable encode initial capacity (calls, w)"
  shows "advances_along initial (w_sent w) \<and>
    (in_flight w = [] \<and> terminalErr w = None \<longrightarrow> behind (fold told (w_sent w) initial) (w_state w) \<and>
      (let s = w_state w; p = fold told (w_sent w) initial in
        (is_ok (NewMessage encode (ConfigChanged (cs_Config s))) \<longrightarrow> cs_Config p = cs_Config s) \<and>
        (is_ok (NewMessage encode (SubscriptionChanged (cs_Subscription s))) \<longrightarrow> cs_Subscription p = cs_Subscription s) \<and>
        (is_ok (NewMessage encode (ActiveChanged (cs_Active s))) \<longrightarrow> cs_Active p = cs_Active s)))"
proof -
  have first: "advances_along s ms" if "advances_along s (ms @ ms')" for s ms ms'
    using that by (induction ms arbitrary: s) auto
  obtain lost where lost: "advances_along initial (w_sent w @ map snd (in_flight w) @ lost)"
    "agrees encode (w_state w) (fold told (w_sent w @ map snd (in_flight w) @ lost) initial)"
    "behind (fold told (w_sent w @ map snd (in_flight w) @ lost) initial) (w_state w)" "length lost = (if terminalErr w = None then 0 else 1)"
    using reachable_mirrored [OF assms] unfolding mirrored_def by blast
  show ?thesis using first [OF lost(1)] lost(2-4) by (auto simp: agrees_def Let_def)
qed

text \<open>C30 (liveness). No call of Control is forgotten or answered twice. Once a shutdown has been accepted
  or the connection has failed, the goroutine ends after finitely many of its own steps, at most
  three per waiting request and five more, whether the connection takes the messages or not, and
  then every call made so far has its answer. Of the encoder only the empty Shutdown is asked for.\<close>

theorem calls_answered:
  assumes "writer_reachable encode initial capacity (calls, w)" and "encodable encode Shutdown"
  shows "distinct (map fst (w_replies w)) \<and> set (map fst (w_replies w)) \<subseteq> calls \<and>
    (\<not> w_accepting w \<and> (own_step encode ^^ n) w w' \<longrightarrow>
      n \<le> 3 * length (w_requests w) + 5 \<and>
      (if w_pc w' = Done then set (map fst (w_replies w')) = calls else \<exists>w''. own_step encode w' w''))"
proof -
  have ok: "writer_ok (calls, w)" by (rule reachable_ok [OF assms])
  have "n \<le> 3 * length (w_requests w) + 5 \<and>
      (if w_pc w' = Done then set (map fst (w_replies w')) = calls else \<exists>w''. own_step encode w' w'')"
    if "\<not> w_accepting w" "(own_step encode ^^ n) w w'"
  proof -
    note fin = own_steps_end [OF that(2) ok that(1) assms(2)]
    have "own_steps_left w \<le> 3 * length (w_requests w) + 5" by (auto simp: own_steps_left_def split: writer_pc.splits)
    moreover have "set (map fst (w_replies w')) = calls" if "w_pc w' = Done"
      using that conjunct1 [OF conjunct2 [OF fin]] by (auto simp: writer_ok_def call_order_def in_flight_def)
    ultimately show ?thesis using fin own_step_enabled [of calls w' encode] by auto
  qed
  moreover have "distinct (map fst (w_replies w))" "set (map fst (w_replies w)) \<subseteq> calls"
    using ok by (auto simp: writer_ok_def call_order_def)
  ultimately show ?thesis by blast
qed

text \<open>C31 (error). A configuration whose message exceeds the payload limit is taken into the writer's state
  although it cannot be sent: its first request fails, and the same request again reports success
  without sending anything.\<close>

theorem oversized_config_lost:
  assumes "cr_kind r = controlConfig" and "cs_Config (cr_state r) = c" and "config_validate c = Inr ()"
    and "Revision (cs_Config s) < Revision c" and "encode (ConfigChanged c) = Some raw" and "MaxPayloadSize < int (length raw)"
  shows "\<exists>s'. applyControl encode r s = (s', Inl (CreateMessage (PayloadTooLarge (int (length raw))))) \<and> cs_Config s' = c \<and>
    applyControl encode r s' = (s', Inr (None, False))"
proof -
  have "Revision c \<noteq> 0" using assms(4) by auto
  then have "NewMessage encode (ConfigChanged c) = Inl (PayloadTooLarge (int (length raw)))"
    using assms(3,5,6) by (simp add: NewMessage_def message_validate_def validatedPayload_def validateSemantics_def Let_def
        message_type_valid_def message_types ProtocolVersion_def wrap_error_def)
  then show ?thesis using assms(1-4)
    by (intro exI [of _ "s\<lparr>cs_Config := c\<rparr>"]) (auto simp: applyControl_def applyConfig_def Let_def)
qed

section \<open>Examples\<close>

definition sample_encode :: "payload \<Rightarrow> bytes option" where
  "sample_encode p = Some ''{}''"

definition sample_control :: control_state where
  "sample_control = \<lparr>cs_Active = False, cs_Config = \<lparr>Revision = 0, Data = []\<rparr>, cs_Subscription = empty_subscription\<rparr>"

definition sample_config :: control_request where
  "sample_config = \<lparr>cr_kind = controlConfig, cr_state = sample_control\<lparr>cs_Config := \<lparr>Revision = 3, Data = ''{}''\<rparr>\<rparr>, forceActive = False\<rparr>"

definition sample_shutdown :: control_request where
  "sample_shutdown = \<lparr>cr_kind = controlShutdown, cr_state = sample_control, forceActive = False\<rparr>"

definition sample_writer :: writer where
  \<comment> \<open>a configuration sent\<close>
  "sample_writer = writer_sent None (writer_receive sample_encode
     (writer_Control False 0 sample_config (newSessionWriter sample_control 4)))"

definition sample_closing :: writer where
  \<comment> \<open>a shutdown waiting\<close>
  "sample_closing = writer_Control False 0 sample_shutdown (newSessionWriter sample_control 4)"

definition writer_phase :: "writer \<Rightarrow> nat" where
  "writer_phase w = (case w_pc w of Waiting \<Rightarrow> 0 | Sending i m shutdown \<Rightarrow> 5 | Stopping \<Rightarrow> 2 | Draining \<Rightarrow> 3 | Done \<Rightarrow> 4)"

lemma writer_phase_iff:
  "writer_phase w = 0 \<longleftrightarrow> w_pc w = Waiting" "writer_phase w = 5 \<longleftrightarrow> (\<exists>i m b. w_pc w = Sending i m b)"
  "writer_phase w = 2 \<longleftrightarrow> w_pc w = Stopping" "writer_phase w = 3 \<longleftrightarrow> w_pc w = Draining" "writer_phase w = 4 \<longleftrightarrow> w_pc w = Done"
  by (auto simp: writer_phase_def split: writer_pc.splits)

lemma four_steps: "R a b \<Longrightarrow> R b c \<Longrightarrow> R c d \<Longrightarrow> R d e \<Longrightarrow> (R ^^ 4) a e"
  by (auto simp: numeral_eq_Suc)

lemma sample_encodable: "encodable sample_encode p"
  by (simp add: encodable_def sample_encode_def MaxPayloadSize_def)

lemma sample_reachable:
  "writer_reachable sample_encode sample_control 4 ({0}, sample_writer)"
  "writer_reachable sample_encode sample_control 4 ({0}, sample_closing)"
proof -
  have first: "writer_reachable sample_encode sample_control 4 ({0}, writer_Control False 0 r (newSessionWriter sample_control 4))" for r
    using writer_reachable.step [OF writer_reachable.start writer_step.call [of 0 "{}"]] by simp
  then show "writer_reachable sample_encode sample_control 4 ({0}, sample_closing)" by (simp add: sample_closing_def)
  let ?w1 = "writer_Control False 0 sample_config (newSessionWriter sample_control 4)"
  have "writer_phase ?w1 = 0" "0 < length (w_requests ?w1)" "writer_phase (writer_receive sample_encode ?w1) = 5" by code_simp+
  then have pc: "w_pc ?w1 = Waiting" "w_requests ?w1 \<noteq> []" "\<exists>i m b. w_pc (writer_receive sample_encode ?w1) = Sending i m b"
    by (simp_all add: writer_phase_iff)
  show "writer_reachable sample_encode sample_control 4 ({0}, sample_writer)"
    unfolding sample_writer_def
    using pc first by (meson own_step.receive own_step.sent writer_step.own writer_reachable.step)
qed

lemma sample_config_message: "NewMessage sample_encode (ConfigChanged \<lparr>Revision = 3, Data = ''{}''\<rparr>) =
    Inr \<lparr>msg_Version = ProtocolVersion, msg_Type = MessageConfigChanged, msg_Payload = ConfigChanged \<lparr>Revision = 3, Data = ''{}''\<rparr>\<rparr>"
  "config_validate \<lparr>Revision = 3, Data = ''{}''\<rparr> = Inr ()"
proof -
  show "config_validate \<lparr>Revision = 3, Data = ''{}''\<rparr> = Inr ()" by code_simp
  then show "NewMessage sample_encode (ConfigChanged \<lparr>Revision = 3, Data = ''{}''\<rparr>) =
    Inr \<lparr>msg_Version = ProtocolVersion, msg_Type = MessageConfigChanged, msg_Payload = ConfigChanged \<lparr>Revision = 3, Data = ''{}''\<rparr>\<rparr>"
    by (simp add: NewMessage_ok wrap_error_def sample_encode_def MaxPayloadSize_def)
qed

lemma sample_writer_fields:
  "in_flight sample_writer = []" "terminalErr sample_writer = None" "cs_Config (w_state sample_writer) = \<lparr>Revision = 3, Data = ''{}''\<rparr>"
  "length (w_sent sample_writer) = 1" "\<forall>m \<in> set (w_sent sample_writer). msg_Payload m \<noteq> Shutdown"
  using sample_config_message by (simp_all add: sample_writer_def sample_config_def sample_control_def newSessionWriter_def writer_Control_def
    writer_receive_def writer_sent_def applyControl_def applyConfig_def control_kinds in_flight_def Let_def)

theorem plugin_follows_witness:
  "advances_along sample_control (w_sent sample_writer) \<and> length (w_sent sample_writer) = 1 \<and>
    cs_Config (fold told (w_sent sample_writer) sample_control) = \<lparr>Revision = 3, Data = ''{}''\<rparr>"
  using plugin_follows [OF sample_reachable(1)] sample_writer_fields sample_config_message by (simp add: Let_def)

theorem calls_answered_witness:
  "\<exists>w'. (own_step sample_encode ^^ 4) sample_closing w' \<and> set (map fst (w_replies w')) = {0}"
proof -
  let ?a = "writer_receive sample_encode sample_closing" let ?b = "writer_sent None ?a" let ?c = "writer_stop ?b" let ?d = "writer_drain ?c"
  have "writer_phase sample_closing = 0" "0 < length (w_requests sample_closing)" "writer_phase ?a = 5"
      "writer_phase ?b = 2" "length (w_requests ?b) = 0" "\<not> w_accepting sample_closing"
    by code_simp+
  then have pc: "w_pc sample_closing = Waiting" "w_requests sample_closing \<noteq> []" "\<exists>i m b. w_pc ?a = Sending i m b"
      "w_pc ?b = Stopping" "w_pc ?c = Draining" "w_pc ?d = Done" "\<not> w_accepting sample_closing"
    by (simp_all add: writer_phase_iff writer_stop_def writer_drain_def)
  then have steps: "own_step sample_encode sample_closing ?a" "own_step sample_encode ?a ?b" "own_step sample_encode ?b ?c" "own_step sample_encode ?c ?d"
    using own_step.receive own_step.sent own_step.stop own_step.drain by metis+
  then have run: "(own_step sample_encode ^^ 4) sample_closing ?d" by (rule four_steps)
  with pc show ?thesis using calls_answered [OF sample_reachable(2) sample_encodable, of 4 ?d] by auto
qed

theorem oversized_config_lost_witness:
  "\<exists>s'. applyControl (\<lambda>_. Some (replicate 2000000 CHR ''x'')) sample_config sample_control =
      (s', Inl (CreateMessage (PayloadTooLarge 2000000))) \<and>
    applyControl (\<lambda>_. Some (replicate 2000000 CHR ''x'')) sample_config s' = (s', Inr (None, False))"
proof -
  have "config_validate (cs_Config (cr_state sample_config)) = Inr ()"
    "Revision (cs_Config sample_control) < Revision (cs_Config (cr_state sample_config))" by code_simp+
  then show ?thesis
    using oversized_config_lost [of sample_config _ sample_control "\<lambda>_. Some (replicate 2000000 CHR ''x'')", OF _ refl]
    by (fastforce simp: sample_config_def MaxPayloadSize_def)
qed

end
