(* ===== verification/Events.thy ===== *)
theory Events
  imports PluginApi "HOL-Library.AList" "HOL-Library.Multiset"
begin

text \<open>
  internal/plugins/events.go: the hub that distributes the plugin manager's events. Publish puts an
  event into a bounded queue; the hub's goroutine numbers the events and enqueues them with each
  subscriber, which keeps notices and logs up to a capacity, the latest event of each plugin's
  state and status, and counts the logs it drops. A subscriber's channel has no buffer, so an
  event is received in the step that takes it from the subscriber.

  The goroutine's loop is a step relation: it may dispatch, deliver, add or remove subscribers and
  stop in any order, which includes the order of its quotas. Go's maps are association lists.
\<close>

section \<open>Events\<close>

type_synonym event_type = string

definition EventPluginDiscovered :: event_type where "EventPluginDiscovered = ''plugin_discovered''"
definition EventPluginRemoved :: event_type where "EventPluginRemoved = ''plugin_removed''"
definition EventPluginStateChanged :: event_type where "EventPluginStateChanged = ''plugin_state_changed''"
definition EventPluginStatus :: event_type where "EventPluginStatus = ''plugin_status''"
definition EventPluginLog :: event_type where "EventPluginLog = ''plugin_log''"

lemmas event_types = EventPluginDiscovered_def EventPluginRemoved_def EventPluginStateChanged_def EventPluginStatus_def EventPluginLog_def

record log_entry =
  le_Sequence :: u64
  le_Time :: int
  le_PluginID :: string
  le_Level :: string
  le_Message :: string

record runtime_snapshot =
  rs_ID :: string
  rs_Name :: string
  rs_Description :: string
  rs_Version :: string
  rs_Capabilities :: capability
  rs_Enabled :: bool
  rs_Active :: bool
  rs_State :: string
  PID :: int
  SessionID :: u64
  ConfigRevision :: u64
  SubscriptionGeneration :: u64
  StartedAt :: int
  LastHeartbeatAt :: int
  LastFrameAt :: int
  InstalledAt :: int
  LastEnabledAt :: int
  NextRestartAt :: int
  FrameRate :: u64 \<comment> \<open>the bits of a float64, only passed on\<close>
  ConsecutiveFailures :: int
  RestartCount :: int
  LastError :: string

record event =
  ev_Sequence :: u64
  ev_Time :: "int option" \<comment> \<open>none for the zero time\<close>
  ev_Type :: event_type
  ev_PluginID :: string
  ev_Snapshot :: "runtime_snapshot option"
  ev_Status :: "device_status option"
  ev_Log :: "log_entry option"
  ev_Dropped :: u64

definition saturatingAddUint64 :: "u64 \<Rightarrow> u64 \<Rightarrow> u64" where
  "saturatingAddUint64 left right = (if max_u64 - left < right then max_u64 else left + right)"

section \<open>A subscriber\<close>

record event_subscriber =
  notices :: "event list"
  logs :: "event list"
  states :: "(string \<times> event) list"
  stateOrder :: "string list"
  droppedLog :: "(string \<times> u64) list"

definition new_subscriber :: event_subscriber where
  "new_subscriber = \<lparr>notices = [], logs = [], states = [], stateOrder = [], droppedLog = []\<rparr>"

definition state_key :: "event \<Rightarrow> string" where
  "state_key e = ev_PluginID e @ CHR 0x00 # ev_Type e"

definition dropped_of :: "event_subscriber \<Rightarrow> string \<Rightarrow> u64" where
  \<comment> \<open>a missing key reads as zero\<close>
  "dropped_of s p = (case map_of (droppedLog s) p of Some n \<Rightarrow> n | None \<Rightarrow> 0)"

definition enqueue :: "event \<Rightarrow> nat \<Rightarrow> event_subscriber \<Rightarrow> event_subscriber" where
  "enqueue e capacity s =
    (if ev_Type e = EventPluginStateChanged \<or> ev_Type e = EventPluginStatus then
       (let key = state_key e;
            s = (if map_of (states s) key = None then
                (let s = (if length (stateOrder s) = capacity
                     then s\<lparr>states := AList.delete (hd (stateOrder s)) (states s), stateOrder := tl (stateOrder s)\<rparr> else s)
                 in s\<lparr>stateOrder := stateOrder s @ [key]\<rparr>) else s)
        in s\<lparr>states := AList.update key e (states s)\<rparr>)
     else if ev_Type e = EventPluginLog then
       (if capacity \<le> length (logs s) then
          s\<lparr>droppedLog := AList.update (ev_PluginID e)
             (saturatingAddUint64 (dropped_of s (ev_PluginID e)) (saturatingAddUint64 (ev_Dropped e) 1)) (droppedLog s)\<rparr>
        else let dropped = dropped_of s (ev_PluginID e) in
          (if dropped \<noteq> 0
           then s\<lparr>droppedLog := AList.delete (ev_PluginID e) (droppedLog s),
                  logs := logs s @ [e\<lparr>ev_Dropped := saturatingAddUint64 (ev_Dropped e) dropped\<rparr>]\<rparr>
           else s\<lparr>logs := logs s @ [e]\<rparr>))
     else if length (notices s) < capacity then s\<lparr>notices := notices s @ [e]\<rparr> else s)"

definition pick :: "event option \<Rightarrow> event \<Rightarrow> event option" where
  \<comment> \<open>if !hasNext or the sequence is smaller\<close>
  "pick n e = (case n of None \<Rightarrow> Some e | Some m \<Rightarrow> if ev_Sequence e < ev_Sequence m then Some e else n)"

definition next_event :: "event_subscriber \<Rightarrow> event_subscriber \<times> event option" where
  "next_event s =
    (let n = (case logs s of [] \<Rightarrow> None | e # _ \<Rightarrow> Some e);
         n = (case notices s of [] \<Rightarrow> n | e # _ \<Rightarrow> pick n e);
         s = s\<lparr>stateOrder := dropWhile (\<lambda>k. map_of (states s) k = None) (stateOrder s)\<rparr>
     in (s, foldl (\<lambda>n k. case map_of (states s) k of None \<Rightarrow> n | Some e \<Rightarrow> pick n e) n (stateOrder s)))"

fun pop_state :: "u64 \<Rightarrow> string list \<Rightarrow> string list \<Rightarrow> event_subscriber \<Rightarrow> event_subscriber" where
  \<comment> \<open>the loop over the keys, of which some have been passed\<close>
  "pop_state sq passed [] s = s"
| "pop_state sq passed (k # ks) s =
    (case map_of (states s) k of
       Some e \<Rightarrow> if ev_Sequence e = sq then s\<lparr>states := AList.delete k (states s), stateOrder := passed @ ks\<rparr>
         else pop_state sq (passed @ [k]) ks s
     | None \<Rightarrow> pop_state sq (passed @ [k]) ks s)"

definition pop_event :: "event \<Rightarrow> event_subscriber \<Rightarrow> event_subscriber" where
  "pop_event e s =
    (if logs s \<noteq> [] \<and> ev_Sequence (hd (logs s)) = ev_Sequence e then s\<lparr>logs := tl (logs s)\<rparr>
     else if notices s \<noteq> [] \<and> ev_Sequence (hd (notices s)) = ev_Sequence e then s\<lparr>notices := tl (notices s)\<rparr>
     else pop_state (ev_Sequence e) [] (stateOrder s) s)"

section \<open>The hub\<close>

text \<open>With each subscriber, the events dispatched since it subscribed and those it received.\<close>

record feed =
  fd_subscriber :: event_subscriber
  offered :: "event list"
  received :: "event list"

record event_hub =
  hub_capacity :: nat
  publish_queue :: "event list"
  hub_done :: bool
  subscribers :: "(nat \<times> feed) list"
  hub_sequence :: u64
  dispatched :: nat \<comment> \<open>how many events\<close>

definition maxEventCommands :: "nat \<Rightarrow> nat" where
  "maxEventCommands capacity = (if 64 div 4 < capacity then capacity * 4 else 64)"

definition newEventHub :: "int \<Rightarrow> event_hub" where
  "newEventHub capacity = \<lparr>hub_capacity = nat (if capacity < 1 then 1 else capacity), publish_queue = [], hub_done = False,
     subscribers = [], hub_sequence = 0, dispatched = 0\<rparr>"

definition hub_Publish :: "event \<Rightarrow> event_hub \<Rightarrow> event_hub \<times> bool" where
  "hub_Publish e h = (if hub_done h then (h, False)
     else if length (publish_queue h) < maxEventCommands (hub_capacity h) then (h\<lparr>publish_queue := publish_queue h @ [e]\<rparr>, True)
     else (h, False))"

definition feed_enqueue :: "nat \<Rightarrow> event \<Rightarrow> feed \<Rightarrow> feed" where
  "feed_enqueue capacity e f = f\<lparr>fd_subscriber := enqueue e capacity (fd_subscriber f), offered := offered f @ [e]\<rparr>"

definition dispatch :: "int \<Rightarrow> event \<Rightarrow> event_hub \<Rightarrow> event_hub" where
  \<comment> \<open>at the time now\<close>
  "dispatch now e h =
    (let h = h\<lparr>hub_sequence := hub_sequence h + 1, dispatched := Suc (dispatched h)\<rparr>;
         e = e\<lparr>ev_Sequence := hub_sequence h\<rparr>;
         e = (if ev_Time e = None then e\<lparr>ev_Time := Some now\<rparr> else e)
     in h\<lparr>subscribers := map (map_prod id (feed_enqueue (hub_capacity h) e)) (subscribers h)\<rparr>)"

definition hub_dispatch :: "int \<Rightarrow> event_hub \<Rightarrow> event_hub" where
  \<comment> \<open>the goroutine receives from the queue\<close>
  "hub_dispatch now h = (case publish_queue h of [] \<Rightarrow> h | e # q \<Rightarrow> dispatch now e (h\<lparr>publish_queue := q\<rparr>))"

definition hub_subscribe :: "nat \<Rightarrow> event_hub \<Rightarrow> event_hub" where
  \<comment> \<open>a subscriber with a key of its own, whose context is not done\<close>
  "hub_subscribe i h = h\<lparr>subscribers := (i, \<lparr>fd_subscriber = new_subscriber, offered = [], received = []\<rparr>) # subscribers h\<rparr>"

definition hub_remove :: "nat \<Rightarrow> event_hub \<Rightarrow> event_hub" where
  "hub_remove i h = h\<lparr>subscribers := AList.delete i (subscribers h)\<rparr>"

definition selectCases :: "event_hub \<Rightarrow> event_hub \<times> (nat \<times> event) list" where
  \<comment> \<open>next is called on every subscriber\<close>
  "selectCases h =
    (h\<lparr>subscribers := map (map_prod id (\<lambda>f. f\<lparr>fd_subscriber := fst (next_event (fd_subscriber f))\<rparr>)) (subscribers h)\<rparr>,
     List.map_filter (\<lambda>(i, f). map_option (Pair i) (snd (next_event (fd_subscriber f)))) (subscribers h))"

definition receive_event :: "event \<Rightarrow> feed \<Rightarrow> feed" where
  "receive_event e f = f\<lparr>fd_subscriber := pop_event e (fd_subscriber f), received := received f @ [e]\<rparr>"

definition hub_deliver :: "nat \<times> event \<Rightarrow> event_hub \<Rightarrow> event_hub" where
  \<comment> \<open>reflect.Select chose the send to this target\<close>
  "hub_deliver = (\<lambda>(i, e) h. h\<lparr>subscribers := map (\<lambda>(j, f). (j, if j = i then receive_event e f else f)) (subscribers h)\<rparr>)"

inductive hub_step :: "event_hub \<Rightarrow> event_hub \<Rightarrow> bool" where
  publish: "hub_step h (fst (hub_Publish e h))"
| dispatch: "\<not> hub_done h \<Longrightarrow> publish_queue h \<noteq> [] \<Longrightarrow> hub_step h (hub_dispatch now h)"
| subscribe: "\<not> hub_done h \<Longrightarrow> i \<notin> fst ` set (subscribers h) \<Longrightarrow> hub_step h (hub_subscribe i h)"
| remove: "\<not> hub_done h \<Longrightarrow> hub_step h (hub_remove i h)"
| deliver: "\<not> hub_done h \<Longrightarrow> selectCases h = (h', targets) \<Longrightarrow> target \<in> set targets \<Longrightarrow> hub_step h (hub_deliver target h')"
| close: "hub_step h (h\<lparr>hub_done := True\<rparr>)"

inductive_cases hub_stepE: "hub_step h h'"

inductive hub_reachable :: "int \<Rightarrow> event_hub \<Rightarrow> bool" for capacity where
  start: "hub_reachable capacity (newEventHub capacity)"
| step: "hub_reachable capacity h \<Longrightarrow> hub_step h h' \<Longrightarrow> hub_reachable capacity h'"

section \<open>The invariant of a subscriber\<close>

definition pending :: "event_subscriber \<Rightarrow> event set" where
  "pending s = set (logs s) \<union> set (notices s) \<union> snd ` set (states s)"

definition is_state :: "event \<Rightarrow> bool" where
  "is_state e \<longleftrightarrow> ev_Type e = EventPluginStateChanged \<or> ev_Type e = EventPluginStatus"

definition is_log :: "event \<Rightarrow> bool" where
  "is_log e \<longleftrightarrow> ev_Type e = EventPluginLog"

definition subscriber_ok :: "nat \<Rightarrow> event_subscriber \<Rightarrow> bool" where
  "subscriber_ok capacity s \<longleftrightarrow>
     sorted_wrt (<) (map ev_Sequence (logs s)) \<and> sorted_wrt (<) (map ev_Sequence (notices s)) \<and>
     distinct (map fst (states s)) \<and> distinct (stateOrder s) \<and> set (stateOrder s) = fst ` set (states s) \<and>
     (\<forall>(k, e) \<in> set (states s). k = state_key e \<and> is_state e) \<and> (\<forall>e \<in> set (logs s). is_log e) \<and>
     (\<forall>e \<in> set (notices s). \<not> is_state e \<and> \<not> is_log e) \<and> inj_on ev_Sequence (pending s) \<and>
     length (logs s) \<le> capacity \<and> length (notices s) \<le> capacity \<and> length (stateOrder s) \<le> capacity"

lemma log_not_state: "is_log e \<Longrightarrow> \<not> is_state e"
  by (simp add: is_log_def is_state_def event_types)

text \<open>What is next is the pending event with the least sequence number.\<close>

lemma pick_least:
  assumes "case n of None \<Rightarrow> S = {} | Some m \<Rightarrow> m \<in> S \<and> (\<forall>x \<in> S. ev_Sequence m \<le> ev_Sequence x)"
  shows "\<exists>m. pick n e = Some m \<and> m \<in> insert e S \<and> (\<forall>x \<in> insert e S. ev_Sequence m \<le> ev_Sequence x)"
  using assms by (cases n) (auto simp: pick_def)

definition least_of :: "event option \<Rightarrow> event set \<Rightarrow> bool" where
  "least_of n S \<longleftrightarrow> (case n of None \<Rightarrow> S = {} | Some m \<Rightarrow> m \<in> S \<and> (\<forall>x \<in> S. ev_Sequence m \<le> ev_Sequence x))"

lemma least_of_pick: "least_of n S \<Longrightarrow> least_of (pick n e) (insert e S)"
  using pick_least [where n = n and S = S and e = e] by (auto simp: least_of_def)

lemma least_of_states:
  assumes "least_of n S" and "\<forall>k \<in> set ks. map_of st k \<noteq> None"
  shows "least_of (foldl (\<lambda>n k. case map_of st k of None \<Rightarrow> n | Some e \<Rightarrow> pick n e) n ks) (S \<union> {e. \<exists>k \<in> set ks. map_of st k = Some e})"
  using assms
proof (induction ks arbitrary: n S)
  case (Cons k ks)
  obtain e where e: "map_of st k = Some e" using Cons.prems(2) by auto
  have "{e. \<exists>k \<in> set (k # ks). map_of st k = Some e} = insert e {e. \<exists>k \<in> set ks. map_of st k = Some e}" using e by auto
  then show ?case using Cons.IH [OF least_of_pick [OF Cons.prems(1), of e]] Cons.prems(2) e by simp
qed simp

lemma least_of_sorted:
  assumes "sorted_wrt (<) (map ev_Sequence es)"
  shows "least_of (case es of [] \<Rightarrow> None | e # _ \<Rightarrow> Some e) (set es)"
  using assms by (cases es) (auto simp: least_of_def)

lemma least_of_hd:
  assumes "least_of n S" and "sorted_wrt (<) (map ev_Sequence es)"
  shows "least_of (case es of [] \<Rightarrow> n | e # _ \<Rightarrow> pick n e) (S \<union> set es)"
proof (cases es)
  case (Cons e rest)
  then have "\<forall>x \<in> set es. ev_Sequence e \<le> ev_Sequence x" using assms(2) by auto
  then show ?thesis using least_of_pick [OF assms(1), of e] Cons
    by (auto simp: least_of_def split: option.splits)
qed (use assms in simp)

lemma alist_values: "distinct (map fst st) \<Longrightarrow> {e. \<exists>k \<in> fst ` set st. map_of st k = Some e} = snd ` set st"
  by (force simp: map_of_eq_Some_iff image_iff)

lemma next_event_least:
  assumes "subscriber_ok capacity s"
  shows "fst (next_event s) = s \<and> least_of (snd (next_event s)) (pending s)"
proof -
  have keys: "\<forall>k \<in> set (stateOrder s). map_of (states s) k \<noteq> None"
    using assms by (auto simp: subscriber_ok_def map_of_eq_None_iff)
  then have drop: "dropWhile (\<lambda>k. map_of (states s) k = None) (stateOrder s) = stateOrder s"
    by (cases "stateOrder s") auto
  have ran: "{e. \<exists>k \<in> set (stateOrder s). map_of (states s) k = Some e} = snd ` set (states s)"
    using assms alist_values [of "states s"] by (simp add: subscriber_ok_def)
  have "least_of (case notices s of [] \<Rightarrow> case logs s of [] \<Rightarrow> None | e # _ \<Rightarrow> Some e
      | e # _ \<Rightarrow> pick (case logs s of [] \<Rightarrow> None | e # _ \<Rightarrow> Some e) e) (set (logs s) \<union> set (notices s))"
    using assms by (intro least_of_hd least_of_sorted) (auto simp: subscriber_ok_def)
  note least = least_of_states [OF this keys, unfolded ran, folded pending_def]
  have upd: "s\<lparr>stateOrder := stateOrder s\<rparr> = s" by simp
  show ?thesis unfolding next_event_def Let_def drop upd using least by (simp only: fst_conv snd_conv simp_thms)
qed


section \<open>Taking and adding an event\<close>

lemma pop_state_key:
  assumes "distinct ks" and "k \<in> set ks" and "map_of (states s) k = Some e"
    and "\<forall>k' \<in> set ks. \<forall>e'. map_of (states s) k' = Some e' \<and> ev_Sequence e' = ev_Sequence e \<longrightarrow> k' = k"
  shows "pop_state (ev_Sequence e) passed ks s = s\<lparr>states := AList.delete k (states s), stateOrder := passed @ remove1 k ks\<rparr>"
  using assms
proof (induction ks arbitrary: passed)
  case (Cons k' ks)
  show ?case
  proof (cases "k' = k")
    case False
    then have "case map_of (states s) k' of Some e' \<Rightarrow> ev_Sequence e' \<noteq> ev_Sequence e | None \<Rightarrow> True"
      using Cons.prems(4) by (auto split: option.splits)
    moreover have "pop_state (ev_Sequence e) (passed @ [k']) ks s =
        s\<lparr>states := AList.delete k (states s), stateOrder := (passed @ [k']) @ remove1 k ks\<rparr>"
    proof (rule Cons.IH)
      show "distinct ks" "k \<in> set ks" using Cons.prems(1,2) False by simp_all
      show "map_of (states s) k = Some e" by (rule Cons.prems(3))
      show "\<forall>k' \<in> set ks. \<forall>e'. map_of (states s) k' = Some e' \<and> ev_Sequence e' = ev_Sequence e \<longrightarrow> k' = k"
        using Cons.prems(4) unfolding list.set by blast
    qed
    ultimately show ?thesis using False by (cases "map_of (states s) k'") simp_all
  qed (use Cons.prems(3) in simp)
qed simp

lemma pop_event_cases:
  assumes "subscriber_ok capacity s" and "least_of (Some e) (pending s)"
  shows "(is_log e \<and> (\<exists>rest. logs s = e # rest \<and> pop_event e s = s\<lparr>logs := rest\<rparr>)) \<or>
    (\<not> is_state e \<and> \<not> is_log e \<and> (\<exists>rest. notices s = e # rest \<and> pop_event e s = s\<lparr>notices := rest\<rparr>)) \<or>
    (is_state e \<and> map_of (states s) (state_key e) = Some e \<and>
      pop_event e s = s\<lparr>states := AList.delete (state_key e) (states s), stateOrder := remove1 (state_key e) (stateOrder s)\<rparr>)"
proof -
  have e: "e \<in> pending s" "\<forall>x \<in> pending s. ev_Sequence e \<le> ev_Sequence x" using assms(2) by (simp_all add: least_of_def)
  have inj: "x = e" if "x \<in> pending s" "ev_Sequence x = ev_Sequence e" for x
    using assms(1) that e(1) by (auto simp: subscriber_ok_def dest: inj_onD)
  have hd: "hd xs = e" "xs \<noteq> []" if "e \<in> set xs" "sorted_wrt (<) (map ev_Sequence xs)" "set xs \<subseteq> pending s" for xs
    using that e(2) by (cases xs; fastforce)+
  have kinds: "e \<in> set (logs s) \<Longrightarrow> is_log e" "e \<in> set (notices s) \<Longrightarrow> \<not> is_state e \<and> \<not> is_log e" "e \<in> snd ` set (states s) \<Longrightarrow> is_state e"
    using assms(1) by (auto simp: subscriber_ok_def)
  have heads: "hd (logs s) \<in> pending s \<and> is_log (hd (logs s))" if "logs s \<noteq> []"
    using that assms(1) by (auto simp: subscriber_ok_def pending_def)
  have heads2: "hd (notices s) \<in> pending s \<and> \<not> is_state (hd (notices s))" if "notices s \<noteq> []"
    using that assms(1) by (auto simp: subscriber_ok_def pending_def)
  consider "e \<in> set (logs s)" | "e \<in> set (notices s)" | "e \<in> snd ` set (states s)" using e(1) by (auto simp: pending_def)
  then show ?thesis
  proof cases
    case 1
    then have "hd (logs s) = e" "logs s \<noteq> []" using hd [of "logs s"] assms(1) by (auto simp: subscriber_ok_def pending_def)
    then show ?thesis using kinds(1) [OF 1] by (cases "logs s") (simp_all add: pop_event_def)
  next
    case 2
    then have n: "hd (notices s) = e" "notices s \<noteq> []" using hd [of "notices s"] assms(1) by (auto simp: subscriber_ok_def pending_def)
    moreover have "\<not> (logs s \<noteq> [] \<and> ev_Sequence (hd (logs s)) = ev_Sequence e)" using heads inj kinds(2) [OF 2] by auto
    ultimately show ?thesis using kinds(2) [OF 2] by (cases "notices s") (auto simp: pop_event_def)
  next
    case 3
    have st: "distinct (map fst (states s))" "set (stateOrder s) = fst ` set (states s)" "distinct (stateOrder s)"
      "\<forall>(k, e) \<in> set (states s). k = state_key e" using assms(1) by (auto simp: subscriber_ok_def)
    then have k: "map_of (states s) (state_key e) = Some e" using 3 by force
    then have "state_key e \<in> set (stateOrder s)" using st(2) by (force dest: map_of_SomeD)
    moreover have "k' = state_key e" if "map_of (states s) k' = Some e'" "ev_Sequence e' = ev_Sequence e" for k' e'
    proof -
      have "(k', e') \<in> set (states s)" using that(1) by (rule map_of_SomeD)
      then have "e' = e" using inj [of e'] that(2) by (force simp: pending_def)
      then show ?thesis using \<open>(k', e') \<in> _\<close> st(4) by auto
    qed
    ultimately have "pop_state (ev_Sequence e) [] (stateOrder s) s =
        s\<lparr>states := AList.delete (state_key e) (states s), stateOrder := remove1 (state_key e) (stateOrder s)\<rparr>"
      using pop_state_key [OF st(3) _ k] by (metis append_Nil)
    moreover have "\<not> (logs s \<noteq> [] \<and> ev_Sequence (hd (logs s)) = ev_Sequence e)"
      "\<not> (notices s \<noteq> [] \<and> ev_Sequence (hd (notices s)) = ev_Sequence e)"
      using heads heads2 inj kinds(3) [OF 3] log_not_state by auto
    then have "pop_event e s = pop_state (ev_Sequence e) [] (stateOrder s) s" by (simp only: pop_event_def if_False)
    ultimately show ?thesis using kinds(3) [OF 3] k by (simp only: simp_thms)
  qed
qed

lemma pending_pop:
  assumes "subscriber_ok capacity s" and "least_of (Some e) (pending s)"
  shows "subscriber_ok capacity (pop_event e s) \<and> pending (pop_event e s) \<subseteq> pending s - {e}"
proof -
  have inj: "inj_on ev_Sequence (pending s)" using assms(1) by (simp add: subscriber_ok_def)
  have sub: "inj_on ev_Sequence S" if "S \<subseteq> pending s" for S using inj that by (rule inj_on_subset)
  have del: "set (AList.delete k (states s)) = set (states s) - {x. fst x = k}" for k
    by (auto simp: AList.delete_eq)
  from pop_event_cases [OF assms] show ?thesis
  proof (elim disjE conjE exE)
    fix rest assume r: "logs s = e # rest" "pop_event e s = s\<lparr>logs := rest\<rparr>" and e: "is_log e"
    have "pending (pop_event e s) \<subseteq> pending s - {e}" using assms(1) r e log_not_state
      by (auto simp: pending_def subscriber_ok_def)
    then show ?thesis using assms(1) r sub [of "pending (pop_event e s)"] by (auto simp: subscriber_ok_def)
  next
    fix rest assume r: "notices s = e # rest" "pop_event e s = s\<lparr>notices := rest\<rparr>" and e: "\<not> is_state e" "\<not> is_log e"
    have "pending (pop_event e s) \<subseteq> pending s - {e}" using assms(1) r e
      by (auto simp: pending_def subscriber_ok_def)
    then show ?thesis using assms(1) r sub [of "pending (pop_event e s)"] by (auto simp: subscriber_ok_def)
  next
    assume r: "map_of (states s) (state_key e) = Some e"
      "pop_event e s = s\<lparr>states := AList.delete (state_key e) (states s), stateOrder := remove1 (state_key e) (stateOrder s)\<rparr>" and e: "is_state e"
    have "pending (pop_event e s) \<subseteq> pending s - {e}" using assms(1) r e
      by (auto simp: pending_def subscriber_ok_def del log_not_state)
    moreover have "length (remove1 (state_key e) (stateOrder s)) \<le> capacity"
      using assms(1) by (auto simp: subscriber_ok_def length_remove1)
    moreover have "set (remove1 (state_key e) (stateOrder s)) = fst ` set (AList.delete (state_key e) (states s))"
      using assms(1) by (auto simp: subscriber_ok_def set_remove1_eq AList.delete_keys [symmetric] del)
    ultimately show ?thesis using assms(1) r sub [of "pending (pop_event e s)"]
      by (auto simp: subscriber_ok_def del distinct_delete)
  qed
qed


lemma alist_update_set:
  assumes "distinct (map fst st)"
  shows "set (AList.update k e st) = insert (k, e) (set st - {x. fst x = k})"
  using assms by (induction st) (auto simp: image_iff)

lemma enqueue_state:
  assumes "subscriber_ok capacity s" and "0 < capacity" and "is_state e"
  obtains base where "subscriber_ok capacity base" and "pending base \<subseteq> pending s" and "logs base = logs s" "notices base = notices s"
    "droppedLog base = droppedLog s"
    and "set (stateOrder base) \<subseteq> set (stateOrder s)" and "\<And>k. map_of (states base) k \<noteq> None \<Longrightarrow> map_of (states base) k = map_of (states s) k"
    and "set (stateOrder base) = set (stateOrder s) \<or> state_key e \<notin> set (stateOrder s) \<and> length (stateOrder s) = capacity"
    and "enqueue e capacity s = base\<lparr>stateOrder := (if state_key e \<in> set (stateOrder base) then stateOrder base else stateOrder base @ [state_key e]),
           states := AList.update (state_key e) e (states base)\<rparr>"
    and "state_key e \<in> set (stateOrder base) \<or> length (stateOrder base) < capacity"
proof -
  have ok: "set (stateOrder s) = fst ` set (states s)" "length (stateOrder s) \<le> capacity" "distinct (stateOrder s)" "distinct (map fst (states s))"
    using assms(1) by (simp_all add: subscriber_ok_def)
  have known: "map_of (states s) k = None \<longleftrightarrow> k \<notin> set (stateOrder s)" for k using ok(1) by (simp add: map_of_eq_None_iff)
  show ?thesis
  proof (cases "state_key e \<notin> set (stateOrder s) \<and> length (stateOrder s) = capacity")
    case False
    have "enqueue e capacity s = s\<lparr>stateOrder := (if state_key e \<in> set (stateOrder s) then stateOrder s else stateOrder s @ [state_key e]),
           states := AList.update (state_key e) e (states s)\<rparr>"
      using assms(3) False by (auto simp: enqueue_def is_state_def Let_def known)
    then show ?thesis using that [of s] False assms(1) ok(2) by auto
  next
    case True
    obtain k ks where k: "stateOrder s = k # ks" using True assms(2) by (cases "stateOrder s") auto
    let ?base = "s\<lparr>states := AList.delete k (states s), stateOrder := ks\<rparr>"
    have set: "set (AList.delete k (states s)) = set (states s) - {x. fst x = k}" by (auto simp: AList.delete_eq)
    have p: "pending ?base \<subseteq> pending s" by (auto simp: pending_def set)
    have keys: "set ks = fst ` set (AList.delete k (states s))"
      using ok(1,3) k by (simp add: AList.delete_keys [symmetric] del: AList.delete_keys) (auto simp: set)
    have b: "subscriber_ok capacity ?base"
      using assms(1) ok k keys inj_on_subset [OF _ p, of ev_Sequence] by (auto simp: subscriber_ok_def set distinct_delete)
    show ?thesis
    proof (rule that [of ?base])
      show "enqueue e capacity s = ?base\<lparr>stateOrder := (if state_key e \<in> set (stateOrder ?base) then stateOrder ?base else stateOrder ?base @ [state_key e]),
           states := AList.update (state_key e) e (states ?base)\<rparr>"
        using assms(3) True k by (auto simp: enqueue_def is_state_def Let_def known)
      show "map_of (states ?base) k' = map_of (states s) k'" if "map_of (states ?base) k' \<noteq> None" for k'
        using that by (auto simp: AList.delete_conv' restrict_map_def split: if_splits)
    qed (use b p True k ok in auto)
  qed
qed

text \<open>The event as it is stored: a log carries the losses before it.\<close>

definition stored :: "event_subscriber \<Rightarrow> event \<Rightarrow> event" where
  "stored s e = (if is_log e then e\<lparr>ev_Dropped := saturatingAddUint64 (ev_Dropped e) (dropped_of s (ev_PluginID e))\<rparr> else e)"

lemma stored_fields [simp]:
  "ev_Sequence (stored s e) = ev_Sequence e" "is_log (stored s e) = is_log e" "is_state (stored s e) = is_state e"
  "ev_PluginID (stored s e) = ev_PluginID e"
  by (simp_all add: stored_def is_log_def is_state_def)

lemma saturating_0 [simp]: "saturatingAddUint64 x 0 = x"
  by (simp add: saturatingAddUint64_def)

lemma enqueue_log:
  assumes "is_log e"
  shows "enqueue e capacity s = (if capacity \<le> length (logs s)
     then s\<lparr>droppedLog := AList.update (ev_PluginID e)
       (saturatingAddUint64 (dropped_of s (ev_PluginID e)) (saturatingAddUint64 (ev_Dropped e) 1)) (droppedLog s)\<rparr>
     else s\<lparr>droppedLog := (if dropped_of s (ev_PluginID e) \<noteq> 0 then AList.delete (ev_PluginID e) (droppedLog s) else droppedLog s),
            logs := logs s @ [stored s e]\<rparr>)"
  using assms by (auto simp: enqueue_def is_log_def event_types stored_def Let_def)

lemma enqueue_notice:
  assumes "\<not> is_log e" "\<not> is_state e"
  shows "enqueue e capacity s = (if length (notices s) < capacity then s\<lparr>notices := notices s @ [e]\<rparr> else s)"
  using assms by (auto simp: enqueue_def is_log_def is_state_def)

lemma sorted_snoc:
  "sorted_wrt (<) (map ev_Sequence xs) \<Longrightarrow> \<forall>x \<in> set xs. ev_Sequence x < ev_Sequence e \<Longrightarrow> sorted_wrt (<) (map ev_Sequence (xs @ [e]))"
  by (simp add: sorted_wrt_append)

lemma inj_insert:
  "inj_on ev_Sequence S \<Longrightarrow> \<forall>x \<in> S. ev_Sequence x < ev_Sequence e \<Longrightarrow> T \<subseteq> insert e S \<Longrightarrow> inj_on ev_Sequence T"
  by (rule inj_on_subset [of _ "insert e S"]) (auto simp: inj_on_insert)

lemma enqueue_ok:
  assumes "subscriber_ok capacity s" and "0 < capacity" and "\<forall>x \<in> pending s. ev_Sequence x < ev_Sequence e"
  shows "subscriber_ok capacity (enqueue e capacity s) \<and> pending (enqueue e capacity s) \<subseteq> insert (stored s e) (pending s)"
proof (cases "is_state e")
  case True
  obtain base where base: "subscriber_ok capacity base" "pending base \<subseteq> pending s"
    "enqueue e capacity s = base\<lparr>stateOrder := (if state_key e \<in> set (stateOrder base) then stateOrder base else stateOrder base @ [state_key e]),
           states := AList.update (state_key e) e (states base)\<rparr>"
    "state_key e \<in> set (stateOrder base) \<or> length (stateOrder base) < capacity"
    using enqueue_state [OF assms(1,2) True] by metis
  have set: "set (AList.update (state_key e) e (states base)) = insert (state_key e, e) (set (states base) - {x. fst x = state_key e})"
    using base(1) by (intro alist_update_set) (simp add: subscriber_ok_def)
  have e: "stored s e = e" using True log_not_state by (auto simp: stored_def)
  have p: "pending (enqueue e capacity s) \<subseteq> insert e (pending base)" by (auto simp: base(3) pending_def set)
  let ?order = "if state_key e \<in> set (stateOrder base) then stateOrder base else stateOrder base @ [state_key e]"
  let ?st = "AList.update (state_key e) e (states base)"
  have keys: "fst ` set ?st = insert (state_key e) (fst ` set (states base))" unfolding set by (auto simp: image_iff)
  have "inj_on ev_Sequence (pending (enqueue e capacity s))"
    by (rule inj_insert [OF _ _ p]) (use base(1,2) assms(3) in \<open>auto simp: subscriber_ok_def\<close>)
  moreover have "set ?order = fst ` set ?st" "distinct ?order" "length ?order \<le> capacity" "distinct (map fst ?st)"
    using base(1,4) keys unfolding subscriber_ok_def by (auto simp: distinct_update insert_absorb)
  moreover have "\<forall>(k, x) \<in> set ?st. k = state_key x \<and> is_state x"
    using base(1) True unfolding subscriber_ok_def set by blast
  moreover have fields: "logs (enqueue e capacity s) = logs base" "notices (enqueue e capacity s) = notices base"
    "states (enqueue e capacity s) = ?st" "stateOrder (enqueue e capacity s) = ?order" unfolding base(3) by simp_all
  ultimately have "subscriber_ok capacity (enqueue e capacity s)" using base(1) unfolding subscriber_ok_def fields by (elim conjE) (intro conjI; assumption)
  then show ?thesis using subset_trans [OF p insert_mono [OF base(2)]] unfolding e by (rule conjI)
next
  case False
  show ?thesis
  proof (cases "is_log e")
    case True
    show ?thesis
    proof (cases "capacity \<le> length (logs s)")
      case full: True
      then show ?thesis using assms(1) by (auto simp: enqueue_log [OF True] subscriber_ok_def pending_def)
    next
      case room: False
      let ?t = "enqueue e capacity s"
      have p: "pending ?t \<subseteq> insert (stored s e) (pending s)" using room by (auto simp: enqueue_log [OF True] pending_def)
      have "inj_on ev_Sequence (pending ?t)"
        by (rule inj_insert [OF _ _ p]) (use assms(1,3) in \<open>auto simp: subscriber_ok_def\<close>)
      moreover have "sorted_wrt (<) (map ev_Sequence (logs s @ [stored s e]))"
        using assms(1,3) by (intro sorted_snoc) (auto simp: subscriber_ok_def pending_def)
      ultimately show ?thesis using assms(1) room True p by (auto simp: enqueue_log [OF True] subscriber_ok_def)
    qed
  next
    case notice: False
    have e: "stored s e = e" using notice by (simp add: stored_def)
    show ?thesis
    proof (cases "length (notices s) < capacity")
      case True
      let ?t = "enqueue e capacity s"
      have p: "pending ?t \<subseteq> insert e (pending s)" using True by (auto simp: enqueue_notice [OF notice False] pending_def)
      have "inj_on ev_Sequence (pending ?t)"
        by (rule inj_insert [OF _ _ p]) (use assms(1,3) in \<open>auto simp: subscriber_ok_def\<close>)
      moreover have "sorted_wrt (<) (map ev_Sequence (notices s @ [e]))"
        using assms(1,3) by (intro sorted_snoc) (auto simp: subscriber_ok_def pending_def)
      ultimately show ?thesis using assms(1) True notice False p e by (auto simp: enqueue_notice subscriber_ok_def)
    next
      case full: False
      then show ?thesis using assms(1) notice False by (auto simp: enqueue_notice)
    qed
  qed
qed


section \<open>What a subscriber has received\<close>

definition weight :: "event \<Rightarrow> nat" where
  \<comment> \<open>the logs a log event stands for: itself and those it says were dropped\<close>
  "weight e = Suc (unat (ev_Dropped e))"

definition logged :: "string \<Rightarrow> event list \<Rightarrow> nat" where
  "logged p es = sum_list (map weight (filter (\<lambda>e. is_log e \<and> ev_PluginID e = p) es))"

definition last_with :: "string \<Rightarrow> event list \<Rightarrow> event option" where
  "last_with k es = List.find (\<lambda>e. is_state e \<and> state_key e = k) (rev es)"

definition state_keys :: "event list \<Rightarrow> string set" where
  "state_keys es = state_key ` {e \<in> set es. is_state e}"

definition accounted :: "feed \<Rightarrow> bool" where
  "accounted f \<longleftrightarrow> (\<forall>p. logged p (offered f) < 2 ^ 64 \<longrightarrow>
     logged p (offered f) = logged p (received f) + logged p (logs (fd_subscriber f)) + unat (dropped_of (fd_subscriber f) p))"

definition conflated :: "nat \<Rightarrow> feed \<Rightarrow> bool" where
  "conflated capacity f \<longleftrightarrow> set (stateOrder (fd_subscriber f)) \<subseteq> state_keys (offered f) \<and>
     (card (state_keys (offered f)) \<le> capacity \<longrightarrow>
       (\<forall>k. last_with k (offered f) = (case map_of (states (fd_subscriber f)) k of Some e \<Rightarrow> Some e | None \<Rightarrow> last_with k (received f))))"

definition ordered :: "u64 \<Rightarrow> feed \<Rightarrow> bool" where
  "ordered sq f \<longleftrightarrow> sorted_wrt (<) (map ev_Sequence (received f)) \<and>
     (\<forall>r \<in> set (received f). ev_Sequence r \<le> sq \<and> (\<forall>e \<in> pending (fd_subscriber f). ev_Sequence r < ev_Sequence e)) \<and>
     (\<forall>e \<in> pending (fd_subscriber f). ev_Sequence e \<le> sq)"

definition feed_ok :: "nat \<Rightarrow> u64 \<Rightarrow> feed \<Rightarrow> bool" where
  "feed_ok capacity sq f \<longleftrightarrow> subscriber_ok capacity (fd_subscriber f) \<and> ordered sq f \<and> accounted f \<and> conflated capacity f"

lemma logged_simps [simp]:
  "logged p [] = 0" "logged p (es @ es') = logged p es + logged p es'"
  "logged p (e # es) = (if is_log e \<and> ev_PluginID e = p then weight e else 0) + logged p es"
  by (simp_all add: logged_def)

lemma last_with_snoc [simp]:
  "last_with k (es @ [e]) = (if is_state e \<and> state_key e = k then Some e else last_with k es)"
  by (simp add: last_with_def)

lemma state_keys_snoc [simp]: "state_keys (es @ [e]) = (if is_state e then insert (state_key e) (state_keys es) else state_keys es)"
  by (auto simp: state_keys_def)

lemma finite_state_keys [simp]: "finite (state_keys es)"
  by (simp add: state_keys_def)

lemma last_with_none: "k \<notin> state_keys es \<Longrightarrow> last_with k es = None"
  by (auto simp: last_with_def state_keys_def find_None_iff)

lemma dropped_update:
  "dropped_of (s\<lparr>droppedLog := AList.update p n (droppedLog s)\<rparr>) q = (if q = p then n else dropped_of s q)"
  "dropped_of (s\<lparr>droppedLog := AList.delete p (droppedLog s), logs := ls\<rparr>) q = (if q = p then 0 else dropped_of s q)"
  by (auto simp: dropped_of_def update_conv' AList.delete_conv')

lemma saturating_exact: "unat x + unat y < 2 ^ 64 \<Longrightarrow> unat (saturatingAddUint64 x y) = unat x + unat y"
proof -
  assume a: "unat x + unat y < 2 ^ 64"
  then have "\<not> max_u64 - x < y"
    by (simp add: word_less_nat_alt unat_sub unat_max_u64)
  then show ?thesis using a by (simp add: saturatingAddUint64_def unat_add_lem [where 'a = 64, simplified, THEN iffD1])
qed

lemma enqueue_fields:
  assumes "subscriber_ok capacity s" and "0 < capacity" and "\<not> is_log e"
  shows "logs (enqueue e capacity s) = logs s \<and> droppedLog (enqueue e capacity s) = droppedLog s"
proof (cases "is_state e")
  case True
  show ?thesis by (rule enqueue_state [OF assms(1,2) True]) simp
qed (simp add: enqueue_notice assms(3))

lemma enqueue_accounted:
  assumes "subscriber_ok capacity (fd_subscriber f)" and "0 < capacity" and "accounted f"
  shows "accounted (feed_enqueue capacity e f)"
proof -
  let ?s = "fd_subscriber f" let ?t = "enqueue e capacity ?s"
  have "logged p (offered f) + (if is_log e \<and> ev_PluginID e = p then weight e else 0) =
      logged p (received f) + logged p (logs ?t) + unat (dropped_of ?t p)"
    if small: "logged p (offered f) + (if is_log e \<and> ev_PluginID e = p then weight e else 0) < 2 ^ 64" for p
  proof -
    have eq: "logged p (offered f) = logged p (received f) + logged p (logs ?s) + unat (dropped_of ?s p)"
      using assms(3) small by (auto simp: accounted_def split: if_splits)
    show ?thesis
    proof (cases "is_log e")
      case False
      then show ?thesis using enqueue_fields [OF assms(1,2) False] eq by (simp add: dropped_of_def)
    next
      case log: True
      show ?thesis
      proof (cases "ev_PluginID e = p")
        case False
        then show ?thesis using eq log by (simp add: enqueue_log dropped_update dropped_of_def [of "?s\<lparr>logs := _\<rparr>"] flip: dropped_of_def)
      next
        case True
        have w: "Suc (unat (ev_Dropped e)) + unat (dropped_of ?s p) < 2 ^ 64" using small eq log True by (simp add: weight_def)
        then have 1: "unat (saturatingAddUint64 (ev_Dropped e) 1) = Suc (unat (ev_Dropped e))"
          using saturating_exact [of "ev_Dropped e" 1] by simp
        have 2: "unat (saturatingAddUint64 (dropped_of ?s p) (saturatingAddUint64 (ev_Dropped e) 1)) = unat (dropped_of ?s p) + Suc (unat (ev_Dropped e))"
          using saturating_exact [of "dropped_of ?s p" "saturatingAddUint64 (ev_Dropped e) 1"] w 1 by simp
        have 3: "weight (stored ?s e) = weight e + unat (dropped_of ?s p)"
          using saturating_exact [of "ev_Dropped e" "dropped_of ?s p"] w log True by (simp add: weight_def stored_def)
        have "dropped_of (?s\<lparr>droppedLog := droppedLog ?s, logs := l\<rparr>) p = dropped_of ?s p" for l by (simp add: dropped_of_def)
        then show ?thesis using eq log True 1 2 3 by (auto simp: enqueue_log dropped_update weight_def)
      qed
    qed
  qed
  then show ?thesis by (simp add: accounted_def feed_enqueue_def)
qed


lemma enqueue_conflated:
  assumes "subscriber_ok capacity (fd_subscriber f)" and "0 < capacity" and "conflated capacity f"
  shows "conflated capacity (feed_enqueue capacity e f)"
proof (cases "is_state e")
  case False
  have "states (enqueue e capacity (fd_subscriber f)) = states (fd_subscriber f)" "stateOrder (enqueue e capacity (fd_subscriber f)) = stateOrder (fd_subscriber f)"
    using False by (cases "is_log e"; simp add: enqueue_log enqueue_notice)+
  then show ?thesis using assms(3) False by (simp add: conflated_def feed_enqueue_def cong: option.case_cong)
next
  case True
  let ?s = "fd_subscriber f" let ?K = "state_keys (offered f)" let ?k = "state_key e"
  obtain base where base: "subscriber_ok capacity base" "set (stateOrder base) \<subseteq> set (stateOrder ?s)"
    "\<And>k. map_of (states base) k \<noteq> None \<Longrightarrow> map_of (states base) k = map_of (states ?s) k"
    "set (stateOrder base) = set (stateOrder ?s) \<or> ?k \<notin> set (stateOrder ?s) \<and> length (stateOrder ?s) = capacity"
    "enqueue e capacity ?s = base\<lparr>stateOrder := (if ?k \<in> set (stateOrder base) then stateOrder base else stateOrder base @ [?k]),
           states := AList.update ?k e (states base)\<rparr>"
    using enqueue_state [OF assms(1,2) True] by metis
  have keys: "set (stateOrder ?s) \<subseteq> ?K" and order: "distinct (stateOrder ?s)"
    using assms(1,3) by (simp_all add: conflated_def subscriber_ok_def)
  have ex: "map_of (states x) k = None \<longleftrightarrow> k \<notin> set (stateOrder x)" if "subscriber_ok capacity x" for k x
    using that by (simp add: subscriber_ok_def map_of_eq_None_iff)
  have "last_with k (offered f @ [e]) = (case map_of (AList.update ?k e (states base)) k of Some e \<Rightarrow> Some e | None \<Rightarrow> last_with k (received f))"
    if card: "card (insert ?k ?K) \<le> capacity" for k
  proof (cases "k = ?k")
    case False
    have "card ?K \<le> capacity" using card card_mono [of "insert ?k ?K" ?K] by (simp add: subset_insertI)
    then have IH: "last_with k (offered f) = (case map_of (states ?s) k of Some e \<Rightarrow> Some e | None \<Rightarrow> last_with k (received f))"
      using assms(3) by (simp add: conflated_def)
    have "set (stateOrder base) = set (stateOrder ?s)"
    proof (rule ccontr)
      assume "\<not> ?thesis"
      then have full: "?k \<notin> set (stateOrder ?s)" "length (stateOrder ?s) = capacity" using base(4) by auto
      then have "card (insert ?k (set (stateOrder ?s))) = Suc capacity" using order by (simp add: distinct_card)
      moreover have "card (insert ?k (set (stateOrder ?s))) \<le> card (insert ?k ?K)" using keys by (intro card_mono) auto
      ultimately show False using card by simp
    qed
    then have "map_of (states base) k = map_of (states ?s) k"
      using base(3) [of k] ex [OF base(1), of k] ex [OF assms(1), of k] by fastforce
    then show ?thesis using IH False by (simp add: True update_conv')
  qed (simp add: True update_conv')
  moreover have "set (stateOrder (enqueue e capacity ?s)) \<subseteq> insert ?k ?K" using keys base(2) by (auto simp: base(5))
  ultimately show ?thesis using True by (simp add: conflated_def feed_enqueue_def base(5) cong: option.case_cong)
qed

lemma enqueue_ordered:
  assumes "subscriber_ok capacity (fd_subscriber f)" and "0 < capacity" and "ordered sq f" and "sq < ev_Sequence e"
  shows "ordered (ev_Sequence e) (feed_enqueue capacity e f)"
proof -
  have "\<forall>x \<in> pending (fd_subscriber f). ev_Sequence x < ev_Sequence e" using assms(3,4) by (auto simp: ordered_def)
  then have "pending (enqueue e capacity (fd_subscriber f)) \<subseteq> insert (stored (fd_subscriber f) e) (pending (fd_subscriber f))"
    using enqueue_ok [OF assms(1,2)] by blast
  then show ?thesis using assms(3,4) by (fastforce simp: ordered_def feed_enqueue_def)
qed

lemma feed_enqueue_ok:
  assumes "feed_ok capacity sq f" and "0 < capacity" and "sq < ev_Sequence e"
  shows "feed_ok capacity (ev_Sequence e) (feed_enqueue capacity e f)"
proof -
  have "\<forall>x \<in> pending (fd_subscriber f). ev_Sequence x < ev_Sequence e" using assms(1,3) by (auto simp: feed_ok_def ordered_def)
  then have "subscriber_ok capacity (fd_subscriber (feed_enqueue capacity e f))"
    using enqueue_ok [OF _ assms(2)] assms(1) by (simp add: feed_ok_def feed_enqueue_def)
  then show ?thesis using assms enqueue_accounted enqueue_conflated enqueue_ordered [of capacity f sq e] by (simp add: feed_ok_def)
qed

lemma new_feed_ok: "feed_ok capacity sq \<lparr>fd_subscriber = new_subscriber, offered = [], received = []\<rparr>"
  by (simp add: feed_ok_def subscriber_ok_def new_subscriber_def ordered_def accounted_def conflated_def pending_def
      dropped_of_def last_with_def)

lemma receive_event_ok:
  assumes "feed_ok capacity sq f" and "snd (next_event (fd_subscriber f)) = Some e"
  shows "feed_ok capacity sq (receive_event e f)"
proof -
  let ?s = "fd_subscriber f" let ?t = "pop_event e ?s"
  have s: "subscriber_ok capacity ?s" "ordered sq f" "accounted f" "conflated capacity f" using assms(1) by (simp_all add: feed_ok_def)
  have least: "least_of (Some e) (pending ?s)" using next_event_least [OF s(1)] assms(2) by simp
  note pop = pending_pop [OF s(1) least]
  have inj: "inj_on ev_Sequence (pending ?s)" using s(1) by (simp add: subscriber_ok_def)
  have e: "e \<in> pending ?s" "\<forall>x \<in> pending ?s. ev_Sequence e \<le> ev_Sequence x" using least by (auto simp: least_of_def)
  have "ev_Sequence e < ev_Sequence x" if "x \<in> pending ?t" for x
  proof -
    have "x \<in> pending ?s" "x \<noteq> e" using that pop by auto
    then show ?thesis using e inj_onD [OF inj, of x e] by (metis order_le_imp_less_or_eq)
  qed
  then have "ordered sq (receive_event e f)"
    using s(2) e(1) pop by (auto simp: ordered_def receive_event_def sorted_wrt_append)
  moreover have "accounted (receive_event e f) \<and> conflated capacity (receive_event e f)"
    using pop_event_cases [OF s(1) least]
  proof (elim disjE conjE exE)
    fix rest assume "is_log e" "logs ?s = e # rest" "?t = ?s\<lparr>logs := rest\<rparr>"
    then show ?thesis using s(3,4) log_not_state
      by (auto simp: accounted_def conflated_def receive_event_def dropped_of_def cong: option.case_cong)
  next
    fix rest assume "\<not> is_state e" "\<not> is_log e" "notices ?s = e # rest" "?t = ?s\<lparr>notices := rest\<rparr>"
    then show ?thesis using s(3,4) by (auto simp: accounted_def conflated_def receive_event_def dropped_of_def cong: option.case_cong)
  next
    assume c: "is_state e" "map_of (states ?s) (state_key e) = Some e"
      "?t = ?s\<lparr>states := AList.delete (state_key e) (states ?s), stateOrder := remove1 (state_key e) (stateOrder ?s)\<rparr>"
    have "accounted (receive_event e f)"
      using s(3) c log_not_state by (auto simp: accounted_def receive_event_def dropped_of_def)
    moreover have "conflated capacity (receive_event e f)"
    proof -
      have del: "map_of (AList.delete (state_key e) (states ?s)) k = (if k = state_key e then None else map_of (states ?s) k)" for k
        by (simp add: AList.delete_conv')
      have "set (remove1 (state_key e) (stateOrder ?s)) \<subseteq> state_keys (offered f)"
        using s(4) set_remove1_subset by (fastforce simp: conflated_def)
      moreover have "last_with k (offered f) = (case map_of (AList.delete (state_key e) (states ?s)) k of Some x \<Rightarrow> Some x
          | None \<Rightarrow> last_with k (received f @ [e]))" if "card (state_keys (offered f)) \<le> capacity" for k
        using s(4) that c(1,2) by (cases "k = state_key e") (simp_all add: conflated_def del cong: option.case_cong)
      ultimately show ?thesis using c(3) by (simp add: conflated_def receive_event_def cong: option.case_cong)
    qed
    ultimately show ?thesis by blast
  qed
  ultimately show ?thesis using pop by (simp add: feed_ok_def receive_event_def)
qed

section \<open>The invariant of the hub\<close>

definition hub_ok :: "event_hub \<Rightarrow> bool" where
  "hub_ok h \<longleftrightarrow> 0 < hub_capacity h \<and> length (publish_queue h) \<le> maxEventCommands (hub_capacity h) \<and>
     unat (hub_sequence h) = dispatched h \<and> distinct (map fst (subscribers h)) \<and> (\<forall>(i, f) \<in> set (subscribers h). feed_ok (hub_capacity h) (hub_sequence h) f)"

lemma selectCases_ok:
  assumes "hub_ok h"
  shows "fst (selectCases h) = h"
proof -
  have "map (map_prod id (\<lambda>f. f\<lparr>fd_subscriber := fst (next_event (fd_subscriber f))\<rparr>)) (subscribers h) = subscribers h"
  proof (rule map_idI)
    fix x assume x: "x \<in> set (subscribers h)"
    then have "subscriber_ok (hub_capacity h) (fd_subscriber (snd x))" using assms by (cases x) (auto simp: hub_ok_def feed_ok_def)
    then show "map_prod id (\<lambda>f. f\<lparr>fd_subscriber := fst (next_event (fd_subscriber f))\<rparr>) x = x"
      using next_event_least by (cases x) simp
  qed
  then show ?thesis by (simp add: selectCases_def)
qed

lemma dispatch_ok:
  assumes "hub_ok h" and "dispatched h < 2 ^ 64 - 1" and "publish_queue h \<noteq> []"
  shows "hub_ok (hub_dispatch now h)"
proof -
  have "unat (hub_sequence h) < 2 ^ 64 - 1" using assms(1,2) by (simp add: hub_ok_def)
  then have sq: "hub_sequence h < max_u64" by (simp add: word_less_nat_alt unat_max_u64)
  then have next_sq: "unat (hub_sequence h + 1) = Suc (dispatched h)" "hub_sequence h < hub_sequence h + 1"
    using succ_u64 succ_u64_greater assms(1) by (simp_all add: hub_ok_def)
  have "feed_ok (hub_capacity h) (hub_sequence h + 1) (feed_enqueue (hub_capacity h) e f)"
    if "(i, f) \<in> set (subscribers h)" "ev_Sequence e = hub_sequence h + 1" for i f e
    using feed_enqueue_ok [of "hub_capacity h" "hub_sequence h" f e] assms(1) that next_sq(2) by (auto simp: hub_ok_def)
  then show ?thesis using assms(1,3) next_sq(1)
    by (cases "publish_queue h") (auto simp: hub_ok_def hub_dispatch_def dispatch_def Let_def)
qed

lemma hub_step_dispatched: "hub_step h h' \<Longrightarrow> dispatched h \<le> dispatched h' \<and> hub_capacity h' = hub_capacity h"
  by (erule hub_stepE) (auto simp: hub_Publish_def hub_dispatch_def dispatch_def hub_subscribe_def hub_remove_def hub_deliver_def
      selectCases_def Let_def split: list.splits prod.splits)

lemma hub_step_ok:
  assumes "hub_step h h'" and "hub_ok h" and "dispatched h' < 2 ^ 64"
  shows "hub_ok h'"
  using assms(1)
proof cases
  case (dispatch now)
  then have "dispatched h < 2 ^ 64 - 1" using assms(3) by (cases "publish_queue h") (auto simp: hub_dispatch_def dispatch_def Let_def)
  then show ?thesis using dispatch_ok assms(2) dispatch by blast
next
  case (deliver h1 targets target)
  then have h1: "h1 = h" using selectCases_ok [OF assms(2)] by simp
  obtain i e where t: "target = (i, e)" by fastforce
  have "feed_ok (hub_capacity h) (hub_sequence h) (receive_event e f)" if "(i, f) \<in> set (subscribers h)" "snd (next_event (fd_subscriber f)) = Some e" for f
    using receive_event_ok assms(2) that by (auto simp: hub_ok_def)
  moreover have "\<exists>f. (i, f) \<in> set (subscribers h) \<and> snd (next_event (fd_subscriber f)) = Some e"
    using deliver(3,4) t by (auto simp: selectCases_def map_filter_def split: option.splits) blast
  ultimately have "feed_ok (hub_capacity h) (hub_sequence h) (receive_event e f)" if "(i, f) \<in> set (subscribers h)" for f
    using that assms(2) by (auto simp: hub_ok_def dest: eq_key_imp_eq_value)
  moreover have "fst \<circ> (\<lambda>(j, f). (j, if j = i then receive_event e f else f)) = fst" by (auto simp: fun_eq_iff)
  ultimately show ?thesis using assms(2) unfolding deliver(1) h1 t hub_ok_def hub_deliver_def by auto
qed (use assms(2) new_feed_ok in \<open>auto simp: hub_ok_def hub_Publish_def hub_subscribe_def hub_remove_def AList.delete_eq distinct_map_filter split: if_splits\<close>)


lemma hub_reachable_ok:
  assumes "hub_reachable capacity h" and "dispatched h < 2 ^ 64"
  shows "hub_ok h \<and> hub_capacity h = nat (max capacity 1)"
  using assms
proof (induction rule: hub_reachable.induct)
  case start
  then show ?case by (auto simp: hub_ok_def newEventHub_def max_def)
next
  case (step h h')
  then show ?case using hub_step_dispatched [OF step.hyps(2)] hub_step_ok [OF step.hyps(2)] by auto
qed

section \<open>Properties\<close>

text \<open>C24 (safety). Whatever the interleaving of publishers, subscribers and the hub's goroutine, a
  subscriber receives events in strictly increasing order of their sequence numbers, so none twice,
  and what still waits for it is newer; and every buffer, the publish queue included, stays within
  its capacity, however slow the subscriber is. It takes less than 2^64 events, after which the
  numbers wrap.\<close>

theorem events_in_order:
  assumes "hub_reachable capacity h" and "dispatched h < 2 ^ 64" and "(i, f) \<in> set (subscribers h)"
  shows "sorted_wrt (<) (map ev_Sequence (received f)) \<and>
    (\<forall>r \<in> set (received f). \<forall>e \<in> pending (fd_subscriber f). ev_Sequence r < ev_Sequence e) \<and>
    length (publish_queue h) \<le> maxEventCommands (hub_capacity h) \<and>
    length (logs (fd_subscriber f)) \<le> hub_capacity h \<and> length (notices (fd_subscriber f)) \<le> hub_capacity h \<and>
    length (states (fd_subscriber f)) \<le> hub_capacity h"
proof -
  have ok: "hub_ok h" "feed_ok (hub_capacity h) (hub_sequence h) f"
    using hub_reachable_ok [OF assms(1,2)] assms(3) by (auto simp: hub_ok_def)
  then have "distinct (map fst (states (fd_subscriber f)))" "distinct (stateOrder (fd_subscriber f))"
      "set (stateOrder (fd_subscriber f)) = set (map fst (states (fd_subscriber f)))"
    by (simp_all add: feed_ok_def subscriber_ok_def)
  then have "length (states (fd_subscriber f)) = length (stateOrder (fd_subscriber f))"
    using distinct_card [of "map fst (states (fd_subscriber f))"] distinct_card [of "stateOrder (fd_subscriber f)"] by simp
  then show ?thesis using ok by (simp add: hub_ok_def feed_ok_def ordered_def subscriber_ok_def)
qed

text \<open>No loss of logs is silent: for each plugin, the logs a subscriber has received and
  those waiting for it, counted with the numbers of dropped logs they carry, and the drops not yet
  reported add up to the logs dispatched since it subscribed, as long as these are less than 2^64.\<close>

theorem logs_accounted_for:
  assumes "hub_reachable capacity h" and "dispatched h < 2 ^ 64" and "(i, f) \<in> set (subscribers h)"
    and "logged p (offered f) < 2 ^ 64"
  shows "logged p (received f) + logged p (logs (fd_subscriber f)) + unat (dropped_of (fd_subscriber f) p) = logged p (offered f)"
  using hub_reachable_ok [OF assms(1,2)] assms(3,4) by (auto simp: hub_ok_def feed_ok_def accounted_def)

text \<open>C25 (liveness). A subscriber loses no newest state: as long as the plugins' states and statuses
  together are not more than the capacity, what waits for a plugin and kind is the last event of
  them that was dispatched, and if nothing of them waits the last one received is. In particular,
  when nothing at all waits for it, the subscriber has received the present state and status of
  every plugin. With more states than the capacity the oldest waiting one is evicted instead.\<close>

theorem states_up_to_date:
  assumes "hub_reachable capacity h" and "dispatched h < 2 ^ 64" and "(i, f) \<in> set (subscribers h)"
    and "card (state_keys (offered f)) \<le> hub_capacity h"
  shows "last_with k (offered f) = (case map_of (states (fd_subscriber f)) k of Some e \<Rightarrow> Some e | None \<Rightarrow> last_with k (received f)) \<and>
    (snd (next_event (fd_subscriber f)) = None \<longrightarrow> last_with k (received f) = last_with k (offered f))"
proof -
  have ok: "feed_ok (hub_capacity h) (hub_sequence h) f"
    using hub_reachable_ok [OF assms(1,2)] assms(3) by (auto simp: hub_ok_def)
  then have all: "last_with k (offered f) = (case map_of (states (fd_subscriber f)) k of Some e \<Rightarrow> Some e | None \<Rightarrow> last_with k (received f))"
    using assms(4) by (simp add: feed_ok_def conflated_def)
  have "states (fd_subscriber f) = []" if "snd (next_event (fd_subscriber f)) = None"
  proof -
    have "least_of None (pending (fd_subscriber f))" using next_event_least ok that by (fastforce simp: feed_ok_def)
    then show ?thesis by (simp add: least_of_def pending_def)
  qed
  then show ?thesis using all by auto
qed

section \<open>Examples\<close>

definition sample_event :: "event_type \<Rightarrow> event" where
  "sample_event t = \<lparr>ev_Sequence = 0, ev_Time = None, ev_Type = t, ev_PluginID = ''p'', ev_Snapshot = None, ev_Status = None,
     ev_Log = None, ev_Dropped = 0\<rparr>"

definition sample_hub :: event_hub where
  \<comment> \<open>of capacity 1, with one subscriber that received a state and missed a log\<close>
  "sample_hub = hub_deliver (0, (sample_event EventPluginStateChanged)\<lparr>ev_Sequence := 1, ev_Time := Some 9\<rparr>)
     (hub_dispatch 9 (hub_dispatch 9 (hub_dispatch 9 (fst (hub_Publish (sample_event EventPluginLog) (fst (hub_Publish (sample_event EventPluginLog)
       (fst (hub_Publish (sample_event EventPluginStateChanged) (hub_subscribe 0 (newEventHub 1)))))))))))"

definition sample_feed :: feed where
  "sample_feed = (let log = (\<lambda>n. (sample_event EventPluginLog)\<lparr>ev_Sequence := n, ev_Time := Some 9\<rparr>);
       st = (sample_event EventPluginStateChanged)\<lparr>ev_Sequence := 1, ev_Time := Some 9\<rparr> in
     \<lparr>fd_subscriber = new_subscriber\<lparr>logs := [log 2], droppedLog := [(''p'', 1)]\<rparr>, offered = [st, log 2, log 3], received = [st]\<rparr>)"

lemma sample_events_reachable: "hub_reachable 1 sample_hub \<and> dispatched sample_hub = 3 \<and> subscribers sample_hub = [(0, sample_feed)]"
proof -
  let ?q = "fst (hub_Publish (sample_event EventPluginLog) (fst (hub_Publish (sample_event EventPluginLog)
       (fst (hub_Publish (sample_event EventPluginStateChanged) (hub_subscribe 0 (newEventHub 1)))))))"
  let ?h = "hub_dispatch 9 (hub_dispatch 9 (hub_dispatch 9 ?q))"
  have q: "hub_reachable 1 ?q" by (intro hub_reachable.step [OF _ hub_step.publish] hub_reachable.step [OF hub_reachable.start hub_step.subscribe])
    (simp_all add: newEventHub_def)
  have "\<not> hub_done ?q \<and> publish_queue ?q \<noteq> [] \<and> \<not> hub_done (hub_dispatch 9 ?q) \<and> publish_queue (hub_dispatch 9 ?q) \<noteq> [] \<and>
      \<not> hub_done (hub_dispatch 9 (hub_dispatch 9 ?q)) \<and> publish_queue (hub_dispatch 9 (hub_dispatch 9 ?q)) \<noteq> [] \<and> \<not> hub_done ?h"
    by code_simp
  then have h: "hub_reachable 1 ?h" "\<not> hub_done ?h" using q by (meson hub_reachable.step hub_step.dispatch)+
  let ?t = "(0, (sample_event EventPluginStateChanged)\<lparr>ev_Sequence := 1, ev_Time := Some 9\<rparr>)"
  have "snd (selectCases ?h) = [?t]" "fst (selectCases ?h) = ?h" by code_simp+
  then have "selectCases ?h = (?h, [?t])" by (metis prod.collapse)
  then have "hub_step ?h sample_hub" unfolding sample_hub_def by (rule hub_step.deliver [OF h(2)]) simp
  moreover have "dispatched sample_hub = 3 \<and> subscribers sample_hub = [(0, sample_feed)]" by code_simp
  ultimately show ?thesis using h(1) hub_reachable.step by blast
qed

theorem events_in_order_witness:
  "sorted_wrt (<) (map ev_Sequence (received sample_feed)) \<and> length (logs (fd_subscriber sample_feed)) \<le> hub_capacity sample_hub"
  using events_in_order [of 1 sample_hub 0 sample_feed] sample_events_reachable by simp

theorem logs_accounted_for_witness:
  "logged ''p'' (received sample_feed) + logged ''p'' (logs (fd_subscriber sample_feed)) + unat (dropped_of (fd_subscriber sample_feed) ''p'') =
    logged ''p'' (offered sample_feed)"
proof -
  have "logged ''p'' (offered sample_feed) = 2" by code_simp
  then show ?thesis using logs_accounted_for [of 1 sample_hub 0 sample_feed "''p''"] sample_events_reachable by simp
qed

theorem states_up_to_date_witness:
  "\<exists>h f. hub_reachable 1 h \<and> (0, f) \<in> set (subscribers h) \<and>
    last_with (state_key (sample_event EventPluginStateChanged)) (received f) = last_with (state_key (sample_event EventPluginStateChanged)) (offered f)"
proof -
  let ?t = "(0 :: nat, hd (logs (fd_subscriber sample_feed)))"
  let ?h = "hub_deliver ?t sample_hub" let ?f = "receive_event (snd ?t) sample_feed"
  have sample: "\<not> hub_done sample_hub" "snd (selectCases sample_hub) = [?t]" "fst (selectCases sample_hub) = sample_hub"
    "card (state_keys (offered ?f)) = 1" "snd (next_event (fd_subscriber ?f)) = None"
    by code_simp+
  then have "selectCases sample_hub = (sample_hub, [?t])" by (metis prod.collapse)
  then have "hub_step sample_hub ?h" by (rule hub_step.deliver [OF sample(1)]) simp
  then have h: "hub_reachable 1 ?h" using sample_events_reachable hub_reachable.step by blast
  have f: "dispatched ?h = 3" "subscribers ?h = [(0, ?f)]"
    using sample_events_reachable by (simp_all add: hub_deliver_def)
  then have "card (state_keys (offered ?f)) \<le> hub_capacity ?h"
    using sample(4) hub_reachable_ok [OF h] by simp
  then show ?thesis using states_up_to_date [OF h, of 0 ?f] f sample(5) h by (intro exI [of _ ?h] exI [of _ ?f]) simp
qed

end
