(* ===== verification/Handshake.thy ===== *)
theory Handshake
  imports Control
begin

text \<open>
  internal/plugins/manifest.go and handshake.go: a plugin's manifest, the paths it is launched from,
  and the host's side of the handshake of a session. The syntax of paths and the file system are
  those of the operating system, given by a record of functions. base64 is the standard library's
  raw URL encoding, decoded strictly.
\<close>

section \<open>Manifests\<close>

record manifest =
  SchemaVersion :: int
  mf_ID :: string
  mf_Name :: string
  mf_Version :: string
  mf_Description :: string
  mf_ProtocolMin :: u16
  mf_ProtocolMax :: u16
  Entrypoint :: string
  mf_Capabilities :: capability

record path_ops =
  IsAbs :: "string \<Rightarrow> bool"
  VolumeName :: "string \<Rightarrow> string"
  path_Separator :: char
  path_Abs :: "string \<Rightarrow> string option"
  EvalSymlinks :: "string \<Rightarrow> string option"
  path_Join :: "string \<Rightarrow> string \<Rightarrow> string"
  path_Rel :: "string \<Rightarrow> string \<Rightarrow> string option"
  is_dir :: "string \<Rightarrow> bool" \<comment> \<open>Stat succeeds and it is a directory\<close>
  is_regular :: "string \<Rightarrow> bool" \<comment> \<open>Stat succeeds and it is a regular file\<close>

datatype entrypoint_error = EntryEmpty | EntryNUL | EntryAbsolute | EntryTraversal | RootInvalid | RootUnresolved | RootNoDirectory
  | ExecutableUnresolved | ExecutableInvalid | ExecutableEscapes | ExecutableIrregular

fun split_chars :: "(char \<Rightarrow> bool) \<Rightarrow> string \<Rightarrow> string list" where
  "split_chars p [] = [[]]"
| "split_chars p (c # cs) = (if p c then [] # split_chars p cs else (case split_chars p cs of w # ws \<Rightarrow> (c # w) # ws | [] \<Rightarrow> [[c]]))"

definition fields_func :: "(char \<Rightarrow> bool) \<Rightarrow> string \<Rightarrow> string list" where
  \<comment> \<open>strings.FieldsFunc: the words between the separators\<close>
  "fields_func p s = filter (\<lambda>w. w \<noteq> []) (split_chars p s)"

definition validateEntrypoint :: "path_ops \<Rightarrow> string \<Rightarrow> (entrypoint_error, unit) result" where
  "validateEntrypoint os entry =
     guard_result (entry = []) EntryEmpty
    (guard_result (CHR 0x00 \<in> set entry) EntryNUL
    (guard_result (IsAbs os entry \<or> VolumeName os entry \<noteq> [] \<or> has_prefix entry [CHR 0x5C, CHR 0x5C] \<or> has_prefix entry ''//'') EntryAbsolute
    (guard_result (''..'' \<in> set (fields_func (\<lambda>c. c = CHR ''/'' \<or> c = CHR 0x5C) entry)) EntryTraversal (Inr ()))))"

definition isContainedPath :: "path_ops \<Rightarrow> string \<Rightarrow> string \<Rightarrow> bool option" where
  "isContainedPath os root_dir target = (case path_Rel os root_dir target of None \<Rightarrow> None
   | Some relative \<Rightarrow> Some (relative \<noteq> ''..'' \<and> \<not> has_prefix relative (''..'' @ [path_Separator os])))"

definition orelse :: "'a option \<Rightarrow> 'e \<Rightarrow> ('a \<Rightarrow> ('e, 'b) result) \<Rightarrow> ('e, 'b) result" where
  \<comment> \<open>if err != nil, that error\<close>
  "orelse x e k = (case x of None \<Rightarrow> Inl e | Some v \<Rightarrow> k v)"

definition resolveLaunchPaths :: "path_ops \<Rightarrow> string \<Rightarrow> string \<Rightarrow> (entrypoint_error, string \<times> string) result" where
  "resolveLaunchPaths os rootDir entry =
     bind_result (validateEntrypoint os entry) (\<lambda>_.
     orelse (path_Abs os rootDir) RootInvalid (\<lambda>absoluteRoot.
     orelse (EvalSymlinks os absoluteRoot) RootUnresolved (\<lambda>canonicalRoot.
     orelse (path_Abs os canonicalRoot) RootInvalid (\<lambda>canonicalRoot.
     guard_result (\<not> is_dir os canonicalRoot) RootNoDirectory (
     orelse (EvalSymlinks os (path_Join os canonicalRoot entry)) ExecutableUnresolved (\<lambda>canonicalExecutable.
     orelse (path_Abs os canonicalExecutable) ExecutableInvalid (\<lambda>canonicalExecutable.
     guard_result (isContainedPath os canonicalRoot canonicalExecutable \<noteq> Some True) ExecutableEscapes (
     guard_result (\<not> is_regular os canonicalExecutable) ExecutableIrregular (
     Inr (canonicalRoot, canonicalExecutable))))))))))"

definition resolveEntrypoint :: "path_ops \<Rightarrow> string \<Rightarrow> string \<Rightarrow> (entrypoint_error, string) result" where
  "resolveEntrypoint os rootDir entry = bind_result (resolveLaunchPaths os rootDir entry) (\<lambda>(_, executable). Inr executable)"

datatype manifest_error = BadSchema | BadIdentity descriptor_error | NameTooLong | BlankDescription | DescriptionTooLong | ProtocolRange
  | BadEntrypoint entrypoint_error

definition PluginAPIVersion :: u16 where "PluginAPIVersion = 1"

definition manifest_descriptor :: "manifest \<Rightarrow> descriptor" where
  "manifest_descriptor m = \<lparr>APIVersion = PluginAPIVersion, desc_ID = mf_ID m, desc_Name = mf_Name m, desc_Version = mf_Version m,
     desc_Description = mf_Description m, desc_Capabilities = mf_Capabilities m\<rparr>"

definition manifest_validate :: "path_ops \<Rightarrow> manifest \<Rightarrow> (manifest_error, unit) result" where
  "manifest_validate os m =
     guard_result (SchemaVersion m \<noteq> 1) BadSchema
    (case descriptor_validate (manifest_descriptor m) of Inl e \<Rightarrow> Inl (BadIdentity e) | Inr _ \<Rightarrow>
     guard_result (256 < length (mf_Name m)) NameTooLong
    (guard_result (blank (mf_Description m)) BlankDescription
    (guard_result (4096 < length (mf_Description m)) DescriptionTooLong
    (guard_result (ProtocolVersion < mf_ProtocolMin m \<or> mf_ProtocolMax m < ProtocolVersion) ProtocolRange
    (case validateEntrypoint os (Entrypoint m) of Inl e \<Rightarrow> Inl (BadEntrypoint e) | Inr _ \<Rightarrow> Inr ())))))"

section \<open>Tokens\<close>

definition b64_char :: "nat \<Rightarrow> char" where
  "b64_char n = char_of (if n < 26 then 65 + n else if n < 52 then 71 + n else if n < 62 then n - 4 else if n = 62 then 45 else 95 :: nat)"

definition b64_value :: "char \<Rightarrow> nat option" where
  "b64_value c = (let n = of_char c :: nat in
     if 65 \<le> n \<and> n \<le> 90 then Some (n - 65) else if 97 \<le> n \<and> n \<le> 122 then Some (n - 71) else if 48 \<le> n \<and> n \<le> 57 then Some (n + 4)
     else if n = 45 then Some 62 else if n = 95 then Some 63 else None)"

fun encode_quanta :: "nat list \<Rightarrow> nat list" where
  \<comment> \<open>bytes to groups of six bits, without padding\<close>
  "encode_quanta [] = []"
| "encode_quanta [a] = [a div 4, a mod 4 * 16]"
| "encode_quanta [a, b] = [a div 4, a mod 4 * 16 + b div 16, b mod 16 * 4]"
| "encode_quanta (a # b # c # rest) = [a div 4, a mod 4 * 16 + b div 16, b mod 16 * 4 + c div 64, c mod 64] @ encode_quanta rest"

fun decode_quanta :: "nat list \<Rightarrow> nat list \<times> bool" where
  \<comment> \<open>the bytes of the complete quanta; strictly, the bits left over are zero\<close>
  "decode_quanta [] = ([], True)"
| "decode_quanta [a] = ([], False)"
| "decode_quanta [a, b] = (if b mod 16 \<noteq> 0 then ([], False) else ([a * 4 + b div 16], True))"
| "decode_quanta [a, b, c] = (if c mod 4 \<noteq> 0 then ([], False) else ([a * 4 + b div 16, b mod 16 * 16 + c div 4], True))"
| "decode_quanta (a # b # c # d # rest) =
     (case decode_quanta rest of (bs, ok) \<Rightarrow> ([a * 4 + b div 16, b mod 16 * 16 + c div 4, c mod 4 * 64 + d] @ bs, ok))"

definition b64_encode :: "bytes \<Rightarrow> string" where
  \<comment> \<open>base64.RawURLEncoding.EncodeToString\<close>
  "b64_encode bs = map b64_char (encode_quanta (map of_char bs))"

definition b64_decode :: "string \<Rightarrow> bytes \<times> bool" where
  \<comment> \<open>base64.RawURLEncoding.Strict().DecodeString, which skips line ends: the bytes written, and no error\<close>
  "b64_decode s =
    (let vs = map b64_value (filter (\<lambda>c. c \<noteq> CHR 0x0A \<and> c \<noteq> CHR 0x0D) s)
     in if None \<in> set vs then
          (let good = map the (takeWhile (\<lambda>v. v \<noteq> None) vs) in (map char_of (fst (decode_quanta (take (4 * (length good div 4)) good))), False))
        else (case decode_quanta (map the vs) of (bs, ok) \<Rightarrow> (map char_of bs, ok)))"

definition sessionTokenSize :: nat where "sessionTokenSize = 32"

definition decodeSessionToken :: "string \<Rightarrow> bytes \<times> bool" where
  "decodeSessionToken token =
    (let (decoded, ok) = b64_decode token;
         decodedToken = take sessionTokenSize (decoded @ replicate sessionTokenSize (CHR 0x00))
     in (decodedToken, length decoded = sessionTokenSize \<and> token = b64_encode decodedToken \<and> ok))"

section \<open>The handshake\<close>

datatype conn_error = ConnDeadline | ConnMalformedFrame | ConnFrameTooLarge | ConnFailed string

datatype handshake_error = Handshake plugin_error | OpaqueHandshakeCause conn_error

record hs_conn =
  \<comment> \<open>what the connection does at each of its three uses, and whether the context's deadline has passed by then\<close>
  hs_hello :: "(conn_error, message) result"
  hs_send :: "conn_error option"
  hs_ready :: "(conn_error, message) result"
  late_hello :: bool
  late_send :: bool
  late_ready :: bool

definition handshakeConnectionError :: "bool \<Rightarrow> conn_error \<Rightarrow> handshake_error" where
  "handshakeConnectionError late e = (if e = ConnDeadline \<or> late then Handshake ErrHandshakeTimeout else OpaqueHandshakeCause e)"

definition isProtocolFramingError :: "conn_error \<Rightarrow> bool" where
  "isProtocolFramingError e \<longleftrightarrow> e = ConnMalformedFrame \<or> e = ConnFrameTooLarge"

definition handshakeReceiveError :: "bool \<Rightarrow> conn_error \<Rightarrow> handshake_error" where
  "handshakeReceiveError late e =
    (if e = ConnDeadline \<or> late then handshakeConnectionError late e
     else if isProtocolFramingError e then Handshake ErrProtocolViolation else handshakeConnectionError late e)"

definition helloProtocolCompatible :: "u16 \<Rightarrow> u16 \<Rightarrow> manifest \<Rightarrow> bool" where
  "helloProtocolCompatible lo hi m =
    (if lo > hi \<or> lo > ProtocolVersion \<or> hi < ProtocolVersion then False
     else if mf_ProtocolMin m > mf_ProtocolMax m \<or> mf_ProtocolMin m > ProtocolVersion \<or> mf_ProtocolMax m < ProtocolVersion then False
     else lo \<le> mf_ProtocolMax m \<and> mf_ProtocolMin m \<le> hi)"

definition descriptorMatchesManifest :: "descriptor \<Rightarrow> manifest \<Rightarrow> bool" where
  "descriptorMatchesManifest d m \<longleftrightarrow> desc_ID d = mf_ID m \<and> desc_Version d = mf_Version m \<and> desc_Capabilities d = mf_Capabilities m"

definition cloneStartup :: "plugin_startup \<Rightarrow> plugin_startup" where
  "cloneStartup s = s\<lparr>startup_Config := config_clone (startup_Config s)\<rparr>"

definition await_ready :: "hs_conn \<Rightarrow> descriptor \<Rightarrow> (handshake_error, descriptor) result" where
  \<comment> \<open>hostHandshake's end\<close>
  "await_ready c d = (case hs_ready c of
     Inl e \<Rightarrow> Inl (handshakeReceiveError (late_ready c) e)
   | Inr m \<Rightarrow>
       if msg_Version m \<noteq> ProtocolVersion \<or> msg_Type m \<noteq> MessageReady then Inl (Handshake ErrProtocolViolation)
       else if msg_Payload m \<noteq> Ready then Inl (Handshake ErrProtocolViolation)
       else Inr d)"

definition hello_fields :: "message \<Rightarrow> (string \<times> descriptor \<times> u16 \<times> u16) option" where
  "hello_fields m = (case msg_Payload m of
     Hello token d lo hi \<Rightarrow> if msg_Version m \<noteq> ProtocolVersion \<or> msg_Type m \<noteq> MessageHello then None else Some (token, d, lo, hi)
   | _ \<Rightarrow> None)"

definition hostHandshake :: "(payload \<Rightarrow> bytes option) \<Rightarrow> hs_conn option \<Rightarrow> manifest \<Rightarrow> string \<Rightarrow> plugin_startup \<Rightarrow>
    message list \<times> (handshake_error, descriptor) result" where
  \<comment> \<open>the messages it sent, and its result; no connection if the context or the connection is nil\<close>
  "hostHandshake encode conn m token startup = (case conn of None \<Rightarrow> ([], Inl (Handshake ErrProtocolViolation))
   | Some c \<Rightarrow> (case hs_hello c of
       Inl e \<Rightarrow> ([], Inl (handshakeReceiveError (late_hello c) e))
     | Inr message \<Rightarrow> (case hello_fields message of
         None \<Rightarrow> ([], Inl (Handshake ErrProtocolViolation))
       | Some (provided, d, lo, hi) \<Rightarrow>
           if \<not> (snd (decodeSessionToken token) \<and> snd (decodeSessionToken provided) \<and> fst (decodeSessionToken token) = fst (decodeSessionToken provided))
           then ([], Inl (Handshake ErrAuthenticationFailed))
           else if \<not> helloProtocolCompatible lo hi m then ([], Inl (Handshake ErrProtocolIncompatible))
           else if \<not> is_ok (descriptor_validate d) \<or> \<not> descriptorMatchesManifest d m then ([], Inl (Handshake ErrDescriptorMismatch))
           else (case NewMessage encode (Initialize (cloneStartup startup)) of
               Inl _ \<Rightarrow> ([], Inl (Handshake ErrProtocolViolation))
             | Inr initialize \<Rightarrow> ([initialize], (case hs_send c of
                   Some e \<Rightarrow> Inl (handshakeConnectionError (late_send c) e)
                 | None \<Rightarrow> await_ready c d))))))"

section \<open>base64\<close>

lemma b64_value_char [simp]: "n < 64 \<Longrightarrow> b64_value (b64_char n) = Some n"
  by (auto simp: b64_value_def b64_char_def Let_def)

lemma b64_char_plain: "n < 64 \<Longrightarrow> b64_char n \<noteq> CHR 0x0A \<and> b64_char n \<noteq> CHR 0x0D"
  using b64_value_char [of n] by (auto simp: b64_value_def)

lemma encode_quanta_small: "\<forall>b \<in> set bs. b < 256 \<Longrightarrow> \<forall>s \<in> set (encode_quanta bs). s < 64"
  by (induction bs rule: encode_quanta.induct) auto

lemma decode_encode_quanta: "\<forall>b \<in> set bs. b < 256 \<Longrightarrow> decode_quanta (encode_quanta bs) = (bs, True)"
  by (induction bs rule: encode_quanta.induct) auto

lemma b64_roundtrip: "b64_decode (b64_encode bs) = (bs, True)"
proof -
  have bytes: "\<forall>b \<in> set (map of_char bs). b < (256 :: nat)" by auto
  have small: "\<forall>s \<in> set (encode_quanta (map of_char bs)). s < (64 :: nat)" by (rule encode_quanta_small [OF bytes])
  have "filter (\<lambda>c. c \<noteq> CHR 0x0A \<and> c \<noteq> CHR 0x0D) (b64_encode bs) = b64_encode bs"
    using small by (auto simp: b64_encode_def b64_char_plain filter_id_conv)
  moreover have "map b64_value (b64_encode bs) = map Some (encode_quanta (map of_char bs))"
    using small by (simp add: b64_encode_def)
  ultimately have "b64_decode (b64_encode bs) = (case decode_quanta (encode_quanta (map of_char bs)) of (bs, ok) \<Rightarrow> (map char_of bs, ok))"
    by (simp add: b64_decode_def Let_def image_iff o_def)
  then show ?thesis by (simp add: decode_encode_quanta [OF bytes] o_def)
qed

lemma token_valid:
  "snd (decodeSessionToken token) \<longleftrightarrow> (\<exists>bs. length bs = 32 \<and> token = b64_encode bs)"
  "length bs = 32 \<Longrightarrow> decodeSessionToken (b64_encode bs) = (bs, True)"
proof -
  show decode: "decodeSessionToken (b64_encode bs) = (bs, True)" if "length bs = 32" for bs
    using that by (simp add: decodeSessionToken_def b64_roundtrip sessionTokenSize_def)
  show "snd (decodeSessionToken token) \<longleftrightarrow> (\<exists>bs. length bs = 32 \<and> token = b64_encode bs)"
  proof
    assume "snd (decodeSessionToken token)"
    then show "\<exists>bs. length bs = 32 \<and> token = b64_encode bs"
      by (auto simp: decodeSessionToken_def sessionTokenSize_def Let_def split: prod.splits)
  qed (use decode in auto)
qed

section \<open>Properties\<close>

text \<open>C19 (roundtrip). A session token is valid exactly if it is the raw URL base64 text of 32 bytes, and then those bytes are
  what it decodes to: no other text stands for the same bytes, neither one with line ends in it nor one whose last
  character carries stray bits.\<close>

theorem token_canonical:
  "(snd (decodeSessionToken token) \<longleftrightarrow> token \<in> b64_encode ` {bs. length bs = 32}) \<and>
   (length bs = 32 \<longrightarrow> decodeSessionToken (b64_encode bs) = (bs, True)) \<and> b64_decode (b64_encode cs) = (cs, True)"
  using token_valid b64_roundtrip by auto

theorem token_canonical_witness:
  "decodeSessionToken (b64_encode (replicate 32 CHR ''a'')) = (replicate 32 CHR ''a'', True)"
  using token_canonical [where bs = "replicate 32 CHR ''a''"] by simp

lemma hello_fields_Some: "hello_fields m = Some (token, d, lo, hi) \<longleftrightarrow>
    msg_Version m = ProtocolVersion \<and> msg_Type m = MessageHello \<and> msg_Payload m = Hello token d lo hi"
  by (auto simp: hello_fields_def split: payload.splits)

lemma same_token:
  "snd (decodeSessionToken a) \<and> snd (decodeSessionToken b) \<and> fst (decodeSessionToken a) = fst (decodeSessionToken b) \<longleftrightarrow>
   a = b \<and> snd (decodeSessionToken a)"
  using token_valid by (metis fst_conv)

text \<open>C17 (safety). The host accepts a session exactly if the first message is a Hello of this version with the session's
  token, letter for letter, whose protocol range fits, whose descriptor is valid and has the manifest's identifier, version
  and capabilities; if the start-up state makes a message that the connection takes; and if a Ready answers it. A peer that
  has not shown the token, the range and the descriptor is sent nothing, so the start-up state does not leak.\<close>

theorem handshake_accepts:
  "hostHandshake encode (Some c) m token startup = (sent, Inr d) \<longleftrightarrow>
     (\<exists>hello lo hi initialize ready. hs_hello c = Inr hello \<and> msg_Version hello = ProtocolVersion \<and> msg_Type hello = MessageHello \<and>
        msg_Payload hello = Hello token d lo hi \<and> token \<in> b64_encode ` {bs. length bs = 32} \<and> helloProtocolCompatible lo hi m \<and>
        is_ok (descriptor_validate d) \<and> descriptorMatchesManifest d m \<and>
        NewMessage encode (Initialize startup) = Inr initialize \<and> sent = [initialize] \<and> hs_send c = None \<and>
        hs_ready c = Inr ready \<and> msg_Version ready = ProtocolVersion \<and> msg_Type ready = MessageReady \<and> msg_Payload ready = Ready)"
  (is "?l \<longleftrightarrow> ?r")
proof
  have clone: "cloneStartup startup = startup" by (simp add: cloneStartup_def)
  have image: "token \<in> b64_encode ` {bs. length bs = 32} \<longleftrightarrow> snd (decodeSessionToken token)" using token_valid by auto
  show "?l \<Longrightarrow> ?r" unfolding image
    by (auto simp: hostHandshake_def await_ready_def clone hello_fields_Some same_token
        split: sum.splits option.splits if_splits prod.splits)
  assume ?r
  then show ?l unfolding image
    by (elim exE conjE) (simp add: hostHandshake_def await_ready_def clone hello_fields_def)
qed

text \<open>C18 (error). Whatever the connection does, the host sends at most one message, and only to a peer that has shown the
  token and a descriptor that matches the manifest.\<close>

theorem handshake_silent:
  assumes "fst (hostHandshake encode conn m token startup) \<noteq> []"
  shows "\<exists>c hello d lo hi. conn = Some c \<and> hs_hello c = Inr hello \<and> msg_Payload hello = Hello token d lo hi \<and>
    descriptorMatchesManifest d m \<and> length (fst (hostHandshake encode conn m token startup)) = 1"
  using assms by (auto simp: hostHandshake_def hello_fields_def same_token split: sum.splits option.splits if_splits prod.splits payload.splits)

section \<open>Examples\<close>

definition sample_manifest :: manifest where
  "sample_manifest = \<lparr>SchemaVersion = 1, mf_ID = ''org.example.eye'', mf_Name = ''Eye'', mf_Version = ''1.0.0'', mf_Description = [],
     mf_ProtocolMin = 1, mf_ProtocolMax = 1, Entrypoint = ''eye.exe'', mf_Capabilities = 1\<rparr>"

definition sample_token :: string where
  "sample_token = b64_encode (replicate 32 CHR ''k'')"

definition sample_descriptor :: descriptor where
  "sample_descriptor = manifest_descriptor sample_manifest"

definition sample_startup :: plugin_startup where
  "sample_startup = \<lparr>startup_Active = False, startup_Config = \<lparr>Revision = 0, Data = []\<rparr>, startup_Subscription = empty_subscription\<rparr>"

definition sample_conn :: hs_conn where
  "sample_conn = \<lparr>hs_hello = Inr \<lparr>msg_Version = 1, msg_Type = 1, msg_Payload = Hello sample_token sample_descriptor 1 1\<rparr>, hs_send = None,
     hs_ready = Inr \<lparr>msg_Version = 1, msg_Type = 3, msg_Payload = Ready\<rparr>, late_hello = False, late_send = False, late_ready = False\<rparr>"

lemma sample_token_valid: "snd (decodeSessionToken sample_token)"
  using token_valid(1) by (auto simp: sample_token_def intro!: exI [of _ "replicate 32 CHR ''k''"])

lemma sample_handshake: "length (fst (hostHandshake sample_encode (Some sample_conn) sample_manifest sample_token sample_startup)) = 1"
proof -
  have hello: "hello_fields \<lparr>msg_Version = 1, msg_Type = 1, msg_Payload = Hello sample_token sample_descriptor 1 1\<rparr> = Some (sample_token, sample_descriptor, 1, 1)"
    by (simp add: hello_fields_def ProtocolVersion_def MessageHello_def)
  have ok: "helloProtocolCompatible 1 1 sample_manifest" "is_ok (descriptor_validate sample_descriptor)"
      "descriptorMatchesManifest sample_descriptor sample_manifest"
      "is_ok (NewMessage sample_encode (Initialize (cloneStartup sample_startup)))"
    by code_simp+
  then obtain m where "NewMessage sample_encode (Initialize (cloneStartup sample_startup)) = Inr m"
    by (auto simp: is_ok_def split: sum.splits)
  then show ?thesis using ok sample_token_valid by (simp add: hostHandshake_def sample_conn_def hello)
qed

theorem handshake_silent_witness:
  "\<exists>hello d lo hi. hs_hello sample_conn = Inr hello \<and> msg_Payload hello = Hello sample_token d lo hi \<and> descriptorMatchesManifest d sample_manifest"
proof -
  have "fst (hostHandshake sample_encode (Some sample_conn) sample_manifest sample_token sample_startup) \<noteq> []"
    using sample_handshake by auto
  from handshake_silent [OF this] show ?thesis by auto
qed

end
