(* ===== verification/Supervisor.thy ===== *)
theory Supervisor
  imports Handshake Events
begin

text \<open>
  internal/plugins/supervisor.go: the goroutine that starts, stops and restarts the session of one
  plugin and passes it the control requests. The state of its loop is a record and each case of its
  select a function; the channels it waits on are the events of a step relation. A command carries
  the number of its call, which stands for its reply and admission channels. What the supervisor
  does to its surroundings is logged in \<open>sv_actions\<close>, together with the ends of
  sessions it accepts. The session's identifier, whether the factory gives a session, the clock and
  the contexts that are done are the environment of an event.
\<close>

section \<open>The restart policy\<close>

record restart_policy =
  InitialBackoff :: int
  rp_Multiplier :: nat \<comment> \<open>uint\<close>
  MaxBackoff :: int
  MaxFailures :: int
  StableWindow :: int

definition second :: int where "second = 1000000000"

definition DefaultRestartPolicy :: restart_policy where
  "DefaultRestartPolicy = \<lparr>InitialBackoff = second, rp_Multiplier = 2, MaxBackoff = 30 * second, MaxFailures = 5, StableWindow = 60 * second\<rparr>"

definition validateRestartPolicy :: "restart_policy \<Rightarrow> bool" where
  "validateRestartPolicy p \<longleftrightarrow> \<not> (InitialBackoff p \<le> 0 \<or> rp_Multiplier p < 1 \<or> MaxBackoff p \<le> 0 \<or>
     InitialBackoff p > MaxBackoff p \<or> MaxFailures p < 1 \<or> StableWindow p \<le> 0)"

fun restart_delay_loop :: "restart_policy \<Rightarrow> nat \<Rightarrow> int \<Rightarrow> int" where
  \<comment> \<open>the loop of restartDelay with the rounds that are left\<close>
  "restart_delay_loop p 0 delay = (if MaxBackoff p < delay then MaxBackoff p else delay)"
| "restart_delay_loop p (Suc n) delay =
    (if MaxBackoff p \<le> delay then MaxBackoff p
     else if MaxBackoff p div delay < int (rp_Multiplier p) then MaxBackoff p
     else restart_delay_loop p n (i64 (delay * int (rp_Multiplier p))))"

definition restartDelay :: "restart_policy \<Rightarrow> int \<Rightarrow> int" where
  "restartDelay p failures = (if failures \<le> 1 then InitialBackoff p else restart_delay_loop p (nat (failures - 1)) (InitialBackoff p))"

section \<open>Commands and state\<close>

type_synonym command_kind = u8

definition supervisorEnable :: command_kind where "supervisorEnable = 1"
definition supervisorDisable :: command_kind where "supervisorDisable = 2"
definition supervisorActive :: command_kind where "supervisorActive = 3"
definition supervisorConfig :: command_kind where "supervisorConfig = 4"
definition supervisorSubscription :: command_kind where "supervisorSubscription = 5"
definition supervisorRestart :: command_kind where "supervisorRestart = 6"
definition supervisorClose :: command_kind where "supervisorClose = 7"

lemmas command_kinds = supervisorEnable_def supervisorDisable_def supervisorActive_def supervisorConfig_def supervisorSubscription_def
  supervisorRestart_def supervisorClose_def

definition command_kind_text :: "command_kind \<Rightarrow> string" where
  \<comment> \<open>supervisorCommandKind.String\<close>
  "command_kind_text k = (if k = supervisorEnable then ''enable'' else if k = supervisorDisable then ''disable''
     else if k = supervisorActive then ''active'' else if k = supervisorConfig then ''config''
     else if k = supervisorSubscription then ''subscription'' else if k = supervisorRestart then ''restart''
     else if k = supervisorClose then ''close'' else ''unknown'')"

record supervisor_command =
  sc_kind :: command_kind
  sc_config :: plugin_config
  sc_subscription :: subscription
  sc_active :: bool
  sc_forceActive :: bool

definition StateDisabled :: string where "StateDisabled = ''disabled''"
definition StateStopped :: string where "StateStopped = ''stopped''"
definition StateStarting :: string where "StateStarting = ''starting''"
definition StateHandshaking :: string where "StateHandshaking = ''handshaking''"
definition StateRunning :: string where "StateRunning = ''running''"
definition StateStopping :: string where "StateStopping = ''stopping''"
definition StateBackoff :: string where "StateBackoff = ''backoff''"
definition StateCrashed :: string where "StateCrashed = ''crashed''"
definition StateUnresponsive :: string where "StateUnresponsive = ''unresponsive''"
definition StateIncompatible :: string where "StateIncompatible = ''incompatible''"

lemmas state_names = StateDisabled_def StateStopped_def StateStarting_def StateHandshaking_def StateRunning_def StateStopping_def
  StateBackoff_def StateCrashed_def StateUnresponsive_def StateIncompatible_def

datatype stop_intent = supervisorStopNone | supervisorStopDisable | supervisorStopRestart | supervisorStopClose

record queued_control =
  qc_call :: nat
  qc_command :: supervisor_command
  qc_request :: control_request
  durableConfig :: bool

record in_flight_control =
  if_instance :: u64
  if_operation :: u64
  if_call :: nat
  if_request :: control_request
  if_next :: control_state
  if_durable :: bool

record session_result =
  sr_StartedAt :: int
  StableFor :: int
  sr_Err :: "plugin_error option"
  Retryable :: bool

record plugin_log =
  pl_InstanceID :: u64
  pl_Entry :: log_entry
  pl_Dropped :: u64

datatype callback_kind = supervisorProcessStarted | supervisorReady | supervisorHeartbeat | supervisorFrame | supervisorUnresponsive
  | supervisorStatus | supervisorLog

record supervisor_callback =
  cb_kind :: callback_kind
  cb_instance :: u64
  cb_descriptor :: descriptor
  cb_pid :: int
  cb_at :: int
  cb_frameRate :: u64
  cb_status :: device_status
  cb_log :: plugin_log

datatype supervisor_action =
  Launched u64 plugin_startup | Delivered u64 u64 control_request | StopRequested u64 | Ended u64 | Stopped u64
  | StatusPublished device_status | LogPublished plugin_log

record supervisor_config =
  cfg_Manifest :: manifest
  cfg_Enabled :: bool
  cfg_Config :: plugin_config
  cfg_Active :: bool
  cfg_Subscription :: subscription
  cfg_Restart :: restart_policy
  SupervisorCapacity :: int

record supervisor =
  sv_snapshot :: runtime_snapshot
  sv_control :: control_state
  sv_session :: bool \<comment> \<open>there is one, with the identifier instanceID\<close>
  instanceID :: u64
  launches :: int
  sv_timer :: "int option" \<comment> \<open>its delay\<close>
  stableTimer :: "int option"
  stableInstance :: u64
  stopIntent :: stop_intent
  disableReply :: "nat option"
  restartReply :: "nat option"
  closeReply :: "nat option"
  sessionOutcome :: "session_result option"
  closing :: bool
  controlQueue :: "queued_control list"
  controlID :: u64
  inFlight :: "in_flight_control option"
  sv_done :: bool
  sv_replies :: "(nat \<times> plugin_error option) list"
  sv_admissions :: "(nat \<times> plugin_error option) list"
  sv_published :: "runtime_snapshot list"
  sv_actions :: "supervisor_action list"

record supervisor_env =
  env_session :: u64 \<comment> \<open>what NextSessionID gives\<close>
  env_launches :: bool \<comment> \<open>NewSession gives a session\<close>
  env_now :: int
  env_cancelled :: "nat list" \<comment> \<open>the calls whose context is done\<close>

definition zero_time :: int where
  \<comment> \<open>time.Time\{\}, the first instant of year 1\<close>
  "zero_time = - 62135596800 * 1000000000"

section \<open>Building blocks\<close>

definition answer :: "nat \<Rightarrow> plugin_error option \<Rightarrow> supervisor \<Rightarrow> supervisor" where
  "answer i e s = s\<lparr>sv_replies := sv_replies s @ [(i, e)]\<rparr>"

definition signalAdmission :: "nat \<Rightarrow> plugin_error option \<Rightarrow> supervisor \<Rightarrow> supervisor" where
  \<comment> \<open>the first signal counts\<close>
  "signalAdmission i e s = (if map_of (sv_admissions s) i \<noteq> None then s else s\<lparr>sv_admissions := sv_admissions s @ [(i, e)]\<rparr>)"

definition act :: "supervisor_action \<Rightarrow> supervisor \<Rightarrow> supervisor" where
  "act a s = s\<lparr>sv_actions := sv_actions s @ [a]\<rparr>"

definition on_snapshot :: "(runtime_snapshot \<Rightarrow> runtime_snapshot) \<Rightarrow> supervisor \<Rightarrow> supervisor" where
  "on_snapshot f s = s\<lparr>sv_snapshot := f (sv_snapshot s)\<rparr>"

definition publish :: "supervisor \<Rightarrow> supervisor" where
  "publish s = s\<lparr>sv_published := sv_published s @ [sv_snapshot s]\<rparr>"

definition clearRuntimeMetrics :: "supervisor_config \<Rightarrow> runtime_snapshot \<Rightarrow> runtime_snapshot" where
  "clearRuntimeMetrics cfg sn = sn\<lparr>rs_Name := mf_Name (cfg_Manifest cfg), rs_Description := mf_Description (cfg_Manifest cfg),
     PID := 0, StartedAt := zero_time, LastHeartbeatAt := zero_time, LastFrameAt := zero_time, FrameRate := 0\<rparr>"

definition cancelTimer :: "supervisor \<Rightarrow> supervisor" where
  "cancelTimer s = on_snapshot (\<lambda>sn. sn\<lparr>NextRestartAt := zero_time\<rparr>) (s\<lparr>sv_timer := None\<rparr>)"

definition cancelStableTimer :: "supervisor \<Rightarrow> supervisor" where
  "cancelStableTimer s = s\<lparr>stableTimer := None, stableInstance := 0\<rparr>"

definition armStableTimer :: "supervisor_config \<Rightarrow> supervisor \<Rightarrow> supervisor" where
  "armStableTimer cfg s = (let s = cancelStableTimer s in
     if ConsecutiveFailures (sv_snapshot s) = 0 then s
     else s\<lparr>stableTimer := Some (StableWindow (cfg_Restart cfg)), stableInstance := instanceID s\<rparr>)"

definition known_errors :: "(plugin_error \<times> string) list" where
  "known_errors = [(ErrAuthenticationFailed, ''plugins: authentication failed''), (ErrDescriptorMismatch, ''plugins: descriptor mismatch''),
     (ErrProtocolIncompatible, ''plugins: protocol incompatible''), (ErrProtocolViolation, ''plugins: protocol violation''),
     (ErrInvalidManifest, ''plugins: invalid manifest''), (ErrInvalidEntrypoint, ''plugins: invalid entrypoint''),
     (ErrConfigRevisionRegression, ''plugins: config revision regression''), (ErrConfigRevisionConflict, ''plugins: config revision conflict''),
     (ErrSubscriptionGenerationRegression, ''plugins: subscription generation regression''),
     (ErrSubscriptionGenerationConflict, ''plugins: subscription generation conflict''),
     (ErrHeartbeatTimeout, ''plugins: heartbeat timeout''), (ErrGracefulShutdownTimeout, ''plugins: graceful shutdown timeout''),
     (ErrKillTimeout, ''plugins: kill timeout''), (ErrRestartLimitReached, ''plugins: restart limit reached'')]"

definition sanitizedSupervisorError :: "plugin_error \<Rightarrow> string" where
  "sanitizedSupervisorError e = (case map_of known_errors e of Some text \<Rightarrow> text | None \<Rightarrow> ''plugins: session failed'')"

definition commitControl :: "control_state \<Rightarrow> supervisor \<Rightarrow> supervisor" where
  "commitControl new s = publish (on_snapshot (\<lambda>sn. sn\<lparr>rs_Active := cs_Active new, ConfigRevision := Revision (cs_Config new),
     SubscriptionGeneration := sub_Generation (cs_Subscription new)\<rparr>)
     (s\<lparr>sv_control := new\<lparr>cs_Config := config_clone (cs_Config new)\<rparr>\<rparr>))"

definition retireControls :: "supervisor \<Rightarrow> supervisor" where
  "retireControls s =
    (let s = (case inFlight s of None \<Rightarrow> s | Some x \<Rightarrow> (answer (if_call x) (Some ErrInvalidState) s)\<lparr>inFlight := None\<rparr>);
         s = fold (\<lambda>q. answer (qc_call q) (Some ErrInvalidState)) (controlQueue s) s
     in s\<lparr>controlQueue := [], controlID := controlID s + 1\<rparr>)"

definition startSession :: "supervisor_config \<Rightarrow> supervisor_env \<Rightarrow> supervisor \<Rightarrow> supervisor" where
  "startSession cfg env s =
    (let s = cancelStableTimer s;
         s = on_snapshot (\<lambda>sn. (clearRuntimeMetrics cfg (sn\<lparr>rs_State := StateStarting\<rparr>))\<lparr>NextRestartAt := zero_time\<rparr>) s;
         s = (if 0 < launches s then on_snapshot (\<lambda>sn. sn\<lparr>RestartCount := i64 (RestartCount sn + 1)\<rparr>) s else s);
         s = s\<lparr>launches := i64 (launches s + 1)\<rparr>
     in if env_session env = 0 then publish (on_snapshot (\<lambda>sn. sn\<lparr>rs_State := StateIncompatible, LastError := sanitizedSupervisorError ErrInvalidState\<rparr>) s)
     else let s = publish (on_snapshot (\<lambda>sn. sn\<lparr>SessionID := env_session env\<rparr>) (s\<lparr>instanceID := env_session env\<rparr>));
         startup = \<lparr>startup_Active = cs_Active (sv_control s), startup_Config = config_clone (cs_Config (sv_control s)),
           startup_Subscription = cs_Subscription (sv_control s)\<rparr>
       in if \<not> env_launches env then publish (on_snapshot (\<lambda>sn. clearRuntimeMetrics cfg
             (sn\<lparr>rs_State := StateIncompatible, LastError := sanitizedSupervisorError ErrInvalidState\<rparr>)) s)
          else act (Launched (env_session env) startup) (s\<lparr>sv_session := True\<rparr>))"

definition beginStop :: "supervisor_config \<Rightarrow> stop_intent \<Rightarrow> nat \<Rightarrow> supervisor \<Rightarrow> supervisor" where
  "beginStop cfg intent i s =
    (let s = cancelStableTimer (retireControls s);
         s = s\<lparr>stopIntent := intent\<rparr>;
         s = (case intent of supervisorStopDisable \<Rightarrow> s\<lparr>disableReply := Some i\<rparr> | supervisorStopRestart \<Rightarrow> s\<lparr>restartReply := Some i\<rparr>
            | supervisorStopClose \<Rightarrow> s\<lparr>closeReply := Some i\<rparr> | supervisorStopNone \<Rightarrow> s);
         s = publish (on_snapshot (\<lambda>sn. clearRuntimeMetrics cfg (sn\<lparr>rs_State := StateStopping\<rparr>)) s)
     in act (StopRequested (instanceID s)) s)"

section \<open>Controls\<close>

definition zero_config :: plugin_config where "zero_config = \<lparr>Revision = 0, Data = []\<rparr>"
definition zero_subscription :: subscription where
  "zero_subscription = \<lparr>sub_Generation = 0, sub_Capabilities = 0, sub_Eye = 0, sub_Expressions = empty_mask\<rparr>"

definition zero_request :: control_request where
  "zero_request = \<lparr>cr_kind = 0, cr_state = \<lparr>cs_Active = False, cs_Config = zero_config, cs_Subscription = zero_subscription\<rparr>, forceActive = False\<rparr>"

definition prepareSupervisorControl :: "control_state \<Rightarrow> supervisor_command \<Rightarrow> (plugin_error, control_state \<times> control_request \<times> bool) result" where
  "prepareSupervisorControl current c =
    (let new = current\<lparr>cs_Config := config_clone (cs_Config current)\<rparr>;
         request = (\<lambda>kind st force. \<lparr>cr_kind = kind, cr_state = st, forceActive = force\<rparr>)
     in if sc_kind c = supervisorConfig then
          (case applyConfig (sc_config c) new of (st, res) \<Rightarrow> (case res of Inl e \<Rightarrow> Inl e
           | Inr changed \<Rightarrow> Inr (st, request controlConfig (new\<lparr>cs_Config := config_clone (cs_Config st)\<rparr>) False, changed)))
        else if sc_kind c = supervisorSubscription then
          (case applySubscription (sc_subscription c) new of (st, res) \<Rightarrow> (case res of Inl e \<Rightarrow> Inl e
           | Inr changed \<Rightarrow> Inr (st, request controlSubscription (new\<lparr>cs_Subscription := cs_Subscription st\<rparr>) False, changed)))
        else if sc_kind c = supervisorActive then
          (case applyActive (sc_active c) new of (st, changed) \<Rightarrow>
             Inr (st, request controlActive (new\<lparr>cs_Active := cs_Active st\<rparr>) (sc_forceActive c), changed \<or> sc_forceActive c))
        else Inl ErrInvalidState)"

definition launch_control :: "queued_control \<Rightarrow> control_state \<Rightarrow> control_request \<Rightarrow> supervisor \<Rightarrow> supervisor" where
  \<comment> \<open>the end of dispatchNextControl's loop body; the session's Control runs beside the loop\<close>
  "launch_control q new request s =
    (let s = s\<lparr>controlID := controlID s + 1\<rparr>;
         s = s\<lparr>inFlight := Some \<lparr>if_instance = instanceID s, if_operation = controlID s, if_call = qc_call q, if_request = request,
               if_next = new, if_durable = durableConfig q\<rparr>\<rparr>
     in act (Delivered (instanceID s) (controlID s) request) s)"

fun dispatch_queue :: "supervisor_env \<Rightarrow> queued_control list \<Rightarrow> supervisor \<Rightarrow> supervisor" where
  "dispatch_queue env [] s = s\<lparr>controlQueue := []\<rparr>"
| "dispatch_queue env (q # qs) s =
    (if qc_call q \<in> set (env_cancelled env) then dispatch_queue env qs (answer (qc_call q) (Some ContextDone) s)
     else if durableConfig q then launch_control q (sv_control s) (qc_request q) (s\<lparr>controlQueue := qs\<rparr>)
     else (case prepareSupervisorControl (sv_control s) (qc_command q) of
         Inl e \<Rightarrow> dispatch_queue env qs (answer (qc_call q) (Some e) s)
       | Inr (new, request, changed) \<Rightarrow>
           if \<not> changed then dispatch_queue env qs (answer (qc_call q) None s)
           else launch_control q new request (s\<lparr>controlQueue := qs\<rparr>)))"

definition dispatchNextControl :: "supervisor_env \<Rightarrow> supervisor \<Rightarrow> supervisor" where
  "dispatchNextControl env s = (if inFlight s = None \<and> sv_session s then dispatch_queue env (controlQueue s) s else s)"

definition handleControlCommand :: "supervisor_config \<Rightarrow> supervisor_env \<Rightarrow> nat \<Rightarrow> supervisor_command \<Rightarrow> supervisor \<Rightarrow> supervisor" where
  "handleControlCommand cfg env i c s =
    (if closing s then answer i (Some ErrManagerClosed) (signalAdmission i (Some ErrManagerClosed) s)
     else if stopIntent s \<noteq> supervisorStopNone \<or> rs_State (sv_snapshot s) = StateStopping
     then answer i (Some ErrInvalidState) (signalAdmission i (Some ErrInvalidState) s)
     else let full = SupervisorCapacity cfg \<le> int (length (controlQueue s)) \<and> 0 < SupervisorCapacity cfg in
     if sc_kind c = supervisorConfig then
       (case prepareSupervisorControl (sv_control s) c of
          Inl e \<Rightarrow> answer i (Some e) (signalAdmission i (Some e) s)
        | Inr (new, request, changed) \<Rightarrow>
            if \<not> changed then answer i None (signalAdmission i None s)
            else let s = commitControl new s in
              if \<not> sv_session s then answer i None (signalAdmission i None s)
              else if full then answer i (Some ErrControlBackpressure) (signalAdmission i None s)
              else signalAdmission i None (dispatchNextControl env (s\<lparr>controlQueue := controlQueue s @
                [\<lparr>qc_call = i, qc_command = c, qc_request = request, durableConfig = True\<rparr>]\<rparr>)))
     else if sv_session s \<and> full then answer i (Some ErrControlBackpressure) (signalAdmission i (Some ErrControlBackpressure) s)
     else if \<not> sv_session s then
       (case prepareSupervisorControl (sv_control s) c of
          Inl e \<Rightarrow> answer i (Some e) (signalAdmission i (Some e) s)
        | Inr (new, request, changed) \<Rightarrow>
            if \<not> changed then answer i None (signalAdmission i None s)
            else answer i None (signalAdmission i None (commitControl new s)))
     else signalAdmission i None (dispatchNextControl env (s\<lparr>controlQueue := controlQueue s @
       [\<lparr>qc_call = i, qc_command = c, qc_request = zero_request, durableConfig = False\<rparr>]\<rparr>)))"

definition handleControlResult :: "supervisor_env \<Rightarrow> u64 \<Rightarrow> u64 \<Rightarrow> plugin_error option \<Rightarrow> supervisor \<Rightarrow> supervisor" where
  "handleControlResult env instance operation e s = (case inFlight s of None \<Rightarrow> s
   | Some x \<Rightarrow>
       if instance \<noteq> if_instance x \<or> operation \<noteq> if_operation x then s
       else let s = s\<lparr>inFlight := None\<rparr>;
         s = (case e of
             None \<Rightarrow> if if_durable x then publish (on_snapshot (\<lambda>sn. sn\<lparr>LastError := []\<rparr>) s)
               else commitControl ((if_next x)\<lparr>cs_Config := config_clone (cs_Config (sv_control s))\<rparr>) s
           | Some err \<Rightarrow> if if_durable x then publish (on_snapshot (\<lambda>sn. sn\<lparr>LastError := sanitizedSupervisorError err\<rparr>) s) else s)
       in dispatchNextControl env (answer (if_call x) e s))"

section \<open>Commands, results, callbacks\<close>

definition handleCommand :: "supervisor_config \<Rightarrow> supervisor_env \<Rightarrow> nat \<Rightarrow> supervisor_command \<Rightarrow> supervisor \<Rightarrow> supervisor \<times> bool" where
  "handleCommand cfg env i c s =
    (let accepted = (\<lambda>s. (answer i None (signalAdmission i None s), False));
         refused = (\<lambda>e s. (answer i (Some e) (signalAdmission i (Some e) s), False))
     in if i \<in> set (env_cancelled env) then refused ContextDone s
     else if closing s then refused ErrManagerClosed s
     else if stopIntent s \<noteq> supervisorStopNone \<and> sc_kind c \<noteq> supervisorClose then refused ErrInvalidState s
     else if sc_kind c = supervisorEnable then
       (if rs_Enabled (sv_snapshot s) then
          accepted (if rs_State (sv_snapshot s) = StateStopped \<and> \<not> sv_session s then startSession cfg env s else s)
        else let s = publish (on_snapshot (\<lambda>sn. sn\<lparr>rs_Enabled := True, LastError := []\<rparr>) s) in
          accepted (if \<not> sv_session s \<and> stopIntent s = supervisorStopNone then startSession cfg env (cancelTimer s) else s))
     else if sc_kind c = supervisorDisable then
       (let s = cancelTimer (on_snapshot (\<lambda>sn. sn\<lparr>rs_Enabled := False\<rparr>) s) in
        if \<not> sv_session s then
          accepted (publish (on_snapshot (\<lambda>sn. (clearRuntimeMetrics cfg (sn\<lparr>rs_State := StateDisabled\<rparr>))\<lparr>NextRestartAt := zero_time\<rparr>) s))
        else if stopIntent s \<noteq> supervisorStopNone then refused ErrInvalidState s
        else (signalAdmission i None (beginStop cfg supervisorStopDisable i s), False))
     else if sc_kind c = supervisorRestart then
       (let s = cancelTimer (on_snapshot (\<lambda>sn. sn\<lparr>ConsecutiveFailures := 0, LastError := []\<rparr>) s) in
        if \<not> rs_Enabled (sv_snapshot s) then
          accepted (publish (on_snapshot (\<lambda>sn. clearRuntimeMetrics cfg (sn\<lparr>rs_State := StateDisabled\<rparr>)) s))
        else if \<not> sv_session s then accepted (startSession cfg env s)
        else if stopIntent s \<noteq> supervisorStopNone then refused ErrInvalidState s
        else (signalAdmission i None (beginStop cfg supervisorStopRestart i s), False))
     else if sc_kind c = supervisorClose then
       (let s = retireControls (cancelTimer (on_snapshot (\<lambda>sn. sn\<lparr>rs_Enabled := False\<rparr>) (s\<lparr>closing := True\<rparr>))) in
        if stopIntent s \<noteq> supervisorStopNone then
          (let s = (case stopIntent s of
               supervisorStopDisable \<Rightarrow> s\<lparr>stopIntent := supervisorStopClose, closeReply := Some i\<rparr>
             | supervisorStopRestart \<Rightarrow> (case restartReply s of
                   Some j \<Rightarrow> (answer j (Some ErrInvalidState) s)\<lparr>restartReply := None, stopIntent := supervisorStopClose, closeReply := Some i\<rparr>
                 | None \<Rightarrow> s\<lparr>stopIntent := supervisorStopClose, closeReply := Some i\<rparr>)
             | _ \<Rightarrow> s)
           in (signalAdmission i None s, False))
        else if \<not> sv_session s then
          (answer i None (signalAdmission i None (publish (on_snapshot (\<lambda>sn. clearRuntimeMetrics cfg (sn\<lparr>rs_State := StateDisabled\<rparr>)) s))), True)
        else (signalAdmission i None (beginStop cfg supervisorStopClose i s), False))
     else (handleControlCommand cfg env i c s, False))"

definition answer_stops :: "plugin_error option \<Rightarrow> supervisor \<Rightarrow> supervisor" where
  \<comment> \<open>the end of handleStopResult\<close>
  "answer_stops e s =
    (let s = (case disableReply s of Some j \<Rightarrow> (answer j e s)\<lparr>disableReply := None\<rparr> | None \<Rightarrow> s);
         s = (case restartReply s of Some j \<Rightarrow> (answer j e s)\<lparr>restartReply := None\<rparr> | None \<Rightarrow> s)
     in (case closeReply s of Some j \<Rightarrow> (answer j e s)\<lparr>closeReply := None\<rparr> | None \<Rightarrow> s))"

definition after_stop :: "supervisor_config \<Rightarrow> supervisor_env \<Rightarrow> stop_intent \<Rightarrow> supervisor \<Rightarrow> supervisor" where
  \<comment> \<open>handleStopResult's switch\<close>
  "after_stop cfg env intent s = (let to = (\<lambda>name. on_snapshot (\<lambda>sn. sn\<lparr>rs_State := name\<rparr>)) in
     case intent of
       supervisorStopDisable \<Rightarrow> to StateDisabled s
     | supervisorStopRestart \<Rightarrow> if rs_Enabled (sv_snapshot s) then startSession cfg env (publish (to StateStopped s)) else to StateDisabled s
     | supervisorStopClose \<Rightarrow> to StateDisabled s
     | supervisorStopNone \<Rightarrow> s)"

definition handleStopResult :: "supervisor_config \<Rightarrow> supervisor_env \<Rightarrow> u64 \<Rightarrow> plugin_error option \<Rightarrow> supervisor \<Rightarrow> supervisor \<times> bool" where
  "handleStopResult cfg env instance e s =
    (if instance \<noteq> instanceID s \<or> stopIntent s = supervisorStopNone then (s, False)
     else let intent = stopIntent s;
         s = act (Stopped instance) (on_snapshot (clearRuntimeMetrics cfg) (s\<lparr>stopIntent := supervisorStopNone, sv_session := False, sessionOutcome := None\<rparr>))
     in (answer_stops e (publish (after_stop cfg env intent s)), intent = supervisorStopClose))"

definition schedule_restart :: "supervisor_config \<Rightarrow> supervisor_env \<Rightarrow> supervisor \<Rightarrow> supervisor" where
  \<comment> \<open>the end of handleSessionResult\<close>
  "schedule_restart cfg env s =
    (let limit = MaxFailures (cfg_Restart cfg) \<le> ConsecutiveFailures (sv_snapshot s)
     in if \<not> rs_Enabled (sv_snapshot s) \<or> limit then
          publish (on_snapshot (\<lambda>sn. sn\<lparr>rs_State := StateCrashed\<rparr>)
            (if limit then on_snapshot (\<lambda>sn. sn\<lparr>LastError := sanitizedSupervisorError ErrRestartLimitReached\<rparr>) s else s))
        else let delay = restartDelay (cfg_Restart cfg) (ConsecutiveFailures (sv_snapshot s)) in
          publish (on_snapshot (\<lambda>sn. sn\<lparr>rs_State := StateBackoff, NextRestartAt := env_now env + delay\<rparr>) (s\<lparr>sv_timer := Some delay\<rparr>)))"

definition handleSessionResult :: "supervisor_config \<Rightarrow> supervisor_env \<Rightarrow> u64 \<Rightarrow> session_result \<Rightarrow> supervisor \<Rightarrow> supervisor" where
  "handleSessionResult cfg env instance r s =
    (if instance \<noteq> instanceID s \<or> \<not> sv_session s then s
     else if stopIntent s \<noteq> supervisorStopNone then s\<lparr>sessionOutcome := Some r\<rparr>
     else let s = retireControls (cancelStableTimer s);
         s = act (Ended instance) (on_snapshot (clearRuntimeMetrics cfg) (s\<lparr>sv_session := False\<rparr>))
       in (case sr_Err r of
          None \<Rightarrow> publish (on_snapshot (\<lambda>sn. sn\<lparr>rs_State := StateStopped, LastError := []\<rparr>) s)
        | Some e \<Rightarrow>
            if \<not> Retryable r then publish (on_snapshot (\<lambda>sn. clearRuntimeMetrics cfg
              (sn\<lparr>rs_State := StateIncompatible, LastError := sanitizedSupervisorError e, NextRestartAt := zero_time\<rparr>)) s)
            else schedule_restart cfg env (on_snapshot (\<lambda>sn. clearRuntimeMetrics cfg
              (sn\<lparr>ConsecutiveFailures := i64 ((if StableWindow (cfg_Restart cfg) \<le> StableFor r then 0 else ConsecutiveFailures sn) + 1),
                LastError := sanitizedSupervisorError e\<rparr>)) s)))"

definition handleCallback :: "supervisor_config \<Rightarrow> supervisor_env \<Rightarrow> supervisor_callback \<Rightarrow> supervisor \<Rightarrow> supervisor" where
  "handleCallback cfg env c s =
    (if cb_instance c \<noteq> instanceID s \<or> \<not> sv_session s \<or> stopIntent s \<noteq> supervisorStopNone then s
     else let state = rs_State (sv_snapshot s) in
       (case cb_kind c of
          supervisorProcessStarted \<Rightarrow> if state \<noteq> StateStarting then s
            else publish (on_snapshot (\<lambda>sn. sn\<lparr>PID := cb_pid c, rs_State := StateHandshaking\<rparr>) s)
        | supervisorReady \<Rightarrow> if state \<noteq> StateHandshaking then s
            else publish (armStableTimer cfg (on_snapshot (\<lambda>sn. sn\<lparr>rs_Name := desc_Name (cb_descriptor c),
              rs_Description := desc_Description (cb_descriptor c), rs_State := StateRunning, StartedAt := env_now env\<rparr>) s))
        | supervisorHeartbeat \<Rightarrow> if state \<noteq> StateRunning then s else publish (on_snapshot (\<lambda>sn. sn\<lparr>LastHeartbeatAt := cb_at c\<rparr>) s)
        | supervisorFrame \<Rightarrow> if state \<noteq> StateRunning then s
            else publish (on_snapshot (\<lambda>sn. sn\<lparr>LastFrameAt := cb_at c, FrameRate := cb_frameRate c\<rparr>) s)
        | supervisorUnresponsive \<Rightarrow> if state \<noteq> StateRunning then s
            else publish (on_snapshot (\<lambda>sn. sn\<lparr>rs_State := StateUnresponsive\<rparr>) (cancelStableTimer s))
        | supervisorStatus \<Rightarrow> publish (act (StatusPublished (cb_status c)) s)
        | supervisorLog \<Rightarrow> publish (act (LogPublished (cb_log c)) s)))"

section \<open>The loop\<close>

definition newPluginSupervisor :: "supervisor_config \<Rightarrow> (string, supervisor_config \<times> supervisor) result" where
  \<comment> \<open>up to the start of the goroutine; an error keeps its text\<close>
  "newPluginSupervisor cfg =
     guard_result (\<not> validateRestartPolicy (cfg_Restart cfg)) ''plugins: invalid restart policy''
    (guard_result (\<not> is_ok (config_validate (cfg_Config cfg))) ''plugins: supervisor config is invalid''
    (guard_result (\<not> is_ok (sub_validate (cfg_Subscription cfg) (cfg_Active cfg))) ''plugins: supervisor subscription is invalid''
    (let cfg = cfg\<lparr>cfg_Config := config_clone (cfg_Config cfg), SupervisorCapacity := if SupervisorCapacity cfg < 1 then 32 else SupervisorCapacity cfg\<rparr>;
         m = cfg_Manifest cfg;
         initial = \<lparr>rs_ID = mf_ID m, rs_Name = mf_Name m, rs_Description = mf_Description m, rs_Version = mf_Version m,
           rs_Capabilities = mf_Capabilities m, rs_Enabled = cfg_Enabled cfg, rs_Active = cfg_Active cfg, rs_State = StateStopped, PID = 0,
           SessionID = 0, ConfigRevision = Revision (cfg_Config cfg), SubscriptionGeneration = sub_Generation (cfg_Subscription cfg),
           StartedAt = zero_time, LastHeartbeatAt = zero_time, LastFrameAt = zero_time, InstalledAt = zero_time, LastEnabledAt = zero_time,
           NextRestartAt = zero_time, FrameRate = 0, ConsecutiveFailures = 0, RestartCount = 0, LastError = []\<rparr>
     in Inr (cfg, \<lparr>sv_snapshot = initial,
          sv_control = \<lparr>cs_Active = rs_Active initial, cs_Config = config_clone (cfg_Config cfg), cs_Subscription = cfg_Subscription cfg\<rparr>,
          sv_session = False, instanceID = 0, launches = 0, sv_timer = None, stableTimer = None, stableInstance = 0,
          stopIntent = supervisorStopNone, disableReply = None, restartReply = None, closeReply = None, sessionOutcome = None, closing = False,
          controlQueue = [], controlID = 0, inFlight = None, sv_done = False, sv_replies = [], sv_admissions = [], sv_published = [], sv_actions = []\<rparr>))))"

definition supervisor_begin :: "supervisor_config \<Rightarrow> supervisor_env \<Rightarrow> supervisor \<Rightarrow> supervisor" where
  \<comment> \<open>run up to its loop\<close>
  "supervisor_begin cfg env s = (let s = publish s in
     if rs_Enabled (sv_snapshot s) then startSession cfg env s else publish (on_snapshot (\<lambda>sn. sn\<lparr>rs_State := StateDisabled\<rparr>) s))"

definition supervisor_fires :: "supervisor_config \<Rightarrow> supervisor_env \<Rightarrow> supervisor \<Rightarrow> supervisor" where
  \<comment> \<open>the restart timer\<close>
  "supervisor_fires cfg env s = (let s = s\<lparr>sv_timer := None\<rparr> in
     if rs_Enabled (sv_snapshot s) \<and> \<not> closing s \<and> \<not> sv_session s then startSession cfg env s else s)"

definition supervisor_stable :: "supervisor \<Rightarrow> supervisor" where
  \<comment> \<open>the stability timer\<close>
  "supervisor_stable s = (let instance = stableInstance s; s = cancelStableTimer s in
     if sv_session s \<and> instanceID s = instance \<and> rs_State (sv_snapshot s) = StateRunning \<and> ConsecutiveFailures (sv_snapshot s) \<noteq> 0
     then publish (on_snapshot (\<lambda>sn. sn\<lparr>ConsecutiveFailures := 0\<rparr>) s) else s)"

datatype supervisor_event =
  CommandEvent nat supervisor_command | ResultEvent u64 session_result | ControlEvent u64 u64 "plugin_error option"
  | StopEvent u64 "plugin_error option" | CallbackEvent supervisor_callback | TimerEvent | StableEvent

definition finish :: "supervisor \<times> bool \<Rightarrow> supervisor" where
  \<comment> \<open>if the handler says so, the loop ends\<close>
  "finish r = (fst r)\<lparr>sv_done := snd r\<rparr>"

fun supervisor_run :: "supervisor_config \<Rightarrow> supervisor_env \<Rightarrow> supervisor_event \<Rightarrow> supervisor \<Rightarrow> supervisor" where
  \<comment> \<open>one round of the loop\<close>
  "supervisor_run cfg env (CommandEvent i c) s = finish (handleCommand cfg env i c s)"
| "supervisor_run cfg env (ResultEvent instance r) s = handleSessionResult cfg env instance r s"
| "supervisor_run cfg env (ControlEvent instance operation e) s = handleControlResult env instance operation e s"
| "supervisor_run cfg env (StopEvent instance e) s = finish (handleStopResult cfg env instance e s)"
| "supervisor_run cfg env (CallbackEvent c) s = handleCallback cfg env c s"
| "supervisor_run cfg env TimerEvent s = (if sv_timer s = None then s else supervisor_fires cfg env s)"
| "supervisor_run cfg env StableEvent s = (if stableTimer s = None then s else supervisor_stable s)"

section \<open>Reachable states\<close>

fun event_calls :: "supervisor_event \<Rightarrow> nat set" where
  "event_calls (CommandEvent i c) = {i}"
| "event_calls _ = {}"

inductive supervisor_step :: "supervisor_config \<Rightarrow> nat set \<times> supervisor \<Rightarrow> nat set \<times> supervisor \<Rightarrow> bool" for cfg where
  round: "\<not> sv_done s \<Longrightarrow> event_calls ev \<inter> calls = {} \<Longrightarrow>
    supervisor_step cfg (calls, s) (event_calls ev \<union> calls, supervisor_run cfg env ev s)"
| late: "sv_done s \<Longrightarrow> i \<notin> calls \<Longrightarrow>
    supervisor_step cfg (calls, s) (insert i calls, answer i (Some ErrManagerClosed) (signalAdmission i (Some ErrManagerClosed) s))"

inductive_cases supervisor_stepE: "supervisor_step cfg x y"

inductive supervisor_reachable :: "supervisor_config \<Rightarrow> supervisor_config \<Rightarrow> nat set \<times> supervisor \<Rightarrow> bool" for cfg0 cfg where
  start: "newPluginSupervisor cfg0 = Inr (cfg, s) \<Longrightarrow> supervisor_reachable cfg0 cfg ({}, supervisor_begin cfg env s)"
| step: "supervisor_reachable cfg0 cfg x \<Longrightarrow> supervisor_step cfg x y \<Longrightarrow> supervisor_reachable cfg0 cfg y"

section \<open>What the building blocks change\<close>

lemmas block_defs = answer_def act_def on_snapshot_def publish_def clearRuntimeMetrics_def cancelTimer_def cancelStableTimer_def

lemma signalAdmission_keeps [simp]:
  "sv_snapshot (signalAdmission i e s) = sv_snapshot s" "sv_control (signalAdmission i e s) = sv_control s"
  "sv_session (signalAdmission i e s) = sv_session s" "instanceID (signalAdmission i e s) = instanceID s"
  "launches (signalAdmission i e s) = launches s" "sv_timer (signalAdmission i e s) = sv_timer s"
  "stableTimer (signalAdmission i e s) = stableTimer s" "stableInstance (signalAdmission i e s) = stableInstance s"
  "stopIntent (signalAdmission i e s) = stopIntent s" "disableReply (signalAdmission i e s) = disableReply s"
  "restartReply (signalAdmission i e s) = restartReply s" "closeReply (signalAdmission i e s) = closeReply s"
  "sessionOutcome (signalAdmission i e s) = sessionOutcome s" "closing (signalAdmission i e s) = closing s"
  "controlQueue (signalAdmission i e s) = controlQueue s" "controlID (signalAdmission i e s) = controlID s"
  "inFlight (signalAdmission i e s) = inFlight s" "sv_done (signalAdmission i e s) = sv_done s" "sv_replies (signalAdmission i e s) = sv_replies s"
  "sv_published (signalAdmission i e s) = sv_published s" "sv_actions (signalAdmission i e s) = sv_actions s"
  by (simp_all add: signalAdmission_def)

lemma answer_keeps [simp]:
  "sv_snapshot (answer i e s) = sv_snapshot s" "sv_control (answer i e s) = sv_control s" "sv_session (answer i e s) = sv_session s"
  "instanceID (answer i e s) = instanceID s" "launches (answer i e s) = launches s" "sv_timer (answer i e s) = sv_timer s"
  "stableTimer (answer i e s) = stableTimer s" "stableInstance (answer i e s) = stableInstance s" "stopIntent (answer i e s) = stopIntent s"
  "disableReply (answer i e s) = disableReply s" "restartReply (answer i e s) = restartReply s" "closeReply (answer i e s) = closeReply s"
  "sessionOutcome (answer i e s) = sessionOutcome s" "closing (answer i e s) = closing s" "controlQueue (answer i e s) = controlQueue s"
  "controlID (answer i e s) = controlID s" "inFlight (answer i e s) = inFlight s" "sv_done (answer i e s) = sv_done s"
  "sv_admissions (answer i e s) = sv_admissions s" "sv_published (answer i e s) = sv_published s" "sv_actions (answer i e s) = sv_actions s"
  "sv_replies (answer i e s) = sv_replies s @ [(i, e)]"
  by (simp_all add: answer_def)

lemma act_keeps [simp]:
  "sv_snapshot (act a s) = sv_snapshot s" "sv_control (act a s) = sv_control s" "sv_session (act a s) = sv_session s"
  "instanceID (act a s) = instanceID s" "launches (act a s) = launches s" "sv_timer (act a s) = sv_timer s" "stableTimer (act a s) = stableTimer s"
  "stableInstance (act a s) = stableInstance s" "stopIntent (act a s) = stopIntent s" "disableReply (act a s) = disableReply s"
  "restartReply (act a s) = restartReply s" "closeReply (act a s) = closeReply s" "sessionOutcome (act a s) = sessionOutcome s"
  "closing (act a s) = closing s" "controlQueue (act a s) = controlQueue s" "controlID (act a s) = controlID s" "inFlight (act a s) = inFlight s"
  "sv_done (act a s) = sv_done s" "sv_replies (act a s) = sv_replies s" "sv_admissions (act a s) = sv_admissions s"
  "sv_published (act a s) = sv_published s" "sv_actions (act a s) = sv_actions s @ [a]"
  by (simp_all add: act_def)

lemma publish_keeps [simp]:
  "sv_snapshot (publish s) = sv_snapshot s" "sv_control (publish s) = sv_control s" "sv_session (publish s) = sv_session s"
  "instanceID (publish s) = instanceID s" "launches (publish s) = launches s" "sv_timer (publish s) = sv_timer s"
  "stableTimer (publish s) = stableTimer s" "stableInstance (publish s) = stableInstance s" "stopIntent (publish s) = stopIntent s"
  "disableReply (publish s) = disableReply s" "restartReply (publish s) = restartReply s" "closeReply (publish s) = closeReply s"
  "sessionOutcome (publish s) = sessionOutcome s" "closing (publish s) = closing s" "controlQueue (publish s) = controlQueue s"
  "controlID (publish s) = controlID s" "inFlight (publish s) = inFlight s" "sv_done (publish s) = sv_done s" "sv_replies (publish s) = sv_replies s"
  "sv_admissions (publish s) = sv_admissions s" "sv_actions (publish s) = sv_actions s"
  by (simp_all add: publish_def)

lemma on_snapshot_keeps [simp]:
  "sv_control (on_snapshot f s) = sv_control s" "sv_session (on_snapshot f s) = sv_session s" "instanceID (on_snapshot f s) = instanceID s"
  "launches (on_snapshot f s) = launches s" "sv_timer (on_snapshot f s) = sv_timer s" "stableTimer (on_snapshot f s) = stableTimer s"
  "stableInstance (on_snapshot f s) = stableInstance s" "stopIntent (on_snapshot f s) = stopIntent s"
  "disableReply (on_snapshot f s) = disableReply s" "restartReply (on_snapshot f s) = restartReply s" "closeReply (on_snapshot f s) = closeReply s"
  "sessionOutcome (on_snapshot f s) = sessionOutcome s" "closing (on_snapshot f s) = closing s" "controlQueue (on_snapshot f s) = controlQueue s"
  "controlID (on_snapshot f s) = controlID s" "inFlight (on_snapshot f s) = inFlight s" "sv_done (on_snapshot f s) = sv_done s"
  "sv_replies (on_snapshot f s) = sv_replies s" "sv_admissions (on_snapshot f s) = sv_admissions s" "sv_published (on_snapshot f s) = sv_published s"
  "sv_actions (on_snapshot f s) = sv_actions s" "sv_snapshot (on_snapshot f s) = f (sv_snapshot s)"
  by (simp_all add: on_snapshot_def)

lemma cancelTimer_keeps [simp]:
  "sv_control (cancelTimer s) = sv_control s" "sv_session (cancelTimer s) = sv_session s" "instanceID (cancelTimer s) = instanceID s"
  "launches (cancelTimer s) = launches s" "stableTimer (cancelTimer s) = stableTimer s" "stableInstance (cancelTimer s) = stableInstance s"
  "stopIntent (cancelTimer s) = stopIntent s" "disableReply (cancelTimer s) = disableReply s" "restartReply (cancelTimer s) = restartReply s"
  "closeReply (cancelTimer s) = closeReply s" "sessionOutcome (cancelTimer s) = sessionOutcome s" "closing (cancelTimer s) = closing s"
  "controlQueue (cancelTimer s) = controlQueue s" "controlID (cancelTimer s) = controlID s" "inFlight (cancelTimer s) = inFlight s"
  "sv_done (cancelTimer s) = sv_done s" "sv_replies (cancelTimer s) = sv_replies s" "sv_admissions (cancelTimer s) = sv_admissions s"
  "sv_published (cancelTimer s) = sv_published s" "sv_actions (cancelTimer s) = sv_actions s"
  "rs_State (sv_snapshot (cancelTimer s)) = rs_State (sv_snapshot s)" "rs_Enabled (sv_snapshot (cancelTimer s)) = rs_Enabled (sv_snapshot s)"
  "rs_Active (sv_snapshot (cancelTimer s)) = rs_Active (sv_snapshot s)"
  "ConfigRevision (sv_snapshot (cancelTimer s)) = ConfigRevision (sv_snapshot s)"
  "SubscriptionGeneration (sv_snapshot (cancelTimer s)) = SubscriptionGeneration (sv_snapshot s)"
  "ConsecutiveFailures (sv_snapshot (cancelTimer s)) = ConsecutiveFailures (sv_snapshot s)" "sv_timer (cancelTimer s) = None"
  by (simp_all add: cancelTimer_def)

lemma cancelStableTimer_keeps [simp]:
  "sv_snapshot (cancelStableTimer s) = sv_snapshot s" "sv_control (cancelStableTimer s) = sv_control s"
  "sv_session (cancelStableTimer s) = sv_session s" "instanceID (cancelStableTimer s) = instanceID s" "launches (cancelStableTimer s) = launches s"
  "sv_timer (cancelStableTimer s) = sv_timer s" "stopIntent (cancelStableTimer s) = stopIntent s"
  "disableReply (cancelStableTimer s) = disableReply s" "restartReply (cancelStableTimer s) = restartReply s"
  "closeReply (cancelStableTimer s) = closeReply s" "sessionOutcome (cancelStableTimer s) = sessionOutcome s"
  "closing (cancelStableTimer s) = closing s" "controlQueue (cancelStableTimer s) = controlQueue s" "controlID (cancelStableTimer s) = controlID s"
  "inFlight (cancelStableTimer s) = inFlight s" "sv_done (cancelStableTimer s) = sv_done s" "sv_replies (cancelStableTimer s) = sv_replies s"
  "sv_admissions (cancelStableTimer s) = sv_admissions s" "sv_published (cancelStableTimer s) = sv_published s"
  "sv_actions (cancelStableTimer s) = sv_actions s" "stableTimer (cancelStableTimer s) = None"
  by (simp_all add: cancelStableTimer_def)

lemma armStableTimer_keeps [simp]:
  "sv_snapshot (armStableTimer cfg s) = sv_snapshot s" "sv_control (armStableTimer cfg s) = sv_control s"
  "sv_session (armStableTimer cfg s) = sv_session s" "instanceID (armStableTimer cfg s) = instanceID s" "launches (armStableTimer cfg s) = launches s"
  "sv_timer (armStableTimer cfg s) = sv_timer s" "stopIntent (armStableTimer cfg s) = stopIntent s"
  "disableReply (armStableTimer cfg s) = disableReply s" "restartReply (armStableTimer cfg s) = restartReply s"
  "closeReply (armStableTimer cfg s) = closeReply s" "sessionOutcome (armStableTimer cfg s) = sessionOutcome s"
  "closing (armStableTimer cfg s) = closing s" "controlQueue (armStableTimer cfg s) = controlQueue s" "controlID (armStableTimer cfg s) = controlID s"
  "inFlight (armStableTimer cfg s) = inFlight s" "sv_done (armStableTimer cfg s) = sv_done s" "sv_replies (armStableTimer cfg s) = sv_replies s"
  "sv_admissions (armStableTimer cfg s) = sv_admissions s" "sv_published (armStableTimer cfg s) = sv_published s"
  "sv_actions (armStableTimer cfg s) = sv_actions s"
  "stableTimer (armStableTimer cfg s) = (if ConsecutiveFailures (sv_snapshot s) = 0 then None else Some (StableWindow (cfg_Restart cfg)))"
  "stableInstance (armStableTimer cfg s) = (if ConsecutiveFailures (sv_snapshot s) = 0 then 0 else instanceID s)"
  by (simp_all add: armStableTimer_def Let_def cancelStableTimer_def)

lemma commitControl_keeps [simp]:
  "sv_session (commitControl new s) = sv_session s" "instanceID (commitControl new s) = instanceID s" "launches (commitControl new s) = launches s"
  "sv_timer (commitControl new s) = sv_timer s" "stableTimer (commitControl new s) = stableTimer s"
  "stableInstance (commitControl new s) = stableInstance s" "stopIntent (commitControl new s) = stopIntent s"
  "disableReply (commitControl new s) = disableReply s" "restartReply (commitControl new s) = restartReply s"
  "closeReply (commitControl new s) = closeReply s" "sessionOutcome (commitControl new s) = sessionOutcome s"
  "closing (commitControl new s) = closing s" "controlQueue (commitControl new s) = controlQueue s" "controlID (commitControl new s) = controlID s"
  "inFlight (commitControl new s) = inFlight s" "sv_done (commitControl new s) = sv_done s" "sv_replies (commitControl new s) = sv_replies s"
  "sv_admissions (commitControl new s) = sv_admissions s" "sv_actions (commitControl new s) = sv_actions s"
  "rs_State (sv_snapshot (commitControl new s)) = rs_State (sv_snapshot s)"
  "rs_Enabled (sv_snapshot (commitControl new s)) = rs_Enabled (sv_snapshot s)"
  "ConsecutiveFailures (sv_snapshot (commitControl new s)) = ConsecutiveFailures (sv_snapshot s)"
  "sv_control (commitControl new s) = new\<lparr>cs_Config := config_clone (cs_Config new)\<rparr>"
  "rs_Active (sv_snapshot (commitControl new s)) = cs_Active new" "ConfigRevision (sv_snapshot (commitControl new s)) = Revision (cs_Config new)"
  "SubscriptionGeneration (sv_snapshot (commitControl new s)) = sub_Generation (cs_Subscription new)"
  by (simp_all add: commitControl_def)

lemma clearRuntimeMetrics_keeps [simp]:
  "rs_State (clearRuntimeMetrics cfg sn) = rs_State sn"
  "rs_Enabled (clearRuntimeMetrics cfg sn) = rs_Enabled sn"
  "rs_Active (clearRuntimeMetrics cfg sn) = rs_Active sn"
  "ConfigRevision (clearRuntimeMetrics cfg sn) = ConfigRevision sn"
  "SubscriptionGeneration (clearRuntimeMetrics cfg sn) = SubscriptionGeneration sn"
  "ConsecutiveFailures (clearRuntimeMetrics cfg sn) = ConsecutiveFailures sn"
  by (simp_all add: clearRuntimeMetrics_def)

lemma fold_answer: "fold (\<lambda>q. answer (f q) e) qs s = s\<lparr>sv_replies := sv_replies s @ map (\<lambda>q. (f q, e)) qs\<rparr>"
  by (induction qs arbitrary: s) (simp_all add: answer_def)

definition pending_controls :: "supervisor \<Rightarrow> nat list" where
  "pending_controls s = (case inFlight s of None \<Rightarrow> [] | Some x \<Rightarrow> [if_call x]) @ map qc_call (controlQueue s)"

lemma retireControls_eq:
  "retireControls s = s\<lparr>sv_replies := sv_replies s @ map (\<lambda>i. (i, Some ErrInvalidState)) (pending_controls s), inFlight := None, controlQueue := [],
     controlID := controlID s + 1\<rparr>"
  by (cases "inFlight s") (simp_all add: retireControls_def fold_answer pending_controls_def answer_def Let_def o_def)

lemma retireControls_keeps [simp]:
  "sv_snapshot (retireControls s) = sv_snapshot s" "sv_control (retireControls s) = sv_control s" "sv_session (retireControls s) = sv_session s"
  "instanceID (retireControls s) = instanceID s" "launches (retireControls s) = launches s" "sv_timer (retireControls s) = sv_timer s"
  "stableTimer (retireControls s) = stableTimer s" "stableInstance (retireControls s) = stableInstance s"
  "stopIntent (retireControls s) = stopIntent s" "disableReply (retireControls s) = disableReply s" "restartReply (retireControls s) = restartReply s"
  "closeReply (retireControls s) = closeReply s" "sessionOutcome (retireControls s) = sessionOutcome s" "closing (retireControls s) = closing s"
  "sv_done (retireControls s) = sv_done s" "sv_admissions (retireControls s) = sv_admissions s" "sv_published (retireControls s) = sv_published s"
  "sv_actions (retireControls s) = sv_actions s" "inFlight (retireControls s) = None" "controlQueue (retireControls s) = []"
  "controlID (retireControls s) = controlID s + 1"
  "sv_replies (retireControls s) = sv_replies s @ map (\<lambda>i. (i, Some ErrInvalidState)) (pending_controls s)"
  by (simp_all add: retireControls_eq)

lemma startSession_simps [simp]:
  "rs_State (sv_snapshot (startSession cfg env s)) = (if env_session env \<noteq> 0 \<and> env_launches env then StateStarting else StateIncompatible)"
  "rs_Enabled (sv_snapshot (startSession cfg env s)) = rs_Enabled (sv_snapshot s)"
  "rs_Active (sv_snapshot (startSession cfg env s)) = rs_Active (sv_snapshot s)"
  "ConfigRevision (sv_snapshot (startSession cfg env s)) = ConfigRevision (sv_snapshot s)"
  "SubscriptionGeneration (sv_snapshot (startSession cfg env s)) = SubscriptionGeneration (sv_snapshot s)"
  "ConsecutiveFailures (sv_snapshot (startSession cfg env s)) = ConsecutiveFailures (sv_snapshot s)"
  "sv_control (startSession cfg env s) = sv_control s"
  "sv_session (startSession cfg env s) \<longleftrightarrow> sv_session s \<or> env_session env \<noteq> 0 \<and> env_launches env"
  "instanceID (startSession cfg env s) = (if env_session env = 0 then instanceID s else env_session env)"
  "sv_timer (startSession cfg env s) = sv_timer s" "stableTimer (startSession cfg env s) = None"
  "stopIntent (startSession cfg env s) = stopIntent s" "disableReply (startSession cfg env s) = disableReply s"
  "restartReply (startSession cfg env s) = restartReply s" "closeReply (startSession cfg env s) = closeReply s"
  "closing (startSession cfg env s) = closing s" "controlQueue (startSession cfg env s) = controlQueue s"
  "inFlight (startSession cfg env s) = inFlight s" "sv_done (startSession cfg env s) = sv_done s"
  "sv_replies (startSession cfg env s) = sv_replies s" "sv_admissions (startSession cfg env s) = sv_admissions s"
  "sv_actions (startSession cfg env s) = sv_actions s @ (if env_session env \<noteq> 0 \<and> env_launches env
     then [Launched (env_session env) \<lparr>startup_Active = cs_Active (sv_control s), startup_Config = config_clone (cs_Config (sv_control s)),
       startup_Subscription = cs_Subscription (sv_control s)\<rparr>] else [])"
  by (simp_all add: startSession_def Let_def block_defs)

lemma dispatch_queue_keeps:
  "sv_snapshot (dispatch_queue env qs s) = sv_snapshot s \<and> sv_control (dispatch_queue env qs s) = sv_control s \<and>
   sv_session (dispatch_queue env qs s) = sv_session s \<and> instanceID (dispatch_queue env qs s) = instanceID s \<and>
   sv_timer (dispatch_queue env qs s) = sv_timer s \<and> stableTimer (dispatch_queue env qs s) = stableTimer s \<and>
   stableInstance (dispatch_queue env qs s) = stableInstance s \<and> stopIntent (dispatch_queue env qs s) = stopIntent s \<and>
   disableReply (dispatch_queue env qs s) = disableReply s \<and> restartReply (dispatch_queue env qs s) = restartReply s \<and>
   closeReply (dispatch_queue env qs s) = closeReply s \<and> closing (dispatch_queue env qs s) = closing s \<and>
   sv_done (dispatch_queue env qs s) = sv_done s \<and> sv_admissions (dispatch_queue env qs s) = sv_admissions s"
  by (induction env qs s rule: dispatch_queue.induct)
     (auto simp: launch_control_def answer_def act_def Let_def split: sum.split prod.split)

lemma dispatch_keeps [simp]:
  "sv_snapshot (dispatchNextControl env s) = sv_snapshot s" "sv_control (dispatchNextControl env s) = sv_control s"
  "sv_session (dispatchNextControl env s) = sv_session s" "instanceID (dispatchNextControl env s) = instanceID s"
  "sv_timer (dispatchNextControl env s) = sv_timer s" "stableTimer (dispatchNextControl env s) = stableTimer s"
  "stableInstance (dispatchNextControl env s) = stableInstance s" "stopIntent (dispatchNextControl env s) = stopIntent s"
  "disableReply (dispatchNextControl env s) = disableReply s" "restartReply (dispatchNextControl env s) = restartReply s"
  "closeReply (dispatchNextControl env s) = closeReply s" "closing (dispatchNextControl env s) = closing s"
  "sv_done (dispatchNextControl env s) = sv_done s" "sv_admissions (dispatchNextControl env s) = sv_admissions s"
  by (simp_all add: dispatchNextControl_def dispatch_queue_keeps)

section \<open>The life of the session\<close>

definition live_states :: "string set" where
  "live_states = {StateStarting, StateHandshaking, StateRunning, StateUnresponsive}"

definition idle_states :: "string set" where
  "idle_states = {StateDisabled, StateStopped, StateBackoff, StateCrashed, StateIncompatible}"

definition idle_ok :: "supervisor_config \<Rightarrow> supervisor \<Rightarrow> bool" where
  \<comment> \<open>no session: a timer runs exactly in backoff\<close>
  "idle_ok cfg s \<longleftrightarrow> \<not> sv_session s \<and> stopIntent s = supervisorStopNone \<and> disableReply s = None \<and> restartReply s = None \<and>
     closeReply s = None \<and> stableTimer s = None \<and> rs_State (sv_snapshot s) \<in> idle_states \<and>
     (rs_State (sv_snapshot s) = StateDisabled \<longleftrightarrow> \<not> rs_Enabled (sv_snapshot s)) \<and>
     sv_timer s = (if rs_State (sv_snapshot s) = StateBackoff
       then Some (restartDelay (cfg_Restart cfg) (ConsecutiveFailures (sv_snapshot s))) else None) \<and>
     (rs_State (sv_snapshot s) = StateBackoff \<longrightarrow> ConsecutiveFailures (sv_snapshot s) < MaxFailures (cfg_Restart cfg)) \<and>
     (rs_State (sv_snapshot s) = StateCrashed \<longrightarrow> MaxFailures (cfg_Restart cfg) \<le> ConsecutiveFailures (sv_snapshot s)) \<and>
     closing s = sv_done s \<and> (closing s \<longrightarrow> \<not> rs_Enabled (sv_snapshot s))"

definition live_ok :: "supervisor \<Rightarrow> bool" where
  \<comment> \<open>a session that is not being stopped: the plugin is enabled\<close>
  "live_ok s \<longleftrightarrow> sv_session s \<and> stopIntent s = supervisorStopNone \<and> disableReply s = None \<and> restartReply s = None \<and>
     closeReply s = None \<and> rs_State (sv_snapshot s) \<in> live_states \<and> rs_Enabled (sv_snapshot s) \<and> sv_timer s = None \<and>
     \<not> closing s \<and> \<not> sv_done s \<and> (stableTimer s \<noteq> None \<longrightarrow> rs_State (sv_snapshot s) = StateRunning \<and>
       stableInstance s = instanceID s \<and> ConsecutiveFailures (sv_snapshot s) \<noteq> 0)"

definition stopping_ok :: "supervisor \<Rightarrow> bool" where
  \<comment> \<open>a session that is being stopped, for one reason at a time\<close>
  "stopping_ok s \<longleftrightarrow> sv_session s \<and> rs_State (sv_snapshot s) = StateStopping \<and> sv_timer s = None \<and> stableTimer s = None \<and> \<not> sv_done s \<and>
     stopIntent s \<noteq> supervisorStopNone \<and> rs_Enabled (sv_snapshot s) = (stopIntent s = supervisorStopRestart) \<and>
     closing s = (stopIntent s = supervisorStopClose) \<and> (restartReply s \<noteq> None) = (stopIntent s = supervisorStopRestart) \<and>
     (closeReply s \<noteq> None) = (stopIntent s = supervisorStopClose) \<and> (stopIntent s = supervisorStopDisable \<longrightarrow> disableReply s \<noteq> None) \<and>
     (stopIntent s = supervisorStopRestart \<longrightarrow> disableReply s = None)"

definition lifecycle_ok :: "supervisor_config \<Rightarrow> supervisor \<Rightarrow> bool" where
  "lifecycle_ok cfg s \<longleftrightarrow> idle_ok cfg s \<or> live_ok s \<or> stopping_ok s"

lemmas life_defs = idle_ok_def live_ok_def stopping_ok_def lifecycle_ok_def

lemma states_differ [simp]:
  "StateDisabled \<noteq> StateStopped" "StateDisabled \<noteq> StateBackoff" "StateDisabled \<noteq> StateCrashed" "StateDisabled \<noteq> StateIncompatible"
  "StateStopped \<noteq> StateBackoff" "StateStopped \<noteq> StateCrashed" "StateStopped \<noteq> StateDisabled" "StateStopped \<noteq> StateIncompatible"
  "StateBackoff \<noteq> StateDisabled" "StateBackoff \<noteq> StateStopped" "StateBackoff \<noteq> StateCrashed" "StateBackoff \<noteq> StateIncompatible"
  "StateCrashed \<noteq> StateDisabled" "StateCrashed \<noteq> StateStopped" "StateCrashed \<noteq> StateBackoff" "StateCrashed \<noteq> StateIncompatible"
  "StateIncompatible \<noteq> StateDisabled" "StateIncompatible \<noteq> StateStopped" "StateIncompatible \<noteq> StateBackoff" "StateIncompatible \<noteq> StateCrashed"
  "StateStarting \<noteq> StateHandshaking" "StateStarting \<noteq> StateRunning" "StateStarting \<noteq> StateUnresponsive" "StateStarting \<noteq> StateStopping"
  "StateHandshaking \<noteq> StateStarting" "StateHandshaking \<noteq> StateRunning" "StateHandshaking \<noteq> StateUnresponsive" "StateHandshaking \<noteq> StateStopping"
  "StateRunning \<noteq> StateStarting" "StateRunning \<noteq> StateHandshaking" "StateRunning \<noteq> StateUnresponsive" "StateRunning \<noteq> StateStopping"
  "StateUnresponsive \<noteq> StateStarting" "StateUnresponsive \<noteq> StateHandshaking" "StateUnresponsive \<noteq> StateRunning" "StateUnresponsive \<noteq> StateStopping"
  "StateStopping \<noteq> StateRunning" "StateStopping \<noteq> StateBackoff" "StateStopping \<noteq> StateCrashed" "StateStopping \<noteq> StateStopped"
  "StateBackoff \<noteq> StateStopping" "StateBackoff \<notin> live_states" "StateCrashed \<notin> live_states"  "StateStopping \<notin> live_states" "StateStopping \<notin> idle_states"
  "StateStarting \<noteq> StateBackoff" "StateStarting \<noteq> StateCrashed" "StateHandshaking \<noteq> StateBackoff" "StateHandshaking \<noteq> StateCrashed"
  "StateRunning \<noteq> StateBackoff" "StateRunning \<noteq> StateCrashed" "StateUnresponsive \<noteq> StateBackoff" "StateUnresponsive \<noteq> StateCrashed"
  "StateBackoff \<noteq> StateStarting" "StateCrashed \<noteq> StateStarting" "StateBackoff \<noteq> StateHandshaking" "StateCrashed \<noteq> StateHandshaking"
  "StateBackoff \<noteq> StateRunning" "StateCrashed \<noteq> StateRunning" "StateBackoff \<noteq> StateUnresponsive" "StateCrashed \<noteq> StateUnresponsive"
  "StateStarting \<in> live_states" "StateHandshaking \<in> live_states" "StateRunning \<in> live_states" "StateUnresponsive \<in> live_states"
  "StateDisabled \<in> idle_states" "StateStopped \<in> idle_states" "StateBackoff \<in> idle_states" "StateCrashed \<in> idle_states" "StateIncompatible \<in> idle_states"
  by (simp_all add: state_names live_states_def idle_states_def)

lemma lifecycle_keeps [simp]:
  "lifecycle_ok cfg (signalAdmission i e s) = lifecycle_ok cfg s" "lifecycle_ok cfg (answer i e s) = lifecycle_ok cfg s"
  "lifecycle_ok cfg (act a s) = lifecycle_ok cfg s" "lifecycle_ok cfg (publish s) = lifecycle_ok cfg s"
  "lifecycle_ok cfg (dispatchNextControl env s) = lifecycle_ok cfg s" "lifecycle_ok cfg (retireControls s) = lifecycle_ok cfg s"
  "lifecycle_ok cfg (s\<lparr>controlQueue := qs\<rparr>) = lifecycle_ok cfg s" "lifecycle_ok cfg (s\<lparr>inFlight := x\<rparr>) = lifecycle_ok cfg s"
  "lifecycle_ok cfg (s\<lparr>sessionOutcome := r\<rparr>) = lifecycle_ok cfg s" "lifecycle_ok cfg (commitControl new s) = lifecycle_ok cfg s"
  "lifecycle_ok cfg (on_snapshot (\<lambda>sn. sn\<lparr>LastError := t\<rparr>) s) = lifecycle_ok cfg s"
  by (simp_all add: life_defs)

lemma lifecycle_start:
  assumes "\<not> sv_session s" "stopIntent s = supervisorStopNone" "sv_timer s = None" "rs_Enabled (sv_snapshot s)" "\<not> closing s"
    "disableReply s = None" "restartReply s = None" "closeReply s = None" "\<not> sv_done s"
  shows "lifecycle_ok cfg (startSession cfg env s)"
  using assms by (simp add: life_defs)

lemma lifecycle_begin:
  assumes "newPluginSupervisor cfg0 = Inr (cfg, s)"
  shows "lifecycle_ok cfg (supervisor_begin cfg env s)"
proof -
  have s: "\<not> sv_session s" "stopIntent s = supervisorStopNone" "sv_timer s = None" "\<not> closing s" "stableTimer s = None"
    "disableReply s = None" "restartReply s = None" "closeReply s = None" "\<not> sv_done s"
    using assms by (auto simp: newPluginSupervisor_def guard_result_Inr Let_def)
  show ?thesis
  proof (cases "rs_Enabled (sv_snapshot s)")
    case True
    then have "lifecycle_ok cfg (startSession cfg env (publish s))" using s by (intro lifecycle_start) simp_all
    then show ?thesis using True by (simp add: supervisor_begin_def)
  next
    case False
    then show ?thesis using s by (simp add: supervisor_begin_def life_defs Let_def)
  qed
qed

lemma beginStop_simps [simp]:
  "rs_State (sv_snapshot (beginStop cfg intent i s)) = StateStopping"
  "rs_Enabled (sv_snapshot (beginStop cfg intent i s)) = rs_Enabled (sv_snapshot s)"
  "rs_Active (sv_snapshot (beginStop cfg intent i s)) = rs_Active (sv_snapshot s)"
  "ConfigRevision (sv_snapshot (beginStop cfg intent i s)) = ConfigRevision (sv_snapshot s)"
  "SubscriptionGeneration (sv_snapshot (beginStop cfg intent i s)) = SubscriptionGeneration (sv_snapshot s)"
  "ConsecutiveFailures (sv_snapshot (beginStop cfg intent i s)) = ConsecutiveFailures (sv_snapshot s)"
  "sv_control (beginStop cfg intent i s) = sv_control s" "sv_session (beginStop cfg intent i s) = sv_session s"
  "instanceID (beginStop cfg intent i s) = instanceID s" "sv_timer (beginStop cfg intent i s) = sv_timer s"
  "stableTimer (beginStop cfg intent i s) = None" "stopIntent (beginStop cfg intent i s) = intent"
  "disableReply (beginStop cfg intent i s) = (if intent = supervisorStopDisable then Some i else disableReply s)"
  "restartReply (beginStop cfg intent i s) = (if intent = supervisorStopRestart then Some i else restartReply s)"
  "closeReply (beginStop cfg intent i s) = (if intent = supervisorStopClose then Some i else closeReply s)"
  "closing (beginStop cfg intent i s) = closing s" "controlQueue (beginStop cfg intent i s) = []" "inFlight (beginStop cfg intent i s) = None"
  "sv_done (beginStop cfg intent i s) = sv_done s" "sv_admissions (beginStop cfg intent i s) = sv_admissions s"
  "sv_replies (beginStop cfg intent i s) = sv_replies s @ map (\<lambda>i. (i, Some ErrInvalidState)) (pending_controls s)"
  "sv_actions (beginStop cfg intent i s) = sv_actions s @ [StopRequested (instanceID s)]"
  by (cases intent; simp add: beginStop_def Let_def)+

lemma handleControlCommand_life [simp]:
  "lifecycle_ok cfg (handleControlCommand cfg0 env i c s) = lifecycle_ok cfg s" "sv_done (handleControlCommand cfg0 env i c s) = sv_done s"
  by (simp_all add: handleControlCommand_def Let_def split: sum.split prod.split)

lemma finish_not_done: "\<not> sv_done s \<Longrightarrow> finish (s, False) = s"
  by (simp add: finish_def)

lemma finish_simps [simp]:
  "finish (s, False) = s\<lparr>sv_done := False\<rparr>" "finish (s, True) = s\<lparr>sv_done := True\<rparr>"
  by (simp_all add: finish_def)

lemma undone [simp]: "\<not> sv_done s \<Longrightarrow> s\<lparr>sv_done := False\<rparr> = s"
  by (cases s) simp

text \<open>From each of the three phases, what the handlers lead to.\<close>

lemma lifecycle_stop:
  assumes "live_ok s" "intent \<noteq> supervisorStopNone" "sv_session t" "sv_timer t = None" "\<not> sv_done t"
    "disableReply t = None" "restartReply t = None" "closeReply t = None"
    "rs_Enabled (sv_snapshot t) \<longleftrightarrow> intent = supervisorStopRestart" "closing t \<longleftrightarrow> intent = supervisorStopClose"
  shows "lifecycle_ok cfg (beginStop cfg intent i t)"
  using assms(2-) by (cases intent) (simp_all add: lifecycle_ok_def stopping_ok_def)

lemma idleD:
  assumes "idle_ok cfg s" "\<not> sv_done s"
  shows "\<not> sv_session s" "stopIntent s = supervisorStopNone" "disableReply s = None" "restartReply s = None" "closeReply s = None"
    "stableTimer s = None" "\<not> closing s" "rs_State (sv_snapshot s) \<noteq> StateBackoff \<Longrightarrow> sv_timer s = None"
  using assms by (simp_all add: idle_ok_def)

lemma liveD:
  assumes "live_ok s"
  shows "sv_session s" "stopIntent s = supervisorStopNone" "disableReply s = None" "restartReply s = None" "closeReply s = None"
    "sv_timer s = None" "\<not> closing s" "\<not> sv_done s" "rs_Enabled (sv_snapshot s)" "rs_State (sv_snapshot s) \<in> live_states"
  using assms by (simp_all add: live_ok_def)

lemma lifecycle_disabled:
  assumes "\<not> sv_session s" "stopIntent s = supervisorStopNone" "disableReply s = None" "restartReply s = None" "closeReply s = None"
    "stableTimer s = None" "sv_timer s = None" "closing s = sv_done s" "\<not> rs_Enabled (sv_snapshot s)" "rs_State (sv_snapshot s) = StateDisabled"
  shows "lifecycle_ok cfg s"
  using assms by (simp add: life_defs)

lemma idle_command:
  assumes idle: "idle_ok cfg s" and nd: "\<not> sv_done s"
  shows "lifecycle_ok cfg (finish (handleCommand cfg env i c s))"
proof -
  note D = idleD [OF idle nd]
  have ok: "lifecycle_ok cfg s" using idle by (simp add: lifecycle_ok_def)
  consider "i \<in> set (env_cancelled env)" | "i \<notin> set (env_cancelled env)" "sc_kind c = supervisorEnable"
    | "i \<notin> set (env_cancelled env)" "sc_kind c = supervisorDisable" | "i \<notin> set (env_cancelled env)" "sc_kind c = supervisorRestart"
    | "i \<notin> set (env_cancelled env)" "sc_kind c = supervisorClose"
    | "i \<notin> set (env_cancelled env)" "sc_kind c \<noteq> supervisorEnable" "sc_kind c \<noteq> supervisorDisable" "sc_kind c \<noteq> supervisorRestart" "sc_kind c \<noteq> supervisorClose"
    by blast
  then show ?thesis
  proof cases
    case 1
    then show ?thesis using ok nd by (simp add: handleCommand_def Let_def)
  next
    case 2
    then show ?thesis using ok nd D
      by (auto simp: handleCommand_def Let_def command_kinds intro!: lifecycle_start)
  next
    case 3
    then show ?thesis using ok nd D
      by (auto simp: handleCommand_def Let_def command_kinds intro!: lifecycle_disabled)
  next
    case 4
    then show ?thesis using ok nd D
      by (auto simp: handleCommand_def Let_def command_kinds intro!: lifecycle_disabled lifecycle_start)
  next
    case 5
    then show ?thesis using ok nd D
      by (auto simp: handleCommand_def Let_def command_kinds intro!: lifecycle_disabled lifecycle_start)
  next
    case 6
    then show ?thesis using ok nd D by (simp add: handleCommand_def Let_def)
  qed
qed

lemma live_command:
  assumes live: "live_ok s"
  shows "lifecycle_ok cfg (finish (handleCommand cfg env i c s))"
proof -
  note D = liveD [OF live]
  have ok: "lifecycle_ok cfg s" using live by (simp add: lifecycle_ok_def)
  have ne: "rs_State (sv_snapshot s) \<noteq> StateStopping" using D(10) by auto
  consider "i \<in> set (env_cancelled env)" | "i \<notin> set (env_cancelled env)" "sc_kind c = supervisorEnable"
    | "i \<notin> set (env_cancelled env)" "sc_kind c = supervisorDisable" | "i \<notin> set (env_cancelled env)" "sc_kind c = supervisorRestart"
    | "i \<notin> set (env_cancelled env)" "sc_kind c = supervisorClose"
    | "i \<notin> set (env_cancelled env)" "sc_kind c \<noteq> supervisorEnable" "sc_kind c \<noteq> supervisorDisable" "sc_kind c \<noteq> supervisorRestart" "sc_kind c \<noteq> supervisorClose"
    by blast
  then show ?thesis
  proof cases
    case 1
    then show ?thesis using ok D by (simp add: handleCommand_def Let_def)
  next
    case 2
    then show ?thesis using ok D by (simp add: handleCommand_def Let_def command_kinds)
  next
    case 3
    then show ?thesis using D by (auto simp: handleCommand_def Let_def command_kinds intro!: lifecycle_stop [OF live])
  next
    case 4
    then show ?thesis using D by (auto simp: handleCommand_def Let_def command_kinds intro!: lifecycle_stop [OF live])
  next
    case 5
    then show ?thesis using D by (auto simp: handleCommand_def Let_def command_kinds intro!: lifecycle_stop [OF live])
  next
    case 6
    then show ?thesis using ok D by (simp add: handleCommand_def Let_def)
  qed
qed

lemma stoppingD:
  assumes "stopping_ok s"
  shows "sv_session s" "stopIntent s \<noteq> supervisorStopNone" "rs_State (sv_snapshot s) = StateStopping" "sv_timer s = None" "stableTimer s = None"
    "\<not> sv_done s" "closing s \<longleftrightarrow> stopIntent s = supervisorStopClose" "rs_Enabled (sv_snapshot s) \<longleftrightarrow> stopIntent s = supervisorStopRestart"
    "restartReply s \<noteq> None \<longleftrightarrow> stopIntent s = supervisorStopRestart"
  using assms by (simp_all add: stopping_ok_def)

lemma lifecycle_closing:
  assumes "stopping_ok s" "sv_session t" "rs_State (sv_snapshot t) = StateStopping" "sv_timer t = None" "stableTimer t = None" "\<not> sv_done t"
    "stopIntent t = supervisorStopClose" "\<not> rs_Enabled (sv_snapshot t)" "closing t" "restartReply t = None" "closeReply t \<noteq> None"
  shows "lifecycle_ok cfg t"
  using assms(2-) by (simp add: lifecycle_ok_def stopping_ok_def)

lemma stopping_command:
  assumes stopping: "stopping_ok s"
  shows "lifecycle_ok cfg (finish (handleCommand cfg env i c s))"
proof -
  note D = stoppingD [OF stopping]
  have ok: "lifecycle_ok cfg s" using stopping by (simp add: lifecycle_ok_def)
  consider "i \<in> set (env_cancelled env) \<or> closing s \<or> sc_kind c \<noteq> supervisorClose"
    | "i \<notin> set (env_cancelled env)" "\<not> closing s" "sc_kind c = supervisorClose" by blast
  then show ?thesis
  proof cases
    case 1
    then show ?thesis using ok D by (auto simp: handleCommand_def Let_def)
  next
    case 2
    then have "stopIntent s = supervisorStopDisable \<or> stopIntent s = supervisorStopRestart" using D(2,7) by (cases "stopIntent s") auto
    then show ?thesis using 2 D
      by (elim disjE; simp add: handleCommand_def Let_def command_kinds; auto intro!: lifecycle_closing [OF stopping])
  qed
qed

lemma lifecycle_live:
  assumes "live_ok s" "sv_session t" "stopIntent t = supervisorStopNone" "disableReply t = None" "restartReply t = None" "closeReply t = None"
    "rs_State (sv_snapshot t) \<in> live_states" "rs_Enabled (sv_snapshot t)" "sv_timer t = None" "\<not> closing t" "\<not> sv_done t"
    "stableTimer t \<noteq> None \<longrightarrow> rs_State (sv_snapshot t) = StateRunning \<and> stableInstance t = instanceID t \<and> ConsecutiveFailures (sv_snapshot t) \<noteq> 0"
  shows "lifecycle_ok cfg t"
  using assms(2-) by (simp add: lifecycle_ok_def live_ok_def)

lemma lifecycle_new:
  assumes "sv_session t \<and> rs_State (sv_snapshot t) = StateStarting \<or> \<not> sv_session t \<and> rs_State (sv_snapshot t) = StateIncompatible"
    "stopIntent t = supervisorStopNone" "disableReply t = None" "restartReply t = None" "closeReply t = None" "rs_Enabled (sv_snapshot t)"
    "sv_timer t = None" "\<not> closing t" "\<not> sv_done t" "stableTimer t = None"
  shows "lifecycle_ok cfg t"
  using assms by (elim disjE) (simp_all add: life_defs)

lemma live_stable:
  "live_ok s \<Longrightarrow> stableTimer s \<noteq> None \<Longrightarrow> rs_State (sv_snapshot s) = StateRunning \<and> stableInstance s = instanceID s \<and> ConsecutiveFailures (sv_snapshot s) \<noteq> 0"
  by (simp add: live_ok_def)

lemma lifecycle_idle:
  assumes "\<not> sv_session t" "stopIntent t = supervisorStopNone" "disableReply t = None" "restartReply t = None" "closeReply t = None"
    "stableTimer t = None" "rs_Enabled (sv_snapshot t)" "\<not> closing t" "\<not> sv_done t"
    "rs_State (sv_snapshot t) = StateStopped \<and> sv_timer t = None \<or> rs_State (sv_snapshot t) = StateIncompatible \<and> sv_timer t = None \<or>
     rs_State (sv_snapshot t) = StateBackoff \<and> sv_timer t = Some (restartDelay (cfg_Restart cfg) (ConsecutiveFailures (sv_snapshot t))) \<and>
       ConsecutiveFailures (sv_snapshot t) < MaxFailures (cfg_Restart cfg) \<or>
     rs_State (sv_snapshot t) = StateCrashed \<and> sv_timer t = None \<and> MaxFailures (cfg_Restart cfg) \<le> ConsecutiveFailures (sv_snapshot t)"
  shows "lifecycle_ok cfg t"
  using assms by (elim disjE) (simp_all add: lifecycle_ok_def idle_ok_def)

lemma lifecycle_callback:
  assumes "lifecycle_ok cfg s"
  shows "lifecycle_ok cfg (handleCallback cfg env c s)"
proof (cases "live_ok s \<and> cb_instance c = instanceID s")
  case True
  then have live: "live_ok s" by simp
  note D = liveD [OF live] and S = live_stable [OF live]
  show ?thesis
    using D True assms S
    by (cases "cb_kind c") (auto simp: handleCallback_def Let_def intro!: lifecycle_live [OF live])
next
  case False
  then have "handleCallback cfg env c s = s"
    using assms by (auto simp: handleCallback_def lifecycle_ok_def idle_ok_def live_ok_def stopping_ok_def)
  then show ?thesis using assms by simp
qed

lemma lifecycle_control [simp]: "lifecycle_ok cfg (handleControlResult env instance operation e s) = lifecycle_ok cfg s"
  by (simp add: handleControlResult_def Let_def split: option.split)

lemma lifecycle_schedule:
  assumes "\<not> sv_session t" "stopIntent t = supervisorStopNone" "disableReply t = None" "restartReply t = None" "closeReply t = None"
    "stableTimer t = None" "rs_Enabled (sv_snapshot t)" "\<not> closing t" "\<not> sv_done t" "sv_timer t = None"
  shows "lifecycle_ok cfg (schedule_restart cfg env t)"
  using assms by (simp add: schedule_restart_def Let_def) (simp add: life_defs)

lemma lifecycle_result:
  assumes "lifecycle_ok cfg s"
  shows "lifecycle_ok cfg (handleSessionResult cfg env instance r s)"
proof (cases "live_ok s \<and> instance = instanceID s")
  case True
  then have live: "live_ok s" by simp
  note D = liveD [OF live]
  show ?thesis
  proof (cases "sr_Err r")
    case None
    then show ?thesis using D True by (simp add: handleSessionResult_def Let_def, intro lifecycle_idle) simp_all
  next
    case (Some e)
    then show ?thesis using D True
      by (cases "Retryable r"; simp add: handleSessionResult_def Let_def; intro lifecycle_schedule lifecycle_idle; simp)
  qed
next
  case False
  then have "handleSessionResult cfg env instance r s = s \<or> handleSessionResult cfg env instance r s = s\<lparr>sessionOutcome := Some r\<rparr>"
    using assms by (auto simp: handleSessionResult_def lifecycle_ok_def idle_ok_def live_ok_def stopping_ok_def)
  then show ?thesis using assms by auto
qed

definition stop_replies :: "supervisor \<Rightarrow> nat list" where
  "stop_replies s = (case disableReply s of Some j \<Rightarrow> [j] | None \<Rightarrow> []) @ (case restartReply s of Some j \<Rightarrow> [j] | None \<Rightarrow> []) @
     (case closeReply s of Some j \<Rightarrow> [j] | None \<Rightarrow> [])"

lemma answer_stops_eq: "answer_stops e s = s\<lparr>sv_replies := sv_replies s @ map (\<lambda>j. (j, e)) (stop_replies s), disableReply := None,
    restartReply := None, closeReply := None\<rparr>"
  by (cases "disableReply s"; cases "restartReply s"; cases "closeReply s") (simp_all add: answer_stops_def stop_replies_def answer_def Let_def)

lemma answer_stops_keeps [simp]:
  "sv_snapshot (answer_stops e s) = sv_snapshot s" "sv_control (answer_stops e s) = sv_control s" "sv_session (answer_stops e s) = sv_session s"
  "instanceID (answer_stops e s) = instanceID s" "sv_timer (answer_stops e s) = sv_timer s" "stableTimer (answer_stops e s) = stableTimer s"
  "stopIntent (answer_stops e s) = stopIntent s" "disableReply (answer_stops e s) = None" "restartReply (answer_stops e s) = None"
  "closeReply (answer_stops e s) = None" "closing (answer_stops e s) = closing s" "controlQueue (answer_stops e s) = controlQueue s"
  "inFlight (answer_stops e s) = inFlight s" "sv_done (answer_stops e s) = sv_done s" "sv_admissions (answer_stops e s) = sv_admissions s"
  "sv_actions (answer_stops e s) = sv_actions s" "sv_replies (answer_stops e s) = sv_replies s @ map (\<lambda>j. (j, e)) (stop_replies s)"
  by (simp_all add: answer_stops_eq)

lemma lifecycle_stopped:
  assumes "lifecycle_ok cfg s" "\<not> sv_done s"
  shows "lifecycle_ok cfg (finish (handleStopResult cfg env instance e s))"
proof (cases "stopping_ok s \<and> instance = instanceID s")
  case True
  then have stopping: "stopping_ok s" by simp
  note D = stoppingD [OF stopping]
  show ?thesis
  proof (cases "stopIntent s = supervisorStopRestart")
    case restart: True
    then have "handleStopResult cfg env instance e s = (answer_stops e (publish (startSession cfg env (publish (on_snapshot (\<lambda>sn. sn\<lparr>rs_State := StateStopped\<rparr>)
        (act (Stopped instance) (on_snapshot (clearRuntimeMetrics cfg) (s\<lparr>stopIntent := supervisorStopNone, sv_session := False, sessionOutcome := None\<rparr>))))))), False)"
      using True D by (simp add: handleStopResult_def Let_def after_stop_def)
    then show ?thesis
      using D restart by (simp del: lifecycle_keeps, intro lifecycle_new; simp)
  next
    case False
    then have "handleStopResult cfg env instance e s = (answer_stops e (publish (on_snapshot (\<lambda>sn. sn\<lparr>rs_State := StateDisabled\<rparr>)
        (act (Stopped instance) (on_snapshot (clearRuntimeMetrics cfg) (s\<lparr>stopIntent := supervisorStopNone, sv_session := False, sessionOutcome := None\<rparr>))))),
        stopIntent s = supervisorStopClose)"
      using True D by (cases "stopIntent s") (simp_all add: handleStopResult_def Let_def after_stop_def)
    then show ?thesis
      using D False by (simp only: finish_def fst_conv snd_conv, intro lifecycle_disabled; simp)
  qed
next
  case False
  have "stopIntent s = supervisorStopNone" if "\<not> stopping_ok s" using that assms by (auto simp: lifecycle_ok_def idle_ok_def live_ok_def)
  then have "handleStopResult cfg env instance e s = (s, False)" using False by (auto simp: handleStopResult_def)
  then show ?thesis using assms by simp
qed

lemma lifecycle_fires:
  assumes "lifecycle_ok cfg s" "sv_timer s \<noteq> None"
  shows "lifecycle_ok cfg (supervisor_fires cfg env s)"
proof -
  have idle: "idle_ok cfg s" "rs_State (sv_snapshot s) = StateBackoff"
    using assms by (auto simp: lifecycle_ok_def idle_ok_def live_ok_def stopping_ok_def split: if_splits)
  then have "rs_Enabled (sv_snapshot s)" "\<not> closing s" "\<not> sv_done s" by (auto simp: idle_ok_def)
  then show ?thesis using idleD [OF idle(1)] by (simp add: supervisor_fires_def Let_def lifecycle_start)
qed

lemma lifecycle_cancelled: "lifecycle_ok cfg s \<Longrightarrow> lifecycle_ok cfg (cancelStableTimer s)"
  by (elim disjE lifecycle_ok_def [THEN iffD1, elim_format]) (simp_all add: life_defs)

lemma lifecycle_cleared:
  assumes "live_ok s" "stableTimer s = None"
  shows "lifecycle_ok cfg (on_snapshot (\<lambda>sn. sn\<lparr>ConsecutiveFailures := 0\<rparr>) s)"
  using assms by (simp add: lifecycle_ok_def live_ok_def)

lemma lifecycle_stable:
  assumes "lifecycle_ok cfg s"
  shows "lifecycle_ok cfg (supervisor_stable s)"
proof (cases "live_ok s")
  case True
  then have "live_ok (cancelStableTimer s)" by (simp add: live_ok_def)
  then show ?thesis using assms by (simp add: supervisor_stable_def Let_def lifecycle_cancelled lifecycle_cleared)
next
  case False
  then have "rs_State (sv_snapshot s) = StateRunning \<longrightarrow> \<not> sv_session s"
    using assms by (auto simp: lifecycle_ok_def idle_ok_def stopping_ok_def)
  then have "supervisor_stable s = cancelStableTimer s" by (auto simp: supervisor_stable_def Let_def)
  then show ?thesis using assms by (simp add: lifecycle_cancelled)
qed

lemma lifecycle_run:
  assumes "lifecycle_ok cfg s" "\<not> sv_done s"
  shows "lifecycle_ok cfg (supervisor_run cfg env ev s)"
proof (cases ev)
  case (CommandEvent i c)
  then show ?thesis using assms idle_command live_command stopping_command by (auto simp: lifecycle_ok_def [of cfg s])
qed (use assms in \<open>simp_all add: lifecycle_result lifecycle_stopped lifecycle_callback lifecycle_fires lifecycle_stable\<close>)

lemma lifecycle_step: "supervisor_step cfg (calls, s) (calls', s') \<Longrightarrow> lifecycle_ok cfg s \<Longrightarrow> lifecycle_ok cfg s'"
  by (erule supervisor_stepE) (auto simp: lifecycle_run)

lemma reachable_lifecycle: "supervisor_reachable cfg0 cfg x \<Longrightarrow> lifecycle_ok cfg (snd x)"
proof (induction rule: supervisor_reachable.induct)
  case (start s env)
  then show ?case by (simp add: lifecycle_begin)
next
  case (step x y)
  then show ?case by (cases x; cases y) (auto dest: lifecycle_step)
qed

section \<open>The ledger of the calls\<close>

definition ledger :: "supervisor \<Rightarrow> nat multiset" where
  \<comment> \<open>the calls that have been answered and those that wait for an answer\<close>
  "ledger s = mset (map fst (sv_replies s)) + mset (pending_controls s) + mset (stop_replies s)"

lemma ledger_keeps [simp]:
  "ledger (signalAdmission i e s) = ledger s" "ledger (act a s) = ledger s" "ledger (publish s) = ledger s" "ledger (on_snapshot f s) = ledger s"
  "ledger (cancelTimer s) = ledger s" "ledger (cancelStableTimer s) = ledger s" "ledger (armStableTimer cfg s) = ledger s"
  "ledger (startSession cfg env s) = ledger s" "ledger (commitControl new s) = ledger s" "ledger (answer_stops e s) = ledger s"
  "ledger (answer i e s) = add_mset i (ledger s)" "ledger (retireControls s) = ledger s"
  "ledger (s\<lparr>closing := c\<rparr>) = ledger s" "ledger (s\<lparr>sv_done := c\<rparr>) = ledger s" "ledger (s\<lparr>sv_timer := t\<rparr>) = ledger s"
  "ledger (s\<lparr>sv_session := c\<rparr>) = ledger s" "ledger (s\<lparr>stopIntent := si\<rparr>) = ledger s" "ledger (s\<lparr>sessionOutcome := so\<rparr>) = ledger s"
  "ledger (s\<lparr>instanceID := n\<rparr>) = ledger s" "ledger (s\<lparr>controlID := n\<rparr>) = ledger s"
  "qs = controlQueue s \<Longrightarrow> ledger (s\<lparr>controlQueue := qs @ [q]\<rparr>) = add_mset (qc_call q) (ledger s)"
  by (simp_all add: ledger_def pending_controls_def stop_replies_def o_def)

lemma ledger_beginStop:
  assumes "disableReply s = None" "restartReply s = None" "closeReply s = None" "intent \<noteq> supervisorStopNone"
  shows "ledger (beginStop cfg intent i s) = add_mset i (ledger s)"
  using assms by (cases intent) (simp_all add: ledger_def pending_controls_def stop_replies_def o_def)

lemma ledger_queue:
  "inFlight s = None \<Longrightarrow> ledger (dispatch_queue env qs s) = ledger (s\<lparr>controlQueue := qs\<rparr>)"
proof (induction env qs s rule: dispatch_queue.induct)
  case (2 env q qs s)
  then show ?case
    by (auto simp: launch_control_def Let_def ledger_def pending_controls_def stop_replies_def split: sum.split prod.split)
qed (simp add: ledger_def)

lemma ledger_dispatch [simp]: "ledger (dispatchNextControl env s) = ledger s"
  by (simp add: dispatchNextControl_def ledger_queue)

lemma ledger_control_command [simp]: "ledger (handleControlCommand cfg env i c s) = add_mset i (ledger s)"
  by (simp add: handleControlCommand_def Let_def split: sum.split prod.split)

lemma ledger_answered: "inFlight s = Some x \<Longrightarrow> add_mset (if_call x) (ledger (s\<lparr>inFlight := None\<rparr>)) = ledger s"
  by (simp add: ledger_def pending_controls_def stop_replies_def)

lemma ledger_control_result [simp]: "ledger (handleControlResult env instance operation e s) = ledger s"
  by (simp add: handleControlResult_def Let_def ledger_answered split: option.split)

lemma ledger_session_result [simp]: "ledger (handleSessionResult cfg env instance r s) = ledger s"
  by (simp add: handleSessionResult_def schedule_restart_def Let_def split: option.split)

lemma ledger_callback [simp]: "ledger (handleCallback cfg env c s) = ledger s"
  by (simp add: handleCallback_def Let_def split: callback_kind.split)

lemma ledger_stop_result [simp]: "ledger (fst (handleStopResult cfg env instance e s)) = ledger s"
  by (simp add: handleStopResult_def after_stop_def Let_def split: stop_intent.split)

lemma ledger_close:
  "closeReply s = None \<Longrightarrow> ledger (s\<lparr>closeReply := Some i\<rparr>) = add_mset i (ledger s)"
  "restartReply s = Some j \<Longrightarrow> ledger ((answer j e s)\<lparr>restartReply := None\<rparr>) = ledger s"
  by (simp_all add: ledger_def pending_controls_def stop_replies_def)

lemma lifecycle_replies:
  assumes "lifecycle_ok cfg s"
  shows "stopIntent s = supervisorStopNone \<Longrightarrow> disableReply s = None \<and> restartReply s = None \<and> closeReply s = None"
    "\<not> closing s \<longrightarrow> closeReply s = None" "stopIntent s = supervisorStopClose \<longrightarrow> closing s"
    "stopIntent s = supervisorStopRestart \<Longrightarrow> restartReply s \<noteq> None"
  using assms by (auto simp: lifecycle_ok_def idle_ok_def live_ok_def stopping_ok_def)

lemma ledger_command:
  assumes "lifecycle_ok cfg s" "\<not> sv_done s"
  shows "ledger (fst (handleCommand cfg env i c s)) = add_mset i (ledger s)"
  using lifecycle_replies [OF assms(1)]
  by (cases "stopIntent s"; simp add: handleCommand_def Let_def command_kinds ledger_beginStop ledger_close split: option.split)

lemma ledger_run:
  assumes "lifecycle_ok cfg s" "\<not> sv_done s"
  shows "ledger (supervisor_run cfg env ev s) = mset_set (event_calls ev) + ledger s"
  by (cases ev) (simp_all add: finish_def ledger_command [OF assms] supervisor_fires_def supervisor_stable_def Let_def)

lemma reachable_ledger: "supervisor_reachable cfg0 cfg x \<Longrightarrow> finite (fst x) \<and> ledger (snd x) = mset_set (fst x)"
proof (induction rule: supervisor_reachable.induct)
  case (start s env)
  then show ?case
    by (auto simp: newPluginSupervisor_def guard_result_Inr Let_def supervisor_begin_def ledger_def pending_controls_def stop_replies_def)
next
  case (step x y)
  show ?case
    using step.hyps(2) step.IH reachable_lifecycle [OF step.hyps(1)]
  proof cases
    case (round s ev calls env)
    have "finite (event_calls ev)" by (cases ev) simp_all
    then show ?thesis using round step.IH reachable_lifecycle [OF step.hyps(1)] by (simp add: ledger_run mset_set_Union)
  qed (use step.IH in simp)
qed

section \<open>Admissions\<close>

definition replied :: "supervisor \<Rightarrow> (nat \<times> plugin_error option) set" where
  "replied s = set (sv_replies s)"

lemma replied_keeps [simp]:
  "replied (signalAdmission i e s) = replied s" "replied (act a s) = replied s" "replied (publish s) = replied s"
  "replied (on_snapshot f s) = replied s" "replied (cancelTimer s) = replied s" "replied (cancelStableTimer s) = replied s"
  "replied (armStableTimer cfg s) = replied s" "replied (startSession cfg env s) = replied s" "replied (commitControl new s) = replied s"
  "replied (answer i e s) = insert (i, e) (replied s)" "replied (s\<lparr>closing := c\<rparr>) = replied s" "replied (s\<lparr>sv_done := c\<rparr>) = replied s"
  "replied (s\<lparr>sv_timer := t\<rparr>) = replied s" "replied (s\<lparr>sv_session := c\<rparr>) = replied s" "replied (s\<lparr>stopIntent := si\<rparr>) = replied s"
  "replied (s\<lparr>sessionOutcome := so\<rparr>) = replied s" "replied (s\<lparr>controlQueue := qs\<rparr>) = replied s" "replied (s\<lparr>closeReply := r\<rparr>) = replied s"
  "replied (s\<lparr>restartReply := r\<rparr>) = replied s" "replied (s\<lparr>inFlight := x\<rparr>) = replied s" "replied (s\<lparr>sv_admissions := as\<rparr>) = replied s"
  by (simp_all add: replied_def)

lemma replied_more [simp]: "replied s \<subseteq> replied (retireControls s)" "replied s \<subseteq> replied (beginStop cfg intent i s)" "replied s \<subseteq> replied (answer_stops e s)"
  by (auto simp: replied_def)

lemma replied_queue: "replied s \<subseteq> replied (dispatch_queue env qs s)"
  by (induction env qs s rule: dispatch_queue.induct) (auto simp: launch_control_def replied_def Let_def split: sum.split prod.split)

lemma replied_dispatch [simp]: "replied s \<subseteq> replied (dispatchNextControl env s)"
  by (simp add: dispatchNextControl_def replied_queue)

definition signalled :: "nat \<Rightarrow> supervisor \<Rightarrow> supervisor \<Rightarrow> bool" where
  \<comment> \<open>the call is admitted or refused, and a refusal is its answer\<close>
  "signalled i s t \<longleftrightarrow> replied s \<subseteq> replied t \<and>
     (\<exists>e. sv_admissions t = sv_admissions s @ [(i, e)] \<and> (\<forall>err. e = Some err \<longrightarrow> (i, Some err) \<in> replied t))"

lemma signalled_refused:
  "map_of (sv_admissions s) i = None \<Longrightarrow> sv_admissions s = sv_admissions t \<Longrightarrow> replied s \<subseteq> replied t \<Longrightarrow> signalled i s (answer i e (signalAdmission i e t))"
  by (auto simp: signalled_def signalAdmission_def)

lemma signalled_accepted:
  "map_of (sv_admissions s) i = None \<Longrightarrow> sv_admissions s = sv_admissions t \<Longrightarrow> replied s \<subseteq> replied t \<Longrightarrow> signalled i s (signalAdmission i None t)"
  "map_of (sv_admissions s) i = None \<Longrightarrow> sv_admissions s = sv_admissions t \<Longrightarrow> replied s \<subseteq> replied t \<Longrightarrow> signalled i s (answer i e (signalAdmission i None t))"
  by (auto simp: signalled_def signalAdmission_def)

lemmas signalled_intros = signalled_refused signalled_accepted

lemma replied_grows:
  "replied s \<subseteq> replied t \<Longrightarrow> replied s \<subseteq> replied (retireControls t)" "replied s \<subseteq> replied t \<Longrightarrow> replied s \<subseteq> replied (beginStop cfg intent i t)"
  "replied s \<subseteq> replied t \<Longrightarrow> replied s \<subseteq> replied (dispatchNextControl env t)" "replied s \<subseteq> replied t \<Longrightarrow> replied s \<subseteq> replied (answer_stops e t)"
  by (erule subset_trans, rule replied_more replied_dispatch)+

lemma signalled_control: "map_of (sv_admissions s) i = None \<Longrightarrow> signalled i s (handleControlCommand cfg env i c s)"
  by (simp add: handleControlCommand_def Let_def signalled_intros replied_grows split: sum.split prod.split)

lemma signalled_command: "map_of (sv_admissions s) i = None \<Longrightarrow> signalled i s (fst (handleCommand cfg env i c s))"
  by (simp add: handleCommand_def Let_def signalled_intros signalled_control replied_grows subset_insertI2 split: option.split stop_intent.split)

lemma replied_control_result: "replied s \<subseteq> replied (handleControlResult env instance operation e s)"
  by (simp add: handleControlResult_def replied_grows subset_insertI Let_def split: option.split)

lemma replied_session_result: "replied s \<subseteq> replied (handleSessionResult cfg env instance r s)"
  by (simp add: handleSessionResult_def schedule_restart_def replied_grows Let_def split: option.split)

lemma replied_stop_result: "replied s \<subseteq> replied (fst (handleStopResult cfg env instance e s))"
  by (simp add: handleStopResult_def after_stop_def replied_grows Let_def split: stop_intent.split)

lemma replied_callback [simp]: "replied (handleCallback cfg env c s) = replied s" "sv_admissions (handleCallback cfg env c s) = sv_admissions s"
  by (simp_all add: handleCallback_def Let_def split: callback_kind.split)

lemma admissions_results [simp]:
  "sv_admissions (handleControlResult env instance operation e s) = sv_admissions s"
  "sv_admissions (handleSessionResult cfg env instance r s) = sv_admissions s"
  "sv_admissions (fst (handleStopResult cfg env instance e s)) = sv_admissions s"
  by (simp_all add: handleControlResult_def handleSessionResult_def handleStopResult_def schedule_restart_def after_stop_def Let_def split: option.split stop_intent.split)

lemma signalledD: "signalled i s t \<Longrightarrow> x \<in> replied s \<Longrightarrow> x \<in> replied t"
  by (auto simp: signalled_def)

definition admitted_ok :: "nat set \<Rightarrow> supervisor \<Rightarrow> bool" where
  "admitted_ok calls s \<longleftrightarrow> distinct (map fst (sv_admissions s)) \<and> fst ` set (sv_admissions s) = calls \<and>
     (\<forall>i e. (i, Some e) \<in> set (sv_admissions s) \<longrightarrow> (i, Some e) \<in> replied s)"

lemma admitted_keeps:
  "admitted_ok calls s \<Longrightarrow> sv_admissions t = sv_admissions s \<Longrightarrow> replied s \<subseteq> replied t \<Longrightarrow> admitted_ok calls t"
  by (auto simp: admitted_ok_def)

lemma admitted_more:
  assumes "admitted_ok calls s" "signalled i s t" "i \<notin> calls"
  shows "admitted_ok (insert i calls) t"
proof -
  obtain e where e: "sv_admissions t = sv_admissions s @ [(i, e)]" "\<And>err. e = Some err \<Longrightarrow> (i, Some err) \<in> replied t"
    using assms(2) by (auto simp: signalled_def)
  show ?thesis
    using assms(1,3) e signalledD [OF assms(2)] by (auto simp: admitted_ok_def)
qed

lemma admitted_fresh: "admitted_ok calls s \<Longrightarrow> i \<notin> calls \<Longrightarrow> map_of (sv_admissions s) i = None"
  by (auto simp: admitted_ok_def map_of_eq_None_iff)

lemma admitted_run:
  assumes "admitted_ok calls s" "event_calls ev \<inter> calls = {}"
  shows "admitted_ok (event_calls ev \<union> calls) (supervisor_run cfg env ev s)"
proof (cases ev)
  case (CommandEvent i c)
  then have "signalled i s (fst (handleCommand cfg env i c s))" using assms by (intro signalled_command admitted_fresh [of calls]) simp_all
  then show ?thesis using CommandEvent assms admitted_more [of calls s i] by (simp add: finish_def admitted_ok_def)
qed (use assms in \<open>auto simp: finish_def supervisor_fires_def supervisor_stable_def Let_def intro!: replied_control_result replied_session_result
  replied_stop_result elim!: admitted_keeps dest: subsetD [OF replied_stop_result]\<close>)

lemma reachable_admitted: "supervisor_reachable cfg0 cfg x \<Longrightarrow> admitted_ok (fst x) (snd x)"
proof (induction rule: supervisor_reachable.induct)
  case (start s env)
  then show ?case by (auto simp: newPluginSupervisor_def guard_result_Inr Let_def supervisor_begin_def admitted_ok_def)
next
  case (step x y)
  show ?case
    using step.hyps(2) step.IH
  proof cases
    case (late s i calls)
    then have "signalled i s (answer i (Some ErrManagerClosed) (signalAdmission i (Some ErrManagerClosed) s))"
      using step.IH by (intro signalled_refused admitted_fresh [of calls]) simp_all
    then show ?thesis using late step.IH admitted_more [of calls s i] by simp
  qed (simp add: admitted_run)
qed

section \<open>The desired state\<close>

definition control_ahead :: "control_state \<Rightarrow> control_state \<Rightarrow> bool" where
  \<comment> \<open>the second never goes back behind the first\<close>
  "control_ahead a b \<longleftrightarrow>
     (cs_Config b = cs_Config a \<or> Revision (cs_Config a) < Revision (cs_Config b) \<and> config_validate (cs_Config b) = Inr ()) \<and>
     (cs_Subscription b = cs_Subscription a \<or> sub_Generation (cs_Subscription a) < sub_Generation (cs_Subscription b))"

lemma control_ahead_refl [simp]: "control_ahead a a"
  by (simp add: control_ahead_def)

lemma control_ahead_trans: "control_ahead a b \<Longrightarrow> control_ahead b c \<Longrightarrow> control_ahead a c"
  by (auto simp: control_ahead_def)

lemma applyConfig_ahead: "applyConfig new s = (t, Inr changed) \<Longrightarrow> control_ahead s t \<and> cs_Subscription t = cs_Subscription s \<and> cs_Active t = cs_Active s"
  by (auto simp: applyConfig_def control_ahead_def split: sum.splits if_splits unit.splits)

lemma applySubscription_ahead: "applySubscription new s = (t, Inr changed) \<Longrightarrow> control_ahead s t \<and> cs_Config t = cs_Config s"
  by (auto simp: applySubscription_def control_ahead_def split: sum.splits if_splits)

lemma applyActive_ahead: "applyActive new s = (t, changed) \<Longrightarrow> control_ahead s t \<and> cs_Config t = cs_Config s"
  by (auto simp: applyActive_def control_ahead_def split: if_splits)

lemma prepare_ahead:
  assumes "prepareSupervisorControl current c = Inr (new, request, changed)"
  shows "control_ahead current new" "sc_kind c = supervisorConfig \<Longrightarrow> cs_Subscription new = cs_Subscription current"
    "sc_kind c \<noteq> supervisorConfig \<Longrightarrow> cs_Config new = cs_Config current"
  using assms
  by (auto simp: prepareSupervisorControl_def Let_def dest: applyConfig_ahead applySubscription_ahead applyActive_ahead split: if_splits prod.splits sum.splits)

definition mirror_ok :: "supervisor \<Rightarrow> bool" where
  \<comment> \<open>the snapshot shows the desired state\<close>
  "mirror_ok s \<longleftrightarrow> rs_Active (sv_snapshot s) = cs_Active (sv_control s) \<and> ConfigRevision (sv_snapshot s) = Revision (cs_Config (sv_control s)) \<and>
     SubscriptionGeneration (sv_snapshot s) = sub_Generation (cs_Subscription (sv_control s))"

definition flight_ok :: "supervisor \<Rightarrow> bool" where
  \<comment> \<open>controls wait only for a session that is not being stopped, and the one in flight is not behind\<close>
  "flight_ok s \<longleftrightarrow> (\<not> sv_session s \<or> stopIntent s \<noteq> supervisorStopNone \<longrightarrow> inFlight s = None \<and> controlQueue s = []) \<and>
     (\<forall>x. inFlight s = Some x \<longrightarrow> if_durable x \<or> control_ahead ((sv_control s)\<lparr>cs_Config := cs_Config (if_next x)\<rparr>) (if_next x))"

lemma flight_keeps [simp]:
  "flight_ok (signalAdmission i e s) = flight_ok s" "flight_ok (answer i e s) = flight_ok s" "flight_ok (act a s) = flight_ok s"
  "flight_ok (publish s) = flight_ok s" "flight_ok (on_snapshot f s) = flight_ok s" "flight_ok (cancelTimer s) = flight_ok s"
  "flight_ok (cancelStableTimer s) = flight_ok s" "flight_ok (armStableTimer cfg s) = flight_ok s" "flight_ok (answer_stops e s) = flight_ok s"
  "flight_ok (s\<lparr>closing := c\<rparr>) = flight_ok s" "flight_ok (s\<lparr>sv_done := c\<rparr>) = flight_ok s" "flight_ok (s\<lparr>sv_timer := t\<rparr>) = flight_ok s"
  "flight_ok (s\<lparr>sessionOutcome := so\<rparr>) = flight_ok s" "flight_ok (s\<lparr>closeReply := r\<rparr>) = flight_ok s"
  "flight_ok (s\<lparr>restartReply := r\<rparr>) = flight_ok s" "flight_ok (retireControls s)" "flight_ok (beginStop cfg intent i s)"
  by (simp_all add: flight_ok_def)

lemma mirror_keeps [simp]:
  "mirror_ok (signalAdmission i e s) = mirror_ok s" "mirror_ok (answer i e s) = mirror_ok s" "mirror_ok (act a s) = mirror_ok s"
  "mirror_ok (publish s) = mirror_ok s" "mirror_ok (cancelTimer s) = mirror_ok s"
  "mirror_ok (cancelStableTimer s) = mirror_ok s" "mirror_ok (armStableTimer cfg s) = mirror_ok s" "mirror_ok (answer_stops e s) = mirror_ok s"
  "mirror_ok (retireControls s) = mirror_ok s" "mirror_ok (beginStop cfg intent i s) = mirror_ok s" "mirror_ok (startSession cfg env s) = mirror_ok s"
  "mirror_ok (dispatchNextControl env s) = mirror_ok s" "mirror_ok (commitControl new s)"
  by (simp_all add: mirror_ok_def)

lemma mirror_frame:
  "rs_Active (sv_snapshot t) = rs_Active (sv_snapshot s) \<Longrightarrow> ConfigRevision (sv_snapshot t) = ConfigRevision (sv_snapshot s) \<Longrightarrow>
   SubscriptionGeneration (sv_snapshot t) = SubscriptionGeneration (sv_snapshot s) \<Longrightarrow> sv_control t = sv_control s \<Longrightarrow> mirror_ok t = mirror_ok s"
  by (simp add: mirror_ok_def)

lemma flight_start: "inFlight s = None \<Longrightarrow> controlQueue s = [] \<Longrightarrow> flight_ok (startSession cfg env s)"
  by (simp add: flight_ok_def)

lemma flight_launch:
  assumes "sv_session s" "stopIntent s = supervisorStopNone" "durableConfig q \<or> control_ahead ((sv_control s)\<lparr>cs_Config := cs_Config new\<rparr>) new"
  shows "flight_ok (launch_control q new request (s\<lparr>controlQueue := qs\<rparr>))"
  using assms by (auto simp: flight_ok_def launch_control_def Let_def)

lemma ahead_config: "control_ahead a b \<Longrightarrow> control_ahead (a\<lparr>cs_Config := cs_Config b\<rparr>) b"
  by (simp add: control_ahead_def)

lemma flight_queue:
  "sv_session s \<Longrightarrow> stopIntent s = supervisorStopNone \<Longrightarrow> inFlight s = None \<Longrightarrow> flight_ok (dispatch_queue env qs s)"
proof (induction env qs s rule: dispatch_queue.induct)
  case (2 env q qs s)
  show ?case
  proof (cases "qc_call q \<in> set (env_cancelled env) \<or> durableConfig q")
    case True
    then show ?thesis using 2 by (auto simp: flight_launch)
  next
    case False
    then show ?thesis using 2 prepare_ahead(1)
      by (auto intro!: flight_launch ahead_config split: sum.split prod.split)
  qed
qed (simp add: flight_ok_def)

lemma flight_dispatch:
  assumes "flight_ok s"
  shows "flight_ok (dispatchNextControl env s)"
proof (cases "stopIntent s = supervisorStopNone")
  case True
  then show ?thesis using assms by (simp add: dispatchNextControl_def flight_queue)
next
  case False
  then have "controlQueue s = []" "inFlight s = None" using assms by (simp_all add: flight_ok_def)
  then show ?thesis using assms by (simp add: dispatchNextControl_def flight_ok_def)
qed

lemma flight_enqueue:
  assumes "sv_session s" "stopIntent s = supervisorStopNone" "flight_ok s"
  shows "flight_ok (s\<lparr>controlQueue := qs\<rparr>)"
  using assms by (simp add: flight_ok_def)

lemma flightD:
  assumes "flight_ok s"
  shows "\<not> sv_session s \<or> stopIntent s \<noteq> supervisorStopNone \<Longrightarrow> inFlight s = None \<and> controlQueue s = []"
    "inFlight s = Some x \<Longrightarrow> sv_session s \<and> stopIntent s = supervisorStopNone"
    "inFlight s = Some x \<Longrightarrow> if_durable x \<or> control_ahead ((sv_control s)\<lparr>cs_Config := cs_Config (if_next x)\<rparr>) (if_next x)"
  using assms by (auto simp: flight_ok_def)

definition control_inv :: "supervisor \<Rightarrow> supervisor \<Rightarrow> bool" where
  "control_inv s t \<longleftrightarrow> flight_ok t \<and> mirror_ok t \<and> control_ahead (sv_control s) (sv_control t)"

lemma control_inv_idle_commit:
  assumes "flight_ok s" "prepareSupervisorControl (sv_control s) c = Inr (new, request, changed)" "\<not> sv_session s"
  shows "control_inv s (commitControl new s)"
  using assms prepare_ahead(1) [OF assms(2)] flightD(1) [OF assms(1)] by (simp add: control_inv_def flight_ok_def)

lemma control_inv_config:
  assumes "flight_ok s" "prepareSupervisorControl (sv_control s) c = Inr (new, request, changed)" "sc_kind c = supervisorConfig" "sv_session s"
    "stopIntent s = supervisorStopNone"
  shows "control_inv s (commitControl new s)" "control_inv s (dispatchNextControl env ((commitControl new s)\<lparr>controlQueue := qs\<rparr>))"
proof -
  note A = prepare_ahead [OF assms(2)]
  have F: "if_durable x \<or> control_ahead (new\<lparr>cs_Config := cs_Config (if_next x)\<rparr>) (if_next x)" if "inFlight s = Some x" for x
    using flightD(3) [OF assms(1) that] A(2) assms(3) by (auto simp: control_ahead_def)
  then have flight: "flight_ok (commitControl new s)" using assms by (simp add: flight_ok_def)
  have M: "mirror_ok ((commitControl new s)\<lparr>controlQueue := qs\<rparr>)"
    using mirror_keeps(13) [of new s] by (simp add: mirror_ok_def)
  show "control_inv s (commitControl new s)" using A(1) flight by (simp add: control_inv_def)
  show "control_inv s (dispatchNextControl env ((commitControl new s)\<lparr>controlQueue := qs\<rparr>))"
    using A(1) flight assms M by (simp add: control_inv_def flight_dispatch flight_enqueue)
qed

lemma control_inv_queue:
  assumes "flight_ok s" "mirror_ok s" "sv_session s" "stopIntent s = supervisorStopNone"
  shows "control_inv s (dispatchNextControl env (s\<lparr>controlQueue := qs\<rparr>))"
proof -
  have "mirror_ok (s\<lparr>controlQueue := qs\<rparr>)" using assms(2) by (simp add: mirror_ok_def)
  then show ?thesis using assms by (simp add: control_inv_def flight_dispatch flight_enqueue)
qed

lemma control_inv_refl [simp]: "control_inv s s \<longleftrightarrow> flight_ok s \<and> mirror_ok s"
  by (simp add: control_inv_def)

lemma control_inv_keeps [simp]:
  "control_inv s (signalAdmission i e t) = control_inv s t" "control_inv s (answer i e t) = control_inv s t"
  "control_inv s (act a t) = control_inv s t" "control_inv s (publish t) = control_inv s t"
  by (simp_all add: control_inv_def)

lemma control_inv_control:
  assumes "flight_ok s" "mirror_ok s"
  shows "control_inv s (handleControlCommand cfg env i c s)"
  using assms
  by (auto simp: handleControlCommand_def Let_def control_inv_idle_commit control_inv_queue control_inv_config split: sum.split prod.split)

lemma mirror_updates [simp]:
  "mirror_ok (s\<lparr>closing := c\<rparr>) = mirror_ok s" "mirror_ok (s\<lparr>sv_done := c\<rparr>) = mirror_ok s" "mirror_ok (s\<lparr>sv_timer := t\<rparr>) = mirror_ok s"
  "mirror_ok (s\<lparr>sessionOutcome := so\<rparr>) = mirror_ok s" "mirror_ok (s\<lparr>closeReply := r\<rparr>) = mirror_ok s" "mirror_ok (s\<lparr>restartReply := r\<rparr>) = mirror_ok s"
  "mirror_ok (s\<lparr>stopIntent := si\<rparr>) = mirror_ok s" "mirror_ok (s\<lparr>sv_session := c\<rparr>) = mirror_ok s" "mirror_ok (s\<lparr>inFlight := x\<rparr>) = mirror_ok s"
  by (simp_all add: mirror_ok_def)

lemma mirror_snapshot [simp]:
  "rs_Active (f (sv_snapshot s)) = rs_Active (sv_snapshot s) \<Longrightarrow> ConfigRevision (f (sv_snapshot s)) = ConfigRevision (sv_snapshot s) \<Longrightarrow>
   SubscriptionGeneration (f (sv_snapshot s)) = SubscriptionGeneration (sv_snapshot s) \<Longrightarrow> mirror_ok (on_snapshot f s) = mirror_ok s"
  by (simp add: mirror_ok_def)

lemma flight_closing:
  "inFlight s = None \<Longrightarrow> controlQueue s = [] \<Longrightarrow> flight_ok (s\<lparr>stopIntent := si\<rparr>)"
  by (simp add: flight_ok_def)

lemma control_inv_same: "sv_control t = sv_control s \<Longrightarrow> control_inv s t \<longleftrightarrow> flight_ok t \<and> mirror_ok t"
  by (simp add: control_inv_def)

lemma control_inv_command:
  assumes "flight_ok s" "mirror_ok s"
  shows "control_inv s (fst (handleCommand cfg env i c s))"
proof (cases "sv_session s \<and> stopIntent s = supervisorStopNone")
  case True
  then show ?thesis using assms
    by (simp add: handleCommand_def Let_def control_inv_same control_inv_control split: option.split stop_intent.split)
next
  case False
  then show ?thesis using assms flightD(1) [OF assms(1)]
    by (simp add: handleCommand_def Let_def control_inv_same control_inv_control flight_start flight_closing split: option.split stop_intent.split)
qed

lemma control_inv_answered:
  assumes "flight_ok s" "mirror_ok s" "inFlight s = Some x"
  shows "control_inv s (s\<lparr>inFlight := None\<rparr>)"
    "\<not> if_durable x \<Longrightarrow> control_inv s (commitControl ((if_next x)\<lparr>cs_Config := cs_Config (sv_control s)\<rparr>) (s\<lparr>inFlight := None\<rparr>))"
  using assms flightD(2,3) [OF assms(1,3)] by (simp_all add: control_inv_def flight_ok_def) (simp add: control_ahead_def)

lemma control_inv_dispatch: "control_inv s t \<Longrightarrow> control_inv s (dispatchNextControl env t)"
  by (simp add: control_inv_def flight_dispatch)

lemma control_inv_error [simp]: "control_inv s (on_snapshot (\<lambda>sn. sn\<lparr>LastError := e\<rparr>) t) = control_inv s t"
  by (simp add: control_inv_def)

lemma control_inv_control_result:
  assumes "flight_ok s" "mirror_ok s"
  shows "control_inv s (handleControlResult env instance operation e s)"
  using assms by (auto simp: handleControlResult_def Let_def control_inv_answered intro!: control_inv_dispatch split: option.split)

lemma flight_ended:
  "inFlight s = None \<Longrightarrow> controlQueue s = [] \<Longrightarrow> flight_ok (s\<lparr>sv_session := False\<rparr>)"
  "inFlight s = None \<Longrightarrow> controlQueue s = [] \<Longrightarrow> flight_ok (s\<lparr>stopIntent := si, sv_session := False\<rparr>)"
  by (simp_all add: flight_ok_def)

lemma control_inv_session_result:
  assumes "flight_ok s" "mirror_ok s"
  shows "control_inv s (handleSessionResult cfg env instance r s)"
  using assms by (simp add: handleSessionResult_def schedule_restart_def control_inv_same flight_ended Let_def split: option.split)

lemma control_inv_stop_result:
  assumes "flight_ok s" "mirror_ok s"
  shows "control_inv s (fst (handleStopResult cfg env instance e s))"
  using assms flightD(1) [OF assms(1)]
  by (simp add: handleStopResult_def after_stop_def control_inv_same flight_ended flight_start Let_def split: stop_intent.split)

lemma control_inv_callback:
  assumes "flight_ok s" "mirror_ok s"
  shows "control_inv s (handleCallback cfg env c s)"
  using assms by (simp add: handleCallback_def control_inv_same Let_def split: callback_kind.split)

lemma control_inv_timers:
  assumes "flight_ok s" "mirror_ok s"
  shows "control_inv s (supervisor_fires cfg env s)" "control_inv s (supervisor_stable s)"
  using assms flightD(1) [OF assms(1)]
  by (simp_all add: supervisor_fires_def supervisor_stable_def control_inv_same flight_start Let_def)

lemma control_inv_run:
  assumes "flight_ok s" "mirror_ok s"
  shows "control_inv s (supervisor_run cfg env ev s)"
proof -
  have "control_inv s (finish r) = control_inv s (fst r)" for r by (simp add: finish_def control_inv_def)
  then show ?thesis using assms
    by (cases ev) (simp_all add: control_inv_command control_inv_control_result control_inv_session_result control_inv_stop_result
      control_inv_callback control_inv_timers)
qed

lemma control_inv_step:
  assumes "supervisor_step cfg (calls, s) (calls', t)" "flight_ok s" "mirror_ok s"
  shows "control_inv s t"
  using assms by (cases rule: supervisor_step.cases) (auto simp: control_inv_run)

lemma reachable_control: "supervisor_reachable cfg0 cfg x \<Longrightarrow> flight_ok (snd x) \<and> mirror_ok (snd x)"
proof (induction rule: supervisor_reachable.induct)
  case (start s env)
  then have s: "flight_ok s" "mirror_ok s" "inFlight s = None" "controlQueue s = []"
    by (auto simp: newPluginSupervisor_def guard_result_Inr Let_def flight_ok_def mirror_ok_def)
  then show ?case by (simp add: supervisor_begin_def flight_start Let_def)
next
  case (step x y)
  then show ?case by (cases x; cases y) (auto dest: control_inv_step simp: control_inv_def)
qed

lemma reachable_config: "supervisor_reachable cfg0 cfg x \<Longrightarrow> config_validate (cs_Config (sv_control (snd x))) = Inr ()"
proof (induction rule: supervisor_reachable.induct)
  case (start s env)
  then show ?case by (auto simp: newPluginSupervisor_def guard_result_Inr Let_def supervisor_begin_def is_ok_def split: sum.splits)
next
  case (step x y)
  then have "control_inv (snd x) (snd y)"
    using reachable_control [OF step.hyps(1)] control_inv_step [of cfg "fst x" "snd x" "fst y" "snd y"] by simp
  then show ?case using step.IH by (auto simp: control_inv_def control_ahead_def)
qed

section \<open>The protocol towards the session\<close>

datatype session_phase = NoSession | Up u64 | StopSent u64

fun protocol_next :: "supervisor_action \<Rightarrow> session_phase \<Rightarrow> session_phase option" where
  "protocol_next (Launched instance startup) p = (if p = NoSession \<and> instance \<noteq> 0 then Some (Up instance) else None)"
| "protocol_next (Delivered instance operation request) p = (if p = Up instance then Some p else None)"
| "protocol_next (StopRequested instance) p = (if p = Up instance then Some (StopSent instance) else None)"
| "protocol_next (Ended instance) p = (if p = Up instance then Some NoSession else None)"
| "protocol_next (Stopped instance) p = (if p = StopSent instance then Some NoSession else None)"
| "protocol_next (StatusPublished status) p = (case p of Up _ \<Rightarrow> Some p | _ \<Rightarrow> None)"
| "protocol_next (LogPublished l) p = (case p of Up _ \<Rightarrow> Some p | _ \<Rightarrow> None)"

definition protocol_run :: "supervisor_action list \<Rightarrow> session_phase option" where
  "protocol_run as = foldl (\<lambda>p a. Option.bind p (protocol_next a)) (Some NoSession) as"

lemma protocol_run_simps [simp]:
  "protocol_run [] = Some NoSession" "protocol_run (as @ [a]) = Option.bind (protocol_run as) (protocol_next a)"
  "protocol_run (as @ [a, b]) = Option.bind (Option.bind (protocol_run as) (protocol_next a)) (protocol_next b)"
  by (simp_all add: protocol_run_def)

definition session_phase :: "supervisor \<Rightarrow> session_phase" where
  "session_phase s = (if \<not> sv_session s then NoSession else if stopIntent s = supervisorStopNone then Up (instanceID s) else StopSent (instanceID s))"

definition phase_ok :: "supervisor \<Rightarrow> bool" where
  "phase_ok s \<longleftrightarrow> protocol_run (sv_actions s) = Some (session_phase s)"

lemma phase_keeps [simp]:
  "phase_ok (signalAdmission i e s) = phase_ok s" "phase_ok (answer i e s) = phase_ok s" "phase_ok (publish s) = phase_ok s"
  "phase_ok (on_snapshot f s) = phase_ok s" "phase_ok (cancelTimer s) = phase_ok s" "phase_ok (cancelStableTimer s) = phase_ok s"
  "phase_ok (armStableTimer cfg s) = phase_ok s" "phase_ok (answer_stops e s) = phase_ok s" "phase_ok (retireControls s) = phase_ok s"
  "phase_ok (commitControl new s) = phase_ok s" "phase_ok (s\<lparr>closing := c\<rparr>) = phase_ok s" "phase_ok (s\<lparr>sv_done := c\<rparr>) = phase_ok s"
  "phase_ok (s\<lparr>sv_timer := t\<rparr>) = phase_ok s" "phase_ok (s\<lparr>sessionOutcome := so\<rparr>) = phase_ok s" "phase_ok (s\<lparr>closeReply := r\<rparr>) = phase_ok s"
  "phase_ok (s\<lparr>restartReply := r\<rparr>) = phase_ok s" "phase_ok (s\<lparr>inFlight := x\<rparr>) = phase_ok s" "phase_ok (s\<lparr>controlQueue := qs\<rparr>) = phase_ok s"
  by (simp_all add: phase_ok_def session_phase_def)

lemma phase_start: "phase_ok s \<Longrightarrow> \<not> sv_session s \<Longrightarrow> stopIntent s = supervisorStopNone \<Longrightarrow> phase_ok (startSession cfg env s)"
  by (simp add: phase_ok_def session_phase_def)

lemma phase_stop:
  "phase_ok s \<Longrightarrow> sv_session s \<Longrightarrow> stopIntent s = supervisorStopNone \<Longrightarrow> intent \<noteq> supervisorStopNone \<Longrightarrow> phase_ok (beginStop cfg intent i s)"
  by (simp add: phase_ok_def session_phase_def)

lemma phase_restop: "phase_ok s \<Longrightarrow> stopIntent s \<noteq> supervisorStopNone \<Longrightarrow> intent \<noteq> supervisorStopNone \<Longrightarrow> phase_ok (s\<lparr>stopIntent := intent\<rparr>)"
  by (simp add: phase_ok_def session_phase_def)

lemma phase_act:
  "phase_ok s \<Longrightarrow> sv_session s \<Longrightarrow> stopIntent s = supervisorStopNone \<Longrightarrow> phase_ok (act (StatusPublished x) s)"
  "phase_ok s \<Longrightarrow> sv_session s \<Longrightarrow> stopIntent s = supervisorStopNone \<Longrightarrow> phase_ok (act (LogPublished l) s)"
  "phase_ok s \<Longrightarrow> sv_session s \<Longrightarrow> stopIntent s = supervisorStopNone \<Longrightarrow> phase_ok (act (Delivered (instanceID s) operation request) s)"
  by (simp_all add: phase_ok_def session_phase_def)

lemma phase_ended:
  "phase_ok s \<Longrightarrow> sv_session s \<Longrightarrow> stopIntent s = supervisorStopNone \<Longrightarrow> sv_actions t = sv_actions s @ [Ended (instanceID s)] \<Longrightarrow>
   \<not> sv_session t \<Longrightarrow> phase_ok t"
  "phase_ok s \<Longrightarrow> sv_session s \<Longrightarrow> stopIntent s \<noteq> supervisorStopNone \<Longrightarrow> sv_actions t = sv_actions s @ [Stopped (instanceID s)] \<Longrightarrow>
   \<not> sv_session t \<Longrightarrow> phase_ok t"
  by (simp_all add: phase_ok_def session_phase_def)

lemma phase_queue: "phase_ok s \<Longrightarrow> sv_session s \<Longrightarrow> stopIntent s = supervisorStopNone \<Longrightarrow> phase_ok (dispatch_queue env qs s)"
proof (induction env qs s rule: dispatch_queue.induct)
  case (2 env q qs s)
  have "phase_ok (launch_control q new request (s\<lparr>controlQueue := qs\<rparr>))" for new request
    using 2 by (simp add: launch_control_def phase_ok_def session_phase_def Let_def)
  then show ?case using 2 by (auto split: sum.split prod.split)
qed simp

lemma phase_dispatch: "phase_ok s \<Longrightarrow> stopIntent s = supervisorStopNone \<Longrightarrow> phase_ok (dispatchNextControl env s)"
  by (simp add: dispatchNextControl_def phase_queue)

lemma phase_control: "phase_ok s \<Longrightarrow> phase_ok (handleControlCommand cfg env i c s)"
  by (simp add: handleControlCommand_def phase_dispatch Let_def split: sum.split prod.split)

lemma phase_command:
  assumes "phase_ok s"
  shows "phase_ok (fst (handleCommand cfg env i c s))"
  using assms
  by (simp add: handleCommand_def command_kinds phase_control phase_start phase_stop phase_restop Let_def split: option.split stop_intent.split)

lemma phase_control_result: "phase_ok s \<Longrightarrow> flight_ok s \<Longrightarrow> phase_ok (handleControlResult env instance operation e s)"
  using flightD(2) [of s] by (simp add: handleControlResult_def phase_dispatch Let_def split: option.split)

lemma phase_session_result:
  assumes "phase_ok s"
  shows "phase_ok (handleSessionResult cfg env instance r s)"
  using assms phase_ended(1) [OF assms] by (simp add: handleSessionResult_def schedule_restart_def Let_def split: option.split)

lemma phase_stop_result:
  assumes "phase_ok s" "lifecycle_ok cfg s"
  shows "phase_ok (fst (handleStopResult cfg env instance e s))"
proof (cases "instance = instanceID s \<and> stopIntent s \<noteq> supervisorStopNone")
  case True
  then have session: "sv_session s" using assms(2) by (auto simp: lifecycle_ok_def idle_ok_def live_ok_def stopping_ok_def)
  show ?thesis using True assms(1) phase_ended(2) [OF assms(1) session]
    by (simp add: handleStopResult_def after_stop_def phase_start Let_def split: stop_intent.split)
qed (use assms in \<open>auto simp: handleStopResult_def\<close>)

lemma phase_callback: "phase_ok s \<Longrightarrow> phase_ok (handleCallback cfg env c s)"
  by (simp add: handleCallback_def phase_act Let_def split: callback_kind.split)

lemma phase_fires: "phase_ok s \<Longrightarrow> lifecycle_ok cfg s \<Longrightarrow> sv_timer s \<noteq> None \<Longrightarrow> phase_ok (supervisor_fires cfg env s)"
  by (auto simp: supervisor_fires_def lifecycle_ok_def idle_ok_def live_ok_def stopping_ok_def phase_start Let_def)

lemma phase_run:
  assumes "phase_ok s" "lifecycle_ok cfg s" "flight_ok s"
  shows "phase_ok (supervisor_run cfg env ev s)"
  using assms
  by (cases ev) (simp_all add: finish_def phase_command phase_control_result phase_session_result phase_stop_result phase_callback phase_fires
    supervisor_stable_def Let_def)

lemma reachable_phase: "supervisor_reachable cfg0 cfg x \<Longrightarrow> phase_ok (snd x)"
proof (induction rule: supervisor_reachable.induct)
  case (start s env)
  then have "phase_ok s" "\<not> sv_session s" "stopIntent s = supervisorStopNone"
    by (auto simp: newPluginSupervisor_def guard_result_Inr Let_def phase_ok_def session_phase_def)
  then show ?case by (simp add: supervisor_begin_def phase_start Let_def)
next
  case (step x y)
  show ?case
    using step.hyps(2) step.IH reachable_lifecycle [OF step.hyps(1)] reachable_control [OF step.hyps(1)]
    by cases (auto simp: phase_run)
qed

section \<open>The restart delay\<close>

lemma div_less_mult:
  fixes a d m :: int
  assumes "0 < d"
  shows "a div d < m \<longleftrightarrow> a < d * m"
proof -
  have parts: "a = d * (a div d) + a mod d" "0 \<le> a mod d" "a mod d < d" using assms by simp_all
  show ?thesis
  proof
    assume "a div d < m"
    then have "d * (a div d + 1) \<le> d * m" using assms by (intro mult_left_mono) simp_all
    then have "d * (a div d) + d \<le> d * m" by (simp only: distrib_left mult_1_right)
    then show "a < d * m" using parts(1,3) by linarith
  next
    assume "a < d * m"
    then have "d * (a div d) < d * m" using parts by linarith
    then show "a div d < m" using assms by simp
  qed
qed

lemma restart_loop:
  assumes "0 < delay" "delay \<le> MaxBackoff p" "MaxBackoff p < 2 ^ 63" "1 \<le> rp_Multiplier p"
  shows "restart_delay_loop p n delay = min (MaxBackoff p) (delay * int (rp_Multiplier p) ^ n)"
  using assms(1,2)
proof (induction n arbitrary: delay)
  case (Suc n)
  have M: "1 \<le> int (rp_Multiplier p)" using assms(4) by simp
  have grows: "delay * int (rp_Multiplier p) \<le> delay * int (rp_Multiplier p) ^ Suc n"
    using Suc.prems M by (simp add: mult_left_mono one_le_power mult_le_cancel_left1)
  have up: "delay \<le> delay * int (rp_Multiplier p)" using Suc.prems M by simp
  have quotient: "MaxBackoff p div delay < int (rp_Multiplier p) \<longleftrightarrow> MaxBackoff p < delay * int (rp_Multiplier p)"
    using Suc.prems(1) by (rule div_less_mult)
  show ?case
  proof (cases "MaxBackoff p div delay < int (rp_Multiplier p)")
    case True
    then have "MaxBackoff p < delay * int (rp_Multiplier p)"
      using Suc.prems(1) quotient by simp
    then show ?thesis using True grows up by (simp add: min_def)
  next
    case False
    then have fits: "delay * int (rp_Multiplier p) \<le> MaxBackoff p"
      using Suc.prems(1) quotient by simp
    have product: "0 \<le> delay * int (rp_Multiplier p)" using Suc.prems(1) by simp
    with fits have "i64 (delay * int (rp_Multiplier p)) = delay * int (rp_Multiplier p)"
      using product assms(3) by (intro i64_id is_i64_range) simp_all
    moreover have "restart_delay_loop p n (delay * int (rp_Multiplier p)) = min (MaxBackoff p) (delay * int (rp_Multiplier p) ^ Suc n)"
      using Suc.IH [of "delay * int (rp_Multiplier p)"] Suc.prems up fits by (simp add: mult.assoc)
    ultimately show ?thesis using False grows up by (simp add: min_absorb1)
  qed
qed simp

section \<open>A sample run\<close>

definition sample_supervised :: supervisor_config where
  "sample_supervised = \<lparr>cfg_Manifest = sample_manifest, cfg_Enabled = True, cfg_Config = zero_config, cfg_Active = False,
     cfg_Subscription = zero_subscription, cfg_Restart = DefaultRestartPolicy, SupervisorCapacity = 1\<rparr>"

definition sample_env :: "u64 \<Rightarrow> supervisor_env" where
  "sample_env instance = \<lparr>env_session = instance, env_launches = True, env_now = 0, env_cancelled = []\<rparr>"

definition sample_command :: "command_kind \<Rightarrow> supervisor_command" where
  "sample_command k = \<lparr>sc_kind = k, sc_config = \<lparr>Revision = 2, Data = ''{}''\<rparr>, sc_subscription = zero_subscription, sc_active = True, sc_forceActive = False\<rparr>"

definition sample_begun :: supervisor where
  "sample_begun = supervisor_begin sample_supervised (sample_env 7)
     (case newPluginSupervisor sample_supervised of Inr (_, s) \<Rightarrow> s | Inl _ \<Rightarrow> undefined)"

definition sample_commanded :: supervisor where
  \<comment> \<open>a call switches the plugin on\<close>
  "sample_commanded = supervisor_run sample_supervised (sample_env 8) (CommandEvent 0 (sample_command supervisorActive)) sample_begun"

definition sample_failed :: supervisor where
  \<comment> \<open>the session ends before it answers\<close>
  "sample_failed = supervisor_run sample_supervised (sample_env 8)
     (ResultEvent 7 \<lparr>sr_StartedAt = 0, StableFor = 0, sr_Err = Some ErrHeartbeatTimeout, Retryable = True\<rparr>) sample_commanded"

lemma sample_supervisor_reachable:
  "supervisor_reachable sample_supervised sample_supervised ({}, sample_begun)"
  "supervisor_step sample_supervised ({}, sample_begun) ({0}, sample_commanded)"
  "supervisor_reachable sample_supervised sample_supervised ({0}, sample_commanded)"
  "supervisor_reachable sample_supervised sample_supervised ({0}, sample_failed)"
proof -
  have new: "newPluginSupervisor sample_supervised = Inr (sample_supervised,
      case newPluginSupervisor sample_supervised of Inr (_, s) \<Rightarrow> s | Inl _ \<Rightarrow> undefined)" by code_simp
  show begun: "supervisor_reachable sample_supervised sample_supervised ({}, sample_begun)"
    unfolding sample_begun_def using new by (rule supervisor_reachable.start)
  have "\<not> sv_done sample_begun" by code_simp
  then show step: "supervisor_step sample_supervised ({}, sample_begun) ({0}, sample_commanded)"
    unfolding sample_commanded_def
    using supervisor_step.round [of sample_begun "CommandEvent 0 (sample_command supervisorActive)" "{}"] by (simp del: supervisor_run.simps)
  show commanded: "supervisor_reachable sample_supervised sample_supervised ({0}, sample_commanded)"
    by (rule supervisor_reachable.step [OF begun step])
  have "\<not> sv_done sample_commanded" by code_simp
  then show "supervisor_reachable sample_supervised sample_supervised ({0}, sample_failed)"
    unfolding sample_failed_def
    using supervisor_reachable.step [OF commanded supervisor_step.round [of sample_commanded "ResultEvent 7 r" "{0}" _ "sample_env 8" for r]]
    by (simp del: supervisor_run.simps)
qed

section \<open>Properties\<close>

text \<open>C9 (invariant). In every state the supervisor can reach, a session that is not being stopped belongs to an enabled
  plugin in one of the four live states, one that is being stopped is in the state stopping for one of the three reasons,
  and without a session the plugin is disabled, stopped, backing off, crashed or incompatible. It is disabled exactly when
  it is not enabled; the restart timer runs exactly in the state backoff, with the delay of the policy for the failures
  counted, which are fewer than the limit; a crashed plugin has reached the limit. After closing nothing runs any more.\<close>

theorem supervisor_consistent:
  assumes "supervisor_reachable cfg0 cfg (calls, s)"
  shows "(if sv_session s then
       (if stopIntent s = supervisorStopNone then rs_Enabled (sv_snapshot s) \<and> \<not> closing s \<and>
          rs_State (sv_snapshot s) \<in> {StateStarting, StateHandshaking, StateRunning, StateUnresponsive}
        else rs_State (sv_snapshot s) = StateStopping \<and> rs_Enabled (sv_snapshot s) = (stopIntent s = supervisorStopRestart))
     else stopIntent s = supervisorStopNone \<and> rs_State (sv_snapshot s) \<in> {StateDisabled, StateStopped, StateBackoff, StateCrashed, StateIncompatible} \<and>
       (rs_State (sv_snapshot s) = StateDisabled) = (\<not> rs_Enabled (sv_snapshot s))) \<and>
     sv_timer s = (if rs_State (sv_snapshot s) = StateBackoff
       then Some (restartDelay (cfg_Restart cfg) (ConsecutiveFailures (sv_snapshot s))) else None) \<and>
     (rs_State (sv_snapshot s) = StateBackoff \<longrightarrow> ConsecutiveFailures (sv_snapshot s) < MaxFailures (cfg_Restart cfg)) \<and>
     (rs_State (sv_snapshot s) = StateCrashed \<longrightarrow> MaxFailures (cfg_Restart cfg) \<le> ConsecutiveFailures (sv_snapshot s)) \<and>
     (stableTimer s \<noteq> None \<longrightarrow> sv_session s \<and> rs_State (sv_snapshot s) = StateRunning \<and> stableInstance s = instanceID s) \<and>
     (sv_done s \<longrightarrow> \<not> sv_session s \<and> \<not> rs_Enabled (sv_snapshot s))"
  using reachable_lifecycle [OF assms] unfolding snd_conv lifecycle_ok_def
proof (elim disjE)
  assume "idle_ok cfg s"
  then show ?thesis by (auto simp: idle_ok_def idle_states_def)
next
  assume "live_ok s"
  then show ?thesis by (auto simp: live_ok_def live_states_def)
next
  assume "stopping_ok s"
  then show ?thesis by (simp add: stopping_ok_def)
qed

theorem supervisor_consistent_witness:
  "sv_timer sample_failed = Some 1000000000 \<and> rs_State (sv_snapshot sample_failed) = StateBackoff"
proof -
  have "rs_State (sv_snapshot sample_failed) = StateBackoff" "ConsecutiveFailures (sv_snapshot sample_failed) = 1" by code_simp+
  then show ?thesis using supervisor_consistent [OF sample_supervisor_reachable(4)]
    by (simp add: sample_supervised_def restartDelay_def DefaultRestartPolicy_def second_def)
qed

text \<open>C10 (refinement). What the supervisor does to its sessions is a run of the protocol of one session at a time: a session
  is launched only when there is none, under an identifier that is not zero; controls, statuses and logs belong to the
  session that is up; a stop is asked for once, and only the end of a session that is up or the stop of one that was asked to
  stop makes room for the next. The phase the run ends in is the one the loop's state shows.\<close>

theorem supervisor_protocol:
  assumes "supervisor_reachable cfg0 cfg (calls, s)"
  shows "protocol_run (sv_actions s) = Some (if \<not> sv_session s then NoSession
    else if stopIntent s = supervisorStopNone then Up (instanceID s) else StopSent (instanceID s))"
  using reachable_phase [OF assms] by (simp add: phase_ok_def session_phase_def)

theorem supervisor_protocol_witness:
  "protocol_run (sv_actions sample_commanded) = Some (Up 7) \<and> protocol_run (sv_actions sample_failed) = Some NoSession"
proof -
  have "sv_session sample_commanded" "stopIntent sample_commanded = supervisorStopNone" "instanceID sample_commanded = 7" "\<not> sv_session sample_failed"
    by code_simp+
  then show ?thesis using supervisor_protocol [OF sample_supervisor_reachable(3)] supervisor_protocol [OF sample_supervisor_reachable(4)] by simp
qed

text \<open>C11 (liveness). Every call of the supervisor is answered exactly once or waits in exactly one place: as the control in
  flight or in the queue, or for the stop under way; it is admitted or refused once, and a call refused on admission is
  answered with that error. Nothing waits without a session: when there is none, every call has its answer.\<close>

theorem supervisor_answers:
  assumes "supervisor_reachable cfg0 cfg (calls, s)"
  shows "mset (map fst (sv_replies s)) + mset (pending_controls s) + mset (stop_replies s) = mset_set calls \<and>
     mset (map fst (sv_admissions s)) = mset_set calls \<and>
     (\<forall>i e. (i, Some e) \<in> set (sv_admissions s) \<longrightarrow> (i, Some e) \<in> set (sv_replies s)) \<and>
     (\<not> sv_session s \<longrightarrow> mset (map fst (sv_replies s)) = mset_set calls)"
proof -
  have L: "mset (map fst (sv_replies s)) + mset (pending_controls s) + mset (stop_replies s) = mset_set calls"
    using reachable_ledger [OF assms] by (simp add: ledger_def)
  have A: "distinct (map fst (sv_admissions s))" "fst ` set (sv_admissions s) = calls"
    "\<forall>i e. (i, Some e) \<in> set (sv_admissions s) \<longrightarrow> (i, Some e) \<in> set (sv_replies s)"
    using reachable_admitted [OF assms] by (simp_all add: admitted_ok_def replied_def)
  have M: "mset (map fst (sv_admissions s)) = mset_set calls"
    using mset_set_set [OF A(1)] A(2) by simp
  have "pending_controls s = [] \<and> stop_replies s = []" if "\<not> sv_session s"
    using that reachable_control [OF assms] reachable_lifecycle [OF assms]
    by (auto simp: flight_ok_def pending_controls_def stop_replies_def lifecycle_ok_def idle_ok_def live_ok_def stopping_ok_def)
  then show ?thesis using L M A(3) by auto
qed

theorem supervisor_answers_witness:
  "mset (map fst (sv_replies sample_failed)) = {#0#} \<and> mset (map fst (sv_replies sample_commanded)) + mset (pending_controls sample_commanded) = {#0#}"
proof -
  have "\<not> sv_session sample_failed" "stop_replies sample_commanded = []" by code_simp+
  then show ?thesis using supervisor_answers [OF sample_supervisor_reachable(4)] supervisor_answers [OF sample_supervisor_reachable(3)] by simp
qed

text \<open>C12 (invariant). The desired state of a plugin never goes back: along every run of the supervisor its configuration
  stays or is replaced by a valid one of a higher revision, and its subscription stays or is replaced by one of a higher
  generation, also when a control that was prepared before a newer configuration is acknowledged after it.\<close>

theorem desired_state_forward:
  assumes "supervisor_reachable cfg0 cfg (calls, s)" "(supervisor_step cfg)\<^sup>*\<^sup>* (calls, s) (calls', t)"
  shows "(cs_Config (sv_control t) = cs_Config (sv_control s) \<or>
       Revision (cs_Config (sv_control s)) < Revision (cs_Config (sv_control t)) \<and> config_validate (cs_Config (sv_control t)) = Inr ()) \<and>
     (cs_Subscription (sv_control t) = cs_Subscription (sv_control s) \<or>
       sub_Generation (cs_Subscription (sv_control s)) < sub_Generation (cs_Subscription (sv_control t)))"
proof -
  have "supervisor_reachable cfg0 cfg y \<and> control_ahead (sv_control s) (sv_control (snd y))"
    if "(supervisor_step cfg)\<^sup>*\<^sup>* (calls, s) y" for y
    using that
  proof (induction rule: rtranclp_induct)
    case (step y z)
    then have "control_inv (snd y) (snd z)"
      using reachable_control [of cfg0 cfg y] control_inv_step [of cfg "fst y" "snd y" "fst z" "snd z"] by simp
    then show ?case using step supervisor_reachable.step [of cfg0 cfg y z] control_ahead_trans by (auto simp: control_inv_def)
  qed (simp add: assms(1))
  from this [OF assms(2)] show ?thesis by (simp add: control_ahead_def)
qed

theorem desired_state_forward_witness:
  "Revision (cs_Config (sv_control sample_begun)) \<le> Revision (cs_Config (sv_control sample_commanded))"
proof -
  have "cs_Config (sv_control sample_commanded) = cs_Config (sv_control sample_begun) \<or>
      Revision (cs_Config (sv_control sample_begun)) < Revision (cs_Config (sv_control sample_commanded))"
    using desired_state_forward [OF sample_supervisor_reachable(1) r_into_rtranclp [of "supervisor_step sample_supervised", OF sample_supervisor_reachable(2)]] by blast
  then show ?thesis by auto
qed

text \<open>C13 (type). In every reachable state the name of the state is one of the ten of snapshot.go, the snapshot shows the
  desired activity, revision and generation, the desired configuration is a valid one, and controls wait or are in flight
  only for a session that is not being stopped.\<close>

theorem supervisor_typed:
  assumes "supervisor_reachable cfg0 cfg (calls, s)"
  shows "rs_State (sv_snapshot s) \<in> {StateDisabled, StateStopped, StateStarting, StateHandshaking, StateRunning, StateStopping, StateBackoff,
      StateCrashed, StateUnresponsive, StateIncompatible} \<and>
    rs_Active (sv_snapshot s) = cs_Active (sv_control s) \<and> ConfigRevision (sv_snapshot s) = Revision (cs_Config (sv_control s)) \<and>
    SubscriptionGeneration (sv_snapshot s) = sub_Generation (cs_Subscription (sv_control s)) \<and>
    config_validate (cs_Config (sv_control s)) = Inr () \<and>
    (inFlight s \<noteq> None \<or> controlQueue s \<noteq> [] \<longrightarrow> sv_session s \<and> stopIntent s = supervisorStopNone)"
proof -
  have state: "rs_State (sv_snapshot s) \<in> idle_states \<union> live_states \<union> {StateStopping}"
    using reachable_lifecycle [OF assms] by (auto simp: lifecycle_ok_def idle_ok_def live_ok_def stopping_ok_def)
  have control: "mirror_ok s" "flight_ok s" using reachable_control [OF assms] by simp_all
  have "config_validate (cs_Config (sv_control s)) = Inr ()" using reachable_config [OF assms] by simp
  moreover have "rs_State (sv_snapshot s) \<in> {StateDisabled, StateStopped, StateStarting, StateHandshaking, StateRunning, StateStopping, StateBackoff,
      StateCrashed, StateUnresponsive, StateIncompatible}"
    using state unfolding idle_states_def live_states_def by (elim UnE insertE emptyE) simp_all
  moreover have "inFlight s \<noteq> None \<or> controlQueue s \<noteq> [] \<longrightarrow> sv_session s \<and> stopIntent s = supervisorStopNone"
    using control(2) [unfolded flight_ok_def, THEN conjunct1] by argo
  ultimately show ?thesis using control(1) unfolding mirror_ok_def by (elim conjE) (intro conjI)
qed

theorem supervisor_typed_witness: "ConfigRevision (sv_snapshot sample_commanded) = Revision (cs_Config (sv_control sample_commanded))"
  using supervisor_typed [OF sample_supervisor_reachable(3)] by simp

text \<open>C14 (bounds). With a valid policy whose bounds fit in 64 bits the delay before restart n is the initial delay times the
  multiplier to the power n - 1, cut off at the maximum: no product wraps, and the delay lies between the two bounds. The
  default policy waits 1, 2, 4, 8, 16 and 30 seconds.\<close>

theorem restart_delay:
  assumes "validateRestartPolicy p" "MaxBackoff p < 2 ^ 63"
  shows "restartDelay p n = min (MaxBackoff p) (InitialBackoff p * int (rp_Multiplier p) ^ nat (n - 1)) \<and>
    InitialBackoff p \<le> restartDelay p n \<and> restartDelay p n \<le> MaxBackoff p"
proof -
  have p: "0 < InitialBackoff p" "InitialBackoff p \<le> MaxBackoff p" "1 \<le> rp_Multiplier p"
    using assms(1) by (auto simp: validateRestartPolicy_def)
  have eq: "restartDelay p n = min (MaxBackoff p) (InitialBackoff p * int (rp_Multiplier p) ^ nat (n - 1))"
    using p restart_loop [OF p(1,2) assms(2) p(3)] by (simp add: restartDelay_def)
  have "InitialBackoff p \<le> InitialBackoff p * int (rp_Multiplier p) ^ nat (n - 1)"
    using p by (simp add: one_le_power mult_le_cancel_left1)
  then show ?thesis using eq p by simp
qed

theorem restart_delay_witness:
  "map (restartDelay DefaultRestartPolicy) [1, 2, 3, 4, 5, 6, 7] = map (\<lambda>t. t * second) [1, 2, 4, 8, 16, 30, 30]"
proof -
  have "validateRestartPolicy DefaultRestartPolicy" "MaxBackoff DefaultRestartPolicy < 2 ^ 63" by code_simp+
  from restart_delay [OF this] show ?thesis by (simp add: DefaultRestartPolicy_def second_def)
qed

end
