(* ===== verification/PluginRuntime.thy ===== *)
theory PluginRuntime
  imports Handshake Channels
begin

text \<open>
  pkg/pluginruntime: the plugin's side of a session. The handshake it opens, the host object its
  driver works with (the desired state, the events, the latest frame, the status and the logs), the
  reader of the controls, the outbound writer, and how the runtime ends when its three workers
  stop. The writer is a step relation beside the driver's calls and the reader, since they
  interleave; the controls are read by a function of what the connection receives. Two properties put both sides of a session together: the handshake, and the state of the
  plugin against the state of the host's session writer.
\<close>

section \<open>The configuration\<close>

record runtime_config =
  rc_Token :: string
  ControlQueue :: int
  LogQueue :: int
  HeartbeatInterval :: int
  ShutdownTimeout :: int

definition DefaultRuntimeConfig :: runtime_config where
  "DefaultRuntimeConfig = \<lparr>rc_Token = [], ControlQueue = 32, LogQueue = 256, HeartbeatInterval = 1000000000, ShutdownTimeout = 5 * 1000000000\<rparr>"

datatype new_error = NilDriver | NilConnection | InvalidDescriptor descriptor_error | RuntimeBlankToken | ControlQueueSize | LogQueueSize
  | HeartbeatSize | TimeoutSize

definition runtime_New :: "descriptor option \<Rightarrow> bool \<Rightarrow> runtime_config \<Rightarrow> (new_error, descriptor) result" where
  \<comment> \<open>the driver's descriptor, none if there is no driver, and whether there is a connection\<close>
  "runtime_New driver conn cfg = (case driver of None \<Rightarrow> Inl NilDriver
   | Some d \<Rightarrow>
     guard_result (\<not> conn) NilConnection
    (case descriptor_validate d of Inl e \<Rightarrow> Inl (InvalidDescriptor e) | Inr _ \<Rightarrow>
     guard_result (blank (rc_Token cfg)) RuntimeBlankToken
    (guard_result (ControlQueue cfg \<le> 0) ControlQueueSize
    (guard_result (LogQueue cfg \<le> 0) LogQueueSize
    (guard_result (HeartbeatInterval cfg \<le> 0) HeartbeatSize
    (guard_result (ShutdownTimeout cfg \<le> 0) TimeoutSize (Inr d)))))))"

section \<open>The latest frame\<close>

record pending_frame =
  pf_Generation :: u64
  pf_Subscription :: subscription
  pf_Frame :: tracking_frame

record frame_slot =
  slot_frame :: "pending_frame option" \<comment> \<open>none for the zero value\<close>
  slot_pending :: bool
  slot_notify :: "unit option"

definition NewLatestFrameSlot :: frame_slot where
  "NewLatestFrameSlot = \<lparr>slot_frame = None, slot_pending = False, slot_notify = None\<rparr>"

definition slot_Store :: "pending_frame \<Rightarrow> frame_slot \<Rightarrow> frame_slot \<times> bool" where
  "slot_Store f s = (if pf_Generation f = 0 then (s, False)
     else (s\<lparr>slot_frame := Some f, slot_pending := True, slot_notify := fst (try_send () (slot_notify s))\<rparr>, True))"

definition drainNotifyLocked :: "frame_slot \<Rightarrow> frame_slot" where
  "drainNotifyLocked s = s\<lparr>slot_notify := snd (try_recv (slot_notify s))\<rparr>"

definition slot_Load :: "frame_slot \<Rightarrow> pending_frame option \<times> frame_slot" where
  "slot_Load s = (if \<not> slot_pending s then (None, s)
     else (slot_frame s, drainNotifyLocked (s\<lparr>slot_frame := None, slot_pending := False\<rparr>)))"

definition clearLocked :: "frame_slot \<Rightarrow> frame_slot" where
  "clearLocked s = drainNotifyLocked (s\<lparr>slot_frame := None, slot_pending := False\<rparr>)"

definition ClearBefore :: "u64 \<Rightarrow> frame_slot \<Rightarrow> frame_slot" where
  "ClearBefore g s = (if slot_pending s \<and> (case slot_frame s of Some f \<Rightarrow> pf_Generation f < g | None \<Rightarrow> 0 < g) then clearLocked s else s)"

definition slot_content :: "frame_slot \<Rightarrow> pending_frame option" where
  "slot_content s = (if slot_pending s then slot_frame s else None)"

interpretation frames: latest_slot NewLatestFrameSlot "\<lambda>f s. fst (slot_Store f s)" slot_Load slot_content "\<lambda>f. pf_Generation f \<noteq> 0"
  by unfold_locales (auto simp: NewLatestFrameSlot_def slot_Store_def slot_Load_def slot_content_def drainNotifyLocked_def)

section \<open>The host object\<close>

datatype control_event = ActiveEvent bool | ConfigEvent plugin_config | SubscriptionEvent subscription | ShutdownRequested

record plugin_host =
  ph_initial :: plugin_startup
  ph_current :: plugin_startup
  ph_events :: "control_event list"
  ph_event_capacity :: nat
  ph_frames :: frame_slot
  ph_status_notify :: "unit option"
  ph_status :: device_status
  ph_status_pending :: bool
  ph_logs :: "(string \<times> string) list"
  ph_log_capacity :: nat
  droppedLogs :: u64
  ph_stopped :: bool
  ph_events_closed :: bool
  shutdownAccepted :: bool \<comment> \<open>of the terminalState beside it\<close>

definition zero_status :: device_status where "zero_status = \<lparr>ds_State = [], ds_Message = []\<rparr>"

definition newRuntimeHost :: "plugin_startup \<Rightarrow> int \<Rightarrow> int \<Rightarrow> plugin_host" where
  "newRuntimeHost startup controlCapacity logCapacity = \<lparr>ph_initial = cloneStartup startup, ph_current = cloneStartup startup, ph_events = [],
     ph_event_capacity = nat controlCapacity, ph_frames = NewLatestFrameSlot, ph_status_notify = None, ph_status = zero_status,
     ph_status_pending = False, ph_logs = [], ph_log_capacity = nat logCapacity, droppedLogs = 0, ph_stopped = False, ph_events_closed = False,
     shutdownAccepted = False\<rparr>"

definition host_PublishFrame :: "tracking_frame \<Rightarrow> plugin_host \<Rightarrow> plugin_host \<times> bool" where
  "host_PublishFrame f h = (case canonicalize f of Inl _ \<Rightarrow> (h, False)
   | Inr canonical_frame \<Rightarrow>
     (let s = startup_Subscription (ph_current h) in
      if ph_stopped h \<or> \<not> startup_Active (ph_current h) \<or> sub_Generation s = 0 \<or> sub_Capabilities s = 0 then (h, False)
      else (case slot_Store \<lparr>pf_Generation = sub_Generation s, pf_Subscription = s, pf_Frame = canonical_frame\<rparr> (ph_frames h) of
          (slot, stored) \<Rightarrow> (h\<lparr>ph_frames := slot\<rparr>, stored))))"

definition host_PublishStatus :: "device_status \<Rightarrow> plugin_host \<Rightarrow> plugin_host" where
  "host_PublishStatus st h = (if \<not> is_ok (status_validate st) then h else if ph_stopped h then h
     else h\<lparr>ph_status := st, ph_status_pending := True, ph_status_notify := fst (try_send () (ph_status_notify h))\<rparr>)"

definition loadStatus :: "plugin_host \<Rightarrow> device_status option \<times> plugin_host" where
  "loadStatus h = (if \<not> ph_status_pending h then (None, h)
     else (Some (ph_status h), h\<lparr>ph_status := zero_status, ph_status_pending := False\<rparr>))"

definition host_Log :: "string \<Rightarrow> string \<Rightarrow> plugin_host \<Rightarrow> plugin_host" where
  "host_Log level text h = (if \<not> log_level_valid level \<or> blank text then h else if ph_stopped h then h
     else if length (ph_logs h) < ph_log_capacity h then h\<lparr>ph_logs := ph_logs h @ [(level, text)]\<rparr>
     else h\<lparr>droppedLogs := droppedLogs h + 1\<rparr>)"

datatype reader_error = ReceiveFailed conn_error | InvalidControl message_error | ConfigRegressed | ConfigConflict | SubscriptionRegressed
  | SubscriptionConflict | UnexpectedControl | EventQueueFull

definition host_applyConfig :: "plugin_config \<Rightarrow> plugin_host \<Rightarrow> plugin_host \<times> (reader_error, control_event option) result" where
  "host_applyConfig new h =
    (let new = config_clone new; current = startup_Config (ph_current h)
     in if Revision new < Revision current then (h, Inl ConfigRegressed)
        else if Revision new = Revision current then (h, if Data new = Data current then Inr None else Inl ConfigConflict)
        else (h\<lparr>ph_current := (ph_current h)\<lparr>startup_Config := config_clone new\<rparr>\<rparr>, Inr (Some (ConfigEvent (config_clone new)))))"

definition host_applySubscription :: "subscription \<Rightarrow> plugin_host \<Rightarrow> plugin_host \<times> (reader_error, control_event option) result" where
  "host_applySubscription new h =
    (let new = sub_normalize new; current = startup_Subscription (ph_current h)
     in if sub_Generation new < sub_Generation current then (h, Inl SubscriptionRegressed)
        else if sub_Generation new = sub_Generation current then (h, if new = current then Inr None else Inl SubscriptionConflict)
        else (h\<lparr>ph_current := (ph_current h)\<lparr>startup_Subscription := new\<rparr>, ph_frames := ClearBefore (sub_Generation new) (ph_frames h)\<rparr>,
          Inr (Some (SubscriptionEvent new))))"

definition host_applyActive :: "bool \<Rightarrow> plugin_host \<Rightarrow> plugin_host \<times> control_event option" where
  "host_applyActive active h =
    (if active = startup_Active (ph_current h) then (h, None)
     else (let h = h\<lparr>ph_current := (ph_current h)\<lparr>startup_Active := active\<rparr>\<rparr>
       in (if \<not> active then h\<lparr>ph_frames := clearLocked (ph_frames h)\<rparr> else h, Some (ActiveEvent active))))"

definition host_stop :: "plugin_host \<Rightarrow> plugin_host" where
  "host_stop h = h\<lparr>ph_stopped := True, ph_frames := clearLocked (ph_frames h), ph_status := zero_status, ph_status_pending := False,
     ph_status_notify := snd (try_recv (ph_status_notify h)), ph_events_closed := True\<rparr>"

section \<open>The reader\<close>

record reader_result =
  rr_err :: "reader_error option"
  rr_shutdown :: bool

definition reader_failed :: "reader_error \<Rightarrow> reader_result option" where
  "reader_failed e = Some \<lparr>rr_err = Some e, rr_shutdown = False\<rparr>"

definition deliverEvent :: "control_event option \<Rightarrow> plugin_host \<Rightarrow> plugin_host \<times> reader_result option" where
  \<comment> \<open>the select at the end of readControls' loop\<close>
  "deliverEvent ev h = (case ev of None \<Rightarrow> (h, None)
   | Some e \<Rightarrow> if length (ph_events h) < ph_event_capacity h then (h\<lparr>ph_events := ph_events h @ [e]\<rparr>, None) else (h, reader_failed EventQueueFull))"

definition deliverShutdown :: "plugin_host \<Rightarrow> plugin_host \<times> reader_result option" where
  "deliverShutdown h = (if length (ph_events h) < ph_event_capacity h
     then (h\<lparr>ph_events := ph_events h @ [ShutdownRequested], shutdownAccepted := True\<rparr>, Some \<lparr>rr_err = None, rr_shutdown = True\<rparr>)
     else (h, reader_failed EventQueueFull))"

definition read_message :: "(payload \<Rightarrow> bytes option) \<Rightarrow> message \<Rightarrow> plugin_host \<Rightarrow> plugin_host \<times> reader_result option" where
  \<comment> \<open>the reader's result, if this message ends it\<close>
  "read_message encode m h = (case message_validate encode m of
     Inl e \<Rightarrow> (h, reader_failed (InvalidControl e))
   | Inr _ \<Rightarrow> (case msg_Payload m of
       ConfigChanged c \<Rightarrow> (case host_applyConfig c h of (h, r) \<Rightarrow> (case r of Inl e \<Rightarrow> (h, reader_failed e) | Inr ev \<Rightarrow> deliverEvent ev h))
     | SubscriptionChanged u \<Rightarrow> (case host_applySubscription u h of (h, r) \<Rightarrow> (case r of Inl e \<Rightarrow> (h, reader_failed e) | Inr ev \<Rightarrow> deliverEvent ev h))
     | ActiveChanged b \<Rightarrow> (case host_applyActive b h of (h, ev) \<Rightarrow> deliverEvent ev h)
     | Shutdown \<Rightarrow> deliverShutdown h
     | _ \<Rightarrow> (h, reader_failed UnexpectedControl)))"

fun readControls :: "(payload \<Rightarrow> bytes option) \<Rightarrow> (nat \<times> (conn_error, message) result) list \<Rightarrow> plugin_host \<Rightarrow> plugin_host \<times> reader_result option" where
  \<comment> \<open>what the connection receives, one after the other, and how many events the driver has taken from the queue before each;
     no result while it waits for more\<close>
  "readControls encode [] h = (h, None)"
| "readControls encode ((n, Inl e) # rest) h = (h, reader_failed (ReceiveFailed e))"
| "readControls encode ((n, Inr m) # rest) h = (case read_message encode m (h\<lparr>ph_events := drop n (ph_events h)\<rparr>) of
     (h, Some r) \<Rightarrow> (h, Some r)
   | (h, None) \<Rightarrow> readControls encode rest h)"

section \<open>The writer\<close>

definition load_frame :: "plugin_host \<Rightarrow> pending_frame option \<times> plugin_host" where
  "load_frame h = (case slot_Load (ph_frames h) of (pending, slot) \<Rightarrow> (pending, h\<lparr>ph_frames := slot\<rparr>))"

definition frame_payload :: "pending_frame \<Rightarrow> payload" where
  "frame_payload p = TrackingFrame (pf_Generation p) (TrimFrame (pf_Subscription p) (pf_Frame p))"

definition swap_dropped :: "plugin_host \<Rightarrow> u64 \<times> plugin_host" where
  "swap_dropped h = (droppedLogs h, h\<lparr>droppedLogs := 0\<rparr>)"

definition return_dropped :: "u64 \<Rightarrow> plugin_host \<Rightarrow> plugin_host" where
  \<comment> \<open>the entry was not sent\<close>
  "return_dropped dropped h = (if dropped \<noteq> 0 then h\<lparr>droppedLogs := droppedLogs h + dropped\<rparr> else h)"

definition write_heartbeat :: "int \<Rightarrow> payload" where
  \<comment> \<open>the milliseconds since it started\<close>
  "write_heartbeat elapsed = Heartbeat (word_of_int (if elapsed < 0 then 0 else elapsed))"

section \<open>The handshake\<close>

datatype runtime_error = ContextErr | CreateErr message_error | ConnErr conn_error | InvalidInitialization message_error | NotInitialize

record runtime_conn =
  \<comment> \<open>the connection at each use, and whether the context is done by then\<close>
  done_before :: bool
  rt_hello :: "conn_error option"
  done_hello :: bool
  rt_initialize :: "(conn_error, message) result"
  done_initialize :: bool
  rt_ready :: "conn_error option"
  done_ready :: bool

definition runtime_send :: "(payload \<Rightarrow> bytes option) \<Rightarrow> conn_error option \<Rightarrow> payload \<Rightarrow> message list \<times> runtime_error option" where
  \<comment> \<open>the messages handed to the connection\<close>
  "runtime_send encode failure p = (case NewMessage encode p of
     Inl e \<Rightarrow> ([], Some (CreateErr e))
   | Inr m \<Rightarrow> ([m], map_option ConnErr failure))"

definition sendErrorNotice :: "(payload \<Rightarrow> bytes option) \<Rightarrow> string \<Rightarrow> string \<Rightarrow> message list" where
  "sendErrorNotice encode code text = fst (runtime_send encode None (PeerError code (if blank text then ''runtime failure'' else text)))"

definition failing :: "(payload \<Rightarrow> bytes option) \<Rightarrow> (runtime_error \<Rightarrow> string) \<Rightarrow> bool \<Rightarrow> message list \<Rightarrow> runtime_error \<Rightarrow>
    message list \<times> (runtime_error, plugin_host) result" where
  \<comment> \<open>an error while the context is done is the context's, any other one is notified\<close>
  "failing encode error_text cancelled sent e =
     (if cancelled then (sent, Inl ContextErr) else (sent @ sendErrorNotice encode ''protocol_error'' (error_text e), Inl e))"

definition runtime_handshake :: "(payload \<Rightarrow> bytes option) \<Rightarrow> (runtime_error \<Rightarrow> string) \<Rightarrow> descriptor \<Rightarrow> runtime_config \<Rightarrow> runtime_conn \<Rightarrow>
    message list \<times> (runtime_error, plugin_host) result" where
  \<comment> \<open>Run, up to the start of the workers\<close>
  "runtime_handshake encode error_text d cfg c =
    (if done_before c then ([], Inl ContextErr)
     else case runtime_send encode (rt_hello c) (Hello (rc_Token cfg) d ProtocolVersion ProtocolVersion) of (sent, failure) \<Rightarrow> (case failure of
       Some e \<Rightarrow> failing encode error_text (done_hello c) sent e
     | None \<Rightarrow> (case rt_initialize c of
         Inl e \<Rightarrow> failing encode error_text (done_initialize c) sent (ConnErr e)
       | Inr m \<Rightarrow> (case message_validate encode m of
           Inl e \<Rightarrow> failing encode error_text False sent (InvalidInitialization e)
         | Inr _ \<Rightarrow> (case msg_Payload m of
             Initialize startup \<Rightarrow>
              (let startup = cloneStartup startup;
                   startup = startup\<lparr>startup_Subscription := sub_normalize (startup_Subscription startup)\<rparr>;
                   h = newRuntimeHost startup (ControlQueue cfg) (LogQueue cfg)
               in case runtime_send encode (rt_ready c) Ready of (ready, failure) \<Rightarrow> (case failure of
                  Some e \<Rightarrow> failing encode error_text (done_ready c) (sent @ ready) e
                | None \<Rightarrow> (sent @ ready, Inr h)))
           | _ \<Rightarrow> failing encode error_text False sent NotInitialize)))))"

section \<open>The end of the runtime\<close>





















section \<open>The plugin against the host's writer\<close>

lemma space_runes_foreign: "r \<in> set space_runes \<Longrightarrow> b64_value (hd r) = None \<and> b64_value (last r) = None"
proof -
  have "list_all (\<lambda>r. b64_value (hd r) = None \<and> b64_value (last r) = None) space_runes" by code_simp
  then show "r \<in> set space_runes \<Longrightarrow> b64_value (hd r) = None \<and> b64_value (last r) = None" by (simp add: list_all_iff)
qed

lemma b64_no_space:
  assumes "\<forall>c \<in> set s. b64_value c \<noteq> None"
  shows "trim_space s = s"
proof -
  have outer: "hd r \<notin> set s \<and> last r \<notin> set s \<and> r \<noteq> []" if "r \<in> set space_runes" for r
    using space_runes_foreign [OF that] space_runes_nonempty [OF that] assms by auto
  have "\<not> prefix r s" "\<not> suffix r s" if "r \<in> set space_runes" for r
    using outer [OF that] by (auto dest!: set_mono_prefix set_mono_suffix subsetD [OF _ hd_in_set] subsetD [OF _ last_in_set])
  then have "List.find (\<lambda>r. prefix r s) space_runes = None" "List.find (\<lambda>r. suffix r s) space_runes = None"
    by (auto simp: find_None_iff)
  then show ?thesis by (simp add: trim_space_def trim_left_space.simps [of s] trim_right_space.simps [of s])
qed

lemma encode_quanta_Nil: "encode_quanta bs = [] \<longleftrightarrow> bs = []"
  by (cases bs rule: encode_quanta.cases) simp_all

lemma token_not_blank:
  assumes "snd (decodeSessionToken token)"
  shows "\<not> blank token"
proof -
  obtain bs where bs: "length bs = 32" "token = b64_encode bs" using assms token_valid(1) by blast
  have "\<forall>x \<in> set (encode_quanta (map of_char bs)). x < (64 :: nat)" by (rule encode_quanta_small) auto
  then have "\<forall>c \<in> set token. b64_value c \<noteq> None" using bs(2) by (auto simp: b64_encode_def)
  moreover have "token \<noteq> []" using bs encode_quanta_Nil [of "map of_char bs"] by (auto simp: b64_encode_def)
  ultimately show ?thesis by (simp add: blank_def b64_no_space)
qed

definition plugin_view :: "control_state \<Rightarrow> plugin_startup" where
  \<comment> \<open>what the plugin makes of the host's desired state\<close>
  "plugin_view s = \<lparr>startup_Active = cs_Active s, startup_Config = cs_Config s, startup_Subscription = sub_normalize (cs_Subscription s)\<rparr>"

definition made :: "(payload \<Rightarrow> bytes option) \<Rightarrow> message \<Rightarrow> bool" where
  "made encode m \<longleftrightarrow> NewMessage encode (msg_Payload m) = Inr m"

lemma made_valid: "made encode m \<Longrightarrow> message_validate encode m = Inr ()"
  by (auto simp: made_def NewMessage_def result_iffs Let_def)

definition full_queue :: reader_result where
  "full_queue = \<lparr>rr_err = Some EventQueueFull, rr_shutdown = False\<rparr>"

definition shutdown_read :: reader_result where
  "shutdown_read = \<lparr>rr_err = None, rr_shutdown = True\<rparr>"

lemma delivered:
  "ph_current (fst (deliverEvent ev h)) = ph_current h" "ph_event_capacity (fst (deliverEvent ev h)) = ph_event_capacity h"
  "snd (deliverEvent ev h) = None \<or> snd (deliverEvent ev h) = Some full_queue \<and> ph_event_capacity h \<le> length (ph_events (fst (deliverEvent ev h)))"
  by (auto simp: deliverEvent_def reader_failed_def full_queue_def split: option.split)

lemma advance_read:
  assumes "made encode m" "advance s m" "ph_current h = plugin_view s"
  shows "ph_current (fst (read_message encode m h)) = plugin_view (told m s)"
    "ph_event_capacity (fst (read_message encode m h)) = ph_event_capacity h"
    "snd (read_message encode m h) = (if msg_Payload m = Shutdown then Some shutdown_read else None) \<or>
     snd (read_message encode m h) = Some full_queue \<and> ph_event_capacity h \<le> length (ph_events (fst (read_message encode m h)))"
proof -
  let ?h = "fst (read_message encode m h)" let ?r = "snd (read_message encode m h)"
  have "ph_current ?h = plugin_view (told m s) \<and> ph_event_capacity ?h = ph_event_capacity h \<and>
    (?r = (if msg_Payload m = Shutdown then Some shutdown_read else None) \<or> ?r = Some full_queue \<and> ph_event_capacity h \<le> length (ph_events ?h))"
  proof (cases "msg_Payload m")
    case (ConfigChanged c)
    define h1 where "h1 = h\<lparr>ph_current := (ph_current h)\<lparr>startup_Config := c\<rparr>\<rparr>"
    have "read_message encode m h = deliverEvent (Some (ConfigEvent c)) h1"
      using assms(2,3) ConfigChanged made_valid [OF assms(1)]
      by (auto simp: read_message_def host_applyConfig_def advance_def plugin_view_def h1_def Let_def)
    then show ?thesis using delivered [of "Some (ConfigEvent c)" h1] assms(3) ConfigChanged by (simp add: h1_def plugin_view_def)
  next
    case (SubscriptionChanged u)
    define h1 where "h1 = h\<lparr>ph_current := (ph_current h)\<lparr>startup_Subscription := sub_normalize u\<rparr>,
        ph_frames := ClearBefore (sub_Generation (sub_normalize u)) (ph_frames h)\<rparr>"
    have "read_message encode m h = deliverEvent (Some (SubscriptionEvent (sub_normalize u))) h1"
      using assms(2,3) SubscriptionChanged made_valid [OF assms(1)]
      by (auto simp: read_message_def host_applySubscription_def advance_def plugin_view_def h1_def Let_def)
    then show ?thesis using delivered [of "Some (SubscriptionEvent (sub_normalize u))" h1] assms(3) SubscriptionChanged by (simp add: h1_def plugin_view_def)
  next
    case (ActiveChanged b)
    obtain h1 ev where a: "host_applyActive b h = (h1, ev)" by fastforce
    have "read_message encode m h = deliverEvent ev h1" using ActiveChanged made_valid [OF assms(1)] a by (simp add: read_message_def)
    moreover have "ph_current h1 = plugin_view (s\<lparr>cs_Active := b\<rparr>)" "ph_event_capacity h1 = ph_event_capacity h"
      using a assms(3) by (auto simp: host_applyActive_def plugin_view_def Let_def split: if_splits)
    ultimately show ?thesis using delivered [of ev h1] ActiveChanged by simp
  next
    case Shutdown
    then show ?thesis using made_valid [OF assms(1)] assms(3)
      by (auto simp: read_message_def deliverShutdown_def reader_failed_def full_queue_def shutdown_read_def)
  qed (use assms(2) in \<open>simp_all add: advance_def\<close>)
  then show "ph_current ?h = plugin_view (told m s)" "ph_event_capacity ?h = ph_event_capacity h"
    "?r = (if msg_Payload m = Shutdown then Some shutdown_read else None) \<or> ?r = Some full_queue \<and> ph_event_capacity h \<le> length (ph_events ?h)"
    by blast+
qed

declare told.simps [simp del]

lemma reads_all:
  "advances_along s ms \<Longrightarrow> ph_current h = plugin_view s \<Longrightarrow> \<forall>m \<in> set ms. made encode m \<Longrightarrow> length ns = length ms \<Longrightarrow>
   readControls encode (zip ns (map Inr ms)) h = (h', r) \<Longrightarrow>
   \<exists>k \<le> length ms. ph_current h' = plugin_view (fold told (take k ms) s) \<and>
     (r = Some full_queue \<and> ph_event_capacity h \<le> length (ph_events h') \<or>
      k = length ms \<and> r = (if \<exists>m \<in> set ms. msg_Payload m = Shutdown then Some shutdown_read else None))"
proof (induction ms arbitrary: s h ns)
  case Nil
  then show ?case by simp
next
  case (Cons m ms)
  obtain n ns' where ns: "ns = n # ns'" using Cons.prems(4) by (cases ns) auto
  let ?h = "h\<lparr>ph_events := drop n (ph_events h)\<rparr>"
  have m: "made encode m" "advance s m" "ph_current ?h = plugin_view s" using Cons.prems(1-3) by simp_all
  note R = advance_read [OF m]
  obtain h1 x where x: "read_message encode m ?h = (h1, x)" by fastforce
  show ?case
  proof (cases x)
    case None
    then have "msg_Payload m \<noteq> Shutdown" "ph_current h1 = plugin_view (told m s)" "ph_event_capacity h1 = ph_event_capacity h"
      "readControls encode (zip ns' (map Inr ms)) h1 = (h', r)"
      using R x Cons.prems(5) ns by (auto split: if_splits)
    then obtain k where "k \<le> length ms" "ph_current h' = plugin_view (fold told (take k ms) (told m s))"
      "r = Some full_queue \<and> ph_event_capacity h \<le> length (ph_events h') \<or>
       k = length ms \<and> r = (if \<exists>m \<in> set ms. msg_Payload m = Shutdown then Some shutdown_read else None)"
      using Cons.IH [of "told m s" h1 ns'] Cons.prems(1,3,4) ns by auto
    then show ?thesis using \<open>msg_Payload m \<noteq> Shutdown\<close> by (intro exI [of _ "Suc k"]) auto
  next
    case (Some y)
    then have res: "h' = h1" "r = Some y" using Cons.prems(5) ns x by simp_all
    show ?thesis
    proof (cases "msg_Payload m = Shutdown")
      case True
      then have "ms = []" using Cons.prems(1) by simp
      then show ?thesis using R x Some res True by (intro exI [of _ 1]) auto
    next
      case False
      then show ?thesis using R x Some res by (intro exI [of _ 1]) auto
    qed
  qed
qed

lemma applyControl_made: "applyControl encode r s = (s', Inr (Some m, shutdown)) \<Longrightarrow> made encode m"
  by (erule applyControl_cases) (auto simp: no_message_def built_cases made_def NewMessage_ok)

lemma own_step_made:
  assumes "own_step encode w w'" "\<forall>m \<in> set (w_sent w @ map snd (in_flight w)). made encode m"
  shows "\<forall>m \<in> set (w_sent w' @ map snd (in_flight w')). made encode m"
  using assms(1)
proof cases
  case receive
  obtain i r rest where q: "w_requests w = (i, r) # rest" using receive(3) by (cases "w_requests w") auto
  obtain s res where r: "applyControl encode r (w_state w) = (s, res)" by fastforce
  show ?thesis
  proof (cases "\<exists>m shutdown. res = Inr (Some m, shutdown)")
    case True
    then obtain m shutdown where res: "res = Inr (Some m, shutdown)" by blast
    then show ?thesis using assms(2) receive q r applyControl_made [of encode r "w_state w" s m shutdown] by (auto simp: writer_receive_def in_flight_def)
  next
    case False
    then have "w_sent w' = w_sent w \<and> w_pc w' = Waiting"
      using receive q r by (auto simp: writer_receive_def Let_def split: sum.splits prod.splits option.splits)
    then show ?thesis using assms(2) by (auto simp: in_flight_def)
  qed
qed (use assms(2) in \<open>auto simp: writer_sent_def writer_stop_def writer_drain_def in_flight_def split: option.splits list.splits\<close>)

lemma reachable_made: "writer_reachable encode initial capacity x \<Longrightarrow> \<forall>m \<in> set (w_sent (snd x) @ map snd (in_flight (snd x))). made encode m"
proof (induction rule: writer_reachable.induct)
  case (step x y)
  show ?case using step.hyps(2)
  proof cases
    case (own w w' calls)
    then show ?thesis using own_step_made [OF own(3)] step.IH by simp
  qed (use step.IH in auto)
qed (simp add: newSessionWriter_def in_flight_def)

section \<open>The outbound writer beside the driver and the reader\<close>

text \<open>
  The writer's goroutine, the reader and the driver's calls interleave. A critical section of the
  host's lock that clears the frame slot has two steps, because the writer loads from the slot
  under the slot's own lock only; the other ones are a step each. The writer waits in its select,
  has been notified, or holds what it is about to send; a call of Log that found the queue full
  has yet to count its drop. The history counts the frames that went out after the last such
  critical section without being what the host then wants, and keeps the accounts of the logs.
\<close>

datatype clearing = ClearOlder u64 | ClearAll | ClearStopping

datatype writer_at = Selecting | FrameNoticed | FrameLoaded pending_frame | StatusNoticed | StatusLoaded device_status
  | LogTaken string string | LogSending string string u64 | BeatSending int | WriterGone

record outbound =
  ob_host :: plugin_host
  ob_clearing :: "clearing option" \<comment> \<open>the lock is held and the slot is about to be cleared\<close>
  ob_at :: writer_at
  ob_frames :: "pending_frame list" \<comment> \<open>went out, in this order\<close>
  ob_late :: nat
  ob_calls :: nat \<comment> \<open>calls of Log that were accepted\<close>
  ob_full :: nat \<comment> \<open>of these, found the queue full and have not counted it yet\<close>
  ob_logs :: "u64 list" \<comment> \<open>what each entry that went out says was dropped\<close>
  ob_lost :: nat \<comment> \<open>entries whose sending failed\<close>

definition new_outbound :: "plugin_host \<Rightarrow> outbound" where
  "new_outbound h = \<lparr>ob_host = h, ob_clearing = None, ob_at = Selecting, ob_frames = [], ob_late = 0, ob_calls = 0, ob_full = 0, ob_logs = [], ob_lost = 0\<rparr>"

fun finish_clearing :: "clearing \<Rightarrow> plugin_host \<Rightarrow> plugin_host" where
  "finish_clearing (ClearOlder g) h = h\<lparr>ph_frames := ClearBefore g (ph_frames h)\<rparr>"
| "finish_clearing ClearAll h = h\<lparr>ph_frames := clearLocked (ph_frames h)\<rparr>"
| "finish_clearing ClearStopping h = host_stop h"

definition wanted :: "plugin_host \<Rightarrow> pending_frame \<Rightarrow> bool" where
  \<comment> \<open>a frame of the subscription and the activity of now\<close>
  "wanted h p \<longleftrightarrow> \<not> ph_stopped h \<and> startup_Active (ph_current h) \<and> pf_Subscription p = startup_Subscription (ph_current h)"

definition frame_out :: "pending_frame \<Rightarrow> outbound \<Rightarrow> outbound" where
  "frame_out p b = b\<lparr>ob_at := Selecting, ob_frames := ob_frames b @ [p],
     ob_late := if ob_clearing b = None \<and> \<not> wanted (ob_host b) p then ob_late b + 1 else ob_late b\<rparr>"

inductive outbound_step :: "outbound \<Rightarrow> outbound \<Rightarrow> bool" where
  publish_frame: "ob_clearing b = None \<Longrightarrow> outbound_step b (b\<lparr>ob_host := fst (host_PublishFrame f (ob_host b))\<rparr>)"
| publish_status: "ob_clearing b = None \<Longrightarrow> outbound_step b (b\<lparr>ob_host := host_PublishStatus st (ob_host b)\<rparr>)"
| logged: "ob_clearing b = None \<Longrightarrow> log_level_valid level \<Longrightarrow> \<not> blank msg \<Longrightarrow> \<not> ph_stopped (ob_host b) \<Longrightarrow>
    length (ph_logs (ob_host b)) < ph_log_capacity (ob_host b) \<Longrightarrow>
    outbound_step b (b\<lparr>ob_calls := ob_calls b + 1, ob_host := host_Log level msg (ob_host b)\<rparr>)"
| log_full: "ob_clearing b = None \<Longrightarrow> log_level_valid level \<Longrightarrow> \<not> blank msg \<Longrightarrow> \<not> ph_stopped (ob_host b) \<Longrightarrow>
    ph_log_capacity (ob_host b) \<le> length (ph_logs (ob_host b)) \<Longrightarrow> outbound_step b (b\<lparr>ob_calls := ob_calls b + 1, ob_full := ob_full b + 1\<rparr>)"
| log_dropped: "0 < ob_full b \<Longrightarrow>
    outbound_step b (b\<lparr>ob_full := ob_full b - 1, ob_host := (ob_host b)\<lparr>droppedLogs := droppedLogs (ob_host b) + 1\<rparr>\<rparr>)"
| configured: "ob_clearing b = None \<Longrightarrow> outbound_step b (b\<lparr>ob_host := fst (host_applyConfig c (ob_host b))\<rparr>)"
| subscribed: "ob_clearing b = None \<Longrightarrow> host_applySubscription u (ob_host b) = (h, Inr (Some ev)) \<Longrightarrow>
    outbound_step b (b\<lparr>ob_host := h\<lparr>ph_frames := ph_frames (ob_host b)\<rparr>, ob_clearing := Some (ClearOlder (sub_Generation (sub_normalize u)))\<rparr>)"
| activated: "ob_clearing b = None \<Longrightarrow> outbound_step b (b\<lparr>ob_host := fst (host_applyActive True (ob_host b))\<rparr>)"
| deactivated: "ob_clearing b = None \<Longrightarrow> host_applyActive False (ob_host b) = (h, Some ev) \<Longrightarrow>
    outbound_step b (b\<lparr>ob_host := h\<lparr>ph_frames := ph_frames (ob_host b)\<rparr>, ob_clearing := Some ClearAll\<rparr>)"
| stopping: "ob_clearing b = None \<Longrightarrow> outbound_step b (b\<lparr>ob_host := (ob_host b)\<lparr>ph_stopped := True\<rparr>, ob_clearing := Some ClearStopping\<rparr>)"
| cleared: "ob_clearing b = Some x \<Longrightarrow> outbound_step b (b\<lparr>ob_host := finish_clearing x (ob_host b), ob_clearing := None, ob_late := 0\<rparr>)"
| deliver: "outbound_step b (b\<lparr>ob_host := fst (deliverEvent ev (ob_host b))\<rparr>)"
| take_event: "outbound_step b (b\<lparr>ob_host := (ob_host b)\<lparr>ph_events := tl (ph_events (ob_host b))\<rparr>\<rparr>)"
| frame_notice: "ob_at b = Selecting \<Longrightarrow> try_recv (slot_notify (ph_frames (ob_host b))) = (Some x, n) \<Longrightarrow>
    outbound_step b (b\<lparr>ob_at := FrameNoticed, ob_host := (ob_host b)\<lparr>ph_frames := (ph_frames (ob_host b))\<lparr>slot_notify := n\<rparr>\<rparr>\<rparr>)"
| frame_load: "ob_at b = FrameNoticed \<Longrightarrow> load_frame (ob_host b) = (pending, h) \<Longrightarrow>
    outbound_step b (b\<lparr>ob_host := h, ob_at := (case pending of None \<Rightarrow> Selecting | Some p \<Rightarrow> FrameLoaded p)\<rparr>)"
| frame_sent: "ob_at b = FrameLoaded p \<Longrightarrow> outbound_step b (frame_out p b)"
| frame_failed: "ob_at b = FrameLoaded p \<Longrightarrow> outbound_step b (b\<lparr>ob_at := WriterGone\<rparr>)"
| status_notice: "ob_at b = Selecting \<Longrightarrow> try_recv (ph_status_notify (ob_host b)) = (Some x, n) \<Longrightarrow>
    outbound_step b (b\<lparr>ob_at := StatusNoticed, ob_host := (ob_host b)\<lparr>ph_status_notify := n\<rparr>\<rparr>)"
| status_load: "ob_at b = StatusNoticed \<Longrightarrow> ob_clearing b = None \<Longrightarrow> loadStatus (ob_host b) = (st, h) \<Longrightarrow>
    outbound_step b (b\<lparr>ob_host := h, ob_at := (case st of None \<Rightarrow> Selecting | Some x \<Rightarrow> StatusLoaded x)\<rparr>)"
| status_sent: "ob_at b = StatusLoaded x \<Longrightarrow> outbound_step b (b\<lparr>ob_at := if ok then Selecting else WriterGone\<rparr>)"
| log_taken: "ob_at b = Selecting \<Longrightarrow> ph_logs (ob_host b) = (level, msg) # rest \<Longrightarrow>
    outbound_step b (b\<lparr>ob_at := LogTaken level msg, ob_host := (ob_host b)\<lparr>ph_logs := rest\<rparr>\<rparr>)"
| log_swapped: "ob_at b = LogTaken level msg \<Longrightarrow> swap_dropped (ob_host b) = (n, h) \<Longrightarrow>
    outbound_step b (b\<lparr>ob_at := LogSending level msg n, ob_host := h\<rparr>)"
| log_sent: "ob_at b = LogSending level msg n \<Longrightarrow> outbound_step b (b\<lparr>ob_at := Selecting, ob_logs := ob_logs b @ [n]\<rparr>)"
| log_failed: "ob_at b = LogSending level msg n \<Longrightarrow>
    outbound_step b (b\<lparr>ob_at := WriterGone, ob_lost := ob_lost b + 1, ob_host := return_dropped n (ob_host b)\<rparr>)"
| beat: "ob_at b = Selecting \<Longrightarrow> outbound_step b (b\<lparr>ob_at := BeatSending elapsed\<rparr>)"
| beat_sent: "ob_at b = BeatSending elapsed \<Longrightarrow> outbound_step b (b\<lparr>ob_at := if ok then Selecting else WriterGone\<rparr>)"
| canceled: "ob_at b = Selecting \<Longrightarrow> outbound_step b (b\<lparr>ob_at := WriterGone\<rparr>)"

abbreviation outbound_reachable :: "plugin_startup \<Rightarrow> int \<Rightarrow> int \<Rightarrow> outbound \<Rightarrow> bool" where
  "outbound_reachable startup controls logs b \<equiv> outbound_step\<^sup>*\<^sup>* (new_outbound (newRuntimeHost startup controls logs)) b"

lemma slot_simps [simp]:
  "slot_content NewLatestFrameSlot = None" "slot_content (clearLocked s) = None" "slot_content (snd (slot_Load s)) = None"
  "fst (slot_Load s) = slot_content s" "slot_content (s\<lparr>slot_notify := c\<rparr>) = slot_content s"
  "slot_content (ClearBefore g s) = (case slot_content s of Some p \<Rightarrow> if pf_Generation p < g then None else Some p | None \<Rightarrow> None)"
  by (auto simp: NewLatestFrameSlot_def slot_content_def clearLocked_def drainNotifyLocked_def slot_Load_def ClearBefore_def split: option.split)

lemma slot_stored: "slot_content (fst (slot_Store p s)) = (if pf_Generation p \<noteq> 0 then Some p else slot_content s)"
  by (rule frames.content_offer)

lemma canonical_frame_ok: "canonicalize f = Inr g \<Longrightarrow> frame_ok g"
  by (auto simp: canonicalize_eq canonical_ok)


definition stored_ok :: "pending_frame \<Rightarrow> bool" where
  "stored_ok p \<longleftrightarrow> pf_Generation p = sub_Generation (pf_Subscription p) \<and> pf_Generation p \<noteq> 0 \<and> frame_ok (pf_Frame p)"

definition generations :: "outbound \<Rightarrow> u64 list" where
  \<comment> \<open>of the frames that went out, of the one in hand, of the one that waits, and of the subscription\<close>
  "generations b = map pf_Generation (ob_frames b @ (case ob_at b of FrameLoaded p \<Rightarrow> [p] | _ \<Rightarrow> []) @
     (case slot_content (ph_frames (ob_host b)) of Some p \<Rightarrow> [p] | None \<Rightarrow> [])) @ [sub_Generation (startup_Subscription (ph_current (ob_host b)))]"

definition frames_ok :: "outbound \<Rightarrow> bool" where
  "frames_ok b \<longleftrightarrow> (\<forall>p \<in> set (ob_frames b). stored_ok p) \<and> (\<forall>p. ob_at b = FrameLoaded p \<longrightarrow> stored_ok p) \<and>
     (\<forall>p. slot_content (ph_frames (ob_host b)) = Some p \<longrightarrow> stored_ok p) \<and> sorted (generations b)"

definition late_ok :: "outbound \<Rightarrow> bool" where
  "late_ok b \<longleftrightarrow> ob_late b \<le> 1 \<and>
     (case ob_clearing b of
        None \<Rightarrow> (\<forall>p. slot_content (ph_frames (ob_host b)) = Some p \<longrightarrow> wanted (ob_host b) p) \<and>
          (\<forall>p. ob_late b = 1 \<longrightarrow> ob_at b = FrameLoaded p \<longrightarrow> wanted (ob_host b) p)
      | Some x \<Rightarrow> slot_content (ph_frames (finish_clearing x (ob_host b))) = None)"

lemma publish_cases:
  "fst (host_PublishFrame f h) = h \<or> (\<exists>p slot. fst (host_PublishFrame f h) = h\<lparr>ph_frames := slot\<rparr> \<and> slot_content slot = Some p \<and> stored_ok p \<and> wanted h p)"
proof (cases "canonicalize f")
  case (Inr g)
  let ?s = "startup_Subscription (ph_current h)"
  let ?p = "\<lparr>pf_Generation = sub_Generation ?s, pf_Subscription = ?s, pf_Frame = g\<rparr>"
  show ?thesis
  proof (cases "ph_stopped h \<or> \<not> startup_Active (ph_current h) \<or> sub_Generation ?s = 0 \<or> sub_Capabilities ?s = 0")
    case True
    then show ?thesis using Inr by (simp add: host_PublishFrame_def Let_def)
  next
    case False
    then have "fst (host_PublishFrame f h) = h\<lparr>ph_frames := fst (slot_Store ?p (ph_frames h))\<rparr>"
      using Inr by (simp add: host_PublishFrame_def Let_def split_def)
    moreover have "slot_content (fst (slot_Store ?p (ph_frames h))) = Some ?p" using False by (simp add: slot_stored)
    moreover have "stored_ok ?p" "wanted h ?p" using False canonical_frame_ok [OF Inr] by (simp_all add: stored_ok_def wanted_def)
    ultimately show ?thesis by blast
  qed
qed (simp add: host_PublishFrame_def)

lemma quiet:
  assumes "frames_ok b \<and> late_ok b" and "ob_frames b' = ob_frames b" "ob_late b' = ob_late b" "ob_clearing b' = ob_clearing b"
    and "ph_frames (ob_host b') = ph_frames (ob_host b)"
    and "ph_stopped (ob_host b') = ph_stopped (ob_host b)" "startup_Active (ph_current (ob_host b)) \<Longrightarrow> startup_Active (ph_current (ob_host b'))"
      "startup_Subscription (ph_current (ob_host b')) = startup_Subscription (ph_current (ob_host b))"
    and "ob_at b' = ob_at b \<or> (\<forall>p. ob_at b' \<noteq> FrameLoaded p)"
  shows "frames_ok b' \<and> late_ok b'"
proof -
  have w: "wanted (ob_host b) p \<Longrightarrow> wanted (ob_host b') p" for p using assms(6,7,8) by (auto simp: wanted_def)
  have fin: "slot_content (ph_frames (finish_clearing x (ob_host b'))) = slot_content (ph_frames (finish_clearing x (ob_host b)))" for x
    using assms(5) by (cases x) (simp_all add: host_stop_def)
  have "sorted (generations b')" if "sorted (generations b)"
    using that assms(2,5,8,9) by (auto simp: generations_def sorted_append split: writer_at.splits option.splits)
  then show ?thesis using assms w fin by (auto simp: frames_ok_def late_ok_def split: option.splits)
qed

lemma locked:
  assumes "frames_ok b \<and> late_ok b" and "ob_frames b' = ob_frames b" "ob_late b' = ob_late b" "ob_at b' = ob_at b"
    and "ph_frames (ob_host b') = ph_frames (ob_host b)" and "ob_clearing b' = Some x"
    and "sub_Generation (startup_Subscription (ph_current (ob_host b))) \<le> sub_Generation (startup_Subscription (ph_current (ob_host b')))"
    and "\<And>p. slot_content (ph_frames (ob_host b)) = Some p \<Longrightarrow> pf_Generation p \<le> sub_Generation (startup_Subscription (ph_current (ob_host b))) \<Longrightarrow>
      slot_content (ph_frames (finish_clearing x (ob_host b'))) = None"
    and "slot_content (ph_frames (ob_host b)) = None \<Longrightarrow> slot_content (ph_frames (finish_clearing x (ob_host b'))) = None"
  shows "frames_ok b' \<and> late_ok b'"
proof -
  have g: "sorted (generations b)" using assms(1) by (simp add: frames_ok_def)
  then have "pf_Generation p \<le> sub_Generation (startup_Subscription (ph_current (ob_host b)))" if "slot_content (ph_frames (ob_host b)) = Some p" for p
    using that by (auto simp: generations_def sorted_append)
  then have "slot_content (ph_frames (finish_clearing x (ob_host b'))) = None" using assms(8,9) by (cases "slot_content (ph_frames (ob_host b))") auto
  moreover have "sorted (generations b')"
    using g assms(2,4,5,7) by (fastforce simp: generations_def sorted_append)
  ultimately show ?thesis using assms(1-6) by (auto simp: frames_ok_def late_ok_def)
qed

lemma subscription_cases:
  assumes "host_applySubscription u h = (h', Inr (Some ev))"
  shows "h' = h\<lparr>ph_current := (ph_current h)\<lparr>startup_Subscription := sub_normalize u\<rparr>, ph_frames := ClearBefore (sub_Generation (sub_normalize u)) (ph_frames h)\<rparr>"
    "sub_Generation (startup_Subscription (ph_current h)) < sub_Generation (sub_normalize u)"
  using assms by (auto simp: host_applySubscription_def Let_def split: if_splits)

lemma outbound_step_frames: "outbound_step b b' \<Longrightarrow> frames_ok b \<and> late_ok b \<Longrightarrow> frames_ok b' \<and> late_ok b'"
proof (induction rule: outbound_step.induct)
  case (publish_frame b f)
  let ?h = "ob_host b"
  consider "fst (host_PublishFrame f ?h) = ?h" | p slot where "fst (host_PublishFrame f ?h) = ?h\<lparr>ph_frames := slot\<rparr>" "slot_content slot = Some p" "stored_ok p" "wanted ?h p"
    using publish_cases [of f ?h] by blast
  then show ?case
  proof cases
    case 1
    then show ?thesis using publish_frame by simp
  next
    case 2
    then have g: "pf_Generation p = sub_Generation (startup_Subscription (ph_current ?h))" by (simp add: stored_ok_def wanted_def)
    have "wanted (?h\<lparr>ph_frames := slot\<rparr>) q = wanted ?h q" for q by (simp add: wanted_def)
    then show ?thesis using 2 g publish_frame by (auto simp: frames_ok_def late_ok_def generations_def sorted_append)
  qed
next
  case (subscribed b u h ev)
  note h = subscription_cases [OF subscribed(2)]
  show ?case
    by (rule locked [OF subscribed(3), where x = "ClearOlder (sub_Generation (sub_normalize u))"]) (use h in \<open>auto split: option.splits\<close>)
next
  case (deactivated b h ev)
  then have "h = (ob_host b)\<lparr>ph_current := (ph_current (ob_host b))\<lparr>startup_Active := False\<rparr>, ph_frames := clearLocked (ph_frames (ob_host b))\<rparr>"
    by (auto simp: host_applyActive_def Let_def split: if_splits)
  then show ?case by (intro locked [OF deactivated(3), where x = ClearAll]) auto
next
  case (stopping b)
  show ?case by (rule locked [OF stopping(2), where x = ClearStopping]) (auto simp: host_stop_def)
next
  case (cleared b x)
  have "slot_content (ph_frames (finish_clearing x (ob_host b))) = None" using cleared by (simp add: late_ok_def)
  moreover have "ph_current (finish_clearing x (ob_host b)) = ph_current (ob_host b)" by (cases x) (simp_all add: host_stop_def)
  ultimately show ?case using cleared by (auto simp: frames_ok_def late_ok_def generations_def sorted_append split: option.splits)
next
  case (frame_load b pending h)
  have h: "pending = slot_content (ph_frames (ob_host b))" "slot_content (ph_frames h) = None" "ph_current h = ph_current (ob_host b)"
    "ph_stopped h = ph_stopped (ob_host b)"
    using frame_load(2) by (auto simp: load_frame_def split_def)
  have fin: "slot_content (ph_frames (finish_clearing x h)) = None" for x using h(2) by (cases x) (auto simp: host_stop_def split: option.split)
  have "wanted h p = wanted (ob_host b) p" for p using h by (simp add: wanted_def)
  then show ?case using frame_load(1,3) h fin
    by (auto simp: frames_ok_def late_ok_def generations_def sorted_append split: option.splits)
next
  case (frame_sent b p)
  then show ?case by (auto simp: frames_ok_def late_ok_def generations_def frame_out_def sorted_append split: option.splits)
next
  case (frame_notice b x n)
  have fin: "slot_content (ph_frames (finish_clearing y ((ob_host b)\<lparr>ph_frames := (ph_frames (ob_host b))\<lparr>slot_notify := n\<rparr>\<rparr>))) =
      slot_content (ph_frames (finish_clearing y (ob_host b)))" for y
    by (cases y) (simp_all add: host_stop_def)
  have "wanted ((ob_host b)\<lparr>ph_frames := (ph_frames (ob_host b))\<lparr>slot_notify := n\<rparr>\<rparr>) p = wanted (ob_host b) p" for p by (simp add: wanted_def)
  then show ?case using frame_notice fin by (auto simp: frames_ok_def late_ok_def generations_def split: option.splits)
next
  case (publish_status b st)
  show ?case by (rule quiet [of b]) (use publish_status in \<open>auto simp: host_PublishStatus_def\<close>)
next
  case (logged b level msg)
  show ?case by (rule quiet [of b]) (use logged in \<open>auto simp: host_Log_def\<close>)
next
  case (configured b c)
  show ?case by (rule quiet [of b]) (use configured in \<open>auto simp: host_applyConfig_def Let_def\<close>)
next
  case (activated b)
  show ?case by (rule quiet [of b]) (use activated in \<open>auto simp: host_applyActive_def Let_def\<close>)
next
  case (deliver b ev)
  show ?case by (rule quiet [of b]) (use deliver in \<open>auto simp: deliverEvent_def split: option.split\<close>)
next
  case (status_load b st h)
  show ?case by (rule quiet [of b]) (use status_load in \<open>auto simp: loadStatus_def split: option.splits if_splits\<close>)
next
  case (log_swapped b level msg n h)
  show ?case by (rule quiet [of b]) (use log_swapped in \<open>auto simp: swap_dropped_def\<close>)
next
  case (log_failed b level msg n)
  show ?case by (rule quiet [of b]) (use log_failed in \<open>auto simp: return_dropped_def\<close>)
next
  case (log_full b level msg)
  show ?case by (rule quiet [of b]) (use log_full in simp_all)
next
  case (log_dropped b)
  show ?case by (rule quiet [of b]) (use log_dropped in simp_all)
next
  case (take_event b)
  show ?case by (rule quiet [of b]) (use take_event in simp_all)
next
  case (frame_failed b p)
  show ?case by (rule quiet [of b]) (use frame_failed in simp_all)
next
  case (status_notice b x n)
  show ?case by (rule quiet [of b]) (use status_notice in simp_all)
next
  case (status_sent b x ok)
  show ?case by (rule quiet [of b]) (use status_sent in simp_all)
next
  case (log_taken b level msg rest)
  show ?case by (rule quiet [of b]) (use log_taken in simp_all)
next
  case (log_sent b level msg n)
  show ?case by (rule quiet [of b]) (use log_sent in simp_all)
next
  case (beat b elapsed)
  show ?case by (rule quiet [of b]) (use beat in simp_all)
next
  case (beat_sent b elapsed ok)
  show ?case by (rule quiet [of b]) (use beat_sent in simp_all)
next
  case (canceled b)
  show ?case by (rule quiet [of b]) (use canceled in simp_all)
qed


lemma reachable_frames: "outbound_reachable startup controls logs b \<Longrightarrow> frames_ok b \<and> late_ok b"
proof (induction rule: rtranclp_induct)
  case base
  show ?case by (simp add: frames_ok_def late_ok_def generations_def new_outbound_def newRuntimeHost_def)
qed (rule outbound_step_frames)

section \<open>The accounts of the logs\<close>

fun logs_held :: "writer_at \<Rightarrow> nat" where
  \<comment> \<open>the entry in the writer's hand, and the drops it is about to report\<close>
  "logs_held (LogTaken level text) = 1"
| "logs_held (LogSending level text n) = 1 + unat n"
| "logs_held _ = 0"

definition log_balance :: "outbound \<Rightarrow> bool" where
  "log_balance b \<longleftrightarrow> (ob_calls b < 2 ^ 64 \<longrightarrow>
     ob_calls b = length (ob_logs b) + sum_list (map unat (ob_logs b)) + length (ph_logs (ob_host b)) + ob_full b + unat (droppedLogs (ob_host b)) +
       logs_held (ob_at b) + ob_lost b) \<and>
     ob_lost b \<le> 1 \<and> (ob_lost b = 1 \<longrightarrow> ob_at b = WriterGone)"

lemma balance_kept:
  assumes "log_balance b" and "ob_calls b' = ob_calls b" "ob_logs b' = ob_logs b" "ob_lost b' = ob_lost b" "ob_full b' = ob_full b"
    and "ph_logs (ob_host b') = ph_logs (ob_host b)" "droppedLogs (ob_host b') = droppedLogs (ob_host b)" "logs_held (ob_at b') = logs_held (ob_at b)"
    and "ob_at b' = ob_at b \<or> ob_at b \<noteq> WriterGone"
  shows "log_balance b'"
  using assms by (auto simp: log_balance_def)

lemma finish_clearing_logs: "ph_logs (finish_clearing x h) = ph_logs h" "droppedLogs (finish_clearing x h) = droppedLogs h"
  by (cases x; simp add: host_stop_def)+

lemma apply_logs: "ph_logs (fst (host_applySubscription u h)) = ph_logs h" "droppedLogs (fst (host_applySubscription u h)) = droppedLogs h"
  "ph_logs (fst (host_applyActive a h)) = ph_logs h" "droppedLogs (fst (host_applyActive a h)) = droppedLogs h"
  by (simp_all add: host_applySubscription_def host_applyActive_def Let_def)

lemma counted: "unat m + unat n < 2 ^ 64 \<Longrightarrow> unat (m + n :: u64) = unat m + unat n"
  using unat_add_lem [of m n] by simp

lemma log_step_balance: "outbound_step b b' \<Longrightarrow> log_balance b \<Longrightarrow> log_balance b'"
proof (induction rule: outbound_step.induct)
  case (logged b level msg)
  then show ?case by (auto simp: log_balance_def host_Log_def)
next
  case (log_full b level msg)
  then show ?case by (auto simp: log_balance_def)
next
  case (log_dropped b)
  have "unat (droppedLogs (ob_host b) + 1) = unat (droppedLogs (ob_host b)) + 1" if "ob_calls b < 2 ^ 64"
    using counted [of "droppedLogs (ob_host b)" 1] log_dropped that by (simp add: log_balance_def)
  then show ?case using log_dropped by (auto simp: log_balance_def)
next
  case (log_taken b level msg rest)
  then show ?case by (auto simp: log_balance_def)
next
  case (log_swapped b level msg n h)
  then show ?case by (auto simp: log_balance_def swap_dropped_def)
next
  case (log_sent b level msg n)
  then show ?case by (auto simp: log_balance_def)
next
  case (log_failed b level msg n)
  have "unat (droppedLogs (ob_host b) + n) = unat (droppedLogs (ob_host b)) + unat n" if "ob_calls b < 2 ^ 64"
    using counted [of "droppedLogs (ob_host b)" n] log_failed that by (simp add: log_balance_def)
  then show ?case using log_failed by (auto simp: log_balance_def return_dropped_def)
next
  case (subscribed b u h ev)
  then show ?case using apply_logs(1,2) [of u "ob_host b"] by (intro balance_kept [OF subscribed(3)]) simp_all
next
  case (deactivated b h ev)
  then show ?case using apply_logs(3,4) [of False "ob_host b"] by (intro balance_kept [OF deactivated(3)]) simp_all
next
  case (publish_frame b f)
  then show ?case using publish_cases [of f "ob_host b"] by (intro balance_kept [OF publish_frame(2)]) auto
next
  case (publish_status b st)
  then show ?case by (intro balance_kept [OF publish_status(2)]) (simp_all add: host_PublishStatus_def)
next
  case (configured b c)
  then show ?case by (intro balance_kept [OF configured(2)]) (simp_all add: host_applyConfig_def Let_def)
next
  case (deliver b ev)
  show ?case by (rule balance_kept [OF deliver]) (simp_all add: deliverEvent_def split: option.split)
next
  case (frame_load b pending h)
  then show ?case by (intro balance_kept [OF frame_load(3)]) (auto simp: load_frame_def split_def split: option.split)
next
  case (status_load b st h)
  then show ?case by (intro balance_kept [OF status_load(4)]) (auto simp: loadStatus_def split: option.splits if_splits)
next
  case (frame_failed b p)
  then show ?case by (intro balance_kept [OF frame_failed(2)]) simp_all
next
  case (canceled b)
  then show ?case by (intro balance_kept [OF canceled(2)]) simp_all
next
  case (frame_sent b p)
  then show ?case by (intro balance_kept [OF frame_sent(2)]) (simp_all add: frame_out_def)
qed (erule balance_kept; simp add: apply_logs finish_clearing_logs host_stop_def)+


lemma reachable_balance: "outbound_reachable startup controls logs b \<Longrightarrow> log_balance b"
proof (induction rule: rtranclp_induct)
  case base
  show ?case by (simp add: log_balance_def new_outbound_def newRuntimeHost_def)
qed (rule log_step_balance)

section \<open>Properties\<close>

text \<open>C15 (refinement). The plugin follows the state its host means it to have: whatever the interleaving of the callers with
  the host's session writer, a plugin that starts with the writer's initial state and reads the messages it sent goes
  through the states these messages tell, one after the other, its subscription normalized, and refuses none of them. It
  stops early only if a message leaves its queue of events full, because the driver did not take them; otherwise it has
  read them all, its reader has stopped exactly if a shutdown was sent, and it ends with the writer's configuration,
  subscription and activity, each as far as the message for it can be made at all: one the encoder fails on, or turns
  into more than 1 MiB, is never sent. Stated for a writer with nothing in hand and no failed connection; nothing is
  assumed of the encoder.\<close>

theorem plugin_agrees:
  assumes "writer_reachable encode initial capacity (calls, w)" "in_flight w = []" "terminalErr w = None"
    and "ph_current h = plugin_view initial" "length taken = length (w_sent w)" "readControls encode (zip taken (map Inr (w_sent w))) h = (h', r)"
  shows "\<exists>k \<le> length (w_sent w). ph_current h' = plugin_view (fold told (take k (w_sent w)) initial) \<and>
    (r = Some \<lparr>rr_err = Some EventQueueFull, rr_shutdown = False\<rparr> \<and> ph_event_capacity h \<le> length (ph_events h') \<or>
     k = length (w_sent w) \<and>
     r = (if \<exists>m \<in> set (w_sent w). msg_Payload m = Shutdown then Some \<lparr>rr_err = None, rr_shutdown = True\<rparr> else None) \<and>
     (let s = w_state w; u = ph_current h' in
       (is_ok (NewMessage encode (ConfigChanged (cs_Config s))) \<longrightarrow> startup_Config u = cs_Config s) \<and>
       (is_ok (NewMessage encode (SubscriptionChanged (cs_Subscription s))) \<longrightarrow> startup_Subscription u = sub_normalize (cs_Subscription s)) \<and>
       (is_ok (NewMessage encode (ActiveChanged (cs_Active s))) \<longrightarrow> startup_Active u = cs_Active s)))"
proof -
  have "advances_along initial (w_sent w)" "agrees encode (w_state w) (fold told (w_sent w) initial)"
    using reachable_mirrored [OF assms(1)] assms(2,3) by (auto simp: mirrored_def)
  moreover have "\<forall>m \<in> set (w_sent w). made encode m" using reachable_made [OF assms(1)] by simp
  ultimately show ?thesis
    using reads_all [OF _ assms(4) _ assms(5,6)] unfolding full_queue_def shutdown_read_def
    by (fastforce simp: agrees_def plugin_view_def Let_def)
qed

text \<open>C16 (functional). The two sides of the handshake meet: if the plugin was given the session's token, its descriptor is
  valid and the manifest's, the start-up state is valid, and the Hello, the Initialize and the Ready of this session can
  be encoded within the limit of a message, then the host accepts the Hello the plugin opens with, the plugin accepts the
  Initialize the host answers with, the host accepts its Ready, and the plugin starts with the state the host sent, its
  subscription normalized, nothing queued and no frame pending.\<close>

theorem handshake_meets:
  assumes "encodable encode (Hello (rc_Token cfg) d ProtocolVersion ProtocolVersion)" "encodable encode (Initialize startup)" "encodable encode Ready"
    and "snd (decodeSessionToken (rc_Token cfg))" "is_ok (descriptor_validate d)" "descriptorMatchesManifest d m"
    "mf_ProtocolMin m \<le> ProtocolVersion" "ProtocolVersion \<le> mf_ProtocolMax m"
    "is_ok (config_validate (startup_Config startup))" "is_ok (sub_validate (startup_Subscription startup) (startup_Active startup))"
  shows "\<exists>hello initialize ready h.
    runtime_handshake encode error_text d cfg \<lparr>done_before = False, rt_hello = None, done_hello = b1, rt_initialize = Inr initialize,
      done_initialize = b2, rt_ready = None, done_ready = b3\<rparr> = ([hello, ready], Inr h) \<and>
    hostHandshake encode (Some \<lparr>hs_hello = Inr hello, hs_send = None, hs_ready = Inr ready, late_hello = l1, late_send = l2, late_ready = l3\<rparr>)
      m (rc_Token cfg) startup = ([initialize], Inr d) \<and>
    ph_initial h = startup\<lparr>startup_Subscription := sub_normalize (startup_Subscription startup)\<rparr> \<and> ph_current h = ph_initial h \<and>
    ph_events h = [] \<and> slot_content (ph_frames h) = None \<and> \<not> ph_stopped h"
proof -
  have not_blank: "\<not> blank (rc_Token cfg)" using assms(4) token_not_blank by blast
  define hello where "hello = \<lparr>msg_Version = ProtocolVersion, msg_Type = MessageHello, msg_Payload = Hello (rc_Token cfg) d ProtocolVersion ProtocolVersion\<rparr>"
  define initialize where "initialize = \<lparr>msg_Version = ProtocolVersion, msg_Type = MessageInitialize, msg_Payload = Initialize startup\<rparr>"
  define ready where "ready = \<lparr>msg_Version = ProtocolVersion, msg_Type = MessageReady, msg_Payload = Ready\<rparr>"
  have made: "NewMessage encode (Hello (rc_Token cfg) d ProtocolVersion ProtocolVersion) = Inr hello"
    "NewMessage encode (Initialize startup) = Inr initialize" "NewMessage encode Ready = Inr ready"
    using NewMessage_encodable [OF assms(1)] NewMessage_encodable [OF assms(2)] NewMessage_encodable [OF assms(3)] assms(5,9,10) not_blank
    by (simp_all add: hello_def initialize_def ready_def is_ok_iff wrap_error_def)
  have sends: "runtime_send encode None (Hello (rc_Token cfg) d ProtocolVersion ProtocolVersion) = ([hello], None)"
    "runtime_send encode None Ready = ([ready], None)"
    using made(1,3) by (simp_all add: runtime_send_def)
  have valid: "message_validate encode initialize = Inr ()" using made(2) by (auto simp: NewMessage_def result_iffs Let_def)
  have fields: "hello_fields hello = Some (rc_Token cfg, d, ProtocolVersion, ProtocolVersion)" by (simp add: hello_fields_def hello_def)
  have clone: "cloneStartup s = s" for s by (simp add: cloneStartup_def)
  have compatible: "helloProtocolCompatible ProtocolVersion ProtocolVersion m" using assms(7,8) by (auto simp: helloProtocolCompatible_def)
  have plugin: "runtime_handshake encode error_text d cfg \<lparr>done_before = False, rt_hello = None, done_hello = b1, rt_initialize = Inr initialize,
      done_initialize = b2, rt_ready = None, done_ready = b3\<rparr> = ([hello, ready], Inr (newRuntimeHost
        (startup\<lparr>startup_Subscription := sub_normalize (startup_Subscription startup)\<rparr>) (ControlQueue cfg) (LogQueue cfg)))"
    using sends valid by (simp add: runtime_handshake_def clone Let_def) (simp add: initialize_def clone)
  have host: "hostHandshake encode (Some \<lparr>hs_hello = Inr hello, hs_send = None, hs_ready = Inr ready, late_hello = l1, late_send = l2, late_ready = l3\<rparr>)
      m (rc_Token cfg) startup = ([initialize], Inr d)"
    using assms(4-6) made(2) compatible by (simp add: hostHandshake_def fields clone await_ready_def) (simp add: ready_def)
  show ?thesis
    by (intro exI conjI, rule plugin, rule host) (simp_all add: newRuntimeHost_def clone NewLatestFrameSlot_def slot_content_def)
qed

text \<open>C20 (safety). The frames a plugin sends, with the reader, the driver and the writer interleaved as the locks allow, also
  between the writer's load of a frame and its sending, and between the change of the subscription and the clearing of the
  slot: every frame that goes out carries the generation of the subscription it was published for and passes the checks of
  the wire; the generations that go out never go down and never exceed the current one. After a new subscription, a
  deactivation or the stop has been applied, at most one frame goes out that is not of the current subscription and
  activity, the one that was in the writer's hand by then; what waits afterwards is of the current ones.\<close>

theorem frames_current:
  assumes "outbound_reachable startup controls logs b"
  shows "(\<forall>p \<in> set (ob_frames b). pf_Generation p = sub_Generation (pf_Subscription p) \<and> pf_Generation p \<noteq> 0 \<and>
      validatePayload (frame_payload p) = Inr ()) \<and>
    sorted (map pf_Generation (ob_frames b) @ [sub_Generation (startup_Subscription (ph_current (ob_host b)))]) \<and>
    ob_late b \<le> 1 \<and>
    (ob_clearing b = None \<longrightarrow>
      (\<forall>p. slot_content (ph_frames (ob_host b)) = Some p \<longrightarrow> wanted (ob_host b) p) \<and>
      (\<forall>p. ob_at b = FrameLoaded p \<longrightarrow> ob_late b = 1 \<longrightarrow> wanted (ob_host b) p))"
proof -
  have ok: "frames_ok b" "late_ok b" using reachable_frames [OF assms] by blast+
  have "validatePayload (frame_payload p) = Inr ()" if "stored_ok p" for p
    using frame_ok_trim [of "pf_Frame p" "pf_Subscription p"] that
    by (auto simp: stored_ok_def frame_payload_def wrap_error_def frame_validate_ok [of _ "()", THEN iffD2])
  moreover have "sorted (map pf_Generation (ob_frames b) @ [sub_Generation (startup_Subscription (ph_current (ob_host b)))])"
    using ok(1) by (auto simp: frames_ok_def generations_def sorted_append)
  ultimately show ?thesis using ok by (auto simp: frames_ok_def late_ok_def stored_ok_def)
qed

text \<open>C21 (invariant). No log entry disappears unnoticed: however the driver's calls of Log and the writer interleave, as long
  as there have been fewer than 2^64 of them, the calls that were accepted are the entries that went out, the drops these
  entries report, the entries that wait, the calls that found the queue full and are about to count their drop, the drops
  counted and not reported yet, what the writer holds (an entry, and the drops it is to report), and an entry whose
  sending failed. That is one at most, the writer ends with it, and the drops it was to report are given back.\<close>

theorem logs_accounted:
  assumes "outbound_reachable startup controls logs b" "ob_calls b < 2 ^ 64"
  shows "ob_calls b = length (ob_logs b) + sum_list (map unat (ob_logs b)) + length (ph_logs (ob_host b)) + ob_full b +
      unat (droppedLogs (ob_host b)) + logs_held (ob_at b) + ob_lost b \<and>
    ob_lost b \<le> 1 \<and> (ob_lost b = 1 \<longrightarrow> ob_at b = WriterGone)"
  using reachable_balance [OF assms(1)] assms(2) by (simp add: log_balance_def)



section \<open>Examples\<close>

definition sample_host :: plugin_host where
  "sample_host = newRuntimeHost (plugin_view sample_control) 4 1"

theorem plugin_agrees_witness:
  "startup_Config (ph_current (fst (readControls sample_encode (zip [0] (map Inr (w_sent sample_writer))) sample_host))) = \<lparr>Revision = 3, Data = ''{}''\<rparr> \<or>
   snd (readControls sample_encode (zip [0] (map Inr (w_sent sample_writer))) sample_host) = Some \<lparr>rr_err = Some EventQueueFull, rr_shutdown = False\<rparr>"
proof -
  have h: "ph_current sample_host = plugin_view sample_control" by (simp add: sample_host_def newRuntimeHost_def cloneStartup_def)
  have one: "length [0 :: nat] = length (w_sent sample_writer)" using sample_writer_fields(4) by simp
  obtain h' r where run: "readControls sample_encode (zip [0] (map Inr (w_sent sample_writer))) sample_host = (h', r)" by fastforce
  from plugin_agrees [OF sample_reachable(1) sample_writer_fields(1,2) h one run] show ?thesis
    using sample_writer_fields(3) sample_config_message run by (auto simp: Let_def)
qed

theorem handshake_meets_witness:
  "\<exists>hello initialize ready h.
    runtime_handshake sample_encode (\<lambda>_. ''error'') sample_descriptor (DefaultRuntimeConfig\<lparr>rc_Token := sample_token\<rparr>)
      \<lparr>done_before = False, rt_hello = None, done_hello = False, rt_initialize = Inr initialize, done_initialize = False, rt_ready = None,
       done_ready = False\<rparr> = ([hello, ready], Inr h)"
proof -
  have "is_ok (descriptor_validate sample_descriptor)" "descriptorMatchesManifest sample_descriptor sample_manifest"
      "mf_ProtocolMin sample_manifest \<le> ProtocolVersion" "ProtocolVersion \<le> mf_ProtocolMax sample_manifest"
      "is_ok (config_validate (startup_Config sample_startup))"
      "is_ok (sub_validate (startup_Subscription sample_startup) (startup_Active sample_startup))"
    by code_simp+
  from handshake_meets [OF sample_encodable sample_encodable sample_encodable _ this, of "DefaultRuntimeConfig\<lparr>rc_Token := sample_token\<rparr>"
      "\<lambda>_. ''error''" False False False] sample_token_valid
  show ?thesis by fastforce
qed

definition sample_active_startup :: plugin_startup where
  "sample_active_startup = \<lparr>startup_Active = True, startup_Config = \<lparr>Revision = 0, Data = []\<rparr>,
     startup_Subscription = \<lparr>sub_Generation = 2, sub_Capabilities = CapabilityEye, sub_Eye = 0, sub_Expressions = empty_mask\<rparr>\<rparr>"


lemma one_frame: "canonicalize sample_frame = Inr (canonical sample_frame)"
  using sample_frame_ok by (simp add: canonicalize_eq frame_validate_ok)

definition sample_pending :: pending_frame where
  "sample_pending = \<lparr>pf_Generation = 2, pf_Subscription = startup_Subscription sample_active_startup, pf_Frame = canonical sample_frame\<rparr>"

lemma late_run:
  \<comment> \<open>the writer holds a frame while the plugin is deactivated, and sends it\<close>
  "\<exists>b. outbound_reachable sample_active_startup 4 4 b \<and> ob_frames b = [sample_pending] \<and> ob_late b = 1 \<and> ob_clearing b = None"
proof -
  let ?h = "newRuntimeHost sample_active_startup 4 4" let ?b = "new_outbound ?h"
  let ?h1 = "fst (host_PublishFrame sample_frame ?h)" let ?b1 = "?b\<lparr>ob_host := ?h1\<rparr>"
  have cur: "startup_Active (ph_current ?h)" "\<not> ph_stopped ?h" "ph_current ?h = sample_active_startup" "ph_frames ?h = NewLatestFrameSlot"
    by (simp_all add: newRuntimeHost_def cloneStartup_def sample_active_startup_def)
  have h1: "?h1 = ?h\<lparr>ph_frames := \<lparr>slot_frame = Some sample_pending, slot_pending = True, slot_notify = Some ()\<rparr>\<rparr>"
    using cur by (simp add: host_PublishFrame_def one_frame Let_def slot_Store_def NewLatestFrameSlot_def try_send_def sample_pending_def)
      (simp add: sample_active_startup_def CapabilityEye_def)
  have s1: "outbound_step ?b ?b1" using outbound_step.publish_frame [of ?b sample_frame] by (simp add: new_outbound_def)
  let ?h2 = "?h\<lparr>ph_frames := \<lparr>slot_frame = Some sample_pending, slot_pending = True, slot_notify = None\<rparr>\<rparr>"
  let ?b2 = "?b\<lparr>ob_host := ?h2, ob_at := FrameNoticed\<rparr>"
  have s2: "outbound_step ?b1 ?b2"
    using outbound_step.frame_notice [of ?b1 "()" None] by (simp add: new_outbound_def h1 try_recv_def)
  let ?h3 = "?h\<lparr>ph_frames := \<lparr>slot_frame = None, slot_pending = False, slot_notify = None\<rparr>\<rparr>"
  let ?b3 = "?b\<lparr>ob_host := ?h3, ob_at := FrameLoaded sample_pending\<rparr>"
  have s3: "outbound_step ?b2 ?b3"
    using outbound_step.frame_load [of ?b2 "Some sample_pending" ?h3]
    by (simp add: new_outbound_def load_frame_def slot_Load_def drainNotifyLocked_def try_recv_def)
  let ?h4 = "?h\<lparr>ph_current := sample_active_startup\<lparr>startup_Active := False\<rparr>, ph_frames := \<lparr>slot_frame = None, slot_pending = False, slot_notify = None\<rparr>\<rparr>"
  let ?b4 = "?b3\<lparr>ob_host := ?h4, ob_clearing := Some ClearAll\<rparr>"
  have s4: "outbound_step ?b3 ?b4"
    using outbound_step.deactivated [of ?b3 "fst (host_applyActive False ?h3)" "ActiveEvent False"] cur
    by (simp add: new_outbound_def host_applyActive_def clearLocked_def)
  let ?b5 = "?b4\<lparr>ob_host := finish_clearing ClearAll ?h4, ob_clearing := None, ob_late := 0\<rparr>"
  have s5: "outbound_step ?b4 ?b5" using outbound_step.cleared [of ?b4 ClearAll] by simp
  let ?b6 = "frame_out sample_pending ?b5"
  have s6: "outbound_step ?b5 ?b6" by (rule outbound_step.frame_sent) simp
  have "outbound_reachable sample_active_startup 4 4 ?b6" using s1 s2 s3 s4 s5 s6 by (meson converse_rtranclp_into_rtranclp rtranclp.rtrancl_refl)
  moreover have "ob_frames ?b6 = [sample_pending]" "ob_late ?b6 = 1" "ob_clearing ?b6 = None"
    by (simp_all add: frame_out_def new_outbound_def wanted_def)
  ultimately show ?thesis by blast
qed

theorem frames_current_witness:
  "\<exists>b. outbound_reachable sample_active_startup 4 4 b \<and> ob_frames b = [sample_pending] \<and> ob_late b = 1 \<and>
    validatePayload (frame_payload sample_pending) = Inr ()"
proof -
  obtain b where b: "outbound_reachable sample_active_startup 4 4 b" "ob_frames b = [sample_pending]" "ob_late b = 1" using late_run by blast
  from frames_current [OF b(1)] b show ?thesis by auto
qed

lemma log_run:
  \<comment> \<open>of two entries, the second finds the queue full and is reported by the first\<close>
  "\<exists>b. outbound_reachable sample_startup 4 1 b \<and> ob_calls b = 2 \<and> ob_logs b = [1]"
proof -
  let ?h = "newRuntimeHost sample_startup 4 1" let ?b = "new_outbound ?h"
  have ok: "log_level_valid ''info''" "\<not> blank ''x''" by code_simp+
  have h: "\<not> ph_stopped ?h" "ph_logs ?h = []" "ph_log_capacity ?h = 1" "droppedLogs ?h = 0" by (simp_all add: newRuntimeHost_def)
  let ?b1 = "?b\<lparr>ob_calls := 1, ob_host := ?h\<lparr>ph_logs := [(''info'', ''x'')]\<rparr>\<rparr>"
  have s1: "outbound_step ?b ?b1" using outbound_step.logged [of ?b "''info''" "''x''"] ok h by (simp add: new_outbound_def host_Log_def)
  let ?b2 = "?b1\<lparr>ob_calls := 2, ob_full := 1\<rparr>"
  have s2: "outbound_step ?b1 ?b2" using outbound_step.log_full [of ?b1 "''info''" "''x''"] ok h by (simp add: new_outbound_def numeral_2_eq_2)
  let ?b3 = "?b2\<lparr>ob_full := 0, ob_host := ?h\<lparr>ph_logs := [(''info'', ''x'')], droppedLogs := 1\<rparr>\<rparr>"
  have s3: "outbound_step ?b2 ?b3" using outbound_step.log_dropped [of ?b2] h by simp
  let ?b4 = "?b3\<lparr>ob_at := LogTaken ''info'' ''x'', ob_host := ?h\<lparr>droppedLogs := 1, ph_logs := []\<rparr>\<rparr>"
  have s4: "outbound_step ?b3 ?b4" using outbound_step.log_taken [of ?b3 "''info''" "''x''" "[]"] by (simp add: new_outbound_def)
  let ?b5 = "?b4\<lparr>ob_at := LogSending ''info'' ''x'' 1, ob_host := ?h\<lparr>ph_logs := [], droppedLogs := 0\<rparr>\<rparr>"
  have s5: "outbound_step ?b4 ?b5" using outbound_step.log_swapped [of ?b4 "''info''" "''x''" 1] by (simp add: swap_dropped_def)
  let ?b6 = "?b5\<lparr>ob_at := Selecting, ob_logs := [1]\<rparr>"
  have s6: "outbound_step ?b5 ?b6" using outbound_step.log_sent [of ?b5 "''info''" "''x''" 1] by (simp add: new_outbound_def)
  have "outbound_reachable sample_startup 4 1 ?b6" using s1 s2 s3 s4 s5 s6 by (meson converse_rtranclp_into_rtranclp rtranclp.rtrancl_refl)
  moreover have "ob_calls ?b6 = 2" "ob_logs ?b6 = [1]" by simp_all
  ultimately show ?thesis by blast
qed

theorem logs_accounted_witness:
  "\<exists>b. outbound_reachable sample_startup 4 1 b \<and> ob_calls b = 2 \<and> ob_logs b = [1] \<and>
    2 = length (ob_logs b) + sum_list (map unat (ob_logs b)) + length (ph_logs (ob_host b)) + ob_full b + unat (droppedLogs (ob_host b)) +
      logs_held (ob_at b) + ob_lost b"
proof -
  obtain b where b: "outbound_reachable sample_startup 4 1 b" "ob_calls b = 2" "ob_logs b = [1]" using log_run by blast
  have "ob_calls b < 2 ^ 64" using b(2) by simp
  from logs_accounted [OF b(1) this] b show ?thesis by auto
qed


end
