(* ===== verification/OscRuntime.thy ===== *)
theory OscRuntime
  imports OscSender Channels
begin

text \<open>
  internal/osc/runtime.go: the catalog and the value source that the send loop uses, kept together
  with the sender behind one lock, and avatar_changes.go: the mailbox that hands the newest avatar
  change to its subscribers.
\<close>

section \<open>The send runtime\<close>

datatype catalog_mode = CatalogOSCQuery | CatalogExternal

datatype runtime_failure = ErrRuntimeMode | ErrRuntimeCatalog | ErrRuntimeGeneration

record send_runtime =
  run_mode :: catalog_mode
  run_sender :: sender
  run_fixed :: "value_source option"
  run_generation :: u64
  run_source :: "value_source option"

definition newSendRuntime :: "sender \<Rightarrow> catalog_mode \<Rightarrow> value_source option \<Rightarrow> send_runtime" where
  "newSendRuntime s mode fixed = \<lparr>run_mode = mode, run_sender = s, run_fixed = fixed, run_generation = 0, run_source = None\<rparr>"

definition runtime_clear :: "send_runtime \<Rightarrow> send_runtime" where
  "runtime_clear r = r\<lparr>run_generation := 0, run_source := None, run_sender := ResetChangeDetection (SetCatalog None (run_sender r))\<rparr>"

definition validRuntimeCatalog :: "osc_catalog option \<Rightarrow> (runtime_failure, osc_catalog) result" where
  "validRuntimeCatalog c = (case c of None \<Rightarrow> Inl ErrRuntimeCatalog
   | Some c \<Rightarrow> if oc_Generation c = 0 then Inl ErrRuntimeGeneration else Inr c)"

definition installQuery :: "osc_catalog option \<Rightarrow> send_runtime \<Rightarrow> send_runtime \<times> runtime_failure option" where
  "installQuery catalog r = (if run_mode r \<noteq> CatalogOSCQuery then (r, Some ErrRuntimeMode)
     else case validRuntimeCatalog catalog of Inl e \<Rightarrow> (r, Some e)
     | Inr c \<Rightarrow> (r\<lparr>run_sender := SetCatalog (Some c) (run_sender r), run_generation := oc_Generation c, run_source := run_fixed r\<rparr>, None))"

definition installExternal :: "osc_catalog option \<Rightarrow> send_runtime \<Rightarrow> send_runtime \<times> runtime_failure option" where
  "installExternal catalog r = (if run_mode r \<noteq> CatalogExternal then (r, Some ErrRuntimeMode)
     else case validRuntimeCatalog catalog of Inl e \<Rightarrow> (r, Some e)
     | Inr c \<Rightarrow> (r\<lparr>run_sender := SetCatalog (Some c) (run_sender r), run_generation := oc_Generation c, run_source := None\<rparr>, None))"

definition runtime_publish :: "u64 \<Rightarrow> value_source option \<Rightarrow> send_runtime \<Rightarrow> send_runtime \<times> runtime_failure option" where
  "runtime_publish gen src r = (if run_mode r \<noteq> CatalogExternal then (r, Some ErrRuntimeMode)
     else case src of None \<Rightarrow> (r, Some ErrRuntimeCatalog)
     | Some v \<Rightarrow> if gen = 0 \<or> run_generation r = 0 \<or> gen \<noteq> run_generation r then (r, Some ErrRuntimeGeneration)
       else (r\<lparr>run_source := Some v\<rparr>, None))"

definition resetChangeDetection :: "send_runtime \<Rightarrow> send_runtime" where
  "resetChangeDetection r = r\<lparr>run_sender := ResetChangeDetection (run_sender r)\<rparr>"

definition runtime_catalog :: "send_runtime \<Rightarrow> osc_catalog option" where
  "runtime_catalog r = snd_catalog (run_sender r)"

definition runtime_sends :: "(nat \<Rightarrow> bytes \<Rightarrow> bool) \<Rightarrow> send_runtime \<Rightarrow> send_runtime \<times> send_error option" where
  \<comment> \<open>sendRuntime.send\<close>
  "runtime_sends tx r = (case run_source r of None \<Rightarrow> (r, None)
   | Some v \<Rightarrow> (case Send tx (Some v) (run_sender r) of (s, e) \<Rightarrow> (r\<lparr>run_sender := s\<rparr>, e)))"

lemma SetCatalog_catalog [simp]: "snd_catalog (SetCatalog c s) = c"
  by (simp add: SetCatalog_def Let_def split: option.split)

lemma Reset_catalog [simp]: "snd_catalog (ResetChangeDetection s) = snd_catalog s"
  by (simp add: ResetChangeDetection_def)

lemma runtime_simps [simp]:
  "run_source (runtime_clear r) = None" "run_generation (runtime_clear r) = 0" "runtime_catalog (runtime_clear r) = None"
  "run_mode (runtime_clear r) = run_mode r" "run_source (resetChangeDetection r) = run_source r"
  "run_generation (resetChangeDetection r) = run_generation r" "runtime_catalog (resetChangeDetection r) = runtime_catalog r"
  "run_mode (resetChangeDetection r) = run_mode r"
  by (simp_all add: runtime_clear_def resetChangeDetection_def runtime_catalog_def)

section \<open>Avatar changes\<close>

record avatar_change =
  ac_Revision :: u64
  ac_AvatarID :: string

record mailbox =
  mb_revision :: u64
  mb_closed :: bool
  mb_subscribers :: "(nat \<times> avatar_change option) list" \<comment> \<open>channels of capacity one\<close>
  mb_closed_channels :: "nat set" \<comment> \<open>channels that were closed\<close>

definition newMailbox :: mailbox where
  "newMailbox = \<lparr>mb_revision = 0, mb_closed = False, mb_subscribers = [], mb_closed_channels = {}\<rparr>"

definition mailbox_subscribe :: "nat \<Rightarrow> mailbox \<Rightarrow> mailbox" where
  \<comment> \<open>the argument is the new channel\<close>
  "mailbox_subscribe i m = (if mb_closed m then m\<lparr>mb_closed_channels := insert i (mb_closed_channels m)\<rparr>
     else m\<lparr>mb_subscribers := (i, None) # mb_subscribers m\<rparr>)"

definition mailbox_cancel :: "nat \<Rightarrow> mailbox \<Rightarrow> mailbox" where
  \<comment> \<open>the subscriber's context is done\<close>
  "mailbox_cancel i m = (if map_of (mb_subscribers m) i = None then m
     else m\<lparr>mb_subscribers := AList.delete i (mb_subscribers m), mb_closed_channels := insert i (mb_closed_channels m)\<rparr>)"

definition mailbox_offer :: "avatar_change \<Rightarrow> avatar_change option \<Rightarrow> avatar_change option" where
  \<comment> \<open>the three selects of publish\<close>
  "mailbox_offer change ch = (case try_send change ch of (ch, True) \<Rightarrow> ch
   | (ch, False) \<Rightarrow> fst (try_send change (snd (try_recv ch))))"

definition mailbox_publish :: "string \<Rightarrow> mailbox \<Rightarrow> mailbox \<times> avatar_change" where
  "mailbox_publish avatarID m =
    (let m = (if mb_revision m < max_u64 then m\<lparr>mb_revision := mb_revision m + 1\<rparr> else m);
         change = \<lparr>ac_Revision = mb_revision m, ac_AvatarID = avatarID\<rparr>
     in if mb_closed m then (m, change)
        else (m\<lparr>mb_subscribers := map (\<lambda>(i, ch). (i, mailbox_offer change ch)) (mb_subscribers m)\<rparr>, change))"

definition mailbox_close :: "mailbox \<Rightarrow> mailbox" where
  "mailbox_close m = (if mb_closed m then m
     else m\<lparr>mb_closed := True, mb_closed_channels := mb_closed_channels m \<union> set (map fst (mb_subscribers m)), mb_subscribers := []\<rparr>)"

lemma mailbox_offer_Some [simp]: "mailbox_offer change ch = Some change"
  by (simp add: mailbox_offer_def try_send_def try_recv_def split: option.splits)

interpretation mail: latest_slot None mailbox_offer try_recv "\<lambda>ch. ch" "\<lambda>_. True"
  by unfold_locales (simp_all add: try_recv_def)

end
