(* ===== verification/Json.thy ===== *)
theory Json
  imports GoStrings
begin

text \<open>
  What the program uses of encoding/json when it decodes: the tree of a JSON text with its strings
  unquoted (escapes, surrogate pairs, and invalid UTF-8 replaced by U+FFFD), and the fields of an
  object as json.Unmarshal assigns them to the fields of a struct.
\<close>

section \<open>UTF-8\<close>

definition byte_in :: "int \<Rightarrow> int \<Rightarrow> char \<Rightarrow> bool" where
  "byte_in lo hi c \<longleftrightarrow> lo \<le> of_char c \<and> of_char c \<le> hi"

definition utf8_width :: "bytes \<Rightarrow> nat" where
  \<comment> \<open>the width of the rune at the start, 0 if it is not valid\<close>
  "utf8_width s =
    (let cont = byte_in 0x80 0xBF in case s of
       [] \<Rightarrow> 0
     | c # cs \<Rightarrow>
         if byte_in 0 0x7F c then 1
         else if byte_in 0xC2 0xDF c then (if cs \<noteq> [] \<and> cont (hd cs) then 2 else 0)
         else if byte_in 0xE0 0xEF c then
           (if 2 \<le> length cs \<and> cont (cs ! 1) \<and>
               byte_in (if of_char c = (0xE0 :: int) then 0xA0 else 0x80) (if of_char c = (0xED :: int) then 0x9F else 0xBF) (cs ! 0)
            then 3 else 0)
         else if byte_in 0xF0 0xF4 c then
           (if 3 \<le> length cs \<and> cont (cs ! 1) \<and> cont (cs ! 2) \<and>
               byte_in (if of_char c = (0xF0 :: int) then 0x90 else 0x80) (if of_char c = (0xF4 :: int) then 0x8F else 0xBF) (cs ! 0)
            then 4 else 0)
         else 0)"

definition encode_rune :: "int \<Rightarrow> bytes" where
  "encode_rune r = map char_of
    (if r < 0x80 then [r]
     else if r < 0x800 then [0xC0 + r div 64, 0x80 + r mod 64]
     else if r < 0x10000 then [0xE0 + r div 4096, 0x80 + r div 64 mod 64, 0x80 + r mod 64]
     else [0xF0 + r div 262144, 0x80 + r div 4096 mod 64, 0x80 + r div 64 mod 64, 0x80 + r mod 64])"

definition replacement :: bytes where "replacement = encode_rune 0xFFFD"

lemma utf8_width_le: "utf8_width s \<le> length s"
  by (auto simp: utf8_width_def Let_def Suc_le_eq split: list.splits)

function valid_utf8 :: "bytes \<Rightarrow> bool" where
  \<comment> \<open>utf8.ValidString\<close>
  "valid_utf8 s = (if s = [] then True else if utf8_width s = 0 then False else valid_utf8 (drop (utf8_width s) s))"
  by pat_completeness auto
termination by (relation "measure length") (auto simp: utf8_width_le)

declare valid_utf8.simps [simp del]

section \<open>Strings\<close>

definition hex_value :: "char \<Rightarrow> int" where
  "hex_value c = (if is_digit c then of_char c - 48 else if byte_in 97 102 c then of_char c - 87 else of_char c - 55)"

definition hex4 :: "bytes \<Rightarrow> int" where
  "hex4 s = foldl (\<lambda>n c. n * 16 + hex_value c) 0 (take 4 s)"

definition unescaped :: "char \<Rightarrow> char" where
  "unescaped e = (if e = CHR ''b'' then CHR 0x08 else if e = CHR ''f'' then CHR 0x0C else if e = CHR ''n'' then CHR 0x0A
     else if e = CHR ''r'' then CHR 0x0D else if e = CHR ''t'' then CHR 0x09 else e)"

definition low_surrogate :: "bytes \<Rightarrow> int option" where
  \<comment> \<open>an escaped low surrogate at the start\<close>
  "low_surrogate s = (if 6 \<le> length s \<and> has_prefix s [CHR 0x5C, CHR ''u''] \<and> list_all is_hex (take 4 (drop 2 s)) then
     (let r = hex4 (drop 2 s) in if 0xDC00 \<le> r \<and> r < 0xE000 then Some r else None) else None)"

text \<open>The text between the quotes, whose escapes are well-formed.\<close>

function unquote :: "bytes \<Rightarrow> bytes" where
  "unquote [] = []"
| "unquote (c # cs) =
    (if c = CHR 0x5C then
       (case cs of [] \<Rightarrow> []
        | e # ds \<Rightarrow>
            if e = CHR ''u'' then
              (let r = hex4 ds in
               if 0xD800 \<le> r \<and> r < 0xDC00 \<and> low_surrogate (drop 4 ds) \<noteq> None
               then encode_rune (0x10000 + (r - 0xD800) * 1024 + (the (low_surrogate (drop 4 ds)) - 0xDC00)) @ unquote (drop 10 ds)
               else (if 0xD800 \<le> r \<and> r < 0xE000 then replacement else encode_rune r) @ unquote (drop 4 ds))
            else unescaped e # unquote ds)
     else let w = utf8_width (c # cs) in
       if w = 0 then replacement @ unquote cs else take w (c # cs) @ unquote (drop (w - 1) cs))"
  by pat_completeness auto
termination by (relation "measure length") auto

declare unquote.simps [simp del]

section \<open>Trees\<close>

datatype json = JNull | JBool bool | JNumber bytes | JString bytes | JArray "json list" | JObject "(bytes \<times> json) list"

definition json_quoted :: "bytes \<Rightarrow> (bytes \<times> bytes) option" where
  \<comment> \<open>a string after its opening quote: its value and the rest\<close>
  "json_quoted s = map_option (\<lambda>rest. (unquote (take (length s - length rest - 1) s), rest)) (json_string s)"

fun json_tree :: "nat \<Rightarrow> nat \<Rightarrow> bytes \<Rightarrow> (json \<times> bytes) option"
  and json_fields :: "nat \<Rightarrow> nat \<Rightarrow> bytes \<Rightarrow> ((bytes \<times> json) list \<times> bytes) option"
  and json_items :: "nat \<Rightarrow> nat \<Rightarrow> bytes \<Rightarrow> (json list \<times> bytes) option" where
  "json_tree 0 d s = None"
| "json_tree (Suc n) d s = (case skip_space s of [] \<Rightarrow> None
     | c # cs \<Rightarrow>
         if c = CHR ''{'' then
           (if d = 0 then None else case skip_space cs of
              [] \<Rightarrow> None
            | e # es \<Rightarrow> if e = CHR ''}'' then Some (JObject [], es)
                else map_option (map_prod JObject id) (json_fields n (d - 1) (e # es)))
         else if c = CHR ''['' then
           (if d = 0 then None else case skip_space cs of
              [] \<Rightarrow> None
            | e # es \<Rightarrow> if e = CHR '']'' then Some (JArray [], es)
                else map_option (map_prod JArray id) (json_items n (d - 1) (e # es)))
         else if c = CHR 0x22 then map_option (map_prod JString id) (json_quoted cs)
         else if has_prefix (c # cs) ''true'' then Some (JBool True, drop 4 (c # cs))
         else if has_prefix (c # cs) ''false'' then Some (JBool False, drop 5 (c # cs))
         else if has_prefix (c # cs) ''null'' then Some (JNull, drop 4 (c # cs))
         else map_option (\<lambda>rest. (JNumber (take (length (c # cs) - length rest) (c # cs)), rest)) (json_number (c # cs)))"
| "json_fields 0 d s = None"
| "json_fields (Suc n) d s = (case skip_space s of [] \<Rightarrow> None
     | c # cs \<Rightarrow> if c \<noteq> CHR 0x22 then None else
         (case json_quoted cs of None \<Rightarrow> None
          | Some (key, t) \<Rightarrow> (case skip_space t of [] \<Rightarrow> None
            | x # xs \<Rightarrow> if x \<noteq> CHR '':'' then None else
                (case json_tree n d xs of None \<Rightarrow> None
                 | Some (v, u) \<Rightarrow> (case skip_space u of [] \<Rightarrow> None
                   | y # ys \<Rightarrow> if y = CHR '','' then map_option (map_prod (Cons (key, v)) id) (json_fields n d ys)
                              else if y = CHR ''}'' then Some ([(key, v)], ys) else None)))))"
| "json_items 0 d s = None"
| "json_items (Suc n) d s = (case json_tree n d s of None \<Rightarrow> None
     | Some (v, u) \<Rightarrow> (case skip_space u of [] \<Rightarrow> None
       | y # ys \<Rightarrow> if y = CHR '','' then map_option (map_prod (Cons v) id) (json_items n d ys)
                  else if y = CHR '']'' then Some ([v], ys) else None))"

definition json_parse :: "bytes \<Rightarrow> json option" where
  \<comment> \<open>a text of one value; with the fuel of json_valid\<close>
  "json_parse s = (case json_tree (2 * length s + 2) 10000 s of
     None \<Rightarrow> None | Some (v, r) \<Rightarrow> if skip_space r = [] then Some v else None)"

section \<open>Structs\<close>

definition fold_name :: "bytes \<Rightarrow> bytes" where
  \<comment> \<open>the folding of a key that may equal an ASCII name: letters to upper case\<close>
  "fold_name s = map (\<lambda>c. if byte_in 97 122 c then char_of (of_char c - 32 :: int) else c) s"

function fold_special :: "bytes \<Rightarrow> bytes" where
  \<comment> \<open>the long s folds to S, the Kelvin sign to K\<close>
  "fold_special s = (case s of [] \<Rightarrow> []
     | c # cs \<Rightarrow> if has_prefix s (encode_rune 0x17F) then CHR ''S'' # fold_special (drop 2 s)
         else if has_prefix s (encode_rune 0x212A) then CHR ''K'' # fold_special (drop 3 s)
         else c # fold_special cs)"
  by pat_completeness auto
termination by (relation "measure length") auto

declare fold_special.simps [simp del]

definition json_field :: "bytes list \<Rightarrow> (bytes \<times> json) list \<Rightarrow> bytes \<Rightarrow> json option" where
  \<comment> \<open>the value of a struct's field: the last key that is its name, or folds to it and is no other field's name\<close>
  "json_field names fields name = map_option snd (List.find (\<lambda>(k, v).
     k = name \<or> k \<notin> set names \<and> fold_special (fold_name k) = fold_name name) (rev fields))"


end
