(* ===== verification/Avatar.thy ===== *)
theory Avatar
  imports OscCatalog Evaluator PluginApi Json
begin

text \<open>
  internal/avatar: reading an avatar's OSC configuration (config.go), finding it (discovery.go), the
  tracking requirements of its parameters (requirements.go), the compiled plan with the plugin
  subscriptions it gives (plan.go) and the planner (planner.go). The file system and the
  path functions of the operating system are parameters, a record \<open>file_system\<close>. Errors
  keep their sentinel and drop the text.
\<close>

unbundle bit_operations_syntax

section \<open>Configurations\<close>

datatype avatar_error = ErrInvalidPlannerConfig | ErrInvalidAvatarID | ErrConfigNotFound | ErrInvalidConfigPath | ErrConfigTooLarge
  | ErrInvalidJSON | ErrConfigIDMismatch | ErrTooManyParameters | ErrInvalidInputEndpoint | ErrBindingCompilation catalog_error
  | ErrRequirementCompilation | ErrGenerationExhausted

datatype fs_error = NotExist | OtherError

datatype file_kind = RegularFile | Folder | Link \<comment> \<open>a symbolic link or an irregular file\<close> | OtherFile

record file_info =
  fi_kind :: file_kind
  fi_ModTime :: int

record file_system =
  AbsClean :: "string \<Rightarrow> string option" \<comment> \<open>filepath.Abs and Clean\<close>
  PathJoin :: "string list \<Rightarrow> string"
  PathRel :: "string \<Rightarrow> string \<Rightarrow> string option"
  Separator :: char
  ReadDir :: "string \<Rightarrow> (fs_error, (string \<times> file_kind \<times> file_kind option) list) result"
    \<comment> \<open>names with their kinds, and the kind Info gives, none where it fails\<close>
  Lstat :: "string \<Rightarrow> (fs_error, file_info) result"
  ReadFile :: "string \<Rightarrow> bytes option"

definition maxConfigBytes :: int where "maxConfigBytes = 4 * 1024 * 1024"
definition maxParameters :: int where "maxParameters = 4096"
definition maxOSCAddressBytes :: int where "maxOSCAddressBytes = 1024"
definition maxAvatarIDBytes :: int where "maxAvatarIDBytes = 256"

record decoded_config =
  dc_id :: string
  dc_name :: string
  dc_endpoints :: "endpoint list"

record config_endpoint =
  ce_Address :: string
  ce_Type :: string

definition decodeKnownString :: "json \<Rightarrow> (avatar_error, string) result" where
  "decodeKnownString raw = (case raw of JString s \<Rightarrow> Inr s | _ \<Rightarrow> Inl ErrInvalidJSON)"

definition optional_string :: "json option \<Rightarrow> (avatar_error, string) result" where
  \<comment> \<open>if the field is there, it is decoded\<close>
  "optional_string raw = (case raw of None \<Rightarrow> Inr [] | Some v \<Rightarrow> decodeKnownString v)"

definition decodeConfigEndpoint :: "json \<Rightarrow> (avatar_error, config_endpoint) result" where
  "decodeConfigEndpoint raw = (case raw of
     JObject fs \<Rightarrow> let field = json_field [''address'', ''type''] fs in
       bind_result (optional_string (field ''address'')) (\<lambda>address.
       bind_result (optional_string (field ''type'')) (\<lambda>typ.
       Inr \<lparr>ce_Address = address, ce_Type = typ\<rparr>))
   | _ \<Rightarrow> Inl ErrInvalidJSON)"

definition decodeConfigParameter :: "json \<Rightarrow> (avatar_error, config_endpoint option) result" where
  \<comment> \<open>nothing if there is no input\<close>
  "decodeConfigParameter raw = (case raw of
     JObject fs \<Rightarrow> let field = json_field [''name'', ''input'', ''output''] fs in
       bind_result (optional_string (field ''name'')) (\<lambda>_.
       bind_result (case field ''output'' of None \<Rightarrow> Inr () | Some v \<Rightarrow> bind_result (decodeConfigEndpoint v) (\<lambda>_. Inr ())) (\<lambda>_.
       case field ''input'' of None \<Rightarrow> Inr None | Some v \<Rightarrow> bind_result (decodeConfigEndpoint v) (\<lambda>e. Inr (Some e))))
   | _ \<Rightarrow> Inl ErrInvalidJSON)"

definition decodeInputEndpoint :: "config_endpoint \<Rightarrow> endpoint option" where
  "decodeInputEndpoint input =
    (if ce_Address input = [] \<or> maxOSCAddressBytes < int (length (ce_Address input)) then None
     else if \<not> has_prefix (ce_Address input) ''/'' then None
     else if NUL \<in> set (ce_Address input) then None
     else if ce_Type input = ''Int'' then Some \<lparr>ep_Address = ce_Address input, ep_Type = ''i''\<rparr>
     else if ce_Type input = ''Bool'' then Some \<lparr>ep_Address = ce_Address input, ep_Type = ''T''\<rparr>
     else if ce_Type input = ''Float'' then Some \<lparr>ep_Address = ce_Address input, ep_Type = ''f''\<rparr>
     else None)"

definition decode_parameter :: "json \<Rightarrow> endpoint list \<Rightarrow> (avatar_error, endpoint list) result" where
  \<comment> \<open>the body of readConfig's loop\<close>
  "decode_parameter raw endpoints = bind_result (decodeConfigParameter raw) (\<lambda>input. case input of
     None \<Rightarrow> Inr endpoints
   | Some e \<Rightarrow> (case decodeInputEndpoint e of None \<Rightarrow> Inl ErrInvalidInputEndpoint | Some x \<Rightarrow> Inr (endpoints @ [x])))"

definition readConfig :: "file_system \<Rightarrow> string \<Rightarrow> (avatar_error, decoded_config) result" where
  "readConfig fs path = (case ReadFile fs path of
     None \<Rightarrow> Inl ErrInvalidConfigPath
   | Some data \<Rightarrow>
       guard_result (maxConfigBytes < int (length data)) ErrConfigTooLarge
      (case json_parse (trim_prefix data [CHR 0xEF, CHR 0xBB, CHR 0xBF]) of
         None \<Rightarrow> Inl ErrInvalidJSON
       | Some document \<Rightarrow>
           bind_result (case document of JNull \<Rightarrow> Inr [] | JObject fds \<Rightarrow> Inr fds | _ \<Rightarrow> Inl ErrInvalidJSON) (\<lambda>fds.
           let field = json_field [''id'', ''name'', ''parameters''] fds in
           (case field ''id'' of None \<Rightarrow> Inl ErrInvalidJSON
            | Some v \<Rightarrow> bind_result (decodeKnownString v) (\<lambda>ident.
             bind_result (optional_string (field ''name'')) (\<lambda>name.
             (case field ''parameters'' of
                Some (JArray parameters) \<Rightarrow>
                  guard_result (maxAvatarIDBytes < int (length ident)) ErrInvalidAvatarID
                 (guard_result (maxParameters < int (length parameters)) ErrTooManyParameters
                 (bind_result (fold_result decode_parameter parameters []) (\<lambda>endpoints.
                  Inr \<lparr>dc_id = ident, dc_name = name, dc_endpoints = endpoints\<rparr>)))
              | _ \<Rightarrow> Inl ErrInvalidJSON)))))))"

section \<open>Finding the configuration\<close>

type_synonym source = u8

definition SourceAvatarConfig :: source where "SourceAvatarConfig = 1"
definition SourceFallback :: source where "SourceFallback = 2"
definition SourceNone :: source where "SourceNone = 3"

record resolved_config =
  rc_path :: string
  rc_source :: source
  requireIDMatch :: bool

definition validateAvatarID :: "string \<Rightarrow> (avatar_error, unit) result" where
  "validateAvatarID avatarID =
     guard_result (avatarID = [] \<or> maxAvatarIDBytes < int (length avatarID) \<or> avatarID = ''.'' \<or> avatarID = ''..'') ErrInvalidAvatarID
    (let filename = (if has_prefix avatarID ''local:sdk_'' then trim_prefix avatarID ''local:sdk_'' else avatarID) in
     guard_result (filename = [] \<or> filename = ''.'' \<or> filename = ''..'' \<or>
         list_ex (\<lambda>c. c \<in> set (''<>:'' @ CHR 0x22 # ''/'' @ CHR 0x5C # ''|?*[]'' @ [NUL])) filename) ErrInvalidAvatarID
      (Inr ()))"

definition isWithinRoot :: "file_system \<Rightarrow> string \<Rightarrow> string \<Rightarrow> bool" where
  "isWithinRoot fs dir path = (case PathRel fs dir path of None \<Rightarrow> False
     | Some rel \<Rightarrow> rel \<noteq> ''..'' \<and> \<not> has_prefix rel (''..'' @ [Separator fs]))"

fun inspect_parts :: "file_system \<Rightarrow> string \<Rightarrow> string list \<Rightarrow> file_info option" where
  \<comment> \<open>the loop of inspectCandidate from a directory on\<close>
  "inspect_parts fs current [] = None"
| "inspect_parts fs current (part # parts) =
    (let current = PathJoin fs [current, part] in
     case Lstat fs current of Inl e \<Rightarrow> None
     | Inr info \<Rightarrow>
         if fi_kind info = Link then None
         else if parts = [] then (if fi_kind info = RegularFile then Some info else None)
         else if fi_kind info \<noteq> Folder then None
         else inspect_parts fs current parts)"

definition inspectCandidate :: "file_system \<Rightarrow> string \<Rightarrow> string \<Rightarrow> file_info option" where
  "inspectCandidate fs dir candidate = (case PathRel fs dir candidate of None \<Rightarrow> None
     | Some rel \<Rightarrow> inspect_parts fs dir (split_char (Separator fs) rel))"

definition configCandidateComesBefore :: "string \<times> int \<Rightarrow> string \<times> int \<Rightarrow> bool" where
  "configCandidateComesBefore x y = (if snd x \<noteq> snd y then snd y < snd x else fst x < fst y)"

definition resolveFallback :: "file_system \<Rightarrow> string \<Rightarrow> (avatar_error, resolved_config) result" where
  "resolveFallback fs fallbackPath =
    (if fallbackPath = [] then Inl ErrConfigNotFound
     else case AbsClean fs fallbackPath of None \<Rightarrow> Inl ErrInvalidConfigPath
     | Some path \<Rightarrow> (case Lstat fs path of
         Inl e \<Rightarrow> Inl (if e = NotExist then ErrConfigNotFound else ErrInvalidConfigPath)
       | Inr info \<Rightarrow> guard_result (fi_kind info \<noteq> RegularFile) ErrInvalidConfigPath
           (Inr \<lparr>rc_path = path, rc_source = SourceFallback, requireIDMatch = False\<rparr>)))"

definition candidate_step :: "file_system \<Rightarrow> string \<Rightarrow> string \<Rightarrow> string \<times> file_kind \<times> file_kind option \<Rightarrow> (string \<times> int) list \<Rightarrow>
    (avatar_error, (string \<times> int) list) result" where
  \<comment> \<open>the body of resolveConfig's loop\<close>
  "candidate_step fs dir avatarID = (\<lambda>(name, kind, info) found.
    (case (if kind = Folder \<or> kind = Link then Some Folder else info) of
       None \<Rightarrow> Inl ErrInvalidConfigPath
     | Some k \<Rightarrow>
         if k \<noteq> Folder then Inr found
         else (case AbsClean fs (PathJoin fs [dir, name, ''Avatars'', avatarID @ ''.json'']) of
           None \<Rightarrow> Inl ErrInvalidConfigPath
         | Some candidate \<Rightarrow>
             guard_result (\<not> isWithinRoot fs dir candidate) ErrInvalidConfigPath
            (case Lstat fs candidate of
               Inl e \<Rightarrow> if e = NotExist then Inr found else Inl ErrInvalidConfigPath
             | Inr _ \<Rightarrow> (case inspectCandidate fs dir candidate of
                 None \<Rightarrow> Inl ErrInvalidConfigPath
               | Some fi \<Rightarrow> Inr (found @ [(candidate, fi_ModTime fi)]))))))"

definition resolveConfig :: "file_system \<Rightarrow> string \<Rightarrow> string \<Rightarrow> string \<Rightarrow> (avatar_error, resolved_config) result" where
  "resolveConfig fs oscRoot fallbackPath avatarID =
     bind_result (validateAvatarID avatarID) (\<lambda>_.
     if has_prefix avatarID ''local:sdk_'' then resolveFallback fs fallbackPath
     else case AbsClean fs oscRoot of None \<Rightarrow> Inl ErrInvalidConfigPath
     | Some dir \<Rightarrow> (case ReadDir fs dir of
         Inl e \<Rightarrow> if e = NotExist \<and> Lstat fs dir = Inl NotExist then resolveFallback fs fallbackPath else Inl ErrInvalidConfigPath
       | Inr entries \<Rightarrow> bind_result (fold_result (candidate_step fs dir avatarID) entries []) (\<lambda>found.
           if found = [] then resolveFallback fs fallbackPath
           else Inr \<lparr>rc_path = fst (hd (sort_key (\<lambda>c. (- snd c, fst c)) found)), rc_source = SourceAvatarConfig, requireIDMatch = True\<rparr>)))"


section \<open>Requirements and plans\<close>

record tracking_requirements =
  tr_capabilities :: capability
  tr_eye :: eye_valid
  tr_expressions :: expression_mask

definition requirementsFromInputs :: "inputs \<Rightarrow> tracking_requirements" where
  "requirementsFromInputs i =
    (let required = \<lparr>tr_capabilities = 0, tr_eye = RequiredEyeValid i, tr_expressions = mask_normalize (in_Expressions i)\<rparr>;
         required = (if tr_eye required \<noteq> 0 \<or> active_states_has (in_Active i) ActiveStateEyeTracking
           then required\<lparr>tr_capabilities := tr_capabilities required OR CapabilityEye\<rparr> else required);
         required = (if \<not> mask_is_zero (tr_expressions required) \<or> active_states_has (in_Active i) ActiveStateExpressionTracking
           then required\<lparr>tr_capabilities := tr_capabilities required OR CapabilityExpression\<rparr> else required)
     in if active_states_has (in_Active i) ActiveStateLipTracking
        then required\<lparr>tr_capabilities := tr_capabilities required OR CapabilityLip\<rparr> else required)"

type_synonym plan_status = u8

definition StatusReady :: plan_status where "StatusReady = 1"
definition StatusFailed :: plan_status where "StatusFailed = 2"

record avatar_plan =
  ap_generation :: u64
  ap_status :: plan_status
  ap_avatarID :: string
  ap_avatarName :: string
  ap_configID :: string
  ap_configPath :: string
  ap_source :: source
  ap_ids :: "nat list"
  ap_catalog :: "osc_catalog option"
  ap_evaluator :: "eval_plan option"
  ap_inputs :: inputs
  ap_required :: tracking_requirements

definition SubscriptionFor :: "avatar_plan \<Rightarrow> capability \<Rightarrow> subscription option" where
  \<comment> \<open>none for the false result\<close>
  "SubscriptionFor p advertised =
    (if ap_status p \<noteq> StatusReady \<or> ap_generation p = 0 then None
     else let capabilities = tr_capabilities (ap_required p) AND advertised AND knownCapabilities in
       if capabilities = 0 then None
       else let s = \<lparr>sub_Generation = ap_generation p, sub_Capabilities = capabilities, sub_Eye = 0, sub_Expressions = empty_mask\<rparr>;
                s = (if cap_has capabilities CapabilityEye then s\<lparr>sub_Eye := tr_eye (ap_required p)\<rparr> else s);
                s = (if cap_has capabilities CapabilityExpression then s\<lparr>sub_Expressions := tr_expressions (ap_required p)\<rparr> else s)
            in Some (sub_normalize s))"

definition newReadyPlan :: "u64 \<Rightarrow> string \<Rightarrow> string \<Rightarrow> string \<Rightarrow> string \<Rightarrow> source \<Rightarrow> nat list \<Rightarrow> osc_catalog \<Rightarrow> eval_plan \<Rightarrow> inputs \<Rightarrow> avatar_plan" where
  "newReadyPlan gen avatarID avatarName configID configPath src ids catalog evaluator i =
     \<lparr>ap_generation = gen, ap_status = StatusReady, ap_avatarID = avatarID, ap_avatarName = avatarName, ap_configID = configID,
      ap_configPath = configPath, ap_source = src, ap_ids = ids, ap_catalog = Some catalog, ap_evaluator = Some evaluator,
      ap_inputs = i, ap_required = requirementsFromInputs i\<rparr>"

definition newFailedPlan :: "u64 \<Rightarrow> string \<Rightarrow> source \<Rightarrow> string \<Rightarrow> string \<Rightarrow> avatar_plan" where
  "newFailedPlan gen avatarID src configPath configID =
     \<lparr>ap_generation = gen, ap_status = StatusFailed, ap_avatarID = avatarID, ap_avatarName = [], ap_configID = configID,
      ap_configPath = configPath, ap_source = src, ap_ids = [], ap_catalog = None, ap_evaluator = None,
      ap_inputs = empty_inputs, ap_required = \<lparr>tr_capabilities = 0, tr_eye = 0, tr_expressions = empty_mask\<rparr>\<rparr>"

section \<open>The planner\<close>

record planner =
  pl_generation :: u64
  pl_oscRoot :: string
  pl_fallbackPath :: string
  pl_specs :: parameter_catalog

record activation =
  act_Plan :: "avatar_plan option"
  act_Err :: "avatar_error option"

definition NewPlanner :: "file_system \<Rightarrow> string \<Rightarrow> string \<Rightarrow> (avatar_error, planner) result" where
  "NewPlanner fs oscRoot fallbackPath =
     guard_result (oscRoot = []) ErrInvalidPlannerConfig
    (case AbsClean fs oscRoot of None \<Rightarrow> Inl ErrInvalidPlannerConfig
     | Some dir \<Rightarrow> bind_result (if fallbackPath \<noteq> []
           then (case AbsClean fs fallbackPath of None \<Rightarrow> Inl ErrInvalidPlannerConfig | Some p \<Rightarrow> Inr p) else Inr []) (\<lambda>fallback.
         case NewVRCFTParameterCatalog of Inl e \<Rightarrow> Inl ErrInvalidPlannerConfig
         | Inr specs \<Rightarrow> Inr \<lparr>pl_generation = 0, pl_oscRoot = dir, pl_fallbackPath = fallback, pl_specs = specs\<rparr>))"

definition failedResult :: "u64 \<Rightarrow> string \<Rightarrow> source \<Rightarrow> string \<Rightarrow> string \<Rightarrow> avatar_error \<Rightarrow> activation" where
  "failedResult gen avatarID src path configID e =
     \<lparr>act_Plan = Some (newFailedPlan gen avatarID src path configID), act_Err = Some e\<rparr>"

definition sortedBindingIDs :: "osc_catalog \<Rightarrow> nat list" where
  "sortedBindingIDs catalog = sort (map fst (oc_Bindings catalog))"

definition compile_activation :: "u64 \<Rightarrow> string \<Rightarrow> resolved_config \<Rightarrow> decoded_config \<Rightarrow> osc_catalog \<Rightarrow> activation option" where
  \<comment> \<open>Activate from the built catalog on\<close>
  "compile_activation gen avatarID resolved cfg catalog =
    (let ids = sortedBindingIDs catalog;
         failed = (\<lambda>e. Some (failedResult gen avatarID (rc_source resolved) (rc_path resolved) (dc_id cfg) e))
     in case Compile ids of
       None \<Rightarrow> None
     | Some (Inl e) \<Rightarrow> failed ErrRequirementCompilation
     | Some (Inr evaluator) \<Rightarrow> (case RequiredInputs ids of
         None \<Rightarrow> None
       | Some (Inl e) \<Rightarrow> failed ErrRequirementCompilation
       | Some (Inr i) \<Rightarrow> Some \<lparr>act_Plan = Some (newReadyPlan gen avatarID (dc_name cfg) (dc_id cfg) (rc_path resolved)
             (rc_source resolved) ids catalog evaluator i), act_Err = None\<rparr>))"

definition Activate :: "file_system \<Rightarrow> int \<Rightarrow> string \<Rightarrow> planner \<Rightarrow> (planner \<times> activation) option" where
  \<comment> \<open>at the time clock_ns; none if it did not return\<close>
  "Activate fs clock_ns avatarID p =
    (if pl_generation p = max_u64 then Some (p, \<lparr>act_Plan = None, act_Err = Some ErrGenerationExhausted\<rparr>)
     else let p = p\<lparr>pl_generation := pl_generation p + 1\<rparr>; gen = pl_generation p in
       map_option (Pair p)
        (case validateAvatarID avatarID of
           Inl e \<Rightarrow> Some (failedResult gen avatarID SourceNone [] [] e)
         | Inr _ \<Rightarrow> (case resolveConfig fs (pl_oscRoot p) (pl_fallbackPath p) avatarID of
             Inl e \<Rightarrow> Some (failedResult gen avatarID SourceNone [] [] e)
           | Inr resolved \<Rightarrow> (case readConfig fs (rc_path resolved) of
               Inl e \<Rightarrow> Some (failedResult gen avatarID (rc_source resolved) (rc_path resolved) [] e)
             | Inr cfg \<Rightarrow>
                 if requireIDMatch resolved \<and> dc_id cfg \<noteq> avatarID
                 then Some (failedResult gen avatarID (rc_source resolved) (rc_path resolved) (dc_id cfg) ErrConfigIDMismatch)
                 else (case BuildCatalogFromEndpoints clock_ns (dc_endpoints cfg) (Some (pl_specs p)) gen of
                   Inl e \<Rightarrow> Some (failedResult gen avatarID (rc_source resolved) (rc_path resolved) (dc_id cfg) (ErrBindingCompilation e))
                 | Inr catalog \<Rightarrow> compile_activation gen avatarID resolved cfg catalog)))))"


section \<open>What a subscription keeps\<close>

definition leaf_capability :: "active_state \<Rightarrow> capability" where
  "leaf_capability a = (if a = ActiveStateEyeTracking then CapabilityEye
     else if a = ActiveStateExpressionTracking then CapabilityExpression else CapabilityLip)"

definition frame_leaf :: "tracking_frame \<Rightarrow> leaf \<Rightarrow> float32 \<times> bool" where
  \<comment> \<open>what a frame says of a leaf; of an active state, whether its capability is there\<close>
  "frame_leaf f x = (case x of
     EyeLeaf field \<Rightarrow> eyeValue (Eye f) field
   | ExpressionLeaf e \<Rightarrow> exp_get (Expressions f) e
   | ActiveLeaf a \<Rightarrow> (zero32, cap_has (Capabilities f) (leaf_capability a)))"

definition field_bit :: "eye_field \<Rightarrow> eye_valid" where
  "field_bit field = (if field = 1 \<or> field = 2 then EyeValidLeftGaze else if field = 3 \<or> field = 4 then EyeValidRightGaze
     else if field = 5 then EyeValidLeftOpenness else if field = 6 then EyeValidRightOpenness
     else if field = 7 \<or> field = 9 then EyeValidLeftPupil else EyeValidRightPupil)"

lemmas eye_valid_defs = EyeValidLeftGaze_def EyeValidRightGaze_def EyeValidLeftOpenness_def EyeValidRightOpenness_def
  EyeValidLeftPupil_def EyeValidRightPupil_def

lemma eye_field_cases:
  assumes "eye_fields_has m field"
  shows "field = 1 \<or> field = 2 \<or> field = 3 \<or> field = 4 \<or> field = 5 \<or> field = 6 \<or> field = 7 \<or> field = 8 \<or> field = 9 \<or> field = 10"
proof -
  have "0 < field" "field < 11" using assms by (auto simp: eye_fields_has_def eyeFieldCount_def)
  then show ?thesis by arith
qed

lemma eyeValue_zeroed:
  assumes "eye_fields_has m field"
  shows "eyeValue (zeroInvalidEyeValues e) field =
    (if eye_Valid e AND field_bit field \<noteq> 0 then fst (eyeValue e field) else zero32, eye_Valid e AND field_bit field \<noteq> 0)"
  using eye_field_cases [OF assms]
  by (elim disjE) (simp_all add: eyeValue_def eye_field_defs field_bit_def zero_vec2_def)

lemma eyeValue_valid: "fst (eyeValue (e\<lparr>eye_Valid := v\<rparr>) field) = fst (eyeValue e field)"
  by (simp add: eyeValue_def)

lemma eyeValue_empty: "eyeValue empty_eye field = (zero32, False)"
  by (simp add: eyeValue_def empty_eye_def zero_vec2_def)

lemma field_bit_required:
  assumes "eye_fields_has (in_Eye i) field"
  shows "RequiredEyeValid i AND field_bit field = field_bit field \<and> field_bit field \<noteq> 0"
  using eye_field_cases [OF assms] assms
  by (elim disjE) (simp_all add: RequiredEyeValid_def eye_fields_EyeValid_def eye_field_defs field_bit_def eye_valid_defs)


definition leaf_needs :: "leaf \<Rightarrow> capability" where
  "leaf_needs x = (case x of EyeLeaf _ \<Rightarrow> CapabilityEye | ExpressionLeaf _ \<Rightarrow> CapabilityExpression | ActiveLeaf a \<Rightarrow> leaf_capability a)"

lemma cap_has_bits:
  "cap_has c CapabilityEye \<longleftrightarrow> bit c 0" "cap_has c CapabilityExpression \<longleftrightarrow> bit c 1" "cap_has c CapabilityLip \<longleftrightarrow> bit c 2"
proof -
  have "bit (1 :: u32) n \<longleftrightarrow> n = 0" "bit (2 :: u32) n \<longleftrightarrow> n = 1" "bit (4 :: u32) n \<longleftrightarrow> n = 2" for n
    using bit_exp_iff [of 0 n, where 'a = u32] bit_exp_iff [of 1 n, where 'a = u32] bit_exp_iff [of 2 n, where 'a = u32] by auto
  then show "cap_has c CapabilityEye \<longleftrightarrow> bit c 0" "cap_has c CapabilityExpression \<longleftrightarrow> bit c 1" "cap_has c CapabilityLip \<longleftrightarrow> bit c 2"
    by (auto simp: cap_has_def CapabilityEye_def CapabilityExpression_def CapabilityLip_def and_nonzero_iff)
qed

lemma bit_known: "bit knownCapabilities n \<longleftrightarrow> n < 3"
proof -
  have "knownCapabilities = mask 3" by (simp add: knownCapabilities_def CapabilityEye_def CapabilityExpression_def CapabilityLip_def mask_eq_exp_minus_1)
  moreover have "bit (mask 3 :: u32) n \<longleftrightarrow> n < 3" by (simp only: bit_mask_iff) auto
  ultimately show ?thesis by (simp only:)
qed

lemma active_state_cases: "active_states_has m a \<Longrightarrow> a = 1 \<or> a = 2 \<or> a = 3"
  unfolding active_states_has_def activeStateCount_def by arith

lemma leaf_required:
  assumes "inputs_has i x"
  shows "cap_has (tr_capabilities (requirementsFromInputs i)) (leaf_needs x)"
proof (cases x)
  case (EyeLeaf field)
  have "eye_fields_has (in_Eye i) field" using assms EyeLeaf by (simp add: inputs_has.simps)
  then have "RequiredEyeValid i \<noteq> 0" using field_bit_required [of i field] by auto
  then show ?thesis using EyeLeaf
    by (simp add: requirementsFromInputs_def Let_def leaf_needs_def cap_has_bits bit_or_iff) (simp add: CapabilityEye_def)
next
  case (ExpressionLeaf e)
  then have "mask_has (mask_normalize (in_Expressions i)) e" using assms by (simp add: inputs_has.simps)
  then have "\<not> mask_is_zero (mask_normalize (in_Expressions i))"
    by (metis mask_has_normalize mask_is_zero_has mask_normalize_idem)
  then show ?thesis using ExpressionLeaf
    by (simp add: requirementsFromInputs_def Let_def leaf_needs_def cap_has_bits bit_or_iff)
       (simp add: CapabilityExpression_def bit_2_iff)
next
  case (ActiveLeaf a)
  then have a: "active_states_has (in_Active i) a" using assms by (simp add: inputs_has.simps)
  show ?thesis using active_state_cases [OF a] a ActiveLeaf
    by (elim disjE)
       (simp_all add: requirementsFromInputs_def Let_def leaf_needs_def leaf_capability_def active_state_defs cap_has_bits bit_or_iff,
        simp_all add: CapabilityEye_def CapabilityExpression_def CapabilityLip_def bit_2_iff)
qed

lemma SubscriptionFor_Some:
  assumes "SubscriptionFor p adv = Some s"
  shows "ap_status p = StatusReady" "ap_generation p \<noteq> 0" "sub_Generation s = ap_generation p"
    "sub_Capabilities s = tr_capabilities (ap_required p) AND adv AND knownCapabilities" "sub_Capabilities s \<noteq> 0"
    "sub_Eye s = (if cap_has (sub_Capabilities s) CapabilityEye then tr_eye (ap_required p) else 0)"
    "sub_Expressions s = (if cap_has (sub_Capabilities s) CapabilityExpression then mask_normalize (tr_expressions (ap_required p)) else empty_mask)"
  using assms by (auto simp: SubscriptionFor_def Let_def sub_normalize_def split: if_splits)

lemma SubscriptionFor_None:
  assumes "SubscriptionFor p adv = None" "ap_status p = StatusReady" "ap_generation p \<noteq> 0"
  shows "tr_capabilities (ap_required p) AND adv AND knownCapabilities = 0"
  using assms by (auto simp: SubscriptionFor_def Let_def split: if_splits)

lemma subscribed_capability:
  assumes "inputs_has i x" "frame_ok f" "Capabilities f AND NOT adv = 0"
  shows "cap_has (Capabilities f) (leaf_needs x) \<longleftrightarrow>
    cap_has (Capabilities f AND (knownCapabilities AND (tr_capabilities (requirementsFromInputs i) AND adv AND knownCapabilities))) (leaf_needs x)"
proof -
  have adv: "bit adv n" if "bit (Capabilities f) n" for n
    using assms(3) that bit_imp_le_length [OF that] by (metis bit_and_iff bit_not_iff bit_0_eq bot_apply bot_bool_def impossible_bit)
  consider "leaf_needs x = CapabilityEye" | "leaf_needs x = CapabilityExpression" | "leaf_needs x = CapabilityLip"
    unfolding leaf_needs_def leaf_capability_def by (cases x) (simp_all, metis)
  then show ?thesis
    using leaf_required [OF assms(1)] adv by cases (auto simp: cap_has_bits bit_and_iff bit_known)
qed

lemma trimmed_eye:
  assumes "frame_ok f" "sub_Eye s AND b = b"
  shows "trim_eye_bits s f AND b \<noteq> 0 \<longleftrightarrow> eye_Valid (Eye f) AND b \<noteq> 0"
proof -
  have "eye_Valid (Eye f) AND NOT knownEyeValid = 0" using assms(1) by (simp add: frame_ok_def)
  then have known: "eye_Valid (Eye f) AND knownEyeValid = eye_Valid (Eye f)"
    by (metis and.right_idem bit.conj_disj_distrib bit.disj_cancel_right or.right_neutral word_bw_same(1) and.right_neutral bit.conj_one_right)
  then show ?thesis using assms(2) by (auto simp: trim_eye_bits_def and.assoc)
qed

lemma trimmed_leaf:
  assumes x: "inputs_has i x" and ok: "frame_ok f" and adv: "Capabilities f AND NOT adv = 0"
    and s: "sub_Capabilities s = tr_capabilities (requirementsFromInputs i) AND adv AND knownCapabilities"
      "sub_Eye s = (if cap_has (sub_Capabilities s) CapabilityEye then RequiredEyeValid i else 0)"
      "sub_Expressions s = (if cap_has (sub_Capabilities s) CapabilityExpression then mask_normalize (in_Expressions i) else empty_mask)"
  shows "frame_leaf (TrimFrame s f) x = frame_leaf (canonical f) x"
proof -
  have caps: "cap_has (trim_caps s f) (leaf_needs x) \<longleftrightarrow> cap_has (Capabilities f) (leaf_needs x)"
    using subscribed_capability [OF x ok adv] by (simp add: trim_caps_def s(1))
  show ?thesis
  proof (cases x)
    case (EyeLeaf field)
    then have field: "eye_fields_has (in_Eye i) field" using x by (simp add: inputs_has.simps)
    show ?thesis
    proof (cases "cap_has (Capabilities f) CapabilityEye")
      case True
      then have "cap_has (trim_caps s f) CapabilityEye" using caps EyeLeaf by (simp add: leaf_needs_def)
      then have "sub_Eye s = RequiredEyeValid i" using trim_caps_has s(2) by auto
      then have "trim_eye_bits s f AND field_bit field \<noteq> 0 \<longleftrightarrow> eye_Valid (Eye f) AND field_bit field \<noteq> 0"
        using trimmed_eye [OF ok] field_bit_required [OF field] by simp
      then show ?thesis using True \<open>cap_has (trim_caps s f) CapabilityEye\<close> EyeLeaf
        by (simp add: frame_leaf_def eyeValue_zeroed [OF field] eyeValue_valid)
    next
      case False
      then show ?thesis using caps EyeLeaf by (simp add: frame_leaf_def leaf_needs_def eyeValue_empty)
    qed
  next
    case (ExpressionLeaf e)
    then have e: "mask_has (in_Expressions i) e" using x by (simp add: inputs_has.simps)
    then have z: "\<not> mask_is_zero (mask_normalize (in_Expressions i))"
      by (metis mask_has_normalize mask_is_zero_has mask_normalize_idem)
    show ?thesis
    proof (cases "cap_has (Capabilities f) CapabilityExpression")
      case True
      then have t: "cap_has (trim_caps s f) CapabilityExpression" using caps ExpressionLeaf by (simp add: leaf_needs_def)
      then have "sub_Expressions s = mask_normalize (in_Expressions i)" using trim_caps_has s(3) by auto
      then have "mask_has (trim_mask s f) e = mask_has (exp_Valid (Expressions f)) e" using e by (simp add: mask_has_trim)
      then show ?thesis using True t ExpressionLeaf by (auto simp: frame_leaf_def exp_get_def)
    next
      case False
      then show ?thesis using caps ExpressionLeaf by (simp add: frame_leaf_def leaf_needs_def)
    qed
  next
    case (ActiveLeaf a)
    then show ?thesis using caps by (simp add: frame_leaf_def leaf_needs_def)
  qed
qed


lemma required_eye_known: "RequiredEyeValid i AND NOT knownEyeValid = 0"
proof -
  have "bit (RequiredEyeValid i) n \<Longrightarrow> bit knownEyeValid n" for n
    unfolding RequiredEyeValid_def eye_fields_EyeValid_def knownEyeValid_def by (auto simp: bit_or_iff split: if_splits)
  then show ?thesis by (intro bit_word_eqI) (auto simp: bit_and_iff bit_not_iff)
qed

lemma required_simps [simp]:
  "tr_eye (requirementsFromInputs i) = RequiredEyeValid i" "tr_expressions (requirementsFromInputs i) = mask_normalize (in_Expressions i)"
  by (simp_all add: requirementsFromInputs_def Let_def)

lemma newReadyPlan_simps [simp]:
  "ap_generation (newReadyPlan gen a n c path src ids cat ev i) = gen" "ap_status (newReadyPlan gen a n c path src ids cat ev i) = StatusReady"
  "ap_inputs (newReadyPlan gen a n c path src ids cat ev i) = i" "ap_ids (newReadyPlan gen a n c path src ids cat ev i) = ids"
  "ap_required (newReadyPlan gen a n c path src ids cat ev i) = requirementsFromInputs i"
  "ap_catalog (newReadyPlan gen a n c path src ids cat ev i) = Some cat" "ap_evaluator (newReadyPlan gen a n c path src ids cat ev i) = Some ev"
  by (simp_all add: newReadyPlan_def)

lemma subscription_valid:
  assumes "SubscriptionFor p adv = Some s" "ap_required p = requirementsFromInputs i"
  shows "sub_validate s True = Inr ()" "sub_normalize s = s" "sub_Capabilities s AND NOT adv = 0"
proof -
  note s = SubscriptionFor_Some [OF assms(1), unfolded assms(2) required_simps]
  have "sub_Capabilities s AND NOT knownCapabilities = 0" "sub_Capabilities s AND knownCapabilities = sub_Capabilities s"
    "sub_Capabilities s AND NOT adv = 0"
    unfolding s(4) by (intro bit_word_eqI; auto simp: bit_and_iff bit_not_iff)+
  then show "sub_validate s True = Inr ()" "sub_Capabilities s AND NOT adv = 0"
    using s(2,3,5,6,7) required_eye_known by (auto simp: sub_validate_ok)
  show "sub_normalize s = s" using s(6,7) by (cases s) (auto simp: sub_normalize_def Let_def)
qed

lemma unsubscribed_leaf:
  assumes "SubscriptionFor p adv = None" "ap_status p = StatusReady" "ap_generation p \<noteq> 0" "ap_required p = requirementsFromInputs i"
    and "inputs_has i x" "frame_ok f" "Capabilities f AND NOT adv = 0"
  shows "frame_leaf (canonical f) x = (zero32, False)"
proof -
  have "\<not> cap_has (Capabilities f) (leaf_needs x)"
    using subscribed_capability [OF assms(5-7)] SubscriptionFor_None [OF assms(1-3)] assms(4) by (simp add: cap_has_def)
  then show ?thesis by (cases x) (simp_all add: frame_leaf_def leaf_needs_def eyeValue_empty exp_get_def)
qed

text \<open>C26 (safety). The subscription a ready plan makes for a plugin is enough for the avatar: it is
  valid and normal, asks for nothing the plugin does not advertise and carries the plan's
  generation, and a frame of the plugin cut down to it says the same of every leaf the avatar's
  parameters read (each eye value and expression with its validity, and whether a capability is
  there) as the whole frame. Where there is no subscription, the plugin has nothing to say of
  those leaves.\<close>

theorem subscription_suffices:
  assumes "p = newReadyPlan gen avatarID name configID path src ids cat ev i" "gen \<noteq> 0"
    and "canonicalize f = Inr g" "Capabilities f AND NOT adv = 0" "inputs_has i x"
  shows "case SubscriptionFor p adv of
      None \<Rightarrow> frame_leaf g x = (zero32, False)
    | Some s \<Rightarrow> frame_leaf (TrimFrame s f) x = frame_leaf g x \<and> sub_validate s True = Inr () \<and> sub_normalize s = s \<and>
        sub_Generation s = gen \<and> sub_Capabilities s AND NOT adv = 0"
proof -
  have p: "ap_status p = StatusReady" "ap_generation p = gen" "ap_required p = requirementsFromInputs i" using assms(1) by simp_all
  have g: "frame_ok f" "g = canonical f" using assms(3) by (simp_all add: canonicalize_eq)
  show ?thesis
  proof (cases "SubscriptionFor p adv")
    case None
    then show ?thesis using unsubscribed_leaf [OF None p(1) _ p(3) assms(5) g(1) assms(4)] p(2) assms(2) g(2) by simp
  next
    case (Some s)
    note s = SubscriptionFor_Some [OF Some, unfolded p(2,3) required_simps mask_normalize_idem]
    show ?thesis
      using Some subscription_valid [OF Some p(3)] trimmed_leaf [OF assms(5) g(1) assms(4) s(4,6,7)] s(3) g(2) by simp
  qed
qed

definition sample_leaf_inputs :: inputs where
  "sample_leaf_inputs = \<lparr>in_Eye = EyeFieldsOf [EyeFieldLeftOpenness], in_Expressions = empty_mask, in_Active = ActiveStatesOf [ActiveStateLipTracking]\<rparr>"

definition sample_plan :: avatar_plan where
  "sample_plan = newReadyPlan 1 ''avtr_1'' [] ''avtr_1'' ''/osc/usr_1/Avatars/avtr_1.json'' SourceAvatarConfig []
     \<lparr>oc_Generation = 1, oc_UpdatedAt = 0, oc_Hash = 0, oc_Bindings = [], RawMethods = [], Outputs = []\<rparr>
     \<lparr>requested = no_parameters, instructions = []\<rparr> sample_leaf_inputs"

theorem subscription_suffices_witness:
  "\<exists>s g. SubscriptionFor sample_plan 7 = Some s \<and> canonicalize sample_frame = Inr g \<and>
     sub_Capabilities s = CapabilityEye OR CapabilityLip \<and> sub_Eye s = EyeValidLeftOpenness \<and>
     eyeValue (Eye (TrimFrame s sample_frame)) EyeFieldLeftOpenness = eyeValue (Eye g) EyeFieldLeftOpenness"
proof -
  have ok: "frame_ok sample_frame" using sample_frame_ok by (simp add: frame_validate_ok)
  then have g: "canonicalize sample_frame = Inr (canonical sample_frame)" by (simp add: canonicalize_eq)
  have "case SubscriptionFor sample_plan 7 of None \<Rightarrow> False
      | Some s \<Rightarrow> sub_Capabilities s = CapabilityEye OR CapabilityLip \<and> sub_Eye s = EyeValidLeftOpenness" by code_simp
  then obtain s where s: "SubscriptionFor sample_plan 7 = Some s" "sub_Capabilities s = CapabilityEye OR CapabilityLip" "sub_Eye s = EyeValidLeftOpenness"
    by (auto split: option.splits)
  have "inputs_has sample_leaf_inputs (EyeLeaf EyeFieldLeftOpenness)" "Capabilities sample_frame AND NOT 7 = 0" by code_simp+
  then have "frame_leaf (TrimFrame s sample_frame) (EyeLeaf EyeFieldLeftOpenness) = frame_leaf (canonical sample_frame) (EyeLeaf EyeFieldLeftOpenness)"
    using subscription_suffices [OF sample_plan_def _ g, of 7 "EyeLeaf EyeFieldLeftOpenness"] s(1) by simp
  then show ?thesis using s g by (auto simp: frame_leaf_def)
qed

end
