(* ===== verification/AvatarPlans.thy ===== *)
theory AvatarPlans
  imports Avatar OscSender
begin

text \<open>
  What the planner of internal/avatar delivers: every activation returns, the generations count the
  activations, a ready plan's evaluator computes the reference value for each output of its
  catalog, and the configuration taken is the newest one below the OSC root.
\<close>

unbundle bit_operations_syntax

section \<open>Compilation of a built catalog\<close>

lemma shipped_length: "length (byID shipped_catalog) = 127"
  by (simp add: shipped_catalog_def Definitions_length)

lemma resolved_known:
  "direct_of shipped_catalog e = Some pid \<Longrightarrow> pid < 127" "binary_of shipped_catalog e = Some m \<Longrightarrow> bm_ID m < 127"
  by (auto simp: direct_of_def binary_of_def catalog_Spec_def shipped_length split: option.splits if_splits)

lemma bound_known: "pid \<in> bound_parameters shipped_catalog es \<Longrightarrow> pid < 127"
  unfolding bound_parameters_def using resolved_known by (auto simp del: not_None_eq)

lemma binding_ids:
  assumes "BuildCatalogFromEndpoints t es (Some shipped_catalog) gen = Inr cat"
  shows "set (sortedBindingIDs cat) = bound_parameters shipped_catalog es" "list_all (\<lambda>pid. pid < 127) (sortedBindingIDs cat)"
  using built_keys [OF assms] bound_known by (auto simp: sortedBindingIDs_def list_all_iff)

definition plan_compiled :: "avatar_plan \<Rightarrow> bool" where
  "plan_compiled p \<longleftrightarrow> (\<exists>t es cat ev. BuildCatalogFromEndpoints t es (Some shipped_catalog) (ap_generation p) = Inr cat \<and>
     ap_catalog p = Some cat \<and> ap_evaluator p = Some ev \<and> ap_ids p = sortedBindingIDs cat \<and> Compile (ap_ids p) = Some (Inr ev) \<and>
     RequiredInputs (ap_ids p) = Some (Inr (ap_inputs p)) \<and> ap_required p = requirementsFromInputs (ap_inputs p))"

lemma compile_activation_ready:
  assumes "BuildCatalogFromEndpoints t es (Some shipped_catalog) gen = Inr cat"
  shows "\<exists>p. compile_activation gen avatarID resolved cfg cat = Some \<lparr>act_Plan = Some p, act_Err = None\<rparr> \<and>
    ap_status p = StatusReady \<and> ap_generation p = gen \<and> ap_avatarID p = avatarID \<and> plan_compiled p"
proof -
  note ids = binding_ids(2) [OF assms]
  obtain ev where ev: "Compile (sortedBindingIDs cat) = Some (Inr ev)" using Compile_known [OF ids] by blast
  obtain i where i: "RequiredInputs (sortedBindingIDs cat) = Some (Inr i)" using RequiredInputs_leaves [of "sortedBindingIDs cat"] ids by auto
  have "plan_compiled (newReadyPlan gen avatarID (dc_name cfg) (dc_id cfg) (rc_path resolved) (rc_source resolved) (sortedBindingIDs cat) cat ev i)"
    unfolding plan_compiled_def using assms ev i by (simp, blast)
  then show ?thesis using ev i by (simp add: compile_activation_def Let_def newReadyPlan_def)
qed

definition activation_failed :: "u64 \<Rightarrow> string \<Rightarrow> activation \<Rightarrow> bool" where
  "activation_failed gen avatarID act \<longleftrightarrow> (\<exists>p e. act = \<lparr>act_Plan = Some p, act_Err = Some e\<rparr> \<and> ap_status p = StatusFailed \<and>
     ap_generation p = gen \<and> ap_avatarID p = avatarID \<and> ap_catalog p = None \<and> e \<noteq> ErrRequirementCompilation \<and> e \<noteq> ErrGenerationExhausted)"

definition activation_ready :: "u64 \<Rightarrow> string \<Rightarrow> activation \<Rightarrow> bool" where
  "activation_ready gen avatarID act \<longleftrightarrow> (\<exists>p. act = \<lparr>act_Plan = Some p, act_Err = None\<rparr> \<and> ap_status p = StatusReady \<and>
     ap_generation p = gen \<and> ap_avatarID p = avatarID \<and> plan_compiled p)"

lemma failed_activation: "e \<noteq> ErrRequirementCompilation \<Longrightarrow> e \<noteq> ErrGenerationExhausted \<Longrightarrow> activation_failed gen avatarID (failedResult gen avatarID src path configID e)"
  by (simp add: activation_failed_def failedResult_def newFailedPlan_def)

definition file_error :: "avatar_error \<Rightarrow> bool" where
  "file_error e \<longleftrightarrow> e \<noteq> ErrRequirementCompilation \<and> e \<noteq> ErrGenerationExhausted"

definition raises :: "('e \<Rightarrow> bool) \<Rightarrow> ('e, 'a) result \<Rightarrow> bool" where
  "raises P r \<longleftrightarrow> (\<forall>e. r = Inl e \<longrightarrow> P e)"

lemma raises_intros:
  "raises P (Inr x)" "P e \<Longrightarrow> raises P (Inl e)"
  "raises P r \<Longrightarrow> (\<And>x. raises P (f x)) \<Longrightarrow> raises P (bind_result r f)"
  "P e \<Longrightarrow> raises P r \<Longrightarrow> raises P (guard_result b e r)"
  by (auto simp: raises_def result_iffs)

lemma raises_fold: "(\<And>x s. raises P (f x s)) \<Longrightarrow> raises P (fold_result f xs s)"
  by (induction xs arbitrary: s) (auto intro!: raises_intros)

lemma raisesD: "raises P r \<Longrightarrow> r = Inl e \<Longrightarrow> P e"
  by (simp add: raises_def)

lemmas error_rules = raises_intros raises_fold

lemma file_errors [simp]:
  "file_error ErrInvalidAvatarID" "file_error ErrConfigNotFound" "file_error ErrInvalidConfigPath" "file_error ErrConfigTooLarge"
  "file_error ErrInvalidJSON" "file_error ErrConfigIDMismatch" "file_error ErrTooManyParameters" "file_error ErrInvalidInputEndpoint"
  "file_error (ErrBindingCompilation e)"
  by (simp_all add: file_error_def)

lemma validateAvatarID_error: "raises file_error (validateAvatarID a)"
  unfolding validateAvatarID_def Let_def by (intro error_rules) simp_all

lemma decode_errors [intro!]:
  "raises file_error (decodeKnownString v)" "raises file_error (optional_string w)" "raises file_error (decodeConfigEndpoint v)"
proof -
  show k: "raises file_error (decodeKnownString v)" for v
    unfolding decodeKnownString_def by (auto intro!: error_rules split: json.split)
  show o': "raises file_error (optional_string w)" for w
    unfolding optional_string_def by (auto intro!: error_rules k split: option.split)
  show "raises file_error (decodeConfigEndpoint v)"
    unfolding decodeConfigEndpoint_def Let_def by (auto intro!: error_rules o' split: json.split)
qed

lemma decode_parameter_error [intro!]: "raises file_error (decode_parameter raw es)"
  unfolding decode_parameter_def decodeConfigParameter_def Let_def by (auto intro!: error_rules split: option.split json.split)

lemma readConfig_error: "raises file_error (readConfig fs path)"
  unfolding readConfig_def Let_def by (auto intro!: error_rules split: option.split json.split)

lemma resolveFallback_error [intro!]: "raises file_error (resolveFallback fs path)"
  unfolding resolveFallback_def by (auto intro!: error_rules split: option.split sum.split)

lemma candidate_step_error [intro!]: "raises file_error (candidate_step fs dir a x found)"
  unfolding candidate_step_def by (cases x) (auto intro!: error_rules split: option.split sum.split)

lemma resolveConfig_error: "raises file_error (resolveConfig fs r fallback a)"
  unfolding resolveConfig_def
  by (auto intro!: error_rules validateAvatarID_error split: option.split sum.split)

lemma Activate_outcome:
  assumes "pl_specs p = shipped_catalog"
  shows "\<exists>act. Activate fs t avatarID p = Some (if pl_generation p = max_u64 then p else p\<lparr>pl_generation := pl_generation p + 1\<rparr>, act) \<and>
    (if pl_generation p = max_u64 then act = \<lparr>act_Plan = None, act_Err = Some ErrGenerationExhausted\<rparr>
     else activation_ready (pl_generation p + 1) avatarID act \<or> activation_failed (pl_generation p + 1) avatarID act)"
proof (cases "pl_generation p = max_u64")
  case False
  let ?gen = "pl_generation p + 1"
  let ?out = "\<lambda>r. \<exists>act. r = Some act \<and> (activation_ready ?gen avatarID act \<or> activation_failed ?gen avatarID act)"
  have failed: "activation_failed ?gen avatarID (failedResult ?gen avatarID src path configID e)" if "file_error e" for src path configID e
    using that failed_activation unfolding file_error_def by blast
  have ready: "?out (compile_activation ?gen avatarID resolved cfg cat)"
    if "BuildCatalogFromEndpoints t es (Some shipped_catalog) ?gen = Inr cat" for es cat resolved cfg
    using compile_activation_ready [OF that] unfolding activation_ready_def by blast
  note errors = raisesD [OF validateAvatarID_error] raisesD [OF resolveConfig_error] raisesD [OF readConfig_error]
  let ?p = "p\<lparr>pl_generation := ?gen\<rparr>"
  have "Activate fs t avatarID p = map_option (Pair ?p) (snd (undefined, 
        case validateAvatarID avatarID of
           Inl e \<Rightarrow> Some (failedResult ?gen avatarID SourceNone [] [] e)
         | Inr _ \<Rightarrow> (case resolveConfig fs (pl_oscRoot p) (pl_fallbackPath p) avatarID of
             Inl e \<Rightarrow> Some (failedResult ?gen avatarID SourceNone [] [] e)
           | Inr resolved \<Rightarrow> (case readConfig fs (rc_path resolved) of
               Inl e \<Rightarrow> Some (failedResult ?gen avatarID (rc_source resolved) (rc_path resolved) [] e)
             | Inr cfg \<Rightarrow>
                 if requireIDMatch resolved \<and> dc_id cfg \<noteq> avatarID
                 then Some (failedResult ?gen avatarID (rc_source resolved) (rc_path resolved) (dc_id cfg) ErrConfigIDMismatch)
                 else (case BuildCatalogFromEndpoints t (dc_endpoints cfg) (Some (pl_specs p)) ?gen of
                   Inl e \<Rightarrow> Some (failedResult ?gen avatarID (rc_source resolved) (rc_path resolved) (dc_id cfg) (ErrBindingCompilation e))
                 | Inr catalog \<Rightarrow> compile_activation ?gen avatarID resolved cfg catalog)))))"
    (is "_ = map_option _ (snd (_, ?r))")
    using False by (simp add: Activate_def Let_def cong del: sum.case_cong_weak option.case_cong_weak if_weak_cong)
  moreover have "?out ?r"
    unfolding assms
    by (cases "validateAvatarID avatarID"; cases "resolveConfig fs (pl_oscRoot p) (pl_fallbackPath p) avatarID")
      (auto simp: failed dest: ready dest!: errors split: sum.split if_split)
  ultimately show ?thesis using False by auto
qed (simp add: Activate_def)

section \<open>Every activation\<close>

fun activate_all :: "(file_system \<times> int \<times> string) list \<Rightarrow> planner \<Rightarrow> (planner \<times> activation list) option" where
  \<comment> \<open>the calls of a planner one after the other, each with the file system and time it meets\<close>
  "activate_all [] p = Some (p, [])"
| "activate_all ((fs, t, avatarID) # calls) p = (case Activate fs t avatarID p of None \<Rightarrow> None
     | Some (p', act) \<Rightarrow> map_option (\<lambda>(q, acts). (q, act # acts)) (activate_all calls p'))"

definition activation_at :: "nat \<Rightarrow> string \<Rightarrow> activation \<Rightarrow> bool" where
  "activation_at n avatarID act \<longleftrightarrow> (if n < 2 ^ 64 - 1
     then activation_ready (word_of_nat (n + 1)) avatarID act \<or> activation_failed (word_of_nat (n + 1)) avatarID act
     else act = \<lparr>act_Plan = None, act_Err = Some ErrGenerationExhausted\<rparr>)"

lemma max_u64_value: "max_u64 = 18446744073709551615"
  by (simp add: max_u64_def)

lemma max_u64_nat: "n < 2 ^ 64 \<Longrightarrow> (word_of_nat n :: u64) = max_u64 \<longleftrightarrow> n = 2 ^ 64 - 1"
  using word_of_nat_eq_iff [where 'a = 64, of n "2 ^ 64 - 1"] by (simp add: take_bit_nat_eq_self max_u64_value)

lemma activate_all_outcome:
  assumes "pl_specs p = shipped_catalog" "pl_generation p = word_of_nat (min n (2 ^ 64 - 1))"
  shows "\<exists>q acts. activate_all calls p = Some (q, acts) \<and> length acts = length calls \<and>
    (\<forall>k < length calls. activation_at (n + k) (snd (snd (calls ! k))) (acts ! k))"
  using assms
proof (induction calls arbitrary: p n)
  case (Cons call calls)
  obtain fs t avatarID where call: "call = (fs, t, avatarID)" by (cases call) auto
  let ?p = "if pl_generation p = max_u64 then p else p\<lparr>pl_generation := pl_generation p + 1\<rparr>"
  obtain act where act: "Activate fs t avatarID p = Some (?p, act)" and res:
    "if pl_generation p = max_u64 then act = \<lparr>act_Plan = None, act_Err = Some ErrGenerationExhausted\<rparr>
     else activation_ready (pl_generation p + 1) avatarID act \<or> activation_failed (pl_generation p + 1) avatarID act"
    using Activate_outcome [OF Cons.prems(1)] by blast
  have full: "pl_generation p = max_u64 \<longleftrightarrow> \<not> n < 2 ^ 64 - 1"
    using max_u64_nat [of "min n (2 ^ 64 - 1)"] Cons.prems(2) by (auto simp: min_def)
  have here: "activation_at n avatarID act"
    using res full Cons.prems(2) by (auto simp: activation_at_def min_def add.commute)
  have "pl_generation ?p = word_of_nat (min (Suc n) (2 ^ 64 - 1))"
    using full Cons.prems(2) by (auto simp: min_def add.commute)
  then obtain q acts where rest: "activate_all calls ?p = Some (q, acts)" "length acts = length calls"
    "\<forall>k < length calls. activation_at (Suc n + k) (snd (snd (calls ! k))) (acts ! k)"
    using Cons.IH [of ?p "Suc n"] Cons.prems(1) by auto
  have "activation_at (n + k) (snd (snd ((call # calls) ! k))) ((act # acts) ! k)" if "k < length (call # calls)" for k
    using that here rest(3) call by (cases k) auto
  then show ?case using act rest(1,2) call by auto
qed simp

lemma NewPlanner_fresh: "NewPlanner fs r fallback = Inr p \<Longrightarrow> pl_specs p = shipped_catalog \<and> pl_generation p = 0"
  by (auto simp: NewPlanner_def NewVRCFTParameterCatalog_shipped result_iffs split: option.splits if_splits)

text \<open>C28 (liveness). Every activation of an avatar returns, whatever the files hold: the k-th one
  since the planner was made gives a plan of generation k for the avatar, either ready and without
  an error or failed with one, and a plan never fails at compiling its requirements. Only after
  the last generation does a call give no plan, and an error.\<close>

theorem activations_return:
  assumes "NewPlanner fs r fallback = Inr p"
  shows "\<exists>q acts. activate_all calls p = Some (q, acts) \<and> length acts = length calls \<and>
    (\<forall>k < length calls. activation_at k (snd (snd (calls ! k))) (acts ! k))"
  using activate_all_outcome [of p 0 calls] NewPlanner_fresh [OF assms] by simp


definition sample_json :: bytes where
  "sample_json = ''{'' @ [CHR 0x22] @ ''id'' @ [CHR 0x22] @ '': '' @ [CHR 0x22] @ ''avtr_1'' @ [CHR 0x22] @ '', '' @ [CHR 0x22] @ ''parameters'' @ [CHR 0x22] @
     '': [{'' @ [CHR 0x22] @ ''name'' @ [CHR 0x22] @ '': '' @ [CHR 0x22] @ ''JawOpen'' @ [CHR 0x22] @ '', '' @ [CHR 0x22] @ ''input'' @ [CHR 0x22] @
     '': {'' @ [CHR 0x22] @ ''address'' @ [CHR 0x22] @ '': '' @ [CHR 0x22] @ ''/avatar/parameters/v2/JawOpen'' @ [CHR 0x22] @ '', '' @
     [CHR 0x22] @ ''type'' @ [CHR 0x22] @ '': '' @ [CHR 0x22] @ ''Float'' @ [CHR 0x22] @ ''}}]}''"

definition sample_files :: file_system where
  "sample_files = \<lparr>AbsClean = Some, PathJoin = (\<lambda>parts. join_char CHR ''/'' parts),
     PathRel = (\<lambda>dir path. if has_prefix path (dir @ ''/'') then Some (trim_prefix path (dir @ ''/'')) else None), Separator = CHR ''/'',
     ReadDir = (\<lambda>path. if path = ''/osc'' then Inr [(''readme'', RegularFile, Some RegularFile), (''usr_1'', Folder, Some Folder)] else Inl NotExist),
     Lstat = (\<lambda>path. if path = ''/osc/usr_1'' \<or> path = ''/osc/usr_1/Avatars'' then Inr \<lparr>fi_kind = Folder, fi_ModTime = 1\<rparr>
       else if path = ''/osc/usr_1/Avatars/avtr_1.json'' then Inr \<lparr>fi_kind = RegularFile, fi_ModTime = 2\<rparr> else Inl NotExist),
     ReadFile = (\<lambda>path. if path = ''/osc/usr_1/Avatars/avtr_1.json'' then Some sample_json else None)\<rparr>"

lemma sample_reads: "readConfig sample_files ''/osc/usr_1/Avatars/avtr_1.json'' =
    Inr \<lparr>dc_id = ''avtr_1'', dc_name = [], dc_endpoints = [\<lparr>ep_Address = ''/avatar/parameters/v2/JawOpen'', ep_Type = ''f''\<rparr>]\<rparr>"
  by code_simp

lemma sample_resolves: "resolveConfig sample_files ''/osc'' [] ''avtr_1'' =
    Inr \<lparr>rc_path = ''/osc/usr_1/Avatars/avtr_1.json'', rc_source = SourceAvatarConfig, requireIDMatch = True\<rparr>"
  by code_simp

lemma sample_builds: "is_ok (BuildCatalogFromEndpoints 0 [\<lparr>ep_Address = ''/avatar/parameters/v2/JawOpen'', ep_Type = ''f''\<rparr>] (Some shipped_catalog) 1)"
  by code_simp

definition sample_planner :: planner where
  "sample_planner = \<lparr>pl_generation = 0, pl_oscRoot = ''/osc'', pl_fallbackPath = [], pl_specs = shipped_catalog\<rparr>"

lemma sample_new: "NewPlanner sample_files ''/osc'' [] = Inr sample_planner"
  by (simp add: NewPlanner_def NewVRCFTParameterCatalog_shipped sample_files_def sample_planner_def)

lemma sample_activation:
  "\<exists>act. Activate sample_files 0 ''avtr_1'' sample_planner = Some (sample_planner\<lparr>pl_generation := 1\<rparr>, act) \<and> activation_ready 1 ''avtr_1'' act"
proof -
  obtain cat where cat: "BuildCatalogFromEndpoints 0 [\<lparr>ep_Address = ''/avatar/parameters/v2/JawOpen'', ep_Type = ''f''\<rparr>] (Some shipped_catalog) 1 = Inr cat"
    using sample_builds by (auto simp: is_ok_iff)
  have valid: "validateAvatarID ''avtr_1'' = Inr ()" by code_simp
  have "(0 :: u64) \<noteq> max_u64" by (simp add: max_u64_def)
  moreover obtain act where "compile_activation 1 ''avtr_1'' \<lparr>rc_path = ''/osc/usr_1/Avatars/avtr_1.json'', rc_source = SourceAvatarConfig, requireIDMatch = True\<rparr>
      \<lparr>dc_id = ''avtr_1'', dc_name = [], dc_endpoints = [\<lparr>ep_Address = ''/avatar/parameters/v2/JawOpen'', ep_Type = ''f''\<rparr>]\<rparr> cat = Some act"
    "activation_ready 1 ''avtr_1'' act"
    using compile_activation_ready [OF cat] unfolding activation_ready_def by blast
  ultimately show ?thesis
    using cat valid sample_resolves sample_reads by (simp add: Activate_def sample_planner_def)
qed

theorem activations_return_witness:
  "\<exists>q act failure. NewPlanner sample_files ''/osc'' [] = Inr sample_planner \<and>
    activate_all [(sample_files, 0, ''avtr_1''), (sample_files, 1, ''../x'')] sample_planner = Some (q, [act, failure]) \<and>
    activation_ready 1 ''avtr_1'' act \<and> activation_at 1 ''../x'' failure"
proof -
  let ?calls = "[(sample_files, 0 :: int, ''avtr_1''), (sample_files, 1, ''../x'')]"
  obtain q acts where run: "activate_all ?calls sample_planner = Some (q, acts)" "length acts = length ?calls"
    and at: "\<forall>k < length ?calls. activation_at k (snd (snd (?calls ! k))) (acts ! k)"
    using activations_return [OF sample_new, of ?calls] by blast
  obtain a b where acts: "acts = [a, b]" using run(2) by (auto simp: length_Suc_conv)
  have "activation_at 1 ''../x'' b" using at acts by (auto dest: spec [of _ 1])
  moreover have "activation_ready 1 ''avtr_1'' a"
    using run(1) sample_activation acts by (auto split: option.splits)
  ultimately show ?thesis using run(1) acts sample_new by blast
qed

section \<open>What a ready plan sends\<close>

definition snapshot_values :: "snapshot \<Rightarrow> value_source" where
  "snapshot_values s = \<lparr>src_Float = snapshot_Float s, src_Bool = snapshot_Bool s\<rparr>"

definition reference_values :: "canonical_frame \<Rightarrow> value_source" where
  "reference_values cf = \<lparr>src_Float = (\<lambda>pid. case float_value cf pid of None \<Rightarrow> (zero32, False) | Some v \<Rightarrow> (v, True)),
     src_Bool = (\<lambda>pid. case bool_value cf pid of None \<Rightarrow> (False, False) | Some v \<Rightarrow> (v, True))\<rparr>"

lemma evaluateOutput_cong:
  "src_Float src (ob_Parameter x) = src_Float src' (ob_Parameter x) \<Longrightarrow> src_Bool src (ob_Parameter x) = src_Bool src' (ob_Parameter x) \<Longrightarrow>
   evaluateOutput x src = evaluateOutput x src'"
  by (simp add: evaluateOutput_def)

lemma wanted_for_parameter: "y \<in> wanted_for specs es pid \<Longrightarrow> ob_Parameter y = pid"
  by (auto simp: wanted_for_def wanted_binary_def direct_output_def binary_output_def)

lemma output_parameter:
  assumes "BuildCatalogFromEndpoints t es (Some specs) gen = Inr cat" "x \<in> set (Outputs cat)"
  shows "ob_Parameter x \<in> bound_parameters specs es"
proof -
  obtain pid where x: "x\<lparr>CacheIndex := 0\<rparr> \<in> wanted_for specs es pid" by (rule built_output [OF assms])
  then have "pid \<in> bound_parameters specs es" using wanted_for_bound by blast
  moreover have "ob_Parameter x = pid" using wanted_for_parameter [OF x] by simp
  ultimately show ?thesis by simp
qed

lemma compiled_outputs:
  assumes "plan_compiled p"
  shows "\<exists>cat ev. ap_catalog p = Some cat \<and> ap_evaluator p = Some ev \<and>
    (\<forall>x \<in> set (Outputs cat). \<forall>cf. evaluateOutput x (snapshot_values (Evaluate ev cf)) = evaluateOutput x (reference_values cf))"
proof -
  obtain t es cat ev where p: "BuildCatalogFromEndpoints t es (Some shipped_catalog) (ap_generation p) = Inr cat" "ap_catalog p = Some cat"
    "ap_evaluator p = Some ev" "ap_ids p = sortedBindingIDs cat" "Compile (ap_ids p) = Some (Inr ev)"
    using assms unfolding plan_compiled_def by blast
  have "evaluateOutput x (snapshot_values (Evaluate ev cf)) = evaluateOutput x (reference_values cf)" if "x \<in> set (Outputs cat)" for x cf
  proof -
    have "ob_Parameter x \<in> set (ap_ids p)" using output_parameter [OF p(1) that] binding_ids(1) [OF p(1)] p(4) by simp
    then show ?thesis using Evaluate_reads [OF p(5), of cf "ob_Parameter x"]
      by (intro evaluateOutput_cong) (simp_all add: snapshot_values_def reference_values_def)
  qed
  then show ?thesis using p(2,3) by blast
qed

text \<open>C27 (refinement). A ready plan holds a catalog and an evaluator that fit together: for every
  frame, what each output of the catalog sends when it reads the evaluator's snapshot is what it
  sends when it reads the reference values of the parameters, so no output lacks its value because
  the plan did not compile its parameter.\<close>

theorem ready_plan_outputs:
  assumes "NewPlanner fs r fallback = Inr p" and "activate_all calls p = Some (q, acts)" and "act \<in> set acts" and "act_Err act = None"
  shows "\<exists>plan cat ev. act_Plan act = Some plan \<and> ap_status plan = StatusReady \<and> ap_catalog plan = Some cat \<and> ap_evaluator plan = Some ev \<and>
    (\<forall>x \<in> set (Outputs cat). \<forall>cf. evaluateOutput x (snapshot_values (Evaluate ev cf)) = evaluateOutput x (reference_values cf))"
proof -
  obtain k where k: "k < length calls" "acts ! k = act"
    using assms(2,3) activate_all_outcome [of p 0 calls] NewPlanner_fresh [OF assms(1)] by (auto simp: in_set_conv_nth)
  then have "activation_at k (snd (snd (calls ! k))) act"
    using assms(2) activate_all_outcome [of p 0 calls] NewPlanner_fresh [OF assms(1)] by auto
  then obtain plan where "act_Plan act = Some plan" "ap_status plan = StatusReady" "plan_compiled plan"
    using assms(4) by (auto simp: activation_at_def activation_ready_def activation_failed_def split: if_splits)
  then show ?thesis using compiled_outputs [of plan] by blast
qed

theorem ready_plan_outputs_witness:
  "\<exists>(plan :: avatar_plan) cat ev. ap_avatarID plan = ''avtr_1'' \<and> ap_catalog plan = Some cat \<and> ap_evaluator plan = Some ev \<and>
    (\<forall>x \<in> set (Outputs cat). \<forall>cf. evaluateOutput x (snapshot_values (Evaluate ev cf)) = evaluateOutput x (reference_values cf))"
proof -
  obtain act where act: "Activate sample_files 0 ''avtr_1'' sample_planner = Some (sample_planner\<lparr>pl_generation := 1\<rparr>, act)"
    "activation_ready 1 ''avtr_1'' act" using sample_activation by blast
  then have run: "activate_all [(sample_files, 0, ''avtr_1'')] sample_planner = Some (sample_planner\<lparr>pl_generation := 1\<rparr>, [act])" by simp
  obtain plan where plan: "act_Plan act = Some plan" "act_Err act = None" "ap_avatarID plan = ''avtr_1''"
    using act(2) by (auto simp: activation_ready_def)
  have "\<exists>plan' cat ev. act_Plan act = Some plan' \<and> ap_status plan' = StatusReady \<and> ap_catalog plan' = Some cat \<and> ap_evaluator plan' = Some ev \<and>
    (\<forall>x \<in> set (Outputs cat). \<forall>cf. evaluateOutput x (snapshot_values (Evaluate ev cf)) = evaluateOutput x (reference_values cf))"
    by (rule ready_plan_outputs [OF sample_new run _ plan(2)]) simp
  then show ?thesis unfolding plan(1) using plan(3) by blast
qed


section \<open>Which configuration is taken\<close>

definition path_below :: "file_system \<Rightarrow> string \<Rightarrow> string list \<Rightarrow> string" where
  \<comment> \<open>the path some names lead to from a directory\<close>
  "path_below fs dir parts = foldl (\<lambda>p part. PathJoin fs [p, part]) dir parts"

definition plain_file :: "file_system \<Rightarrow> string \<Rightarrow> string list \<Rightarrow> file_info \<Rightarrow> bool" where
  \<comment> \<open>the names lead through folders to a regular file, none of them a link\<close>
  "plain_file fs dir parts fi \<longleftrightarrow> parts \<noteq> [] \<and> Lstat fs (path_below fs dir parts) = Inr fi \<and> fi_kind fi = RegularFile \<and>
     (\<forall>n. 0 < n \<and> n < length parts \<longrightarrow> (\<exists>d. Lstat fs (path_below fs dir (take n parts)) = Inr d \<and> fi_kind d = Folder))"

lemma plain_file_Cons:
  "plain_file fs dir (part # parts) fi \<longleftrightarrow> (if parts = [] then Lstat fs (PathJoin fs [dir, part]) = Inr fi \<and> fi_kind fi = RegularFile
     else (\<exists>d. Lstat fs (PathJoin fs [dir, part]) = Inr d \<and> fi_kind d = Folder) \<and> plain_file fs (PathJoin fs [dir, part]) parts fi)"
proof (cases "parts = []")
  case False
  let ?q = "\<lambda>n. \<exists>d. Lstat fs (path_below fs dir (take n (part # parts))) = Inr d \<and> fi_kind d = Folder"
  have step: "(\<forall>n. 0 < n \<and> n < Suc (length parts) \<longrightarrow> ?q n) \<longleftrightarrow> ?q 1 \<and> (\<forall>n. 0 < n \<and> n < length parts \<longrightarrow> ?q (Suc n))" (is "?l \<longleftrightarrow> ?r")
  proof
    assume l: ?l
    have "?q (Suc n)" if "n < length parts" for n using l that by blast
    moreover have "?q 1" using l False by (metis One_nat_def length_greater_0_conv Suc_mono zero_less_Suc)
    ultimately show ?r by blast
  next
    assume r: ?r
    show ?l
    proof (intro allI impI)
      fix n assume n: "0 < n \<and> n < Suc (length parts)"
      show "?q n"
      proof (cases n)
        case (Suc m)
        then show ?thesis using r n by (cases m) auto
      qed (use n in simp)
    qed
  qed
  have below: "path_below fs dir (part # ps) = path_below fs (PathJoin fs [dir, part]) ps" for ps by (simp add: path_below_def)
  have first: "?q 1 \<longleftrightarrow> (\<exists>d. Lstat fs (PathJoin fs [dir, part]) = Inr d \<and> fi_kind d = Folder)" by (simp add: path_below_def)
  show ?thesis using step first False by (simp add: plain_file_def below) blast
qed (auto simp: plain_file_def path_below_def)

lemma inspect_parts_plain: "inspect_parts fs dir parts = Some fi \<longleftrightarrow> plain_file fs dir parts fi"
proof (induction parts arbitrary: dir)
  case (Cons part parts)
  show ?case
    by (auto simp: plain_file_Cons Cons.IH Let_def simp del: plain_file_def split: sum.splits)
qed (simp add: plain_file_def)

definition offers :: "file_system \<Rightarrow> string \<Rightarrow> string \<Rightarrow> string \<times> file_kind \<times> file_kind option \<Rightarrow> string \<times> int \<Rightarrow> bool" where
  \<comment> \<open>a directory entry offers a configuration file with its time: a regular file inside the root, no link on the way\<close>
  "offers fs dir avatarID entry c \<longleftrightarrow> (case entry of (name, kind, info) \<Rightarrow>
     (kind = Folder \<or> kind = Link \<or> info = Some Folder) \<and> AbsClean fs (PathJoin fs [dir, name, ''Avatars'', avatarID @ ''.json'']) = Some (fst c) \<and>
     (\<exists>fi. Lstat fs (fst c) = Inr fi) \<and>
     (\<exists>rel fi. PathRel fs dir (fst c) = Some rel \<and> rel \<noteq> ''..'' \<and> \<not> has_prefix rel (''..'' @ [Separator fs]) \<and>
       plain_file fs dir (split_char (Separator fs) rel) fi \<and> fi_ModTime fi = snd c))"

lemma offers_inspected:
  "offers fs dir avatarID (name, kind, info) c \<longleftrightarrow>
     (kind = Folder \<or> kind = Link \<or> info = Some Folder) \<and> AbsClean fs (PathJoin fs [dir, name, ''Avatars'', avatarID @ ''.json'']) = Some (fst c) \<and>
     isWithinRoot fs dir (fst c) \<and> (\<exists>fi. inspectCandidate fs dir (fst c) = Some fi \<and> fi_ModTime fi = snd c) \<and>
     (\<exists>fi. Lstat fs (fst c) = Inr fi)"
  by (auto simp: offers_def isWithinRoot_def inspectCandidate_def inspect_parts_plain split: option.split)

lemma candidate_step_cases:
  assumes "candidate_step fs dir avatarID entry found = Inr found'"
  shows "(found' = found \<and> (\<forall>c. \<not> offers fs dir avatarID entry c)) \<or> (\<exists>c. found' = found @ [c] \<and> (\<forall>d. offers fs dir avatarID entry d \<longleftrightarrow> d = c))"
proof -
  obtain name kind info where e: "entry = (name, kind, info)" by (cases entry) auto
  show ?thesis
    using assms unfolding e candidate_step_def offers_inspected
    by (auto simp: guard_result_Inr split: if_splits option.splits sum.splits)
qed

lemma candidates_found:
  "fold_result (candidate_step fs dir avatarID) entries found = Inr found' \<Longrightarrow>
   set found' = set found \<union> {c. \<exists>entry \<in> set entries. offers fs dir avatarID entry c}"
proof (induction entries arbitrary: found)
  case (Cons entry entries)
  then obtain mid where mid: "candidate_step fs dir avatarID entry found = Inr mid" "fold_result (candidate_step fs dir avatarID) entries mid = Inr found'"
    by (auto simp: bind_result_Inr)
  have "set mid = set found \<union> {c. offers fs dir avatarID entry c}" using candidate_step_cases [OF mid(1)] by auto
  then show ?case using Cons.IH [OF mid(2)] by auto
qed simp

lemma newest_first:
  fixes found :: "(string \<times> int) list"
  assumes "found \<noteq> []"
  shows "hd (sort_key (\<lambda>c. (- snd c, fst c)) found) \<in> set found"
    "(q, u) \<in> set found \<Longrightarrow> u < snd (hd (sort_key (\<lambda>c. (- snd c, fst c)) found)) \<or>
       u = snd (hd (sort_key (\<lambda>c. (- snd c, fst c)) found)) \<and> fst (hd (sort_key (\<lambda>c. (- snd c, fst c)) found)) \<le> q"
proof -
  let ?s = "sort_key (\<lambda>c. (- snd c, fst c)) found"
  have s: "?s \<noteq> []" using assms by (metis length_0_conv length_sort)
  then show "hd ?s \<in> set found" using hd_in_set [OF s] by simp
  assume "(q, u) \<in> set found"
  then have "(q, u) \<in> set ?s" by simp
  moreover have "sorted (map (\<lambda>c. (- snd c, fst c)) ?s)" by (rule sorted_sort_key)
  ultimately have "(- snd (hd ?s), fst (hd ?s)) \<le> (- u, q)" using s by (cases ?s) auto
  then show "u < snd (hd ?s) \<or> u = snd (hd ?s) \<and> fst (hd ?s) \<le> q" by (auto simp: less_eq_prod_def)
qed

definition newest_offer :: "file_system \<Rightarrow> string \<Rightarrow> string \<Rightarrow> (string \<times> file_kind \<times> file_kind option) list \<Rightarrow> string \<Rightarrow> bool" where
  "newest_offer fs dir avatarID entries path \<longleftrightarrow> (\<exists>t. (\<exists>entry \<in> set entries. offers fs dir avatarID entry (path, t)) \<and>
     (\<forall>entry \<in> set entries. \<forall>q u. offers fs dir avatarID entry (q, u) \<longrightarrow> u < t \<or> u = t \<and> path \<le> q))"

text \<open>C29 (safety). The configuration taken for an avatar that is not a local test avatar is one of the
  files the directories below the OSC root offer for it: a regular file inside the root that is
  reached from it through folders only, never through a link; it is the newest of them, the first
  by path where times agree, whatever the order in which the directory lists them, and it must
  name the avatar. The fallback, a regular file that need not name the avatar, is taken for a
  local test avatar whatever the root holds, and for any other only if the root is missing or no
  directory offers a file.\<close>

theorem configuration_taken:
  assumes "resolveConfig fs oscRoot fallback avatarID = Inr rc"
  shows "(rc_source rc = SourceAvatarConfig \<and> requireIDMatch rc \<and> \<not> has_prefix avatarID ''local:sdk_'' \<and>
      (\<exists>dir entries. AbsClean fs oscRoot = Some dir \<and> ReadDir fs dir = Inr entries \<and> newest_offer fs dir avatarID entries (rc_path rc))) \<or>
    (rc_source rc = SourceFallback \<and> \<not> requireIDMatch rc \<and> AbsClean fs fallback = Some (rc_path rc) \<and>
      (\<exists>fi. Lstat fs (rc_path rc) = Inr fi \<and> fi_kind fi = RegularFile) \<and>
      (has_prefix avatarID ''local:sdk_'' \<or> (\<exists>dir. AbsClean fs oscRoot = Some dir \<and> (ReadDir fs dir = Inl NotExist \<and> Lstat fs dir = Inl NotExist \<or>
        (\<exists>entries. ReadDir fs dir = Inr entries \<and> (\<nexists>c. \<exists>entry \<in> set entries. offers fs dir avatarID entry c))))))"
proof -
  have fallback: "rc_source rc = SourceFallback \<and> \<not> requireIDMatch rc \<and> AbsClean fs fallback = Some (rc_path rc) \<and>
      (\<exists>fi. Lstat fs (rc_path rc) = Inr fi \<and> fi_kind fi = RegularFile)" if "resolveFallback fs fallback = Inr rc"
    using that by (auto simp: resolveFallback_def guard_result_Inr split: if_splits option.splits sum.splits)
  show ?thesis
  proof (cases "has_prefix avatarID ''local:sdk_''")
    case True
    then show ?thesis using assms fallback by (simp add: resolveConfig_def bind_result_Inr)
  next
    case False
    note plain = False
    from False obtain dir where dir: "AbsClean fs oscRoot = Some dir"
      using assms by (auto simp: resolveConfig_def bind_result_Inr split: option.splits)
    show ?thesis
    proof (cases "ReadDir fs dir")
      case (Inl e)
      then have "e = NotExist" "Lstat fs dir = Inl NotExist" "resolveFallback fs fallback = Inr rc"
        using assms False dir by (auto simp: resolveConfig_def bind_result_Inr split: if_splits)
      then show ?thesis using fallback Inl dir by blast
    next
      case (Inr entries)
      then obtain found where found: "fold_result (candidate_step fs dir avatarID) entries [] = Inr found"
        and rc: "(if found = [] then resolveFallback fs fallback
           else Inr \<lparr>rc_path = fst (hd (sort_key (\<lambda>c. (- snd c, fst c)) found)), rc_source = SourceAvatarConfig, requireIDMatch = True\<rparr>) = Inr rc"
        using assms False dir by (auto simp: resolveConfig_def bind_result_Inr)
      have set: "set found = {c. \<exists>entry \<in> set entries. offers fs dir avatarID entry c}" using candidates_found [OF found] by simp
      show ?thesis
      proof (cases "found = []")
        case True
        then show ?thesis using rc set fallback dir Inr by auto
      next
        case False
        let ?c = "hd (sort_key (\<lambda>c. (- snd c, fst c)) found)"
        have "\<exists>entry \<in> set entries. offers fs dir avatarID entry (fst ?c, snd ?c)"
          "\<forall>entry \<in> set entries. \<forall>q u. offers fs dir avatarID entry (q, u) \<longrightarrow> u < snd ?c \<or> u = snd ?c \<and> fst ?c \<le> q"
          using newest_first [OF False] set by auto
        then have "newest_offer fs dir avatarID entries (fst ?c)" unfolding newest_offer_def by blast
        then show ?thesis using rc False dir Inr plain by auto
      qed
    qed
  qed
qed

theorem configuration_taken_witness:
  "resolveConfig sample_files ''/osc'' [] ''avtr_1'' =
     Inr \<lparr>rc_path = ''/osc/usr_1/Avatars/avtr_1.json'', rc_source = SourceAvatarConfig, requireIDMatch = True\<rparr> \<and>
   newest_offer sample_files ''/osc'' ''avtr_1'' [(''readme'', RegularFile, Some RegularFile), (''usr_1'', Folder, Some Folder)]
     ''/osc/usr_1/Avatars/avtr_1.json''"
proof -
  have "SourceAvatarConfig \<noteq> SourceFallback" by (simp add: SourceAvatarConfig_def SourceFallback_def)
  then show ?thesis using configuration_taken [OF sample_resolves] sample_resolves by (simp add: sample_files_def)
qed

end
