(* ===== verification/Application.thy ===== *)
theory Application
  imports OscRuntime AvatarPlans Events PipelineRuns
begin

text \<open>
  internal/application: the parts the coordinator is built from. The clock it stamps frames with,
  the texts of its errors, the status store with its subscribers, and the probe that tells which
  parameters of the avatar are driven.
\<close>

section \<open>The clock\<close>

record monotonic_clock =
  mc_last :: int
  mc_hasLast :: bool

definition newMonotonicClock :: monotonic_clock where
  "newMonotonicClock = \<lparr>mc_last = 0, mc_hasLast = False\<rparr>"

definition clock_sample :: "int \<Rightarrow> bool \<Rightarrow> monotonic_clock \<Rightarrow> int \<times> monotonic_clock" where
  "clock_sample wall strict c =
    (if \<not> mc_hasLast c then (wall, c\<lparr>mc_last := wall, mc_hasLast := True\<rparr>)
     else let nowNS = (if wall < mc_last c then mc_last c else wall);
              nowNS = (if strict \<and> nowNS \<le> mc_last c \<and> mc_last c < max_int64 then i64 (mc_last c + 1) else nowNS)
          in (nowNS, c\<lparr>mc_last := nowNS\<rparr>))"

definition clock_now :: "int \<Rightarrow> bool \<Rightarrow> monotonic_clock \<Rightarrow> int \<times> monotonic_clock" where
  \<comment> \<open>with what the wall clock shows\<close>
  "clock_now wall strict c = clock_sample wall strict c"

definition clock_observe :: "int \<Rightarrow> monotonic_clock \<Rightarrow> int \<times> monotonic_clock" where
  "clock_observe wall c = clock_sample wall False c"

definition clock_advance :: "int \<Rightarrow> monotonic_clock \<Rightarrow> int \<times> monotonic_clock" where
  "clock_advance wall c = clock_sample wall True c"

section \<open>Texts\<close>

definition replacement_rune :: string where
  "replacement_rune = map char_of [0xEF, 0xBF, 0xBD :: int]"

function to_valid_utf8 :: "bool \<Rightarrow> string \<Rightarrow> string" where
  \<comment> \<open>strings.ToValidUTF8: each run of invalid bytes is replaced once; whether one is running\<close>
  "to_valid_utf8 bad s = (if s = [] then [] else let w = utf8_width s in
     if w = 0 then (if bad then [] else replacement_rune) @ to_valid_utf8 True (tl s)
     else take w s @ to_valid_utf8 False (drop w s))"
  by pat_completeness auto
termination by (relation "measure (length \<circ> snd)") auto

declare to_valid_utf8.simps [simp del]

function fields_from :: "string \<Rightarrow> string \<Rightarrow> string list" where
  \<comment> \<open>strings.Fields, with the word so far\<close>
  "fields_from word s = (if s = [] then (if word = [] then [] else [word])
     else case List.find (\<lambda>r. prefix r s) space_runes of
       Some r \<Rightarrow> (if word = [] then [] else [word]) @ fields_from [] (drop (length r) s)
     | None \<Rightarrow> fields_from (word @ [hd s]) (tl s))"
  by pat_completeness auto
termination
proof (relation "measure (length \<circ> snd)")
  fix s r :: string
  assume "s \<noteq> []" "List.find (\<lambda>r. prefix r s) space_runes = Some r"
  then have "r \<noteq> []" using space_runes_nonempty by (auto simp: find_Some_iff)
  then show "(([], drop (length r) s), (word, s)) \<in> measure (length \<circ> snd)" for word using \<open>s \<noteq> []\<close> by (cases r; cases s) auto
qed auto

declare fields_from.simps [simp del]

fun join_words :: "string list \<Rightarrow> string" where
  "join_words [] = []"
| "join_words [w] = w"
| "join_words (w # ws) = w @ '' '' @ join_words ws"

function chop_invalid :: "string \<Rightarrow> string" where
  "chop_invalid s = (if s = [] \<or> valid_utf8 s then s else chop_invalid (butlast s))"
  by pat_completeness auto
termination by (relation "measure length") auto

declare chop_invalid.simps [simp del]

definition coordinatorErrorMessage :: "string option \<Rightarrow> string" where
  "coordinatorErrorMessage e = (case e of None \<Rightarrow> [] | Some t \<Rightarrow>
     (let message = join_words (fields_from [] (to_valid_utf8 False t))
      in if 512 < length message then chop_invalid (take 512 message) else message))"

definition sanitizedPluginControlFailure :: "string \<Rightarrow> string" where
  "sanitizedPluginControlFailure e =
    (let message = join_words (fields_from [] (to_valid_utf8 False e))
     in if length message \<le> 512 then message else chop_invalid (take 512 message))"

section \<open>The drive probe\<close>

record drive_status =
  ds_Name :: string
  Driven :: bool

record drive_entry =
  de_id :: nat
  de_name :: string
  de_inputs :: inputs
  de_value :: value_type

definition drive_step :: "drive_entry list option \<Rightarrow> nat \<Rightarrow> drive_entry list option" where
  \<comment> \<open>one round of newParameterDriveProbe's loop; none for its error\<close>
  "drive_step entries pid = (case entries of None \<Rightarrow> None | Some es \<Rightarrow>
     if es \<noteq> [] \<and> de_id (last es) = pid then Some es
     else case ResolveLeaves pid of
       Some (Inr i) \<Rightarrow> (case Definition pid of None \<Rightarrow> None
         | Some d \<Rightarrow> Some (es @ [\<lparr>de_id = pid, de_name = OSCName d, de_inputs = i, de_value = pd_ValueType d\<rparr>]))
     | _ \<Rightarrow> None)"

definition newParameterDriveProbe :: "nat list \<Rightarrow> drive_entry list option" where
  "newParameterDriveProbe ids = foldl drive_step (Some []) (sort ids)"

definition entry_driven :: "merged_frame \<Rightarrow> canonical_frame \<Rightarrow> snapshot \<Rightarrow> drive_entry \<Rightarrow> bool" where
  "entry_driven f cf values e =
    (let i = de_inputs e;
         needEye = in_Eye i \<noteq> 0 \<or> active_states_has (in_Active i) ActiveStateEyeTracking;
         needExpression = \<not> mask_is_zero (in_Expressions i) \<or> active_states_has (in_Active i) ActiveStateExpressionTracking;
         needLip = active_states_has (in_Active i) ActiveStateLipTracking;
         requiredEye = RequiredEyeValid i
     in if needEye \<and> (\<not> EyeActive cf \<or> \<not> cap_has (mf_Capabilities f) CapabilityEye \<or> EyeSourceID f = []) then False
        else if needExpression \<and> (\<not> ExpressionActive cf \<or> \<not> cap_has (mf_Capabilities f) CapabilityExpression \<or> ExpressionSourceID f = []) then False
        else if needLip \<and> (\<not> LipActive cf \<or> \<not> cap_has (mf_Capabilities f) CapabilityLip \<or> LipSourceID f = []) then False
        else if eye_Valid (mf_Eye f) AND requiredEye \<noteq> requiredEye then False
        else if mask_intersect (exp_Valid (mf_Expressions f)) (in_Expressions i) \<noteq> in_Expressions i then False
        else if de_value e = ValueFloat then snd (snapshot_Float values (de_id e))
        else if de_value e = ValueBool then snd (snapshot_Bool values (de_id e)) else False)"

definition probe_Evaluate :: "drive_entry list \<Rightarrow> merged_frame \<Rightarrow> canonical_frame \<Rightarrow> snapshot \<Rightarrow> drive_status list" where
  "probe_Evaluate entries f cf values = map (\<lambda>e. \<lparr>ds_Name = de_name e, Driven = entry_driven f cf values e\<rparr>) entries"

section \<open>The status\<close>

type_synonym lifecycle_state = string

definition LifecycleCreated :: lifecycle_state where "LifecycleCreated = ''created''"
definition LifecycleStarting :: lifecycle_state where "LifecycleStarting = ''starting''"
definition LifecycleRunning :: lifecycle_state where "LifecycleRunning = ''running''"
definition LifecycleDegraded :: lifecycle_state where "LifecycleDegraded = ''degraded''"
definition LifecycleClosing :: lifecycle_state where "LifecycleClosing = ''closing''"
definition LifecycleClosed :: lifecycle_state where "LifecycleClosed = ''closed''"

lemmas lifecycle_names = LifecycleCreated_def LifecycleStarting_def LifecycleRunning_def LifecycleDegraded_def LifecycleClosing_def LifecycleClosed_def

record control_failure =
  pcf_PluginID :: string
  pcf_Operation :: string
  pcf_Message :: string

record osc_status =
  os_Running :: bool
  os_Connected :: bool
  os_HasTarget :: bool
  os_TargetMode :: string
  os_Host :: string
  os_Port :: int
  os_LastError :: string

record app_status =
  as_Revision :: u64
  as_UpdatedAt :: int
  as_Lifecycle :: lifecycle_state
  as_AvatarID :: string
  as_AvatarName :: string
  as_PlanGeneration :: u64
  as_PlanStatus :: u8
  as_PlanSource :: source
  as_PlanParameters :: "drive_status list"
  as_ConfigPath :: string
  as_ConfigID :: string
  as_GenerationExhausted :: bool
  as_OSC :: osc_status
  as_PluginFailures :: "control_failure list"
  as_PlanError :: string
  as_RuntimeError :: string

record status_store =
  st_current :: app_status
  st_subscribers :: "(nat \<times> app_status option) list" \<comment> \<open>channels of capacity one\<close>

definition nextRevision :: "u64 \<Rightarrow> u64" where
  "nextRevision current = (if current = 0 then 1 else if current = max_u64 then max_u64 else current + 1)"

definition status_offer :: "app_status \<Rightarrow> app_status option \<Rightarrow> app_status option" where
  \<comment> \<open>offerLatestLocked\<close>
  "status_offer v ch = fst (try_send v (snd (try_recv ch)))"

definition status_update :: "int \<Rightarrow> (app_status \<Rightarrow> app_status) \<Rightarrow> status_store \<Rightarrow> status_store" where
  \<comment> \<open>at the time the clock shows\<close>
  "status_update wall f s =
    (let new = (f (st_current s))\<lparr>as_Revision := nextRevision (as_Revision (st_current s)), as_UpdatedAt := wall\<rparr>;
         new = (if as_UpdatedAt new < as_UpdatedAt (st_current s) then new\<lparr>as_UpdatedAt := as_UpdatedAt (st_current s)\<rparr> else new)
     in s\<lparr>st_current := new, st_subscribers := map (\<lambda>(i, ch). (i, status_offer new ch)) (st_subscribers s)\<rparr>)"

definition status_subscribe :: "nat \<Rightarrow> status_store \<Rightarrow> status_store" where
  "status_subscribe i s = s\<lparr>st_subscribers := (i, status_offer (st_current s) None) # st_subscribers s\<rparr>"

definition status_unsubscribe :: "nat \<Rightarrow> status_store \<Rightarrow> status_store" where
  "status_unsubscribe i s = s\<lparr>st_subscribers := AList.delete i (st_subscribers s)\<rparr>"

definition lifecycleForStatus :: "app_status \<Rightarrow> lifecycle_state" where
  "lifecycleForStatus s =
    (if as_Lifecycle s = LifecycleClosing \<or> as_Lifecycle s = LifecycleClosed then as_Lifecycle s
     else if as_GenerationExhausted s \<or> as_PlanError s \<noteq> [] \<or> as_RuntimeError s \<noteq> [] \<or> as_PluginFailures s \<noteq> [] then LifecycleDegraded
     else LifecycleRunning)"

interpretation status: latest_slot None status_offer try_recv "\<lambda>ch. ch" "\<lambda>_. True"
  by unfold_locales (simp_all add: status_offer_def try_recv_def try_send_def)

end
