(* ===== verification/Coordinator.thy ===== *)
theory Coordinator
  imports Application
begin

text \<open>
  internal/application: install.go, which moves the plugins, the tracking service and the send
  runtime over to a new plan, and coordinator.go, the loop that activates plans, processes frames
  and publishes what they evaluate to. The plugin manager is a function that answers a control
  call, knowing the calls before it; the wording of errors is a parameter.
\<close>

section \<open>Errors\<close>

datatype coordinator_error =
    PlanFailed avatar_error | AdvanceFailed u64 tracking_error | InstallFailed u64 runtime_failure | ProcessFailed u64 processing_error
  | GenerationMismatch u64 u64 | NoEvaluator u64 | RecoverFailed u64 runtime_failure | PublishFailed u64 runtime_failure
  | OSCFailed string

section \<open>Installing a plan\<close>

datatype plugin_call = SetActiveCall string bool | UpdateSubscriptionCall string subscription

type_synonym call_log = "(plugin_call \<times> string option) list" \<comment> \<open>with the error of the call\<close>

type_synonym plugin_control = "call_log \<Rightarrow> plugin_call \<Rightarrow> string option"

record install_outcome =
  io_plan :: "avatar_plan option"
  io_planErr :: "coordinator_error option"
  io_runtimeErr :: "coordinator_error option"
  io_pluginFailures :: "control_failure list"
  io_exhausted :: bool
  io_catalogReady :: bool
  io_outputBlocked :: bool

record installation = \<comment> \<open>what install works on\<close>
  in_calls :: call_log
  in_failed :: "string list"
  in_outcome :: install_outcome

definition addPluginFailure :: "string \<Rightarrow> string \<Rightarrow> string \<Rightarrow> install_outcome \<Rightarrow> install_outcome" where
  "addPluginFailure pluginID operation err out = out\<lparr>io_pluginFailures := io_pluginFailures out @
     [\<lparr>pcf_PluginID = pluginID, pcf_Operation = operation, pcf_Message = sanitizedPluginControlFailure err\<rparr>]\<rparr>"

definition installer_control :: "plugin_control \<Rightarrow> plugin_call \<Rightarrow> installation \<Rightarrow> string option \<times> installation" where
  "installer_control answers c s = (let e = answers (in_calls s) c in (e, s\<lparr>in_calls := in_calls s @ [(c, e)]\<rparr>))"

definition installer_failure :: "string \<Rightarrow> string \<Rightarrow> string \<Rightarrow> installation \<Rightarrow> installation" where
  "installer_failure pluginID operation err s = s\<lparr>in_outcome := addPluginFailure pluginID operation err (in_outcome s)\<rparr>"

definition sortedPlugins :: "runtime_snapshot list \<Rightarrow> runtime_snapshot list" where
  "sortedPlugins snapshots = sort_key rs_ID snapshots"

definition deactivate_step :: "plugin_control \<Rightarrow> runtime_snapshot \<Rightarrow> installation \<Rightarrow> installation" where
  "deactivate_step answers plugin s = (case installer_control answers (SetActiveCall (rs_ID plugin) False) s of
     (None, s) \<Rightarrow> s
   | (Some err, s) \<Rightarrow> installer_failure (rs_ID plugin) ''deactivate'' err (s\<lparr>in_failed := rs_ID plugin # in_failed s\<rparr>))"

definition deactivateAll :: "plugin_control \<Rightarrow> runtime_snapshot list \<Rightarrow> installation \<Rightarrow> installation" where
  "deactivateAll answers plugins s = fold (deactivate_step answers) plugins s"

definition compensate :: "plugin_control \<Rightarrow> string \<Rightarrow> installation \<Rightarrow> installation" where
  "compensate answers pluginID s = (case installer_control answers (SetActiveCall pluginID False) s of
     (None, s) \<Rightarrow> s
   | (Some err, s) \<Rightarrow> (let s = installer_failure pluginID ''deactivate'' err s in s\<lparr>in_outcome := in_outcome s\<lparr>io_outputBlocked := True\<rparr>\<rparr>))"

definition activate_step :: "plugin_control \<Rightarrow> avatar_plan \<Rightarrow> runtime_snapshot \<Rightarrow> installation \<Rightarrow> installation" where
  \<comment> \<open>one round of install's loop\<close>
  "activate_step answers p plugin s =
    (if rs_ID plugin \<in> set (in_failed s) then s
     else case SubscriptionFor p (rs_Capabilities plugin) of None \<Rightarrow> s
     | Some sub \<Rightarrow> (case installer_control answers (UpdateSubscriptionCall (rs_ID plugin) sub) s of
         (Some err, s) \<Rightarrow> installer_failure (rs_ID plugin) ''subscription'' err s
       | (None, s) \<Rightarrow> (case installer_control answers (SetActiveCall (rs_ID plugin) True) s of
           (None, s) \<Rightarrow> s
         | (Some err, s) \<Rightarrow> compensate answers (rs_ID plugin) (installer_failure (rs_ID plugin) ''activate'' err s))))"

definition has_outputs :: "osc_catalog option \<Rightarrow> bool" where
  "has_outputs c \<longleftrightarrow> (case c of None \<Rightarrow> False | Some c \<Rightarrow> oc_Bindings c \<noteq> [])"

definition install_catalog :: "avatar_plan \<Rightarrow> installation \<Rightarrow> send_runtime \<Rightarrow> send_runtime \<times> install_outcome" where
  \<comment> \<open>the end of install\<close>
  "install_catalog p s rt =
    (if io_outputBlocked (in_outcome s) then (rt, in_outcome s)
     else case installExternal (ap_catalog p) rt of
       (rt, Some e) \<Rightarrow> (rt, (in_outcome s)\<lparr>io_runtimeErr := Some (InstallFailed (ap_generation p) e)\<rparr>)
     | (rt, None) \<Rightarrow> (rt, (in_outcome s)\<lparr>io_catalogReady := True\<rparr>))"

definition install_plan :: "plugin_control \<Rightarrow> runtime_snapshot list \<Rightarrow> avatar_plan \<Rightarrow> installation \<Rightarrow> service \<Rightarrow> send_runtime \<Rightarrow>
    service \<times> send_runtime \<times> call_log \<times> install_outcome" where
  "install_plan answers plugins p s svc rt =
    (case SetGeneration (ap_generation p) svc of
       (Inl e, svc) \<Rightarrow>
         let s = deactivateAll answers plugins (s\<lparr>in_outcome := (in_outcome s)\<lparr>io_runtimeErr := Some (AdvanceFailed (ap_generation p) e)\<rparr>\<rparr>)
         in (svc, rt, in_calls s, in_outcome s)
     | (Inr _, svc) \<Rightarrow>
         let s = deactivateAll answers plugins s
         in if ap_status p \<noteq> StatusReady \<or> \<not> has_outputs (ap_catalog p) then (svc, rt, in_calls s, in_outcome s)
            else let s = fold (activate_step answers p) plugins s
              in (case install_catalog p s rt of (rt, out) \<Rightarrow> (svc, rt, in_calls s, out)))"

definition install :: "plugin_control \<Rightarrow> runtime_snapshot list \<Rightarrow> avatar_plan option \<Rightarrow> coordinator_error option \<Rightarrow> call_log \<Rightarrow> service \<Rightarrow> send_runtime \<Rightarrow>
    service \<times> send_runtime \<times> call_log \<times> install_outcome" where
  "install answers listed plan err calls svc rt =
    (let rt = runtime_clear rt;
         plugins = sortedPlugins listed;
         s = \<lparr>in_calls = calls, in_failed = [], in_outcome = \<lparr>io_plan = plan, io_planErr = err, io_runtimeErr = None, io_pluginFailures = [],
           io_exhausted = False, io_catalogReady = False, io_outputBlocked = False\<rparr>\<rparr>
     in case plan of
          None \<Rightarrow> let s = deactivateAll answers plugins (s\<lparr>in_outcome := (in_outcome s)\<lparr>io_exhausted := True\<rparr>\<rparr>)
            in (svc, rt, in_calls s, in_outcome s)
        | Some p \<Rightarrow> install_plan answers plugins p s svc rt)"

section \<open>The coordinator\<close>

record coordinator =
  co_planner :: planner
  co_tracking :: service
  co_pipeline :: "pipeline option"
  co_runtime :: send_runtime
  co_status :: status_store
  co_clock :: monotonic_clock
  co_calls :: call_log
  co_current :: "avatar_plan option"
  driveProbe :: "drive_entry list"
  lastDrivePublishNS :: int
  latest :: merged_frame
  co_hasLatest :: bool
  suspended :: bool
  outputBlocked :: bool
  pluginSessions :: "(string \<times> u64) list"

record surroundings = \<comment> \<open>what the coordinator finds around it while it handles an event\<close>
  su_describe :: "coordinator_error \<Rightarrow> string"
  su_answers :: plugin_control
  su_plugins :: "runtime_snapshot list"
  su_files :: file_system
  su_osc :: osc_status
  su_wall :: int
  su_cancelled :: "nat \<Rightarrow> bool" \<comment> \<open>whether the context is done, at each look\<close>
  su_pow :: "float64 \<Rightarrow> float64 \<Rightarrow> float64"

definition usablePlan :: "avatar_plan option \<Rightarrow> bool" where
  "usablePlan plan = (case plan of None \<Rightarrow> False | Some p \<Rightarrow>
     ap_status p = StatusReady \<and> ap_generation p \<noteq> 0 \<and> ap_evaluator p \<noteq> None \<and>
     (case ap_catalog p of None \<Rightarrow> False | Some cat \<Rightarrow> oc_Bindings cat \<noteq> [] \<and> oc_Generation cat = ap_generation p))"

definition hasUsablePlan :: "u64 \<Rightarrow> coordinator \<Rightarrow> bool" where
  "hasUsablePlan gen c = (\<not> outputBlocked c \<and> usablePlan (co_current c) \<and> (case co_current c of None \<Rightarrow> False | Some p \<Rightarrow> gen = ap_generation p))"

definition update_status :: "surroundings \<Rightarrow> (app_status \<Rightarrow> app_status) \<Rightarrow> coordinator \<Rightarrow> coordinator" where
  \<comment> \<open>c.status.update\<close>
  "update_status env f c = c\<lparr>co_status := status_update (su_wall env) f (co_status c)\<rparr>"

definition error_text :: "surroundings \<Rightarrow> coordinator_error option \<Rightarrow> string" where
  "error_text env e = coordinatorErrorMessage (map_option (su_describe env) e)"

definition with_lifecycle :: "app_status \<Rightarrow> app_status" where
  "with_lifecycle s = s\<lparr>as_Lifecycle := lifecycleForStatus s\<rparr>"

definition failRuntime :: "surroundings \<Rightarrow> coordinator_error \<Rightarrow> coordinator \<Rightarrow> coordinator" where
  "failRuntime env e c = update_status env (\<lambda>s. with_lifecycle (s\<lparr>as_OSC := su_osc env, as_RuntimeError := error_text env (Some e)\<rparr>))
     (c\<lparr>co_runtime := runtime_clear (co_runtime c), suspended := True\<rparr>)"

definition plan_status_fields :: "drive_entry list \<Rightarrow> avatar_plan option \<Rightarrow> string \<Rightarrow> app_status \<Rightarrow> app_status" where
  "plan_status_fields probe plan avatarID s =
    (let s = s\<lparr>as_AvatarID := avatarID, as_AvatarName := [], as_PlanGeneration := 0, as_PlanStatus := 0, as_PlanSource := 0,
       as_PlanParameters := [], as_ConfigPath := [], as_ConfigID := []\<rparr>
     in case plan of None \<Rightarrow> s
     | Some p \<Rightarrow> let s = s\<lparr>as_AvatarID := ap_avatarID p, as_AvatarName := ap_avatarName p, as_PlanGeneration := ap_generation p,
           as_PlanStatus := ap_status p, as_PlanSource := ap_source p, as_ConfigPath := ap_configPath p, as_ConfigID := ap_configID p\<rparr>
         in if usablePlan plan then s\<lparr>as_PlanParameters := map (\<lambda>e. \<lparr>ds_Name = de_name e, Driven = False\<rparr>) probe\<rparr> else s)"

definition publishInstallStatus :: "surroundings \<Rightarrow> string \<Rightarrow> install_outcome \<Rightarrow> coordinator \<Rightarrow> coordinator" where
  "publishInstallStatus env avatarID out c = update_status env (\<lambda>s. with_lifecycle ((plan_status_fields (driveProbe c) (io_plan out) avatarID s)\<lparr>
     as_GenerationExhausted := io_exhausted out, as_PluginFailures := io_pluginFailures out, as_PlanError := error_text env (io_planErr out),
     as_RuntimeError := error_text env (io_runtimeErr out), as_OSC := su_osc env\<rparr>)) c"

definition adopt_plan :: "install_outcome \<Rightarrow> coordinator \<Rightarrow> coordinator" where
  \<comment> \<open>what activate keeps of the outcome\<close>
  "adopt_plan out c = c\<lparr>co_current := io_plan out,
     driveProbe := (case io_plan out of None \<Rightarrow> [] | Some p \<Rightarrow> if usablePlan (io_plan out) then (case newParameterDriveProbe (ap_ids p) of None \<Rightarrow> [] | Some es \<Rightarrow> es) else []),
     lastDrivePublishNS := 0, outputBlocked := io_outputBlocked out,
     suspended := \<not> io_outputBlocked out \<and> io_runtimeErr out \<noteq> None \<and> usablePlan (io_plan out)\<rparr>"

definition coordinator_activate :: "surroundings \<Rightarrow> string \<Rightarrow> coordinator \<Rightarrow> coordinator option" where
  \<comment> \<open>coordinator.activate; none if the planner did not return\<close>
  "coordinator_activate env avatarID c =
    (if su_cancelled env 0 then Some c
     else case Activate (su_files env) (su_wall env) avatarID (co_planner c) of None \<Rightarrow> None
     | Some (pl, current) \<Rightarrow>
         if su_cancelled env 1 then Some (c\<lparr>co_planner := pl\<rparr>)
         else (case install (su_answers env) (su_plugins env) (act_Plan current) (map_option PlanFailed (act_Err current)) (co_calls c) (co_tracking c) (co_runtime c) of
           (svc, rt, calls, out) \<Rightarrow> Some (publishInstallStatus env avatarID out
             (adopt_plan out (c\<lparr>co_planner := pl, co_tracking := svc, co_runtime := rt, co_calls := calls\<rparr>)))))"

definition refreshDriveStatus :: "surroundings \<Rightarrow> merged_frame \<Rightarrow> canonical_frame \<Rightarrow> snapshot \<Rightarrow> int \<Rightarrow> coordinator \<Rightarrow> coordinator" where
  "refreshDriveStatus env f cf vals nowNS c =
    (if driveProbe c = [] then c
     else let new = probe_Evaluate (driveProbe c) f cf vals
       in if as_PlanParameters (st_current (co_status c)) = new then c
          else if lastDrivePublishNS c \<noteq> 0 \<and> i64 (nowNS - lastDrivePublishNS c) < 1000000000 then c
          else (update_status env (\<lambda>s. if as_PlanGeneration s = Generation f then s\<lparr>as_PlanParameters := new\<rparr> else s) c)\<lparr>lastDrivePublishNS := nowNS\<rparr>)"

definition published_status :: "surroundings \<Rightarrow> coordinator \<Rightarrow> coordinator" where
  \<comment> \<open>the end of process\<close>
  "published_status env c =
    (let c = c\<lparr>suspended := False\<rparr>; previous = st_current (co_status c)
     in if as_OSC previous \<noteq> su_osc env \<or> as_RuntimeError previous \<noteq> [] \<or> as_Lifecycle previous \<noteq> lifecycleForStatus previous
        then update_status env (\<lambda>s. with_lifecycle (s\<lparr>as_OSC := su_osc env, as_RuntimeError := []\<rparr>)) c else c)"

definition publish_values :: "surroundings \<Rightarrow> u64 \<Rightarrow> snapshot \<Rightarrow> coordinator \<Rightarrow> coordinator" where
  "publish_values env gen vals c = (case runtime_publish gen (Some (snapshot_values vals)) (co_runtime c) of
     (rt, Some e) \<Rightarrow> failRuntime env (PublishFailed gen e) (c\<lparr>co_runtime := rt\<rparr>)
   | (rt, None) \<Rightarrow> published_status env (c\<lparr>co_runtime := rt\<rparr>))"

definition recover_catalog :: "avatar_plan \<Rightarrow> coordinator \<Rightarrow> coordinator \<times> runtime_failure option" where
  "recover_catalog p c = (if suspended c then (case installExternal (ap_catalog p) (co_runtime c) of (rt, e) \<Rightarrow> (c\<lparr>co_runtime := rt\<rparr>, e)) else (c, None))"

definition deliver_frame :: "surroundings \<Rightarrow> avatar_plan \<Rightarrow> merged_frame \<Rightarrow> canonical_frame \<Rightarrow> int \<Rightarrow> coordinator \<Rightarrow> coordinator" where
  "deliver_frame env p f cf nowNS c = (case ap_evaluator p of
     None \<Rightarrow> failRuntime env (NoEvaluator (ap_generation p)) c
   | Some ev \<Rightarrow> let vals = Evaluate ev cf in
       (case recover_catalog p (refreshDriveStatus env f cf vals nowNS c) of
          (c, Some e) \<Rightarrow> failRuntime env (RecoverFailed (ap_generation p) e) c
        | (c, None) \<Rightarrow> publish_values env (ap_generation p) vals c))"

definition process_current :: "surroundings \<Rightarrow> avatar_plan \<Rightarrow> merged_frame \<Rightarrow> int \<Rightarrow> coordinator \<Rightarrow> coordinator" where
  "process_current env p f nowNS c = (case ProcessAt (su_pow env) f nowNS (co_pipeline c) of
     (Inl e, pl) \<Rightarrow> failRuntime env (ProcessFailed (ap_generation p) e) (c\<lparr>co_pipeline := pl\<rparr>)
   | (Inr cf, pl) \<Rightarrow>
       if cf_Generation cf \<noteq> ap_generation p then failRuntime env (GenerationMismatch (cf_Generation cf) (ap_generation p)) (c\<lparr>co_pipeline := pl\<rparr>)
       else deliver_frame env p f cf nowNS (c\<lparr>co_pipeline := pl\<rparr>))"

definition coordinator_process :: "surroundings \<Rightarrow> merged_frame \<Rightarrow> int \<Rightarrow> coordinator \<Rightarrow> coordinator" where
  \<comment> \<open>coordinator.process\<close>
  "coordinator_process env f nowNS c =
    (if su_cancelled env 0 \<or> \<not> hasUsablePlan (Generation f) c then c
     else case co_current c of None \<Rightarrow> c | Some p \<Rightarrow> process_current env p f nowNS c)"

definition on_merged :: "surroundings \<Rightarrow> merged_frame \<Rightarrow> coordinator \<Rightarrow> coordinator" where
  \<comment> \<open>run: a merged frame\<close>
  "on_merged env f c = (case clock_now (su_wall env) True (co_clock c) of (nowNS, clk) \<Rightarrow>
     coordinator_process env f nowNS (c\<lparr>latest := f, co_hasLatest := True, co_clock := clk\<rparr>))"

definition on_tick :: "surroundings \<Rightarrow> int \<Rightarrow> coordinator \<Rightarrow> coordinator" where
  \<comment> \<open>run: a tick\<close>
  "on_tick env tick c = (if co_hasLatest c then (case clock_advance tick (co_clock c) of (nowNS, clk) \<Rightarrow>
     coordinator_process env (latest c) nowNS (c\<lparr>co_clock := clk\<rparr>)) else c)"

definition event_plugin :: "event \<Rightarrow> string" where
  "event_plugin e = (if ev_PluginID e = [] then (case ev_Snapshot e of None \<Rightarrow> [] | Some s \<Rightarrow> rs_ID s) else ev_PluginID e)"

definition note_session :: "string \<Rightarrow> u64 \<Rightarrow> (string \<times> u64) list \<Rightarrow> bool \<times> bool \<times> (string \<times> u64) list" where
  \<comment> \<open>whether the session changed, whether it is stale, and the sessions afterwards\<close>
  "note_session pluginID session sessions =
    (if session = 0 then (False, False, sessions)
     else case map_of sessions pluginID of
       None \<Rightarrow> (False, False, AList.update pluginID session sessions)
     | Some previous \<Rightarrow> if session < previous then (False, True, sessions)
         else if previous < session then (True, False, AList.update pluginID session sessions) else (False, False, sessions))"

definition observePlugin :: "event \<Rightarrow> coordinator \<Rightarrow> coordinator" where
  \<comment> \<open>the sessions' lock is released before the source is removed; nothing else writes the sessions, so the two are one step\<close>
  "observePlugin e c =
    (let pluginID = event_plugin e in
     if ev_Type e = EventPluginRemoved
     then c\<lparr>pluginSessions := AList.delete pluginID (pluginSessions c), co_tracking := RemoveSource pluginID (co_tracking c)\<rparr>
     else case ev_Snapshot e of None \<Rightarrow> c
     | Some s \<Rightarrow> (case note_session pluginID (SessionID s) (pluginSessions c) of (moved, stale, sessions) \<Rightarrow>
         let c = c\<lparr>pluginSessions := sessions\<rparr>
         in if stale then c
            else if moved \<or> rs_State s \<noteq> ''running'' \<or> \<not> rs_Active s then c\<lparr>co_tracking := RemoveSource pluginID (co_tracking c)\<rparr> else c))"

definition observeOSC :: "surroundings \<Rightarrow> string option \<Rightarrow> coordinator \<Rightarrow> coordinator" where
  \<comment> \<open>with the text of the event's error, if its kind is EventError\<close>
  "observeOSC env err c = update_status env (\<lambda>s. let s = s\<lparr>as_OSC := su_osc env\<rparr> in
     case err of None \<Rightarrow> s | Some t \<Rightarrow> with_lifecycle (s\<lparr>as_RuntimeError := coordinatorErrorMessage (Some t)\<rparr>)) c"

text \<open>
  The select of run takes one of these steps. The sender works between them, on the same runtime,
  and the tracking service takes frames of its own.
\<close>

inductive coordinator_step :: "coordinator \<Rightarrow> coordinator \<Rightarrow> bool" where
  avatar_changed: "coordinator_activate env avatarID c = Some c' \<Longrightarrow> coordinator_step c c'"
| osc_event: "coordinator_step c (observeOSC env err c)"
| plugin_event: "coordinator_step c (observePlugin e c)"
| merged_event: "is_i64 (su_wall env) \<Longrightarrow> coordinator_step c (on_merged env f c)"
| tick_event: "is_i64 tick \<Longrightarrow> coordinator_step c (on_tick env tick c)"
| sender_sends: "coordinator_step c (c\<lparr>co_runtime := fst (runtime_sends tx (co_runtime c))\<rparr>)"
| sender_resets: "coordinator_step c (c\<lparr>co_runtime := resetChangeDetection (co_runtime c)\<rparr>)"
| tracking_moves: "coordinator_step c (c\<lparr>co_tracking := svc\<rparr>)"

definition initial_coordinator :: "planner \<Rightarrow> service \<Rightarrow> pipeline option \<Rightarrow> sender \<Rightarrow> app_status \<Rightarrow> coordinator" where
  "initial_coordinator pl svc pipe sender0 s = \<lparr>co_planner = pl, co_tracking = svc, co_pipeline = pipe,
     co_runtime = newSendRuntime sender0 CatalogExternal None, co_status = \<lparr>st_current = s, st_subscribers = []\<rparr>, co_clock = newMonotonicClock,
     co_calls = [], co_current = None, driveProbe = [], lastDrivePublishNS = 0, latest = empty_merged, co_hasLatest = False,
     suspended = False, outputBlocked = False, pluginSessions = []\<rparr>"

abbreviation coordinated :: "coordinator \<Rightarrow> coordinator \<Rightarrow> bool" where
  "coordinated \<equiv> coordinator_step\<^sup>*\<^sup>*"

section \<open>The runtime through an installation\<close>

definition runtime_empty :: "send_runtime \<Rightarrow> bool" where
  "runtime_empty rt \<longleftrightarrow> run_source rt = None \<and> run_generation rt = 0 \<and> runtime_catalog rt = None"

definition runtime_holds :: "avatar_plan \<Rightarrow> send_runtime \<Rightarrow> bool" where
  "runtime_holds p rt \<longleftrightarrow> runtime_catalog rt = ap_catalog p \<and> run_generation rt = ap_generation p"

lemma clear_empty [simp]: "runtime_empty (runtime_clear rt)"
  by (simp add: runtime_empty_def)

lemma installExternal_external:
  assumes "run_mode rt = CatalogExternal" "installExternal cat rt = (rt', e)"
  shows "run_mode rt' = CatalogExternal" "e = None \<Longrightarrow> \<exists>c. cat = Some c \<and> oc_Generation c \<noteq> 0 \<and> run_generation rt' = oc_Generation c \<and>
      runtime_catalog rt' = Some c \<and> run_source rt' = None" "e \<noteq> None \<Longrightarrow> rt' = rt"
    "e = None \<longleftrightarrow> (\<exists>c. cat = Some c \<and> oc_Generation c \<noteq> 0)"
  using assms by (auto simp: installExternal_def validRuntimeCatalog_def runtime_catalog_def split: option.splits if_splits)

definition outcome_kept :: "installation \<Rightarrow> installation \<Rightarrow> bool" where
  "outcome_kept s s' \<longleftrightarrow> io_plan (in_outcome s') = io_plan (in_outcome s) \<and> io_planErr (in_outcome s') = io_planErr (in_outcome s) \<and>
     io_runtimeErr (in_outcome s') = io_runtimeErr (in_outcome s) \<and> io_exhausted (in_outcome s') = io_exhausted (in_outcome s) \<and>
     io_catalogReady (in_outcome s') = io_catalogReady (in_outcome s)"

lemma outcome_kept_fold: "(\<And>x s. outcome_kept s (f x s)) \<Longrightarrow> outcome_kept s (fold f xs s)"
proof (induction xs arbitrary: s)
  case (Cons x xs)
  then show ?case using Cons.prems [of s x] Cons.IH [of "f x s"] by (simp add: outcome_kept_def)
qed (simp add: outcome_kept_def)

lemmas installer_steps = installer_control_def installer_failure_def addPluginFailure_def compensate_def Let_def

lemma deactivate_kept: "outcome_kept s (deactivate_step answers x s)" "io_outputBlocked (in_outcome (deactivate_step answers x s)) = io_outputBlocked (in_outcome s)"
  by (simp_all add: deactivate_step_def installer_steps outcome_kept_def split: option.split)

lemma activate_kept: "outcome_kept s (activate_step answers p x s)"
  by (simp add: activate_step_def installer_steps outcome_kept_def split: option.split)

lemma deactivateAll_kept:
  "outcome_kept s (deactivateAll answers xs s)" "io_outputBlocked (in_outcome (deactivateAll answers xs s)) = io_outputBlocked (in_outcome s)"
proof -
  show "outcome_kept s (deactivateAll answers xs s)" unfolding deactivateAll_def by (rule outcome_kept_fold) (rule deactivate_kept)
  show "io_outputBlocked (in_outcome (deactivateAll answers xs s)) = io_outputBlocked (in_outcome s)"
    unfolding deactivateAll_def by (induction xs arbitrary: s) (simp_all add: deactivate_kept)
qed

definition installed :: "avatar_plan option \<Rightarrow> send_runtime \<Rightarrow> install_outcome \<Rightarrow> bool" where
  "installed plan rt out \<longleftrightarrow> run_mode rt = CatalogExternal \<and> io_plan out = plan \<and>
     (if io_catalogReady out then \<not> io_outputBlocked out \<and> io_runtimeErr out = None \<and> run_source rt = None \<and>
        (\<exists>p c. plan = Some p \<and> ap_status p = StatusReady \<and> ap_catalog p = Some c \<and> oc_Bindings c \<noteq> [] \<and> oc_Generation c \<noteq> 0 \<and>
           runtime_catalog rt = Some c \<and> run_generation rt = oc_Generation c)
      else runtime_empty rt \<and> (usablePlan plan \<longrightarrow> io_outputBlocked out \<or> io_runtimeErr out \<noteq> None))"

lemma install_catalog_installed:
  assumes "run_mode rt = CatalogExternal" "runtime_empty rt" "io_plan (in_outcome s) = Some p" "io_runtimeErr (in_outcome s) = None"
    "\<not> io_catalogReady (in_outcome s)" "ap_status p = StatusReady" "has_outputs (ap_catalog p)" "install_catalog p s rt = (rt', out)"
  shows "installed (Some p) rt' out"
proof (cases "io_outputBlocked (in_outcome s)")
  case True
  then show ?thesis using assms by (auto simp: install_catalog_def installed_def)
next
  case False
  obtain rt1 e where i: "installExternal (ap_catalog p) rt = (rt1, e)" by (cases "installExternal (ap_catalog p) rt") auto
  obtain c where c: "ap_catalog p = Some c" "oc_Bindings c \<noteq> []" using assms(7) by (auto simp: has_outputs_def split: option.splits)
  show ?thesis
    using installExternal_external [OF assms(1) i] False i c assms by (cases e) (auto simp: install_catalog_def installed_def)
qed

lemma install_installed:
  assumes "run_mode rt = CatalogExternal" "install answers listed plan err calls svc rt = (svc', rt', calls', out)"
  shows "installed plan rt' out"
proof (cases plan)
  case None
  then show ?thesis
    using assms deactivateAll_kept(1) by (auto simp: install_def Let_def installed_def outcome_kept_def usablePlan_def)
next
  case (Some p)
  let ?rt = "runtime_clear rt"
  let ?xs = "sortedPlugins listed"
  let ?s = "\<lparr>in_calls = calls, in_failed = [], in_outcome = \<lparr>io_plan = plan, io_planErr = err, io_runtimeErr = None, io_pluginFailures = [],
           io_exhausted = False, io_catalogReady = False, io_outputBlocked = False\<rparr>\<rparr>"
  have i: "install_plan answers ?xs p ?s svc ?rt = (svc', rt', calls', out)" using assms(2) Some by (simp add: install_def Let_def)
  have mode: "run_mode ?rt = CatalogExternal" using assms(1) by simp
  obtain r svc1 where g: "SetGeneration (ap_generation p) svc = (r, svc1)" by fastforce
  show ?thesis
  proof (cases r)
    case (Inl e)
    let ?s' = "?s\<lparr>in_outcome := (in_outcome ?s)\<lparr>io_runtimeErr := Some (AdvanceFailed (ap_generation p) e)\<rparr>\<rparr>"
    have "rt' = ?rt" "out = in_outcome (deactivateAll answers ?xs ?s')" using i g Inl by (simp_all add: install_plan_def Let_def)
    then show ?thesis using deactivateAll_kept(1) [of ?s' answers ?xs] mode by (simp add: installed_def outcome_kept_def)
  next
    case (Inr u)
    let ?d = "deactivateAll answers ?xs ?s"
    have d: "outcome_kept ?s ?d" by (rule deactivateAll_kept)
    show ?thesis
    proof (cases "ap_status p \<noteq> StatusReady \<or> \<not> has_outputs (ap_catalog p)")
      case True
      then have "rt' = ?rt" "out = in_outcome ?d" using i g Inr by (simp_all add: install_plan_def Let_def)
      moreover have "\<not> usablePlan plan" using True Some by (auto simp: usablePlan_def has_outputs_def split: option.splits)
      ultimately show ?thesis using d mode by (simp add: installed_def outcome_kept_def)
    next
      case False
      let ?f = "fold (activate_step answers p) ?xs ?d"
      have "outcome_kept ?d ?f" by (rule outcome_kept_fold) (rule activate_kept)
      then have "outcome_kept ?s ?f" using d by (simp add: outcome_kept_def)
      moreover have "install_catalog p ?f ?rt = (rt', out)"
        using i g Inr False by (cases "install_catalog p ?f ?rt") (simp add: install_plan_def Let_def)
      ultimately have "installed (Some p) rt' out"
        using False mode Some by (intro install_catalog_installed [of ?rt ?f p rt' out]) (simp_all add: outcome_kept_def)
      then show ?thesis using Some by simp
    qed
  qed
qed

section \<open>The runtime holds the current plan\<close>

lemma Send_catalog: "snd_catalog (fst (Send tx src s)) = snd_catalog s"
proof -
  have commits: "snd_catalog (fold (\<lambda>(i, v). commit i v) ps s) = snd_catalog s" for ps s
    by (induction ps arbitrary: s) (auto simp: commit_def)
  have flush: "snd_catalog (fst (flushBundle tx s)) = snd_catalog s" for s
    by (simp add: flushBundle_def transmit_def Let_def commits)
  have single: "snd_catalog (fst (send_single tx i a v s)) = snd_catalog s" for i a v s
    by (simp add: send_single_def transmit_def commit_def Let_def split: sum.split)
  have append: "append_pending i a v s = Inr (b, s') \<Longrightarrow> snd_catalog s' = snd_catalog s" for i a v s b s'
    by (auto simp: append_pending_def bind_result_Inr split: if_splits)
  have item: "snd_catalog (fst (bundle_item tx i a v s)) = snd_catalog s" for i a v s
  proof -
    have flush': "flushBundle tx s = (s', e) \<Longrightarrow> snd_catalog s' = snd_catalog s" for s s' e using flush [of s] by simp
    show ?thesis by (auto simp: bundle_item_def single append split: sum.split prod.split option.split bool.split dest!: flush' append)
  qed
  have standalone: "snd_catalog (fst (sendStandalone tx src xs s)) = snd_catalog s" for src xs s
  proof (induction xs arbitrary: s)
    case (Cons x xs)
    obtain i b where x: "x = (i, b)" by fastforce
    have "send_single tx i (ob_Address b) v s = (s', e) \<Longrightarrow> snd_catalog s' = snd_catalog s" for v s' e
      using single [of i "ob_Address b" v s] by simp
    then show ?case using Cons x by (auto split: sum.split option.split prod.split)
  qed simp
  have bundles: "snd_catalog (fst (bundle_loop tx src xs s)) = snd_catalog s" for src xs s
  proof (induction xs arbitrary: s)
    case (Cons x xs)
    obtain i b where x: "x = (i, b)" by fastforce
    have "bundle_item tx i (ob_Address b) v s = (s', e) \<Longrightarrow> snd_catalog s' = snd_catalog s" for v s' e
      using item [of i "ob_Address b" v s] by simp
    then show ?case using Cons x by (auto split: sum.split option.split prod.split)
  qed (simp add: flush)
  show ?thesis
    by (auto simp: Send_def sendBundle_def standalone bundles split: option.split)
qed

lemma runtime_sends_keeps:
  "run_source (fst (runtime_sends tx rt)) = run_source rt" "run_generation (fst (runtime_sends tx rt)) = run_generation rt"
  "run_mode (fst (runtime_sends tx rt)) = run_mode rt" "runtime_catalog (fst (runtime_sends tx rt)) = runtime_catalog rt"
  using Send_catalog [of tx _ "run_sender rt"]
  by (auto simp: runtime_sends_def runtime_catalog_def split: option.split prod.split) (metis fst_conv)

definition values_of_plan :: "avatar_plan \<Rightarrow> value_source \<Rightarrow> bool" where
  "values_of_plan p v \<longleftrightarrow> (\<exists>ev cf pow f nowNS pipe pipe'. ap_evaluator p = Some ev \<and> v = snapshot_values (Evaluate ev cf) \<and>
     cf_Generation cf = ap_generation p \<and> Generation f = ap_generation p \<and> ProcessAt pow f nowNS pipe = (Inr cf, pipe'))"

definition runtime_current :: "coordinator \<Rightarrow> bool" where
  "runtime_current c \<longleftrightarrow> run_mode (co_runtime c) = CatalogExternal \<and>
     (runtime_empty (co_runtime c) \<or> (\<exists>p. co_current c = Some p \<and> usablePlan (co_current c) \<and> \<not> outputBlocked c \<and> runtime_holds p (co_runtime c) \<and>
        (\<forall>v. run_source (co_runtime c) = Some v \<longrightarrow> values_of_plan p v))) \<and>
     (\<not> runtime_empty (co_runtime c) \<or> suspended c \<or> outputBlocked c \<or> \<not> usablePlan (co_current c))"

definition plans_compiled :: "coordinator \<Rightarrow> bool" where
  "plans_compiled c \<longleftrightarrow> pl_specs (co_planner c) = shipped_catalog \<and>
     (\<forall>p. co_current c = Some p \<longrightarrow> ap_status p = StatusReady \<longrightarrow> plan_compiled p)"

lemma update_status_keeps [simp]:
  "co_planner (update_status env f c) = co_planner c" "co_tracking (update_status env f c) = co_tracking c" "co_pipeline (update_status env f c) = co_pipeline c"
  "co_runtime (update_status env f c) = co_runtime c" "co_clock (update_status env f c) = co_clock c" "co_calls (update_status env f c) = co_calls c"
  "co_current (update_status env f c) = co_current c" "driveProbe (update_status env f c) = driveProbe c"
  "lastDrivePublishNS (update_status env f c) = lastDrivePublishNS c" "latest (update_status env f c) = latest c"
  "co_hasLatest (update_status env f c) = co_hasLatest c" "suspended (update_status env f c) = suspended c"
  "outputBlocked (update_status env f c) = outputBlocked c" "pluginSessions (update_status env f c) = pluginSessions c"
  by (simp_all add: update_status_def)

definition same_plan :: "coordinator \<Rightarrow> coordinator \<Rightarrow> bool" where
  \<comment> \<open>everything a frame may change is the runtime, the pipeline, the status and suspension\<close>
  "same_plan c c' \<longleftrightarrow> co_planner c' = co_planner c \<and> co_tracking c' = co_tracking c \<and> co_calls c' = co_calls c \<and> co_current c' = co_current c \<and>
     driveProbe c' = driveProbe c \<and> outputBlocked c' = outputBlocked c \<and> pluginSessions c' = pluginSessions c \<and> co_clock c' = co_clock c"

lemma same_plan_rules [simp]:
  "same_plan c c" "same_plan c (update_status env f c') \<longleftrightarrow> same_plan c c'" "same_plan c (c'\<lparr>co_runtime := rt\<rparr>) \<longleftrightarrow> same_plan c c'"
  "same_plan c (c'\<lparr>suspended := b\<rparr>) \<longleftrightarrow> same_plan c c'" "same_plan c (c'\<lparr>co_pipeline := pl\<rparr>) \<longleftrightarrow> same_plan c c'"
  "same_plan c (c'\<lparr>lastDrivePublishNS := t\<rparr>) \<longleftrightarrow> same_plan c c'" "same_plan c (failRuntime env e c') \<longleftrightarrow> same_plan c c'"
  "same_plan c (published_status env c') \<longleftrightarrow> same_plan c c'"
  by (auto simp: same_plan_def failRuntime_def published_status_def Let_def)

lemma refreshDriveStatus_keeps [simp]:
  "same_plan c (refreshDriveStatus env f cf vals nowNS c') \<longleftrightarrow> same_plan c c'" "co_runtime (refreshDriveStatus env f cf vals nowNS c) = co_runtime c"
  "suspended (refreshDriveStatus env f cf vals nowNS c) = suspended c" "co_pipeline (refreshDriveStatus env f cf vals nowNS c) = co_pipeline c"
  by (auto simp: refreshDriveStatus_def Let_def same_plan_def)

lemma failRuntime_keeps [simp]:
  "co_runtime (failRuntime env e c) = runtime_clear (co_runtime c)" "suspended (failRuntime env e c)" "co_pipeline (failRuntime env e c) = co_pipeline c"
  by (simp_all add: failRuntime_def)

lemma published_status_keeps [simp]:
  "co_runtime (published_status env c) = co_runtime c" "\<not> suspended (published_status env c)" "co_pipeline (published_status env c) = co_pipeline c"
  by (simp_all add: published_status_def Let_def)

lemma deliver_same_plan [simp]: "same_plan d (deliver_frame env p f cf nowNS c) \<longleftrightarrow> same_plan d c"
  by (auto simp: deliver_frame_def recover_catalog_def publish_values_def Let_def split: option.split prod.split if_splits)

lemma process_same_plan: "same_plan c (coordinator_process env f nowNS c)"
  by (auto simp: coordinator_process_def process_current_def split: option.split prod.split sum.split)

lemma runtime_current_frame:
  assumes "same_plan c c'" "run_mode (co_runtime c') = CatalogExternal"
    and "runtime_empty (co_runtime c') \<and> suspended c' \<or> (\<exists>p. co_current c = Some p \<and> usablePlan (co_current c) \<and> \<not> outputBlocked c \<and>
      runtime_holds p (co_runtime c') \<and> (\<forall>v. run_source (co_runtime c') = Some v \<longrightarrow> values_of_plan p v))"
  shows "runtime_current c'"
proof -
  have "usablePlan (Some p) \<Longrightarrow> runtime_holds p rt \<Longrightarrow> \<not> runtime_empty rt" for p rt
    by (auto simp: usablePlan_def runtime_holds_def runtime_empty_def)
  then show ?thesis using assms unfolding runtime_current_def same_plan_def by auto
qed

lemma publish_values_current:
  assumes "co_current c = Some p" "usablePlan (co_current c)" "\<not> outputBlocked c" "run_mode (co_runtime c) = CatalogExternal"
    "runtime_holds p (co_runtime c)" "values_of_plan p (snapshot_values vals)"
  shows "run_source (co_runtime (publish_values env (ap_generation p) vals c)) = Some (snapshot_values vals)"
    "runtime_holds p (co_runtime (publish_values env (ap_generation p) vals c))"
    "run_mode (co_runtime (publish_values env (ap_generation p) vals c)) = CatalogExternal"
    "\<not> suspended (publish_values env (ap_generation p) vals c)"
proof -
  have "ap_generation p \<noteq> 0" using assms(1,2) by (simp add: usablePlan_def)
  then have "runtime_publish (ap_generation p) (Some (snapshot_values vals)) (co_runtime c) = ((co_runtime c)\<lparr>run_source := Some (snapshot_values vals)\<rparr>, None)"
    using assms(4,5) by (simp add: runtime_publish_def runtime_holds_def)
  then have p: "publish_values env (ap_generation p) vals c = published_status env (c\<lparr>co_runtime := (co_runtime c)\<lparr>run_source := Some (snapshot_values vals)\<rparr>\<rparr>)"
    by (simp add: publish_values_def)
  show "run_source (co_runtime (publish_values env (ap_generation p) vals c)) = Some (snapshot_values vals)"
    "runtime_holds p (co_runtime (publish_values env (ap_generation p) vals c))"
    "run_mode (co_runtime (publish_values env (ap_generation p) vals c)) = CatalogExternal"
    "\<not> suspended (publish_values env (ap_generation p) vals c)"
    using assms(4,5) unfolding p by (simp_all add: runtime_holds_def runtime_catalog_def)
qed

lemma recover_holds:
  assumes "co_current c = Some p" "usablePlan (co_current c)" "\<not> outputBlocked c" "runtime_current c"
  shows "snd (recover_catalog p c) = None" "same_plan c (fst (recover_catalog p c))" "runtime_holds p (co_runtime (fst (recover_catalog p c)))"
    "run_mode (co_runtime (fst (recover_catalog p c))) = CatalogExternal"
proof -
  obtain cat where cat: "ap_catalog p = Some cat" "oc_Generation cat = ap_generation p" "ap_generation p \<noteq> 0"
    using assms(1,2) by (auto simp: usablePlan_def split: option.splits)
  have mode: "run_mode (co_runtime c) = CatalogExternal" using assms(4) by (simp add: runtime_current_def)
  obtain rt e where i: "installExternal (ap_catalog p) (co_runtime c) = (rt, e)" by fastforce
  have e: "e = None" using installExternal_external(4) [OF mode i] cat by simp
  note new = installExternal_external(1,2) [OF mode i]
  have held: "\<not> suspended c \<Longrightarrow> runtime_holds p (co_runtime c)"
    using assms unfolding runtime_current_def by auto
  show "snd (recover_catalog p c) = None" "same_plan c (fst (recover_catalog p c))" "runtime_holds p (co_runtime (fst (recover_catalog p c)))"
    "run_mode (co_runtime (fst (recover_catalog p c))) = CatalogExternal"
    using i e new held mode cat by (auto simp: recover_catalog_def runtime_holds_def)
qed

lemma usable_keeps: "same_plan c c' \<Longrightarrow> co_current c' = co_current c \<and> outputBlocked c' = outputBlocked c"
  by (simp add: same_plan_def)

lemma refresh_current: "runtime_current (refreshDriveStatus env f cf vals nowNS c) \<longleftrightarrow> runtime_current c"
proof -
  have "same_plan c (refreshDriveStatus env f cf vals nowNS c)" by simp
  then show ?thesis by (simp add: runtime_current_def same_plan_def)
qed

lemma deliver_publishes:
  assumes p: "co_current c = Some p" "usablePlan (co_current c)" "\<not> outputBlocked c" and "runtime_current c"
    and cf: "ap_evaluator p = Some ev" "cf_Generation cf = ap_generation p" "Generation f = ap_generation p" "ProcessAt pow f nowNS pipe = (Inr cf, pipe')"
  shows "run_source (co_runtime (deliver_frame env p f cf nowNS c)) = Some (snapshot_values (Evaluate ev cf))"
    "runtime_holds p (co_runtime (deliver_frame env p f cf nowNS c))" "run_mode (co_runtime (deliver_frame env p f cf nowNS c)) = CatalogExternal"
    "\<not> suspended (deliver_frame env p f cf nowNS c)"
proof -
  let ?vals = "Evaluate ev cf"
  let ?c = "refreshDriveStatus env f cf ?vals nowNS c"
  let ?d = "fst (recover_catalog p ?c)"
  have c: "co_current ?c = Some p" "usablePlan (co_current ?c)" "\<not> outputBlocked ?c" "runtime_current ?c"
    using p usable_keeps [of c ?c] assms(4) refresh_current by simp_all
  note r = recover_holds [OF c]
  have d: "co_current ?d = Some p" "usablePlan (co_current ?d)" "\<not> outputBlocked ?d"
    using usable_keeps [OF r(2)] c by simp_all
  have v: "values_of_plan p (snapshot_values ?vals)" using cf unfolding values_of_plan_def by blast
  have "deliver_frame env p f cf nowNS c = publish_values env (ap_generation p) ?vals ?d"
    using r(1) cf(1) by (auto simp: deliver_frame_def Let_def split: prod.split option.split)
  then show "run_source (co_runtime (deliver_frame env p f cf nowNS c)) = Some (snapshot_values (Evaluate ev cf))"
    "runtime_holds p (co_runtime (deliver_frame env p f cf nowNS c))" "run_mode (co_runtime (deliver_frame env p f cf nowNS c)) = CatalogExternal"
    "\<not> suspended (deliver_frame env p f cf nowNS c)"
    using publish_values_current [OF d r(4,3) v] by simp_all
qed

lemma lifecycle_idem [simp]: "lifecycleForStatus (s\<lparr>as_Lifecycle := lifecycleForStatus s\<rparr>) = lifecycleForStatus s"
  by (simp add: lifecycleForStatus_def)

lemma lifecycle_cong [simp]:
  "lifecycleForStatus (s\<lparr>as_Revision := n\<rparr>) = lifecycleForStatus s" "lifecycleForStatus (s\<lparr>as_UpdatedAt := t\<rparr>) = lifecycleForStatus s"
  by (simp_all add: lifecycleForStatus_def)

lemma published_status_clean:
  "as_RuntimeError (st_current (co_status (published_status env c))) = [] \<and>
   as_Lifecycle (st_current (co_status (published_status env c))) = lifecycleForStatus (st_current (co_status (published_status env c)))"
  by (auto simp: published_status_def update_status_def status_update_def with_lifecycle_def Let_def lifecycleForStatus_def)

lemma delivered_status:
  assumes "ap_evaluator p = Some ev" "\<not> suspended (deliver_frame env p f cf nowNS c)"
  shows "as_RuntimeError (st_current (co_status (deliver_frame env p f cf nowNS c))) = [] \<and>
    as_Lifecycle (st_current (co_status (deliver_frame env p f cf nowNS c))) = lifecycleForStatus (st_current (co_status (deliver_frame env p f cf nowNS c)))"
  using assms published_status_clean
  by (auto simp: deliver_frame_def publish_values_def Let_def split: prod.splits option.splits)

lemma process_usable:
  assumes "hasUsablePlan (Generation f) c" "\<not> su_cancelled env 0"
  obtains p ev where "co_current c = Some p" "usablePlan (co_current c)" "\<not> outputBlocked c" "Generation f = ap_generation p"
    "ap_evaluator p = Some ev" "coordinator_process env f nowNS c = process_current env p f nowNS c"
proof -
  obtain p where p: "co_current c = Some p" "usablePlan (co_current c)" "\<not> outputBlocked c" "Generation f = ap_generation p"
    using assms(1) by (auto simp: hasUsablePlan_def usablePlan_def split: option.splits)
  obtain ev where ev: "ap_evaluator p = Some ev" using p(1,2) by (auto simp: usablePlan_def)
  show ?thesis by (rule that [OF p ev]) (use assms p(1) in \<open>simp add: coordinator_process_def\<close>)
qed

lemma ProcessAt_generation:
  assumes "ProcessAt pow f nowNS pipe = (Inr cf, pipe')"
  shows "cf_Generation cf = Generation f"
proof -
  obtain p p' where p: "pipe = Some p" "pipe' = Some p'" using assms by (cases pipe) (auto simp: ProcessAt_def split: sum.splits)
  show ?thesis using ProcessAt_forward [OF assms [unfolded p]] by simp
qed

lemma failed_current: "runtime_current c \<Longrightarrow> runtime_current (failRuntime env e (c\<lparr>co_pipeline := pl\<rparr>))"
  by (rule runtime_current_frame [of c]) (simp_all add: runtime_current_def)

lemma process_current_state:
  assumes "runtime_current c"
  shows "runtime_current (coordinator_process env f nowNS c)"
proof (cases "hasUsablePlan (Generation f) c \<and> \<not> su_cancelled env 0")
  case True
  then have u: "hasUsablePlan (Generation f) c" "\<not> su_cancelled env 0" by simp_all
  obtain p ev where p: "co_current c = Some p" "usablePlan (co_current c)" "\<not> outputBlocked c" "Generation f = ap_generation p"
    "ap_evaluator p = Some ev" and c: "coordinator_process env f nowNS c = process_current env p f nowNS c"
    by (rule process_usable [OF u, where nowNS = nowNS])
  obtain r pl where r: "ProcessAt (su_pow env) f nowNS (co_pipeline c) = (r, pl)" by fastforce
  show ?thesis
  proof (cases r)
    case (Inl e)
    then show ?thesis using c r failed_current [OF assms] by (simp add: process_current_def)
  next
    case (Inr cf)
    let ?c = "c\<lparr>co_pipeline := pl\<rparr>"
    have ok: "ProcessAt (su_pow env) f nowNS (co_pipeline c) = (Inr cf, pl)" using r Inr by simp
    have gen: "cf_Generation cf = ap_generation p" using ProcessAt_generation [OF ok] p(4) by simp
    have c': "co_current ?c = Some p" "usablePlan (co_current ?c)" "\<not> outputBlocked ?c" "runtime_current ?c"
      using p assms by (simp_all add: runtime_current_def)
    note d = deliver_publishes [OF c' p(5) gen p(4) ok, where env = env]
    have v: "values_of_plan p (snapshot_values (Evaluate ev cf))" unfolding values_of_plan_def using p gen ok by blast
    have "coordinator_process env f nowNS c = deliver_frame env p f cf nowNS ?c" using c ok gen by (simp add: process_current_def)
    then show ?thesis using runtime_current_frame [of c "deliver_frame env p f cf nowNS ?c"] d p v by simp
  qed
qed (use assms in \<open>auto simp: coordinator_process_def\<close>)

lemma built_generation: "BuildCatalogFromEndpoints t es (Some specs) gen = Inr cat \<Longrightarrow> oc_Generation cat = gen"
  by (cases "fold (bind_endpoint specs) es ([], [])") (auto simp: BuildCatalogFromEndpoints_def result_iffs Let_def)

lemma compiled_plan_fits: "plan_compiled p \<Longrightarrow> ap_catalog p = Some cat \<Longrightarrow> oc_Generation cat = ap_generation p \<and> ap_evaluator p \<noteq> None"
  unfolding plan_compiled_def using built_generation by fastforce

lemma activate_current:
  assumes "runtime_current c" "plans_compiled c" "coordinator_activate env avatarID c = Some c'"
  shows "runtime_current c' \<and> plans_compiled c'"
proof -
  obtain pl act where act: "Activate (su_files env) (su_wall env) avatarID (co_planner c) = Some (pl, act)" "pl_specs pl = shipped_catalog"
    "\<And>p. act_Plan act = Some p \<Longrightarrow> ap_status p = StatusReady \<Longrightarrow> plan_compiled p"
    using Activate_outcome [of "co_planner c" "su_files env" "su_wall env" avatarID] assms(2)
    by (fastforce simp: plans_compiled_def activation_ready_def activation_failed_def StatusReady_def StatusFailed_def split: if_splits)
  consider "su_cancelled env 0" | "\<not> su_cancelled env 0" "su_cancelled env 1" | "\<not> su_cancelled env 0" "\<not> su_cancelled env 1" by blast
  then show ?thesis
  proof cases
    case 3
    obtain svc rt calls out where i: "install (su_answers env) (su_plugins env) (act_Plan act) (map_option PlanFailed (act_Err act)) (co_calls c)
        (co_tracking c) (co_runtime c) = (svc, rt, calls, out)" by (metis prod_cases4)
    let ?c = "adopt_plan out (c\<lparr>co_planner := pl, co_tracking := svc, co_runtime := rt, co_calls := calls\<rparr>)"
    have c': "c' = publishInstallStatus env avatarID out ?c" using assms(3) act 3 i by (simp add: coordinator_activate_def)
    then have same: "co_planner c' = pl" "co_current c' = io_plan out" "outputBlocked c' = io_outputBlocked out" "co_runtime c' = rt"
      "suspended c' = (\<not> io_outputBlocked out \<and> io_runtimeErr out \<noteq> None \<and> usablePlan (io_plan out))"
      by (simp_all add: publishInstallStatus_def adopt_plan_def)
    have inst: "installed (act_Plan act) rt out"
      by (rule install_installed [OF _ i]) (use assms(1) in \<open>simp add: runtime_current_def\<close>)
    then have plan: "io_plan out = act_Plan act" "run_mode rt = CatalogExternal" by (simp_all add: installed_def)
    have "runtime_current c'"
    proof (cases "io_catalogReady out")
      case True
      then obtain p cat where p: "act_Plan act = Some p" "ap_status p = StatusReady" "ap_catalog p = Some cat" "oc_Bindings cat \<noteq> []"
        "oc_Generation cat \<noteq> 0" "runtime_catalog rt = Some cat" "run_generation rt = oc_Generation cat" "run_source rt = None" "\<not> io_outputBlocked out"
        using inst unfolding installed_def by auto
      have "oc_Generation cat = ap_generation p" "ap_evaluator p \<noteq> None"
        using compiled_plan_fits [OF act(3) [OF p(1,2)] p(3)] by simp_all
      then have "usablePlan (Some p)" "runtime_holds p rt" using p by (simp_all add: usablePlan_def runtime_holds_def)
      moreover have "\<not> runtime_empty rt" using p by (simp add: runtime_empty_def)
      ultimately show ?thesis using same plan p by (auto simp: runtime_current_def)
    next
      case False
      then show ?thesis using inst same plan unfolding installed_def runtime_current_def by auto
    qed
    moreover have "plans_compiled c'" using same plan act by (simp add: plans_compiled_def)
    ultimately show ?thesis by blast
  qed (use assms act in \<open>auto simp: coordinator_activate_def runtime_current_def plans_compiled_def\<close>)
qed

lemma runtime_current_cong:
  "co_runtime c' = co_runtime c \<Longrightarrow> co_current c' = co_current c \<Longrightarrow> outputBlocked c' = outputBlocked c \<Longrightarrow> suspended c' = suspended c \<Longrightarrow>
   runtime_current c' = runtime_current c"
  by (simp add: runtime_current_def)

lemma plans_compiled_same: "same_plan c c' \<Longrightarrow> plans_compiled c' = plans_compiled c"
  by (simp add: plans_compiled_def same_plan_def)

lemma runtime_current_runtime:
  assumes "runtime_current c" "run_source rt = run_source (co_runtime c)" "run_generation rt = run_generation (co_runtime c)"
    "run_mode rt = run_mode (co_runtime c)" "runtime_catalog rt = runtime_catalog (co_runtime c)"
  shows "runtime_current (c\<lparr>co_runtime := rt\<rparr>)"
  using assms by (simp add: runtime_current_def runtime_empty_def runtime_holds_def)

lemma observePlugin_keeps:
  "co_runtime (observePlugin e c) = co_runtime c" "co_current (observePlugin e c) = co_current c" "outputBlocked (observePlugin e c) = outputBlocked c"
  "suspended (observePlugin e c) = suspended c" "co_planner (observePlugin e c) = co_planner c" "co_status (observePlugin e c) = co_status c"
  "co_clock (observePlugin e c) = co_clock c" "co_pipeline (observePlugin e c) = co_pipeline c" "lastDrivePublishNS (observePlugin e c) = lastDrivePublishNS c"
  by (auto simp: observePlugin_def Let_def split: option.split prod.split)

lemma coordinator_step_current:
  assumes "coordinator_step c c'" "runtime_current c \<and> plans_compiled c"
  shows "runtime_current c' \<and> plans_compiled c'"
  using assms
proof (induction rule: coordinator_step.induct)
  case (avatar_changed env avatarID c c')
  then show ?case using activate_current by blast
next
  case (osc_event c env err)
  then show ?case by (simp add: observeOSC_def plans_compiled_def runtime_current_def)
next
  case (plugin_event c e)
  then show ?case using runtime_current_cong [of "observePlugin e c" c] by (simp add: observePlugin_keeps plans_compiled_def)
next
  case (merged_event env c f)
  obtain nowNS clk where k: "clock_now (su_wall env) True (co_clock c) = (nowNS, clk)" by fastforce
  let ?c = "c\<lparr>latest := f, co_hasLatest := True, co_clock := clk\<rparr>"
  have "runtime_current ?c" "plans_compiled ?c" using merged_event by (simp_all add: runtime_current_def plans_compiled_def)
  then show ?case using process_current_state plans_compiled_same [OF process_same_plan] k by (simp add: on_merged_def)
next
  case (tick_event tick c env)
  obtain nowNS clk where k: "clock_advance tick (co_clock c) = (nowNS, clk)" by fastforce
  let ?c = "c\<lparr>co_clock := clk\<rparr>"
  have "runtime_current ?c" "plans_compiled ?c" using tick_event by (simp_all add: runtime_current_def plans_compiled_def)
  then show ?case using process_current_state plans_compiled_same [OF process_same_plan] k tick_event by (simp add: on_tick_def)
next
  case (sender_sends c tx)
  then show ?case using runtime_current_runtime [of c] by (simp add: runtime_sends_keeps plans_compiled_def)
next
  case (sender_resets c)
  then show ?case using runtime_current_runtime [of c] by (simp add: plans_compiled_def)
next
  case (tracking_moves c svc)
  then show ?case by (simp add: runtime_current_def plans_compiled_def)
qed

lemma initial_current:
  assumes "NewPlanner fs r fallback = Inr pl"
  shows "runtime_current (initial_coordinator pl svc pipe (newParameterSender transport epsilon limit bundles) s) \<and>
    plans_compiled (initial_coordinator pl svc pipe (newParameterSender transport epsilon limit bundles) s)"
  using NewPlanner_fresh [OF assms]
  by (simp add: initial_coordinator_def runtime_current_def plans_compiled_def runtime_empty_def newSendRuntime_def usablePlan_def
      runtime_catalog_def newParameterSender_def Let_def)

lemma coordinated_current:
  assumes "NewPlanner fs r fallback = Inr pl"
    and "coordinated (initial_coordinator pl svc pipe (newParameterSender transport epsilon limit bundles) s) c"
  shows "runtime_current c" "plans_compiled c"
proof -
  have "runtime_current c \<and> plans_compiled c"
    using assms(2) by (induction rule: rtranclp_induct) (use initial_current [OF assms(1)] coordinator_step_current in \<open>blast+\<close>)
  then show "runtime_current c" "plans_compiled c" by simp_all
qed

section \<open>The calls of an installation\<close>

fun call_failure :: "plugin_call \<times> string option \<Rightarrow> control_failure option" where
  "call_failure (_, None) = None"
| "call_failure (SetActiveCall i on, Some err) = Some \<lparr>pcf_PluginID = i, pcf_Operation = if on then ''activate'' else ''deactivate'', pcf_Message = sanitizedPluginControlFailure err\<rparr>"
| "call_failure (UpdateSubscriptionCall i _, Some err) = Some \<lparr>pcf_PluginID = i, pcf_Operation = ''subscription'', pcf_Message = sanitizedPluginControlFailure err\<rparr>"

definition failures_of :: "call_log \<Rightarrow> control_failure list" where
  "failures_of calls = List.map_filter call_failure calls"

definition block_ok :: "avatar_plan \<Rightarrow> string set \<Rightarrow> runtime_snapshot \<Rightarrow> call_log \<Rightarrow> bool" where
  \<comment> \<open>the calls made to activate one plugin\<close>
  "block_ok p failed plugin b \<longleftrightarrow>
    (if rs_ID plugin \<in> failed then b = [] else case SubscriptionFor p (rs_Capabilities plugin) of None \<Rightarrow> b = []
     | Some sub \<Rightarrow> let u = UpdateSubscriptionCall (rs_ID plugin) sub; on = SetActiveCall (rs_ID plugin) True; off = SetActiveCall (rs_ID plugin) False in
         (\<exists>e. b = [(u, Some e)]) \<or> b = [(u, None), (on, None)] \<or> (\<exists>e r. b = [(u, None), (on, Some e), (off, r)]))"

definition block_stuck :: "call_log \<Rightarrow> bool" where
  \<comment> \<open>activating failed and so did undoing it\<close>
  "block_stuck b \<longleftrightarrow> length b = 3 \<and> snd (last b) \<noteq> None"

definition failed_off :: "call_log \<Rightarrow> string set" where
  "failed_off ds = {i. \<exists>e. (SetActiveCall i False, Some e) \<in> set ds}"

lemma failures_append [simp]: "failures_of (a @ b) = failures_of a @ failures_of b"
  by (simp add: failures_of_def List.map_filter_def)

lemma failures_simps [simp]: "failures_of [] = []" "failures_of ((c, None) # b) = failures_of b"
  "failures_of ((SetActiveCall i on, Some err) # b) =
     \<lparr>pcf_PluginID = i, pcf_Operation = if on then ''activate'' else ''deactivate'', pcf_Message = sanitizedPluginControlFailure err\<rparr> # failures_of b"
  "failures_of ((UpdateSubscriptionCall i sub, Some err) # b) =
     \<lparr>pcf_PluginID = i, pcf_Operation = ''subscription'', pcf_Message = sanitizedPluginControlFailure err\<rparr> # failures_of b"
  by (simp_all add: failures_of_def List.map_filter_def)

lemma deactivate_step_log:
  "\<exists>r. in_calls (deactivate_step answers x s) = in_calls s @ [(SetActiveCall (rs_ID x) False, r)] \<and>
     set (in_failed (deactivate_step answers x s)) = set (in_failed s) \<union> failed_off [(SetActiveCall (rs_ID x) False, r)] \<and>
     io_pluginFailures (in_outcome (deactivate_step answers x s)) = io_pluginFailures (in_outcome s) @ failures_of [(SetActiveCall (rs_ID x) False, r)]"
  by (cases "answers (in_calls s) (SetActiveCall (rs_ID x) False)")
    (auto simp: deactivate_step_def installer_steps failed_off_def)

lemma deactivateAll_log:
  "\<exists>ds. in_calls (deactivateAll answers xs s) = in_calls s @ ds \<and> map fst ds = map (\<lambda>x. SetActiveCall (rs_ID x) False) xs \<and>
     set (in_failed (deactivateAll answers xs s)) = set (in_failed s) \<union> failed_off ds \<and>
     io_pluginFailures (in_outcome (deactivateAll answers xs s)) = io_pluginFailures (in_outcome s) @ failures_of ds"
  unfolding deactivateAll_def
proof (induction xs arbitrary: s)
  case (Cons x xs)
  obtain r where r: "in_calls (deactivate_step answers x s) = in_calls s @ [(SetActiveCall (rs_ID x) False, r)]"
    "set (in_failed (deactivate_step answers x s)) = set (in_failed s) \<union> failed_off [(SetActiveCall (rs_ID x) False, r)]"
    "io_pluginFailures (in_outcome (deactivate_step answers x s)) = io_pluginFailures (in_outcome s) @ failures_of [(SetActiveCall (rs_ID x) False, r)]"
    using deactivate_step_log [of answers x s] by blast
  obtain ds where ds: "in_calls (fold (deactivate_step answers) xs (deactivate_step answers x s)) = in_calls (deactivate_step answers x s) @ ds"
    "map fst ds = map (\<lambda>x. SetActiveCall (rs_ID x) False) xs"
    "set (in_failed (fold (deactivate_step answers) xs (deactivate_step answers x s))) = set (in_failed (deactivate_step answers x s)) \<union> failed_off ds"
    "io_pluginFailures (in_outcome (fold (deactivate_step answers) xs (deactivate_step answers x s))) =
       io_pluginFailures (in_outcome (deactivate_step answers x s)) @ failures_of ds"
    using Cons.IH [of "deactivate_step answers x s"] by blast
  show ?case
  proof (intro exI [of _ "(SetActiveCall (rs_ID x) False, r) # ds"] conjI)
    show "set (in_failed (fold (deactivate_step answers) (x # xs) s)) = set (in_failed s) \<union> failed_off ((SetActiveCall (rs_ID x) False, r) # ds)"
      using ds(3) r(2) by (auto simp: failed_off_def)
    show "io_pluginFailures (in_outcome (fold (deactivate_step answers) (x # xs) s)) =
        io_pluginFailures (in_outcome s) @ failures_of ((SetActiveCall (rs_ID x) False, r) # ds)"
      using ds(4) r(3) failures_append [of "[(SetActiveCall (rs_ID x) False, r)]" ds] by simp
  qed (use ds r in simp_all)
qed (simp add: failed_off_def)

lemma activate_step_log:
  "\<exists>b. block_ok p (set (in_failed s)) x b \<and> in_calls (activate_step answers p x s) = in_calls s @ b \<and>
     in_failed (activate_step answers p x s) = in_failed s \<and>
     io_pluginFailures (in_outcome (activate_step answers p x s)) = io_pluginFailures (in_outcome s) @ failures_of b \<and>
     io_outputBlocked (in_outcome (activate_step answers p x s)) = (io_outputBlocked (in_outcome s) \<or> block_stuck b)"
proof (cases "rs_ID x \<in> set (in_failed s)")
  case True
  then show ?thesis by (simp add: activate_step_def block_ok_def block_stuck_def)
next
  case False
  show ?thesis
  proof (cases "SubscriptionFor p (rs_Capabilities x)")
    case None
    then show ?thesis using False by (simp add: activate_step_def block_ok_def block_stuck_def)
  next
    case (Some sub)
    let ?u = "UpdateSubscriptionCall (rs_ID x) sub"
    let ?on = "SetActiveCall (rs_ID x) True"
    let ?off = "SetActiveCall (rs_ID x) False"
    note steps = activate_step_def installer_steps block_ok_def block_stuck_def
    show ?thesis
    proof (cases "answers (in_calls s) ?u")
      case (Some e)
      then show ?thesis using False \<open>SubscriptionFor _ _ = _\<close> by (intro exI [of _ "[(?u, Some e)]"]) (simp add: steps)
    next
      case None
      note u = None
      show ?thesis
      proof (cases "answers (in_calls s @ [(?u, None)]) ?on")
        case None
        then show ?thesis using False \<open>SubscriptionFor _ _ = _\<close> u by (intro exI [of _ "[(?u, None), (?on, None)]"]) (simp add: steps)
      next
        case (Some e)
        show ?thesis
          using False \<open>SubscriptionFor _ _ = _\<close> u Some
          by (cases "answers (in_calls s @ [(?u, None), (?on, Some e)]) ?off")
            (auto simp: steps intro!: exI [of _ "[(?u, None), (?on, Some e), (?off, answers (in_calls s @ [(?u, None), (?on, Some e)]) ?off)]"])
      qed
    qed
  qed
qed

lemma activate_fold_log:
  "\<exists>bs. list_all2 (block_ok p (set (in_failed s))) xs bs \<and> in_calls (fold (activate_step answers p) xs s) = in_calls s @ concat bs \<and>
     io_pluginFailures (in_outcome (fold (activate_step answers p) xs s)) = io_pluginFailures (in_outcome s) @ failures_of (concat bs) \<and>
     io_outputBlocked (in_outcome (fold (activate_step answers p) xs s)) = (io_outputBlocked (in_outcome s) \<or> (\<exists>b \<in> set bs. block_stuck b))"
proof (induction xs arbitrary: s)
  case (Cons x xs)
  obtain b where b: "block_ok p (set (in_failed s)) x b" "in_calls (activate_step answers p x s) = in_calls s @ b"
    "in_failed (activate_step answers p x s) = in_failed s"
    "io_pluginFailures (in_outcome (activate_step answers p x s)) = io_pluginFailures (in_outcome s) @ failures_of b"
    "io_outputBlocked (in_outcome (activate_step answers p x s)) = (io_outputBlocked (in_outcome s) \<or> block_stuck b)"
    using activate_step_log [of p s x answers] by blast
  obtain bs where bs: "list_all2 (block_ok p (set (in_failed s))) xs bs"
    "in_calls (fold (activate_step answers p) xs (activate_step answers p x s)) = (in_calls s @ b) @ concat bs"
    "io_pluginFailures (in_outcome (fold (activate_step answers p) xs (activate_step answers p x s))) =
      (io_pluginFailures (in_outcome s) @ failures_of b) @ failures_of (concat bs)"
    "io_outputBlocked (in_outcome (fold (activate_step answers p) xs (activate_step answers p x s))) =
      ((io_outputBlocked (in_outcome s) \<or> block_stuck b) \<or> (\<exists>b \<in> set bs. block_stuck b))"
    using Cons.IH [of "activate_step answers p x s"] unfolding b(2-5) by blast
  show ?case by (intro exI [of _ "b # bs"]) (use b(1) bs in auto)
qed simp

lemma install_catalog_outcome:
  "io_pluginFailures (snd (install_catalog p s rt)) = io_pluginFailures (in_outcome s)"
  "io_outputBlocked (snd (install_catalog p s rt)) = io_outputBlocked (in_outcome s)"
  by (auto simp: install_catalog_def split: prod.split option.split)

definition activates :: "avatar_plan \<Rightarrow> service \<Rightarrow> bool" where
  "activates p svc \<longleftrightarrow> is_ok (fst (SetGeneration (ap_generation p) svc)) \<and> ap_status p = StatusReady \<and> has_outputs (ap_catalog p)"

definition install_calls :: "avatar_plan \<Rightarrow> service \<Rightarrow> runtime_snapshot list \<Rightarrow> call_log \<Rightarrow> install_outcome \<Rightarrow> bool" where
  \<comment> \<open>every plugin is switched off first, in the order of the ids; then those that were are activated one by one\<close>
  "install_calls p svc plugins calls out \<longleftrightarrow> (\<exists>ds bs. calls = ds @ concat bs \<and> map fst ds = map (\<lambda>x. SetActiveCall (rs_ID x) False) plugins \<and>
     (if activates p svc then list_all2 (block_ok p (failed_off ds)) plugins bs else bs = []) \<and>
     io_pluginFailures out = failures_of calls \<and> (io_outputBlocked out \<longleftrightarrow> (\<exists>b \<in> set bs. block_stuck b)))"

lemma install_plan_calls:
  assumes "install_plan answers plugins p s svc rt = (svc', rt', calls', out)" "in_failed s = []" "io_pluginFailures (in_outcome s) = []"
    "\<not> io_outputBlocked (in_outcome s)"
  shows "\<exists>new. calls' = in_calls s @ new \<and> install_calls p svc plugins new out"
proof -
  obtain r svc1 where g: "SetGeneration (ap_generation p) svc = (r, svc1)" by fastforce
  show ?thesis
  proof (cases "activates p svc")
    case False
    define s0 where "s0 = (case r of Inl e \<Rightarrow> s\<lparr>in_outcome := (in_outcome s)\<lparr>io_runtimeErr := Some (AdvanceFailed (ap_generation p) e)\<rparr>\<rparr> | Inr _ \<Rightarrow> s)"
    have s0: "in_calls s0 = in_calls s" "in_failed s0 = []" "io_pluginFailures (in_outcome s0) = []" "\<not> io_outputBlocked (in_outcome s0)"
      using assms(2-4) by (simp_all add: s0_def split: sum.split)
    have res: "calls' = in_calls (deactivateAll answers plugins s0)" "out = in_outcome (deactivateAll answers plugins s0)"
      using assms(1) g False by (auto simp: install_plan_def Let_def activates_def s0_def split: sum.splits if_splits)
    obtain ds where ds: "in_calls (deactivateAll answers plugins s0) = in_calls s0 @ ds" "map fst ds = map (\<lambda>x. SetActiveCall (rs_ID x) False) plugins"
      "io_pluginFailures (in_outcome (deactivateAll answers plugins s0)) = io_pluginFailures (in_outcome s0) @ failures_of ds"
      using deactivateAll_log [of answers plugins s0] by blast
    have "install_calls p svc plugins ds out"
      unfolding install_calls_def using ds s0 res False deactivateAll_kept(2) [of answers plugins s0]
      by (intro exI [of _ ds] exI [of _ "[]"]) simp
    then show ?thesis using res ds s0 by auto
  next
    case True
    let ?d = "deactivateAll answers plugins s"
    let ?f = "fold (activate_step answers p) plugins ?d"
    have res: "calls' = in_calls ?f" "out = snd (install_catalog p ?f rt)"
      using assms(1) g True by (auto simp: install_plan_def Let_def activates_def split: sum.splits prod.splits)
    obtain ds where ds: "in_calls ?d = in_calls s @ ds" "map fst ds = map (\<lambda>x. SetActiveCall (rs_ID x) False) plugins"
      "set (in_failed ?d) = failed_off ds" "io_pluginFailures (in_outcome ?d) = failures_of ds"
      using deactivateAll_log [of answers plugins s] assms(2,3) by auto
    obtain bs where bs: "list_all2 (block_ok p (failed_off ds)) plugins bs" "in_calls ?f = in_calls ?d @ concat bs"
      "io_pluginFailures (in_outcome ?f) = failures_of ds @ failures_of (concat bs)"
      "io_outputBlocked (in_outcome ?f) = (io_outputBlocked (in_outcome ?d) \<or> (\<exists>b \<in> set bs. block_stuck b))"
      using activate_fold_log [of p ?d plugins answers] unfolding ds(3,4) by blast
    have "install_calls p svc plugins (ds @ concat bs) out"
      unfolding install_calls_def using ds(2) bs res True deactivateAll_kept(2) [of answers plugins s] assms(4)
      by (intro exI [of _ ds] exI [of _ bs]) (simp add: install_catalog_outcome)
    then show ?thesis using res bs ds by auto
  qed
qed

text \<open>C4 (safety). Whatever has happened to the coordinator and its send loop, when the runtime has
  values to send they belong to the current plan: the plan is ready and not blocked, the runtime
  holds its catalog under its generation, the values are what its evaluator made of a frame that
  the pipeline processed for that generation, and every output of the catalog sends the reference
  value of its parameter in that frame. So no value of an old avatar is sent to a new one.\<close>

theorem outputs_current:
  assumes "NewPlanner fs r fallback = Inr pl"
    and "coordinated (initial_coordinator pl svc pipe (newParameterSender transport epsilon limit bundles) s) c"
    and "run_source (co_runtime c) = Some v"
  shows "\<exists>p cat ev cf. co_current c = Some p \<and> ap_status p = StatusReady \<and> \<not> outputBlocked c \<and> ap_catalog p = Some cat \<and>
    runtime_catalog (co_runtime c) = Some cat \<and> run_generation (co_runtime c) = ap_generation p \<and> ap_evaluator p = Some ev \<and>
    cf_Generation cf = ap_generation p \<and> v = snapshot_values (Evaluate ev cf) \<and>
    (\<exists>pow f nowNS q q'. Generation f = ap_generation p \<and> ProcessAt pow f nowNS q = (Inr cf, q')) \<and>
    (\<forall>x \<in> set (Outputs cat). evaluateOutput x v = evaluateOutput x (reference_values cf))"
proof -
  have inv: "runtime_current c" "plans_compiled c" using coordinated_current [OF assms(1,2)] by simp_all
  have "\<not> runtime_empty (co_runtime c)" using assms(3) by (simp add: runtime_empty_def)
  then obtain p where p: "co_current c = Some p" "usablePlan (co_current c)" "\<not> outputBlocked c" "runtime_holds p (co_runtime c)" "values_of_plan p v"
    using inv(1) assms(3) unfolding runtime_current_def by auto
  have ready: "ap_status p = StatusReady" using p(1,2) by (simp add: usablePlan_def)
  obtain cat ev where cat: "ap_catalog p = Some cat" "ap_evaluator p = Some ev"
    "\<forall>x \<in> set (Outputs cat). \<forall>cf. evaluateOutput x (snapshot_values (Evaluate ev cf)) = evaluateOutput x (reference_values cf)"
    using compiled_outputs inv(2) p(1) ready unfolding plans_compiled_def by blast
  obtain ev' cf pow f nowNS q q' where v: "ap_evaluator p = Some ev'" "v = snapshot_values (Evaluate ev' cf)" "cf_Generation cf = ap_generation p"
    "Generation f = ap_generation p" "ProcessAt pow f nowNS q = (Inr cf, q')"
    using p(5) unfolding values_of_plan_def by blast
  then have cf: "v = snapshot_values (Evaluate ev cf)" "cf_Generation cf = ap_generation p"
    "\<exists>pow f nowNS q q'. Generation f = ap_generation p \<and> ProcessAt pow f nowNS q = (Inr cf, q')" using cat(2) by (simp, simp, blast)
  show ?thesis
    by (rule exI [of _ p], rule exI [of _ cat], rule exI [of _ ev], rule exI [of _ cf])
      (use p(1,3,4) ready cat cf in \<open>simp add: runtime_holds_def\<close>)
qed

text \<open>C5 (liveness). A frame of the current plan's generation always ends in values being sent or in
  an error being shown: if the pipeline processes it, the runtime holds the plan's catalog and the
  values of this frame, also when the frame before had failed, the error is gone from the status
  and the lifecycle follows; if it fails, the runtime is empty, the coordinator is suspended and
  the status shows the error.\<close>

theorem frame_outcome:
  assumes "NewPlanner fs r fallback = Inr pl"
    and "coordinated (initial_coordinator pl svc pipe (newParameterSender transport epsilon limit bundles) s) c"
    and "hasUsablePlan (Generation f) c" and "\<not> su_cancelled env 0"
  shows "\<exists>p ev. co_current c = Some p \<and> ap_evaluator p = Some ev \<and> (let c' = coordinator_process env f nowNS c in
    case ProcessAt (su_pow env) f nowNS (co_pipeline c) of
      (Inl e, _) \<Rightarrow> runtime_empty (co_runtime c') \<and> suspended c' \<and>
        as_RuntimeError (st_current (co_status c')) = error_text env (Some (ProcessFailed (ap_generation p) e))
    | (Inr cf, _) \<Rightarrow> run_source (co_runtime c') = Some (snapshot_values (Evaluate ev cf)) \<and> runtime_holds p (co_runtime c') \<and> \<not> suspended c' \<and>
        as_RuntimeError (st_current (co_status c')) = [] \<and>
        as_Lifecycle (st_current (co_status c')) = lifecycleForStatus (st_current (co_status c')))"
proof -
  have inv: "runtime_current c" using coordinated_current [OF assms(1,2)] by simp
  obtain p ev where p: "co_current c = Some p" "usablePlan (co_current c)" "\<not> outputBlocked c" "Generation f = ap_generation p"
    "ap_evaluator p = Some ev" and c: "coordinator_process env f nowNS c = process_current env p f nowNS c"
    by (rule process_usable [OF assms(3,4), where nowNS = nowNS])
  obtain r pl where r: "ProcessAt (su_pow env) f nowNS (co_pipeline c) = (r, pl)" by fastforce
  show ?thesis
  proof (cases r)
    case (Inl e)
    then have "coordinator_process env f nowNS c = failRuntime env (ProcessFailed (ap_generation p) e) (c\<lparr>co_pipeline := pl\<rparr>)"
      using c r by (simp add: process_current_def)
    then show ?thesis using p r Inl
      by (simp add: failRuntime_def update_status_def status_update_def with_lifecycle_def Let_def)
  next
    case (Inr cf)
    let ?c = "c\<lparr>co_pipeline := pl\<rparr>"
    let ?d = "deliver_frame env p f cf nowNS ?c"
    have ok: "ProcessAt (su_pow env) f nowNS (co_pipeline c) = (Inr cf, pl)" using r Inr by simp
    have gen: "cf_Generation cf = ap_generation p" using ProcessAt_generation [OF ok] p(4) by simp
    have c': "co_current ?c = Some p" "usablePlan (co_current ?c)" "\<not> outputBlocked ?c" "runtime_current ?c"
      using p inv by (simp_all add: runtime_current_def)
    note d = deliver_publishes [OF c' p(5) gen p(4) ok, where env = env]
    have "as_RuntimeError (st_current (co_status ?d)) = [] \<and> as_Lifecycle (st_current (co_status ?d)) = lifecycleForStatus (st_current (co_status ?d))"
      using delivered_status [OF p(5) d(4)] .
    moreover have "coordinator_process env f nowNS c = ?d" using c ok gen by (simp add: process_current_def)
    ultimately show ?thesis using p ok d by (simp add: Let_def)
  qed
qed

text \<open>C6 (refinement). Installing a plan first clears the runtime and then calls the plugins in a fixed
  order: each listed plugin is told to stop, by ascending id; then, if the generation was accepted
  and the plan is ready with outputs, each plugin that did stop and that the plan can use is given
  the plan's subscription and only after that activated, and a failed activation is undone. Every
  call that fails is in the outcome, in order. Output is blocked exactly if an undo failed, and a
  catalog is in the runtime at the end only if it is the plan's and output is not blocked.\<close>

theorem install_protocol:
  assumes "run_mode rt = CatalogExternal" and "install answers listed (Some p) err calls svc rt = (svc', rt', calls', out)"
  shows "\<exists>new. calls' = calls @ new \<and> install_calls p svc (sortedPlugins listed) new out \<and> run_source rt' = None \<and>
    (if io_catalogReady out then runtime_catalog rt' = ap_catalog p \<and> \<not> io_outputBlocked out \<and> io_runtimeErr out = None
     else runtime_empty rt' \<and> (usablePlan (Some p) \<longrightarrow> io_outputBlocked out \<or> io_runtimeErr out \<noteq> None))"
proof -
  let ?s = "\<lparr>in_calls = calls, in_failed = [], in_outcome = \<lparr>io_plan = Some p, io_planErr = err, io_runtimeErr = None, io_pluginFailures = [],
           io_exhausted = False, io_catalogReady = False, io_outputBlocked = False\<rparr>\<rparr>"
  have "install_plan answers (sortedPlugins listed) p ?s svc (runtime_clear rt) = (svc', rt', calls', out)"
    using assms(2) by (simp add: install_def Let_def)
  from install_plan_calls [OF this] obtain new where new: "calls' = calls @ new" "install_calls p svc (sortedPlugins listed) new out" by auto
  moreover have "installed (Some p) rt' out" by (rule install_installed [OF assms])
  ultimately show ?thesis
    by (intro exI [of _ new]) (auto simp: installed_def runtime_empty_def split: if_splits)
qed

section \<open>Plugin sessions\<close>

lemma sources_RemoveSource: "p \<noteq> [] \<Longrightarrow> sources (RemoveSource p s) = AList.delete p (sources s)"
proof -
  have r: "sources (recompute_and_publish s force) = sources s" for s force
    by (simp add: recompute_and_publish_cases)
  show "p \<noteq> [] \<Longrightarrow> ?thesis" by (simp add: RemoveSource_def r delete_idem map_of_eq_None_iff)
qed

lemma note_session_forward:
  assumes "note_session i n sessions = (moved, stale, sessions')" "map_of sessions p = Some k"
  shows "\<exists>m. map_of sessions' p = Some m \<and> k \<le> m \<and> (k < m \<longrightarrow> p = i \<and> moved \<and> \<not> stale)"
  using assms by (auto simp: note_session_def update_conv split: if_splits option.splits)

text \<open>C7 (safety). The session number kept for a plugin never goes back, in any step: it is forgotten
  only by the event that removes the plugin, and in the step in which it advances the plugin's
  source leaves the tracking service, so frames of an earlier session do not outlive it.\<close>

theorem sessions_forward:
  assumes "coordinator_step c c'" and "map_of (pluginSessions c) p = Some n" and "p \<noteq> []"
  shows "case map_of (pluginSessions c') p of
      None \<Rightarrow> (\<exists>e. c' = observePlugin e c \<and> ev_Type e = EventPluginRemoved \<and> event_plugin e = p) \<and> map_of (sources (co_tracking c')) p = None
    | Some m \<Rightarrow> n \<le> m \<and> (n < m \<longrightarrow> map_of (sources (co_tracking c')) p = None)"
proof (cases "\<exists>e. c' = observePlugin e c")
  case True
  then obtain e where e: "c' = observePlugin e c" by blast
  show ?thesis
  proof (cases "ev_Type e = EventPluginRemoved")
    case True
    then show ?thesis using e assms(2,3) by (auto simp: observePlugin_def Let_def delete_conv' sources_RemoveSource)
  next
    case False
    show ?thesis
    proof (cases "ev_Snapshot e")
      case None
      then show ?thesis using e False assms(2) by (simp add: observePlugin_def Let_def)
    next
      case (Some sn)
      obtain moved stale sessions where ns: "note_session (event_plugin e) (SessionID sn) (pluginSessions c) = (moved, stale, sessions)" by (metis prod_cases3)
      obtain m where m: "map_of sessions p = Some m" "n \<le> m" "n < m \<longrightarrow> p = event_plugin e \<and> moved \<and> \<not> stale"
        using note_session_forward [OF ns assms(2)] by blast
      have "pluginSessions c' = sessions" "moved \<and> \<not> stale \<longrightarrow> co_tracking c' = RemoveSource (event_plugin e) (co_tracking c)"
        using e False Some ns by (auto simp: observePlugin_def Let_def)
      then show ?thesis using m assms(3) by (auto simp: sources_RemoveSource delete_conv')
    qed
  qed
next
  case False
  have process: "pluginSessions (coordinator_process env f t d) = pluginSessions d" for env f t d
    using process_same_plan [of d env f t] by (simp add: same_plan_def)
  have "pluginSessions c' = pluginSessions c"
    using assms(1) False
    by cases (auto simp: coordinator_activate_def publishInstallStatus_def adopt_plan_def observeOSC_def on_merged_def on_tick_def process
        split: if_splits option.splits prod.splits)
  then show ?thesis using assms(2) by simp
qed

section \<open>Time\<close>

definition in_time :: "coordinator \<Rightarrow> bool" where
  "in_time c \<longleftrightarrow> (mc_hasLast (co_clock c) \<longrightarrow> is_i64 (mc_last (co_clock c))) \<and>
     (\<forall>p. co_pipeline c = Some p \<longrightarrow> hasLast p \<longrightarrow> mc_hasLast (co_clock c) \<and> lastNowNS p \<le> mc_last (co_clock c))"

lemma clock_sample_forward:
  assumes "clock_sample wall strict clk = (t, clk')" "is_i64 wall" "mc_hasLast clk \<longrightarrow> is_i64 (mc_last clk)"
  shows "mc_last clk' = t" "mc_hasLast clk'" "is_i64 t" "mc_hasLast clk \<longrightarrow> mc_last clk \<le> t"
    "mc_hasLast clk \<longrightarrow> strict \<longrightarrow> mc_last clk < max_int64 \<longrightarrow> mc_last clk < t"
proof -
  have "mc_hasLast clk \<Longrightarrow> mc_last clk < max_int64 \<Longrightarrow> i64 (mc_last clk + 1) = mc_last clk + 1"
    using assms(3) by (intro i64_id) (simp add: is_i64_def max_int64_def)
  moreover have "mc_hasLast clk \<Longrightarrow> mc_last clk < max_int64 \<Longrightarrow> is_i64 (mc_last clk + 1)"
    using assms(3) by (simp add: is_i64_def max_int64_def)
  ultimately show "mc_last clk' = t" "mc_hasLast clk'" "is_i64 t" "mc_hasLast clk \<longrightarrow> mc_last clk \<le> t"
    "mc_hasLast clk \<longrightarrow> strict \<longrightarrow> mc_last clk < max_int64 \<longrightarrow> mc_last clk < t"
    using assms by (auto simp: clock_sample_def Let_def split: if_splits)
qed

lemma process_pipeline:
  "co_pipeline (coordinator_process env f t c) = co_pipeline c \<or>
   (\<exists>r. ProcessAt (su_pow env) f t (co_pipeline c) = (r, co_pipeline (coordinator_process env f t c)))"
proof -
  have d: "co_pipeline (deliver_frame env p f cf t c) = co_pipeline c" for p cf c
    by (auto simp: deliver_frame_def recover_catalog_def publish_values_def Let_def split: option.split prod.split if_splits)
  show ?thesis
    by (auto simp: coordinator_process_def process_current_def d split: option.split prod.split sum.split)
qed

lemma process_in_time:
  assumes "in_time c" "clock_sample wall True (co_clock c) = (t, clk)" "is_i64 wall" "co_clock d = clk" "co_pipeline d = co_pipeline c"
  shows "in_time (coordinator_process env f t d)"
proof -
  note clk = clock_sample_forward [OF assms(2,3)]
  have k: "mc_hasLast (co_clock c) \<longrightarrow> is_i64 (mc_last (co_clock c))" using assms(1) by (simp add: in_time_def)
  let ?d = "coordinator_process env f t d"
  have clock: "co_clock ?d = clk" using process_same_plan [of d env f t] assms(4) by (simp add: same_plan_def)
  have "mc_hasLast clk \<and> lastNowNS p \<le> t" if "co_pipeline ?d = Some p" "hasLast p" for p
  proof (cases "co_pipeline ?d = co_pipeline d")
    case True
    then have "co_pipeline c = Some p" using that(1) assms(5) by simp
    then have "mc_hasLast (co_clock c)" "lastNowNS p \<le> mc_last (co_clock c)" using assms(1) that(2) by (simp_all add: in_time_def)
    then show ?thesis using clk(2,4) [OF k] by simp
  next
    case False
    then obtain r where r: "ProcessAt (su_pow env) f t (co_pipeline d) = (r, co_pipeline ?d)" using process_pipeline [of env f t d] by auto
    have "co_pipeline d \<noteq> None" using r that(1) by (auto simp: ProcessAt_def split: option.splits)
    then obtain q where q: "co_pipeline d = Some q" by blast
    have "p = q \<or> lastNowNS p = t" using ProcessAt_forward [of "su_pow env" f t q r p] r q that(1) by (auto split: sum.splits)
    then show ?thesis using False q that clk(2) [OF k] by auto
  qed
  then show ?thesis using clock clk(1,2,3) [OF k] by (simp add: in_time_def)
qed

lemma in_time_cong: "co_clock c' = co_clock c \<Longrightarrow> co_pipeline c' = co_pipeline c \<Longrightarrow> in_time c' = in_time c"
  by (simp add: in_time_def)

lemma coordinator_step_in_time:
  assumes "coordinator_step c c'" "in_time c"
  shows "in_time c'"
  using assms
proof (induction rule: coordinator_step.induct)
  case (avatar_changed env avatarID c c')
  have "co_clock c' = co_clock c" "co_pipeline c' = co_pipeline c"
    using avatar_changed(1) by (auto simp: coordinator_activate_def publishInstallStatus_def adopt_plan_def split: if_splits option.splits prod.splits)
  then show ?case using avatar_changed(2) in_time_cong by blast
next
  case (merged_event env c f)
  obtain t clk where k: "clock_sample (su_wall env) True (co_clock c) = (t, clk)" by fastforce
  show ?case using process_in_time [OF merged_event(2) k merged_event(1), of "c\<lparr>latest := f, co_hasLatest := True, co_clock := clk\<rparr>"] k
    by (simp add: on_merged_def clock_now_def)
next
  case (tick_event tick c env)
  obtain t clk where k: "clock_sample tick True (co_clock c) = (t, clk)" by fastforce
  show ?case using process_in_time [OF tick_event(2) k tick_event(1), of "c\<lparr>co_clock := clk\<rparr>"] k tick_event(2)
    by (simp add: on_tick_def clock_advance_def)
qed (simp_all add: in_time_def observeOSC_def observePlugin_keeps)

lemma classify_time_error:
  "classifyInput p f t = Inl ErrTimeRegression \<Longrightarrow> hasLast p \<and> t \<le> lastNowNS p"
  by (auto simp: classifyInput_def Let_def guard_result_def split: if_splits)

definition ahead :: "coordinator \<Rightarrow> int \<Rightarrow> bool" where
  \<comment> \<open>a time later than every time the pipeline was given, which no frame is refused for\<close>
  "ahead c t \<longleftrightarrow> (\<forall>p. co_pipeline c = Some p \<longrightarrow> (hasLast p \<longrightarrow> lastNowNS p < t) \<and> (\<forall>f. classifyInput p f t \<noteq> Inl ErrTimeRegression))"

lemma sample_ahead:
  assumes "in_time c" "mc_hasLast (co_clock c) \<longrightarrow> mc_last (co_clock c) < max_int64" "is_i64 wall"
  obtains t where "clock_sample wall True (co_clock c) = (t, \<lparr>mc_last = t, mc_hasLast = True\<rparr>)" "ahead c t"
proof -
  obtain t clk where k: "clock_sample wall True (co_clock c) = (t, clk)" by fastforce
  have i: "mc_hasLast (co_clock c) \<longrightarrow> is_i64 (mc_last (co_clock c))" using assms(1) by (simp add: in_time_def)
  note clk = clock_sample_forward [OF k assms(3) i]
  have clock: "clk = \<lparr>mc_last = t, mc_hasLast = True\<rparr>" using clk(1,2) by (cases clk) simp
  have "lastNowNS p < t" if "co_pipeline c = Some p" "hasLast p" for p
    using assms(1,2) clk(5) that by (fastforce simp: in_time_def)
  then have "ahead c t" using classify_time_error unfolding ahead_def by fastforce
  with k clock that show ?thesis by blast
qed

text \<open>C8 (safety). The coordinator never hands the pipeline a time it has already passed: on a merged
  frame and on a tick, whatever the wall clock or the tick shows, the frame is processed at a time
  the clock then stands at and that is later than every time a frame was processed at before, so
  none is refused because time went back or stood still. The clock stands below the largest int64.\<close>

theorem time_never_refused:
  assumes "coordinated (initial_coordinator pl svc pipe sender0 s) c" and "\<forall>p. pipe = Some p \<longrightarrow> \<not> hasLast p"
    and "is_i64 (su_wall env)" and "is_i64 tick" and "mc_hasLast (co_clock c) \<longrightarrow> mc_last (co_clock c) < max_int64"
  shows "(\<exists>t. ahead c t \<and> on_merged env f c =
      coordinator_process env f t (c\<lparr>latest := f, co_hasLatest := True, co_clock := \<lparr>mc_last = t, mc_hasLast = True\<rparr>\<rparr>)) \<and>
    (co_hasLatest c \<longrightarrow> (\<exists>t. ahead c t \<and> on_tick env tick c =
      coordinator_process env (latest c) t (c\<lparr>co_clock := \<lparr>mc_last = t, mc_hasLast = True\<rparr>\<rparr>)))"
proof -
  have "in_time (initial_coordinator pl svc pipe sender0 s)"
    using assms(2) by (simp add: in_time_def initial_coordinator_def newMonotonicClock_def)
  from assms(1) this have inv: "in_time c" by (induction rule: rtranclp_induct) (use coordinator_step_in_time in \<open>blast+\<close>)
  obtain t where t: "clock_sample (su_wall env) True (co_clock c) = (t, \<lparr>mc_last = t, mc_hasLast = True\<rparr>)" "ahead c t"
    by (rule sample_ahead [OF inv assms(5,3)])
  obtain u where u: "clock_sample tick True (co_clock c) = (u, \<lparr>mc_last = u, mc_hasLast = True\<rparr>)" "ahead c u"
    by (rule sample_ahead [OF inv assms(5,4)])
  show ?thesis using t u by (auto simp: on_merged_def on_tick_def clock_now_def clock_advance_def)
qed

section \<open>A sample run\<close>

definition coordinator_sender :: sender where
  "coordinator_sender = newParameterSender True zero32 1200 True"

definition coordinator_status :: app_status where
  "coordinator_status = \<lparr>as_Revision = 1, as_UpdatedAt = 0, as_Lifecycle = LifecycleRunning, as_AvatarID = [], as_AvatarName = [],
     as_PlanGeneration = 0, as_PlanStatus = 0, as_PlanSource = 0, as_PlanParameters = [], as_ConfigPath = [], as_ConfigID = [],
     as_GenerationExhausted = False, as_OSC = \<lparr>os_Running = True, os_Connected = True, os_HasTarget = True, os_TargetMode = ''auto'',
       os_Host = ''127.0.0.1'', os_Port = 9000, os_LastError = []\<rparr>, as_PluginFailures = [], as_PlanError = [], as_RuntimeError = []\<rparr>"

definition coordinator_env :: "int \<Rightarrow> surroundings" where
  "coordinator_env wall = \<lparr>su_describe = (\<lambda>_. ''failed''), su_answers = (\<lambda>_ _. None), su_plugins = [], su_files = sample_files,
     su_osc = as_OSC coordinator_status, su_wall = wall, su_cancelled = (\<lambda>_. False), su_pow = (\<lambda>x y. x)\<rparr>"

definition sample_coordinator :: "pipeline \<Rightarrow> coordinator" where
  "sample_coordinator p = initial_coordinator sample_planner (newServiceWithClock sample_clock) (Some p) coordinator_sender coordinator_status"

lemma sample_bound: "case BuildCatalogFromEndpoints 0 [\<lparr>ep_Address = ''/avatar/parameters/v2/JawOpen'', ep_Type = ''f''\<rparr>] (Some shipped_catalog) 1 of
    Inl e \<Rightarrow> False | Inr cat \<Rightarrow> oc_Bindings cat \<noteq> []"
  by code_simp

lemma sample_ready_plan:
  "\<exists>p cat. Activate sample_files 0 ''avtr_1'' sample_planner = Some (sample_planner\<lparr>pl_generation := 1\<rparr>, \<lparr>act_Plan = Some p, act_Err = None\<rparr>) \<and>
     ap_status p = StatusReady \<and> ap_generation p = 1 \<and> ap_catalog p = Some cat \<and> oc_Bindings cat \<noteq> [] \<and> oc_Generation cat = 1 \<and> plan_compiled p"
proof -
  obtain cat where cat: "BuildCatalogFromEndpoints 0 [\<lparr>ep_Address = ''/avatar/parameters/v2/JawOpen'', ep_Type = ''f''\<rparr>] (Some shipped_catalog) 1 = Inr cat"
    "oc_Bindings cat \<noteq> []" using sample_bound by (auto split: sum.splits)
  have valid: "validateAvatarID ''avtr_1'' = Inr ()" by code_simp
  let ?r = "\<lparr>rc_path = ''/osc/usr_1/Avatars/avtr_1.json'', rc_source = SourceAvatarConfig, requireIDMatch = True\<rparr>"
  let ?cfg = "\<lparr>dc_id = ''avtr_1'', dc_name = [], dc_endpoints = [\<lparr>ep_Address = ''/avatar/parameters/v2/JawOpen'', ep_Type = ''f''\<rparr>]\<rparr>"
  have "(0 :: u64) \<noteq> max_u64" by (simp add: max_u64_def)
  moreover obtain p where p: "compile_activation 1 ''avtr_1'' ?r ?cfg cat = Some \<lparr>act_Plan = Some p, act_Err = None\<rparr>"
    "ap_status p = StatusReady" "ap_generation p = 1" "plan_compiled p"
    using compile_activation_ready [OF cat(1)] by blast
  moreover have "ap_catalog p = Some cat"
    using p(1,2) by (auto simp: compile_activation_def Let_def newReadyPlan_def failedResult_def split: option.splits sum.splits)
  ultimately show ?thesis
    using cat valid sample_resolves sample_reads built_generation [OF cat(1)] by (simp add: Activate_def sample_planner_def)
qed

lemma sample_activated:
  "\<exists>p c. coordinator_activate (coordinator_env 0) ''avtr_1'' (sample_coordinator q) = Some c \<and> co_current c = Some p \<and> ap_generation p = 1 \<and>
     usablePlan (co_current c) \<and> \<not> outputBlocked c \<and> co_pipeline c = Some q \<and> co_clock c = newMonotonicClock"
proof -
  obtain p cat where p: "Activate sample_files 0 ''avtr_1'' sample_planner = Some (sample_planner\<lparr>pl_generation := 1\<rparr>, \<lparr>act_Plan = Some p, act_Err = None\<rparr>)"
    "ap_status p = StatusReady" "ap_generation p = 1" "ap_catalog p = Some cat" "oc_Bindings cat \<noteq> []" "oc_Generation cat = 1" "plan_compiled p"
    using sample_ready_plan by blast
  obtain svc rt calls out where i: "install (\<lambda>_ _. None) [] (Some p) None [] (newServiceWithClock sample_clock) (newSendRuntime coordinator_sender CatalogExternal None) =
      (svc, rt, calls, out)" by (metis prod_cases4)
  have usable: "usablePlan (Some p)" using compiled_plan_fits [OF p(7,4)] p by (simp add: usablePlan_def)
  have inst: "installed (Some p) rt out" by (rule install_installed [OF _ i]) (simp add: newSendRuntime_def)
  have "install_plan (\<lambda>_ _. None) [] p \<lparr>in_calls = [], in_failed = [], in_outcome = \<lparr>io_plan = Some p, io_planErr = None, io_runtimeErr = None,
      io_pluginFailures = [], io_exhausted = False, io_catalogReady = False, io_outputBlocked = False\<rparr>\<rparr> (newServiceWithClock sample_clock)
      (runtime_clear (newSendRuntime coordinator_sender CatalogExternal None)) = (svc, rt, calls, out)"
    using i by (simp add: install_def Let_def sortedPlugins_def)
  from install_plan_calls [OF this] have "\<not> io_outputBlocked out"
    by (auto simp: install_calls_def split: if_splits)
  then show ?thesis
    using p(1,3) i usable inst
    by (simp add: coordinator_activate_def coordinator_env_def sample_coordinator_def initial_coordinator_def publishInstallStatus_def adopt_plan_def installed_def)
qed

theorem outputs_current_witness:
  "\<exists>q c v p cat. coordinated (sample_coordinator q) c \<and> run_source (co_runtime c) = Some v \<and> co_current c = Some p \<and>
    runtime_catalog (co_runtime c) = Some cat \<and> run_generation (co_runtime c) = ap_generation p"
proof -
  obtain q out q' where q: "NewPipeline DefaultConfig = Inr q" "processAt (\<lambda>x y. x) q sample_merged 200 = Inr (out, q')"
    using sample_processed by blast
  obtain p c where c: "coordinator_activate (coordinator_env 0) ''avtr_1'' (sample_coordinator q) = Some c" "co_current c = Some p" "ap_generation p = 1"
    "usablePlan (co_current c)" "\<not> outputBlocked c" "co_pipeline c = Some q" "co_clock c = newMonotonicClock" using sample_activated by blast
  let ?c = "on_merged (coordinator_env 200) sample_merged c"
  let ?d = "c\<lparr>latest := sample_merged, co_hasLatest := True, co_clock := \<lparr>mc_last = 200, mc_hasLast = True\<rparr>\<rparr>"
  have d: "?c = coordinator_process (coordinator_env 200) sample_merged 200 ?d"
    using c(7) by (simp add: on_merged_def clock_now_def clock_sample_def newMonotonicClock_def coordinator_env_def)
  have run: "coordinated (sample_coordinator q) c" using c(1) by (blast intro: avatar_changed)
  have step: "coordinator_step c ?c" by (rule merged_event) (simp add: coordinator_env_def is_i64_range)
  have cur: "runtime_current ?d"
    using coordinated_current(1) [OF sample_new run [unfolded sample_coordinator_def coordinator_sender_def]] by (simp add: runtime_current_def)
  have use: "hasUsablePlan (Generation sample_merged) ?d" using c by (simp add: hasUsablePlan_def sample_merged_def)
  obtain p' ev where p': "co_current ?d = Some p'" "usablePlan (co_current ?d)" "\<not> outputBlocked ?d" "Generation sample_merged = ap_generation p'"
    "ap_evaluator p' = Some ev" "coordinator_process (coordinator_env 200) sample_merged 200 ?d = process_current (coordinator_env 200) p' sample_merged 200 ?d"
    by (rule process_usable [OF use, of "coordinator_env 200" 200]) (simp add: coordinator_env_def)
  have P: "ProcessAt (\<lambda>x y. x) sample_merged 200 (co_pipeline ?d) = (Inr out, Some q')" using q(2) c(6) by (simp add: ProcessAt_def)
  have gen: "cf_Generation out = ap_generation p'" using ProcessAt_generation [OF P] p'(4) by simp
  have e: "co_current (?d\<lparr>co_pipeline := Some q'\<rparr>) = Some p'" "usablePlan (co_current (?d\<lparr>co_pipeline := Some q'\<rparr>))"
    "\<not> outputBlocked (?d\<lparr>co_pipeline := Some q'\<rparr>)" "runtime_current (?d\<lparr>co_pipeline := Some q'\<rparr>)"
    using p' cur by (simp_all add: runtime_current_def)
  have "?c = deliver_frame (coordinator_env 200) p' sample_merged out 200 (?d\<lparr>co_pipeline := Some q'\<rparr>)"
    using d p'(6) P gen by (simp add: process_current_def coordinator_env_def)
  then have v: "run_source (co_runtime ?c) = Some (snapshot_values (Evaluate ev out))"
    using deliver_publishes(1) [OF e p'(5) gen p'(4) P] by simp
  have full: "coordinated (sample_coordinator q) ?c" using run step by (rule rtranclp.rtrancl_into_rtrancl)
  show ?thesis
    using outputs_current [OF sample_new full [unfolded sample_coordinator_def coordinator_sender_def] v] v full by blast
qed

theorem frame_outcome_witness:
  "\<exists>q c p out q'. coordinated (sample_coordinator q) c \<and> co_current c = Some p \<and>
    ProcessAt (\<lambda>x y. x) sample_merged 200 (co_pipeline c) = (Inr out, q') \<and>
    runtime_holds p (co_runtime (coordinator_process (coordinator_env 200) sample_merged 200 c)) \<and>
    as_RuntimeError (st_current (co_status (coordinator_process (coordinator_env 200) sample_merged 200 c))) = []"
proof -
  obtain q out q' where q: "NewPipeline DefaultConfig = Inr q" "processAt (\<lambda>x y. x) q sample_merged 200 = Inr (out, q')"
    using sample_processed by blast
  obtain p c where c: "coordinator_activate (coordinator_env 0) ''avtr_1'' (sample_coordinator q) = Some c" "co_current c = Some p" "ap_generation p = 1"
    "usablePlan (co_current c)" "\<not> outputBlocked c" "co_pipeline c = Some q" using sample_activated by blast
  have run: "coordinated (sample_coordinator q) c" using c(1) by (blast intro: avatar_changed)
  have use: "hasUsablePlan (Generation sample_merged) c" using c by (simp add: hasUsablePlan_def sample_merged_def)
  have P: "ProcessAt (\<lambda>x y. x) sample_merged 200 (co_pipeline c) = (Inr out, Some q')" using q(2) c(6) by (simp add: ProcessAt_def)
  have pow: "su_pow (coordinator_env 200) = (\<lambda>x y. x)" "\<not> su_cancelled (coordinator_env 200) 0" by (simp_all add: coordinator_env_def)
  show ?thesis
    using frame_outcome [OF sample_new run [unfolded sample_coordinator_def coordinator_sender_def] use pow(2), of 200] run c(2) P
    unfolding pow(1) Let_def by (intro exI [of _ q] exI [of _ c] exI [of _ p] exI [of _ out] exI [of _ "Some q'"]) auto
qed

definition sample_plugin :: "string \<Rightarrow> capability \<Rightarrow> runtime_snapshot" where
  "sample_plugin i caps = \<lparr>rs_ID = i, rs_Name = i, rs_Description = [], rs_Version = ''1'', rs_Capabilities = caps, rs_Enabled = True, rs_Active = True,
     rs_State = ''running'', PID = 1, SessionID = 2, ConfigRevision = 1, SubscriptionGeneration = 1, StartedAt = 0, LastHeartbeatAt = 0, LastFrameAt = 0,
     InstalledAt = 0, LastEnabledAt = 0, NextRestartAt = 0, FrameRate = 0, ConsecutiveFailures = 0, RestartCount = 0, LastError = []\<rparr>"

theorem install_protocol_witness:
  "\<exists>p svc' rt' calls' out. install (\<lambda>_ _. Some ''busy'') [sample_plugin ''b'' 1, sample_plugin ''a'' 1] (Some p) None [] (newServiceWithClock sample_clock)
      (newSendRuntime coordinator_sender CatalogExternal None) = (svc', rt', calls', out) \<and>
    install_calls p (newServiceWithClock sample_clock) [sample_plugin ''a'' 1, sample_plugin ''b'' 1] calls' out \<and> run_source rt' = None"
proof -
  obtain p :: avatar_plan where "usablePlan (Some p)" using sample_activated by (metis default_new)
  obtain svc rt calls out where i: "install (\<lambda>_ _. Some ''busy'') [sample_plugin ''b'' 1, sample_plugin ''a'' 1] (Some p) None [] (newServiceWithClock sample_clock)
      (newSendRuntime coordinator_sender CatalogExternal None) = (svc, rt, calls, out)" by (metis prod_cases4)
  have mode: "run_mode (newSendRuntime coordinator_sender CatalogExternal None) = CatalogExternal" by (simp add: newSendRuntime_def)
  have sorted: "sortedPlugins [sample_plugin ''b'' 1, sample_plugin ''a'' 1] = [sample_plugin ''a'' 1, sample_plugin ''b'' 1]"
    by (simp add: sortedPlugins_def sample_plugin_def sort_key_def)
  show ?thesis using install_protocol [OF mode i] i unfolding sorted
    by (intro exI [of _ p] exI [of _ svc] exI [of _ rt] exI [of _ calls] exI [of _ out]) auto
qed

theorem sessions_forward_witness:
  "\<exists>q c. pluginSessions c = [(''steam'', 1)] \<and> (let c' = observePlugin \<lparr>ev_Sequence = 1, ev_Time = None, ev_Type = EventPluginStateChanged,
      ev_PluginID = ''steam'', ev_Snapshot = Some (sample_plugin ''steam'' 1), ev_Status = None, ev_Log = None, ev_Dropped = 0\<rparr> c in
    map_of (pluginSessions c') ''steam'' = Some 2 \<and> map_of (sources (co_tracking c')) ''steam'' = None \<and> c = (sample_coordinator q)\<lparr>pluginSessions := [(''steam'', 1)]\<rparr>)"
proof -
  obtain q where "NewPipeline DefaultConfig = Inr q" using default_new by blast
  let ?c = "(sample_coordinator q)\<lparr>pluginSessions := [(''steam'', 1)]\<rparr>"
  let ?e = "\<lparr>ev_Sequence = 1, ev_Time = None, ev_Type = EventPluginStateChanged,
      ev_PluginID = ''steam'', ev_Snapshot = Some (sample_plugin ''steam'' 1), ev_Status = None, ev_Log = None, ev_Dropped = 0\<rparr>"
  have s: "map_of (pluginSessions (observePlugin ?e ?c)) ''steam'' = Some 2"
    by (simp add: observePlugin_def event_plugin_def note_session_def sample_plugin_def event_types Let_def)
  have "map_of (pluginSessions ?c) ''steam'' = Some 1" by simp
  from sessions_forward [OF plugin_event this, of ?e] s show ?thesis by (intro exI [of _ q] exI [of _ ?c]) (simp add: Let_def)
qed

theorem time_never_refused_witness:
  "\<exists>q t. NewPipeline DefaultConfig = Inr q \<and> ahead (sample_coordinator q) t \<and> on_merged (coordinator_env 200) sample_merged (sample_coordinator q) =
    coordinator_process (coordinator_env 200) sample_merged t ((sample_coordinator q)\<lparr>latest := sample_merged, co_hasLatest := True,
      co_clock := \<lparr>mc_last = t, mc_hasLast = True\<rparr>\<rparr>)"
proof -
  obtain q where q: "NewPipeline DefaultConfig = Inr q" using default_new by blast
  have fresh: "\<forall>p. Some q = Some p \<longrightarrow> \<not> hasLast p" using default_pipeline [OF q] by simp
  have run: "coordinated (initial_coordinator sample_planner (newServiceWithClock sample_clock) (Some q) coordinator_sender coordinator_status) (sample_coordinator q)"
    by (simp add: sample_coordinator_def)
  have times: "is_i64 (su_wall (coordinator_env 200))" "is_i64 300" "mc_hasLast (co_clock (sample_coordinator q)) \<longrightarrow> mc_last (co_clock (sample_coordinator q)) < max_int64"
    by (simp_all add: coordinator_env_def is_i64_range sample_coordinator_def initial_coordinator_def newMonotonicClock_def)
  show ?thesis using time_never_refused [OF run fresh times, of sample_merged] q by blast
qed

end
