(* ===== verification/Spec2Isabelle.thy ===== *)
theory Spec2Isabelle
  imports Prelude IEEE754 BitSets GoStrings TrackingModel PluginApi OscPacket Channels Tracking FloatBounds Processing Pipeline PipelineRuns
    ParameterTable Parameters Traversal ParameterDeps Evaluator OscBuilder OscCatalog OscSender Protocol Control Events Handshake Supervisor PluginRuntime OscRuntime Application Coordinator Json Avatar AvatarPlans
begin

text \<open>
  A verification library of the vrcft-go tracking host, the Go program that takes face and eye
  tracking frames from plugin processes, arbitrates and processes them, and sends the parameters
  of an avatar over OSC.

  \<^bold>\<open>The program.\<close> Plugins run as processes of their own and speak a framed JSON protocol with the
  host. A supervisor per plugin (internal/plugins) starts its session, which opens with a
  handshake; after it a session writer brings the plugin to the state the host desires (active or
  not, a configuration, a subscription), and the plugin's runtime (pkg/pluginruntime) sends frames,
  statuses, logs and heartbeats. The frames go to the tracking service (internal/tracking), which
  selects the sources and merges their frames. When the avatar changes, the planner
  (internal/avatar) finds and reads its OSC configuration and compiles a plan: the catalog of OSC
  outputs (internal/osc), the instructions that compute the parameters (internal/evaluator) from
  the inputs they depend on (internal/parameterdeps), and the subscriptions for the plugins. The
  coordinator (internal/application) installs the plan, passes merged frames through the
  processing pipeline (internal/processing), evaluates the parameters and hands them to the send
  runtime (internal/osc), whose sender writes the changed ones as OSC packets (pkg/osc).

  \<^bold>\<open>Theories and code.\<close>
  \<^item> Foundations. Prelude: Go's integers, bytes, errors and maps, collections of facts. IEEE754
    and FloatBounds: float32 and float64 as bit patterns with exact rounding, and bounds on
    results. GoStrings and Json: what is used of strings, strconv and encoding/json. BitSets,
    Channels and Traversal: the interfaces below.
  \<^item> Data. TrackingModel: pkg/trackingmodel. PluginApi: pkg/pluginapi. ParameterTable and
    Parameters: internal/parameters with the table of all 127 parameters.
  \<^item> Tracking and processing. Tracking: internal/tracking. Processing, Pipeline and PipelineRuns:
    internal/processing.
  \<^item> Avatars. ParameterDeps: internal/parameterdeps. Evaluator: internal/evaluator. Avatar and
    AvatarPlans: internal/avatar.
  \<^item> OSC. OscPacket: pkg/osc/packet.go. OscBuilder, OscCatalog, OscSender and OscRuntime: scalar.go
    and builder.go; parameter_catalog.go, vrcft_specs.go and catalog.go; source.go and sender.go;
    runtime.go and avatar_changes.go of internal/osc.
  \<^item> Plugins. Protocol: pkg/protocol/message.go. Control, Events, Handshake and Supervisor:
    control.go; events.go and log.go; manifest.go and handshake.go; supervisor.go of
    internal/plugins. PluginRuntime: pkg/pluginruntime.
  \<^item> Application. Application: clock.go, status.go, parameter_drive.go and the texts of errors.
    Coordinator: install.go and coordinator.go of internal/application.

  A Go struct is a record, an enumeration its values or a datatype, an error a value of a sum, a
  map an association list, uint64 a 64 word and int64 an integer that wraps where it is computed
  with; an identifier of a parameter or channel is a number. Names are the source's, with a prefix
  where several types share one. A method is a function that returns the changed record.

  \<^bold>\<open>State machines.\<close> What runs in goroutines is a step relation, and a step is what its locks make
  atomic: the calls of the tracking service (Tracking), the callers of Control against the
  goroutine that sends (Control), the rounds of the event hub (Events) and of a supervisor
  (Supervisor), the rounds of the coordinator's loop against the send loop and the tracking
  service (Coordinator), and the outbound writer of a plugin against its reader and its driver
  (PluginRuntime). There, what a writer has in its hand between two locks is part of the state. A
  wait for a timer, a connection or another goroutine is a step that may come at any time, so the
  theorems hold for every schedule, every order of a select and every order of a map's iteration.
  Two writes of the coordinator's loop that no other goroutine comes between with an effect on them
  (a plugin's session number, then the removal of its source) are one step.

  \<^bold>\<open>Interfaces.\<close> The locale bit_set (BitSets) is the contract of sets kept in machine words:
  expression masks, eye fields, active states, parameter sets and validity bits interpret it. The
  locale latest_slot (Channels) is the contract of a channel or slot that keeps the latest value:
  the tracking service's channels, the status store's, the mailbox of avatar changes and the
  plugin's frame slot interpret it. The locale depth_first (Traversal) is the contract of a
  depth-first walk with marks, from which termination and order follow for both the resolution of
  leaves and the compilation of parameters.

  \<^bold>\<open>What the lemmas show.\<close> Codecs: OSC packets and messages decode to what was encoded, addresses
  and session tokens round trip. Data: validation and canonicalization agree, subscriptions keep
  what is asked for. Tracking and processing: the merged frame is always what the present sources
  select, moves forward only, and a pipeline fed with it never fails. Parameters: dependencies are
  acyclic, compiling and evaluating gives the reference values defined by recursion, and only the
  declared inputs matter. OSC output: catalogs have exactly the outputs the endpoints ask for, a
  sender delivers a prefix of what is due and remembers exactly that. Plugins: a session ends up in
  the state its host desires, calls are answered once, events keep their order, the supervisor
  follows a protocol of one session at a time, and both sides of the handshake and of the controls
  fit together. Application: outputs always belong to the current plan, plans are installed by a
  fixed protocol and failures are recovered from.

  \<^bold>\<open>Loops and fuel.\<close> Loops are structural or have a measure, with these exceptions. resolveLeaves
  and compileWithPlans recurse over a graph; they have fuel for one more call than there are plans
  (length plans + 1) or parameters (ParameterCount + 1), each nested call marks one more, and it is
  proved that None, which stands for the end of the fuel, is never the result, cyclic plans
  included. The functions for JSON texts have fuel 2 * length + 2, since a byte is read at
  every second unit at least, and the nesting limit of 10000 of encoding/json.

  \<^bold>\<open>Parameters of the model.\<close> math.Pow (the only fact used is that x to the power of 1 is x), the
  transport of OSC packets, the connections, the clocks and timers, the JSON form of a payload
  (a function from payloads to bytes or failure; no theorem assumes that it always succeeds, those
  that need a message to be made name it), the file system and the path functions of the operating
  system, the answers of the plugin manager to the installer (any function of the calls so far),
  the contexts (whether they are done, at every look) and the wording of wrapped errors. Floats are
  IEEE with one rounding per Go operation: where a Go compiler fuses a multiplication with an
  addition, results may differ in the last bit.

  \<^bold>\<open>Not modelled.\<close> What is left is input and output, operating system services and glue: the frontend
  and its bindings (app.go, plugins_api.go, settings_api.go, runtime_api.go and the other files of
  the root), the generators and checks of cmd, internal/paramgen, internal/specparser and
  internal/projectstatus, the process and session of a plugin (session.go, process*.go), the
  manager, catalog and store of plugins, the wiring of the application (app.go), the files of user
  settings (internal/userconfig), the SteamLink driver, named pipes and framing (internal/ipc,
  pkg/protocol's connection), and OSC discovery and sockets (mdns.go, query_*.go, udp.go,
  controller.go, service.go).
\<close>

end
